(* ===== verification/Prelude.thy ===== *)
theory Prelude
  imports Main "HOL-Library.Multiset"
begin

text \<open>
  Shared vocabulary of the development: the error monad of the models (a sum with the error
  on the left), the machine-integer helpers for \<open>int\<close> results, and generic list lemmas that the
  components use: the last \<open>n\<close> elements of a list, positions of a first match, replacement of
  one position.  Nothing here is specific to a component.
\<close>

section \<open>Hint collections\<close>

named_theorems seq_simps \<open>evaluation of the error monad\<close>
named_theorems wf_intros \<open>well-formedness preservation\<close>

section \<open>Results that can fail\<close>

definition bind_sum :: "'e + 'a \<Rightarrow> ('a \<Rightarrow> 'e + 'b) \<Rightarrow> 'e + 'b" where
  "bind_sum r f = (case r of Inl e \<Rightarrow> Inl e | Inr x \<Rightarrow> f x)"

lemma bind_sum_simps [simp, seq_simps]:
  "bind_sum (Inl e) f = Inl e"
  "bind_sum (Inr x) f = f x"
  by (simp_all add: bind_sum_def)

lemma bind_sum_eq_Inr [seq_simps]:
  "bind_sum r f = Inr y \<longleftrightarrow> (\<exists>x. r = Inr x \<and> f x = Inr y)"
  by (cases r) auto

lemma bind_sum_eq_Inl:
  "bind_sum r f = Inl e \<longleftrightarrow> r = Inl e \<or> (\<exists>x. r = Inr x \<and> f x = Inl e)"
  by (cases r) auto

text \<open>Running a list of computations from left to right, stopping at the first error.\<close>

fun collect :: "('e + 'a) list \<Rightarrow> 'e + 'a list" where
  "collect [] = Inr []"
| "collect (r # rs) = bind_sum r (\<lambda>x. bind_sum (collect rs) (\<lambda>xs. Inr (x # xs)))"

lemma collect_eq_Inr:
  "collect rs = Inr xs \<longleftrightarrow> rs = map Inr xs"
  by (induction rs arbitrary: xs) (auto simp: bind_sum_eq_Inr)

lemma collect_map_Inr [simp]: "collect (map (\<lambda>x. Inr (f x)) xs) = Inr (map f xs)"
  by (induction xs) auto

lemma collect_eq_Inl_ex:
  "collect rs = Inl e \<Longrightarrow> Inl e \<in> set rs"
  by (induction rs) (auto simp: bind_sum_eq_Inl)

section \<open>The last n elements\<close>

definition lastN :: "nat \<Rightarrow> 'a list \<Rightarrow> 'a list" where
  "lastN n xs = drop (length xs - n) xs"

lemma length_lastN [simp]: "length (lastN n xs) = min n (length xs)"
  by (simp add: lastN_def)

lemma lastN_short [simp]: "length xs \<le> n \<Longrightarrow> lastN n xs = xs"
  by (simp add: lastN_def)

lemma lastN_0 [simp]: "lastN 0 xs = []"
  by (simp add: lastN_def)

lemma lastN_Nil [simp]: "lastN n [] = []"
  by (simp add: lastN_def)

lemma set_lastN_subset: "set (lastN n xs) \<subseteq> set xs"
  by (simp add: lastN_def set_drop_subset)

lemma lastN_snoc_full:
  assumes "length xs = n" "0 < n"
  shows "lastN n (xs @ [x]) = tl xs @ [x]"
  using assms by (cases xs) (auto simp: lastN_def)

lemma lastN_append_lastN: "lastN n (lastN n xs @ ys) = lastN n (xs @ ys)"
proof (cases "length xs \<le> n")
  case True
  then show ?thesis by simp
next
  case False
  then have "lastN n xs = drop (length xs - n) xs" by (simp add: lastN_def)
  then show ?thesis using False by (auto simp: lastN_def add.commute)
qed

lemma lastN_snoc_Suc: "lastN (Suc n) (xs @ [x]) = lastN n xs @ [x]"
  by (auto simp: lastN_def Suc_diff_le not_le)

section \<open>First match\<close>

text \<open>The index of the first element that satisfies a predicate, as a forward loop finds it.\<close>

fun first_index :: "('a \<Rightarrow> bool) \<Rightarrow> 'a list \<Rightarrow> nat option" where
  "first_index P [] = None"
| "first_index P (x # xs) = (if P x then Some 0 else map_option Suc (first_index P xs))"

lemma first_index_None [simp]: "first_index P xs = None \<longleftrightarrow> (\<forall>x\<in>set xs. \<not> P x)"
  by (induction xs) auto

lemma first_index_SomeD:
  assumes "first_index P xs = Some i"
  shows "i < length xs" and "P (xs ! i)" and "\<And>j. j < i \<Longrightarrow> \<not> P (xs ! j)"
proof -
  have "i < length xs \<and> P (xs ! i) \<and> (\<forall>j<i. \<not> P (xs ! j))"
    using assms
  proof (induction xs arbitrary: i)
    case (Cons x xs)
    show ?case
    proof (cases "P x")
      case False
      with Cons.prems obtain k where k: "first_index P xs = Some k" "i = Suc k" by auto
      from Cons.IH [OF k(1)] k(2) False show ?thesis
        by (auto simp: less_Suc_eq_0_disj)
    qed (use Cons.prems in auto)
  qed simp
  then show "i < length xs" "P (xs ! i)" "\<And>j. j < i \<Longrightarrow> \<not> P (xs ! j)" by auto
qed

lemma first_index_Some_iff:
  "first_index P xs = Some i \<longleftrightarrow> i < length xs \<and> P (xs ! i) \<and> (\<forall>j<i. \<not> P (xs ! j))"
proof
  assume r: "i < length xs \<and> P (xs ! i) \<and> (\<forall>j<i. \<not> P (xs ! j))"
  then obtain k where k: "first_index P xs = Some k"
    by (cases "first_index P xs") (auto dest: nth_mem)
  have "k = i"
    using r first_index_SomeD [OF k] by (metis linorder_neqE_nat)
  with k show "first_index P xs = Some i" by simp
qed (auto dest: first_index_SomeD)

lemma find_eq_first_index:
  "find P xs = map_option (\<lambda>i. xs ! i) (first_index P xs)"
  by (induction xs) (auto simp: option.map_comp o_def)

section \<open>C++ integers\<close>

text \<open>
  A C++ \<open>int\<close> has 32 bits.  Signed arithmetic that leaves the range is undefined behaviour, so
  the models return an error there instead of wrapping.  \<open>static_cast<int>\<close> of a larger unsigned
  value keeps the low 32 bits, read in two's complement.
\<close>

definition int_min :: int where "int_min = - (2 ^ 31)"
definition int_max :: int where "int_max = 2 ^ 31 - 1"

definition in_int_range :: "int \<Rightarrow> bool" where
  "in_int_range n \<longleftrightarrow> int_min \<le> n \<and> n \<le> int_max"

definition cast_int :: "int \<Rightarrow> int" where
  "cast_int n = (n - int_min) mod 2 ^ 32 + int_min"

lemma cast_int_id [simp]: "in_int_range n \<Longrightarrow> cast_int n = n"
  by (simp add: cast_int_def in_int_range_def int_min_def int_max_def)

lemma cast_int_range: "in_int_range (cast_int n)"
  using pos_mod_bound [of "2 ^ 32" "n - int_min"] pos_mod_sign [of "2 ^ 32" "n - int_min"]
  by (simp add: cast_int_def in_int_range_def int_min_def int_max_def)

text \<open>Division and remainder truncate towards zero.\<close>

definition cpp_div :: "int \<Rightarrow> int \<Rightarrow> int" where
  "cpp_div a b = sgn a * sgn b * (\<bar>a\<bar> div \<bar>b\<bar>)"

definition cpp_mod :: "int \<Rightarrow> int \<Rightarrow> int" where
  "cpp_mod a b = a - b * cpp_div a b"

lemma cpp_mod_sgn_abs: "cpp_mod a b = sgn a * (\<bar>a\<bar> mod \<bar>b\<bar>)"
proof -
  have "sgn a * \<bar>a\<bar> = a" "sgn b * b = \<bar>b\<bar>" by (simp_all add: sgn_if abs_if)
  then have "cpp_mod a b = sgn a * (\<bar>a\<bar> - \<bar>b\<bar> * (\<bar>a\<bar> div \<bar>b\<bar>))"
    by (simp add: cpp_mod_def cpp_div_def algebra_simps)
  then show ?thesis by (simp add: minus_mult_div_eq_mod)
qed

lemma cpp_mod_range: "in_int_range a \<Longrightarrow> in_int_range (cpp_mod a b)"
proof -
  assume a: "in_int_range a"
  have "\<bar>a\<bar> mod \<bar>b\<bar> \<le> \<bar>a\<bar>" and "0 \<le> \<bar>a\<bar> mod \<bar>b\<bar>"
    by (cases "b = 0"; simp add: zmod_le_nonneg_dividend)+
  then have "\<bar>cpp_mod a b\<bar> \<le> \<bar>a\<bar>" and "sgn (cpp_mod a b) * sgn a \<ge> 0"
    unfolding cpp_mod_sgn_abs by (auto simp: abs_mult sgn_mult sgn_if)
  with a show ?thesis
    by (auto simp: in_int_range_def int_min_def int_max_def sgn_if abs_if split: if_splits)
qed

section \<open>Ordered maps\<close>

text \<open>
  \<open>QMap\<close> and \<open>std::map\<close> as association lists sorted by key, because the code iterates over them.
\<close>

fun omap_insert :: "'k::linorder \<Rightarrow> 'v \<Rightarrow> ('k \<times> 'v) list \<Rightarrow> ('k \<times> 'v) list" where
  "omap_insert k v [] = [(k, v)]"
| "omap_insert k v ((k', v') # xs) =
     (if k < k' then (k, v) # (k', v') # xs
      else if k = k' then (k, v) # xs
      else (k', v') # omap_insert k v xs)"

definition omap_remove :: "'k \<Rightarrow> ('k \<times> 'v) list \<Rightarrow> ('k \<times> 'v) list" where
  "omap_remove k xs = filter (\<lambda>e. fst e \<noteq> k) xs"

abbreviation ordered :: "('k::linorder \<times> 'v) list \<Rightarrow> bool" where
  "ordered xs \<equiv> sorted_wrt (<) (map fst xs)"

lemma keys_omap_insert: "fst ` set (omap_insert k v xs) = insert k (fst ` set xs)"
  by (induction k v xs rule: omap_insert.induct) auto

lemma ordered_insert:
  assumes "ordered xs"
  shows "ordered (omap_insert k v xs)"
    and "map_of (omap_insert k v xs) = (map_of xs)(k \<mapsto> v)"
proof -
  show "ordered (omap_insert k v xs)"
    using assms
  proof (induction k v xs rule: omap_insert.induct)
    case (2 k v k' v' xs)
    have "\<forall>x\<in>fst ` set (omap_insert k v xs). k' < x" if "\<not> k < k'" "k \<noteq> k'"
      using that 2(2) unfolding keys_omap_insert by auto
    with 2 show ?case by (auto simp del: split_paired_All)
  qed simp
  show "map_of (omap_insert k v xs) = (map_of xs)(k \<mapsto> v)"
    using assms by (induction k v xs rule: omap_insert.induct) auto
qed

lemma map_of_omap_remove: "map_of (omap_remove k xs) = (map_of xs)(k := None)"
  by (induction xs) (auto simp: omap_remove_def)

lemma ordered_remove: "ordered xs \<Longrightarrow> ordered (omap_remove k xs)"
  by (induction xs) (auto simp: omap_remove_def)

lemma ordered_ext:
  assumes "ordered xs" "ordered ys" "map_of xs = map_of ys"
  shows "xs = ys"
proof -
  have d: "distinct (map fst xs)" "distinct (map fst ys)" "sorted (map fst xs)" "sorted (map fst ys)"
    using assms(1,2) by (auto simp: strict_sorted_iff)
  have "set xs = set ys"
    using d assms(3) by (metis map_of_eq_Some_iff subsetI subset_antisym surj_pair)
  moreover have "inj_on fst (set xs \<union> set ys)"
    using calculation d(1) by (simp add: distinct_map)
  ultimately show ?thesis
    using d by (intro map_sorted_distinct_set_unique [of fst]) auto
qed

section \<open>Inserting and erasing at a position\<close>

text \<open>\<open>std::vector::insert\<close> and \<open>erase\<close> at an iterator \<open>begin() + i\<close>, for positions in range.\<close>

definition insert_at :: "nat \<Rightarrow> 'a \<Rightarrow> 'a list \<Rightarrow> 'a list" where
  "insert_at i x xs = take i xs @ x # drop i xs"

definition erase_at :: "nat \<Rightarrow> 'a list \<Rightarrow> 'a list" where
  "erase_at i xs = take i xs @ drop (Suc i) xs"

lemma length_insert_at [simp]: "length (insert_at i x xs) = Suc (length xs)"
  by (simp add: insert_at_def)

lemma length_erase_at [simp]: "i < length xs \<Longrightarrow> length (erase_at i xs) = length xs - 1"
  by (simp add: erase_at_def)

lemma erase_insert_at [simp]: "i \<le> length xs \<Longrightarrow> erase_at i (insert_at i x xs) = xs"
  by (simp add: insert_at_def erase_at_def)

lemma insert_erase_at: "i < length xs \<Longrightarrow> insert_at i x (erase_at i xs) = xs[i := x]"
  by (simp add: insert_at_def erase_at_def upd_conv_take_nth_drop)

lemma map_insert_at: "map f (insert_at i x xs) = insert_at i (f x) (map f xs)"
  by (simp add: insert_at_def take_map drop_map)

lemma map_erase_at: "map f (erase_at i xs) = erase_at i (map f xs)"
  by (simp add: erase_at_def take_map drop_map)

lemma set_insert_at [simp]: "set (insert_at i x xs) = insert x (set xs)"
  by (metis Un_insert_right append_take_drop_id insert_at_def list.set(2) set_append)

lemma set_erase_at_subset: "set (erase_at i xs) \<subseteq> set xs"
  using set_take_subset [of i xs] set_drop_subset [of "Suc i" xs] by (auto simp: erase_at_def)

lemma insert_at_length [simp]: "insert_at (length xs) x xs = xs @ [x]"
  by (simp add: insert_at_def)

lemma nth_insert_at [simp]: "i \<le> length xs \<Longrightarrow> insert_at i x xs ! i = x"
  by (simp add: insert_at_def nth_append)

lemma insert_at_Cons_Suc [simp]: "insert_at (Suc i) x (y # ys) = y # insert_at i x ys"
  by (simp add: insert_at_def)

lemma insert_at_0 [simp]: "insert_at 0 x xs = x # xs"
  by (simp add: insert_at_def)

lemma erase_at_Cons_Suc [simp]: "erase_at (Suc i) (y # ys) = y # erase_at i ys"
  by (simp add: erase_at_def)

lemma erase_at_Cons_0 [simp]: "erase_at 0 (y # ys) = ys"
  by (simp add: erase_at_def)

lemma mset_insert_at [simp]: "mset (insert_at i x xs) = add_mset x (mset xs)"
proof -
  have "mset (take i xs) + mset (drop i xs) = mset xs"
    by (metis append_take_drop_id mset_append)
  then show ?thesis by (simp add: insert_at_def)
qed

lemma mset_erase_at: "i < length xs \<Longrightarrow> mset (erase_at i xs) = mset xs - {#xs ! i#}"
  by (metis add_mset_remove_trivial id_take_nth_drop mset.simps(2) mset_append erase_at_def
      union_mset_add_mset_right)

section \<open>Splitting mapped lists\<close>

lemma map_eq_appendE:
  assumes "map f xs = ys @ zs"
  obtains us vs where "xs = us @ vs" "map f us = ys" "map f vs = zs"
proof
  show "xs = take (length ys) xs @ drop (length ys) xs" by simp
  show "map f (take (length ys) xs) = ys" "map f (drop (length ys) xs) = zs"
    unfolding take_map [symmetric] drop_map [symmetric] assms by simp_all
qed

lemma map_eq_ConsE:
  assumes "map f xs = y # zs"
  obtains u vs where "xs = u # vs" "f u = y" "map f vs = zs"
  using assms by (cases xs) auto

section \<open>Splitting lists\<close>

text \<open>\<open>QString::split\<close> at a character, keeping empty parts.\<close>

fun splitOn :: "'a \<Rightarrow> 'a list \<Rightarrow> 'a list list" where
  "splitOn c [] = [[]]"
| "splitOn c (x # xs) =
     (if x = c then [] # splitOn c xs else (x # hd (splitOn c xs)) # tl (splitOn c xs))"

lemma splitOn_ne [simp]: "splitOn c xs \<noteq> []"
  by (cases xs) auto

lemma splitOn_none: "c \<notin> set xs \<Longrightarrow> splitOn c xs = [xs]"
  by (induction xs) auto

lemma splitOn_append: "c \<notin> set ws \<Longrightarrow> splitOn c (ws @ c # xs) = ws # splitOn c xs"
  by (induction ws) auto

lemma splitOn_parts: "w \<in> set (splitOn c xs) \<Longrightarrow> c \<notin> set w"
proof (induction xs arbitrary: w)
  case (Cons x xs)
  obtain h t where "splitOn c xs = h # t" by (metis list.exhaust splitOn_ne)
  with Cons show ?case by (auto split: if_splits)
qed simp

section \<open>Sorting by a comparison\<close>

text \<open>\<open>std::sort\<close> is a parameter of the models.  What it promises is promised for strict weak orders only: it returns a
  permutation, and nothing in it stands behind what it is less than.\<close>

definition strict_weak :: "('a \<Rightarrow> 'a \<Rightarrow> bool) \<Rightarrow> bool" where
  "strict_weak lt \<longleftrightarrow> (\<forall>a b. lt a b \<longrightarrow> \<not> lt b a) \<and> (\<forall>a b c. lt a c \<longrightarrow> lt a b \<or> lt b c)"

definition std_sort_law :: "(('a \<Rightarrow> 'a \<Rightarrow> bool) \<Rightarrow> 'a list \<Rightarrow> 'a list) \<Rightarrow> bool" where
  "std_sort_law f \<longleftrightarrow> (\<forall>lt xs. strict_weak lt \<longrightarrow> mset (f lt xs) = mset xs \<and> sorted_wrt (\<lambda>a b. \<not> lt b a) (f lt xs))"

lemma std_sortD:
  assumes "std_sort_law f" "strict_weak lt"
  shows "mset (f lt xs) = mset xs" "sorted_wrt (\<lambda>a b. \<not> lt b a) (f lt xs)" "length (f lt xs) = length xs"
  using assms by (auto simp: std_sort_law_def intro: mset_eq_length)

text \<open>Insertion sort keeps this promise.\<close>

fun insert_by :: "('a \<Rightarrow> 'a \<Rightarrow> bool) \<Rightarrow> 'a \<Rightarrow> 'a list \<Rightarrow> 'a list" where
  "insert_by lt x [] = [x]"
| "insert_by lt x (y # ys) = (if lt y x then y # insert_by lt x ys else x # y # ys)"

definition sort_by :: "('a \<Rightarrow> 'a \<Rightarrow> bool) \<Rightarrow> 'a list \<Rightarrow> 'a list" where
  "sort_by lt xs = foldr (insert_by lt) xs []"

lemma insert_by_mset: "mset (insert_by lt x ys) = add_mset x (mset ys)"
  by (induction ys) auto

lemma insert_by_sorted:
  assumes "strict_weak lt" "sorted_wrt (\<lambda>a b. \<not> lt b a) ys"
  shows "sorted_wrt (\<lambda>a b. \<not> lt b a) (insert_by lt x ys)"
  using assms(2)
proof (induction ys)
  case (Cons y ys)
  have sub: "set (insert_by lt x ys) = insert x (set ys)"
    using insert_by_mset [of lt x ys] by (metis set_mset_add_mset_insert set_mset_mset)
  show ?case
  proof (cases "lt y x")
    case True
    then have "\<not> lt x y" using assms(1) by (simp add: strict_weak_def)
    then show ?thesis using Cons True sub by auto
  next
    case False
    have "\<not> lt z x" if z: "z \<in> set ys" for z
    proof -
      have "\<not> lt z y" using z Cons.prems by simp
      moreover have "lt z x \<longrightarrow> lt z y \<or> lt y x" using assms(1) unfolding strict_weak_def by blast
      ultimately show ?thesis using False by blast
    qed
    then show ?thesis using False Cons.prems by auto
  qed
qed simp

lemma sort_by_law: "std_sort_law sort_by"
proof -
  have "mset (sort_by lt xs) = mset xs" for lt and xs :: "'a list"
    by (induction xs) (simp_all add: sort_by_def insert_by_mset)
  moreover have "strict_weak lt \<Longrightarrow> sorted_wrt (\<lambda>a b. \<not> lt b a) (sort_by lt xs)" for lt and xs :: "'a list"
    by (induction xs) (simp_all add: sort_by_def insert_by_sorted)
  ultimately show ?thesis by (simp add: std_sort_law_def)
qed

end
