(* ===== verification/LimitedQueue.thy ===== *)
theory LimitedQueue
  imports Prelude
begin

text \<open>
  \<open>messages/LimitedQueue.hpp\<close> and \<open>messages/LimitedQueueSnapshot.hpp\<close>: the bounded buffer every
  channel keeps its messages in.

  The storage is a \<open>boost::circular_buffer\<close>, which is not part of the repository.  Its
  modifiers are the record \<open>circular_buffer\<close>, carried by the queue as its field \<open>lq_boost\<close>; the
  documented behaviour the queue relies on is the predicate \<open>circular_buffer_laws\<close>, part of the
  well-formedness \<open>lq_wf\<close>.  The observers (\<open>size\<close>, \<open>front\<close>, \<open>[]\<close>, iteration) read the contents as
  a list, oldest element first.  The mutex serialises the operations and has no other effect on
  the result of one operation.
\<close>

section \<open>The container, and the queue\<close>

record 'a circular_buffer =
  cb_full :: "nat \<Rightarrow> 'a list \<Rightarrow> bool"
  cb_push_back :: "nat \<Rightarrow> 'a list \<Rightarrow> 'a \<Rightarrow> 'a list"
  cb_push_front :: "nat \<Rightarrow> 'a list \<Rightarrow> 'a \<Rightarrow> 'a list"
  cb_insert :: "nat \<Rightarrow> 'a list \<Rightarrow> nat \<Rightarrow> 'a \<Rightarrow> 'a list"

record 'a LimitedQueue =
  lq_limit :: nat
  lq_buffer :: "'a list"
  lq_boost :: "'a circular_buffer"

text \<open>
  The first argument of each modifier is the capacity.  A full buffer overwrites its first
  element on \<open>push_back\<close> and its last one on \<open>push_front\<close>; \<open>insert\<close> into a full buffer overwrites
  the first element, and does not insert at all when the position is \<open>begin()\<close>.
\<close>

definition circular_buffer_laws :: "'a circular_buffer \<Rightarrow> bool" where
  "circular_buffer_laws cb \<longleftrightarrow>
     (\<forall>cap xs. cb_full cb cap xs = (length xs = cap)) \<and>
     (\<forall>cap xs x. length xs < cap \<longrightarrow> cb_push_back cb cap xs x = xs @ [x]) \<and>
     (\<forall>cap xs x. length xs = cap \<longrightarrow>
        cb_push_back cb cap xs x = (if cap = 0 then [] else tl xs @ [x])) \<and>
     (\<forall>cap xs x. length xs < cap \<longrightarrow> cb_push_front cb cap xs x = x # xs) \<and>
     (\<forall>cap xs x. length xs = cap \<longrightarrow>
        cb_push_front cb cap xs x = (if cap = 0 then [] else x # butlast xs)) \<and>
     (\<forall>cap xs i x. length xs < cap \<longrightarrow> i \<le> length xs \<longrightarrow>
        cb_insert cb cap xs i x = take i xs @ x # drop i xs) \<and>
     (\<forall>cap xs i x. length xs = cap \<longrightarrow> i \<le> length xs \<longrightarrow>
        cb_insert cb cap xs i x = (if i = 0 then xs else tl (take i xs @ x # drop i xs)))"

definition LimitedQueue :: "'a circular_buffer \<Rightarrow> nat \<Rightarrow> 'a LimitedQueue" where
  "LimitedQueue cb limit = \<lparr>lq_limit = limit, lq_buffer = [], lq_boost = cb\<rparr>"

definition lq_wf :: "'a LimitedQueue \<Rightarrow> bool" where
  "lq_wf q \<longleftrightarrow> circular_buffer_laws (lq_boost q) \<and> length (lq_buffer q) \<le> lq_limit q"

section \<open>Accessors\<close>

definition lq_space :: "'a LimitedQueue \<Rightarrow> nat" where
  "lq_space q = lq_limit q - length (lq_buffer q)"

definition lq_empty :: "'a LimitedQueue \<Rightarrow> bool" where
  "lq_empty q = (lq_buffer q = [])"

definition lq_get :: "'a LimitedQueue \<Rightarrow> nat \<Rightarrow> 'a option" where
  "lq_get q index = (if length (lq_buffer q) \<le> index then None else Some (lq_buffer q ! index))"

definition lq_first :: "'a LimitedQueue \<Rightarrow> 'a option" where
  "lq_first q = (case lq_buffer q of [] \<Rightarrow> None | x # _ \<Rightarrow> Some x)"

definition lq_last :: "'a LimitedQueue \<Rightarrow> 'a option" where
  "lq_last q = (if lq_buffer q = [] then None else Some (last (lq_buffer q)))"

definition getSnapshot :: "'a LimitedQueue \<Rightarrow> 'a list" where
  "getSnapshot q = lq_buffer q"

section \<open>Modifiers\<close>

definition lq_clear :: "'a LimitedQueue \<Rightarrow> 'a LimitedQueue" where
  "lq_clear q = q\<lparr>lq_buffer := []\<rparr>"

definition pushBack :: "'a LimitedQueue \<Rightarrow> 'a \<Rightarrow> 'a LimitedQueue \<times> bool" where
  "pushBack q item =
     (let full = cb_full (lq_boost q) (lq_limit q) (lq_buffer q)
      in (q\<lparr>lq_buffer := cb_push_back (lq_boost q) (lq_limit q) (lq_buffer q) item\<rparr>, full))"

text \<open>
  The overload that hands out the overwritten element.  \<open>None\<close>: \<open>front()\<close> of an empty container,
  which is undefined; only a queue of limit 0 gets there.
\<close>

definition pushBack_deleted ::
  "'a LimitedQueue \<Rightarrow> 'a \<Rightarrow> 'a \<Rightarrow> ('a LimitedQueue \<times> bool \<times> 'a) option" where
  "pushBack_deleted q item deleted =
     (let full = cb_full (lq_boost q) (lq_limit q) (lq_buffer q);
          q' = q\<lparr>lq_buffer := cb_push_back (lq_boost q) (lq_limit q) (lq_buffer q) item\<rparr>
      in if full
         then (case lq_buffer q of [] \<Rightarrow> None | front # _ \<Rightarrow> Some (q', full, front))
         else Some (q', full, deleted))"

text \<open>
  The loop of \<open>pushFront\<close>: \<open>f\<close> runs up to the size and \<open>b\<close> down from the last index.  \<open>b\<close> is only
  read while \<open>f\<close> is in range, so its wrap-around after the last round is not observable.
\<close>

function pushFront_loop ::
  "'a LimitedQueue \<Rightarrow> 'a list \<Rightarrow> nat \<Rightarrow> nat \<Rightarrow> 'a list \<Rightarrow> 'a LimitedQueue \<times> 'a list" where
  "pushFront_loop q items f b pushed =
     (if f < length items
      then pushFront_loop
             (q\<lparr>lq_buffer := cb_push_front (lq_boost q) (lq_limit q) (lq_buffer q) (items ! b)\<rparr>)
             items (Suc f) (b - 1) (pushed @ [items ! f])
      else (q, pushed))"
  by pat_completeness auto
termination
  by (relation "measure (\<lambda>(q, items, f, b, pushed). length items - f)") auto

declare pushFront_loop.simps [simp del]

definition pushFront :: "'a LimitedQueue \<Rightarrow> 'a list \<Rightarrow> 'a LimitedQueue \<times> 'a list" where
  "pushFront q items =
     (let numToPush = min (length items) (lq_space q)
      in pushFront_loop q items (length items - numToPush) (length items - 1) [])"

text \<open>The three overloads of \<open>replaceItem\<close>: by value, by index, by index hint then value.\<close>

definition replaceItem ::
  "('a \<Rightarrow> 'a \<Rightarrow> bool) \<Rightarrow> 'a LimitedQueue \<Rightarrow> 'a \<Rightarrow> 'a \<Rightarrow> 'a LimitedQueue \<times> int" where
  "replaceItem eq q needle replacement =
     (case first_index (\<lambda>x. eq x needle) (lq_buffer q) of
        Some i \<Rightarrow> (q\<lparr>lq_buffer := (lq_buffer q)[i := replacement]\<rparr>, cast_int (int i))
      | None \<Rightarrow> (q, -1))"

definition replaceItem_at ::
  "'a LimitedQueue \<Rightarrow> nat \<Rightarrow> 'a \<Rightarrow> 'a LimitedQueue \<times> bool \<times> 'a option" where
  "replaceItem_at q index replacement =
     (if length (lq_buffer q) \<le> index then (q, False, None)
      else (q\<lparr>lq_buffer := (lq_buffer q)[index := replacement]\<rparr>, True, Some (lq_buffer q ! index)))"

definition replaceItem_hint ::
  "'a LimitedQueue \<Rightarrow> nat \<Rightarrow> 'a \<Rightarrow> 'a \<Rightarrow> 'a LimitedQueue \<times> int" where
  "replaceItem_hint q hint needle replacement =
     (if hint < length (lq_buffer q) \<and> lq_buffer q ! hint = needle
      then (q\<lparr>lq_buffer := (lq_buffer q)[hint := replacement]\<rparr>, cast_int (int hint))
      else (case first_index (\<lambda>x. x = needle) (lq_buffer q) of
              Some i \<Rightarrow> (q\<lparr>lq_buffer := (lq_buffer q)[i := replacement]\<rparr>, cast_int (int i))
            | None \<Rightarrow> (q, -1)))"

definition insertBefore ::
  "('a \<Rightarrow> 'a \<Rightarrow> bool) \<Rightarrow> 'a LimitedQueue \<Rightarrow> 'a \<Rightarrow> 'a \<Rightarrow> 'a LimitedQueue \<times> bool" where
  "insertBefore eq q needle item =
     (case first_index (\<lambda>x. eq x needle) (lq_buffer q) of
        Some i \<Rightarrow> (q\<lparr>lq_buffer := cb_insert (lq_boost q) (lq_limit q) (lq_buffer q) i item\<rparr>, True)
      | None \<Rightarrow> (q, False))"

definition insertAfter ::
  "('a \<Rightarrow> 'a \<Rightarrow> bool) \<Rightarrow> 'a LimitedQueue \<Rightarrow> 'a \<Rightarrow> 'a \<Rightarrow> 'a LimitedQueue \<times> bool" where
  "insertAfter eq q needle item =
     (case first_index (\<lambda>x. eq x needle) (lq_buffer q) of
        Some i \<Rightarrow> (q\<lparr>lq_buffer := cb_insert (lq_boost q) (lq_limit q) (lq_buffer q) (Suc i) item\<rparr>, True)
      | None \<Rightarrow> (q, False))"

section \<open>Searching\<close>

definition lq_find :: "'a LimitedQueue \<Rightarrow> ('a \<Rightarrow> bool) \<Rightarrow> 'a option" where
  "lq_find q pred = find pred (lq_buffer q)"

definition lq_find_hint :: "'a LimitedQueue \<Rightarrow> nat \<Rightarrow> ('a \<Rightarrow> bool) \<Rightarrow> (nat \<times> 'a) option" where
  "lq_find_hint q hint pred =
     (if hint < length (lq_buffer q) \<and> pred (lq_buffer q ! hint)
      then Some (hint, lq_buffer q ! hint)
      else map_option (\<lambda>i. (i, lq_buffer q ! i)) (first_index pred (lq_buffer q)))"

definition lq_rfind :: "'a LimitedQueue \<Rightarrow> ('a \<Rightarrow> bool) \<Rightarrow> 'a option" where
  "lq_rfind q pred = find pred (rev (lq_buffer q))"

section \<open>The interface of a bounded buffer\<close>

text \<open>
  What a producer that only appends relies on: one append keeps the invariant, the capacity and
  the newest elements, and says whether it dropped one.
\<close>

locale bounded_buffer =
  fixes inv :: "'q \<Rightarrow> bool"
    and view :: "'q \<Rightarrow> 'a list"
    and cap :: "'q \<Rightarrow> nat"
    and push :: "'q \<Rightarrow> 'a \<Rightarrow> 'q \<times> bool"
  assumes view_bounded: "inv q \<Longrightarrow> length (view q) \<le> cap q"
    and push_inv: "inv q \<Longrightarrow> inv (fst (push q x))"
    and push_cap: "inv q \<Longrightarrow> cap (fst (push q x)) = cap q"
    and push_view: "inv q \<Longrightarrow> view (fst (push q x)) = lastN (cap q) (view q @ [x])"
    and push_dropped: "inv q \<Longrightarrow> snd (push q x) \<longleftrightarrow> length (view q) = cap q"
begin

lemma pushes_inv: "inv q \<Longrightarrow> inv (fold (\<lambda>x q. fst (push q x)) xs q)"
  by (induction xs arbitrary: q) (auto intro: push_inv)

lemma pushes_cap: "inv q \<Longrightarrow> cap (fold (\<lambda>x q. fst (push q x)) xs q) = cap q"
  by (induction xs arbitrary: q) (auto simp: push_inv push_cap)

lemma pushes_view:
  "inv q \<Longrightarrow> view (fold (\<lambda>x q. fst (push q x)) xs q) = lastN (cap q) (view q @ xs)"
proof (induction xs arbitrary: q)
  case Nil
  then show ?case by (simp add: view_bounded)
next
  case (Cons x xs)
  then show ?case
    by (simp add: push_inv push_cap push_view lastN_append_lastN)
qed

end

section \<open>Lemmas about the container\<close>

lemma lq_wf_LimitedQueue [wf_intros]:
  "circular_buffer_laws cb \<Longrightarrow> lq_wf (LimitedQueue cb n)"
  by (simp add: lq_wf_def LimitedQueue_def)

lemma circular_buffer_lawsD:
  assumes "circular_buffer_laws cb"
  shows "\<forall>cap xs. cb_full cb cap xs = (length xs = cap)"
    and "\<forall>cap xs x. length xs < cap \<longrightarrow> cb_push_back cb cap xs x = xs @ [x]"
    and "\<forall>cap xs x. length xs = cap \<longrightarrow>
        cb_push_back cb cap xs x = (if cap = 0 then [] else tl xs @ [x])"
    and "\<forall>cap xs x. length xs < cap \<longrightarrow> cb_push_front cb cap xs x = x # xs"
    and "\<forall>cap xs i x. length xs < cap \<longrightarrow> i \<le> length xs \<longrightarrow>
        cb_insert cb cap xs i x = take i xs @ x # drop i xs"
    and "\<forall>cap xs i x. length xs = cap \<longrightarrow> i \<le> length xs \<longrightarrow>
        cb_insert cb cap xs i x = (if i = 0 then xs else tl (take i xs @ x # drop i xs))"
  using assms unfolding circular_buffer_laws_def by - (elim conjE, assumption)+

lemma cb_full_iff: "circular_buffer_laws cb \<Longrightarrow> cb_full cb cap xs \<longleftrightarrow> length xs = cap"
  using circular_buffer_lawsD(1) by blast

lemma cb_push_back_full:
  "circular_buffer_laws cb \<Longrightarrow> length xs = cap \<Longrightarrow>
   cb_push_back cb cap xs x = (if cap = 0 then [] else tl xs @ [x])"
  using circular_buffer_lawsD(3) [of cb] by blast

lemma cb_push_back_space:
  "circular_buffer_laws cb \<Longrightarrow> length xs < cap \<Longrightarrow> cb_push_back cb cap xs x = xs @ [x]"
  using circular_buffer_lawsD(2) [of cb] by blast

lemma cb_push_back_lastN:
  assumes "circular_buffer_laws cb" "length xs \<le> cap"
  shows "cb_push_back cb cap xs x = lastN cap (xs @ [x])"
proof (cases "length xs < cap")
  case True
  with assms show ?thesis by (simp add: cb_push_back_space)
next
  case False
  with assms show ?thesis
    by (cases "cap = 0") (auto simp: cb_push_back_full lastN_snoc_full)
qed

lemma cb_push_front_space:
  "circular_buffer_laws cb \<Longrightarrow> length xs < cap \<Longrightarrow> cb_push_front cb cap xs x = x # xs"
  using circular_buffer_lawsD(4) [of cb] by blast

lemma cb_insert_space:
  "circular_buffer_laws cb \<Longrightarrow> length xs < cap \<Longrightarrow> i \<le> length xs \<Longrightarrow>
   cb_insert cb cap xs i x = take i xs @ x # drop i xs"
  using circular_buffer_lawsD(5) [of cb] by blast

lemma cb_insert_full:
  "circular_buffer_laws cb \<Longrightarrow> length xs = cap \<Longrightarrow> i \<le> length xs \<Longrightarrow>
   cb_insert cb cap xs i x = (if i = 0 then xs else tl (take i xs @ x # drop i xs))"
  using circular_buffer_lawsD(6) [of cb] by blast

lemmas container_simps = cb_full_iff cb_push_back_lastN cb_push_front_space

interpretation lq: bounded_buffer lq_wf lq_buffer lq_limit pushBack
  by unfold_locales (auto simp: lq_wf_def pushBack_def container_simps)

lemma lq_wf_pushBack [wf_intros]: "lq_wf q \<Longrightarrow> lq_wf (fst (pushBack q x))"
  by (rule lq.push_inv)

lemma lq_wf_insert:
  assumes "lq_wf q" "i \<le> length (lq_buffer q)"
  shows "lq_wf (q\<lparr>lq_buffer := cb_insert (lq_boost q) (lq_limit q) (lq_buffer q) i x\<rparr>)"
proof (cases "length (lq_buffer q) < lq_limit q")
  case True
  with assms show ?thesis by (simp add: lq_wf_def cb_insert_space)
next
  case False
  with assms show ?thesis by (auto simp: lq_wf_def cb_insert_full)
qed

lemma lq_wf_insertBefore [wf_intros]: "lq_wf q \<Longrightarrow> lq_wf (fst (insertBefore eq q n x))"
  by (auto simp: insertBefore_def intro!: lq_wf_insert dest: first_index_SomeD(1)
      split: option.split)

lemma lq_wf_insertAfter [wf_intros]: "lq_wf q \<Longrightarrow> lq_wf (fst (insertAfter eq q n x))"
  by (auto simp: insertAfter_def intro!: lq_wf_insert Suc_leI dest: first_index_SomeD(1)
      split: option.split)

lemma lq_wf_replaceItem [wf_intros]: "lq_wf q \<Longrightarrow> lq_wf (fst (replaceItem eq q n r))"
  by (auto simp: replaceItem_def lq_wf_def split: option.splits)

lemma lq_wf_replaceItem_hint [wf_intros]: "lq_wf q \<Longrightarrow> lq_wf (fst (replaceItem_hint q h n r))"
  by (auto simp: replaceItem_hint_def lq_wf_def split: option.splits)

lemma lq_wf_replaceItem_at [wf_intros]: "lq_wf q \<Longrightarrow> lq_wf (fst (replaceItem_at q i r))"
  by (auto simp: replaceItem_at_def lq_wf_def)

lemma lq_wf_clear [wf_intros]: "lq_wf q \<Longrightarrow> lq_wf (lq_clear q)"
  by (simp add: lq_clear_def lq_wf_def)

section \<open>pushFront\<close>

lemma pushFront_loop_spec:
  assumes "circular_buffer_laws (lq_boost q)" "b < length items"
    and "length (lq_buffer q) + (length items - f) \<le> lq_limit q"
    and "length items - f \<le> Suc b"
  shows "pushFront_loop q items f b pushed =
    (q\<lparr>lq_buffer := take (length items - f) (drop (Suc b - (length items - f)) items) @ lq_buffer q\<rparr>,
     pushed @ drop f items)"
  using assms
proof (induction q items f b pushed rule: pushFront_loop.induct)
  case (1 q items f b pushed)
  show ?case
  proof (cases "f < length items")
    case True
    define r where "r = length items - Suc f"
    have r: "length items - f = Suc r" using True by (simp add: r_def)
    have front: "cb_push_front (lq_boost q) (lq_limit q) (lq_buffer q) (items ! b)
        = items ! b # lq_buffer q"
      using "1.prems" r by (intro cb_push_front_space) auto
    have "take (Suc r) (drop (b - r) items) = take r (drop (b - r) items) @ [items ! b]"
      using "1.prems" r by (subst take_Suc_conv_app_nth) auto
    moreover have "take r (drop (Suc (b - 1) - r) items) = take r (drop (b - r) items)"
      by (cases b) (use "1.prems" r in auto)
    moreover have "pushFront_loop (q\<lparr>lq_buffer := items ! b # lq_buffer q\<rparr>) items (Suc f) (b - 1)
          (pushed @ [items ! f]) =
        (q\<lparr>lq_buffer := take r (drop (Suc (b - 1) - r) items) @ items ! b # lq_buffer q\<rparr>,
         (pushed @ [items ! f]) @ drop (Suc f) items)"
      using "1.IH" [OF True] "1.prems" r unfolding front r_def by simp
    ultimately show ?thesis
      using True by (simp add: pushFront_loop.simps [of q] front r Cons_nth_drop_Suc)
  next
    case False
    then show ?thesis by (simp add: pushFront_loop.simps [of q])
  qed
qed

lemma pushFront_eq:
  assumes "lq_wf q"
  shows "pushFront q items =
    (let taken = lastN (lq_space q) items in (q\<lparr>lq_buffer := taken @ lq_buffer q\<rparr>, taken))"
proof (cases "items = []")
  case True
  then show ?thesis by (simp add: pushFront_def pushFront_loop.simps)
next
  case False
  let ?n = "min (length items) (lq_space q)"
  have wf: "circular_buffer_laws (lq_boost q)" "length (lq_buffer q) + lq_space q = lq_limit q"
    using assms by (auto simp: lq_wf_def lq_space_def)
  have "drop (length items - ?n) items = lastN (lq_space q) items"
    by (simp add: lastN_def min_def)
  moreover have "take ?n (drop (length items - ?n) items) = drop (length items - ?n) items"
    by simp
  ultimately show ?thesis
    using False wf by (auto simp: pushFront_def Let_def pushFront_loop_spec)
qed

lemma lq_wf_pushFront [wf_intros]: "lq_wf q \<Longrightarrow> lq_wf (fst (pushFront q items))"
  by (auto simp: pushFront_eq Let_def lq_wf_def lq_space_def)

section \<open>A concrete container, for evaluation\<close>

definition list_circular_buffer :: "'a circular_buffer" where
  "list_circular_buffer =
     \<lparr>cb_full = (\<lambda>cap xs. length xs = cap),
      cb_push_back = (\<lambda>cap xs x. if length xs < cap then xs @ [x]
                                 else if cap = 0 then [] else tl xs @ [x]),
      cb_push_front = (\<lambda>cap xs x. if length xs < cap then x # xs
                                  else if cap = 0 then [] else x # butlast xs),
      cb_insert = (\<lambda>cap xs i x. if length xs < cap then take i xs @ x # drop i xs
                                else if i = 0 then xs else tl (take i xs @ x # drop i xs))\<rparr>"

lemma list_circular_buffer_laws: "circular_buffer_laws list_circular_buffer"
  by (simp add: circular_buffer_laws_def list_circular_buffer_def)

definition sample_queue :: "nat list \<Rightarrow> nat LimitedQueue" where
  "sample_queue xs = fold (\<lambda>x q. fst (pushBack q x)) xs (LimitedQueue list_circular_buffer 3)"

lemma sample_queue_wf [wf_intros]: "lq_wf (sample_queue xs)"
  by (simp add: sample_queue_def lq.pushes_inv lq_wf_LimitedQueue list_circular_buffer_laws)

lemma sample_queue_view: "lq_buffer (sample_queue xs) = lastN 3 xs"
  unfolding sample_queue_def
  by (subst lq.pushes_view)
    (simp_all add: lq_wf_LimitedQueue list_circular_buffer_laws, simp add: LimitedQueue_def)

lemma sample_queue_limit: "lq_limit (sample_queue xs) = 3"
  unfolding sample_queue_def
  by (subst lq.pushes_cap)
    (simp_all add: lq_wf_LimitedQueue list_circular_buffer_laws, simp add: LimitedQueue_def)

lemmas sample_queue_facts =
  sample_queue_wf sample_queue_view sample_queue_limit lastN_def

section \<open>Properties\<close>

text \<open>
  Appending any sequence of items, one \<open>pushBack\<close> each, to a well-formed queue leaves exactly
  the newest \<open>limit\<close> items of what was there before followed by the sequence, in order, and a
  queue that is still well-formed with the same limit.
\<close>

theorem pushBack_keeps_newest:
  assumes "lq_wf q"
  shows "let q' = fold (\<lambda>x q. fst (pushBack q x)) xs q
         in lq_buffer q' = lastN (lq_limit q) (lq_buffer q @ xs) \<and>
            lq_wf q' \<and> lq_limit q' = lq_limit q"
  using assms by (simp add: lq.pushes_view lq.pushes_inv lq.pushes_cap Let_def)

theorem pushBack_keeps_newest_witness:
  "lq_buffer (fold (\<lambda>x q. fst (pushBack q x)) [7, 8] (sample_queue [1, 2, 3])) = [3, 7, 8]"
  using pushBack_keeps_newest [OF sample_queue_wf, of "[7, 8]" "[1, 2, 3]"]
  by (simp add: sample_queue_facts Let_def)

text \<open>
  The overload of \<open>pushBack\<close> with an out-parameter, on a queue of positive limit, never reads
  the front of an empty container: it appends like \<open>pushBack\<close>, reports an eviction exactly when
  the queue was full, and then hands out the oldest item, otherwise it leaves the out-parameter.
\<close>

theorem pushBack_deleted_oldest:
  assumes "lq_wf q" "0 < lq_limit q"
  shows "pushBack_deleted q item deleted =
    Some (fst (pushBack q item), length (lq_buffer q) = lq_limit q,
          if length (lq_buffer q) = lq_limit q then hd (lq_buffer q) else deleted)"
  using assms by (cases "lq_buffer q")
    (auto simp: pushBack_deleted_def pushBack_def lq_wf_def container_simps Let_def)

theorem pushBack_deleted_oldest_witness:
  "\<exists>q. pushBack_deleted (sample_queue [1, 2, 3]) 9 0 = Some (q, True, 1)"
  using pushBack_deleted_oldest [OF sample_queue_wf, of "[1, 2, 3]" 9 0]
  by (simp add: sample_queue_facts)

text \<open>
  \<open>pushFront\<close> never evicts: it puts the last items that still fit in front of the contents, in
  their original order, returns exactly those items, and the queue stays well-formed.
\<close>

theorem pushFront_fits_in_order:
  assumes "lq_wf q" "pushFront q items = (q', pushed)"
  shows "lq_buffer q' = pushed @ lq_buffer q \<and>
         pushed = drop (length items - (lq_limit q - length (lq_buffer q))) items \<and>
         length (lq_buffer q') \<le> lq_limit q' \<and> lq_wf q'"
proof -
  have "lq_wf q'" using lq_wf_pushFront [OF assms(1), of items] assms(2) by simp
  then show ?thesis
    using assms by (auto simp: pushFront_eq Let_def lastN_def lq_space_def lq_wf_def)
qed

theorem pushFront_fits_in_order_witness:
  "lq_buffer (fst (pushFront (sample_queue [1]) [5, 6, 7])) = [6, 7, 1]"
  using pushFront_fits_in_order [OF sample_queue_wf, of "[1]" "[5, 6, 7]"]
  by (cases "pushFront (sample_queue [1]) [5, 6, 7]") (simp add: sample_queue_facts)

text \<open>
  \<open>insertBefore\<close> and \<open>insertAfter\<close> on a queue with room put the item directly before (after) the
  first element equal to the needle and report success; they report failure, and change nothing,
  exactly when no element equals the needle.
\<close>

theorem insert_next_to_needle:
  assumes "lq_wf q" "length (lq_buffer q) < lq_limit q"
  shows "case first_index (\<lambda>x. eq x needle) (lq_buffer q) of
      None \<Rightarrow> insertBefore eq q needle x = (q, False) \<and> insertAfter eq q needle x = (q, False)
    | Some i \<Rightarrow>
        insertBefore eq q needle x =
          (q\<lparr>lq_buffer := take i (lq_buffer q) @ x # drop i (lq_buffer q)\<rparr>, True) \<and>
        insertAfter eq q needle x =
          (q\<lparr>lq_buffer := take (Suc i) (lq_buffer q) @ x # drop (Suc i) (lq_buffer q)\<rparr>, True)"
proof (cases "first_index (\<lambda>x. eq x needle) (lq_buffer q)")
  case None
  then show ?thesis by (simp add: insertBefore_def insertAfter_def del: first_index_None)
next
  case (Some i)
  have "i < length (lq_buffer q)" using first_index_SomeD(1) [OF Some] .
  with Some assms show ?thesis
    by (simp add: insertBefore_def insertAfter_def lq_wf_def cb_insert_space)
qed

theorem insert_next_to_needle_witness:
  "lq_buffer (fst (insertAfter (=) (sample_queue [1, 2]) 1 9)) = [1, 9, 2]"
  using insert_next_to_needle [OF sample_queue_wf, of "[1, 2]" "(=)" 1 9]
  by (simp add: sample_queue_facts)

text \<open>
  On a full queue whose first element is the needle, \<open>insertBefore\<close> reports an insertion but
  leaves the contents as they were: the item is lost although the result says it was inserted.
\<close>

theorem insertBefore_full_front_reports_success:
  assumes "lq_wf q" "length (lq_buffer q) = lq_limit q" "lq_buffer q = y # ys" "eq y needle"
  shows "insertBefore eq q needle x = (q, True)"
proof -
  have "cb_insert (lq_boost q) (lq_limit q) (lq_buffer q) 0 x = lq_buffer q"
    using assms by (subst cb_insert_full) (auto simp: lq_wf_def)
  then show ?thesis using assms(3,4) by (simp add: insertBefore_def)
qed

theorem insertBefore_full_front_reports_success_witness:
  "insertBefore (=) (sample_queue [1, 2, 3]) 1 9 = (sample_queue [1, 2, 3], True)"
  using insertBefore_full_front_reports_success
    [OF sample_queue_wf, of "[1, 2, 3]" 1 "[2, 3]" "(=)" 1 9]
  by (simp add: sample_queue_facts)

text \<open>
  \<open>replaceItem\<close> with a hint: for a queue within the range of \<open>int\<close> the result is \<open>-1\<close> exactly
  when the needle is nowhere in the queue, and then nothing changes; otherwise it is an index
  that held the needle, the replacement is there afterwards and every other position is kept.
  A hint that points at the needle wins over an earlier occurrence.
\<close>

theorem replaceItem_hint_correct:
  assumes "replaceItem_hint q hint needle r = (q', i)"
    and "int (length (lq_buffer q)) \<le> int_max"
  shows "(i = -1 \<longleftrightarrow> needle \<notin> set (lq_buffer q)) \<and> (i = -1 \<longrightarrow> q' = q) \<and>
    (i \<noteq> -1 \<longrightarrow> 0 \<le> i \<and> nat i < length (lq_buffer q) \<and> lq_buffer q ! nat i = needle \<and>
      lq_buffer q' = (lq_buffer q)[nat i := r]) \<and>
    (hint < length (lq_buffer q) \<and> lq_buffer q ! hint = needle \<longrightarrow> i = int hint)"
proof -
  have cast: "cast_int (int k) = int k" if "k < length (lq_buffer q)" for k
    using that assms(2) by (intro cast_int_id) (simp add: in_int_range_def int_min_def int_max_def)
  show ?thesis
  proof (cases "hint < length (lq_buffer q) \<and> lq_buffer q ! hint = needle")
    case True
    with assms(1) cast [of hint] show ?thesis by (auto simp: replaceItem_hint_def)
  next
    case False
    show ?thesis
    proof (cases "first_index (\<lambda>x. x = needle) (lq_buffer q)")
      case None
      then have "needle \<notin> set (lq_buffer q)" by auto
      moreover from None assms(1) False have "q' = q" "i = -1"
        by (auto simp: replaceItem_hint_def simp del: first_index_None)
      ultimately show ?thesis using False by blast
    next
      case (Some k)
      have k: "k < length (lq_buffer q)" "lq_buffer q ! k = needle"
        using first_index_SomeD(1,2) [OF Some] by auto
      moreover from Some assms(1) False cast [OF k(1)]
      have "i = int k" "q' = q\<lparr>lq_buffer := (lq_buffer q)[k := r]\<rparr>"
        by (auto simp: replaceItem_hint_def)
      ultimately show ?thesis using False nth_mem [OF k(1)] by auto
    qed
  qed
qed

theorem replaceItem_hint_correct_witness:
  "snd (replaceItem_hint (sample_queue [4, 5, 4]) 2 4 9) = 2"
proof -
  have "int (length (lq_buffer (sample_queue [4, 5, 4]))) \<le> int_max"
    by (simp add: sample_queue_facts int_max_def)
  with replaceItem_hint_correct [of "sample_queue [4, 5, 4]" 2 4 9] show ?thesis
    by (cases "replaceItem_hint (sample_queue [4, 5, 4]) 2 4 9")
      (simp add: sample_queue_facts numeral_2_eq_2)
qed

end
