(* ===== verification/FilterTypes.thy ===== *)
theory FilterTypes
  imports Prelude
begin

text \<open>
  \<open>controllers/filters/lang/Types.hpp\<close> and \<open>Types.cpp\<close>: the types of the filter language, and the
  run-time values its expressions evaluate to.

  A run-time value is a \<open>QVariant\<close>; the constructors below are the alternatives the filter code
  creates or inspects.  Strings are lists of characters, of which \<open>char\<close> keeps the one-byte code
  units; list operations stand for the elementary string operations (\<open>==\<close>, \<open>mid\<close>, \<open>chop\<close>,
  \<open>front\<close>, \<open>append\<close>, \<open>startsWith\<close>).  Everything else the filter code calls in Qt is a field of the
  record \<open>qt_api\<close>, passed to the definitions that use it: number parsing and printing, place
  markers, case-insensitive comparison, regular-expression matching and the conversions of
  \<open>QVariant\<close>.  Colours are the type parameter.
\<close>

section \<open>The types of the language\<close>

datatype Type =
    String | Int' | Bool | Color | RegularExpression | List
  | StringList | MatchingSpecifier | Map

fun typeToString :: "Type \<Rightarrow> string" where
  "typeToString String = ''String''"
| "typeToString Int' = ''Int''"
| "typeToString Bool = ''Bool''"
| "typeToString Color = ''Color''"
| "typeToString RegularExpression = ''RegularExpression''"
| "typeToString List = ''List''"
| "typeToString StringList = ''StringList''"
| "typeToString MatchingSpecifier = ''MatchingSpecifier''"
| "typeToString Map = ''Map''"

type_synonym TypingContext = "string \<rightharpoonup> Type"

section \<open>Run-time values\<close>

datatype 'c QVariant =
    VInvalid
  | VString string
  | VInt int
  | VLongLong int
  | VBool bool
  | VColor 'c
  | VRegularExpression string bool
  | VList "'c QVariant list"
  | VStringList "string list"
  | VMap "(string \<times> 'c QVariant) list"

datatype MetaType =
    MInvalid | MString | MInt | MLongLong | MBool | MColor | MRegularExpression | MList
  | MStringList | MMap

fun typeId :: "'c QVariant \<Rightarrow> MetaType" where
  "typeId VInvalid = MInvalid"
| "typeId (VString s) = MString"
| "typeId (VInt n) = MInt"
| "typeId (VLongLong n) = MLongLong"
| "typeId (VBool b) = MBool"
| "typeId (VColor c) = MColor"
| "typeId (VRegularExpression p i) = MRegularExpression"
| "typeId (VList vs) = MList"
| "typeId (VStringList ss) = MStringList"
| "typeId (VMap m) = MMap"

type_synonym 'c ContextMap = "string \<rightharpoonup> 'c QVariant"

section \<open>What the filter code calls in Qt\<close>

text \<open>
  \<open>q_toInt s\<close> is the value of \<open>QString::toInt\<close> when it reports success; \<open>q_match p i s\<close> is the
  function from group numbers to captured texts when the pattern \<open>p\<close> (case-insensitive when \<open>i\<close>)
  matches \<open>s\<close>; \<open>q_convert v t\<close> is the converted value when \<open>QVariant::convert\<close> reports success.
\<close>

record 'c qt_api =
  q_toInt :: "string \<Rightarrow> int option"
  q_number :: "int \<Rightarrow> string"
  q_arg :: "string \<Rightarrow> string \<Rightarrow> string"
  q_compareCI :: "string \<Rightarrow> string \<Rightarrow> bool"
  q_containsCI :: "string \<Rightarrow> string \<Rightarrow> bool"
  q_startsWithCI :: "string \<Rightarrow> string \<Rightarrow> bool"
  q_endsWithCI :: "string \<Rightarrow> string \<Rightarrow> bool"
  q_match :: "string \<Rightarrow> bool \<Rightarrow> string \<Rightarrow> (int \<Rightarrow> string) option"
  q_canConvert :: "'c QVariant \<Rightarrow> MetaType \<Rightarrow> bool"
  q_convert :: "'c QVariant \<Rightarrow> MetaType \<Rightarrow> 'c QVariant option"
  q_toString :: "'c QVariant \<Rightarrow> string"
  q_toBool :: "'c QVariant \<Rightarrow> bool"
  q_equals :: "'c QVariant \<Rightarrow> 'c QVariant \<Rightarrow> bool"
  q_isValidColor :: "'c \<Rightarrow> bool"

text \<open>
  The documented behaviour of the conversions: a valid value converts to its own type unchanged, a
  successful conversion yields the requested type, numbers, booleans and colours convert to a
  string, a \<open>qlonglong\<close> that fits converts to the same \<open>int\<close>, and the accessors of a type read a
  value of that type.
\<close>

definition qt_conversion_laws :: "'c qt_api \<Rightarrow> bool" where
  "qt_conversion_laws qt \<longleftrightarrow>
     (\<forall>v. typeId v \<noteq> MInvalid \<longrightarrow> q_canConvert qt v (typeId v) \<and> q_convert qt v (typeId v) = Some v) \<and>
     (\<forall>v t w. q_convert qt v t = Some w \<longrightarrow> typeId w = t) \<and>
     (\<forall>v. typeId v \<in> {MInt, MLongLong, MBool, MColor} \<longrightarrow> q_canConvert qt v MString) \<and>
     (\<forall>n. in_int_range n \<longrightarrow> q_convert qt (VLongLong n) MInt = Some (VInt n)) \<and>
     (\<forall>s. q_toString qt (VString s) = s) \<and>
     (\<forall>b. q_toBool qt (VBool b) = b)"

text \<open>\<open>QString::toInt\<close> succeeds on values that fit an \<open>int\<close> only.\<close>

definition qt_toInt_law :: "'c qt_api \<Rightarrow> bool" where
  "qt_toInt_law qt \<longleftrightarrow> (\<forall>s n. q_toInt qt s = Some n \<longrightarrow> in_int_range n)"

section \<open>Helpers on variants\<close>

definition variantIs :: "'c QVariant \<Rightarrow> MetaType \<Rightarrow> bool" where
  "variantIs a t = (typeId a = t)"

definition variantIsNot :: "'c QVariant \<Rightarrow> MetaType \<Rightarrow> bool" where
  "variantIsNot a t = (typeId a \<noteq> t)"

definition variantTypesMatch :: "'c QVariant \<Rightarrow> 'c QVariant \<Rightarrow> MetaType \<Rightarrow> bool" where
  "variantTypesMatch a b t = (variantIs a t \<and> variantIs b t)"

definition convertVariantTypes ::
  "'c qt_api \<Rightarrow> 'c QVariant \<Rightarrow> 'c QVariant \<Rightarrow> MetaType \<Rightarrow> ('c QVariant \<times> 'c QVariant) option" where
  "convertVariantTypes qt a b t =
     (case q_convert qt a t of
        None \<Rightarrow> None
      | Some a' \<Rightarrow> (case q_convert qt b t of None \<Rightarrow> None | Some b' \<Rightarrow> Some (a', b')))"

section \<open>Values of a type\<close>

text \<open>
  The values a well-typed expression is meant to evaluate to.  Integers are within the range of
  \<open>int\<close> (a string length is stored as a \<open>qlonglong\<close>); a matching specifier is a two-element list of
  a regular expression and an \<open>int\<close>.
\<close>

definition is_matching_specifier :: "'c QVariant list \<Rightarrow> bool" where
  "is_matching_specifier vs =
     (case vs of
        [v, w] \<Rightarrow> typeId v = MRegularExpression \<and>
          (case w of VInt n \<Rightarrow> in_int_range n | _ \<Rightarrow> False)
      | _ \<Rightarrow> False)"

fun has_type :: "'c QVariant \<Rightarrow> Type \<Rightarrow> bool" where
  "has_type (VString s) T = (T = String)"
| "has_type (VInt n) T = (T = Int' \<and> in_int_range n)"
| "has_type (VLongLong n) T = (T = Int' \<and> in_int_range n)"
| "has_type (VBool b) T = (T = Bool)"
| "has_type (VColor c) T = (T = Color)"
| "has_type (VRegularExpression p i) T = (T = RegularExpression)"
| "has_type (VStringList ss) T = (T = StringList)"
| "has_type (VMap m) T = (T = Map)"
| "has_type (VList vs) T = (T = List \<or> T = MatchingSpecifier \<and> is_matching_specifier vs)"
| "has_type VInvalid T = False"

definition conforms :: "'c ContextMap \<Rightarrow> TypingContext \<Rightarrow> bool" where
  "conforms ctx \<Gamma> \<longleftrightarrow> (\<forall>x T. \<Gamma> x = Some T \<longrightarrow> (\<exists>v. ctx x = Some v \<and> has_type v T))"

lemma has_type_String [simp]: "has_type v String \<longleftrightarrow> (\<exists>s. v = VString s)"
  by (cases v) auto

lemma has_type_Int [simp]:
  "has_type v Int' \<longleftrightarrow> (\<exists>n. (v = VInt n \<or> v = VLongLong n) \<and> in_int_range n)"
  by (cases v) auto

lemma has_type_Bool [simp]: "has_type v Bool \<longleftrightarrow> (\<exists>b. v = VBool b)"
  by (cases v) auto

lemma has_type_Color [simp]: "has_type v Color \<longleftrightarrow> (\<exists>c. v = VColor c)"
  by (cases v) auto

lemma has_type_RegularExpression [simp]:
  "has_type v RegularExpression \<longleftrightarrow> (\<exists>p i. v = VRegularExpression p i)"
  by (cases v) auto

lemma has_type_StringList [simp]: "has_type v StringList \<longleftrightarrow> (\<exists>ss. v = VStringList ss)"
  by (cases v) auto

lemma has_type_List [simp]: "has_type v List \<longleftrightarrow> (\<exists>vs. v = VList vs)"
  by (cases v) auto

lemma has_type_Map [simp]: "has_type v Map \<longleftrightarrow> (\<exists>m. v = VMap m)"
  by (cases v) auto

lemma typeId_eqs [simp]:
  "typeId v = MString \<longleftrightarrow> (\<exists>s. v = VString s)"
  "typeId v = MInt \<longleftrightarrow> (\<exists>n. v = VInt n)"
  "typeId v = MBool \<longleftrightarrow> (\<exists>b. v = VBool b)"
  "typeId v = MRegularExpression \<longleftrightarrow> (\<exists>p i. v = VRegularExpression p i)"
  by (cases v; simp)+

lemma is_matching_specifier_iff:
  "is_matching_specifier vs \<longleftrightarrow>
   (\<exists>p i n. vs = [VRegularExpression p i, VInt n] \<and> in_int_range n)"
proof (cases "\<exists>v w. vs = [v, w]")
  case True
  then obtain v w where "vs = [v, w]" by blast
  then show ?thesis by (cases w) (auto simp: is_matching_specifier_def)
next
  case False
  then have "\<not> is_matching_specifier vs"
    unfolding is_matching_specifier_def by (auto split: list.splits)
  with False show ?thesis by blast
qed

lemma has_type_MatchingSpecifier [simp]:
  "has_type v MatchingSpecifier \<longleftrightarrow>
   (\<exists>p i n. v = VList [VRegularExpression p i, VInt n] \<and> in_int_range n)"
  by (cases v) (auto simp: is_matching_specifier_iff)

section \<open>The conversion laws, one by one\<close>

lemma qt_conversion_lawsD:
  assumes "qt_conversion_laws qt"
  shows "typeId v \<noteq> MInvalid \<Longrightarrow> q_canConvert qt v (typeId v)"
    and "typeId v \<noteq> MInvalid \<Longrightarrow> q_convert qt v (typeId v) = Some v"
    and "q_convert qt v t = Some w \<Longrightarrow> typeId w = t"
    and "typeId v \<in> {MInt, MLongLong, MBool, MColor} \<Longrightarrow> q_canConvert qt v MString"
    and "in_int_range n \<Longrightarrow> q_convert qt (VLongLong n) MInt = Some (VInt n)"
    and "q_toString qt (VString s) = s"
    and "q_toBool qt (VBool b) = b"
  using assms unfolding qt_conversion_laws_def by (blast+)

lemma convert_same [simp]:
  assumes "qt_conversion_laws qt"
  shows "q_convert qt (VInt n) MInt = Some (VInt n)"
    and "q_convert qt (VBool b) MBool = Some (VBool b)"
    and "q_canConvert qt (VString s) MString"
    and "q_canConvert qt (VInt n) MString"
    and "q_canConvert qt (VLongLong n) MString"
    and "q_canConvert qt (VBool b) MString"
    and "q_canConvert qt (VColor c) MString"
    and "q_canConvert qt (VBool b) MBool"
  using qt_conversion_lawsD(1,2,4) [OF assms, of "VInt n"]
    qt_conversion_lawsD(4) [OF assms, of "VLongLong n"]
    qt_conversion_lawsD(1,2,4) [OF assms, of "VBool b"]
    qt_conversion_lawsD(1) [OF assms, of "VString s"]
    qt_conversion_lawsD(4) [OF assms, of "VColor c"]
  by simp_all

lemma convert_to_int:
  assumes "qt_conversion_laws qt" "has_type v Int'"
  obtains n where "q_convert qt v MInt = Some (VInt n)" "in_int_range n"
  using assms qt_conversion_lawsD(5) [OF assms(1)] by auto

end
