(* ===== verification/FilterTokens.thy ===== *)
theory FilterTokens
  imports FilterTypes
begin

text \<open>
  \<open>controllers/filters/lang/Tokenizer.hpp\<close> and \<open>Tokenizer.cpp\<close>: token types, the token regex, the
  classification of a token, and the cursor the parser reads tokens through.

  The regex literal \<open>TOKEN_REGEX\<close> is translated into a function that finds, at one position, what
  the alternatives match: the first alternative that matches wins, the repetitions are greedy,
  and a string literal backtracks over an escaped quote when no closing quote follows it.
\<close>

section \<open>Token types\<close>

datatype TokenType =
    CONTROL_START | AND | OR | LP | RP | LIST_START | LIST_END | COMMA | CONTROL_END
  | BINARY_START | EQ | NEQ | LT | GT | LTE | GTE | CONTAINS | STARTS_WITH | ENDS_WITH
  | MATCH | BINARY_END
  | UNARY_START | NOT | UNARY_END
  | MATH_START | PLUS | MINUS | MULTIPLY | DIVIDE | MOD | MATH_END
  | OTHER_START | STRING | INT' | IDENTIFIER | REGULAR_EXPRESSION
  | NONE

text \<open>The enumerators' values, which the comparisons of the source are about.\<close>

fun token_value :: "TokenType \<Rightarrow> nat" where
  "token_value CONTROL_START = 0" | "token_value AND = 1" | "token_value OR = 2"
| "token_value LP = 3" | "token_value RP = 4" | "token_value LIST_START = 5"
| "token_value LIST_END = 6" | "token_value COMMA = 7" | "token_value CONTROL_END = 19"
| "token_value BINARY_START = 20" | "token_value EQ = 21" | "token_value NEQ = 22"
| "token_value LT = 23" | "token_value GT = 24" | "token_value LTE = 25"
| "token_value GTE = 26" | "token_value CONTAINS = 27" | "token_value STARTS_WITH = 28"
| "token_value ENDS_WITH = 29" | "token_value MATCH = 30" | "token_value BINARY_END = 49"
| "token_value UNARY_START = 50" | "token_value NOT = 51" | "token_value UNARY_END = 99"
| "token_value MATH_START = 100" | "token_value PLUS = 101" | "token_value MINUS = 102"
| "token_value MULTIPLY = 103" | "token_value DIVIDE = 104" | "token_value MOD = 105"
| "token_value MATH_END = 149" | "token_value OTHER_START = 150" | "token_value STRING = 151"
| "token_value INT' = 152" | "token_value IDENTIFIER = 153"
| "token_value REGULAR_EXPRESSION = 154" | "token_value NONE = 200"

text \<open>All enumerators, in the order of their values, which are distinct.\<close>

definition all_token_types :: "TokenType list" where
  "all_token_types =
     [CONTROL_START, AND, OR, LP, RP, LIST_START, LIST_END, COMMA, CONTROL_END,
      BINARY_START, EQ, NEQ, LT, GT, LTE, GTE, CONTAINS, STARTS_WITH, ENDS_WITH, MATCH,
      BINARY_END, UNARY_START, NOT, UNARY_END, MATH_START, PLUS, MINUS, MULTIPLY, DIVIDE, MOD,
      MATH_END, OTHER_START, STRING, INT', IDENTIFIER, REGULAR_EXPRESSION, NONE]"

lemma all_token_types: "t \<in> set all_token_types"
  by (cases t) (simp_all add: all_token_types_def)

lemma distinct_token_values: "distinct (map token_value all_token_types)"
  by (simp add: all_token_types_def)

lemma token_value_inj: "token_value t = token_value u \<Longrightarrow> t = u"
  using distinct_token_values all_token_types unfolding distinct_map by (meson inj_onD)

instantiation TokenType :: linorder
begin

definition less_eq_TokenType :: "TokenType \<Rightarrow> TokenType \<Rightarrow> bool" where
  "less_eq_TokenType t u = (token_value t \<le> token_value u)"

definition less_TokenType :: "TokenType \<Rightarrow> TokenType \<Rightarrow> bool" where
  "less_TokenType t u = (token_value t < token_value u)"

instance
  by standard (auto simp: less_eq_TokenType_def less_TokenType_def dest: token_value_inj)

end

fun tokenTypeToInfoString :: "TokenType \<Rightarrow> string" where
  "tokenTypeToInfoString AND = ''And''"
| "tokenTypeToInfoString OR = ''Or''"
| "tokenTypeToInfoString LP = ''<left parenthesis>''"
| "tokenTypeToInfoString RP = ''<right parenthesis>''"
| "tokenTypeToInfoString LIST_START = ''<list start>''"
| "tokenTypeToInfoString LIST_END = ''<list end>''"
| "tokenTypeToInfoString COMMA = ''<comma>''"
| "tokenTypeToInfoString PLUS = ''Plus''"
| "tokenTypeToInfoString MINUS = ''Minus''"
| "tokenTypeToInfoString MULTIPLY = ''Multiply''"
| "tokenTypeToInfoString DIVIDE = ''Divide''"
| "tokenTypeToInfoString MOD = ''Mod''"
| "tokenTypeToInfoString EQ = ''Eq''"
| "tokenTypeToInfoString NEQ = ''NotEq''"
| "tokenTypeToInfoString LT = ''LessThan''"
| "tokenTypeToInfoString GT = ''GreaterThan''"
| "tokenTypeToInfoString LTE = ''LessThanEq''"
| "tokenTypeToInfoString GTE = ''GreaterThanEq''"
| "tokenTypeToInfoString CONTAINS = ''Contains''"
| "tokenTypeToInfoString STARTS_WITH = ''StartsWith''"
| "tokenTypeToInfoString ENDS_WITH = ''EndsWith''"
| "tokenTypeToInfoString MATCH = ''Match''"
| "tokenTypeToInfoString NOT = ''Not''"
| "tokenTypeToInfoString STRING = ''<string>''"
| "tokenTypeToInfoString INT' = ''<int>''"
| "tokenTypeToInfoString IDENTIFIER = ''<identifier>''"
| "tokenTypeToInfoString _ = ''<unknown>''"

definition typeIsBinaryOp :: "TokenType \<Rightarrow> bool" where
  "typeIsBinaryOp token = (token > BINARY_START \<and> token < BINARY_END)"

definition typeIsUnaryOp :: "TokenType \<Rightarrow> bool" where
  "typeIsUnaryOp token = (token > UNARY_START \<and> token < UNARY_END)"

definition typeIsMathOp :: "TokenType \<Rightarrow> bool" where
  "typeIsMathOp token = (token > MATH_START \<and> token < MATH_END)"

definition typeIsOp :: "TokenType \<Rightarrow> bool" where
  "typeIsOp token =
     (typeIsBinaryOp token \<or> typeIsUnaryOp token \<or> typeIsMathOp token \<or>
      token = AND \<or> token = OR)"

section \<open>The identifiers of the language\<close>

definition VALID_IDENTIFIERS_MAP :: "(string \<times> string) list" where
  "VALID_IDENTIFIERS_MAP =
    [(''author.badges'', ''author badges''),
     (''author.color'', ''author color''),
     (''author.name'', ''author name''),
     (''author.user_id'', ''author user id''),
     (''author.no_color'', ''author has no color?''),
     (''author.subbed'', ''author subscribed?''),
     (''author.sub_length'', ''author sub length''),
     (''channel.name'', ''channel name''),
     (''channel.watching'', ''/watching channel?''),
     (''channel.live'', ''channel live?''),
     (''flags.action'', ''action/me message?''),
     (''flags.highlighted'', ''highlighted?''),
     (''flags.points_redeemed'', ''redeemed points?''),
     (''flags.sub_message'', ''sub/resub message?''),
     (''flags.system_message'', ''system message?''),
     (''flags.reward_message'', ''channel point reward message?''),
     (''flags.first_message'', ''first message?''),
     (''flags.elevated_message'', ''hype chat message?''),
     (''flags.hype_chat'', ''hype chat message?''),
     (''flags.cheer_message'', ''cheer message?''),
     (''flags.whisper'', ''whisper message?''),
     (''flags.reply'', ''reply message?''),
     (''flags.automod'', ''automod message?''),
     (''flags.restricted'', ''restricted message?''),
     (''flags.monitored'', ''monitored message?''),
     (''flags.shared'', ''shared message?''),
     (''flags.similar'', ''r9k filtered message?''),
     (''message.content'', ''message text''),
     (''message.length'', ''message length''),
     (''reward.title'', ''point reward title''),
     (''reward.cost'', ''point reward cost''),
     (''reward.id'', ''point reward id''),
     (''flags.webchat_detected'', ''Webchat detected'')]"

section \<open>The token regex\<close>

text \<open>\<open>[\w\.]\<close>, where \<open>\w\<close> is ASCII letters, digits and the underscore.\<close>

definition is_word_char :: "char \<Rightarrow> bool" where
  "is_word_char c =
     (let n = of_char c :: nat
      in (48 \<le> n \<and> n \<le> 57) \<or> (65 \<le> n \<and> n \<le> 90) \<or> (97 \<le> n \<and> n \<le> 122) \<or> n = 95 \<or> n = 46)"

definition quote :: char where "quote = CHR 0x22"
definition backslash :: char where "backslash = CHR 0x5C"

text \<open>
  The body of a literal up to its closing quote: an escaped quote is preferred over ending the
  literal, unless no closing quote follows it.  The length matched, or \<open>None\<close>.
\<close>

fun match_body :: "string \<Rightarrow> nat option" where
  "match_body [] = None"
| "match_body (c # s) =
     (if c = quote then Some 1
      else (case s of
              d # r \<Rightarrow>
                if c = backslash \<and> d = quote
                then (case match_body r of Some n \<Rightarrow> Some (n + 2) | None \<Rightarrow> Some 2)
                else map_option Suc (match_body s)
            | [] \<Rightarrow> None))"

fun match_literal :: "string \<Rightarrow> nat option" where
  "match_literal s =
     (case s of
        c # s1 \<Rightarrow>
          (if c = quote then map_option (\<lambda>n. n + 1) (match_body s1)
           else if c = CHR ''r''
           then (case s1 of
                   d # s2 \<Rightarrow>
                     (if d = quote then map_option (\<lambda>n. n + 2) (match_body s2)
                      else if d = CHR ''i''
                      then (case s2 of
                              e # s3 \<Rightarrow>
                                if e = quote then map_option (\<lambda>n. n + 3) (match_body s3)
                                else None
                            | [] \<Rightarrow> None)
                      else None)
                 | [] \<Rightarrow> None)
           else None)
      | [] \<Rightarrow> None)"

text \<open>One operator of \<open>(<=?|>=?|!=?|==|\|\||&&|\+|-|\*|\/|%)\<close>: its length, 0 for none.\<close>

definition match_operator :: "string \<Rightarrow> nat" where
  "match_operator s =
     (case s of
        [] \<Rightarrow> 0
      | c # r \<Rightarrow>
          if c \<in> set ''<>!'' then (case r of d # _ \<Rightarrow> if d = CHR ''='' then 2 else 1 | [] \<Rightarrow> 1)
          else if c \<in> set ''=|&'' then (case r of d # _ \<Rightarrow> if d = c then 2 else 0 | [] \<Rightarrow> 0)
          else if c \<in> set ''+-*/%'' then 1
          else 0)"

lemma match_operator_le: "match_operator s \<le> length s"
  by (auto simp: match_operator_def split: list.splits)

lemma match_operator_pos: "0 < match_operator s \<Longrightarrow> s \<noteq> []"
  by (auto simp: match_operator_def)

function match_operators :: "string \<Rightarrow> nat" where
  "match_operators s =
     (let n = match_operator s in if n = 0 then 0 else n + match_operators (drop n s))"
  by pat_completeness auto
termination
  by (relation "measure length") (auto intro!: diff_less dest: match_operator_pos)

declare match_operators.simps [simp del]

text \<open>The length of the token at the start of a string: the alternatives in order; 0 for none.\<close>

definition match_token :: "string \<Rightarrow> nat" where
  "match_token s =
     (case match_literal s of
        Some n \<Rightarrow> n
      | None \<Rightarrow>
          let w = length (takeWhile is_word_char s)
          in if 0 < w then w
             else if 0 < match_operators s then match_operators s
             else (case s of c # _ \<Rightarrow> if c \<in> set ''(){},'' then 1 else 0 | [] \<Rightarrow> 0))"

text \<open>\<open>globalMatch\<close>: all matches, left to right; a position where nothing matches is skipped.\<close>

function globalMatch :: "string \<Rightarrow> string list" where
  "globalMatch s =
     (if s = [] then []
      else if match_token s = 0 then globalMatch (tl s)
      else take (match_token s) s # globalMatch (drop (match_token s) s))"
  by pat_completeness auto
termination
  by (relation "measure length") auto

declare globalMatch.simps [simp del]

section \<open>Classification of a token\<close>

text \<open>
  \<open>hd\<close> and \<open>last\<close> are \<open>front()\<close> and \<open>back()\<close>; they are only read on tokens of the regex, which are
  not empty (lemma \<open>globalMatch_nonempty\<close>).
\<close>

definition tokenize :: "'c qt_api \<Rightarrow> string \<Rightarrow> TokenType" where
  "tokenize qt text =
     (if text = ''&&'' then AND
      else if text = ''||'' then OR
      else if text = ''('' then LP
      else if text = '')'' then RP
      else if text = ''{'' then LIST_START
      else if text = ''}'' then LIST_END
      else if text = '','' then COMMA
      else if text = ''+'' then PLUS
      else if text = ''-'' then MINUS
      else if text = ''*'' then MULTIPLY
      else if text = ''/'' then DIVIDE
      else if text = ''=='' then EQ
      else if text = ''!='' then NEQ
      else if text = ''%'' then MOD
      else if text = ''<'' then LT
      else if text = ''>'' then GT
      else if text = ''<='' then LTE
      else if text = ''>='' then GTE
      else if text = ''contains'' then CONTAINS
      else if text = ''startswith'' then STARTS_WITH
      else if text = ''endswith'' then ENDS_WITH
      else if text = ''match'' then MATCH
      else if text = ''!'' then NOT
      else if (take 2 text = [CHR ''r'', quote] \<or> take 3 text = [CHR ''r'', CHR ''i'', quote]) \<and>
              last text = quote
      then REGULAR_EXPRESSION
      else if hd text = quote \<and> last text = quote then STRING
      else if text \<in> set (map fst VALID_IDENTIFIERS_MAP) then IDENTIFIER
      else if q_toInt qt text \<noteq> None then INT'
      else NONE)"

section \<open>The cursor\<close>

record Tokenizer =
  tk_i :: nat
  tk_tokens :: "string list"
  tk_types :: "TokenType list"

definition Tokenizer :: "'c qt_api \<Rightarrow> string \<Rightarrow> Tokenizer" where
  "Tokenizer qt text =
     (let tokens = globalMatch text
      in \<lparr>tk_i = 0, tk_tokens = tokens, tk_types = map (tokenize qt) tokens\<rparr>)"

text \<open>\<open>QList::at\<close> out of range is an assertion failure: \<open>None\<close>.\<close>

definition list_at :: "'a list \<Rightarrow> nat \<Rightarrow> 'a option" where
  "list_at xs i = (if i < length xs then Some (xs ! i) else None)"

definition hasNext :: "Tokenizer \<Rightarrow> bool" where
  "hasNext tk = (tk_i tk < length (tk_tokens tk))"

definition tk_next :: "Tokenizer \<Rightarrow> (string \<times> Tokenizer) option" where
  "tk_next tk =
     map_option (\<lambda>t. (t, tk\<lparr>tk_i := Suc (tk_i tk)\<rparr>)) (list_at (tk_tokens tk) (tk_i tk))"

definition tk_current :: "Tokenizer \<Rightarrow> string option" where
  "tk_current tk = (if tk_i tk = 0 then None else list_at (tk_tokens tk) (tk_i tk - 1))"

definition preview :: "Tokenizer \<Rightarrow> string option" where
  "preview tk = (if hasNext tk then list_at (tk_tokens tk) (tk_i tk) else Some [])"

definition nextTokenType :: "Tokenizer \<Rightarrow> TokenType option" where
  "nextTokenType tk = list_at (tk_types tk) (tk_i tk)"

definition tokenType :: "Tokenizer \<Rightarrow> TokenType option" where
  "tokenType tk = (if tk_i tk = 0 then None else list_at (tk_types tk) (tk_i tk - 1))"

definition nextTokenIsOp :: "Tokenizer \<Rightarrow> bool option" where
  "nextTokenIsOp tk = map_option typeIsOp (nextTokenType tk)"

definition nextTokenIsBinaryOp :: "Tokenizer \<Rightarrow> bool option" where
  "nextTokenIsBinaryOp tk = map_option typeIsBinaryOp (nextTokenType tk)"

definition nextTokenIsUnaryOp :: "Tokenizer \<Rightarrow> bool option" where
  "nextTokenIsUnaryOp tk = map_option typeIsUnaryOp (nextTokenType tk)"

definition nextTokenIsMathOp :: "Tokenizer \<Rightarrow> bool option" where
  "nextTokenIsMathOp tk = map_option typeIsMathOp (nextTokenType tk)"

definition allTokens :: "Tokenizer \<Rightarrow> string list" where
  "allTokens tk = tk_tokens tk"

section \<open>Lemmas about the lexer and the cursor\<close>

lemma quote_neq_backslash [simp]: "quote \<noteq> backslash" "backslash \<noteq> quote"
  by (simp_all add: quote_def backslash_def)

lemma match_body_quote [simp]: "match_body (quote # s) = Some 1"
  by simp

lemma match_body_escape [simp]:
  "match_body (backslash # quote # r) =
   Some (case match_body r of Some n \<Rightarrow> n + 2 | None \<Rightarrow> 2)"
  by (simp split: option.split)

lemma match_body_other [simp]:
  "c \<noteq> quote \<Longrightarrow> \<not> (c = backslash \<and> s \<noteq> [] \<and> hd s = quote) \<Longrightarrow>
   match_body (c # s) = map_option Suc (match_body s)"
  by (cases s) auto

declare match_body.simps(2) [simp del]

lemma match_body_le: "match_body s = Some n \<Longrightarrow> 0 < n \<and> n \<le> length s"
proof (induction "length s" arbitrary: s n rule: less_induct)
  case less
  show ?case
  proof (cases s)
    case Nil
    with less.prems show ?thesis by simp
  next
    case (Cons c t)
    consider (q) "c = quote" | (e) "c = backslash" "t \<noteq> []" "hd t = quote"
      | (o) "c \<noteq> quote" "\<not> (c = backslash \<and> t \<noteq> [] \<and> hd t = quote)"
      by blast
    then show ?thesis
    proof cases
      case q
      with Cons less.prems show ?thesis by simp
    next
      case e
      then obtain r where t: "t = quote # r" by (cases t) auto
      with e Cons less.prems less.hyps [of r] show ?thesis
        by (auto split: option.splits)
    next
      case o
      with Cons less.prems less.hyps [of t] show ?thesis by auto
    qed
  qed
qed

lemma match_literal_le: "match_literal s = Some n \<Longrightarrow> 0 < n \<and> n \<le> length s"
  using match_body_le [of "tl s"] match_body_le [of "tl (tl s)"]
    match_body_le [of "tl (tl (tl s))"]
  by (cases s; cases "tl s"; cases "tl (tl s)") (auto split: if_splits)

declare match_literal.simps [simp del]

lemma match_operators_le: "match_operators s \<le> length s"
proof (induction s rule: match_operators.induct)
  case (1 s)
  show ?case
  proof (cases "match_operator s = 0")
    case True
    then show ?thesis by (simp add: match_operators.simps [of s])
  next
    case False
    have "match_operators (drop (match_operator s) s) \<le> length s - match_operator s"
      using "1" [OF refl False] by simp
    then show ?thesis
      using False match_operator_le [of s] by (simp add: match_operators.simps [of s] Let_def)
  qed
qed

lemma match_token_le: "match_token s \<le> length s"
proof (cases "match_literal s")
  case None
  have "length (takeWhile is_word_char s) \<le> length s" by (rule length_takeWhile_le)
  with None match_operators_le [of s] show ?thesis
    by (auto simp: match_token_def Let_def split: list.splits)
next
  case (Some n)
  then show ?thesis using match_literal_le [OF Some] by (simp add: match_token_def)
qed

lemma globalMatch_nonempty: "[] \<notin> set (globalMatch s)"
proof (induction s rule: globalMatch.induct)
  case (1 s)
  then show ?case
    using match_token_le [of s] by (auto simp: globalMatch.simps [of s])
qed

lemma globalMatch_length: "length (concat (globalMatch s)) \<le> length s"
proof (induction s rule: globalMatch.induct)
  case (1 s)
  then show ?case
    using match_token_le [of s] by (auto simp: globalMatch.simps [of s] min_def)
qed

lemma list_at_eq_Some [simp]: "list_at xs i = Some x \<longleftrightarrow> i < length xs \<and> xs ! i = x"
  by (simp add: list_at_def)

definition tk_wf :: "Tokenizer \<Rightarrow> bool" where
  "tk_wf tk \<longleftrightarrow> length (tk_types tk) = length (tk_tokens tk) \<and> tk_i tk \<le> length (tk_tokens tk)"

definition remaining :: "Tokenizer \<Rightarrow> nat" where
  "remaining tk = length (tk_tokens tk) - tk_i tk"

lemma tk_wf_Tokenizer [wf_intros]: "tk_wf (Tokenizer qt text)"
  by (simp add: tk_wf_def Tokenizer_def Let_def)

lemma hasNext_remaining: "hasNext tk \<longleftrightarrow> 0 < remaining tk"
  by (auto simp: hasNext_def remaining_def)

lemma tk_next_hasNext:
  "hasNext tk \<Longrightarrow> tk_next tk = Some (tk_tokens tk ! tk_i tk, tk\<lparr>tk_i := Suc (tk_i tk)\<rparr>)"
  by (simp add: tk_next_def hasNext_def list_at_def)

lemma nextTokenType_hasNext:
  "tk_wf tk \<Longrightarrow> hasNext tk \<Longrightarrow> nextTokenType tk = Some (tk_types tk ! tk_i tk)"
  by (simp add: nextTokenType_def hasNext_def list_at_def tk_wf_def)

text \<open>The categories of the enumeration, spelt out.\<close>

lemma typeIsBinaryOp_iff:
  "typeIsBinaryOp t \<longleftrightarrow>
   t \<in> {EQ, NEQ, LT, GT, LTE, GTE, CONTAINS, STARTS_WITH, ENDS_WITH, MATCH}"
  by (cases t) (simp_all add: typeIsBinaryOp_def less_TokenType_def)

lemma typeIsUnaryOp_iff: "typeIsUnaryOp t \<longleftrightarrow> t = NOT"
  by (cases t) (simp_all add: typeIsUnaryOp_def less_TokenType_def)

lemma typeIsMathOp_iff: "typeIsMathOp t \<longleftrightarrow> t \<in> {PLUS, MINUS, MULTIPLY, DIVIDE, MOD}"
  by (cases t) (simp_all add: typeIsMathOp_def less_TokenType_def)

end
