(* ===== verification/FilterExpr.thy ===== *)
theory FilterExpr
  imports FilterTokens
begin

text \<open>
  \<open>controllers/filters/lang/expressions/*\<close>: the expression tree of a filter, its type synthesis
  (\<open>synthesizeType\<close>), its evaluation on a context of message values (\<open>execute\<close>) and its two
  printers (\<open>filterString\<close>, \<open>debug\<close>).

  The five subclasses of \<open>Expression\<close> are the constructors of one datatype, the virtual methods
  recursive functions over it.  Evaluation computes in C++ \<open>int\<close>: a result out of range and a
  division by zero are undefined behaviour, which the model returns as a fault.
\<close>

section \<open>Expressions\<close>

datatype 'c Expression =
    BinaryOperation TokenType "'c Expression" "'c Expression"
  | UnaryOperation TokenType "'c Expression"
  | ListExpression "'c Expression list"
  | RegexExpression string bool
  | ValueExpression "'c QVariant" TokenType

datatype 'c PossibleType =
    TypeClass Type
  | IllTyped "'c Expression" string

fun isWellTyped :: "'c PossibleType \<Rightarrow> bool" where
  "isWellTyped (TypeClass t) = True"
| "isWellTyped (IllTyped e m) = False"

fun possibleTypeToString :: "'c PossibleType \<Rightarrow> string" where
  "possibleTypeToString (TypeClass t) = typeToString t"
| "possibleTypeToString (IllTyped e m) = ''IllTyped''"

fun isList :: "'c PossibleType \<Rightarrow> bool" where
  "isList (IllTyped e m) = False"
| "isList (TypeClass t) = (t = List \<or> t = StringList \<or> t = MatchingSpecifier)"

section \<open>Type synthesis\<close>

text \<open>The switch of \<open>BinaryOperation::synthesizeType\<close>: an error message, or the result type.\<close>

definition binary_type :: "TokenType \<Rightarrow> Type \<Rightarrow> Type \<Rightarrow> string + Type" where
  "binary_type op left right =
     (if op = PLUS then
        (if left = String then Inr String
         else if left = Int' \<and> right = Int' then Inr Int'
         else Inl ''Can only add Ints or concatenate a String'')
      else if op \<in> {MINUS, MULTIPLY, DIVIDE, MOD} then
        (if left = Int' \<and> right = Int' then Inr Int'
         else Inl ''Can only perform operation with Ints'')
      else if op \<in> {OR, AND} then
        (if left = Bool \<and> right = Bool then Inr Bool
         else Inl ''Can only perform logical operations with Bools'')
      else if op \<in> {EQ, NEQ} then Inr Bool
      else if op \<in> {LT, GT, LTE, GTE} then
        (if left = Int' \<and> right = Int' then Inr Bool
         else Inl ''Can only perform comparisons with Ints'')
      else if op \<in> {STARTS_WITH, ENDS_WITH} then
        (if left \<in> {List, StringList, MatchingSpecifier} then Inr Bool
         else if left = String \<and> right = String then Inr Bool
         else Inl ''Can only perform starts/ends with a List or two Strings'')
      else if op = CONTAINS then
        (if left \<in> {List, StringList, MatchingSpecifier} \<or> left = Map then Inr Bool
         else if left = String \<and> right = String then Inr Bool
         else Inl ''Can only perform contains with a List, a Map, or two Strings'')
      else if op = MATCH then
        (if left \<noteq> String then Inl ''Left argument of match must be a String''
         else if right = RegularExpression then Inr Bool
         else if right = MatchingSpecifier then Inr String
         else Inl ''Can only match on a RegularExpression or a MatchingSpecifier'')
      else Inl ''Not implemented'')"

text \<open>The loop of \<open>ListExpression::synthesizeType\<close>: the element types, or the first ill-typed one.\<close>

fun element_types :: "'c PossibleType list \<Rightarrow> ('c Expression \<times> string) + Type list" where
  "element_types [] = Inr []"
| "element_types (IllTyped e m # ps) = Inl (e, m)"
| "element_types (TypeClass t # ps) =
     bind_sum (element_types ps) (\<lambda>ts. Inr (t # ts))"

definition list_type :: "Type list \<Rightarrow> Type" where
  "list_type types =
     (if length types = 2 \<and> types ! 0 = RegularExpression \<and> types ! 1 = Int'
      then MatchingSpecifier
      else if list_all (\<lambda>t. t = String) types then StringList else List)"

fun synthesizeType :: "'c qt_api \<Rightarrow> TypingContext \<Rightarrow> 'c Expression \<Rightarrow> 'c PossibleType" where
  "synthesizeType qt \<Gamma> (BinaryOperation op l r) =
     (case synthesizeType qt \<Gamma> l of
        IllTyped e m \<Rightarrow> IllTyped e m
      | TypeClass left \<Rightarrow>
          (case synthesizeType qt \<Gamma> r of
             IllTyped e m \<Rightarrow> IllTyped e m
           | TypeClass right \<Rightarrow>
               (case binary_type op left right of
                  Inl m \<Rightarrow> IllTyped (BinaryOperation op l r) m
                | Inr t \<Rightarrow> TypeClass t)))"
| "synthesizeType qt \<Gamma> (UnaryOperation op r) =
     (case synthesizeType qt \<Gamma> r of
        IllTyped e m \<Rightarrow> IllTyped e m
      | TypeClass right \<Rightarrow>
          (if op = NOT
           then (if right = Bool then TypeClass Bool
                 else IllTyped (UnaryOperation op r) ''Can only negate boolean values'')
           else IllTyped (UnaryOperation op r) ''Not implemented''))"
| "synthesizeType qt \<Gamma> (ListExpression es) =
     (case element_types (map (synthesizeType qt \<Gamma>) es) of
        Inl (e, m) \<Rightarrow> IllTyped e m
      | Inr types \<Rightarrow> TypeClass (list_type types))"
| "synthesizeType qt \<Gamma> (RegexExpression p ci) = TypeClass RegularExpression"
| "synthesizeType qt \<Gamma> (ValueExpression v t) =
     (if t = IDENTIFIER
      then (case \<Gamma> (q_toString qt v) of
              Some T \<Rightarrow> TypeClass T
            | None \<Rightarrow> IllTyped (ValueExpression v t) ''Unbound identifier'')
      else if t = INT' then TypeClass Int'
      else if t = STRING then TypeClass String
      else IllTyped (ValueExpression v t) ''Invalid value type'')"

section \<open>Evaluation\<close>

datatype exec_fault = SignedOverflow | DivisionByZero

fun variant_toInt :: "'c QVariant \<Rightarrow> int" where
  "variant_toInt (VInt n) = n"
| "variant_toInt _ = 0"

definition int_result :: "int \<Rightarrow> exec_fault + 'c QVariant" where
  "int_result n = (if in_int_range n then Inr (VInt n) else Inl SignedOverflow)"

definition int_arith :: "TokenType \<Rightarrow> int \<Rightarrow> int \<Rightarrow> exec_fault + 'c QVariant" where
  "int_arith op a b =
     (if op = PLUS then int_result (a + b)
      else if op = MINUS then int_result (a - b)
      else if op = MULTIPLY then int_result (a * b)
      else if b = 0 then Inl DivisionByZero
      else if \<not> in_int_range (cpp_div a b) then Inl SignedOverflow
      else if op = DIVIDE then Inr (VInt (cpp_div a b))
      else Inr (VInt (cpp_mod a b)))"

definition int_compare :: "TokenType \<Rightarrow> int \<Rightarrow> int \<Rightarrow> bool" where
  "int_compare op a b =
     (if op = LT then a < b else if op = GT then a > b else if op = LTE then a \<le> b else a \<ge> b)"

definition looselyCompareVariants :: "'c qt_api \<Rightarrow> 'c QVariant \<Rightarrow> 'c QVariant \<Rightarrow> bool" where
  "looselyCompareVariants qt lhs rhs =
     (if typeId lhs \<noteq> typeId rhs
      then (if q_canConvert qt rhs (typeId lhs)
            then (case q_convert qt rhs (typeId lhs) of
                    None \<Rightarrow> False
                  | Some rhs' \<Rightarrow> q_equals qt lhs rhs')
            else (case q_convert qt lhs (typeId rhs) of
                    None \<Rightarrow> False
                  | Some lhs' \<Rightarrow> q_equals qt rhs lhs'))
      else q_equals qt lhs rhs)"

definition variants_equal :: "'c qt_api \<Rightarrow> 'c QVariant \<Rightarrow> 'c QVariant \<Rightarrow> bool" where
  "variants_equal qt left right =
     (if variantTypesMatch left right MString
      then q_compareCI qt (q_toString qt left) (q_toString qt right)
      else looselyCompareVariants qt left right)"

definition execute_contains :: "'c qt_api \<Rightarrow> 'c QVariant \<Rightarrow> 'c QVariant \<Rightarrow> bool" where
  "execute_contains qt left right =
     (case (left, q_canConvert qt right MString) of
        (VStringList ss, True) \<Rightarrow> list_ex (\<lambda>s. q_compareCI qt s (q_toString qt right)) ss
      | (VMap m, True) \<Rightarrow> q_toString qt right \<in> set (map fst m)
      | (VList vs, _) \<Rightarrow> list_ex (\<lambda>v. q_equals qt v right) vs
      | (_, c) \<Rightarrow> q_canConvert qt left MString \<and> c \<and>
          q_containsCI qt (q_toString qt left) (q_toString qt right))"

definition execute_startswith :: "'c qt_api \<Rightarrow> 'c QVariant \<Rightarrow> 'c QVariant \<Rightarrow> bool" where
  "execute_startswith qt left right =
     (case (left, q_canConvert qt right MString) of
        (VStringList ss, True) \<Rightarrow> ss \<noteq> [] \<and> q_compareCI qt (hd ss) (q_toString qt right)
      | (VList vs, _) \<Rightarrow> vs \<noteq> [] \<and> q_equals qt (hd vs) right
      | (_, c) \<Rightarrow> q_canConvert qt left MString \<and> c \<and>
          q_startsWithCI qt (q_toString qt left) (q_toString qt right))"

definition execute_endswith :: "'c qt_api \<Rightarrow> 'c QVariant \<Rightarrow> 'c QVariant \<Rightarrow> bool" where
  "execute_endswith qt left right =
     (case (left, q_canConvert qt right MString) of
        (VStringList ss, True) \<Rightarrow> ss \<noteq> [] \<and> q_compareCI qt (last ss) (q_toString qt right)
      | (VList vs, _) \<Rightarrow> vs \<noteq> [] \<and> q_equals qt (last vs) right
      | (_, c) \<Rightarrow> q_canConvert qt left MString \<and> c \<and>
          q_endsWithCI qt (q_toString qt left) (q_toString qt right))"

definition execute_match :: "'c qt_api \<Rightarrow> 'c QVariant \<Rightarrow> 'c QVariant \<Rightarrow> 'c QVariant" where
  "execute_match qt left right =
     (if \<not> q_canConvert qt left MString then VBool False
      else let matching = q_toString qt left in
        (case right of
           VRegularExpression p ci \<Rightarrow> VBool (q_match qt p ci matching \<noteq> None)
         | VList list \<Rightarrow>
             (if length list \<noteq> 2 then VBool False
              else if variantIsNot (list ! 0) MRegularExpression \<or> variantIsNot (list ! 1) MInt
              then VBool False
              else (case list ! 0 of
                      VRegularExpression p ci \<Rightarrow>
                        (case q_match qt p ci matching of
                           Some captured \<Rightarrow> VString (captured (variant_toInt (list ! 1)))
                         | None \<Rightarrow> VString [])
                    | _ \<Rightarrow> VBool False))
         | _ \<Rightarrow> VBool False))"

definition binary_execute ::
  "'c qt_api \<Rightarrow> TokenType \<Rightarrow> 'c QVariant \<Rightarrow> 'c QVariant \<Rightarrow> exec_fault + 'c QVariant" where
  "binary_execute qt op left right =
     (if op = PLUS \<and> variantIs left MString \<and> q_canConvert qt right MString
      then Inr (VString (q_toString qt left @ q_toString qt right))
      else if op \<in> {PLUS, MINUS, MULTIPLY, DIVIDE, MOD} then
        (case convertVariantTypes qt left right MInt of
           Some (l, r) \<Rightarrow> int_arith op (variant_toInt l) (variant_toInt r)
         | None \<Rightarrow> Inr (VInt 0))
      else if op = OR then
        (case convertVariantTypes qt left right MBool of
           Some (l, r) \<Rightarrow> Inr (VBool (q_toBool qt l \<or> q_toBool qt r))
         | None \<Rightarrow> Inr (VBool False))
      else if op = AND then
        (case convertVariantTypes qt left right MBool of
           Some (l, r) \<Rightarrow> Inr (VBool (q_toBool qt l \<and> q_toBool qt r))
         | None \<Rightarrow> Inr (VBool False))
      else if op = EQ then Inr (VBool (variants_equal qt left right))
      else if op = NEQ then Inr (VBool (\<not> variants_equal qt left right))
      else if op \<in> {LT, GT, LTE, GTE} then
        (case convertVariantTypes qt left right MInt of
           Some (l, r) \<Rightarrow> Inr (VBool (int_compare op (variant_toInt l) (variant_toInt r)))
         | None \<Rightarrow> Inr (VBool False))
      else if op = CONTAINS then Inr (VBool (execute_contains qt left right))
      else if op = STARTS_WITH then Inr (VBool (execute_startswith qt left right))
      else if op = ENDS_WITH then Inr (VBool (execute_endswith qt left right))
      else if op = MATCH then Inr (execute_match qt left right)
      else Inr (VBool False))"

definition unary_execute :: "'c qt_api \<Rightarrow> TokenType \<Rightarrow> 'c QVariant \<Rightarrow> 'c QVariant" where
  "unary_execute qt op right =
     (if op = NOT then VBool (q_canConvert qt right MBool \<and> \<not> q_toBool qt right)
      else VBool False)"

definition list_result :: "'c qt_api \<Rightarrow> 'c QVariant list \<Rightarrow> 'c QVariant" where
  "list_result qt results =
     (if list_all (\<lambda>v. \<not> variantIsNot v MString) results
      then VStringList (map (q_toString qt) results)
      else VList results)"

fun execute :: "'c qt_api \<Rightarrow> 'c ContextMap \<Rightarrow> 'c Expression \<Rightarrow> exec_fault + 'c QVariant" where
  "execute qt ctx (BinaryOperation op l r) =
     bind_sum (execute qt ctx l) (\<lambda>left.
     bind_sum (execute qt ctx r) (\<lambda>right. binary_execute qt op left right))"
| "execute qt ctx (UnaryOperation op r) =
     bind_sum (execute qt ctx r) (\<lambda>right. Inr (unary_execute qt op right))"
| "execute qt ctx (ListExpression es) =
     bind_sum (collect (map (execute qt ctx) es)) (\<lambda>results. Inr (list_result qt results))"
| "execute qt ctx (RegexExpression p ci) = Inr (VRegularExpression p ci)"
| "execute qt ctx (ValueExpression v t) =
     (if t = IDENTIFIER
      then Inr (case ctx (q_toString qt v) of Some w \<Rightarrow> w | None \<Rightarrow> VInvalid)
      else Inr v)"

section \<open>Printing\<close>

text \<open>\<open>QString::replace\<close> of a quote by an escaped quote, and back.\<close>

definition escape_quotes :: "string \<Rightarrow> string" where
  "escape_quotes s = concat (map (\<lambda>c. if c = quote then [backslash, quote] else [c]) s)"

fun unescape_quotes :: "string \<Rightarrow> string" where
  "unescape_quotes (c # d # s) =
     (if c = backslash \<and> d = quote then quote # unescape_quotes s
      else c # unescape_quotes (d # s))"
| "unescape_quotes s = s"

fun binary_op_text :: "TokenType \<Rightarrow> string" where
  "binary_op_text AND = ''&&''"
| "binary_op_text OR = ''||''"
| "binary_op_text PLUS = ''+''"
| "binary_op_text MINUS = ''-''"
| "binary_op_text MULTIPLY = ''*''"
| "binary_op_text DIVIDE = ''/''"
| "binary_op_text MOD = ''%''"
| "binary_op_text EQ = ''==''"
| "binary_op_text NEQ = ''!=''"
| "binary_op_text LT = ''<''"
| "binary_op_text GT = ''>''"
| "binary_op_text LTE = ''<=''"
| "binary_op_text GTE = ''>=''"
| "binary_op_text CONTAINS = ''contains''"
| "binary_op_text STARTS_WITH = ''startswith''"
| "binary_op_text ENDS_WITH = ''endswith''"
| "binary_op_text MATCH = ''match''"
| "binary_op_text _ = []"

text \<open>\<open>QStringList::join\<close>.\<close>

fun join :: "string \<Rightarrow> string list \<Rightarrow> string" where
  "join sep [] = []"
| "join sep [s] = s"
| "join sep (s # t # ss) = s @ sep @ join sep (t # ss)"

fun filterString :: "'c qt_api \<Rightarrow> 'c Expression \<Rightarrow> string" where
  "filterString qt (BinaryOperation op l r) =
     q_arg qt (q_arg qt (q_arg qt ''(%1 %2 %3)'' (filterString qt l)) (binary_op_text op))
       (filterString qt r)"
| "filterString qt (UnaryOperation op r) =
     q_arg qt (q_arg qt ''(%1%2)'' (if op = NOT then ''!'' else [])) (filterString qt r)"
| "filterString qt (ListExpression es) =
     q_arg qt ''{%1}'' (join '', '' (map (filterString qt) es))"
| "filterString qt (RegexExpression p ci) =
     q_arg qt (q_arg qt (''%1'' @ [quote] @ ''%2'' @ [quote]) (if ci then ''ri'' else ''r''))
       (escape_quotes p)"
| "filterString qt (ValueExpression v t) =
     (if t = INT' then q_number qt (variant_toInt v)
      else if t = STRING
      then q_arg qt ([quote] @ ''%1'' @ [quote]) (escape_quotes (q_toString qt v))
      else if t = IDENTIFIER then q_toString qt v
      else [])"

fun debug :: "'c qt_api \<Rightarrow> TypingContext \<Rightarrow> 'c Expression \<Rightarrow> string" where
  "debug qt \<Gamma> (BinaryOperation op l r) =
     q_arg qt (q_arg qt (q_arg qt (q_arg qt (q_arg qt
       ''BinaryOp[%1](%2 : %3, %4 : %5)'' (tokenTypeToInfoString op))
       (debug qt \<Gamma> l)) (possibleTypeToString (synthesizeType qt \<Gamma> l)))
       (debug qt \<Gamma> r)) (possibleTypeToString (synthesizeType qt \<Gamma> r))"
| "debug qt \<Gamma> (UnaryOperation op r) =
     q_arg qt (q_arg qt (q_arg qt ''UnaryOp[%1](%2 : %3)'' (tokenTypeToInfoString op))
       (debug qt \<Gamma> r)) (possibleTypeToString (synthesizeType qt \<Gamma> r))"
| "debug qt \<Gamma> (ListExpression es) =
     q_arg qt ''List(%1)'' (join '', ''
       (map (\<lambda>e. q_arg qt (q_arg qt ''%1 : %2'' (debug qt \<Gamma> e))
         (possibleTypeToString (synthesizeType qt \<Gamma> e))) es))"
| "debug qt \<Gamma> (RegexExpression p ci) = q_arg qt ''RegEx(%1)'' p"
| "debug qt \<Gamma> (ValueExpression v t) = q_arg qt ''Val(%1)'' (q_toString qt v)"

section \<open>Well-formed trees\<close>

text \<open>What the parser builds: literals hold a value of their token's type.\<close>

fun literals_ok :: "'c Expression \<Rightarrow> bool" where
  "literals_ok (BinaryOperation op l r) = (literals_ok l \<and> literals_ok r)"
| "literals_ok (UnaryOperation op r) = literals_ok r"
| "literals_ok (ListExpression es) = list_all literals_ok es"
| "literals_ok (RegexExpression p ci) = True"
| "literals_ok (ValueExpression v t) =
     ((t = INT' \<longrightarrow> typeId v = MInt \<and> has_type v Int') \<and> (t = STRING \<longrightarrow> has_type v String))"

text \<open>
  The trees on which the type rules and the evaluation agree.  Two rules are more liberal than the
  evaluation: a string can be concatenated with anything, although a regular expression or a list
  does not convert to a string; and a matching specifier takes any integer, although evaluation
  wants an \<open>int\<close> and a string length is a \<open>qlonglong\<close>.
\<close>

fun is_identifier :: "'c Expression \<Rightarrow> bool" where
  "is_identifier (ValueExpression v t) = (t = IDENTIFIER)"
| "is_identifier _ = False"

fun typing_exact :: "'c qt_api \<Rightarrow> TypingContext \<Rightarrow> 'c Expression \<Rightarrow> bool" where
  "typing_exact qt \<Gamma> (BinaryOperation op l r) =
     (typing_exact qt \<Gamma> l \<and> typing_exact qt \<Gamma> r \<and>
      (op = PLUS \<and> synthesizeType qt \<Gamma> l = TypeClass String \<longrightarrow>
         synthesizeType qt \<Gamma> r \<in> TypeClass ` {String, Int', Bool, Color}))"
| "typing_exact qt \<Gamma> (UnaryOperation op r) = typing_exact qt \<Gamma> r"
| "typing_exact qt \<Gamma> (ListExpression es) =
     (list_all (typing_exact qt \<Gamma>) es \<and>
      (synthesizeType qt \<Gamma> (ListExpression es) = TypeClass MatchingSpecifier \<longrightarrow>
         \<not> is_identifier (last es)))"
| "typing_exact qt \<Gamma> (RegexExpression p ci) = True"
| "typing_exact qt \<Gamma> (ValueExpression v t) = True"

fun operators :: "'c Expression \<Rightarrow> TokenType set" where
  "operators (BinaryOperation op l r) = insert op (operators l \<union> operators r)"
| "operators (UnaryOperation op r) = insert op (operators r)"
| "operators (ListExpression es) = \<Union> (set (map operators es))"
| "operators (RegexExpression p ci) = {}"
| "operators (ValueExpression v t) = {}"

section \<open>Evaluation respects types\<close>

lemma binary_type_PLUS [simp]:
  "binary_type PLUS a b = (if a = String then Inr String
     else if a = Int' \<and> b = Int' then Inr Int'
     else Inl ''Can only add Ints or concatenate a String'')"
  by (simp add: binary_type_def)

lemma synth_binaryD:
  assumes "synthesizeType qt \<Gamma> (BinaryOperation op l r) = TypeClass T"
  obtains a b where "synthesizeType qt \<Gamma> l = TypeClass a" "synthesizeType qt \<Gamma> r = TypeClass b"
    "binary_type op a b = Inr T"
  using assms by (auto split: PossibleType.splits sum.splits)

lemma int_arith_type:
  "int_arith op a b = Inr v \<Longrightarrow> in_int_range a \<Longrightarrow> has_type v Int'"
  by (auto simp: int_arith_def int_result_def cpp_mod_range split: if_splits)

lemma execute_match_type:
  assumes "qt_conversion_laws qt" "has_type l String" "has_type r b"
    "binary_type MATCH String b = Inr T"
  shows "has_type (execute_match qt l r) T"
  using assms
  by (auto simp: binary_type_def execute_match_def variantIsNot_def Let_def
      split: if_splits option.splits)

lemma binary_execute_arith_type:
  assumes "qt_conversion_laws qt" "has_type l Int'" "has_type r Int'"
    "op \<in> {PLUS, MINUS, MULTIPLY, DIVIDE, MOD}" "binary_execute qt op l r = Inr v"
  shows "has_type v Int'"
proof -
  obtain a where a: "q_convert qt l MInt = Some (VInt a)" "in_int_range a"
    using assms(1,2) by (rule convert_to_int)
  obtain b where b: "q_convert qt r MInt = Some (VInt b)"
    using assms(1,3) by (rule convert_to_int)
  have "\<not> variantIs l MString" using assms(2) by (auto simp: variantIs_def)
  with assms(4,5) a b have "int_arith op a b = Inr v"
    by (auto simp: binary_execute_def convertVariantTypes_def)
  then show ?thesis using a(2) by (rule int_arith_type)
qed

lemma binary_execute_bool_type:
  assumes "op \<in> {OR, AND, EQ, NEQ, LT, GT, LTE, GTE, CONTAINS, STARTS_WITH, ENDS_WITH}"
    "binary_execute qt op l r = Inr v"
  shows "has_type v Bool"
  using assms by (auto simp: binary_execute_def split: option.splits)


lemma binary_execute_type:
  assumes laws: "qt_conversion_laws qt" and l: "has_type l a" and r: "has_type r b"
    and T: "binary_type op a b = Inr T"
    and safe: "op = PLUS \<Longrightarrow> a = String \<Longrightarrow> b \<in> {String, Int', Bool, Color}"
    and v: "binary_execute qt op l r = Inr v"
  shows "has_type v T"
proof -
  consider (plus) "op = PLUS" "a = String"
    | (arith) "op \<in> {PLUS, MINUS, MULTIPLY, DIVIDE, MOD}" "a = Int'" "b = Int'" "T = Int'"
    | (bool) "op \<in> {OR, AND, EQ, NEQ, LT, GT, LTE, GTE, CONTAINS, STARTS_WITH, ENDS_WITH}"
        "T = Bool"
    | (match) "op = MATCH" "a = String"
    using T by (auto simp: binary_type_def split: if_splits)
  then show ?thesis
  proof cases
    case plus
    with l r safe laws have "variantIs l MString" "q_canConvert qt r MString"
      by (auto simp: variantIs_def)
    with plus T v show ?thesis by (auto simp: binary_execute_def)
  next
    case arith
    then show ?thesis using binary_execute_arith_type [OF laws] l r v by blast
  next
    case bool
    then show ?thesis using binary_execute_bool_type v by blast
  next
    case match
    with l r T v execute_match_type [OF laws] show ?thesis
      by (auto simp: binary_execute_def)
  qed
qed

lemma element_types_Inr: "element_types ps = Inr ts \<longleftrightarrow> ps = map TypeClass ts"
  by (induction ps arbitrary: ts rule: element_types.induct) (auto simp: bind_sum_eq_Inr)

text \<open>Only an identifier evaluates to a \<open>qlonglong\<close>.\<close>

lemma binary_execute_not_LongLong:
  "binary_execute qt op l r = Inr v \<Longrightarrow> typeId v \<noteq> MLongLong"
  by (auto simp: binary_execute_def int_arith_def int_result_def execute_match_def Let_def
      split: if_splits option.splits QVariant.splits)

lemma execute_not_LongLong:
  assumes "execute qt ctx e = Inr v" "\<not> is_identifier e" "literals_ok e"
    "synthesizeType qt \<Gamma> e = TypeClass Int'"
  shows "typeId v \<noteq> MLongLong"
  using assms
proof (cases e)
  case (BinaryOperation op l r)
  with assms(1) obtain x y where "binary_execute qt op x y = Inr v"
    by (auto simp: bind_sum_eq_Inr)
  then show ?thesis by (rule binary_execute_not_LongLong)
qed (auto simp: bind_sum_eq_Inr unary_execute_def list_result_def split: if_splits)

lemma list_result_type:
  assumes "list_all2 has_type vs ts" "qt_conversion_laws qt"
    and last: "list_type ts = MatchingSpecifier \<Longrightarrow> typeId (last vs) \<noteq> MLongLong"
  shows "has_type (list_result qt vs) (list_type ts)"
proof (cases "list_all (\<lambda>t. t = String) ts")
  case True
  with assms(1) have "list_all (\<lambda>v. \<not> variantIsNot v MString) vs"
    by (induction rule: list_all2_induct) (auto simp: variantIsNot_def)
  with True show ?thesis
    by (cases ts) (auto simp: list_result_def list_type_def)
next
  case False
  with assms(1) have "\<not> list_all (\<lambda>v. \<not> variantIsNot v MString) vs"
    by (induction rule: list_all2_induct) (auto simp: variantIsNot_def)
  then have "list_result qt vs = VList vs" by (simp add: list_result_def)
  moreover have "has_type (VList vs) MatchingSpecifier"
    if two: "length ts = 2" "ts ! 0 = RegularExpression" "ts ! 1 = Int'"
  proof -
    from two have "ts = [RegularExpression, Int']"
      by (auto simp: length_Suc_conv numeral_2_eq_2)
    with assms(1) last show ?thesis by (auto simp: list_all2_Cons2 list_type_def)
  qed
  ultimately show ?thesis using False by (auto simp: list_type_def simp del: has_type.simps)
qed

lemma execute_type:
  assumes laws: "qt_conversion_laws qt" and ctx: "conforms ctx \<Gamma>"
    and "literals_ok e" "typing_exact qt \<Gamma> e"
    and "synthesizeType qt \<Gamma> e = TypeClass T" "execute qt ctx e = Inr v"
  shows "has_type v T"
  using assms(3-)
proof (induction e arbitrary: T v)
  case (BinaryOperation op l r)
  from BinaryOperation.prems(3) obtain a b where
    ty: "synthesizeType qt \<Gamma> l = TypeClass a" "synthesizeType qt \<Gamma> r = TypeClass b"
    and T: "binary_type op a b = Inr T" by (rule synth_binaryD)
  from BinaryOperation.prems(4) obtain x y where
    ex: "execute qt ctx l = Inr x" "execute qt ctx r = Inr y"
    and v: "binary_execute qt op x y = Inr v" by (auto simp: bind_sum_eq_Inr)
  from BinaryOperation ty ex have xy: "has_type x a" "has_type y b" by auto
  show ?case
    by (rule binary_execute_type [OF laws xy T _ v]) (use BinaryOperation.prems(2) ty in auto)
next
  case (UnaryOperation op r)
  then show ?case
    by (auto simp: bind_sum_eq_Inr unary_execute_def split: PossibleType.splits if_splits)
next
  case (ListExpression es)
  from ListExpression.prems(3) obtain ts where ts: "map (synthesizeType qt \<Gamma>) es = map TypeClass ts"
    and T: "T = list_type ts" by (auto simp: element_types_Inr split: sum.splits)
  from ListExpression.prems(4) obtain vs where vs: "map (execute qt ctx) es = map Inr vs"
    and v: "v = list_result qt vs" by (auto simp: bind_sum_eq_Inr collect_eq_Inr)
  have len: "length vs = length es" "length ts = length es"
    using vs ts by (metis length_map)+
  have "has_type (vs ! i) (ts ! i)" if i: "i < length es" for i
  proof (rule ListExpression.IH [of "es ! i"])
    show "synthesizeType qt \<Gamma> (es ! i) = TypeClass (ts ! i)"
      using ts i len by (metis nth_map)
    show "execute qt ctx (es ! i) = Inr (vs ! i)"
      using vs i len by (metis nth_map)
  qed (use i ListExpression.prems(1,2) in \<open>auto simp: list_all_length\<close>)
  then have types: "list_all2 has_type vs ts"
    using len by (auto simp: list_all2_conv_all_nth)
  have "typeId (last vs) \<noteq> MLongLong" if ms: "list_type ts = MatchingSpecifier"
  proof -
    have two: "length ts = 2" "ts ! 1 = Int'" using ms by (auto simp: list_type_def split: if_splits)
    then have es: "es ! 1 = last es" "vs ! 1 = last vs" "es \<noteq> []"
      using len by (auto simp: length_Suc_conv numeral_2_eq_2)
    show ?thesis
    proof (rule execute_not_LongLong [where e = "last es"])
      show "execute qt ctx (last es) = Inr (last vs)"
        using arg_cong [OF vs, of "\<lambda>xs. xs ! 1"] two len es by simp
      show "synthesizeType qt \<Gamma> (last es) = TypeClass Int'"
        using arg_cong [OF ts, of "\<lambda>xs. xs ! 1"] two len es by simp
      show "\<not> is_identifier (last es)" "literals_ok (last es)"
        using ListExpression.prems(1-3) T ms es(3) by (auto simp: list_all_iff)
    qed
  qed
  with types show ?case using v T laws by (simp add: list_result_type)
next
  case (RegexExpression p ci)
  then show ?case by auto
next
  case (ValueExpression w t)
  then show ?case
    using ctx by (fastforce simp: conforms_def split: if_splits option.splits)
qed

section \<open>Faults\<close>

lemma binary_execute_fault:
  "binary_execute qt op l r = Inl f \<Longrightarrow>
   op \<in> {PLUS, MINUS, MULTIPLY, DIVIDE, MOD} \<and> (f = DivisionByZero \<longrightarrow> op \<in> {DIVIDE, MOD})"
  by (auto simp: binary_execute_def int_arith_def int_result_def split: if_splits option.splits)

lemma execute_fault:
  "execute qt ctx e = Inl f \<Longrightarrow>
   \<exists>op\<in>operators e. op \<in> {PLUS, MINUS, MULTIPLY, DIVIDE, MOD} \<and>
     (f = DivisionByZero \<longrightarrow> op \<in> {DIVIDE, MOD})"
proof (induction e arbitrary: f)
  case (BinaryOperation op l r)
  from BinaryOperation.prems consider "execute qt ctx l = Inl f" | "execute qt ctx r = Inl f"
    | x y where "binary_execute qt op x y = Inl f"
    by (auto simp: bind_sum_eq_Inl)
  then show ?case
  proof cases
    case 3
    from binary_execute_fault [OF this] show ?thesis by auto
  qed (use BinaryOperation.IH in fastforce)+
next
  case (ListExpression es)
  then have "Inl f \<in> set (map (execute qt ctx) es)"
    by (auto simp: bind_sum_eq_Inl dest: collect_eq_Inl_ex)
  then obtain e where "e \<in> set es" "execute qt ctx e = Inl f" by (auto simp del: execute.simps)
  with ListExpression.IH [OF this] show ?case by auto
qed (auto simp: bind_sum_eq_Inl split: if_splits)


end
