(* ===== verification/FilterParser.thy ===== *)
theory FilterParser
  imports FilterExpr
begin

text \<open>
  \<open>controllers/filters/lang/FilterParser.hpp\<close> and \<open>FilterParser.cpp\<close>: the recursive-descent parser
  of the filter language.

  Every parse method is one function over the parser's state (the error log, the validity flag
  and the token cursor); a \<open>while\<close> loop of a method is a function of its own.  The functions take
  fuel and can fail in three ways: a token is read out of range, an \<open>assert\<close> fails, the fuel runs
  out.  Lemma \<open>parse_total\<close> shows that none of these happens when the fuel is ten per token left
  plus ten, so the fuel of the constructor, computed from the token count, is always enough.
\<close>

section \<open>State and faults\<close>

datatype parse_fault = OutOfRange | AssertionFailed | OutOfFuel

record Parser =
  ps_log :: "string list"
  ps_valid :: bool
  ps_tk :: Tokenizer

definition errorLog :: "string \<Rightarrow> bool \<Rightarrow> Parser \<Rightarrow> Parser" where
  "errorLog text expand p =
     (let p' = p\<lparr>ps_valid := False\<rparr>
      in if expand \<or> ps_log p = [] then p'\<lparr>ps_log := ps_log p @ [text]\<rparr> else p')"

definition in_range :: "'a option \<Rightarrow> parse_fault + 'a" where
  "in_range r = (case r of None \<Rightarrow> Inl OutOfRange | Some x \<Rightarrow> Inr x)"

definition p_hasNext :: "Parser \<Rightarrow> bool" where
  "p_hasNext p = hasNext (ps_tk p)"

definition p_next :: "Parser \<Rightarrow> parse_fault + (string \<times> Parser)" where
  "p_next p = bind_sum (in_range (tk_next (ps_tk p))) (\<lambda>(t, tk). Inr (t, p\<lparr>ps_tk := tk\<rparr>))"

definition p_nextType :: "Parser \<Rightarrow> parse_fault + TokenType" where
  "p_nextType p = in_range (nextTokenType (ps_tk p))"

definition p_type :: "Parser \<Rightarrow> parse_fault + TokenType" where
  "p_type p = in_range (tokenType (ps_tk p))"

definition p_preview :: "Parser \<Rightarrow> parse_fault + string" where
  "p_preview p = in_range (preview (ps_tk p))"

text \<open>The literal of a string token and of a regex token: quotes removed, quotes unescaped.\<close>

definition string_value :: "string \<Rightarrow> string" where
  "string_value raw = unescape_quotes (butlast (tl raw))"

definition regex_value :: "string \<Rightarrow> string \<times> bool" where
  "regex_value raw =
     (let ci = (take 2 raw = ''ri'')
      in (unescape_quotes (butlast (drop (if ci then 3 else 2) raw)), ci))"

section \<open>The parse methods\<close>

function (sequential)
      parseExpression :: "'c qt_api \<Rightarrow> nat \<Rightarrow> bool \<Rightarrow> Parser \<Rightarrow> parse_fault + ('c Expression \<times> Parser)"
  and orLoop :: "'c qt_api \<Rightarrow> nat \<Rightarrow> 'c Expression \<Rightarrow> Parser \<Rightarrow> parse_fault + ('c Expression \<times> Parser)"
  and parseAnd :: "'c qt_api \<Rightarrow> nat \<Rightarrow> Parser \<Rightarrow> parse_fault + ('c Expression \<times> Parser)"
  and andLoop :: "'c qt_api \<Rightarrow> nat \<Rightarrow> 'c Expression \<Rightarrow> Parser \<Rightarrow> parse_fault + ('c Expression \<times> Parser)"
  and parseUnary :: "'c qt_api \<Rightarrow> nat \<Rightarrow> Parser \<Rightarrow> parse_fault + ('c Expression \<times> Parser)"
  and parseParentheses :: "'c qt_api \<Rightarrow> nat \<Rightarrow> Parser \<Rightarrow> parse_fault + ('c Expression \<times> Parser)"
  and parseCondition :: "'c qt_api \<Rightarrow> nat \<Rightarrow> Parser \<Rightarrow> parse_fault + ('c Expression \<times> Parser)"
  and conditionLoop :: "'c qt_api \<Rightarrow> nat \<Rightarrow> 'c Expression \<Rightarrow> Parser \<Rightarrow> parse_fault + ('c Expression \<times> Parser)"
  and parseValue :: "'c qt_api \<Rightarrow> nat \<Rightarrow> Parser \<Rightarrow> parse_fault + ('c Expression \<times> Parser)"
  and parseList :: "'c qt_api \<Rightarrow> nat \<Rightarrow> Parser \<Rightarrow> parse_fault + ('c Expression \<times> Parser)"
  and listLoop :: "'c qt_api \<Rightarrow> nat \<Rightarrow> 'c Expression list \<Rightarrow> bool \<Rightarrow> Parser \<Rightarrow>
         parse_fault + ('c Expression \<times> Parser)"
where
  "parseExpression qt 0 is_top p = Inl OutOfFuel"
| "parseExpression qt (Suc n) is_top p =
     bind_sum (parseAnd qt n p) (\<lambda>(e, p).
     bind_sum (orLoop qt n e p) (\<lambda>(e, p).
     if p_hasNext p \<and> is_top
     then bind_sum (p_preview p) (\<lambda>t.
            Inr (e, errorLog (q_arg qt ''Unexpected token at end: %1'' t) False p))
     else Inr (e, p)))"
| "orLoop qt 0 e p = Inl OutOfFuel"
| "orLoop qt (Suc n) e p =
     (if p_hasNext p
      then bind_sum (p_nextType p) (\<lambda>t.
           if t = OR
           then bind_sum (p_next p) (\<lambda>(_, p).
                bind_sum (parseAnd qt n p) (\<lambda>(nextAnd, p).
                orLoop qt n (BinaryOperation OR e nextAnd) p))
           else Inr (e, p))
      else Inr (e, p))"
| "parseAnd qt 0 p = Inl OutOfFuel"
| "parseAnd qt (Suc n) p =
     bind_sum (parseUnary qt n p) (\<lambda>(e, p). andLoop qt n e p)"
| "andLoop qt 0 e p = Inl OutOfFuel"
| "andLoop qt (Suc n) e p =
     (if p_hasNext p
      then bind_sum (p_nextType p) (\<lambda>t.
           if t = AND
           then bind_sum (p_next p) (\<lambda>(_, p).
                bind_sum (parseUnary qt n p) (\<lambda>(nextUnary, p).
                andLoop qt n (BinaryOperation AND e nextUnary) p))
           else Inr (e, p))
      else Inr (e, p))"
| "parseUnary qt 0 p = Inl OutOfFuel"
| "parseUnary qt (Suc n) p =
     (if p_hasNext p
      then bind_sum (p_nextType p) (\<lambda>t.
           if typeIsUnaryOp t
           then bind_sum (p_next p) (\<lambda>(_, p).
                bind_sum (p_type p) (\<lambda>type.
                bind_sum (parseCondition qt n p) (\<lambda>(nextCondition, p).
                Inr (UnaryOperation type nextCondition, p))))
           else parseCondition qt n p)
      else parseCondition qt n p)"
| "parseParentheses qt 0 p = Inl OutOfFuel"
| "parseParentheses qt (Suc n) p =
     bind_sum (p_nextType p) (\<lambda>t.
     if t \<noteq> LP then Inl AssertionFailed
     else bind_sum (p_next p) (\<lambda>(_, p).
          bind_sum (parseExpression qt n False p) (\<lambda>(e, p).
          if p_hasNext p
          then bind_sum (p_nextType p) (\<lambda>t.
               if t = RP then bind_sum (p_next p) (\<lambda>(_, p). Inr (e, p))
               else bind_sum (p_preview p) (\<lambda>s.
                    Inr (e, errorLog
                      (q_arg qt ''Missing closing parentheses: got %1'' s) False p)))
          else Inr (e, errorLog ''Missing closing parentheses at end of statement'' False p))))"
| "parseCondition qt 0 p = Inl OutOfFuel"
| "parseCondition qt (Suc n) p =
     bind_sum
       (if p_hasNext p
        then bind_sum (p_nextType p) (\<lambda>t.
             if t = LP then parseParentheses qt n p else parseValue qt n p)
        else parseValue qt n p)
       (\<lambda>(value, p). conditionLoop qt n value p)"
| "conditionLoop qt 0 value p = Inl OutOfFuel"
| "conditionLoop qt (Suc n) value p =
     (if p_hasNext p
      then bind_sum (p_nextType p) (\<lambda>t.
           if typeIsBinaryOp t
           then bind_sum (p_next p) (\<lambda>(_, p).
                bind_sum (p_type p) (\<lambda>type.
                bind_sum (parseValue qt n p) (\<lambda>(nextValue, p).
                Inr (BinaryOperation type value nextValue, p))))
           else if typeIsMathOp t
           then bind_sum (p_next p) (\<lambda>(_, p).
                bind_sum (p_type p) (\<lambda>type.
                bind_sum (parseValue qt n p) (\<lambda>(nextValue, p).
                conditionLoop qt n (BinaryOperation type value nextValue) p)))
           else if t = RP then Inr (value, p)
           else if \<not> typeIsOp t
           then bind_sum (p_preview p) (\<lambda>s.
                Inr (value, errorLog
                  (q_arg qt (q_arg qt ''Expected an operator but got %1 %2'' s)
                    (tokenTypeToInfoString t)) False p))
           else Inr (value, p))
      else Inr (value, p))"
| "parseValue qt 0 p = Inl OutOfFuel"
| "parseValue qt (Suc n) p =
     (if p_hasNext p
      then bind_sum (p_nextType p) (\<lambda>type.
           if type = INT'
           then bind_sum (p_next p) (\<lambda>(t, p).
                Inr (ValueExpression
                  (VInt (case q_toInt qt t of Some v \<Rightarrow> v | None \<Rightarrow> 0)) type, p))
           else if type = STRING
           then bind_sum (p_next p) (\<lambda>(raw, p).
                Inr (ValueExpression (VString (string_value raw)) type, p))
           else if type = IDENTIFIER
           then bind_sum (p_next p) (\<lambda>(t, p). Inr (ValueExpression (VString t) type, p))
           else if type = REGULAR_EXPRESSION
           then bind_sum (p_next p) (\<lambda>(raw, p).
                Inr (RegexExpression (fst (regex_value raw)) (snd (regex_value raw)), p))
           else if type = LP then parseParentheses qt n p
           else if type = LIST_START then parseList qt n p
           else bind_sum (p_next p) (\<lambda>(_, p).
                bind_sum (in_range (tk_current (ps_tk p))) (\<lambda>current.
                Inr (ValueExpression (VInt 0) INT',
                     errorLog (q_arg qt (q_arg qt ''Expected value but got %1 %2'' current)
                       (tokenTypeToInfoString type)) False p))))
      else Inr (ValueExpression (VInt 0) INT',
                errorLog ''Unexpected end of statement'' False p))"
| "parseList qt 0 p = Inl OutOfFuel"
| "parseList qt (Suc n) p =
     bind_sum (p_nextType p) (\<lambda>t.
     if t \<noteq> LIST_START then Inl AssertionFailed
     else bind_sum (p_next p) (\<lambda>(_, p). listLoop qt n [] True p))"
| "listLoop qt 0 list first p = Inl OutOfFuel"
| "listLoop qt (Suc n) list first p =
     (if p_hasNext p
      then bind_sum (p_nextType p) (\<lambda>t.
           if t = LIST_END then bind_sum (p_next p) (\<lambda>(_, p). Inr (ListExpression list, p))
           else if t = COMMA \<and> \<not> first
           then bind_sum (p_next p) (\<lambda>(_, p).
                bind_sum (parseValue qt n p) (\<lambda>(v, p). listLoop qt n (list @ [v]) False p))
           else if first
           then bind_sum (parseValue qt n p) (\<lambda>(v, p). listLoop qt n (list @ [v]) False p)
           else bind_sum (p_preview p) (\<lambda>s.
                Inr (ListExpression [],
                     errorLog (q_arg qt ''Missing closing list braces: got %1'' s) False p)))
      else Inr (ListExpression [],
                errorLog ''Missing closing list braces at end of statement'' False p))"
  by pat_completeness auto
termination
  by (relation "measure (\<lambda>x. case x of
      Inl (Inl (Inl (qt, n, is_top, p))) \<Rightarrow> n
    | Inl (Inl (Inr (qt, n, e, p))) \<Rightarrow> n
    | Inl (Inr (Inl (qt, n, p))) \<Rightarrow> n
    | Inl (Inr (Inr (Inl (qt, n, e, p)))) \<Rightarrow> n
    | Inl (Inr (Inr (Inr (qt, n, p)))) \<Rightarrow> n
    | Inr (Inl (Inl (qt, n, p))) \<Rightarrow> n
    | Inr (Inl (Inr (Inl (qt, n, p)))) \<Rightarrow> n
    | Inr (Inl (Inr (Inr (qt, n, e, p)))) \<Rightarrow> n
    | Inr (Inr (Inl (qt, n, p))) \<Rightarrow> n
    | Inr (Inr (Inr (Inl (qt, n, p)))) \<Rightarrow> n
    | Inr (Inr (Inr (Inr (qt, n, es, first, p)))) \<Rightarrow> n)") auto

section \<open>One step of the cursor\<close>

definition p_inv :: "Parser \<Rightarrow> bool" where
  "p_inv p \<longleftrightarrow>
     tk_wf (ps_tk p) \<and> (ps_valid p \<longleftrightarrow> ps_log p = []) \<and> length (ps_log p) \<le> 1"

definition p_left :: "Parser \<Rightarrow> nat" where
  "p_left p = remaining (ps_tk p)"

definition p_token :: "Parser \<Rightarrow> string" where
  "p_token p = tk_tokens (ps_tk p) ! tk_i (ps_tk p)"

definition p_kind :: "Parser \<Rightarrow> TokenType" where
  "p_kind p = tk_types (ps_tk p) ! tk_i (ps_tk p)"

definition advance :: "Parser \<Rightarrow> Parser" where
  "advance p = p\<lparr>ps_tk := (ps_tk p)\<lparr>tk_i := Suc (tk_i (ps_tk p))\<rparr>\<rparr>"

lemma p_hasNext_left: "p_hasNext p \<longleftrightarrow> 0 < p_left p"
  by (simp add: p_hasNext_def p_left_def hasNext_remaining)


lemma cursor_simps:
  assumes "p_inv p" "p_hasNext p"
  shows "p_next p = Inr (p_token p, advance p)"
    and "p_nextType p = Inr (p_kind p)"
    and "p_preview p = Inr (p_token p)"
    and "p_type (advance p) = Inr (p_kind p)"
    and "in_range (tk_current (ps_tk (advance p))) = Inr (p_token p)"
    and "p_inv (advance p)"
    and "p_left (advance p) = p_left p - 1"
  using assms
  by (auto simp: p_inv_def p_hasNext_def p_next_def p_nextType_def p_preview_def p_type_def
      p_token_def p_kind_def advance_def in_range_def tk_next_def nextTokenType_def preview_def
      tokenType_def tk_current_def hasNext_def list_at_def tk_wf_def p_left_def remaining_def)

lemma errorLog_simps [simp]:
  "p_inv p \<Longrightarrow> p_inv (errorLog t False p)"
  "p_left (errorLog t x p) = p_left p"
  "ps_tk (errorLog t x p) = ps_tk p"
  "ps_valid (errorLog t x p) = False"
  by (auto simp: errorLog_def p_inv_def p_left_def Let_def)

lemma advance_valid [simp]: "ps_valid (advance p) = ps_valid p" "ps_log (advance p) = ps_log p"
  by (simp_all add: advance_def)

section \<open>The parser returns, and builds well-formed trees\<close>

text \<open>
  \<open>parse_ok qt k r\<close>: the result \<open>r\<close> is no fault, the parser's invariant holds, at most \<open>k\<close> tokens
  are left, and the tree has well-formed literals (when number parsing keeps its range).
\<close>

definition tree_ok :: "'c qt_api \<Rightarrow> 'c Expression \<Rightarrow> bool" where
  "tree_ok qt e \<longleftrightarrow> (qt_toInt_law qt \<longrightarrow> literals_ok e)"

definition parse_ok ::
  "'c qt_api \<Rightarrow> nat \<Rightarrow> parse_fault + ('c Expression \<times> Parser) \<Rightarrow> bool" where
  "parse_ok qt k r \<longleftrightarrow> (\<exists>e p. r = Inr (e, p) \<and> p_inv p \<and> p_left p \<le> k \<and> tree_ok qt e)"

lemma parse_ok_Inr [simp]:
  "parse_ok qt k (Inr (e, p)) \<longleftrightarrow> p_inv p \<and> p_left p \<le> k \<and> tree_ok qt e"
  by (simp add: parse_ok_def)

lemma parse_ok_bind:
  assumes "parse_ok qt k r"
    and "\<And>e p. p_inv p \<Longrightarrow> p_left p \<le> k \<Longrightarrow> tree_ok qt e \<Longrightarrow> parse_ok qt m (f (e, p))"
  shows "parse_ok qt m (bind_sum r f)"
  using assms by (auto simp: parse_ok_def)

lemma parse_ok_mono: "parse_ok qt k r \<Longrightarrow> k \<le> m \<Longrightarrow> parse_ok qt m r"
  by (auto simp: parse_ok_def)

lemma tree_ok_simps [simp]:
  "tree_ok qt (BinaryOperation op l r) \<longleftrightarrow> tree_ok qt l \<and> tree_ok qt r"
  "tree_ok qt (UnaryOperation op r) \<longleftrightarrow> tree_ok qt r"
  "tree_ok qt (ListExpression es) \<longleftrightarrow> list_all (tree_ok qt) es"
  "tree_ok qt (RegexExpression pat ci)"
  "tree_ok qt (ValueExpression (VString s) STRING)"
  "tree_ok qt (ValueExpression (VString s) IDENTIFIER)"
  "tree_ok qt (ValueExpression (VInt 0) INT')"
  "tree_ok qt (ValueExpression (VInt (case q_toInt qt t of None \<Rightarrow> 0 | Some v \<Rightarrow> v)) INT')"
  by (auto simp: tree_ok_def qt_toInt_law_def list_all_iff in_int_range_def int_min_def
      int_max_def split: option.split)

text \<open>
  The statement for one amount of fuel: what each method needs, for the tokens that are left, and
  how many tokens it leaves.  The methods that read a value consume at least one token.
\<close>

definition total_at :: "'c qt_api \<Rightarrow> nat \<Rightarrow> bool" where
  "total_at qt n \<longleftrightarrow>
    (\<forall>b p. p_inv p \<longrightarrow> 10 * p_left p + 7 \<le> n \<longrightarrow>
       parse_ok qt (p_left p) (parseExpression qt n b p)) \<and>
    (\<forall>e p. p_inv p \<longrightarrow> tree_ok qt e \<longrightarrow> 10 * p_left p + 1 \<le> n \<longrightarrow>
       parse_ok qt (p_left p) (orLoop qt n e p)) \<and>
    (\<forall>p. p_inv p \<longrightarrow> 10 * p_left p + 6 \<le> n \<longrightarrow> parse_ok qt (p_left p) (parseAnd qt n p)) \<and>
    (\<forall>e p. p_inv p \<longrightarrow> tree_ok qt e \<longrightarrow> 10 * p_left p + 1 \<le> n \<longrightarrow>
       parse_ok qt (p_left p) (andLoop qt n e p)) \<and>
    (\<forall>p. p_inv p \<longrightarrow> 10 * p_left p + 5 \<le> n \<longrightarrow> parse_ok qt (p_left p) (parseUnary qt n p)) \<and>
    (\<forall>p. p_inv p \<longrightarrow> p_hasNext p \<longrightarrow> p_kind p = LP \<longrightarrow> 10 * p_left p + 1 \<le> n \<longrightarrow>
       parse_ok qt (p_left p - 1) (parseParentheses qt n p)) \<and>
    (\<forall>p. p_inv p \<longrightarrow> 10 * p_left p + 4 \<le> n \<longrightarrow> parse_ok qt (p_left p) (parseCondition qt n p)) \<and>
    (\<forall>e p. p_inv p \<longrightarrow> tree_ok qt e \<longrightarrow> 10 * p_left p + 1 \<le> n \<longrightarrow>
       parse_ok qt (p_left p) (conditionLoop qt n e p)) \<and>
    (\<forall>p. p_inv p \<longrightarrow> 10 * p_left p + 2 \<le> n \<longrightarrow>
       parse_ok qt (p_left p - 1) (parseValue qt n p)) \<and>
    (\<forall>p. p_inv p \<longrightarrow> p_hasNext p \<longrightarrow> p_kind p = LIST_START \<longrightarrow> 10 * p_left p + 1 \<le> n \<longrightarrow>
       parse_ok qt (p_left p - 1) (parseList qt n p)) \<and>
    (\<forall>es b p. p_inv p \<longrightarrow> list_all (tree_ok qt) es \<longrightarrow> 10 * p_left p + 3 \<le> n \<longrightarrow>
       parse_ok qt (p_left p) (listLoop qt n es b p))"

lemma total_atD:
  assumes "total_at qt n" "p_inv p"
  shows "10 * p_left p + 7 \<le> n \<Longrightarrow> parse_ok qt (p_left p) (parseExpression qt n b p)"
    and "tree_ok qt e \<Longrightarrow> 10 * p_left p + 1 \<le> n \<Longrightarrow> parse_ok qt (p_left p) (orLoop qt n e p)"
    and "10 * p_left p + 6 \<le> n \<Longrightarrow> parse_ok qt (p_left p) (parseAnd qt n p)"
    and "tree_ok qt e \<Longrightarrow> 10 * p_left p + 1 \<le> n \<Longrightarrow> parse_ok qt (p_left p) (andLoop qt n e p)"
    and "10 * p_left p + 5 \<le> n \<Longrightarrow> parse_ok qt (p_left p) (parseUnary qt n p)"
    and "p_hasNext p \<Longrightarrow> p_kind p = LP \<Longrightarrow> 10 * p_left p + 1 \<le> n \<Longrightarrow>
       parse_ok qt (p_left p - 1) (parseParentheses qt n p)"
    and "10 * p_left p + 4 \<le> n \<Longrightarrow> parse_ok qt (p_left p) (parseCondition qt n p)"
    and "tree_ok qt e \<Longrightarrow> 10 * p_left p + 1 \<le> n \<Longrightarrow>
       parse_ok qt (p_left p) (conditionLoop qt n e p)"
    and "10 * p_left p + 2 \<le> n \<Longrightarrow> parse_ok qt (p_left p - 1) (parseValue qt n p)"
    and "p_hasNext p \<Longrightarrow> p_kind p = LIST_START \<Longrightarrow> 10 * p_left p + 1 \<le> n \<Longrightarrow>
       parse_ok qt (p_left p - 1) (parseList qt n p)"
    and "list_all (tree_ok qt) es \<Longrightarrow> 10 * p_left p + 3 \<le> n \<Longrightarrow>
       parse_ok qt (p_left p) (listLoop qt n es b p)"
  using assms unfolding total_at_def by - (elim conjE, blast)+

text \<open>A call on the next state, with fewer tokens left, inside a \<open>bind\<close>.\<close>

lemma call_bind:
  assumes "parse_ok qt (p_left p') r" "p_left p' \<le> k"
    and "\<And>e p. p_inv p \<Longrightarrow> p_left p \<le> k \<Longrightarrow> tree_ok qt e \<Longrightarrow> parse_ok qt m (f (e, p))"
  shows "parse_ok qt m (bind_sum r f)"
  by (rule parse_ok_bind [OF parse_ok_mono [OF assms(1,2)]]) (rule assms(3))

lemma total_parseExpression:
  assumes "total_at qt n" "p_inv p" "10 * p_left p + 7 \<le> Suc n"
  shows "parse_ok qt (p_left p) (parseExpression qt (Suc n) b p)"
proof -
  have "parse_ok qt (p_left p) (orLoop qt n e p')"
    if "p_inv p'" "p_left p' \<le> p_left p" "tree_ok qt e" for e p'
    using total_atD(2) [OF assms(1) that(1,3)] that assms(3) by (auto intro: parse_ok_mono)
  moreover have "parse_ok qt (p_left p) (parseAnd qt n p)"
    using total_atD(3) [OF assms(1,2)] assms(3) by simp
  ultimately show ?thesis
    by (auto intro!: parse_ok_bind [where k = "p_left p"] simp: cursor_simps(3))
qed

lemma total_orLoop:
  assumes "total_at qt n" "p_inv p" "tree_ok qt e" "10 * p_left p + 1 \<le> Suc n"
  shows "parse_ok qt (p_left p) (orLoop qt (Suc n) e p)"
proof (cases "p_hasNext p \<and> p_kind p = OR")
  case True
  note adv = cursor_simps [OF assms(2) conjunct1 [OF True]]
  have left: "0 < p_left p" using True by (simp add: p_hasNext_left)
  have "parse_ok qt (p_left p - 1) (parseAnd qt n (advance p))"
    using total_atD(3) [OF assms(1) adv(6)] adv(7) left assms(4) by simp
  moreover have "parse_ok qt (p_left p) (orLoop qt n (BinaryOperation OR e r) p')"
    if "p_inv p'" "p_left p' \<le> p_left p - 1" "tree_ok qt r" for r p'
    by (rule parse_ok_mono [OF total_atD(2) [OF assms(1) that(1)]])
      (use that left assms(3,4) in auto)
  ultimately show ?thesis
    using True adv by (auto intro!: parse_ok_bind [where k = "p_left p - 1"])
qed (use assms in \<open>auto simp: cursor_simps(2)\<close>)

lemma total_parseAnd:
  assumes "total_at qt n" "p_inv p" "10 * p_left p + 6 \<le> Suc n"
  shows "parse_ok qt (p_left p) (parseAnd qt (Suc n) p)"
proof -
  have "parse_ok qt (p_left p) (andLoop qt n e p')"
    if "p_inv p'" "p_left p' \<le> p_left p" "tree_ok qt e" for e p'
    using total_atD(4) [OF assms(1) that(1,3)] that assms(3) by (auto intro: parse_ok_mono)
  moreover have "parse_ok qt (p_left p) (parseUnary qt n p)"
    using total_atD(5) [OF assms(1,2)] assms(3) by simp
  ultimately show ?thesis by (auto intro!: parse_ok_bind [where k = "p_left p"])
qed

lemma total_andLoop:
  assumes "total_at qt n" "p_inv p" "tree_ok qt e" "10 * p_left p + 1 \<le> Suc n"
  shows "parse_ok qt (p_left p) (andLoop qt (Suc n) e p)"
proof (cases "p_hasNext p \<and> p_kind p = AND")
  case True
  note adv = cursor_simps [OF assms(2) conjunct1 [OF True]]
  have left: "0 < p_left p" using True by (simp add: p_hasNext_left)
  have "parse_ok qt (p_left p - 1) (parseUnary qt n (advance p))"
    using total_atD(5) [OF assms(1) adv(6)] adv(7) left assms(4) by simp
  moreover have "parse_ok qt (p_left p) (andLoop qt n (BinaryOperation AND e r) p')"
    if "p_inv p'" "p_left p' \<le> p_left p - 1" "tree_ok qt r" for r p'
    by (rule parse_ok_mono [OF total_atD(4) [OF assms(1) that(1)]])
      (use that left assms(3,4) in auto)
  ultimately show ?thesis
    using True adv by (auto intro!: parse_ok_bind [where k = "p_left p - 1"])
qed (use assms in \<open>auto simp: cursor_simps(2)\<close>)

lemma total_parseUnary:
  assumes "total_at qt n" "p_inv p" "10 * p_left p + 5 \<le> Suc n"
  shows "parse_ok qt (p_left p) (parseUnary qt (Suc n) p)"
proof (cases "p_hasNext p \<and> typeIsUnaryOp (p_kind p)")
  case True
  note adv = cursor_simps [OF assms(2) conjunct1 [OF True]]
  have "parse_ok qt (p_left p - 1) (parseCondition qt n (advance p))"
    using total_atD(7) [OF assms(1) adv(6)] adv(7) assms(3) True by (simp add: p_hasNext_left)
  with True adv show ?thesis by (auto intro!: parse_ok_bind [where k = "p_left p - 1"])
next
  case False
  then show ?thesis using total_atD(7) [OF assms(1,2)] assms by (auto simp: cursor_simps(2))
qed

lemma total_parseParentheses:
  assumes "total_at qt n" "p_inv p" "p_hasNext p" "p_kind p = LP" "10 * p_left p + 1 \<le> Suc n"
  shows "parse_ok qt (p_left p - 1) (parseParentheses qt (Suc n) p)"
proof -
  note adv = cursor_simps [OF assms(2,3)]
  have "parse_ok qt (p_left p - 1) (parseExpression qt n False (advance p))"
    using total_atD(1) [OF assms(1) adv(6)] adv(7) assms(3,5) by (simp add: p_hasNext_left)
  then show ?thesis
    using adv(1,2) assms(4)
    by (auto intro!: parse_ok_bind [where k = "p_left p - 1"] simp: cursor_simps)
qed

lemma total_parseCondition:
  assumes "total_at qt n" "p_inv p" "10 * p_left p + 4 \<le> Suc n"
  shows "parse_ok qt (p_left p) (parseCondition qt (Suc n) p)"
proof -
  have head: "parse_ok qt (p_left p)
    (if p_hasNext p
     then bind_sum (p_nextType p) (\<lambda>t. if t = LP then parseParentheses qt n p else parseValue qt n p)
     else parseValue qt n p)"
    using total_atD(6,9) [OF assms(1,2)] assms(3)
    by (auto simp: cursor_simps(2) [OF assms(2)] intro: parse_ok_mono)
  have "parse_ok qt (p_left p) (conditionLoop qt n e p')"
    if "p_inv p'" "p_left p' \<le> p_left p" "tree_ok qt e" for e p'
    using total_atD(8) [OF assms(1) that(1,3)] that assms(3) by (auto intro: parse_ok_mono)
  then show ?thesis
    unfolding parseCondition.simps by (intro parse_ok_bind [OF head]) auto
qed

lemma total_conditionLoop:
  assumes "total_at qt n" "p_inv p" "tree_ok qt e" "10 * p_left p + 1 \<le> Suc n"
  shows "parse_ok qt (p_left p) (conditionLoop qt (Suc n) e p)"
proof (cases "p_hasNext p \<and> (typeIsBinaryOp (p_kind p) \<or> typeIsMathOp (p_kind p))")
  case True
  note adv = cursor_simps [OF assms(2) conjunct1 [OF True]]
  have left: "0 < p_left p" using True by (simp add: p_hasNext_left)
  have "parse_ok qt (p_left p - 1) (parseValue qt n (advance p))"
    by (rule parse_ok_mono [OF total_atD(9) [OF assms(1) adv(6)]]) (use adv(7) left assms(4) in auto)
  moreover have "parse_ok qt (p_left p) (conditionLoop qt n (BinaryOperation op e r) p')"
    if "p_inv p'" "p_left p' \<le> p_left p - 1" "tree_ok qt r" for op r p'
    by (rule parse_ok_mono [OF total_atD(8) [OF assms(1) that(1)]])
      (use that left assms(3,4) in auto)
  ultimately show ?thesis
    using True adv assms(3) by (auto intro!: parse_ok_bind [where k = "p_left p - 1"])
qed (use assms in \<open>auto simp: cursor_simps(2,3)\<close>)

lemma total_parseValue:
  assumes "total_at qt n" "p_inv p" "10 * p_left p + 2 \<le> Suc n"
  shows "parse_ok qt (p_left p - 1) (parseValue qt (Suc n) p)"
proof (cases "p_hasNext p")
  case True
  note adv = cursor_simps [OF assms(2) True]
  show ?thesis
    using True adv total_atD(6,10) [OF assms(1,2) True] assms(3) by simp
qed (use assms in \<open>auto simp: p_hasNext_left\<close>)

lemma total_parseList:
  assumes "total_at qt n" "p_inv p" "p_hasNext p" "p_kind p = LIST_START"
    "10 * p_left p + 1 \<le> Suc n"
  shows "parse_ok qt (p_left p - 1) (parseList qt (Suc n) p)"
proof -
  note adv = cursor_simps [OF assms(2,3)]
  have "parse_ok qt (p_left p - 1) (listLoop qt n [] True (advance p))"
    using total_atD(11) [OF assms(1) adv(6), of "[]"] adv(7) assms(3,5)
    by (simp add: p_hasNext_left)
  then show ?thesis using adv(1,2) assms(4) by simp
qed

lemma total_listLoop:
  assumes "total_at qt n" "p_inv p" "list_all (tree_ok qt) es" "10 * p_left p + 3 \<le> Suc n"
  shows "parse_ok qt (p_left p) (listLoop qt (Suc n) es b p)"
proof (cases "p_hasNext p")
  case True
  note adv = cursor_simps [OF assms(2) True]
  have left: "0 < p_left p" using True by (simp add: p_hasNext_left)
  have loop: "parse_ok qt (p_left p) (listLoop qt n (es @ [v]) False p')"
    if "p_inv p'" "p_left p' \<le> p_left p - 1" "tree_ok qt v" for v p'
    by (rule parse_ok_mono [OF total_atD(11) [OF assms(1) that(1)]])
      (use that left assms(3,4) in auto)
  have "parse_ok qt (p_left p - 1) (parseValue qt n p)"
    using total_atD(9) [OF assms(1,2)] assms(4) by simp
  moreover have "parse_ok qt (p_left p - 1) (parseValue qt n (advance p))"
    by (rule parse_ok_mono [OF total_atD(9) [OF assms(1) adv(6)]]) (use adv(7) left assms(4) in auto)
  ultimately have head: "parse_ok qt (p_left p)
      (bind_sum (parseValue qt n q) (\<lambda>(v, p'). listLoop qt n (es @ [v]) False p'))"
    if "q \<in> {p, advance p}" for q
    using that loop by (auto intro!: parse_ok_bind [where k = "p_left p - 1"])
  show ?thesis
    using True adv head [of p] head [of "advance p"] assms(2,3) by simp
qed (use assms in auto)

lemma total_at: "total_at qt n"
proof (induction n)
  case 0
  show ?case unfolding total_at_def by auto
next
  case (Suc n)
  show ?case
    unfolding total_at_def
    by (intro conjI allI impI;
        rule total_parseExpression [OF Suc] total_orLoop [OF Suc] total_parseAnd [OF Suc]
          total_andLoop [OF Suc] total_parseUnary [OF Suc] total_parseParentheses [OF Suc]
          total_parseCondition [OF Suc] total_conditionLoop [OF Suc] total_parseValue [OF Suc]
          total_parseList [OF Suc] total_listLoop [OF Suc];
        assumption)
qed

lemmas parse_total = total_atD [OF total_at]

section \<open>The constructor\<close>

text \<open>
  \<open>FilterParser(text)\<close>: tokenize, parse one expression to the end of the text, and, when there was
  no error, synthesize its type.  The result is the state, the expression and the type, which
  stays at its initial value \<open>Bool\<close> after an error.
\<close>

definition explainIllType :: "'c qt_api \<Rightarrow> 'c Expression \<Rightarrow> string \<Rightarrow> string" where
  "explainIllType qt e message =
     q_arg qt (q_arg qt (''%1'' @ [CHR 10, CHR 10] @ ''Problem occurred here:'' @ [CHR 10] @ ''%2'')
       message) (filterString qt e)"

definition initial_parser :: "'c qt_api \<Rightarrow> string \<Rightarrow> Parser" where
  "initial_parser qt text = \<lparr>ps_log = [], ps_valid = True, ps_tk = Tokenizer qt text\<rparr>"

definition parse_fuel :: "Parser \<Rightarrow> nat" where
  "parse_fuel p = 10 * length (tk_tokens (ps_tk p)) + 10"

definition FilterParser ::
  "'c qt_api \<Rightarrow> TypingContext \<Rightarrow> string \<Rightarrow> parse_fault + (Parser \<times> 'c Expression \<times> Type)" where
  "FilterParser qt \<Gamma> text =
     (let p = initial_parser qt text
      in bind_sum (parseExpression qt (parse_fuel p) True p) (\<lambda>(e, p).
         if \<not> ps_valid p then Inr (p, e, Bool)
         else (case synthesizeType qt \<Gamma> e of
                 IllTyped ie m \<Rightarrow> Inr (errorLog (explainIllType qt ie m) False p, e, Bool)
               | TypeClass t \<Rightarrow> Inr (p, e, t))))"

lemma p_inv_initial: "p_inv (initial_parser qt text)"
  by (simp add: p_inv_def initial_parser_def tk_wf_Tokenizer)

lemma p_left_initial:
  "p_left (initial_parser qt text) = length (tk_tokens (ps_tk (initial_parser qt text)))"
  by (simp add: p_left_def remaining_def initial_parser_def Tokenizer_def Let_def)

lemma parse_initial:
  obtains e p where
    "parseExpression qt (parse_fuel (initial_parser qt text)) True (initial_parser qt text) = Inr (e, p)"
    "p_inv p" "tree_ok qt e"
proof -
  have "parse_ok qt (p_left (initial_parser qt text))
      (parseExpression qt (parse_fuel (initial_parser qt text)) True (initial_parser qt text))"
    by (rule parse_total(1) [OF p_inv_initial]) (simp add: p_left_initial parse_fuel_def)
  then show thesis using that by (auto simp: parse_ok_def)
qed

lemma FilterParser_cases:
  obtains (result) p e t where "FilterParser qt \<Gamma> text = Inr (p, e, t)"
    "p_inv p" "tree_ok qt e" "ps_valid p \<Longrightarrow> synthesizeType qt \<Gamma> e = TypeClass t"
proof -
  obtain e p where ep:
    "parseExpression qt (parse_fuel (initial_parser qt text)) True (initial_parser qt text) = Inr (e, p)"
    "p_inv p" "tree_ok qt e" by (rule parse_initial)
  show thesis
  proof (cases "ps_valid p")
    case False
    with ep have "FilterParser qt \<Gamma> text = Inr (p, e, Bool)"
      by (simp add: FilterParser_def Let_def)
    then show thesis using ep False by (intro that) auto
  next
    case True
    show thesis
    proof (cases "synthesizeType qt \<Gamma> e")
      case (TypeClass t)
      with ep True have "FilterParser qt \<Gamma> text = Inr (p, e, t)"
        by (simp add: FilterParser_def Let_def)
      then show thesis using ep TypeClass by (intro that) auto
    next
      case (IllTyped ie m)
      with ep True
      have "FilterParser qt \<Gamma> text = Inr (errorLog (explainIllType qt ie m) False p, e, Bool)"
        by (simp add: FilterParser_def Let_def)
      then show thesis by (rule that) (use ep in simp_all)
    qed
  qed
qed


end
