(* ===== verification/Messages.thy ===== *)
theory Messages
  imports Prelude "HOL-Library.Word"
begin

text \<open>
  \<open>common/FlagsEnum.hpp\<close>, \<open>messages/MessageFlag.hpp\<close> and the data of \<open>messages/Message.hpp\<close>: flag
  sets kept in the bits of a 64-bit integer, the flags of a message, and the fields of a message
  that the modelled components read or write.
\<close>

section \<open>Flag sets\<close>

type_synonym flag_set = "64 word"

datatype MessageFlag =
    NoFlag | System | Timeout | Highlighted | DoNotTriggerNotification | Centered | Disabled
  | DisableCompactEmotes | Collapsed | ConnectedMessage | DisconnectedMessage | Untimeout
  | PubSub | Subscription | DoNotLog | AutoMod | RecentMessage | Whisper | HighlightedWhisper
  | Debug | Similar | RedeemedHighlight | RedeemedChannelPointReward | ShowInMentions
  | FirstMessage | ReplyMessage | ElevatedMessage | SubscribedThread | CheerMessage
  | LiveUpdatesAdd | LiveUpdatesRemove | LiveUpdatesUpdate | AutoModOffendingMessageHeader
  | AutoModOffendingMessage | LowTrustUsers | RestrictedMessage | MonitoredMessage | Action
  | SharedMessage | AutoModBlockedTerm | WebchatDetected | ClearChat | EventSub

text \<open>The shift of each enumerator \<open>1LL << k\<close>; the enumerator \<open>None\<close> is 0.\<close>

fun flag_shift :: "MessageFlag \<Rightarrow> nat" where
  "flag_shift NoFlag = 0" | "flag_shift System = 0" | "flag_shift Timeout = 1"
| "flag_shift Highlighted = 2" | "flag_shift DoNotTriggerNotification = 3"
| "flag_shift Centered = 4" | "flag_shift Disabled = 5" | "flag_shift DisableCompactEmotes = 6"
| "flag_shift Collapsed = 7" | "flag_shift ConnectedMessage = 8"
| "flag_shift DisconnectedMessage = 9" | "flag_shift Untimeout = 10"
| "flag_shift PubSub = 11" | "flag_shift Subscription = 12" | "flag_shift DoNotLog = 13"
| "flag_shift AutoMod = 14" | "flag_shift RecentMessage = 15" | "flag_shift Whisper = 16"
| "flag_shift HighlightedWhisper = 17" | "flag_shift Debug = 18" | "flag_shift Similar = 19"
| "flag_shift RedeemedHighlight = 20" | "flag_shift RedeemedChannelPointReward = 21"
| "flag_shift ShowInMentions = 22" | "flag_shift FirstMessage = 23"
| "flag_shift ReplyMessage = 24" | "flag_shift ElevatedMessage = 25"
| "flag_shift SubscribedThread = 26" | "flag_shift CheerMessage = 27"
| "flag_shift LiveUpdatesAdd = 28" | "flag_shift LiveUpdatesRemove = 29"
| "flag_shift LiveUpdatesUpdate = 30" | "flag_shift AutoModOffendingMessageHeader = 31"
| "flag_shift AutoModOffendingMessage = 32" | "flag_shift LowTrustUsers = 33"
| "flag_shift RestrictedMessage = 34" | "flag_shift MonitoredMessage = 35"
| "flag_shift Action = 36" | "flag_shift SharedMessage = 37"
| "flag_shift AutoModBlockedTerm = 38" | "flag_shift WebchatDetected = 39"
| "flag_shift ClearChat = 39" | "flag_shift EventSub = 40"

definition flag_value :: "MessageFlag \<Rightarrow> flag_set" where
  "flag_value f = (if f = NoFlag then 0 else push_bit (flag_shift f) 1)"

definition flags_of :: "MessageFlag list \<Rightarrow> flag_set" where
  "flags_of fs = foldr (\<lambda>f v. Bit_Operations.or (flag_value f) v) fs 0"

definition flags_set :: "flag_set \<Rightarrow> flag_set \<Rightarrow> flag_set" where
  "flags_set v fs = Bit_Operations.or v fs"

definition flags_unset :: "flag_set \<Rightarrow> flag_set \<Rightarrow> flag_set" where
  "flags_unset v fs = Bit_Operations.and v (Bit_Operations.not fs)"

definition flags_set_to :: "flag_set \<Rightarrow> MessageFlag \<Rightarrow> bool \<Rightarrow> flag_set" where
  "flags_set_to v flag b =
     (if b then flags_set v (flag_value flag) else flags_unset v (flag_value flag))"

definition has :: "flag_set \<Rightarrow> MessageFlag \<Rightarrow> bool" where
  "has v flag = (Bit_Operations.and v (flag_value flag) \<noteq> 0)"

definition hasAny :: "flag_set \<Rightarrow> flag_set \<Rightarrow> bool" where
  "hasAny v fs = (Bit_Operations.and v fs \<noteq> 0)"

definition hasAll :: "flag_set \<Rightarrow> flag_set \<Rightarrow> bool" where
  "hasAll v fs = (Bit_Operations.and v fs = fs)"

definition hasNone :: "flag_set \<Rightarrow> flag_set \<Rightarrow> bool" where
  "hasNone v fs = (Bit_Operations.and v fs = 0)"

definition flags_isEmpty :: "flag_set \<Rightarrow> bool" where
  "flags_isEmpty v = (v = 0)"

section \<open>Flags as bits\<close>

lemma flag_shift_less: "flag_shift f < 64"
  by (cases f) simp_all

lemma bit_flag_value:
  "bit (flag_value f) n \<longleftrightarrow> f \<noteq> NoFlag \<and> n = flag_shift f"
proof -
  have "flag_value f = (if f = NoFlag then 0 else 2 ^ flag_shift f)"
    by (simp add: flag_value_def push_bit_eq_mult)
  then show ?thesis
    using flag_shift_less [of f] by (auto simp: bit_exp_iff)
qed

lemma has_iff_bit: "has v f \<longleftrightarrow> f \<noteq> NoFlag \<and> bit v (flag_shift f)"
  by (auto simp: has_def flag_value_def bit_iff_and_push_bit_not_eq_0)

lemma bit_flags_of: "bit (flags_of fs) n \<longleftrightarrow> (\<exists>f\<in>set fs. f \<noteq> NoFlag \<and> n = flag_shift f)"
  by (induction fs) (auto simp: flags_of_def bit_or_iff bit_flag_value)

lemma hasAny_iff: "hasAny v fs \<longleftrightarrow> (\<exists>n. bit v n \<and> bit fs n)"
  by (auto simp: hasAny_def bit_eq_iff bit_and_iff dest: bit_imp_le_length)
    (use bit_imp_le_length in fastforce)

lemma hasNone_iff: "hasNone v fs \<longleftrightarrow> \<not> hasAny v fs"
  by (simp add: hasNone_def hasAny_def)

lemma hasAny_flags_of: "hasAny v (flags_of fs) \<longleftrightarrow> (\<exists>f\<in>set fs. has v f)"
  by (auto simp: hasAny_iff bit_flags_of has_iff_bit)

lemma hasNone_flags_of: "hasNone v (flags_of fs) \<longleftrightarrow> (\<forall>f\<in>set fs. \<not> has v f)"
  by (simp add: hasNone_iff hasAny_flags_of)

lemma bit_flags_set: "bit (flags_set v fs) n \<longleftrightarrow> bit v n \<or> bit fs n"
  by (simp add: flags_set_def bit_or_iff)

lemma bit_flags_unset: "bit (flags_unset v fs) n \<longleftrightarrow> bit v n \<and> \<not> bit fs n"
  by (auto simp: flags_unset_def bit_and_iff bit_not_iff dest: bit_imp_le_length)

lemmas flag_bit_simps =
  has_iff_bit bit_flag_value bit_flags_of bit_flags_set bit_flags_unset

lemma has_flags_set: "has (flags_set v fs) f \<longleftrightarrow> has v f \<or> has fs f"
  by (auto simp: flag_bit_simps)

lemma has_flags_set_flag:
  "g \<noteq> NoFlag \<Longrightarrow> has (flags_set v (flag_value g)) f \<longleftrightarrow>
   has v f \<or> f \<noteq> NoFlag \<and> flag_shift f = flag_shift g"
  by (auto simp: flag_bit_simps)

section \<open>Messages\<close>

record ChannelPointReward =
  rw_id :: string
  rw_title :: string
  rw_cost :: int

text \<open>
  Times are milliseconds, of the epoch (\<open>serverReceivedTime\<close>) or of the day (\<open>parseTime\<close>); colours
  are the type parameter.
\<close>

record 'c Message =
  flags :: flag_set
  msg_id :: string
  searchText :: string
  messageText :: string
  loginName :: string
  displayName :: string
  userID :: string
  timeoutUser :: string
  channelName :: string
  usernameColor :: 'c
  serverReceivedTime :: int
  parseTime :: int
  badges :: "string list"
  badgeInfos :: "string \<rightharpoonup> string"
  highlightColor :: "'c option"
  count :: "32 word"
  reward :: "ChannelPointReward option"

end
