(* ===== verification/FilterLang.thy ===== *)
theory FilterLang
  imports FilterParser Messages
begin

text \<open>
  \<open>controllers/filters/lang/Filter.hpp\<close>, \<open>Filter.cpp\<close>, \<open>controllers/filters/FilterRecord.cpp\<close> and
  \<open>FilterSet.cpp\<close>: the typing context of message filters, the values a message provides, the
  construction of a filter from its text, and the sets of filters a split applies.

  The channel a message came from and the watching channel are passed as the few values the code
  reads of them.  Filter sets are ordered maps from ids to records, as association lists sorted by
  id, because evaluation runs through the values in that order.
\<close>

section \<open>Typing context and message values\<close>

definition message_types :: "(string \<times> Type) list" where
  "message_types =
    [(''author.badges'', StringList),
     (''author.color'', Color),
     (''author.name'', String),
     (''author.user_id'', String),
     (''author.no_color'', Bool),
     (''author.subbed'', Bool),
     (''author.sub_length'', Int'),
     (''channel.name'', String),
     (''channel.watching'', Bool),
     (''channel.live'', Bool),
     (''flags.action'', Bool),
     (''flags.highlighted'', Bool),
     (''flags.points_redeemed'', Bool),
     (''flags.sub_message'', Bool),
     (''flags.system_message'', Bool),
     (''flags.reward_message'', Bool),
     (''flags.first_message'', Bool),
     (''flags.elevated_message'', Bool),
     (''flags.hype_chat'', Bool),
     (''flags.cheer_message'', Bool),
     (''flags.whisper'', Bool),
     (''flags.reply'', Bool),
     (''flags.automod'', Bool),
     (''flags.restricted'', Bool),
     (''flags.monitored'', Bool),
     (''flags.shared'', Bool),
     (''flags.similar'', Bool),
     (''message.content'', String),
     (''message.length'', Int'),
     (''reward.title'', String),
     (''reward.cost'', Int'),
     (''reward.id'', String),
     (''flags.webchat_detected'', Bool)]"

definition MESSAGE_TYPING_CONTEXT :: TypingContext where
  "MESSAGE_TYPING_CONTEXT = map_of message_types"

record ChannelView =
  cv_isTwitchChannel :: bool
  cv_isEmpty :: bool
  cv_isLive :: bool

text \<open>The loop over the two subscription badges: whether one is there, and its months.\<close>

definition sub_badge ::
  "'c qt_api \<Rightarrow> 'c Message \<Rightarrow> string \<Rightarrow> bool \<times> int \<Rightarrow> bool \<times> int" where
  "sub_badge qt m subBadge acc =
     (if subBadge \<notin> set (badges m) then acc
      else (True,
        case badgeInfos m subBadge of
          Some s \<Rightarrow> (case q_toInt qt s of Some n \<Rightarrow> n | None \<Rightarrow> 0)
        | None \<Rightarrow> snd acc))"

definition subscription :: "'c qt_api \<Rightarrow> 'c Message \<Rightarrow> bool \<times> int" where
  "subscription qt m = sub_badge qt m ''founder'' (sub_badge qt m ''subscriber'' (False, 0))"

definition message_values ::
  "'c qt_api \<Rightarrow> string \<Rightarrow> 'c Message \<Rightarrow> ChannelView option \<Rightarrow> (string \<times> 'c QVariant) list" where
  "message_values qt watchingName m channel =
    (let flag = (\<lambda>f. VBool (has (flags m) f)) in
    [(''author.badges'', VStringList (badges m)),
     (''author.color'', VColor (usernameColor m)),
     (''author.name'', VString (displayName m)),
     (''author.user_id'', VString (userID m)),
     (''author.no_color'', VBool (\<not> q_isValidColor qt (usernameColor m))),
     (''author.subbed'', VBool (fst (subscription qt m))),
     (''author.sub_length'', VInt (snd (subscription qt m))),
     (''channel.name'', VString (channelName m)),
     (''channel.watching'',
        VBool (watchingName \<noteq> [] \<and> q_compareCI qt watchingName (channelName m))),
     (''channel.live'',
        (case channel of
           Some c \<Rightarrow> VBool (\<not> cv_isEmpty c \<and> cv_isTwitchChannel c \<and> cv_isLive c)
         | None \<Rightarrow> VBool False)),
     (''flags.action'', flag Action),
     (''flags.highlighted'', flag Highlighted),
     (''flags.points_redeemed'', flag RedeemedHighlight),
     (''flags.sub_message'', flag Subscription),
     (''flags.system_message'', flag System),
     (''flags.reward_message'', flag RedeemedChannelPointReward),
     (''flags.first_message'', flag FirstMessage),
     (''flags.elevated_message'', flag ElevatedMessage),
     (''flags.hype_chat'', flag ElevatedMessage),
     (''flags.cheer_message'', flag CheerMessage),
     (''flags.whisper'', flag Whisper),
     (''flags.reply'', flag ReplyMessage),
     (''flags.automod'', flag AutoMod),
     (''flags.restricted'', flag RestrictedMessage),
     (''flags.monitored'', flag MonitoredMessage),
     (''flags.shared'', flag SharedMessage),
     (''flags.similar'', flag Similar),
     (''message.content'', VString (messageText m)),
     (''message.length'', VLongLong (int (length (messageText m)))),
     (''reward.title'', VString (case reward m of Some r \<Rightarrow> rw_title r | None \<Rightarrow> [])),
     (''reward.cost'', VInt (case reward m of Some r \<Rightarrow> rw_cost r | None \<Rightarrow> -1)),
     (''reward.id'', VString (case reward m of Some r \<Rightarrow> rw_id r | None \<Rightarrow> [])),
     (''flags.webchat_detected'', flag WebchatDetected)])"

definition buildContextMap ::
  "'c qt_api \<Rightarrow> string \<Rightarrow> 'c Message \<Rightarrow> ChannelView option \<Rightarrow> 'c ContextMap" where
  "buildContextMap qt watchingName m channel = map_of (message_values qt watchingName m channel)"

section \<open>Filters\<close>

record 'c Filter =
  fl_expression :: "'c Expression"
  fl_returnType :: Type

definition fromString :: "'c qt_api \<Rightarrow> string \<Rightarrow> parse_fault + (string + 'c Filter)" where
  "fromString qt str =
     bind_sum (FilterParser qt MESSAGE_TYPING_CONTEXT str) (\<lambda>(p, e, t).
     if ps_valid p then Inr (Inr \<lparr>fl_expression = e, fl_returnType = t\<rparr>)
     else Inr (Inl (join [CHR 10] (ps_log p))))"

definition filter_execute ::
  "'c qt_api \<Rightarrow> 'c Filter \<Rightarrow> 'c ContextMap \<Rightarrow> exec_fault + 'c QVariant" where
  "filter_execute qt f ctx = execute qt ctx (fl_expression f)"

text \<open>Only filters of type \<open>Bool\<close> are kept.  A parser fault would be an abort, \<open>Inl\<close>.\<close>

definition buildFilter :: "'c qt_api \<Rightarrow> string \<Rightarrow> parse_fault + 'c Filter option" where
  "buildFilter qt filterText =
     bind_sum (fromString qt filterText) (\<lambda>result.
     case result of
       Inl e \<Rightarrow> Inr None
     | Inr f \<Rightarrow> Inr (if fl_returnType f \<noteq> Bool then None else Some f))"

record ('c, 'id) FilterRecord =
  fr_name :: string
  fr_text :: string
  fr_id :: 'id
  fr_filter :: "'c Filter option"

definition FilterRecord ::
  "'c qt_api \<Rightarrow> string \<Rightarrow> string \<Rightarrow> 'id \<Rightarrow> parse_fault + ('c, 'id) FilterRecord" where
  "FilterRecord qt name text uid =
     bind_sum (buildFilter qt text) (\<lambda>f.
     Inr \<lparr>fr_name = name, fr_text = text, fr_id = uid, fr_filter = f\<rparr>)"

definition fr_valid :: "('c, 'id) FilterRecord \<Rightarrow> bool" where
  "fr_valid r = (fr_filter r \<noteq> None)"

datatype filter_fault = InvalidFilter | Execution exec_fault

definition fr_filter_message ::
  "'c qt_api \<Rightarrow> ('c, 'id) FilterRecord \<Rightarrow> 'c ContextMap \<Rightarrow> filter_fault + bool" where
  "fr_filter_message qt r ctx =
     (case fr_filter r of
        None \<Rightarrow> Inl InvalidFilter
      | Some f \<Rightarrow>
          (case filter_execute qt f ctx of
             Inl e \<Rightarrow> Inl (Execution e)
           | Inr v \<Rightarrow> Inr (q_toBool qt v)))"

section \<open>Filter sets\<close>

type_synonym ('c, 'id) FilterSet = "('id \<times> ('c, 'id) FilterRecord) list"

definition FilterSet ::
  "('c, 'id::linorder) FilterRecord list \<Rightarrow> 'id list \<Rightarrow> ('c, 'id) FilterSet" where
  "FilterSet records filterIds =
     fold (\<lambda>f fs. if fr_id f \<in> set filterIds then omap_insert (fr_id f) f fs else fs) records []"

fun filter_all ::
  "'c qt_api \<Rightarrow> 'c ContextMap \<Rightarrow> ('c, 'id) FilterRecord list \<Rightarrow> filter_fault + bool" where
  "filter_all qt ctx [] = Inr True"
| "filter_all qt ctx (f # fs) =
     (if \<not> fr_valid f then Inr False
      else bind_sum (fr_filter_message qt f ctx) (\<lambda>b.
           if \<not> b then Inr False else filter_all qt ctx fs))"

definition fs_filter ::
  "'c qt_api \<Rightarrow> string \<Rightarrow> ('c, 'id) FilterSet \<Rightarrow> 'c Message \<Rightarrow> ChannelView option \<Rightarrow>
   filter_fault + bool" where
  "fs_filter qt watchingName fs m channel =
     (if length fs = 0 then Inr True
      else filter_all qt (buildContextMap qt watchingName m channel) (map snd fs))"

definition filterIds :: "('c, 'id) FilterSet \<Rightarrow> 'id list" where
  "filterIds fs = map fst fs"

definition reload_key ::
  "('c, 'id::linorder) FilterRecord list \<Rightarrow> 'id \<Rightarrow> ('c, 'id) FilterSet \<Rightarrow> ('c, 'id) FilterSet" where
  "reload_key records key fs =
     (let (found, fs') =
        fold (\<lambda>f (found, fs). if fr_id f = key then (True, omap_insert key f fs) else (found, fs))
          records (False, fs)
      in if found then fs' else omap_remove key fs')"

definition reloadFilters ::
  "('c, 'id::linorder) FilterRecord list \<Rightarrow> ('c, 'id) FilterSet \<Rightarrow> ('c, 'id) FilterSet" where
  "reloadFilters records fs = fold (reload_key records) (map fst fs) fs"

end
