(* ===== verification/SampleText.thy ===== *)
theory SampleText
  imports Prelude
begin

text \<open>
  Decimal numbers, ASCII case folding and trimming, for the concrete instances of Qt's text functions
  that the witnesses evaluate.
\<close>

definition is_digit :: "char \<Rightarrow> bool" where
  "is_digit c = (48 \<le> (of_char c :: nat) \<and> (of_char c :: nat) \<le> 57)"

definition ascii_lower :: "char \<Rightarrow> char" where
  "ascii_lower c =
     (if 65 \<le> (of_char c :: nat) \<and> (of_char c :: nat) \<le> 90
      then char_of ((of_char c :: nat) + 32) else c)"

fun show_nat :: "nat \<Rightarrow> string" where
  "show_nat n = (if n < 10 then [char_of (48 + n)] else show_nat (n div 10) @ [char_of (48 + n mod 10)])"

declare show_nat.simps [simp del]

definition read_nat :: "string \<Rightarrow> nat" where
  "read_nat s = foldl (\<lambda>a c. 10 * a + (of_char c - 48)) 0 s"

definition read_uint :: "string \<Rightarrow> nat" where
  "read_uint s = (if list_all is_digit s \<and> read_nat s < 2 ^ 32 then read_nat s else 0)"

definition is_blank :: "char \<Rightarrow> bool" where
  "is_blank c = (c = CHR '' '')"

definition trim_blanks :: "string \<Rightarrow> string" where
  "trim_blanks s = rev (dropWhile is_blank (rev (dropWhile is_blank s)))"

lemma of_char_digit: "d < 10 \<Longrightarrow> of_char (char_of (48 + d)) = (48 + d :: nat)"
  by (simp add: of_char_of)

lemma show_nat_digits: "show_nat n \<noteq> [] \<and> list_all is_digit (show_nat n)"
proof (induction n rule: show_nat.induct)
  case (1 n)
  then show ?case
    by (subst (1 2) show_nat.simps) (auto simp: is_digit_def [abs_def] of_char_of)
qed

lemma read_show_nat: "read_nat (show_nat n) = n"
proof (induction n rule: show_nat.induct)
  case (1 n)
  then show ?case
    by (subst show_nat.simps) (auto simp: read_nat_def of_char_of)
qed

lemma trim_blanks_id: "s \<noteq> [] \<Longrightarrow> \<not> is_blank (hd s) \<Longrightarrow> \<not> is_blank (last s) \<Longrightarrow> trim_blanks s = s"
  by (simp add: trim_blanks_def dropWhile_eq_self_iff [THEN iffD2] hd_rev)

lemma trim_blanks_all: "\<forall>c\<in>set s. is_blank c \<Longrightarrow> trim_blanks s = []"
  by (simp add: trim_blanks_def dropWhile_eq_Nil_conv [THEN iffD2])

end
