(* ===== verification/FilterSample.thy ===== *)
theory FilterSample
  imports FilterLang SampleText
begin

text \<open>
  A concrete instance of the Qt functions the filter code calls, for evaluating filters on
  concrete inputs: decimal numbers, ASCII case folding, place markers \<open>%1\<close> to \<open>%9\<close>, patterns that
  match as plain substrings.  It satisfies the documented laws that the properties assume.
\<close>

definition sample_toInt :: "string \<Rightarrow> int option" where
  "sample_toInt s =
     (if s \<noteq> [] \<and> list_all is_digit s
      then let n = foldl (\<lambda>a c. 10 * a + (of_char c - 48)) 0 s
           in if in_int_range n then Some n else None
      else None)"

definition sample_number :: "int \<Rightarrow> string" where
  "sample_number n = (if n < 0 then CHR ''-'' # show_nat (nat (- n)) else show_nat (nat n))"

text \<open>The markers of a format string, and the replacement of one marker.\<close>

fun markers :: "string \<Rightarrow> char list" where
  "markers (c # d # s) =
     (if c = CHR ''%'' \<and> is_digit d \<and> d \<noteq> CHR ''0'' then d # markers s else markers (d # s))"
| "markers s = []"

fun replace_marker :: "char \<Rightarrow> string \<Rightarrow> string \<Rightarrow> string" where
  "replace_marker m a (c # d # s) =
     (if c = CHR ''%'' \<and> d = m then a @ replace_marker m a s else c # replace_marker m a (d # s))"
| "replace_marker m a s = s"

definition sample_arg :: "string \<Rightarrow> string \<Rightarrow> string" where
  "sample_arg fmt a =
     (case markers fmt of
        [] \<Rightarrow> fmt
      | m # ms \<Rightarrow>
          replace_marker (char_of (foldl min (of_char m) (map of_char ms) :: nat)) a fmt)"

fun substring :: "string \<Rightarrow> string \<Rightarrow> bool" where
  "substring p [] = (p = [])"
| "substring p (c # s) = (take (length p) (c # s) = p \<or> substring p s)"

fun sample_convert :: "'c QVariant \<Rightarrow> MetaType \<Rightarrow> 'c QVariant option" where
  "sample_convert (VLongLong n) MInt = (if in_int_range n then Some (VInt n) else None)"
| "sample_convert (VString s) MInt = map_option VInt (sample_toInt s)"
| "sample_convert (VInt n) MString = Some (VString (sample_number n))"
| "sample_convert v t = (if typeId v = t then Some v else None)"

fun sample_toString :: "'c QVariant \<Rightarrow> string" where
  "sample_toString (VString s) = s"
| "sample_toString (VInt n) = sample_number n"
| "sample_toString (VLongLong n) = sample_number n"
| "sample_toString (VBool b) = (if b then ''true'' else ''false'')"
| "sample_toString _ = []"

definition sample_canConvert :: "'c QVariant \<Rightarrow> MetaType \<Rightarrow> bool" where
  "sample_canConvert v t =
     (typeId v = t \<or> typeId v \<in> {MInt, MLongLong, MBool, MColor} \<and> t = MString \<or>
      typeId v = MString \<and> t = MInt)"

fun sample_toBool :: "'c QVariant \<Rightarrow> bool" where
  "sample_toBool (VBool b) = b"
| "sample_toBool _ = False"

fun sample_equals :: "'c QVariant \<Rightarrow> 'c QVariant \<Rightarrow> bool" where
  "sample_equals (VString s) (VString t) = (s = t)"
| "sample_equals (VInt a) (VInt b) = (a = b)"
| "sample_equals (VLongLong a) (VLongLong b) = (a = b)"
| "sample_equals (VBool a) (VBool b) = (a = b)"
| "sample_equals _ _ = False"

definition sample_qt :: "unit qt_api" where
  "sample_qt =
     (let low = map ascii_lower in
     \<lparr>q_toInt = sample_toInt, q_number = sample_number, q_arg = sample_arg,
      q_compareCI = (\<lambda>a b. low a = low b),
      q_containsCI = (\<lambda>a b. substring (low b) (low a)),
      q_startsWithCI = (\<lambda>a b. take (length b) (low a) = low b),
      q_endsWithCI = (\<lambda>a b. lastN (length b) (low a) = low b),
      q_match = (\<lambda>p ci s. if substring p s then Some (\<lambda>n. p) else None),
      q_canConvert = sample_canConvert, q_convert = sample_convert,
      q_toString = sample_toString, q_toBool = sample_toBool, q_equals = sample_equals,
      q_isValidColor = (\<lambda>c. True)\<rparr>)"

definition sample_message :: "unit Message" where
  "sample_message =
     \<lparr>flags = flags_of [ReplyMessage], msg_id = ''id'', searchText = [], messageText = ''hello'',
      loginName = ''forsen'', displayName = ''Forsen'', userID = ''22484632'', timeoutUser = [],
      channelName = ''forsen'', usernameColor = (), serverReceivedTime = 0, parseTime = 0,
      badges = [''moderator'', ''subscriber''], badgeInfos = [''subscriber'' \<mapsto> ''12''],
      highlightColor = None, count = 1, reward = None\<rparr>"

lemma sample_convert_same: "sample_convert v (typeId v) = Some v"
  by (cases v) auto

lemma sample_convert_typeId: "sample_convert v t = Some w \<Longrightarrow> typeId w = t"
  by (cases "(v, t)" rule: sample_convert.cases) (auto split: if_splits)

lemma sample_conversion_laws: "qt_conversion_laws sample_qt"
  unfolding qt_conversion_laws_def sample_qt_def Let_def
  by (simp add: sample_convert_same sample_canConvert_def)
    (use sample_convert_typeId in blast)

lemma sample_toInt_law: "qt_toInt_law sample_qt"
  by (auto simp: qt_toInt_law_def sample_qt_def Let_def sample_toInt_def split: if_splits)

lemmas sample_laws = sample_conversion_laws sample_toInt_law

end
