(* ===== verification/FilterProps.thy ===== *)
theory FilterProps
  imports FilterSample
begin

text \<open>
  What message filters promise: every text parses without an abort, an accepted filter evaluates
  on every message to a value of its type or stops at an integer operation, the three tables of
  identifiers agree, and a filter set is the conjunction of its filters and follows the settings.
  Each property is applied to a concrete filter with the sample instance of the Qt functions.
\<close>

section \<open>Parsing\<close>

text \<open>
  C2. The parser is total and safe.  On every text it returns: no token is read out of range, no
  assertion fails and no loop runs forever.  It reports at most one error, is valid exactly when
  it reported none, and then its return type is the synthesized type of the parsed expression.
\<close>

theorem FilterParser_total:
  "\<exists>p e t. FilterParser qt \<Gamma> text = Inr (p, e, t) \<and> length (ps_log p) \<le> 1 \<and>
     ps_valid p = (ps_log p = []) \<and>
     (if ps_valid p then synthesizeType qt \<Gamma> e = TypeClass t else True)"
  by (rule FilterParser_cases [of qt \<Gamma> "text"]) (auto simp: p_inv_def)

lemma fromString_Inr:
  assumes "fromString qt text = Inr (Inr f)"
  shows "synthesizeType qt MESSAGE_TYPING_CONTEXT (fl_expression f) = TypeClass (fl_returnType f)"
    and "tree_ok qt (fl_expression f)"
  using assms
  by (rule_tac FilterParser_cases [of qt MESSAGE_TYPING_CONTEXT "text"],
      force simp: fromString_def split: if_splits)+

lemma buildFilter_total: "\<exists>r. buildFilter qt text = Inr r"
  by (rule FilterParser_cases [of qt MESSAGE_TYPING_CONTEXT "text"])
    (auto simp: buildFilter_def fromString_def split: sum.splits)

lemma buildFilter_Some:
  assumes "buildFilter qt text = Inr (Some f)"
  shows "fromString qt text = Inr (Inr f)" and "fl_returnType f = Bool"
proof -
  from assms obtain r where r: "fromString qt text = Inr r"
    and f: "(case r of Inl e \<Rightarrow> Inr None
      | Inr f \<Rightarrow> Inr (if fl_returnType f \<noteq> Bool then None else Some f)) = (Inr (Some f) :: parse_fault + _)"
    unfolding buildFilter_def bind_sum_eq_Inr by blast
  from f have "r = Inr f \<and> fl_returnType f = Bool"
    by (cases r) (auto split: if_splits)
  with r show "fromString qt text = Inr (Inr f)" "fl_returnType f = Bool" by simp_all
qed

section \<open>The tables of identifiers\<close>

text \<open>
  The identifiers the tokenizer accepts, the typing context and the values a message provides
  have the same keys, each once; so an accepted filter never meets an unbound identifier, and
  every identifier has a value on every message, whatever the channel.
\<close>

theorem identifier_tables_agree:
  "set (map fst VALID_IDENTIFIERS_MAP) = dom MESSAGE_TYPING_CONTEXT \<and>
   map fst (message_values qt watching m channel) = map fst message_types \<and>
   distinct (map fst message_types) \<and>
   dom (buildContextMap qt watching m channel) = dom MESSAGE_TYPING_CONTEXT"
proof -
  have keys: "map fst (message_values qt watching m channel) = map fst message_types"
    by (simp add: message_values_def message_types_def Let_def)
  moreover have "set (map fst VALID_IDENTIFIERS_MAP) = set (map fst message_types)" by code_simp
  moreover have "distinct (map fst message_types)" by code_simp
  ultimately show ?thesis
    by (metis MESSAGE_TYPING_CONTEXT_def buildContextMap_def dom_map_of_conv_image_fst list.set_map)
qed

section \<open>Type soundness\<close>

text \<open>
  The messages whose integers fit: texts no longer than the largest \<open>int\<close> (the limit of a
  \<open>QString\<close> in practice, and of its \<open>length()\<close> before Qt 6) and reward costs, an \<open>int\<close> in the code.
\<close>

definition message_ok :: "'c Message \<Rightarrow> bool" where
  "message_ok m \<longleftrightarrow> int (length (messageText m)) \<le> int_max \<and>
     (case reward m of None \<Rightarrow> True | Some r \<Rightarrow> in_int_range (rw_cost r))"

lemma sub_badge_range:
  assumes "qt_toInt_law qt" "in_int_range (snd acc)"
  shows "in_int_range (snd (sub_badge qt m b acc))"
  using assms
  by (auto simp: sub_badge_def qt_toInt_law_def in_int_range_def int_min_def int_max_def
      split: option.splits)

lemma map_of_conforms:
  assumes "list_all2 (\<lambda>(x, v) (y, T). x = y \<and> has_type v T) xs ys"
  shows "conforms (map_of xs) (map_of ys)"
  using assms unfolding conforms_def
  by (induction rule: list_all2_induct) (auto split: if_splits)

lemma buildContextMap_conforms:
  assumes "qt_toInt_law qt" "message_ok m"
  shows "conforms (buildContextMap qt watching m channel) MESSAGE_TYPING_CONTEXT"
proof -
  have "in_int_range (snd (subscription qt m))"
    unfolding subscription_def
    by (intro sub_badge_range assms(1)) (simp add: in_int_range_def int_min_def int_max_def)
  moreover have "in_int_range (int (length (messageText m)))"
    "in_int_range (case reward m of Some r \<Rightarrow> rw_cost r | None \<Rightarrow> -1)"
    using assms(2)
    by (auto simp: message_ok_def in_int_range_def int_min_def int_max_def split: option.splits)
  ultimately show ?thesis
    unfolding buildContextMap_def MESSAGE_TYPING_CONTEXT_def
    by (intro map_of_conforms)
      (auto simp: message_values_def message_types_def Let_def split: option.split)
qed

text \<open>
  C1. Type soundness, end to end.  A filter accepted from its text evaluates on every message, in
  any channel, to a value of its synthesized type, or stops at an integer operation of its text
  (overflow, or division by zero under \<open>/\<close> or \<open>%\<close>), provided the tree avoids the two constructs
  whose type rule is more liberal than the evaluation: a string plus a list, map or regular
  expression, and a bare identifier as the group of a matching specifier.
\<close>

theorem filter_type_sound:
  assumes "qt_conversion_laws qt" "qt_toInt_law qt" "message_ok m"
    and "fromString qt text = Inr (Inr f)"
    and "typing_exact qt MESSAGE_TYPING_CONTEXT (fl_expression f)"
  shows "case filter_execute qt f (buildContextMap qt watching m channel) of
      Inr v \<Rightarrow> has_type v (fl_returnType f)
    | Inl fault \<Rightarrow> \<exists>op\<in>operators (fl_expression f). op \<in> {PLUS, MINUS, MULTIPLY, DIVIDE, MOD} \<and>
        (fault = DivisionByZero \<longrightarrow> op \<in> {DIVIDE, MOD})"
proof -
  note ty = fromString_Inr [OF assms(4)]
  have "literals_ok (fl_expression f)"
    using ty(2) assms(2) by (simp add: tree_ok_def)
  then have "has_type v (fl_returnType f)"
    if "execute qt (buildContextMap qt watching m channel) (fl_expression f) = Inr v" for v
    by (rule execute_type [OF assms(1) buildContextMap_conforms [OF assms(2,3)] _ assms(5) ty(1) that])
  then show ?thesis
    unfolding filter_execute_def by (auto split: sum.split dest!: execute_fault)
qed

text \<open>A concrete filter, its text and its evaluation.\<close>

definition sample_filter :: "unit Filter" where
  "sample_filter =
     \<lparr>fl_expression =
        BinaryOperation AND
          (BinaryOperation GT
            (BinaryOperation PLUS (ValueExpression (VString ''message.length'') IDENTIFIER)
              (ValueExpression (VInt 2) INT'))
            (ValueExpression (VInt 3) INT'))
          (ValueExpression (VString ''flags.reply'') IDENTIFIER),
      fl_returnType = Bool\<rparr>"

lemma sample_filter_parsed:
  "fromString sample_qt ''message.length + 2 > 3 && flags.reply'' = Inr (Inr sample_filter)"
  by code_simp

lemma sample_filter_exact:
  "typing_exact sample_qt MESSAGE_TYPING_CONTEXT (fl_expression sample_filter)"
  by code_simp

lemma sample_message_ok: "message_ok sample_message"
  by (simp add: message_ok_def sample_message_def int_max_def)

theorem filter_type_sound_witness:
  "case filter_execute sample_qt sample_filter
      (buildContextMap sample_qt ''forsen'' sample_message None) of
      Inr v \<Rightarrow> has_type v (fl_returnType sample_filter)
    | Inl fault \<Rightarrow> \<exists>op\<in>operators (fl_expression sample_filter).
        op \<in> {PLUS, MINUS, MULTIPLY, DIVIDE, MOD} \<and>
        (fault = DivisionByZero \<longrightarrow> op \<in> {DIVIDE, MOD})"
  by (rule filter_type_sound
      [OF sample_laws sample_message_ok sample_filter_parsed sample_filter_exact])

text \<open>
  A valid filter record whose text has no integer operation never faults: on every message
  filtering returns a verdict.
\<close>

theorem filter_without_arithmetic_total:
  assumes "FilterRecord qt name text uid = Inr r" "fr_filter r = Some f"
    and "operators (fl_expression f) \<inter> {PLUS, MINUS, MULTIPLY, DIVIDE, MOD} = {}"
  shows "\<exists>verdict. fr_filter_message qt r ctx = Inr verdict"
proof -
  have "\<exists>v. execute qt ctx (fl_expression f) = Inr v"
    using assms(3) execute_fault [of qt ctx "fl_expression f"]
    by (cases "execute qt ctx (fl_expression f)") blast+
  then show ?thesis
    using assms(2) by (auto simp: fr_filter_message_def filter_execute_def)
qed

definition sample_record :: "(unit, nat) FilterRecord" where
  "sample_record = \<lparr>fr_name = ''replies'', fr_text = ''!flags.reply'', fr_id = 7,
     fr_filter = Some \<lparr>fl_expression =
       UnaryOperation NOT (ValueExpression (VString ''flags.reply'') IDENTIFIER),
       fl_returnType = Bool\<rparr>\<rparr>"

theorem filter_without_arithmetic_total_witness:
  "\<exists>verdict. fr_filter_message sample_qt sample_record
     (buildContextMap sample_qt ''forsen'' sample_message None) = Inr verdict"
proof (rule filter_without_arithmetic_total)
  show "FilterRecord sample_qt ''replies'' ''!flags.reply'' 7 = Inr sample_record" by code_simp
  show "fr_filter sample_record = Some (the (fr_filter sample_record))"
    by (simp add: sample_record_def)
  show "operators (fl_expression (the (fr_filter sample_record))) \<inter>
      {PLUS, MINUS, MULTIPLY, DIVIDE, MOD} = {}"
    by (simp add: sample_record_def)
qed

section \<open>Where the type rules are too liberal\<close>

text \<open>
  The two-element list of a regular expression and \<open>message.length\<close> is accepted as a matching
  specifier, so \<open>match\<close> with it is typed \<open>String\<close>; but \<open>message.length\<close> is stored as a
  \<open>qlonglong\<close>, evaluation insists on an \<open>int\<close>, and the result is always the boolean false, even
  where the pattern matches.
\<close>

definition length_match :: "string \<Rightarrow> 'c Expression" where
  "length_match p =
     BinaryOperation MATCH (ValueExpression (VString ''message.content'') IDENTIFIER)
       (ListExpression [RegexExpression p False,
          ValueExpression (VString ''message.length'') IDENTIFIER])"

theorem length_group_never_matches:
  assumes "qt_conversion_laws qt"
  shows "synthesizeType qt MESSAGE_TYPING_CONTEXT (length_match p) = TypeClass String \<and>
    execute qt (buildContextMap qt watching m channel) (length_match p) = Inr (VBool False)"
proof -
  have str: "q_toString qt (VString s) = s" for s by (rule qt_conversion_lawsD(6) [OF assms])
  have "MESSAGE_TYPING_CONTEXT ''message.content'' = Some String"
    "MESSAGE_TYPING_CONTEXT ''message.length'' = Some Int'"
    by (simp_all add: MESSAGE_TYPING_CONTEXT_def message_types_def)
  moreover have "buildContextMap qt watching m channel ''message.content'' = Some (VString (messageText m))"
    "buildContextMap qt watching m channel ''message.length'' = Some (VLongLong (int (length (messageText m))))"
    by (simp_all add: buildContextMap_def message_values_def Let_def)
  ultimately show ?thesis
    using assms
    by (simp add: length_match_def str list_type_def binary_type_def binary_execute_def
        list_result_def execute_match_def variantIsNot_def)
qed

theorem length_group_never_matches_witness:
  "execute sample_qt (buildContextMap sample_qt ''forsen'' sample_message None)
     (length_match ''ell'') = Inr (VBool False) \<and>
   q_match sample_qt ''ell'' False (messageText sample_message) \<noteq> None"
proof -
  have "q_match sample_qt ''ell'' False (messageText sample_message) \<noteq> None" by code_simp
  then show ?thesis using length_group_never_matches [OF sample_conversion_laws] by blast
qed

text \<open>
  A constant division by zero is accepted: the text \<open>1 / 0 == 1\<close> is a valid filter of type
  \<open>Bool\<close>, and evaluating it on a message divides by zero.
\<close>

definition accepted_then_faults :: "string \<Rightarrow> bool" where
  "accepted_then_faults text =
     (case FilterRecord sample_qt ''f'' text (0 :: nat) of
        Inl e \<Rightarrow> False
      | Inr r \<Rightarrow> fr_valid r \<and>
          fr_filter_message sample_qt r (buildContextMap sample_qt ''forsen'' sample_message None) =
          Inl (Execution DivisionByZero))"

theorem division_by_zero_accepted: "accepted_then_faults ''1 / 0 == 1''"
  by code_simp


section \<open>Filter sets\<close>

definition latest :: "('c, 'id) FilterRecord list \<Rightarrow> 'id \<Rightarrow> ('c, 'id) FilterRecord option" where
  "latest records k = find (\<lambda>f. fr_id f = k) (rev records)"

lemma latest_snoc: "latest (rs @ [r]) k = (if fr_id r = k then Some r else latest rs k)"
  by (simp add: latest_def)

lemma latest_None: "latest rs k = None \<longleftrightarrow> k \<notin> fr_id ` set rs"
  by (auto simp: latest_def find_None_iff)

lemma FilterSet_spec:
  "ordered (FilterSet rs ids)"
  "map_of (FilterSet rs ids) = (\<lambda>k. if k \<in> set ids then latest rs k else None)"
proof -
  have "ordered (FilterSet rs ids) \<and>
    map_of (FilterSet rs ids) = (\<lambda>k. if k \<in> set ids then latest rs k else None)"
  proof (induction rs rule: rev_induct)
    case Nil
    then show ?case by (simp add: FilterSet_def latest_def fun_eq_iff)
  next
    case (snoc r rs)
    then show ?case
      by (auto simp: FilterSet_def ordered_insert latest_snoc fun_eq_iff)
  qed
  then show "ordered (FilterSet rs ids)"
    "map_of (FilterSet rs ids) = (\<lambda>k. if k \<in> set ids then latest rs k else None)" by auto
qed

lemma reload_key_fold:
  assumes "ordered fs"
  obtains fs' where
    "fold (\<lambda>f (found, fs). if fr_id f = key then (True, omap_insert key f fs) else (found, fs))
       records (False, fs) = (key \<in> fr_id ` set records, fs')"
    "ordered fs'" "map_of fs' = (case latest records key of None \<Rightarrow> map_of fs
       | Some r \<Rightarrow> (map_of fs)(key \<mapsto> r))"
proof (induction records arbitrary: thesis rule: rev_induct)
  case Nil
  then show ?case using assms by (simp add: latest_def)
next
  case (snoc r rs)
  obtain fs' where fs':
    "fold (\<lambda>f (found, fs). if fr_id f = key then (True, omap_insert key f fs) else (found, fs))
       rs (False, fs) = (key \<in> fr_id ` set rs, fs')"
    "ordered fs'" "map_of fs' = (case latest rs key of None \<Rightarrow> map_of fs
       | Some r \<Rightarrow> (map_of fs)(key \<mapsto> r))" by (rule snoc.IH)
  show ?case
    by (rule snoc.prems [of "if fr_id r = key then omap_insert key r fs' else fs'"])
      (use fs' in \<open>auto simp: ordered_insert latest_snoc fun_eq_iff split: option.split\<close>)
qed

lemma reload_key_spec:
  assumes "ordered fs"
  shows "ordered (reload_key records key fs)"
    and "map_of (reload_key records key fs) = (map_of fs)(key := latest records key)"
proof -
  obtain fs' where fs':
    "fold (\<lambda>f (found, fs). if fr_id f = key then (True, omap_insert key f fs) else (found, fs))
       records (False, fs) = (key \<in> fr_id ` set records, fs')"
    "ordered fs'" "map_of fs' = (case latest records key of None \<Rightarrow> map_of fs
       | Some r \<Rightarrow> (map_of fs)(key \<mapsto> r))" by (rule reload_key_fold [OF assms])
  then show "ordered (reload_key records key fs)"
    by (simp add: reload_key_def ordered_remove)
  show "map_of (reload_key records key fs) = (map_of fs)(key := latest records key)"
    using fs' latest_None [of records key]
    by (auto simp: reload_key_def map_of_omap_remove fun_eq_iff split: option.splits)
qed

lemma reload_fold:
  assumes "ordered fs"
  shows "ordered (fold (reload_key records) ks fs) \<and>
    map_of (fold (reload_key records) ks fs) = (\<lambda>k. if k \<in> set ks then latest records k else map_of fs k)"
  using assms
  by (induction ks arbitrary: fs) (auto simp: reload_key_spec fun_eq_iff)

lemma reloadFilters_spec:
  assumes "ordered fs"
  shows "ordered (reloadFilters records fs)"
    and "map_of (reloadFilters records fs) =
      (\<lambda>k. if k \<in> fst ` set fs then latest records k else None)"
  using reload_fold [OF assms, of records "map fst fs"]
  by (auto simp: reloadFilters_def fun_eq_iff map_of_eq_None_iff)

text \<open>
  Reloading follows the settings: the filter set of a split, reloaded after the settings have
  changed from \<open>old\<close> to \<open>new\<close>, is the set a split would build from the new settings and the ids
  that were in the old ones.  So changed filters are replaced, removed ones dropped, and filters
  that were not active stay inactive.
\<close>

theorem reload_follows_settings:
  "reloadFilters new (FilterSet old ids) =
   FilterSet new (filter (\<lambda>i. i \<in> set (map fr_id old)) ids)"
proof (rule ordered_ext)
  have "fst ` set (FilterSet old ids) = dom (map_of (FilterSet old ids))"
    by (simp add: dom_map_of_conv_image_fst)
  also have "\<dots> = set ids \<inter> fr_id ` set old"
    using latest_None [of old]
    by (simp add: FilterSet_spec(2) dom_def set_eq_iff del: not_None_eq)
  finally have "fst ` set (FilterSet old ids) = set ids \<inter> fr_id ` set old" .
  then show "map_of (reloadFilters new (FilterSet old ids)) =
      map_of (FilterSet new (filter (\<lambda>i. i \<in> set (map fr_id old)) ids))"
    by (auto simp: reloadFilters_spec FilterSet_spec fun_eq_iff)
qed (simp_all add: reloadFilters_spec FilterSet_spec)

lemma filter_all_True:
  "filter_all qt ctx rs = Inr True \<longleftrightarrow>
   list_all (\<lambda>r. fr_valid r \<and> fr_filter_message qt r ctx = Inr True) rs"
  by (induction rs) (auto simp: bind_sum_eq_Inr)

lemma split_Cons:
  "(\<exists>pre r post. a # xs = pre @ r # post \<and> P pre r) \<longleftrightarrow>
   P [] a \<or> (\<exists>pre r post. xs = pre @ r # post \<and> P (a # pre) r)" (is "?L \<longleftrightarrow> ?R")
proof
  assume ?L
  then obtain pre r post where "a # xs = pre @ r # post" "P pre r" by blast
  then show ?R by (cases pre) auto
next
  assume ?R
  then show ?L by (metis append_Cons append_Nil)
qed

lemma filter_all_False:
  "filter_all qt ctx rs = Inr False \<longleftrightarrow>
   (\<exists>pre r post. rs = pre @ r # post \<and> filter_all qt ctx pre = Inr True \<and>
      (\<not> fr_valid r \<or> fr_filter_message qt r ctx = Inr False))"
proof (induction rs)
  case (Cons a rs)
  show ?case
    unfolding split_Cons [where P = "\<lambda>pre r. filter_all qt ctx pre = Inr True \<and>
      (\<not> fr_valid r \<or> fr_filter_message qt r ctx = Inr False)"]
    using Cons.IH by (auto simp: bind_sum_eq_Inr filter_all_True)
qed simp

text \<open>
  A filter set lets a message through exactly when every filter is valid and accepts it (so an
  empty set accepts everything), and rejects it exactly when some filter is invalid or rejects it
  and every filter before it accepts it.
\<close>

theorem filter_set_is_conjunction:
  "(fs_filter qt watching fs m channel = Inr True) =
     list_all (\<lambda>r. fr_valid r \<and>
       fr_filter_message qt r (buildContextMap qt watching m channel) = Inr True) (map snd fs) \<and>
   (fs_filter qt watching fs m channel = Inr False) =
     (\<exists>pre r post. map snd fs = pre @ r # post \<and>
        filter_all qt (buildContextMap qt watching m channel) pre = Inr True \<and>
        filter_all qt (buildContextMap qt watching m channel) [r] = Inr False)"
proof -
  have "fs_filter qt watching fs m channel =
      filter_all qt (buildContextMap qt watching m channel) (map snd fs)"
    by (simp add: fs_filter_def)
  moreover have single: "filter_all qt ctx [r] = Inr False \<longleftrightarrow>
      \<not> fr_valid r \<or> fr_filter_message qt r ctx = Inr False" for ctx r
    by (auto simp: bind_sum_eq_Inr)
  ultimately show ?thesis
    by (simp only: filter_all_True filter_all_False [of qt _ "map snd fs"] single simp_thms)
qed

end
