(* ===== verification/ChannelHelpers.thy ===== *)
theory ChannelHelpers
  imports Messages FilterTypes
begin

text \<open>
  \<open>util/ChannelHelpers.hpp\<close> and the message builders it calls (\<open>messages/MessageBuilder.cpp\<close>):
  timeout and clear-chat messages are merged into a recent one or appended.

  Messages are shared objects whose flags change in place, so a \<open>MessagePtr\<close> is an index into the
  messages allocated so far, the record \<open>heap\<close>; the buffers that hold pointers extend that record.
  The two callbacks of the templates are functions on the extended state, and the buffer is read
  through a function of the state: the identity of a container passed by reference, or a
  snapshot.  Times are milliseconds; of a built message the text is kept, not its elements.
\<close>

section \<open>Shared messages\<close>

type_synonym MessagePtr = nat

record 'c heap =
  msgs :: "'c Message list"

definition deref :: "('c, 'z) heap_scheme \<Rightarrow> MessagePtr \<Rightarrow> 'c Message" where
  "deref h p = msgs h ! p"

definition alloc :: "'c Message \<Rightarrow> ('c, 'z) heap_scheme \<Rightarrow> MessagePtr \<times> ('c, 'z) heap_scheme" where
  "alloc m h = (length (msgs h), h\<lparr>msgs := msgs h @ [m]\<rparr>)"

definition set_message_flags ::
  "MessagePtr \<Rightarrow> flag_set \<Rightarrow> ('c, 'z) heap_scheme \<Rightarrow> ('c, 'z) heap_scheme" where
  "set_message_flags p fs h =
     h\<lparr>msgs := (msgs h)[p := (msgs h ! p)\<lparr>flags := flags_set (flags (msgs h ! p)) fs\<rparr>]\<rparr>"

datatype TimeoutStackStyle = StackHard | DontStackBeyondUserMessage | DontStack

section \<open>Building the replacements\<close>

text \<open>
  \<open>Message::Message\<close> reads the clock; an unset colour is an invalid \<open>QColor\<close>.  The unset server time,
  here 0, is overwritten by both builders.
\<close>

record 'c message_env =
  me_noColor :: 'c
  me_currentTime :: int

definition new_message :: "'c message_env \<Rightarrow> 'c Message" where
  "new_message env =
     \<lparr>flags = 0, msg_id = [], searchText = [], messageText = [], loginName = [],
      displayName = [], userID = [], timeoutUser = [], channelName = [],
      usernameColor = me_noColor env, serverReceivedTime = 0,
      parseTime = me_currentTime env, badges = [], badgeInfos = (\<lambda>_. None),
      highlightColor = None, count = 1, reward = None\<rparr>"

definition emplaceSystemTextAndUpdate :: "string \<Rightarrow> string \<Rightarrow> string" where
  "emplaceSystemTextAndUpdate text toUpdate = toUpdate @ text @ '' ''"

fun indexOf :: "string \<Rightarrow> string \<Rightarrow> nat option" where
  "indexOf [] pat = (if pat = [] then Some 0 else None)"
| "indexOf (c # s) pat =
     (if take (length pat) (c # s) = pat then Some 0 else map_option Suc (indexOf s pat))"

definition is_space :: "char \<Rightarrow> bool" where
  "is_space c \<longleftrightarrow> (let n = of_char c :: nat in n = 32 \<or> 9 \<le> n \<and> n \<le> 13 \<or> n = 133 \<or> n = 160)"

definition trimmed :: "string \<Rightarrow> string" where
  "trimmed s = rev (dropWhile is_space (rev (dropWhile is_space s)))"

text \<open>The lambda \<open>appendUser\<close>: the captured \<open>remainder\<close> and \<open>messageText\<close> are passed on.\<close>

definition appendUser :: "string \<Rightarrow> string \<times> string \<Rightarrow> string \<times> string" where
  "appendUser name = (\<lambda>(remainder, text).
     case indexOf remainder name of
       None \<Rightarrow> (remainder, text)
     | Some 0 \<Rightarrow> (remainder, text)
     | Some (Suc n) \<Rightarrow>
         let start = take n remainder;
             remainder = drop (Suc n + length name) remainder;
             text = emplaceSystemTextAndUpdate name (emplaceSystemTextAndUpdate start text)
         in if take 1 remainder = '' '' then (tl remainder, text)
            else (remainder, butlast text))"

definition timeout_text ::
  "'c qt_api \<Rightarrow> string \<Rightarrow> string \<Rightarrow> string \<Rightarrow> string \<Rightarrow> 32 word \<Rightarrow> string" where
  "timeout_text qt target sourceUser channel systemMessageText cnt =
     (let usernameText = takeWhile (\<lambda>c. c \<noteq> CHR '' '') systemMessageText;
          remainder = drop (length usernameText + 1) systemMessageText;
          timeoutUserIsFirst = (usernameText = ''You'' \<or> target = usernameText);
          acc = (remainder, emplaceSystemTextAndUpdate usernameText []);
          acc = (if sourceUser \<noteq> []
                 then appendUser (if timeoutUserIsFirst then sourceUser else target) acc
                 else acc);
          (remainder, text) = (if channel \<noteq> [] then appendUser channel acc else acc)
      in emplaceSystemTextAndUpdate
           (q_arg qt (q_arg qt ''%1 (%2 times)'' (trimmed remainder)) (q_number qt (int (unat cnt))))
           text)"

definition build_timeout ::
  "'c qt_api \<Rightarrow> 'c message_env \<Rightarrow> string \<Rightarrow> string \<Rightarrow> string \<Rightarrow> string \<Rightarrow> 32 word \<Rightarrow> int \<Rightarrow> 'c Message" where
  "build_timeout qt env target sourceUser channel systemMessageText cnt time =
     (let text = timeout_text qt target sourceUser channel systemMessageText cnt
      in (new_message env)\<lparr>messageText := text, searchText := text, serverReceivedTime := time\<rparr>)"

definition makeClearChatMessage ::
  "'c qt_api \<Rightarrow> 'c message_env \<Rightarrow> int \<Rightarrow> string \<Rightarrow> 32 word \<Rightarrow> 'c Message" where
  "makeClearChatMessage qt env now actor cnt =
     (let m = (new_message env)\<lparr>count := cnt, serverReceivedTime := now,
            flags := flags_of [System, DoNotTriggerNotification, ClearChat]\<rparr>;
          (m, text) =
            (if actor = []
             then (m, emplaceSystemTextAndUpdate ''Chat has been cleared by a moderator.'' [])
             else (m\<lparr>flags := flags_set (flags m) (flag_value PubSub), timeoutUser := actor\<rparr>,
                   emplaceSystemTextAndUpdate ''cleared the chat.'' (actor @ '' '')));
          text = (if cnt > 1
                  then text @ (''('' @ q_number qt (int (unat cnt)) @ '' times)'') @ '' ''
                  else text)
      in m\<lparr>messageText := text, searchText := text\<rparr>)"

section \<open>Timeouts\<close>

text \<open>The replacement of an earlier timeout \<open>s\<close> by the new one \<open>m\<close>, one stacked more.\<close>

definition timeout_replacement ::
  "'c qt_api \<Rightarrow> 'c message_env \<Rightarrow> 'c Message \<Rightarrow> 'c Message \<Rightarrow> 'c Message" where
  "timeout_replacement qt env m s =
     (let cnt = count s + 1
      in (build_timeout qt env (timeoutUser m) (loginName m) (channelName m) (searchText m) cnt
            (serverReceivedTime m))
         \<lparr>timeoutUser := timeoutUser m, channelName := channelName m, count := cnt,
          flags := flags m\<rparr>)"

text \<open>
  The loop over the last 20 messages, newest first, as recursion over the indices still to visit.
  It returns the state and \<open>shouldAddMessage\<close>; a \<open>break\<close> ends the recursion.
\<close>

fun timeout_loop ::
  "'c qt_api \<Rightarrow> 'c message_env \<Rightarrow> TimeoutStackStyle \<Rightarrow> int \<Rightarrow> (('c, 'z) heap_scheme \<Rightarrow> MessagePtr list) \<Rightarrow>
   (nat \<Rightarrow> MessagePtr \<Rightarrow> MessagePtr \<Rightarrow> ('c, 'z) heap_scheme \<Rightarrow> ('c, 'z) heap_scheme) \<Rightarrow>
   MessagePtr \<Rightarrow> nat list \<Rightarrow> ('c, 'z) heap_scheme \<Rightarrow> ('c, 'z) heap_scheme \<times> bool" where
  "timeout_loop qt env style minimumTime buffer replace message [] w = (w, True)"
| "timeout_loop qt env style minimumTime buffer replace message (i # is) w =
     (let p = buffer w ! i; s = deref w p; m = deref w message;
          newIsShared = has (flags m) SharedMessage;
          oldIsShared = has (flags s) SharedMessage
      in if serverReceivedTime s < minimumTime then (w, True)
         else if has (flags s) Untimeout \<and> timeoutUser s = timeoutUser m then (w, True)
         else if style = DontStackBeyondUserMessage \<and> loginName s = timeoutUser m \<and>
           hasNone (flags s) (flags_of [Disabled, Timeout, Untimeout]) then (w, True)
         else if newIsShared \<noteq> oldIsShared \<or> newIsShared \<and> channelName m \<noteq> channelName s
         then timeout_loop qt env style minimumTime buffer replace message is w
         else if has (flags s) Timeout \<and> timeoutUser s = timeoutUser m
         then (if has (flags m) PubSub \<and> \<not> has (flags s) PubSub
               then (replace i p message w, False)
               else if \<not> has (flags m) PubSub \<and> has (flags s) PubSub
               then (w, style = DontStack)
               else (let (r, w') = alloc (timeout_replacement qt env m s) w
                     in (replace i p r w', False)))
         else timeout_loop qt env style minimumTime buffer replace message is w)"

text \<open>One step of the loop that disables the messages of the user.\<close>

definition disable_step ::
  "(('c, 'z) heap_scheme \<Rightarrow> MessagePtr list) \<Rightarrow> MessagePtr \<Rightarrow> nat \<Rightarrow> ('c, 'z) heap_scheme \<Rightarrow>
   ('c, 'z) heap_scheme" where
  "disable_step buffer message i w =
     (let p = buffer w ! i; s = deref w p
      in if loginName s = timeoutUser (deref w message) \<and>
            hasNone (flags s) (flags_of [Timeout, Untimeout, Whisper])
         then set_message_flags p (flag_value Disabled) w else w)"

definition addOrReplaceChannelTimeout ::
  "'c qt_api \<Rightarrow> 'c message_env \<Rightarrow> TimeoutStackStyle \<Rightarrow> (('c, 'z) heap_scheme \<Rightarrow> MessagePtr list) \<Rightarrow>
   MessagePtr \<Rightarrow> int \<Rightarrow>
   (nat \<Rightarrow> MessagePtr \<Rightarrow> MessagePtr \<Rightarrow> ('c, 'z) heap_scheme \<Rightarrow> ('c, 'z) heap_scheme) \<Rightarrow>
   (MessagePtr \<Rightarrow> ('c, 'z) heap_scheme \<Rightarrow> ('c, 'z) heap_scheme) \<Rightarrow> bool \<Rightarrow>
   ('c, 'z) heap_scheme \<Rightarrow> ('c, 'z) heap_scheme" where
  "addOrReplaceChannelTimeout qt env style buffer message now replace add disableUserMessages w =
     (let snapshotLength = length (buffer w);
          (w, shouldAddMessage) =
            timeout_loop qt env style (now - 5000) buffer replace message
              (rev [snapshotLength - 20..<snapshotLength]) w;
          w = (if disableUserMessages
               then fold (disable_step buffer message) [0..<snapshotLength] w else w)
      in if shouldAddMessage then add message w else w)"

section \<open>Clearing the chat\<close>

fun clear_loop ::
  "'c qt_api \<Rightarrow> 'c message_env \<Rightarrow> TimeoutStackStyle \<Rightarrow> int \<Rightarrow> (('c, 'z) heap_scheme \<Rightarrow> MessagePtr list) \<Rightarrow>
   (nat \<Rightarrow> MessagePtr \<Rightarrow> MessagePtr \<Rightarrow> ('c, 'z) heap_scheme \<Rightarrow> ('c, 'z) heap_scheme) \<Rightarrow>
   MessagePtr \<Rightarrow> nat list \<Rightarrow> ('c, 'z) heap_scheme \<Rightarrow> ('c, 'z) heap_scheme \<times> bool" where
  "clear_loop qt env style minimumTime buffer replace message [] w = (w, True)"
| "clear_loop qt env style minimumTime buffer replace message (i # is) w =
     (let p = buffer w ! i; s = deref w p; m = deref w message;
          isClearChat = has (flags s) ClearChat
      in if serverReceivedTime s < minimumTime then (w, True)
         else if style = DontStackBeyondUserMessage \<and> \<not> isClearChat then (w, True)
         else if \<not> isClearChat \<or> has (flags m) PubSub \<noteq> has (flags s) PubSub
         then clear_loop qt env style minimumTime buffer replace message is w
         else if style = DontStackBeyondUserMessage \<and> has (flags s) PubSub \<and>
           timeoutUser s \<noteq> timeoutUser m then (w, True)
         else (let (r, w') =
                 alloc ((makeClearChatMessage qt env (serverReceivedTime m) (timeoutUser m)
                           (count s + 1))\<lparr>flags := flags m\<rparr>) w
               in (replace i p r w', False)))"

definition addOrReplaceChannelClear ::
  "'c qt_api \<Rightarrow> 'c message_env \<Rightarrow> TimeoutStackStyle \<Rightarrow> (('c, 'z) heap_scheme \<Rightarrow> MessagePtr list) \<Rightarrow>
   MessagePtr \<Rightarrow> int \<Rightarrow>
   (nat \<Rightarrow> MessagePtr \<Rightarrow> MessagePtr \<Rightarrow> ('c, 'z) heap_scheme \<Rightarrow> ('c, 'z) heap_scheme) \<Rightarrow>
   (MessagePtr \<Rightarrow> ('c, 'z) heap_scheme \<Rightarrow> ('c, 'z) heap_scheme) \<Rightarrow>
   ('c, 'z) heap_scheme \<Rightarrow> ('c, 'z) heap_scheme" where
  "addOrReplaceChannelClear qt env style buffer message now replace add w =
     (if style = DontStack then add message w
      else let snapshotLength = length (buffer w);
               (w, shouldAddMessage) =
                 clear_loop qt env style (now - 5000) buffer replace message
                   (rev [snapshotLength - 20..<snapshotLength]) w
           in if shouldAddMessage then add message w else w)"

section \<open>The outcome of the loops\<close>

text \<open>When the message at \<open>p\<close> is a timeout that \<open>m\<close> may be merged into.\<close>

definition same_timeout :: "int \<Rightarrow> 'c Message \<Rightarrow> 'c Message \<Rightarrow> bool" where
  "same_timeout minimumTime m s \<longleftrightarrow>
     minimumTime \<le> serverReceivedTime s \<and> has (flags s) Timeout \<and> timeoutUser s = timeoutUser m \<and>
     has (flags s) SharedMessage = has (flags m) SharedMessage"

text \<open>When the message at \<open>p\<close> is taken for a clear-chat message that \<open>m\<close> may be merged into.\<close>

definition same_clear :: "int \<Rightarrow> 'c Message \<Rightarrow> 'c Message \<Rightarrow> bool" where
  "same_clear minimumTime m s \<longleftrightarrow>
     minimumTime \<le> serverReceivedTime s \<and> has (flags s) ClearChat \<and>
     has (flags m) PubSub = has (flags s) PubSub"

lemma timeout_loop_outcome:
  "timeout_loop qt env style t buffer replace message is w = (w', b) \<Longrightarrow>
   w' = w \<or>
   (\<exists>i\<in>set is. \<not> b \<and> same_timeout t (deref w message) (deref w (buffer w ! i)) \<and>
      (w' = replace i (buffer w ! i) message w \<or>
       w' = replace i (buffer w ! i) (length (msgs w))
         (w\<lparr>msgs := msgs w @ [timeout_replacement qt env (deref w message)
            (deref w (buffer w ! i))]\<rparr>)))"
proof (induction "is")
  case (Cons i "is")
  let ?loop = "timeout_loop qt env style t buffer replace message is w"
  let ?m = "deref w message" and ?s = "deref w (buffer w ! i)"
  let ?r = "w\<lparr>msgs := msgs w @ [timeout_replacement qt env ?m ?s]\<rparr>"
  have "w' = w \<or> ?loop = (w', b) \<or> \<not> b \<and> same_timeout t ?m ?s \<and>
      (w' = replace i (buffer w ! i) message w \<or>
       w' = replace i (buffer w ! i) (length (msgs w)) ?r)"
    using Cons.prems unfolding timeout_loop.simps Let_def alloc_def prod.case
    by (simp only: split: if_split_asm) (simp_all add: same_timeout_def not_less)
  then show ?case
    using Cons.IH by (elim disjE) (simp_all, argo?)
qed simp

lemma clear_loop_outcome:
  "clear_loop qt env style t buffer replace message is w = (w', b) \<Longrightarrow>
   w' = w \<and> b \<or>
   (\<exists>i\<in>set is. \<not> b \<and> same_clear t (deref w message) (deref w (buffer w ! i)) \<and>
      w' = replace i (buffer w ! i) (length (msgs w))
         (w\<lparr>msgs := msgs w @ [(makeClearChatMessage qt env (serverReceivedTime (deref w message))
            (timeoutUser (deref w message)) (count (deref w (buffer w ! i)) + 1))
            \<lparr>flags := flags (deref w message)\<rparr>]\<rparr>))"
proof (induction "is")
  case (Cons i "is")
  let ?loop = "clear_loop qt env style t buffer replace message is w"
  let ?m = "deref w message" and ?s = "deref w (buffer w ! i)"
  let ?r = "(makeClearChatMessage qt env (serverReceivedTime ?m) (timeoutUser ?m) (count ?s + 1))
    \<lparr>flags := flags ?m\<rparr>"
  have "w' = w \<and> b \<or> ?loop = (w', b) \<or> \<not> b \<and> same_clear t ?m ?s \<and>
      w' = replace i (buffer w ! i) (length (msgs w)) (w\<lparr>msgs := msgs w @ [?r]\<rparr>)"
    using Cons.prems unfolding clear_loop.simps Let_def alloc_def prod.case
    by (simp only: split: if_split_asm) (simp_all add: same_clear_def not_less)
  then show ?case
    using Cons.IH by (elim disjE) (simp_all, argo?)
qed simp

section \<open>Disabling\<close>

text \<open>\<open>same_but_flags xs ys\<close>: the messages \<open>ys\<close> differ from \<open>xs\<close> in their flags only.\<close>

definition same_but_flags :: "'c Message list \<Rightarrow> 'c Message list \<Rightarrow> bool" where
  "same_but_flags xs ys \<longleftrightarrow> map (flags_update (\<lambda>_. 0)) xs = map (flags_update (\<lambda>_. 0)) ys"

lemma same_but_flags_refl [simp]: "same_but_flags xs xs"
  by (simp add: same_but_flags_def)

lemma same_but_flags_trans: "same_but_flags xs ys \<Longrightarrow> same_but_flags ys zs \<Longrightarrow> same_but_flags xs zs"
  by (simp add: same_but_flags_def)

lemma same_but_flags_length: "same_but_flags xs ys \<Longrightarrow> length xs = length ys"
  unfolding same_but_flags_def using map_eq_imp_length_eq by blast

lemma same_but_flags_update:
  "same_but_flags xs (xs[i := (xs ! i)\<lparr>flags := fs\<rparr>])"
  by (cases "i < length xs")
    (auto simp: same_but_flags_def map_update list_update_id intro!: nth_equalityI
      simp: nth_list_update)

lemma same_but_flags_nth:
  assumes "same_but_flags xs ys" "i < length xs"
  shows "(xs ! i)\<lparr>flags := 0\<rparr> = (ys ! i)\<lparr>flags := 0\<rparr>"
  using assms same_but_flags_length [OF assms(1)]
  unfolding same_but_flags_def by (metis nth_map)

lemma same_but_flags_fields:
  assumes "same_but_flags xs ys" "i < length xs"
  shows "loginName (ys ! i) = loginName (xs ! i)" "timeoutUser (ys ! i) = timeoutUser (xs ! i)"
  using arg_cong [OF same_but_flags_nth [OF assms], of loginName]
    arg_cong [OF same_but_flags_nth [OF assms], of timeoutUser] by simp_all

lemma disable_step_msgs:
  "\<exists>xs. disable_step buffer message i w = w\<lparr>msgs := xs\<rparr> \<and> same_but_flags (msgs w) xs"
  unfolding disable_step_def set_message_flags_def Let_def
  using same_but_flags_update by (auto intro: exI [of _ "msgs w"])

lemma disable_fold_msgs:
  "\<exists>xs. fold (disable_step buffer message) is w = w\<lparr>msgs := xs\<rparr> \<and> same_but_flags (msgs w) xs"
proof (induction "is" arbitrary: w)
  case Nil
  show ?case by (auto intro: exI [of _ "msgs w"])
next
  case (Cons i "is")
  obtain xs where xs: "disable_step buffer message i w = w\<lparr>msgs := xs\<rparr>" "same_but_flags (msgs w) xs"
    using disable_step_msgs by blast
  then obtain ys where "fold (disable_step buffer message) is (w\<lparr>msgs := xs\<rparr>) = w\<lparr>msgs := ys\<rparr>"
    "same_but_flags xs ys" using Cons.IH [of "w\<lparr>msgs := xs\<rparr>"] by auto
  with xs show ?case by (auto intro: same_but_flags_trans)
qed

section \<open>What the helpers need of a sink\<close>

text \<open>
  The interface between the helpers and the buffers that use them.  \<open>contents\<close> is the buffer,
  oldest message first, \<open>trim\<close> what remains of it when it is full; replacing and adding change one
  position of the buffer and, of the messages, at most their flags.
\<close>

locale message_sink =
  fixes good :: "('c, 'z) heap_scheme \<Rightarrow> bool"
    and contents :: "('c, 'z) heap_scheme \<Rightarrow> MessagePtr list"
    and trim :: "('c, 'z) heap_scheme \<Rightarrow> MessagePtr list \<Rightarrow> MessagePtr list"
    and replace :: "nat \<Rightarrow> MessagePtr \<Rightarrow> MessagePtr \<Rightarrow> ('c, 'z) heap_scheme \<Rightarrow> ('c, 'z) heap_scheme"
    and add :: "MessagePtr \<Rightarrow> ('c, 'z) heap_scheme \<Rightarrow> ('c, 'z) heap_scheme"
  assumes good_contents: "good w \<Longrightarrow> p \<in> set (contents w) \<Longrightarrow> p < length (msgs w)"
    and msgs_update: "contents (w\<lparr>msgs := xs\<rparr>) = contents w" "trim (w\<lparr>msgs := xs\<rparr>) = trim w"
    and good_msgs: "good w \<Longrightarrow> length (msgs w) \<le> length xs \<Longrightarrow> good (w\<lparr>msgs := xs\<rparr>)"
    and replace_contents: "good w \<Longrightarrow> i < length (contents w) \<Longrightarrow>
      contents (replace i (contents w ! i) p w) = (contents w)[i := p]"
    and replace_good: "good w \<Longrightarrow> i < length (contents w) \<Longrightarrow> p < length (msgs w) \<Longrightarrow>
      p \<notin> set (contents w) \<Longrightarrow> good (replace i (contents w ! i) p w)"
    and replace_trim: "trim (replace i q p w) = trim w"
    and add_contents: "good w \<Longrightarrow> contents (add p w) = trim w (contents w @ [p])"
    and add_good: "good w \<Longrightarrow> p < length (msgs w) \<Longrightarrow> p \<notin> set (contents w) \<Longrightarrow> good (add p w)"
begin

text \<open>
  What merging does to a sink: the buffer is unchanged, or the new message is appended, or one of
  the last 20 messages, one the new message may be merged into, is replaced.
\<close>

definition merged ::
  "('c Message \<Rightarrow> 'c Message \<Rightarrow> bool) \<Rightarrow> MessagePtr \<Rightarrow> ('c, 'z) heap_scheme \<Rightarrow> ('c, 'z) heap_scheme \<Rightarrow> bool" where
  "merged same message w w' \<longleftrightarrow>
     (\<exists>i p. length (contents w) - 20 \<le> i \<and> i < length (contents w) \<and>
        same (deref w message) (deref w (contents w ! i)) \<and> p \<notin> set (contents w) \<and>
        contents w' = (contents w)[i := p])"

lemma replace_fresh:
  assumes "good w" "i < length (contents w)"
  shows "good (replace i (contents w ! i) (length (msgs w)) (w\<lparr>msgs := msgs w @ [m]\<rparr>))"
    and "contents (replace i (contents w ! i) (length (msgs w)) (w\<lparr>msgs := msgs w @ [m]\<rparr>)) =
      (contents w)[i := length (msgs w)]"
proof -
  let ?w = "w\<lparr>msgs := msgs w @ [m]\<rparr>"
  have w: "good ?w" "contents ?w = contents w"
    using assms(1) by (auto simp: msgs_update intro: good_msgs)
  have "length (msgs w) \<notin> set (contents w)" using good_contents [OF assms(1)] by blast
  with w assms(2) show "good (replace i (contents w ! i) (length (msgs w)) ?w)"
    using replace_good [OF w(1), of i "length (msgs w)"] by simp
  show "contents (replace i (contents w ! i) (length (msgs w)) ?w) = (contents w)[i := length (msgs w)]"
    using replace_contents [OF w(1), of i] w(2) assms(2) by simp
qed

lemma fresh_notin: "good w \<Longrightarrow> length (msgs w) \<notin> set (contents w)"
  using good_contents by blast

lemma timeout_loop_effect:
  assumes "good w" "message < length (msgs w)" "message \<notin> set (contents w)"
    and "buffer w = contents w"
    and "timeout_loop qt env style t buffer replace message
      (rev [length (contents w) - 20..<length (contents w)]) w = (w', b)"
  shows "w' = w \<or> \<not> b \<and> good w' \<and> merged (same_timeout t) message w w'"
  using timeout_loop_outcome [OF assms(5)]
proof (elim disjE bexE conjE)
  fix i assume i: "i \<in> set (rev [length (contents w) - 20..<length (contents w)])" "\<not> b"
    and same: "same_timeout t (deref w message) (deref w (buffer w ! i))"
  from i have len: "i < length (contents w)" by simp
  {
    assume "w' = replace i (buffer w ! i) message w"
    then have "good w'" "contents w' = (contents w)[i := message]"
      using assms(1-4) len replace_good replace_contents by auto
    then show ?thesis using i same assms(3,4) by (auto simp: merged_def)
  next
    assume "w' = replace i (buffer w ! i) (length (msgs w))
      (w\<lparr>msgs := msgs w @ [timeout_replacement qt env (deref w message) (deref w (buffer w ! i))]\<rparr>)"
    then have "good w'" "contents w' = (contents w)[i := length (msgs w)]"
      using replace_fresh [OF assms(1) len] assms(4) by auto
    then show ?thesis using i same assms(4) fresh_notin [OF assms(1)] by (auto simp: merged_def)
  }
qed simp

lemma disable_effect:
  assumes "good w"
  shows "good (fold (disable_step buffer message) is w)"
    and "contents (fold (disable_step buffer message) is w) = contents w"
    and "trim (fold (disable_step buffer message) is w) = trim w"
    and "length (msgs (fold (disable_step buffer message) is w)) = length (msgs w)"
proof -
  obtain xs where "fold (disable_step buffer message) is w = w\<lparr>msgs := xs\<rparr>"
    "same_but_flags (msgs w) xs" using disable_fold_msgs by blast
  then show "good (fold (disable_step buffer message) is w)"
    "contents (fold (disable_step buffer message) is w) = contents w"
    "trim (fold (disable_step buffer message) is w) = trim w"
    "length (msgs (fold (disable_step buffer message) is w)) = length (msgs w)"
    using assms by (auto simp: msgs_update good_msgs same_but_flags_length)
qed

theorem timeout_effect:
  assumes "good w" "message < length (msgs w)" "message \<notin> set (contents w)" "buffer w = contents w"
    and "w' = addOrReplaceChannelTimeout qt env style buffer message now replace add d w"
  shows "good w' \<and>
    (contents w' \<in> {contents w, trim w (contents w @ [message])} \<or>
     merged (same_timeout (now - 5000)) message w w')"
proof -
  let ?is = "rev [length (contents w) - 20..<length (contents w)]"
  obtain w1 b where loop: "timeout_loop qt env style (now - 5000) buffer replace message ?is w = (w1, b)"
    by fastforce
  define w2 where "w2 = (if d then fold (disable_step buffer message) [0..<length (contents w)] w1 else w1)"
  have w': "w' = (if b then add message w2 else w2)"
    using assms(4,5) loop by (simp add: addOrReplaceChannelTimeout_def w2_def Let_def)
  from timeout_loop_effect [OF assms(1-4) loop] show ?thesis
  proof
    assume "w1 = w"
    then have w2: "good w2" "contents w2 = contents w" "trim w2 = trim w" "message < length (msgs w2)"
      using assms(1,2) disable_effect [OF assms(1)] by (auto simp: w2_def)
    then show ?thesis using w' add_good add_contents assms(3) by auto
  next
    assume r: "\<not> b \<and> good w1 \<and> merged (same_timeout (now - 5000)) message w w1"
    then have "good w2" "contents w2 = contents w1"
      using disable_effect [of w1] by (auto simp: w2_def)
    with r w' show ?thesis by (simp add: merged_def)
  qed
qed

theorem clear_effect:
  assumes "good w" "message < length (msgs w)" "message \<notin> set (contents w)" "buffer w = contents w"
    and "w' = addOrReplaceChannelClear qt env style buffer message now replace add w"
  shows "good w' \<and>
    (contents w' = trim w (contents w @ [message]) \<or>
     merged (same_clear (now - 5000)) message w w')"
proof (cases "style = DontStack")
  case True
  with assms show ?thesis
    using add_good add_contents by (simp add: addOrReplaceChannelClear_def)
next
  case False
  let ?is = "rev [length (contents w) - 20..<length (contents w)]"
  obtain w1 b where loop: "clear_loop qt env style (now - 5000) buffer replace message ?is w = (w1, b)"
    by fastforce
  then have w': "w' = (if b then add message w1 else w1)"
    using assms(4,5) False by (simp add: addOrReplaceChannelClear_def Let_def)
  from clear_loop_outcome [OF loop] show ?thesis
  proof (elim disjE bexE conjE)
    assume "w1 = w" "b"
    with w' show ?thesis using add_good [OF assms(1-3)] add_contents [OF assms(1)] by simp
  next
    fix i assume i: "i \<in> set ?is" "\<not> b"
      and same: "same_clear (now - 5000) (deref w message) (deref w (buffer w ! i))"
      and w1: "w1 = replace i (buffer w ! i) (length (msgs w))
         (w\<lparr>msgs := msgs w @ [(makeClearChatMessage qt env (serverReceivedTime (deref w message))
            (timeoutUser (deref w message)) (count (deref w (buffer w ! i)) + 1))
            \<lparr>flags := flags (deref w message)\<rparr>]\<rparr>)"
    from i have len: "i < length (contents w)" by simp
    have "good w1" "contents w1 = (contents w)[i := length (msgs w)]"
      using replace_fresh [OF assms(1) len] w1 assms(4) by auto
    then show ?thesis
      using w' i same assms(4) fresh_notin [OF assms(1)] by (auto simp: merged_def)
  qed
qed

end

end
