(* ===== verification/Similarity.thy ===== *)
theory Similarity
  imports ChannelHelpers "HOL-Library.Sublist"
begin

text \<open>
  \<open>messages/MessageSimilarity.cpp\<close>: how similar a new message is to the recent ones, and the flags
  it gets for that.

  The similarity is the length of the longest common substring, found by dynamic programming,
  over the longer length.  The floating-point quotient \<open>float(z) / float(div)\<close> is the parameter
  \<open>fdiv\<close> into an ordered type with a zero; the settings are a record.
\<close>

section \<open>Longest common substring\<close>

definition table_set :: "int list list \<Rightarrow> nat \<Rightarrow> nat \<Rightarrow> int \<Rightarrow> int list list" where
  "table_set tree i j v = tree[i := (tree ! i)[j := v]]"

definition similarity_cell ::
  "string \<Rightarrow> string \<Rightarrow> nat \<Rightarrow> nat \<Rightarrow> int list list \<times> int \<Rightarrow> int list list \<times> int" where
  "similarity_cell str1 str2 i j = (\<lambda>(tree, z).
     if str1 ! i = str2 ! j
     then let v = (if i = 0 \<or> j = 0 then 1 else tree ! (i - 1) ! (j - 1) + 1)
          in (table_set tree i j v, max v z)
     else (table_set tree i j 0, z))"

definition similarity_table :: "string \<Rightarrow> string \<Rightarrow> int list list \<times> int" where
  "similarity_table str1 str2 =
     fold (\<lambda>i. fold (similarity_cell str1 str2 i) [0..<length str2]) [0..<length str1]
       (replicate (length str1) (replicate (length str2) 0), 0)"

definition relativeSimilarity ::
  "(int \<Rightarrow> int \<Rightarrow> 'f::{linorder, zero}) \<Rightarrow> string \<Rightarrow> string \<Rightarrow> 'f" where
  "relativeSimilarity fdiv str1 str2 =
     (let z = snd (similarity_table str1 str2)
      in if z = 0 then 0
         else fdiv z (max 1 (max (int (length str1)) (int (length str2)))))"

section \<open>The table computes common suffixes\<close>

text \<open>The length of the longest common suffix of the prefixes that end at \<open>i\<close> and \<open>j\<close>.\<close>

fun common_suffix :: "string \<Rightarrow> string \<Rightarrow> nat \<Rightarrow> nat \<Rightarrow> nat" where
  "common_suffix a b i 0 = (if a ! i = b ! 0 then 1 else 0)"
| "common_suffix a b 0 j = (if a ! 0 = b ! j then 1 else 0)"
| "common_suffix a b (Suc i) (Suc j) =
     (if a ! Suc i = b ! Suc j then Suc (common_suffix a b i j) else 0)"

definition table_ok :: "string \<Rightarrow> string \<Rightarrow> (nat \<times> nat) set \<Rightarrow> int list list \<times> int \<Rightarrow> bool" where
  "table_ok a b P = (\<lambda>(tree, z).
     length tree = length a \<and> (\<forall>i<length a. length (tree ! i) = length b) \<and>
     (\<forall>(i, j)\<in>P. tree ! i ! j = int (common_suffix a b i j)) \<and>
     (\<forall>(i, j)\<in>P. int (common_suffix a b i j) \<le> z) \<and>
     (z = 0 \<or> (\<exists>(i, j)\<in>P. z = int (common_suffix a b i j))) \<and> 0 \<le> z)"

lemma table_set_nth:
  assumes "length tree = length a" "\<forall>i<length a. length (tree ! i) = length b"
    and "i < length a" "j < length b" "k < length a"
  shows "table_set tree i j v ! k ! l = (if k = i \<and> l = j then v else tree ! k ! l)"
  using assms by (auto simp: table_set_def nth_list_update)

lemma cell_value:
  assumes "a ! i = b ! j" "i \<noteq> 0 \<Longrightarrow> j \<noteq> 0 \<Longrightarrow> t = int (common_suffix a b (i - 1) (j - 1))"
  shows "int (common_suffix a b i j) = (if i = 0 \<or> j = 0 then 1 else t + 1)"
  using assms by (cases i; cases j) auto

lemma cell_mismatch: "a ! i \<noteq> b ! j \<Longrightarrow> common_suffix a b i j = 0"
  by (cases i; cases j) auto

lemma table_ok_cell:
  assumes "table_ok a b P tz" "i < length a" "j < length b" "P \<subseteq> {..<length a} \<times> UNIV"
    and prev: "i \<noteq> 0 \<Longrightarrow> j \<noteq> 0 \<Longrightarrow> (i - 1, j - 1) \<in> P" and "(i, j) \<notin> P"
  shows "table_ok a b (insert (i, j) P) (similarity_cell a b i j tz)"
proof -
  obtain tree z where tz: "tz = (tree, z)" by fastforce
  from assms(1) have ok: "length tree = length a" "\<forall>i<length a. length (tree ! i) = length b"
    "\<forall>(i, j)\<in>P. tree ! i ! j = int (common_suffix a b i j)"
    "\<forall>(i, j)\<in>P. int (common_suffix a b i j) \<le> z"
    "z = 0 \<or> (\<exists>(i, j)\<in>P. z = int (common_suffix a b i j))" "0 \<le> z"
    by (auto simp: table_ok_def tz)
  define v where "v = int (common_suffix a b i j)"
  have step: "similarity_cell a b i j tz = (table_set tree i j v, max v z)"
  proof (cases "a ! i = b ! j")
    case True
    have "v = (if i = 0 \<or> j = 0 then 1 else tree ! (i - 1) ! (j - 1) + 1)"
      unfolding v_def using prev ok(3) by (intro cell_value [OF True]) auto
    with True show ?thesis by (simp add: similarity_cell_def tz Let_def)
  next
    case False
    then show ?thesis
      using ok(6) by (simp add: similarity_cell_def tz v_def cell_mismatch)
  qed
  have nth: "table_set tree i j v ! k ! l = (if k = i \<and> l = j then v else tree ! k ! l)"
    if "k < length a" for k l
    by (rule table_set_nth [OF ok(1,2) assms(2,3) that])
  have "\<forall>(k, l)\<in>insert (i, j) P. table_set tree i j v ! k ! l = int (common_suffix a b k l)"
  proof clarify
    fix k l assume kl: "(k, l) \<in> insert (i, j) P"
    then have "k < length a" using assms(2,4) by auto
    from nth [OF this] kl ok(3) show "table_set tree i j v ! k ! l = int (common_suffix a b k l)"
      by (auto simp: v_def)
  qed
  moreover have "\<forall>(k, l)\<in>insert (i, j) P. int (common_suffix a b k l) \<le> max v z"
    using ok(4) by (auto simp: v_def)
  moreover have "max v z = 0 \<or> (\<exists>(k, l)\<in>insert (i, j) P. max v z = int (common_suffix a b k l))"
    using ok(5,6) by (auto simp: max_def v_def)
  moreover have "length (table_set tree i j v) = length a"
    "\<forall>k<length a. length (table_set tree i j v ! k) = length b"
    using ok(1,2) assms(2) by (simp_all add: table_set_def nth_list_update)
  ultimately show ?thesis
    unfolding step table_ok_def using ok(6) by simp
qed

lemma table_ok_row:
  assumes "table_ok a b ({..<i} \<times> {..<length b}) tz" "i < length a" "k \<le> length b"
  shows "table_ok a b ({..<i} \<times> {..<length b} \<union> {i} \<times> {..<k})
    (fold (similarity_cell a b i) [0..<k] tz)"
  using assms(3)
proof (induction k)
  case 0
  then show ?case using assms(1) by simp
next
  case (Suc k)
  have "{..<i} \<times> {..<length b} \<union> {i} \<times> {..<Suc k} =
      insert (i, k) ({..<i} \<times> {..<length b} \<union> {i} \<times> {..<k})" by (auto simp: less_Suc_eq)
  moreover have "table_ok a b (insert (i, k) ({..<i} \<times> {..<length b} \<union> {i} \<times> {..<k}))
      (similarity_cell a b i k (fold (similarity_cell a b i) [0..<k] tz))"
    by (rule table_ok_cell [OF Suc.IH assms(2)]) (use Suc.prems assms(2) in auto)
  ultimately show ?case by simp
qed

lemma table_ok_rows:
  assumes "k \<le> length a"
  shows "table_ok a b ({..<k} \<times> {..<length b})
    (fold (\<lambda>i. fold (similarity_cell a b i) [0..<length b]) [0..<k]
      (replicate (length a) (replicate (length b) 0), 0))"
  using assms
proof (induction k)
  case 0
  then show ?case by (simp add: table_ok_def)
next
  case (Suc k)
  have "{..<Suc k} \<times> {..<length b} = {..<k} \<times> {..<length b} \<union> {k} \<times> {..<length b}"
    by (auto simp: less_Suc_eq)
  with Suc show ?case
    using table_ok_row [of a b k _ "length b"] by simp
qed

lemma similarity_table_ok:
  "table_ok a b ({..<length a} \<times> {..<length b}) (similarity_table a b)"
  unfolding similarity_table_def by (rule table_ok_rows) simp

section \<open>Common suffixes are common substrings\<close>

lemma common_suffix_iff:
  "k \<le> common_suffix a b i j \<longleftrightarrow> k \<le> Suc i \<and> k \<le> Suc j \<and> (\<forall>d<k. a ! (i - d) = b ! (j - d))"
proof (induction a b i j arbitrary: k rule: common_suffix.induct)
  case (3 a b i j)
  show ?case
  proof (cases k)
    case (Suc k')
    have "(\<forall>d<Suc k'. a ! (Suc i - d) = b ! (Suc j - d)) \<longleftrightarrow>
        a ! Suc i = b ! Suc j \<and> (\<forall>d<k'. a ! (i - d) = b ! (j - d))"
      by (auto simp: less_Suc_eq_0_disj)
    with Suc 3 show ?thesis by auto
  qed simp
qed (auto simp: le_Suc_eq)

lemma common_suffix_sublist:
  assumes "i < length a" "j < length b"
  shows "\<exists>u. sublist u a \<and> sublist u b \<and> length u = common_suffix a b i j"
proof -
  let ?k = "common_suffix a b i j"
  have k: "?k \<le> Suc i" "?k \<le> Suc j" "\<And>d. d < ?k \<Longrightarrow> a ! (i - d) = b ! (j - d)"
    using common_suffix_iff [of ?k a b i j] by auto
  let ?u = "take ?k (drop (Suc i - ?k) a)" and ?v = "take ?k (drop (Suc j - ?k) b)"
  have "?u = ?v"
  proof (rule nth_equalityI)
    show "length ?u = length ?v" using k assms by simp
  next
    fix n assume "n < length ?u"
    then have n: "n < ?k" by simp
    then have "a ! (i - (?k - Suc n)) = b ! (j - (?k - Suc n))" by (intro k(3)) simp
    moreover have "i - (?k - Suc n) = Suc i - ?k + n" "j - (?k - Suc n) = Suc j - ?k + n"
      using n k(1,2) by auto
    ultimately show "?u ! n = ?v ! n" using n k(1,2) assms by simp
  qed
  moreover have "sublist ?u a" "sublist ?v b"
    by (meson sublist_drop sublist_take sublist_order.order.trans)+
  moreover have "length ?u = ?k" using k(1) assms(1) by simp
  ultimately show ?thesis by metis
qed

lemma sublist_common_suffix:
  assumes "sublist u a" "sublist u b" "u \<noteq> []"
  shows "\<exists>i<length a. \<exists>j<length b. length u \<le> common_suffix a b i j"
proof -
  obtain p s q t where ab: "a = p @ u @ s" "b = q @ u @ t"
    using assms(1,2) by (auto simp: sublist_def)
  define i j where "i = length p + length u - 1" "j = length q + length u - 1"
  have "length u \<le> common_suffix a b i j"
    unfolding common_suffix_iff
    using assms(3) by (auto simp: ab i_j_def nth_append Suc_le_eq)
  moreover have "0 < length u" using assms(3) by simp
  then have "i < length a" "j < length b" unfolding ab i_j_def length_append by linarith+
  ultimately show ?thesis by blast
qed


section \<open>Similar messages\<close>

record 'f similarity_settings =
  similarityEnabled :: bool
  hideSimilarMyself :: bool
  hideSimilarBySameUser :: bool
  hideSimilarMaxMessagesToCheck :: nat
  hideSimilarMaxDelay :: int
  similarityPercentage :: 'f
  colorSimilarDisabled :: bool

text \<open>\<open>QTime::secsTo\<close>: milliseconds are dropped, and there is no day in a \<open>QTime\<close>.\<close>

definition secsTo :: "int \<Rightarrow> int \<Rightarrow> int" where
  "secsTo from to = to div 1000 - from div 1000"

fun inMessages_loop ::
  "(int \<Rightarrow> int \<Rightarrow> 'f::{linorder, zero}) \<Rightarrow> 'f similarity_settings \<Rightarrow> int \<Rightarrow> 'c Message \<Rightarrow>
   'c Message list \<Rightarrow> 'f \<Rightarrow> 'f" where
  "inMessages_loop fdiv cfg currentTime msg [] similarityPercent = similarityPercent"
| "inMessages_loop fdiv cfg currentTime msg (prevMsg # rest) similarityPercent =
     (if secsTo (parseTime prevMsg) currentTime \<ge> hideSimilarMaxDelay cfg then similarityPercent
      else if hideSimilarBySameUser cfg \<and> loginName msg \<noteq> loginName prevMsg
      then inMessages_loop fdiv cfg currentTime msg rest similarityPercent
      else inMessages_loop fdiv cfg currentTime msg rest
             (max similarityPercent
               (relativeSimilarity fdiv (messageText msg) (messageText prevMsg))))"

definition inMessages ::
  "(int \<Rightarrow> int \<Rightarrow> 'f::{linorder, zero}) \<Rightarrow> 'f similarity_settings \<Rightarrow> int \<Rightarrow> 'c Message \<Rightarrow>
   'c Message list \<Rightarrow> 'f" where
  "inMessages fdiv cfg currentTime msg messages =
     inMessages_loop fdiv cfg currentTime msg
       (take (hideSimilarMaxMessagesToCheck cfg) (rev messages)) 0"

definition setSimilarityFlags ::
  "(int \<Rightarrow> int \<Rightarrow> 'f::{linorder, zero}) \<Rightarrow> 'f similarity_settings \<Rightarrow> int \<Rightarrow> string \<Rightarrow>
   MessagePtr \<Rightarrow> MessagePtr list \<Rightarrow> ('c, 'z) heap_scheme \<Rightarrow> ('c, 'z) heap_scheme" where
  "setSimilarityFlags fdiv cfg currentTime currentUser message messages w =
     (if similarityEnabled cfg
      then if loginName (deref w message) = currentUser \<and> \<not> hideSimilarMyself cfg then w
           else if inMessages fdiv cfg currentTime (deref w message) (map (deref w) messages) >
             similarityPercentage cfg
           then let w = set_message_flags message (flag_value Similar) w
                in if colorSimilarDisabled cfg
                   then set_message_flags message (flag_value Disabled) w else w
           else w
      else w)"

lemma similarity_table_lcs:
  "snd (similarity_table a b) = int (Max (length ` {u. sublist u a \<and> sublist u b}))"
proof -
  obtain tree z where tz: "similarity_table a b = (tree, z)" by fastforce
  have ok: "\<forall>i<length a. \<forall>j<length b. int (common_suffix a b i j) \<le> z"
    "z = 0 \<or> (\<exists>i<length a. \<exists>j<length b. z = int (common_suffix a b i j))" "0 \<le> z"
    using similarity_table_ok [of a b] unfolding tz table_ok_def by auto
  let ?U = "{u. sublist u a \<and> sublist u b}"
  have "finite {u. sublist u a}"
    by (simp add: set_sublists_eq [symmetric])
  then have fin: "finite (length ` ?U)" by auto
  have "nat z \<in> length ` ?U"
  proof (cases "z = 0")
    case True
    then show ?thesis by (intro image_eqI [of _ _ "[]"]) auto
  next
    case False
    with ok(2) obtain i j where ij: "i < length a" "j < length b" "nat z = common_suffix a b i j"
      by auto
    with common_suffix_sublist [OF ij(1,2)] show ?thesis by force
  qed
  moreover have "length u \<le> nat z" if u: "u \<in> ?U" for u
  proof (cases "u = []")
    case False
    with sublist_common_suffix [of u a b] u ok(1) show ?thesis by fastforce
  qed simp
  ultimately have "Max (length ` ?U) = nat z" using fin by (intro Max_eqI) auto
  then show ?thesis using ok(3) tz by simp
qed

section \<open>Properties\<close>

text \<open>
  C5. The table of \<open>relativeSimilarity\<close> finds the longest common substring: its maximum \<open>z\<close> is the
  length of some common substring of the two texts, and no common substring is longer.
\<close>

theorem similarity_is_longest_common_substring:
  "snd (similarity_table a b) = int (Max (length ` {u. sublist u a \<and> sublist u b}))"
  by (rule similarity_table_lcs)

text \<open>
  Similarity is symmetric, and for two equal texts that are not empty the numerator and the
  denominator of the quotient are both the length of the text.
\<close>

theorem similarity_symmetric_and_reflexive:
  "relativeSimilarity fdiv a b = relativeSimilarity fdiv b a \<and>
   relativeSimilarity fdiv (x # s) (x # s) = fdiv (int (length (x # s))) (int (length (x # s)))"
proof -
  have "{u. sublist u a \<and> sublist u b} = {u. sublist u b \<and> sublist u a}" by auto
  then have "relativeSimilarity fdiv a b = relativeSimilarity fdiv b a"
    by (simp add: relativeSimilarity_def similarity_table_lcs max.commute Let_def)
  moreover have "Max (length ` {u. sublist u (x # s)}) = length (x # s)"
  proof (rule Max_eqI)
    have "finite {u. sublist u (x # s)}"
      by (simp only: set_sublists_eq [symmetric] finite_set)
    then show "finite (length ` {u. sublist u (x # s)})" by simp
    show "length (x # s) \<in> length ` {u. sublist u (x # s)}" by (intro imageI) simp
    show "n \<le> length (x # s)" if "n \<in> length ` {u. sublist u (x # s)}" for n
      using that by (auto simp del: length_Cons dest: sublist_length_le)
  qed
  then have "snd (similarity_table (x # s) (x # s)) = int (length (x # s))"
    by (simp add: similarity_table_lcs)
  ultimately show ?thesis by (simp add: relativeSimilarity_def Let_def)
qed

lemma inMessages_loop_none:
  "\<forall>p\<in>set ps. hideSimilarMaxDelay cfg \<le> secsTo (parseTime p) t \<or>
     hideSimilarBySameUser cfg \<and> loginName p \<noteq> loginName msg \<Longrightarrow>
   inMessages_loop fdiv cfg t msg ps acc = acc"
  by (induction ps) auto

text \<open>
  Which messages count: a message is never flagged as similar on account of messages outside
  the last \<open>hideSimilarMaxMessagesToCheck\<close>, older than the delay, or, when so configured, of other
  users; if every message checked is one of those, the flags of all messages stay as they are.
\<close>

theorem similarity_ignores_old_and_foreign:
  assumes "\<forall>p\<in>set (lastN (hideSimilarMaxMessagesToCheck cfg) messages).
      hideSimilarMaxDelay cfg \<le> secsTo (parseTime (deref w p)) t \<or>
      hideSimilarBySameUser cfg \<and> loginName (deref w p) \<noteq> loginName (deref w message)"
    and "0 \<le> similarityPercentage cfg"
  shows "setSimilarityFlags fdiv cfg t me message messages w = w"
proof -
  have "set (take (hideSimilarMaxMessagesToCheck cfg) (rev (map (deref w) messages))) =
      deref w ` set (lastN (hideSimilarMaxMessagesToCheck cfg) messages)"
    by (simp add: lastN_def take_rev drop_map)
  then have "inMessages fdiv cfg t (deref w message) (map (deref w) messages) = 0"
    unfolding inMessages_def using assms(1) by (intro inMessages_loop_none) auto
  then show ?thesis using assms(2) by (auto simp: setSimilarityFlags_def)
qed

theorem similarity_ignores_old_and_foreign_witness:
  "let m = (new_message \<lparr>me_noColor = (), me_currentTime = 0\<rparr>)\<lparr>messageText := ''abc''\<rparr>;
       w = \<lparr>msgs = [m, m\<lparr>loginName := ''b''\<rparr>]\<rparr>;
       cfg = \<lparr>similarityEnabled = True, hideSimilarMyself = False, hideSimilarBySameUser = True,
         hideSimilarMaxMessagesToCheck = 3, hideSimilarMaxDelay = 5,
         similarityPercentage = 0 :: int, colorSimilarDisabled = True\<rparr>
   in setSimilarityFlags (\<lambda>z d. z) cfg 0 [] 1 [0] w = w"
  unfolding Let_def
  by (rule similarity_ignores_old_and_foreign)
    (simp_all add: lastN_def deref_def new_message_def)

end
