(* ===== verification/VectorMessageSink.thy ===== *)
theory VectorMessageSink
  imports Similarity FilterSample
begin

text \<open>
  \<open>util/VectorMessageSink.hpp\<close> and \<open>.cpp\<close>: the message sink that collects messages in a vector, used
  to parse the recent messages of a channel before they are inserted into it.

  The sink extends the shared messages by its vector, the flags it adds to its messages and its
  traits.  A failed \<open>assert\<close> is the result \<open>None\<close>.
\<close>

section \<open>State and operations\<close>

datatype MessageContext = Original | Repost

datatype MessageSinkTrait = NoTrait | AddMentionsToGlobalChannel | RequiresKnownChannelPointReward

record 'c VectorMessageSink = "'c heap" +
  vs_messages :: "MessagePtr list"
  vs_additionalFlags :: flag_set
  vs_traits :: "MessageSinkTrait set"

definition VectorMessageSink ::
  "MessageSinkTrait set \<Rightarrow> flag_set \<Rightarrow> 'c heap \<Rightarrow> 'c VectorMessageSink" where
  "VectorMessageSink traits additionalFlags h =
     \<lparr>msgs = msgs h, vs_messages = [], vs_additionalFlags = additionalFlags, vs_traits = traits\<rparr>"

definition vs_emplace_back :: "MessagePtr \<Rightarrow> 'c VectorMessageSink \<Rightarrow> 'c VectorMessageSink" where
  "vs_emplace_back p w = w\<lparr>vs_messages := vs_messages w @ [p]\<rparr>"

definition vs_addMessage ::
  "MessagePtr \<Rightarrow> MessageContext \<Rightarrow> flag_set option \<Rightarrow> 'c VectorMessageSink \<Rightarrow>
   'c VectorMessageSink option" where
  "vs_addMessage message ctx overridingFlags w =
     (if overridingFlags \<noteq> None \<or> ctx \<noteq> Original then None
      else Some (vs_emplace_back message
        (set_message_flags message (vs_additionalFlags w) w)))"

text \<open>The callback that replaces a message: the replacement gets the additional flags.\<close>

definition vs_replace ::
  "nat \<Rightarrow> MessagePtr \<Rightarrow> MessagePtr \<Rightarrow> 'c VectorMessageSink \<Rightarrow> 'c VectorMessageSink" where
  "vs_replace idx msg replacement w =
     (let w = set_message_flags replacement (vs_additionalFlags w) w
      in w\<lparr>vs_messages := (vs_messages w)[idx := replacement]\<rparr>)"

definition vs_addOrReplaceTimeout ::
  "'c qt_api \<Rightarrow> 'c message_env \<Rightarrow> TimeoutStackStyle \<Rightarrow> MessagePtr \<Rightarrow> int \<Rightarrow>
   'c VectorMessageSink \<Rightarrow> 'c VectorMessageSink" where
  "vs_addOrReplaceTimeout qt env style clearchatMessage now w =
     addOrReplaceChannelTimeout qt env style vs_messages clearchatMessage now vs_replace
       vs_emplace_back False w"

definition vs_addOrReplaceClearChat ::
  "'c qt_api \<Rightarrow> 'c message_env \<Rightarrow> TimeoutStackStyle \<Rightarrow> MessagePtr \<Rightarrow> int \<Rightarrow>
   'c VectorMessageSink \<Rightarrow> 'c VectorMessageSink" where
  "vs_addOrReplaceClearChat qt env style clearchatMessage now w =
     addOrReplaceChannelClear qt env style vs_messages clearchatMessage now vs_replace
       vs_emplace_back w"

definition vs_disableAllMessages :: "'c VectorMessageSink \<Rightarrow> 'c VectorMessageSink" where
  "vs_disableAllMessages w =
     (if has (vs_additionalFlags w) RecentMessage then w
      else fold (\<lambda>p. set_message_flags p (flag_value Disabled)) (vs_messages w) w)"

definition vs_applySimilarityFilters ::
  "(int \<Rightarrow> int \<Rightarrow> 'f::{linorder, zero}) \<Rightarrow> 'f similarity_settings \<Rightarrow> int \<Rightarrow> string \<Rightarrow>
   MessagePtr \<Rightarrow> 'c VectorMessageSink \<Rightarrow> 'c VectorMessageSink" where
  "vs_applySimilarityFilters fdiv cfg currentTime currentUser message w =
     setSimilarityFlags fdiv cfg currentTime currentUser message (vs_messages w) w"

definition vs_findMessageByID :: "string \<Rightarrow> 'c VectorMessageSink \<Rightarrow> MessagePtr option" where
  "vs_findMessageByID i w = List.find (\<lambda>p. msg_id (deref w p) = i) (rev (vs_messages w))"

definition vs_takeMessages :: "'c VectorMessageSink \<Rightarrow> MessagePtr list \<times> 'c VectorMessageSink" where
  "vs_takeMessages w = (vs_messages w, w\<lparr>vs_messages := []\<rparr>)"

section \<open>The interface\<close>

definition vs_good :: "'c VectorMessageSink \<Rightarrow> bool" where
  "vs_good w \<longleftrightarrow> distinct (vs_messages w) \<and> (\<forall>p\<in>set (vs_messages w). p < length (msgs w))"

lemma set_message_flags_simps [simp]:
  "vs_messages (set_message_flags p fs w) = vs_messages w"
  "vs_additionalFlags (set_message_flags p fs w) = vs_additionalFlags w"
  "length (msgs (set_message_flags p fs h)) = length (msgs h)"
  by (simp_all add: set_message_flags_def)

interpretation vs: message_sink vs_good vs_messages "\<lambda>w xs. xs" vs_replace vs_emplace_back
proof unfold_locales
  show "vs_good (vs_replace i (vs_messages w ! i) p w)"
    if "vs_good w" "i < length (vs_messages w)" "p < length (msgs w)" "p \<notin> set (vs_messages w)"
    for w :: "'c VectorMessageSink" and i p
    using that set_update_subset_insert [of "vs_messages w" i p]
    by (auto simp: vs_good_def vs_replace_def Let_def intro: distinct_list_update)
qed (auto simp: vs_good_def vs_replace_def vs_emplace_back_def Let_def)

section \<open>A concrete sink\<close>

definition timeout_message :: "string \<Rightarrow> MessageFlag list \<Rightarrow> int \<Rightarrow> unit Message" where
  "timeout_message user fs time =
     (new_message \<lparr>me_noColor = (), me_currentTime = 0\<rparr>)
       \<lparr>flags := flags_of fs, timeoutUser := user, serverReceivedTime := time,
        searchText := user @ '' has been timed out.''\<rparr>"

definition sample_sink :: "unit VectorMessageSink" where
  "sample_sink =
     \<lparr>msgs = [timeout_message ''a'' [Timeout] 1000, timeout_message ''a'' [Timeout] 2000],
      vs_messages = [0], vs_additionalFlags = flags_of [RecentMessage], vs_traits = {}\<rparr>"

section \<open>Properties\<close>

text \<open>
  Merging a timeout into the sink keeps its vector free of duplicates and dangling pointers,
  and changes it in one of three ways: not at all, by appending the timeout, or by replacing one
  of the last 20 messages, a timeout of the same user, not older than five seconds and of the same
  kind (shared or not).
\<close>

theorem vs_timeout_effect:
  assumes "vs_good w" "message < length (msgs w)" "message \<notin> set (vs_messages w)"
    and "w' = vs_addOrReplaceTimeout qt env style message now w"
  shows "vs_good w' \<and>
    (vs_messages w' \<in> {vs_messages w, vs_messages w @ [message]} \<or>
     (\<exists>i p. length (vs_messages w) - 20 \<le> i \<and> i < length (vs_messages w) \<and>
        same_timeout (now - 5000) (deref w message) (deref w (vs_messages w ! i)) \<and>
        p \<notin> set (vs_messages w) \<and> vs_messages w' = (vs_messages w)[i := p]))"
  using vs.timeout_effect [OF assms(1-3) refl assms(4) [unfolded vs_addOrReplaceTimeout_def]]
  by (simp add: vs.merged_def)

theorem vs_timeout_effect_witness:
  "vs_good (vs_addOrReplaceTimeout sample_qt \<lparr>me_noColor = (), me_currentTime = 0\<rparr> StackHard 1 2000
     sample_sink)"
proof -
  have "vs_good sample_sink" "1 < length (msgs sample_sink)" "1 \<notin> set (vs_messages sample_sink)"
    by (simp_all add: sample_sink_def vs_good_def)
  from vs_timeout_effect [OF this refl] show ?thesis by blast
qed

text \<open>
  The additional flags of the sink (\<open>RecentMessage\<close> for messages loaded from the history) are
  set on every message that goes through \<open>addMessage\<close> and on every merged timeout, but not on a
  timeout that is appended because there was none to merge it into.
\<close>

theorem vs_appended_timeout_lacks_flags:
  assumes "vs_messages w = []" "message < length (msgs w)"
  shows "(let w' = vs_addOrReplaceTimeout qt env style message now w
     in vs_messages w' = [message] \<and> flags (deref w' message) = flags (deref w message)) \<and>
    (case vs_addMessage message Original None w of None \<Rightarrow> False | Some w' \<Rightarrow>
      vs_messages w' = [message] \<and>
      flags (deref w' message) = flags_set (flags (deref w message)) (vs_additionalFlags w))"
  using assms
  by (simp_all add: vs_addOrReplaceTimeout_def addOrReplaceChannelTimeout_def vs_emplace_back_def
      vs_addMessage_def set_message_flags_def deref_def Let_def)

theorem vs_appended_timeout_lacks_flags_witness:
  "let w = sample_sink\<lparr>vs_messages := []\<rparr>;
       w' = vs_addOrReplaceTimeout sample_qt \<lparr>me_noColor = (), me_currentTime = 0\<rparr> StackHard 1 2000 w
   in vs_messages w' = [1] \<and> \<not> has (flags (deref w' 1)) RecentMessage"
proof -
  have "vs_messages (sample_sink\<lparr>vs_messages := []\<rparr>) = []"
    "1 < length (msgs (sample_sink\<lparr>vs_messages := []\<rparr>))"
    by (simp_all add: sample_sink_def)
  from vs_appended_timeout_lacks_flags [OF this, of sample_qt _ StackHard 2000]
  have "vs_messages (vs_addOrReplaceTimeout sample_qt env StackHard 1 2000
      (sample_sink\<lparr>vs_messages := []\<rparr>)) = [1] \<and>
    flags (deref (vs_addOrReplaceTimeout sample_qt env StackHard 1 2000
      (sample_sink\<lparr>vs_messages := []\<rparr>)) 1) = flags (deref (sample_sink\<lparr>vs_messages := []\<rparr>) 1)" for env
    by (simp add: Let_def)
  moreover have "\<not> has (flags (deref (sample_sink\<lparr>vs_messages := []\<rparr>) 1)) RecentMessage"
    by (simp add: sample_sink_def deref_def timeout_message_def has_iff_bit bit_flags_of)
  ultimately show ?thesis by (simp add: Let_def)
qed

end
