(* ===== verification/Channel.thy ===== *)
theory Channel
  imports VectorMessageSink LimitedQueue
begin

text \<open>
  \<open>common/Channel.hpp\<close> and \<open>Channel.cpp\<close>: a channel with its bounded buffer of messages.

  The channel extends the shared messages by its fields.  A signal that is invoked is appended to
  \<open>ch_signals\<close>, a call of the chat logger to \<open>ch_logged\<close>.  Reading the front of an empty container,
  which only a buffer of limit 0 could do, sets \<open>ch_faulted\<close>; the invariant excludes it.
\<close>

section \<open>State\<close>

datatype ChannelType =
    NoneType | Direct | Twitch | TwitchWhispers | TwitchWatching | TwitchMentions | TwitchLive
  | TwitchAutomod | TwitchEnd | Misc

fun channel_type_value :: "ChannelType \<Rightarrow> nat" where
  "channel_type_value NoneType = 0" | "channel_type_value Direct = 1"
| "channel_type_value Twitch = 2" | "channel_type_value TwitchWhispers = 3"
| "channel_type_value TwitchWatching = 4" | "channel_type_value TwitchMentions = 5"
| "channel_type_value TwitchLive = 6" | "channel_type_value TwitchAutomod = 7"
| "channel_type_value TwitchEnd = 8" | "channel_type_value Misc = 9"

instantiation ChannelType :: linorder
begin

definition less_eq_ChannelType :: "ChannelType \<Rightarrow> ChannelType \<Rightarrow> bool" where
  "s \<le> t \<longleftrightarrow> channel_type_value s \<le> channel_type_value t"

definition less_ChannelType :: "ChannelType \<Rightarrow> ChannelType \<Rightarrow> bool" where
  "s < t \<longleftrightarrow> channel_type_value s < channel_type_value t"

instance
proof
  show "s = t" if "s \<le> t" "t \<le> s" for s t :: ChannelType
    using that by (cases s; cases t) (simp_all add: less_eq_ChannelType_def)
qed (auto simp: less_eq_ChannelType_def less_ChannelType_def)

end

datatype ChannelSignal =
    MessageAppended MessagePtr "flag_set option"
  | MessageRemovedFromStart MessagePtr
  | MessagesAddedAtStart "MessagePtr list"
  | MessageReplaced nat MessagePtr MessagePtr
  | FilledInMessages "MessagePtr list"
  | MessagesCleared

record 'c Channel = "'c heap" +
  ch_name :: string
  ch_type :: ChannelType
  ch_platform :: string
  ch_messages :: "MessagePtr LimitedQueue"
  ch_anythingLogged :: bool
  ch_logged :: "(string \<times> MessagePtr \<times> string \<times> string) list"
  ch_signals :: "ChannelSignal list"
  ch_faulted :: bool

definition isTwitchChannel :: "'c Channel \<Rightarrow> bool" where
  "isTwitchChannel w = (ch_type w \<ge> Twitch \<and> ch_type w < TwitchEnd)"

definition Channel ::
  "MessagePtr circular_buffer \<Rightarrow> nat \<Rightarrow> string \<Rightarrow> ChannelType \<Rightarrow> 'c heap \<Rightarrow> 'c Channel" where
  "Channel cb scrollbackSplitLimit name type h =
     (let w = \<lparr>msgs = msgs h, ch_name = name, ch_type = type, ch_platform = ''other'',
               ch_messages = LimitedQueue cb scrollbackSplitLimit, ch_anythingLogged = False,
               ch_logged = [], ch_signals = [], ch_faulted = False\<rparr>
      in if isTwitchChannel w then w\<lparr>ch_platform := ''twitch''\<rparr> else w)"

section \<open>Operations\<close>

definition emit :: "ChannelSignal \<Rightarrow> 'c Channel \<Rightarrow> 'c Channel" where
  "emit s w = w\<lparr>ch_signals := ch_signals w @ [s]\<rparr>"

definition ch_isEmpty :: "'c Channel \<Rightarrow> bool" where
  "ch_isEmpty w = (ch_name w = [])"

definition hasMessages :: "'c Channel \<Rightarrow> bool" where
  "hasMessages w = (\<not> lq_empty (ch_messages w))"

definition getMessageSnapshot :: "'c Channel \<Rightarrow> MessagePtr list" where
  "getMessageSnapshot w = getSnapshot (ch_messages w)"

text \<open>The stream id of a plain channel is the empty string.\<close>

definition ch_addMessage ::
  "MessagePtr \<Rightarrow> MessageContext \<Rightarrow> flag_set option \<Rightarrow> 'c Channel \<Rightarrow> 'c Channel" where
  "ch_addMessage message ctx overridingFlags w =
     (let isDoNotLogSet =
            ((case overridingFlags of Some fs \<Rightarrow> has fs DoNotLog | None \<Rightarrow> False) \<or>
             has (flags (deref w message)) DoNotLog);
          w = (if ctx = Original \<and> \<not> isDoNotLogSet
               then w\<lparr>ch_logged := ch_logged w @ [(ch_name w, message, ch_platform w, [])],
                      ch_anythingLogged := True\<rparr>
               else w)
      in case pushBack_deleted (ch_messages w) message 0 of
           None \<Rightarrow> w\<lparr>ch_faulted := True\<rparr>
         | Some (q, removed, deleted) \<Rightarrow>
             let w = w\<lparr>ch_messages := q\<rparr>;
                 w = (if removed then emit (MessageRemovedFromStart deleted) w else w)
             in emit (MessageAppended message overridingFlags) w)"

definition ch_replaceMessage :: "MessagePtr \<Rightarrow> MessagePtr \<Rightarrow> 'c Channel \<Rightarrow> 'c Channel" where
  "ch_replaceMessage message replacement w =
     (let (q, index) = replaceItem (=) (ch_messages w) message replacement;
          w = w\<lparr>ch_messages := q\<rparr>
      in if index \<ge> 0 then emit (MessageReplaced (nat index) message replacement) w else w)"

definition ch_replaceMessage_at :: "nat \<Rightarrow> MessagePtr \<Rightarrow> 'c Channel \<Rightarrow> 'c Channel" where
  "ch_replaceMessage_at index replacement w =
     (case replaceItem_at (ch_messages w) index replacement of
        (q, True, Some prev) \<Rightarrow> emit (MessageReplaced index prev replacement) (w\<lparr>ch_messages := q\<rparr>)
      | (q, _, _) \<Rightarrow> w\<lparr>ch_messages := q\<rparr>)"

definition ch_replaceMessage_hint ::
  "nat \<Rightarrow> MessagePtr \<Rightarrow> MessagePtr \<Rightarrow> 'c Channel \<Rightarrow> 'c Channel" where
  "ch_replaceMessage_hint hint message replacement w =
     (let (q, index) = replaceItem_hint (ch_messages w) hint message replacement;
          w = w\<lparr>ch_messages := q\<rparr>
      in if index \<ge> 0 then emit (MessageReplaced hint message replacement) w else w)"

text \<open>The snapshot is taken before the call, so the helpers read a constant.\<close>

definition ch_addOrReplaceTimeout ::
  "'c qt_api \<Rightarrow> 'c message_env \<Rightarrow> TimeoutStackStyle \<Rightarrow> MessagePtr \<Rightarrow> int \<Rightarrow> 'c Channel \<Rightarrow>
   'c Channel" where
  "ch_addOrReplaceTimeout qt env style message now w =
     addOrReplaceChannelTimeout qt env style (\<lambda>_. getMessageSnapshot w) message now
       (\<lambda>idx. ch_replaceMessage) (\<lambda>m. ch_addMessage m Original None) True w"

definition ch_addOrReplaceClearChat ::
  "'c qt_api \<Rightarrow> 'c message_env \<Rightarrow> TimeoutStackStyle \<Rightarrow> MessagePtr \<Rightarrow> int \<Rightarrow> 'c Channel \<Rightarrow>
   'c Channel" where
  "ch_addOrReplaceClearChat qt env style message now w =
     addOrReplaceChannelClear qt env style (\<lambda>_. getMessageSnapshot w) message now
       (\<lambda>idx. ch_replaceMessage) (\<lambda>m. ch_addMessage m Original None) w"

definition ch_disable_unless_special :: "MessagePtr \<Rightarrow> 'c Channel \<Rightarrow> 'c Channel" where
  "ch_disable_unless_special p w =
     (if hasAny (flags (deref w p)) (flags_of [System, Timeout, Whisper]) then w
      else set_message_flags p (flag_value Disabled) w)"

definition ch_disableAllMessages :: "'c Channel \<Rightarrow> 'c Channel" where
  "ch_disableAllMessages w = fold ch_disable_unless_special (getMessageSnapshot w) w"

definition ch_addMessagesAtStart :: "MessagePtr list \<Rightarrow> 'c Channel \<Rightarrow> 'c Channel" where
  "ch_addMessagesAtStart messages w =
     (let (q, addedMessages) = pushFront (ch_messages w) messages;
          w = w\<lparr>ch_messages := q\<rparr>
      in if length addedMessages \<noteq> 0 then emit (MessagesAddedAtStart addedMessages) w else w)"

definition existingMessageIds :: "'c Channel \<Rightarrow> MessagePtr list \<Rightarrow> string set" where
  "existingMessageIds w snapshot =
     (msg_id \<circ> deref w) ` set (filter (\<lambda>p. \<not> (has (flags (deref w p)) System \<or>
       msg_id (deref w p) = [])) snapshot)"

text \<open>One round of the loop over the messages: the channel, \<open>anyInserted\<close> and \<open>lastMsg\<close>.\<close>

definition fill_step ::
  "string set \<Rightarrow> MessagePtr list \<Rightarrow> MessagePtr \<Rightarrow> 'c Channel \<times> bool \<times> MessagePtr \<Rightarrow>
   'c Channel \<times> bool \<times> MessagePtr" where
  "fill_step existing snapshot msg = (\<lambda>(w, anyInserted, lastMsg).
     if msg_id (deref w msg) \<in> existing then (w, anyInserted, lastMsg)
     else case List.find (\<lambda>s. \<not> has (flags (deref w s)) System \<and>
              serverReceivedTime (deref w msg) < serverReceivedTime (deref w s)) snapshot of
            Some s \<Rightarrow>
              (w\<lparr>ch_messages := fst (insertBefore (=) (ch_messages w) s msg)\<rparr>, True, lastMsg)
          | None \<Rightarrow>
              (w\<lparr>ch_messages := fst (insertAfter (=) (ch_messages w) lastMsg msg)\<rparr>, True, msg))"

definition ch_fillInMissingMessages :: "MessagePtr list \<Rightarrow> 'c Channel \<Rightarrow> 'c Channel" where
  "ch_fillInMissingMessages messages w =
     (if messages = [] then w
      else let snapshot = getMessageSnapshot w
           in if length snapshot = 0
              then emit (FilledInMessages messages)
                     (w\<lparr>ch_messages := fst (pushFront (ch_messages w) messages)\<rparr>)
              else let (w', anyInserted, lastMsg) =
                         fold (fill_step (existingMessageIds w snapshot) snapshot) messages
                           (w, False, last snapshot)
                   in if anyInserted then emit (FilledInMessages messages) w' else w')"

definition ch_findMessageByID :: "string \<Rightarrow> 'c Channel \<Rightarrow> MessagePtr option" where
  "ch_findMessageByID messageID w =
     lq_rfind (ch_messages w) (\<lambda>p. msg_id (deref w p) = messageID)"

definition ch_disableMessage :: "string \<Rightarrow> 'c Channel \<Rightarrow> 'c Channel" where
  "ch_disableMessage messageID w =
     (case ch_findMessageByID messageID w of
        Some p \<Rightarrow> set_message_flags p (flag_value Disabled) w
      | None \<Rightarrow> w)"

definition ch_clearMessages :: "'c Channel \<Rightarrow> 'c Channel" where
  "ch_clearMessages w = emit MessagesCleared (w\<lparr>ch_messages := lq_clear (ch_messages w)\<rparr>)"

definition ch_applySimilarityFilters ::
  "(int \<Rightarrow> int \<Rightarrow> 'f::{linorder, zero}) \<Rightarrow> 'f similarity_settings \<Rightarrow> int \<Rightarrow> string \<Rightarrow>
   MessagePtr \<Rightarrow> 'c Channel \<Rightarrow> 'c Channel" where
  "ch_applySimilarityFilters fdiv cfg currentTime currentUser message w =
     setSimilarityFlags fdiv cfg currentTime currentUser message (getMessageSnapshot w) w"

definition ch_sinkTraits :: "MessageSinkTrait set" where
  "ch_sinkTraits = {AddMentionsToGlobalChannel, RequiresKnownChannelPointReward}"

definition isWritable :: "'c Channel \<Rightarrow> bool" where
  "isWritable w =
     (ch_type w \<noteq> TwitchMentions \<and> ch_type w \<noteq> TwitchLive \<and> ch_type w \<noteq> TwitchAutomod)"

definition shouldIgnoreHighlights :: "'c Channel \<Rightarrow> bool" where
  "shouldIgnoreHighlights w =
     (ch_type w = TwitchAutomod \<or> ch_type w = TwitchMentions \<or> ch_type w = TwitchWhispers)"

section \<open>Invariant and interface\<close>

abbreviation ch_contents :: "'c Channel \<Rightarrow> MessagePtr list" where
  "ch_contents w \<equiv> lq_buffer (ch_messages w)"

definition ch_good :: "'c Channel \<Rightarrow> bool" where
  "ch_good w \<longleftrightarrow>
     lq_wf (ch_messages w) \<and> 0 < lq_limit (ch_messages w) \<and>
     int (lq_limit (ch_messages w)) \<le> int_max \<and> \<not> ch_faulted w \<and>
     distinct (ch_contents w) \<and> (\<forall>p\<in>set (ch_contents w). p < length (msgs w))"

lemma emit_simps [simp]:
  "ch_messages (emit s w) = ch_messages w" "msgs (emit s w) = msgs w"
  "ch_faulted (emit s w) = ch_faulted w" "ch_name (emit s w) = ch_name w"
  "ch_platform (emit s w) = ch_platform w" "ch_logged (emit s w) = ch_logged w"
  "ch_anythingLogged (emit s w) = ch_anythingLogged w"
  "ch_signals (emit s w) = ch_signals w @ [s]"
  by (simp_all add: emit_def)

lemma pushBack_deleted_good:
  assumes "lq_wf q" "0 < lq_limit q"
  shows "pushBack_deleted q x d =
    Some (q\<lparr>lq_buffer := lastN (lq_limit q) (lq_buffer q @ [x])\<rparr>,
          length (lq_buffer q) = lq_limit q,
          if length (lq_buffer q) = lq_limit q then hd (lq_buffer q) else d)"
  using assms by (cases "lq_buffer q")
    (auto simp: pushBack_deleted_def lq_wf_def container_simps Let_def)

lemma ch_addMessage_good:
  assumes "lq_wf (ch_messages w)" "0 < lq_limit (ch_messages w)"
  shows "ch_messages (ch_addMessage p ctx fs w) =
      (ch_messages w)\<lparr>lq_buffer := lastN (lq_limit (ch_messages w)) (ch_contents w @ [p])\<rparr>"
    and "msgs (ch_addMessage p ctx fs w) = msgs w"
    and "ch_faulted (ch_addMessage p ctx fs w) = ch_faulted w"
    and "ch_signals (ch_addMessage p ctx fs w) = ch_signals w @
      (if length (ch_contents w) = lq_limit (ch_messages w)
       then [MessageRemovedFromStart (hd (ch_contents w))] else []) @ [MessageAppended p fs]"
  using assms by (simp_all add: ch_addMessage_def pushBack_deleted_good Let_def)

lemma first_index_nth:
  assumes "distinct xs" "i < length xs"
  shows "first_index (\<lambda>x. x = xs ! i) xs = Some i"
  using assms by (auto simp: first_index_Some_iff nth_eq_iff_index_eq)

lemma ch_replaceMessage_good:
  assumes "ch_good w" "i < length (ch_contents w)"
  shows "ch_replaceMessage (ch_contents w ! i) p w =
    emit (MessageReplaced i (ch_contents w ! i) p)
      (w\<lparr>ch_messages := (ch_messages w)\<lparr>lq_buffer := (ch_contents w)[i := p]\<rparr>\<rparr>)"
proof -
  have "cast_int (int i) = int i"
    using assms by (intro cast_int_id)
      (auto simp: ch_good_def lq_wf_def in_int_range_def int_min_def int_max_def)
  then show ?thesis
    using assms by (simp add: ch_replaceMessage_def replaceItem_def first_index_nth ch_good_def)
qed

lemma distinct_lastN: "distinct xs \<Longrightarrow> distinct (lastN n xs)"
  by (simp add: lastN_def)

interpretation ch: message_sink ch_good ch_contents
  "\<lambda>w. lastN (lq_limit (ch_messages w))" "\<lambda>idx. ch_replaceMessage"
  "\<lambda>m. ch_addMessage m Original None"
proof unfold_locales
  fix w :: "'a Channel" and i p q
  show "lastN (lq_limit (ch_messages (ch_replaceMessage q p w))) = lastN (lq_limit (ch_messages w))"
    by (simp add: ch_replaceMessage_def replaceItem_def Let_def split: option.split)
  assume w: "ch_good w"
  show "lq_buffer (ch_messages (ch_addMessage p Original None w)) =
      lastN (lq_limit (ch_messages w)) (ch_contents w @ [p])"
    using w by (simp add: ch_good_def ch_addMessage_good)
  show "ch_good (ch_addMessage p Original None w)"
    if "p < length (msgs w)" "p \<notin> set (ch_contents w)"
  proof -
    have "distinct (ch_contents w @ [p])" "\<forall>q\<in>set (ch_contents w @ [p]). q < length (msgs w)"
      using w that by (auto simp: ch_good_def)
    then show ?thesis
      using w set_lastN_subset [of "lq_limit (ch_messages w)" "ch_contents w @ [p]"]
      by (auto simp: ch_good_def ch_addMessage_good lq_wf_def distinct_lastN length_lastN
          simp del: distinct_append)
  qed
  assume i: "i < length (ch_contents w)"
  then show "lq_buffer (ch_messages (ch_replaceMessage (ch_contents w ! i) p w)) =
      (ch_contents w)[i := p]"
    using w by (simp add: ch_replaceMessage_good)
  show "ch_good (ch_replaceMessage (ch_contents w ! i) p w)"
    if "p < length (msgs w)" "p \<notin> set (ch_contents w)"
    using w i that set_update_subset_insert [of "ch_contents w" i p]
    by (auto simp: ch_replaceMessage_good) (auto simp: ch_good_def lq_wf_def intro: distinct_list_update)
qed (auto simp: ch_good_def)

end
