(* ===== verification/ChannelProps.thy ===== *)
theory ChannelProps
  imports Channel
begin

text \<open>
  What a channel promises about its buffer, its signals and the flags of its messages, and where
  it does not keep the promise.
\<close>

section \<open>A concrete channel\<close>

definition sample_env :: "unit message_env" where
  "sample_env = \<lparr>me_noColor = (), me_currentTime = 0\<rparr>"

definition chat_message :: "string \<Rightarrow> string \<Rightarrow> MessageFlag list \<Rightarrow> int \<Rightarrow> unit Message" where
  "chat_message i user fs time =
     (new_message sample_env)
       \<lparr>msg_id := i, loginName := user, flags := flags_of fs, serverReceivedTime := time\<rparr>"

definition sample_channel :: "unit Message list \<Rightarrow> MessagePtr list \<Rightarrow> unit Channel" where
  "sample_channel ms ps =
     (Channel list_circular_buffer 4 ''forsen'' Twitch \<lparr>msgs = ms\<rparr>)
       \<lparr>ch_messages := (LimitedQueue list_circular_buffer 4)\<lparr>lq_buffer := ps\<rparr>\<rparr>"

lemma sample_channel_simps [simp]:
  "msgs (sample_channel ms ps) = ms" "ch_contents (sample_channel ms ps) = ps"
  "lq_limit (ch_messages (sample_channel ms ps)) = 4" "ch_signals (sample_channel ms ps) = []"
  "deref (sample_channel ms ps) p = ms ! p"
  by (simp_all add: sample_channel_def Channel_def LimitedQueue_def deref_def Let_def)

lemma sample_channel_good:
  assumes "length ps \<le> 4" "distinct ps" "\<forall>p\<in>set ps. p < length ms"
  shows "ch_good (sample_channel ms ps)"
  using assms
  by (auto simp: ch_good_def sample_channel_def Channel_def LimitedQueue_def lq_wf_def Let_def
      list_circular_buffer_laws int_max_def)

section \<open>Adding and replacing\<close>

text \<open>
  C7. Adding a message keeps the channel well-formed, leaves the newest messages up to the limit,
  and signals first the evicted message, exactly when the buffer was full, and then the new one;
  the message is handed to the chat logger exactly when it is an original and neither it nor the
  overriding flags say \<open>DoNotLog\<close>.
\<close>

theorem ch_addMessage_effect:
  assumes "ch_good w" "p < length (msgs w)" "p \<notin> set (ch_contents w)"
  shows "let w' = ch_addMessage p ctx overriding w in
    lq_wf (ch_messages w') \<and> \<not> ch_faulted w' \<and>
    ch_contents w' = lastN (lq_limit (ch_messages w)) (ch_contents w @ [p]) \<and>
    ch_signals w' = ch_signals w @
      (if length (ch_contents w) = lq_limit (ch_messages w)
       then [MessageRemovedFromStart (hd (ch_contents w))] else []) @ [MessageAppended p overriding] \<and>
    ch_logged w' = ch_logged w @
      (if ctx = Original \<and> \<not> has (flags (deref w p)) DoNotLog \<and>
          (case overriding of None \<Rightarrow> True | Some fs \<Rightarrow> \<not> has fs DoNotLog)
       then [(ch_name w, p, ch_platform w, [])] else [])"
proof -
  have wf: "lq_wf (ch_messages w)" "0 < lq_limit (ch_messages w)" "\<not> ch_faulted w"
    using assms(1) by (auto simp: ch_good_def)
  then have "ch_logged (ch_addMessage p ctx overriding w) = ch_logged w @
      (if ctx = Original \<and> \<not> has (flags (deref w p)) DoNotLog \<and>
          (case overriding of None \<Rightarrow> True | Some fs \<Rightarrow> \<not> has fs DoNotLog)
       then [(ch_name w, p, ch_platform w, [])] else [])"
    by (auto simp: ch_addMessage_def pushBack_deleted_good Let_def split: option.split)
  with wf show ?thesis
    by (simp add: ch_addMessage_good Let_def) (simp add: lq_wf_def)
qed

theorem ch_addMessage_effect_witness:
  "let w = sample_channel (replicate 5 (chat_message [] ''a'' [] 0)) [0, 1, 2, 3];
       w' = ch_addMessage 4 Original None w
   in ch_contents w' = [1, 2, 3, 4] \<and>
      ch_signals w' = [MessageRemovedFromStart 0, MessageAppended 4 None]"
proof -
  let ?w = "sample_channel (replicate 5 (chat_message [] ''a'' [] 0)) [0, 1, 2, 3]"
  have "ch_good ?w" by (rule sample_channel_good) auto
  from ch_addMessage_effect [OF this, of 4 Original None] show ?thesis
    by (simp add: Let_def lastN_def)
qed

text \<open>
  Merging a timeout into a channel keeps the channel well-formed and changes the buffer in one
  of three ways: not at all, by appending the timeout (evicting the oldest message when full), or
  by replacing one of the last 20 messages, which is a timeout of the same user, of the same kind
  and at most five seconds old.  In particular no message is ever lost to a merge but that one.
\<close>

theorem ch_timeout_effect:
  assumes "ch_good w" "message < length (msgs w)" "message \<notin> set (ch_contents w)"
    and "w' = ch_addOrReplaceTimeout qt env style message now w"
  shows "ch_good w' \<and>
    (ch_contents w' \<in> {ch_contents w, lastN (lq_limit (ch_messages w)) (ch_contents w @ [message])} \<or>
     (\<exists>i p. length (ch_contents w) - 20 \<le> i \<and> i < length (ch_contents w) \<and>
        same_timeout (now - 5000) (deref w message) (deref w (ch_contents w ! i)) \<and>
        p \<notin> set (ch_contents w) \<and> ch_contents w' = (ch_contents w)[i := p]))"
  using ch.timeout_effect [OF assms(1-3) _ assms(4) [unfolded ch_addOrReplaceTimeout_def]]
  by (simp add: ch.merged_def getMessageSnapshot_def getSnapshot_def)

theorem ch_timeout_effect_witness:
  "ch_good (ch_addOrReplaceTimeout sample_qt sample_env StackHard 1 2000
     (sample_channel [timeout_message ''a'' [Timeout] 1000, timeout_message ''a'' [Timeout] 2000] [0]))"
proof -
  let ?w = "sample_channel [timeout_message ''a'' [Timeout] 1000, timeout_message ''a'' [Timeout] 2000] [0]"
  have "ch_good ?w" by (rule sample_channel_good) auto
  from ch_timeout_effect [OF this _ _ refl, of 1] show ?thesis by simp
qed

section \<open>Disabling the messages of a user\<close>

text \<open>Whether the message \<open>s\<close> is disabled by a timeout of \<open>user\<close>.\<close>

definition disabled_by :: "string \<Rightarrow> 'c Message \<Rightarrow> bool" where
  "disabled_by user s \<longleftrightarrow>
     loginName s = user \<and> hasNone (flags s) (flags_of [Timeout, Untimeout, Whisper])"

definition disable :: "'c Message \<Rightarrow> 'c Message" where
  "disable s = s\<lparr>flags := flags_set (flags s) (flag_value Disabled)\<rparr>"

lemma disabled_by_disable [simp]: "disabled_by user (disable s) = disabled_by user s"
  by (simp add: disabled_by_def disable_def hasNone_flags_of has_flags_set_flag)

lemma disable_disable [simp]: "disable (disable s) = disable s"
  by (simp add: disable_def flags_set_def or.assoc)

lemma deref_disable_step:
  assumes "buffer w ! i < length (msgs w)"
  shows "deref (disable_step buffer message i w) q =
    (if q = buffer w ! i \<and> disabled_by (timeoutUser (deref w message)) (deref w q)
     then disable (deref w q) else deref w q)"
  using assms
  by (cases "q = buffer w ! i")
    (simp_all add: disable_step_def disabled_by_def disable_def set_message_flags_def deref_def Let_def)

lemma timeoutUser_disable [simp]: "timeoutUser (disable s) = timeoutUser s"
  by (simp add: disable_def)

lemma deref_disable_fold:
  assumes "\<forall>i\<in>set is. snap ! i < length (msgs w)"
  shows "deref (fold (disable_step (\<lambda>_. snap) message) is w) q =
    (if q \<in> (!) snap ` set is \<and> disabled_by (timeoutUser (deref w message)) (deref w q)
     then disable (deref w q) else deref w q)"
  using assms
proof (induction "is" arbitrary: w)
  case (Cons i "is")
  let ?w = "disable_step (\<lambda>_. snap) message i w"
  have deref: "deref ?w r =
      (if r = snap ! i \<and> disabled_by (timeoutUser (deref w message)) (deref w r)
       then disable (deref w r) else deref w r)" for r
    using Cons.prems by (intro deref_disable_step) simp
  moreover have "length (msgs ?w) = length (msgs w)"
    using disable_step_msgs [of "\<lambda>_. snap" message i w] same_but_flags_length by fastforce
  ultimately show ?case
    using Cons by (auto simp: deref)
qed simp

lemma replaceMessage_msgs [simp]: "msgs (ch_replaceMessage p q w) = msgs w"
  by (auto simp: ch_replaceMessage_def replaceItem_def Let_def split: option.split)

lemma timeout_loop_deref:
  assumes "timeout_loop qt env style t buffer (\<lambda>idx. ch_replaceMessage) message is w = (w', b)"
  shows "\<exists>ms. msgs w' = msgs w @ ms"
  using timeout_loop_outcome [OF assms] by auto

text \<open>
  C6. A timeout disables exactly the messages of the timed-out user that are in the channel when it
  arrives and are no timeout, untimeout or whisper themselves; every other existing message keeps
  all its fields and flags, and a disabled one changes in that flag only.
\<close>

theorem ch_timeout_disables:
  assumes "ch_good w" "message < length (msgs w)" "p < length (msgs w)"
    and "w' = ch_addOrReplaceTimeout qt env style message now w"
  shows "deref w' p =
    (if p \<in> set (ch_contents w) \<and> disabled_by (timeoutUser (deref w message)) (deref w p)
     then disable (deref w p) else deref w p)"
proof -
  let ?snap = "ch_contents w"
  obtain w1 b where loop: "timeout_loop qt env style (now - 5000) (\<lambda>_. ?snap)
      (\<lambda>idx. ch_replaceMessage) message (rev [length ?snap - 20..<length ?snap]) w = (w1, b)"
    by fastforce
  from timeout_loop_deref [OF loop] obtain ms where ms: "msgs w1 = msgs w @ ms" by blast
  then have old: "deref w1 q = deref w q" if "q < length (msgs w)" for q
    using that by (simp add: deref_def nth_append)
  have range: "\<forall>i\<in>set [0..<length ?snap]. ?snap ! i < length (msgs w1)"
    using assms(1) ms by (auto simp: ch_good_def intro!: trans_less_add1)
  define w2 where "w2 = fold (disable_step (\<lambda>_. ?snap) message) [0..<length ?snap] w1"
  have w2: "deref w2 p =
      (if p \<in> set ?snap \<and> disabled_by (timeoutUser (deref w message)) (deref w p)
       then disable (deref w p) else deref w p)"
    unfolding w2_def deref_disable_fold [OF range] list.set_map [symmetric] map_nth
    by (simp add: old assms(2,3))
  have "w' = (if b then ch_addMessage message Original None w2 else w2)"
    using loop assms(4)
    by (simp add: ch_addOrReplaceTimeout_def addOrReplaceChannelTimeout_def w2_def
        getMessageSnapshot_def getSnapshot_def Let_def)
  moreover have "msgs (ch_addMessage message Original None w2) = msgs w2"
    by (auto simp: ch_addMessage_def Let_def emit_def split: option.split)
  ultimately show ?thesis using w2 by (auto simp: deref_def)
qed

theorem ch_timeout_disables_witness:
  "let w = sample_channel [chat_message ''1'' ''a'' [] 0, timeout_message ''a'' [Timeout] 2000] [0]
   in deref (ch_addOrReplaceTimeout sample_qt sample_env StackHard 1 2000 w) 0 =
      disable (chat_message ''1'' ''a'' [] 0)"
proof -
  let ?w = "sample_channel [chat_message ''1'' ''a'' [] 0, timeout_message ''a'' [Timeout] 2000] [0]"
  have "ch_good ?w" by (rule sample_channel_good) auto
  moreover have "disabled_by ''a'' (chat_message ''1'' ''a'' [] 0)"
    by (simp add: disabled_by_def chat_message_def hasNone_flags_of has_iff_bit bit_flags_of)
  ultimately show ?thesis
    using ch_timeout_disables [of ?w 1 0 _ sample_qt sample_env StackHard 2000, OF _ _ _ refl]
    by (simp add: Let_def timeout_message_def)
qed

section \<open>Filling in missing messages\<close>

text \<open>
  The lists: \<open>fill_list\<close> is the loop on the buffer as a list.  Room for all messages is assumed, so
  that the container never evicts.
\<close>

lemma insertBefore_room:
  assumes "lq_wf q" "length (lq_buffer q) < lq_limit q" "distinct (lq_buffer q)"
    and "lq_buffer q = xs @ s # ys"
  shows "fst (insertBefore (=) q s x) = q\<lparr>lq_buffer := xs @ x # s # ys\<rparr>"
proof -
  have "first_index (\<lambda>y. y = s) (lq_buffer q) = Some (length xs)"
    using assms(3,4) by (auto simp: first_index_Some_iff nth_append)
  then show ?thesis
    using assms(1,2) by (simp add: insertBefore_def lq_wf_def cb_insert_space assms(4))
qed

lemma insertAfter_last:
  assumes "lq_wf q" "length (lq_buffer q) < lq_limit q" "distinct (lq_buffer q)"
    and "lq_buffer q \<noteq> []"
  shows "fst (insertAfter (=) q (last (lq_buffer q)) x) = q\<lparr>lq_buffer := lq_buffer q @ [x]\<rparr>"
proof -
  have "first_index (\<lambda>y. y = last (lq_buffer q)) (lq_buffer q) = Some (length (lq_buffer q) - 1)"
    using first_index_nth [OF assms(3), of "length (lq_buffer q) - 1"] assms(4)
    by (simp add: last_conv_nth)
  then show ?thesis
    using assms by (simp add: insertAfter_def lq_wf_def cb_insert_space)
qed

text \<open>
  The invariant of the loop: \<open>snap\<close> is the snapshot, \<open>ins\<close> the messages inserted so far.  The
  buffer without the inserted messages is the snapshot, without the snapshot it is \<open>ins\<close>, its last
  element is \<open>lastMsg\<close>, and the messages that count for the order are sorted by time.
\<close>

definition server_time :: "('c, 'z) heap_scheme \<Rightarrow> MessagePtr \<Rightarrow> int" where
  "server_time w p = serverReceivedTime (deref w p)"

definition counted :: "('c, 'z) heap_scheme \<Rightarrow> MessagePtr list \<Rightarrow> MessagePtr \<Rightarrow> bool" where
  "counted w ins p \<longleftrightarrow> p \<in> set ins \<or> \<not> has (flags (deref w p)) System"

definition fill_inv ::
  "'c Channel \<Rightarrow> MessagePtr list \<Rightarrow> MessagePtr list \<Rightarrow> 'c Channel \<times> bool \<times> MessagePtr \<Rightarrow> bool" where
  "fill_inv w snap ins = (\<lambda>(w', b, lastMsg).
     msgs w' = msgs w \<and> lq_wf (ch_messages w') \<and>
     lq_limit (ch_messages w') = lq_limit (ch_messages w) \<and>
     distinct (ch_contents w') \<and> set (ch_contents w') = set snap \<union> set ins \<and>
     length (ch_contents w') = length snap + length ins \<and>
     filter (\<lambda>p. p \<in> set snap) (ch_contents w') = snap \<and>
     filter (\<lambda>p. p \<in> set ins) (ch_contents w') = ins \<and>
     ch_contents w' \<noteq> [] \<and> lastMsg = last (ch_contents w') \<and>
     sorted (map (server_time w) (filter (counted w ins) (ch_contents w'))) \<and>
     b = (ins \<noteq> []) \<and> ch_signals w' = ch_signals w)"

lemma find_split:
  "List.find P xs = Some x \<Longrightarrow> \<exists>A B. xs = A @ x # B \<and> P x \<and> (\<forall>a\<in>set A. \<not> P a)"
proof (induction xs)
  case (Cons a xs)
  show ?case
  proof (cases "P a")
    case True
    with Cons.prems show ?thesis by (intro exI [of _ "[]"] exI [of _ xs]) auto
  next
    case False
    with Cons obtain A B where "xs = A @ x # B" "P x" "\<forall>a\<in>set A. \<not> P a" by auto
    with False show ?thesis by (intro exI [of _ "a # A"] exI [of _ B]) auto
  qed
qed simp

text \<open>One insertion into a list that is sorted on the elements \<open>C\<close> that count.\<close>

lemma insert_sorted_before:
  assumes "sorted (map f (filter C (xs @ s # ys)))" "C s" "m \<notin> set (xs @ s # ys)"
    and "\<forall>x\<in>set xs. C x \<longrightarrow> f x \<le> f m" "f m < f s"
    and "\<And>x. x \<noteq> m \<Longrightarrow> D x = C x" "D m"
  shows "sorted (map f (filter D (xs @ m # s # ys)))"
proof -
  have "filter D zs = filter C zs" if "m \<notin> set zs" for zs
    using that assms(6) by (metis (no_types, lifting) filter_cong)
  then have "filter D (xs @ m # s # ys) = filter C xs @ m # filter C (s # ys)"
    using assms(3,7) assms(6) [of s] by auto
  then show ?thesis
    using assms(1,2,4,5) by (fastforce simp: sorted_append)
qed

lemma insert_sorted_last:
  assumes "sorted (map f (filter C xs))" "m \<notin> set xs" "\<forall>x\<in>set xs. C x \<longrightarrow> f x \<le> f m"
    and "\<And>x. x \<noteq> m \<Longrightarrow> D x = C x" "D m"
  shows "sorted (map f (filter D (xs @ [m])))"
proof -
  have "filter D xs = filter C xs"
    using assms(2,4) by (metis (no_types, lifting) filter_cong)
  then show ?thesis using assms(1,3,5) by (auto simp: sorted_append)
qed

lemma later_not_inserted:
  assumes "sorted (map f (filter C (xs @ s # ys)))" "C s" "f m < f s"
    and "\<forall>n\<in>I. f n \<le> f m" "I \<subseteq> Collect C"
  shows "filter (\<lambda>p. p \<in> I) ys = []"
  using assms by (fastforce simp: sorted_append filter_empty_conv)

lemma append_eq_distinct:
  assumes "xs @ s # ys = xs' @ s # ys'" "distinct (xs @ s # ys)"
  shows "xs = xs'"
proof -
  have "s \<notin> set xs" "s \<notin> set xs'" using assms by (auto dest: arg_cong [of _ _ distinct])
  then have "takeWhile (\<lambda>x. x \<noteq> s) (xs @ s # ys) = xs" "takeWhile (\<lambda>x. x \<noteq> s) (xs' @ s # ys') = xs'"
    by (auto simp: takeWhile_tail takeWhile_eq_all_conv)
  with assms(1) show ?thesis by simp
qed

lemma filter_insert_notin:
  "m \<notin> set xs \<Longrightarrow> filter (\<lambda>p. p = m \<or> P p) xs = filter P xs"
  by (intro filter_cong) auto

lemma counted_snoc: "x \<noteq> m \<Longrightarrow> counted w (ins @ [m]) x = counted w ins x" "counted w (ins @ [m]) m"
  by (auto simp: counted_def)

lemma fill_step_inv:
  assumes inv: "fill_inv w snap ins (w', b, l)"
    and new: "m \<notin> set snap" "m \<notin> set ins" "set ins \<inter> set snap = {}"
    and room: "length snap + length ins < lq_limit (ch_messages w)"
    and asc: "\<forall>n\<in>set ins. server_time w n \<le> server_time w m"
    and id: "msg_id (deref w m) \<notin> existing"
  shows "fill_inv w snap (ins @ [m]) (fill_step existing snap m (w', b, l))"
proof -
  let ?c = "ch_contents w'"
  have w': "msgs w' = msgs w" "lq_wf (ch_messages w')"
    "lq_limit (ch_messages w') = lq_limit (ch_messages w)" "distinct ?c"
    "set ?c = set snap \<union> set ins" "length ?c = length snap + length ins"
    "filter (\<lambda>p. p \<in> set snap) ?c = snap" "filter (\<lambda>p. p \<in> set ins) ?c = ins" "?c \<noteq> []"
    "l = last ?c" "sorted (map (server_time w) (filter (counted w ins) ?c))"
    "ch_signals w' = ch_signals w"
    using inv by (auto simp: fill_inv_def)
  have deref: "deref w' = deref w" using w'(1) by (simp add: deref_def fun_eq_iff)
  have space: "length ?c < lq_limit (ch_messages w')" using room w'(3,6) by simp
  have wf': "lq_wf ((ch_messages w')\<lparr>lq_buffer := zs\<rparr>)" if "length zs \<le> lq_limit (ch_messages w')" for zs
    using w'(2) that by (simp add: lq_wf_def)
  have m: "m \<notin> set ?c" using new(1,2) w'(5) by simp
  let ?P = "\<lambda>s. \<not> has (flags (deref w s)) System \<and> server_time w m < server_time w s"
  show ?thesis
  proof (cases "List.find ?P snap")
    case None
    then have none: "\<forall>s\<in>set snap. \<not> ?P s" by (simp add: find_None_iff)
    have "fill_step existing snap m (w', b, l) =
        (w'\<lparr>ch_messages := (ch_messages w')\<lparr>lq_buffer := ?c @ [m]\<rparr>\<rparr>, True, m)"
      using id None insertAfter_last [OF w'(2) space w'(4,9)] w'(10)
      by (simp add: fill_step_def deref server_time_def)
    moreover have "sorted (map (server_time w) (filter (counted w (ins @ [m])) (?c @ [m])))"
      by (rule insert_sorted_last [OF w'(11) m])
        (use none asc w'(5) in \<open>auto simp: counted_snoc not_less\<close>, auto simp: counted_def not_less)
    moreover have "filter (\<lambda>p. p \<in> set (ins @ [m])) (?c @ [m]) = ins @ [m]"
      using filter_insert_notin [OF m, of "\<lambda>p. p \<in> set ins"] w'(8) by simp
    moreover have "lq_wf ((ch_messages w')\<lparr>lq_buffer := ?c @ [m]\<rparr>)" using space by (intro wf') simp
    ultimately show ?thesis
      using w' m new by (simp add: fill_inv_def)
  next
    case (Some s)
    then obtain A B where split: "snap = A @ s # B" "?P s" "\<forall>a\<in>set A. \<not> ?P a"
      using find_split [OF Some] by blast
    then obtain xs ys where c: "?c = xs @ s # ys" using w'(5) split_list [of s ?c] by auto
    have "s \<in> set snap" using split(1) by simp
    then have eq: "filter (\<lambda>p. p \<in> set snap) xs @ s # filter (\<lambda>p. p \<in> set snap) ys = A @ s # B"
      using w'(7) unfolding c split(1) [symmetric] by simp
    have "distinct (filter (\<lambda>p. p \<in> set snap) xs @ s # filter (\<lambda>p. p \<in> set snap) ys)"
      unfolding eq split(1) [symmetric] using w'(4,7) by (metis distinct_filter)
    from append_eq_distinct [OF eq this]
    have A: "filter (\<lambda>p. p \<in> set snap) xs = A" .
    have s: "counted w ins s" "s \<notin> set ins" using split new(3) by (auto simp: counted_def)
    have step: "fill_step existing snap m (w', b, l) =
        (w'\<lparr>ch_messages := (ch_messages w')\<lparr>lq_buffer := xs @ m # s # ys\<rparr>\<rparr>, True, l)"
      using id Some insertBefore_room [OF w'(2) space w'(4) c]
      by (simp add: fill_step_def deref server_time_def)
    have pre: "\<forall>x\<in>set xs. counted w ins x \<longrightarrow> server_time w x \<le> server_time w m"
    proof (intro ballI impI)
      fix x assume x: "x \<in> set xs" "counted w ins x"
      show "server_time w x \<le> server_time w m"
      proof (cases "x \<in> set ins")
        case False
        with x w'(5) have "x \<in> set A" by (auto simp: A [symmetric] c)
        with split(3) x(2) False show ?thesis by (auto simp: counted_def not_less)
      qed (use asc in blast)
    qed
    have "filter (\<lambda>p. p \<in> set ins) ys = []"
      using w'(11) s split(2) asc unfolding c
      by (intro later_not_inserted [where f = "server_time w" and C = "counted w ins" and s = s
            and m = m and xs = xs]) (auto simp: counted_def)
    then have "filter (\<lambda>p. p \<in> set (ins @ [m])) (xs @ m # s # ys) = ins @ [m]"
      using w'(8) s m by (simp add: c filter_insert_notin)
    moreover have "sorted (map (server_time w) (filter (counted w (ins @ [m])) (xs @ m # s # ys)))"
      by (rule insert_sorted_before [OF w'(11) [unfolded c] s(1) m [unfolded c] pre])
        (use split(2) counted_snoc in auto)
    moreover have "lq_wf ((ch_messages w')\<lparr>lq_buffer := xs @ m # s # ys\<rparr>)"
      using space by (intro wf') (simp add: c)
    moreover have m_notin: "m \<noteq> s" "m \<notin> set xs" "m \<notin> set ys" using m by (auto simp: c)
    ultimately show ?thesis
      unfolding step using w' m_notin new by (simp add: fill_inv_def c)
  qed
qed

lemma fill_fold_inv:
  assumes "fill_inv w snap ins st" "distinct (ins @ messages)" "set (ins @ messages) \<inter> set snap = {}"
    and "length snap + length (ins @ messages) \<le> lq_limit (ch_messages w)"
    and "sorted (map (server_time w) (ins @ messages))"
  shows "fill_inv w snap (ins @ filter (\<lambda>p. msg_id (deref w p) \<notin> existing) messages)
    (fold (fill_step existing snap) messages st)"
  using assms
proof (induction messages arbitrary: ins st)
  case (Cons m messages)
  obtain w' b l where st: "st = (w', b, l)" by (cases st) auto
  show ?case
  proof (cases "msg_id (deref w m) \<in> existing")
    case True
    moreover have "deref w' = deref w"
      using Cons.prems(1) by (simp add: st fill_inv_def deref_def fun_eq_iff)
    ultimately show ?thesis
      using Cons.IH [of ins st] Cons.prems by (auto simp: st fill_step_def sorted_append)
  next
    case False
    have "fill_inv w snap (ins @ [m]) (fill_step existing snap m st)"
      unfolding st using Cons.prems False
      by (intro fill_step_inv) (auto simp: st sorted_append)
    with False show ?thesis
      using Cons.IH [of "ins @ [m]" "fill_step existing snap m st"] Cons.prems by simp
  qed
qed simp

text \<open>
  C4. Filling in missing messages into a channel with room: exactly the messages whose id is not
  there yet are inserted, none is lost or duplicated, the messages that were there keep their
  order, the inserted ones keep theirs, and the channel ends up sorted by server time (its own
  system messages apart) when it was before; the signal is sent once, if anything was inserted.
\<close>

theorem ch_fill_merges:
  assumes "ch_good w" "ch_contents w \<noteq> []" "distinct messages"
    and "set messages \<inter> set (ch_contents w) = {}"
    and "length (ch_contents w) + length messages \<le> lq_limit (ch_messages w)"
    and "sorted (map (server_time w) messages)"
    and "sorted (map (server_time w) (filter (\<lambda>p. \<not> has (flags (deref w p)) System) (ch_contents w)))"
  shows "let w' = ch_fillInMissingMessages messages w;
      new = filter (\<lambda>p. msg_id (deref w p) \<notin> existingMessageIds w (ch_contents w)) messages
    in lq_wf (ch_messages w') \<and> distinct (ch_contents w') \<and>
      set (ch_contents w') = set (ch_contents w) \<union> set new \<and>
      filter (\<lambda>p. p \<in> set (ch_contents w)) (ch_contents w') = ch_contents w \<and>
      filter (\<lambda>p. p \<in> set new) (ch_contents w') = new \<and>
      sorted (map (server_time w) (filter (counted w new) (ch_contents w'))) \<and>
      ch_signals w' = ch_signals w @ (if new = [] then [] else [FilledInMessages messages])"
proof -
  let ?snap = "ch_contents w"
  let ?ids = "existingMessageIds w ?snap"
  let ?new = "filter (\<lambda>p. msg_id (deref w p) \<notin> ?ids) messages"
  have "fill_inv w ?snap [] (w, False, last ?snap)"
  proof -
    have "counted w [] = (\<lambda>p. \<not> has (flags (deref w p)) System)"
      by (simp add: counted_def fun_eq_iff)
    then show ?thesis using assms(1,2,7) by (simp add: fill_inv_def ch_good_def)
  qed
  from fill_fold_inv [OF this, of messages ?ids] assms(3-6)
  have inv: "fill_inv w ?snap ?new (fold (fill_step ?ids ?snap) messages (w, False, last ?snap))"
    by simp
  obtain w1 b l where st: "fold (fill_step ?ids ?snap) messages (w, False, last ?snap) = (w1, b, l)"
    by (rule prod_cases3)
  have "ch_fillInMissingMessages messages w =
      (if messages \<noteq> [] \<and> b then emit (FilledInMessages messages) w1 else w1)"
    using assms(2) st
    by (auto simp: ch_fillInMissingMessages_def getMessageSnapshot_def getSnapshot_def Let_def)
  moreover have "b \<longleftrightarrow> ?new \<noteq> []" using inv by (simp add: st fill_inv_def)
  ultimately show ?thesis
    using inv by (auto simp: st fill_inv_def Let_def)
qed

theorem ch_fill_merges_witness:
  "let w = sample_channel [chat_message ''1'' ''a'' [] 10, chat_message ''2'' ''a'' [] 20,
         chat_message ''1'' ''a'' [] 10, chat_message ''3'' ''a'' [] 15] [0, 1];
       w' = ch_fillInMissingMessages [2, 3] w
   in set (ch_contents w') = {0, 1, 3} \<and> ch_signals w' = [FilledInMessages [2, 3]]"
proof -
  let ?w = "sample_channel [chat_message ''1'' ''a'' [] 10, chat_message ''2'' ''a'' [] 20,
         chat_message ''1'' ''a'' [] 10, chat_message ''3'' ''a'' [] 15] [0, 1]"
  have good: "ch_good ?w" by (rule sample_channel_good) auto
  have ids: "existingMessageIds ?w [0, 1] = {''1'', ''2''}"
    by (auto simp: existingMessageIds_def chat_message_def flags_of_def has_def)
  have "sorted (map (server_time ?w) [2, 3])" "sorted (map (server_time ?w)
      (filter (\<lambda>p. \<not> has (flags (deref ?w p)) System) (ch_contents ?w)))"
    by (simp_all add: server_time_def chat_message_def flags_of_def has_def)
  moreover have new: "filter (\<lambda>p. msg_id (deref ?w p) \<notin> existingMessageIds ?w (ch_contents ?w)) [2, 3] = [3]"
    unfolding sample_channel_simps ids by (simp add: chat_message_def)
  ultimately show ?thesis
    using ch_fill_merges [OF good, of "[2, 3]", unfolded Let_def new] unfolding Let_def by auto
qed

section \<open>Where the promise is not kept\<close>

text \<open>
  The overload of \<open>replaceMessage\<close> with a hint: when the hint is wrong, the message is replaced
  where it is found, but the signal carries the hint as the index, so a listener that updates its
  row by that index updates the wrong one.
\<close>

theorem ch_replaceMessage_hint_signals_hint:
  assumes "ch_good w" "i < length (ch_contents w)" "hint \<noteq> i"
  shows "let w' = ch_replaceMessage_hint hint (ch_contents w ! i) r w in
    ch_contents w' = (ch_contents w)[i := r] \<and>
    ch_signals w' = ch_signals w @ [MessageReplaced hint (ch_contents w ! i) r]"
proof -
  have d: "distinct (ch_contents w)" using assms(1) by (simp add: ch_good_def)
  have "cast_int (int i) = int i"
    using assms by (intro cast_int_id)
      (auto simp: ch_good_def lq_wf_def in_int_range_def int_min_def int_max_def)
  moreover have "\<not> (hint < length (ch_contents w) \<and> ch_contents w ! hint = ch_contents w ! i)"
    using assms(2,3) d by (auto simp: nth_eq_iff_index_eq)
  ultimately show ?thesis
    using first_index_nth [OF d assms(2)]
    by (auto simp: ch_replaceMessage_hint_def replaceItem_hint_def Let_def)
qed

theorem ch_replaceMessage_hint_signals_hint_witness:
  "let w' = ch_replaceMessage_hint 2 0 4 (sample_channel (replicate 5 (chat_message [] [] [] 0)) [3, 0, 1])
   in ch_contents w' = [3, 4, 1] \<and> ch_signals w' = [MessageReplaced 2 0 4]"
proof -
  have "ch_good (sample_channel (replicate 5 (chat_message [] [] [] 0)) [3, 0, 1])"
    by (rule sample_channel_good) auto
  from ch_replaceMessage_hint_signals_hint [OF this, of 1 2 4] show ?thesis by simp
qed

text \<open>
  The setting \<open>Don't stack\<close> does not keep timeouts apart: with it, a second timeout of the same
  user within five seconds still replaces the first one and counts it.
\<close>

theorem dont_stack_still_stacks:
  assumes "ch_good w" "message < length (msgs w)" "ch_contents w = [p]"
    and "now - 5000 \<le> serverReceivedTime (deref w p)"
    and "timeoutUser (deref w p) = timeoutUser (deref w message)"
    and "flags (deref w p) = flags_of [System, Timeout]"
    and "flags (deref w message) = flags_of [System, Timeout]"
  shows "let w' = ch_addOrReplaceTimeout qt env DontStack message now w
    in ch_contents w' = [length (msgs w)] \<and>
       count (deref w' (length (msgs w))) = count (deref w p) + 1"
proof -
  have p: "p < length (msgs w)" using assms(1,3) by (simp add: ch_good_def)
  let ?r = "timeout_replacement qt env (deref w message) (deref w p)"
  let ?w = "w\<lparr>msgs := msgs w @ [?r]\<rparr>"
  have "timeout_loop qt env DontStack (now - 5000) (\<lambda>_. [p]) (\<lambda>idx. ch_replaceMessage) message [0] w =
      (ch_replaceMessage p (length (msgs w)) ?w, False)"
    using assms by (simp add: has_iff_bit bit_flags_of alloc_def Let_def)
  moreover have "ch_good ?w" "ch_contents ?w = [p]"
    using ch.good_msgs [OF assms(1), of "msgs ?w"] assms(3) by simp_all
  then have "ch_replaceMessage p (length (msgs w)) ?w =
      emit (MessageReplaced 0 p (length (msgs w)))
        (?w\<lparr>ch_messages := (ch_messages w)\<lparr>lq_buffer := [length (msgs w)]\<rparr>\<rparr>)"
    using ch_replaceMessage_good [of ?w 0 "length (msgs w)"] by simp
  ultimately have "ch_addOrReplaceTimeout qt env DontStack message now w =
      disable_step (\<lambda>_. [p]) message 0 (emit (MessageReplaced 0 p (length (msgs w)))
        (?w\<lparr>ch_messages := (ch_messages w)\<lparr>lq_buffer := [length (msgs w)]\<rparr>\<rparr>))"
    using assms(3)
    by (simp add: ch_addOrReplaceTimeout_def addOrReplaceChannelTimeout_def getMessageSnapshot_def
        getSnapshot_def Let_def)
  moreover have "deref ?w p = deref w p" using p by (simp add: deref_def nth_append)
  then have "\<not> disabled_by u (deref ?w p)" for u
    using assms(6) by (simp add: disabled_by_def hasNone_flags_of has_iff_bit bit_flags_of)
  ultimately show ?thesis
    by (simp add: disable_step_def disabled_by_def deref_def Let_def timeout_replacement_def)
qed

theorem dont_stack_still_stacks_witness:
  "let w = sample_channel [timeout_message ''a'' [System, Timeout] 1000,
         timeout_message ''a'' [System, Timeout] 2000] [0];
       w' = ch_addOrReplaceTimeout sample_qt sample_env DontStack 1 2000 w
   in ch_contents w' = [2] \<and> count (deref w' 2) = 2"
proof -
  let ?w = "sample_channel [timeout_message ''a'' [System, Timeout] 1000,
         timeout_message ''a'' [System, Timeout] 2000] [0]"
  have "ch_good ?w" by (rule sample_channel_good) auto
  from dont_stack_still_stacks [OF this, of 1 0 2000 sample_qt sample_env] show ?thesis
    by (simp add: timeout_message_def new_message_def Let_def numeral_2_eq_2)
qed

text \<open>
  The flags \<open>WebchatDetected\<close> and \<open>ClearChat\<close> share one bit.  So a recent chat message that was
  sent from the web chat is taken for a clear-chat message: clearing the chat replaces it, counts
  two clears, and the message is gone from the buffer.
\<close>

theorem clear_replaces_webchat_message:
  assumes "ch_good w" "message < length (msgs w)" "ch_contents w = [p]" "style \<noteq> DontStack"
    and "now - 5000 \<le> serverReceivedTime (deref w p)"
    and "flags (deref w p) = flags_of [WebchatDetected]"
    and "flags (deref w message) = flags_of [System, DoNotTriggerNotification, ClearChat]"
    and "count (deref w p) = 1"
  shows "let w' = ch_addOrReplaceClearChat qt env style message now w
    in ch_contents w' = [length (msgs w)] \<and> count (deref w' (length (msgs w))) = 2 \<and>
       ch_signals w' = ch_signals w @ [MessageReplaced 0 p (length (msgs w))]"
proof -
  let ?r = "(makeClearChatMessage qt env (serverReceivedTime (deref w message))
    (timeoutUser (deref w message)) 2)\<lparr>flags := flags (deref w message)\<rparr>"
  let ?w = "w\<lparr>msgs := msgs w @ [?r]\<rparr>"
  have "clear_loop qt env style (now - 5000) (\<lambda>_. [p]) (\<lambda>idx. ch_replaceMessage) message [0] w =
      (ch_replaceMessage p (length (msgs w)) ?w, False)"
    using assms by (simp add: has_iff_bit bit_flags_of alloc_def Let_def)
  moreover have "ch_good ?w" "ch_contents ?w = [p]"
    using ch.good_msgs [OF assms(1), of "msgs ?w"] assms(3) by simp_all
  then have "ch_replaceMessage p (length (msgs w)) ?w =
      emit (MessageReplaced 0 p (length (msgs w)))
        (?w\<lparr>ch_messages := (ch_messages w)\<lparr>lq_buffer := [length (msgs w)]\<rparr>\<rparr>)"
    using ch_replaceMessage_good [of ?w 0 "length (msgs w)"] by simp
  ultimately have "ch_addOrReplaceClearChat qt env style message now w =
      emit (MessageReplaced 0 p (length (msgs w)))
        (?w\<lparr>ch_messages := (ch_messages w)\<lparr>lq_buffer := [length (msgs w)]\<rparr>\<rparr>)"
    using assms(3,4)
    by (simp add: ch_addOrReplaceClearChat_def addOrReplaceChannelClear_def getMessageSnapshot_def
        getSnapshot_def Let_def)
  moreover have "count ?r = 2"
    by (simp add: makeClearChatMessage_def Let_def)
  ultimately show ?thesis by (simp add: deref_def Let_def)
qed

theorem clear_replaces_webchat_message_witness:
  "let w = sample_channel [chat_message ''1'' ''a'' [WebchatDetected] 1000,
         chat_message ''2'' [] [System, DoNotTriggerNotification, ClearChat] 2000] [0]
   in ch_contents (ch_addOrReplaceClearChat sample_qt sample_env StackHard 1 2000 w) = [2]"
proof -
  let ?w = "sample_channel [chat_message ''1'' ''a'' [WebchatDetected] 1000,
         chat_message ''2'' [] [System, DoNotTriggerNotification, ClearChat] 2000] [0]"
  have "ch_good ?w" by (rule sample_channel_good) auto
  from clear_replaces_webchat_message [OF this, of 1 0 StackHard 2000 sample_qt sample_env]
  show ?thesis
    by (simp add: chat_message_def new_message_def Let_def numeral_2_eq_2)
qed

end
