(* ===== verification/Selection.thy ===== *)
theory Selection
  imports Prelude "HOL-Library.Word"
begin

text \<open>
  \<open>messages/Selection.hpp\<close>: the selected range of a chat view, as positions of a message and a
  character, both \<open>size_t\<close>.
\<close>

section \<open>Positions\<close>

datatype SelectionItem = SelectionItem (messageIndex: "64 word") (charIndex: "64 word")

text \<open>The four comparison operators; \<open>std::tie\<close> compares lexicographically.\<close>

instantiation SelectionItem :: linorder
begin

definition less_SelectionItem :: "SelectionItem \<Rightarrow> SelectionItem \<Rightarrow> bool" where
  "a < b \<longleftrightarrow> messageIndex a < messageIndex b \<or>
     messageIndex a = messageIndex b \<and> charIndex a < charIndex b"

definition less_eq_SelectionItem :: "SelectionItem \<Rightarrow> SelectionItem \<Rightarrow> bool" where
  "a \<le> b \<longleftrightarrow> \<not> b < (a :: SelectionItem)"

instance
proof
  fix x y z :: SelectionItem
  show "x < y \<longleftrightarrow> x \<le> y \<and> \<not> y \<le> x" "x \<le> x" "x \<le> y \<or> y \<le> x"
    by (auto simp: less_eq_SelectionItem_def less_SelectionItem_def)
  show "x \<le> y \<Longrightarrow> y \<le> z \<Longrightarrow> x \<le> z"
    by (auto simp: less_eq_SelectionItem_def less_SelectionItem_def)
  show "x \<le> y \<Longrightarrow> y \<le> x \<Longrightarrow> x = y"
    by (cases x; cases y) (auto simp: less_eq_SelectionItem_def less_SelectionItem_def)
qed

end

definition item_equal :: "SelectionItem \<Rightarrow> SelectionItem \<Rightarrow> bool" where
  "item_equal a b = (messageIndex a = messageIndex b \<and> charIndex a = charIndex b)"

definition item_greater :: "SelectionItem \<Rightarrow> SelectionItem \<Rightarrow> bool" where
  "item_greater a b = (\<not> item_equal a b \<and> b < a)"

section \<open>Selections\<close>

record Selection =
  sel_start :: SelectionItem
  sel_end :: SelectionItem
  selectionMin :: SelectionItem
  selectionMax :: SelectionItem

definition Selection :: "SelectionItem \<Rightarrow> SelectionItem \<Rightarrow> Selection" where
  "Selection start end' =
     (if item_greater start end'
      then \<lparr>sel_start = start, sel_end = end', selectionMin = end', selectionMax = start\<rparr>
      else \<lparr>sel_start = start, sel_end = end', selectionMin = start, selectionMax = end'\<rparr>)"

definition selection_equal :: "Selection \<Rightarrow> Selection \<Rightarrow> bool" where
  "selection_equal a b = (item_equal (sel_start a) (sel_start b) \<and> item_equal (sel_end a) (sel_end b))"

definition selection_union :: "Selection \<Rightarrow> Selection \<Rightarrow> Selection" where
  "selection_union a b =
     Selection (min (selectionMin a) (selectionMin b)) (max (selectionMax a) (selectionMax b))"

definition sel_isEmpty :: "Selection \<Rightarrow> bool" where
  "sel_isEmpty s = item_equal (sel_start s) (sel_end s)"

definition isSingleMessage :: "Selection \<Rightarrow> bool" where
  "isSingleMessage s = (messageIndex (selectionMin s) = messageIndex (selectionMax s))"

text \<open>The same four lines for each of the four items.\<close>

definition shift_item :: "64 word \<Rightarrow> SelectionItem \<Rightarrow> SelectionItem" where
  "shift_item offset i =
     (if offset > messageIndex i then SelectionItem 0 0
      else SelectionItem (messageIndex i - offset) (charIndex i))"

definition shiftMessageIndex :: "64 word \<Rightarrow> Selection \<Rightarrow> Selection" where
  "shiftMessageIndex offset s =
     s\<lparr>selectionMin := shift_item offset (selectionMin s),
       selectionMax := shift_item offset (selectionMax s),
       sel_start := shift_item offset (sel_start s),
       sel_end := shift_item offset (sel_end s)\<rparr>"

section \<open>Lemmas\<close>

text \<open>A selection as the constructor leaves it: the bounds are the two ends in order.\<close>

definition sel_ok :: "Selection \<Rightarrow> bool" where
  "sel_ok s \<longleftrightarrow> selectionMin s = min (sel_start s) (sel_end s) \<and>
     selectionMax s = max (sel_start s) (sel_end s)"

lemma item_equal_iff [simp]: "item_equal a b \<longleftrightarrow> a = b"
  by (cases a; cases b) (simp add: item_equal_def)

lemma item_greater_iff [simp]: "item_greater a b \<longleftrightarrow> b < a"
  by (auto simp: item_greater_def)

lemma sel_ok_Selection [wf_intros]: "sel_ok (Selection a b)"
  by (auto simp: sel_ok_def Selection_def min_def max_def)

lemma Selection_bounds [simp]:
  "selectionMin (Selection a b) = min a b" "selectionMax (Selection a b) = max a b"
  "sel_start (Selection a b) = a" "sel_end (Selection a b) = b"
  by (auto simp: Selection_def min_def max_def)

lemma sel_ok_ordered: "sel_ok s \<Longrightarrow> selectionMin s \<le> selectionMax s"
  by (auto simp: sel_ok_def min_def max_def)

lemma shift_item_mono: "a \<le> b \<Longrightarrow> shift_item n a \<le> shift_item n b"
  by (cases a; cases b)
    (auto simp: shift_item_def less_eq_SelectionItem_def less_SelectionItem_def word_less_nat_alt
      unat_sub word_le_nat_alt not_less)

lemma shift_item_min: "shift_item n (min a b) = min (shift_item n a) (shift_item n b)"
  by (rule min_of_mono [symmetric]) (rule monoI, rule shift_item_mono)

lemma shift_item_max: "shift_item n (max a b) = max (shift_item n a) (shift_item n b)"
  by (rule max_of_mono [symmetric]) (rule monoI, rule shift_item_mono)

lemma shift_item_add:
  assumes "unat a + unat b < 2 ^ 64"
  shows "shift_item b (shift_item a i) = shift_item (a + b) i"
proof -
  have sum: "unat (a + b) = unat a + unat b"
    using assms by (simp add: unat_plus_if')
  show ?thesis
    by (cases i)
      (auto simp: shift_item_def word_less_nat_alt word_le_nat_alt sum unat_sub not_less
        word_unat_eq_iff)
qed

section \<open>Properties\<close>

text \<open>
  The union of two selections is their least upper bound: it covers both ranges, every
  selection that covers both covers it, and its bounds are in order.
\<close>

theorem selection_union_least:
  assumes "sel_ok a" "sel_ok b"
  shows "let u = selection_union a b in
    sel_ok u \<and> selectionMin u \<le> selectionMax u \<and>
    (\<forall>x. (selectionMin a \<le> x \<and> x \<le> selectionMax a) \<or> (selectionMin b \<le> x \<and> x \<le> selectionMax b)
      \<longrightarrow> selectionMin u \<le> x \<and> x \<le> selectionMax u) \<and>
    (\<forall>lo hi. lo \<le> selectionMin a \<and> lo \<le> selectionMin b \<and> selectionMax a \<le> hi \<and> selectionMax b \<le> hi
      \<longrightarrow> lo \<le> selectionMin u \<and> selectionMax u \<le> hi)"
proof -
  have "min (selectionMin a) (selectionMin b) \<le> max (selectionMax a) (selectionMax b)"
    using sel_ok_ordered [OF assms(1)] by (auto simp: min_def max_def)
  then show ?thesis
    using sel_ok_Selection by (auto simp: selection_union_def Let_def min_absorb1 max_absorb2 min_le_iff_disj le_max_iff_disj)
qed

theorem selection_union_least_witness:
  "selectionMax (selection_union (Selection (SelectionItem 1 5) (SelectionItem 0 2))
     (Selection (SelectionItem 3 0) (SelectionItem 2 9))) \<ge> SelectionItem 3 0"
  using selection_union_least [OF sel_ok_Selection sel_ok_Selection,
      of "SelectionItem 1 5" "SelectionItem 0 2" "SelectionItem 3 0" "SelectionItem 2 9"]
  by (auto simp: Let_def dest: spec [of _ "SelectionItem 3 0"])

text \<open>
  Shifting a selection when messages are removed from the start keeps its bounds in order and
  equal to its ends, moves every position monotonically, and two shifts in a row are one shift by
  the sum as long as the sum fits in 64 bits.
\<close>

theorem shift_keeps_selection:
  assumes "sel_ok s" "unat m + unat n < 2 ^ 64"
  shows "sel_ok (shiftMessageIndex m s) \<and>
    selectionMin (shiftMessageIndex m s) \<le> selectionMax (shiftMessageIndex m s) \<and>
    shiftMessageIndex n (shiftMessageIndex m s) = shiftMessageIndex (m + n) s"
proof -
  have "sel_ok (shiftMessageIndex m s)"
    using assms(1) by (simp add: sel_ok_def shiftMessageIndex_def shift_item_min shift_item_max)
  moreover have "shift_item m (selectionMin s) \<le> shift_item m (selectionMax s)"
    by (rule shift_item_mono [OF sel_ok_ordered [OF assms(1)]])
  ultimately show ?thesis
    using shift_item_add [OF assms(2)] by (simp add: shiftMessageIndex_def)
qed

theorem shift_keeps_selection_witness:
  "selectionMin (shiftMessageIndex 2 (shiftMessageIndex 3
     (Selection (SelectionItem 9 1) (SelectionItem 4 7)))) = SelectionItem 0 0"
  using shift_keeps_selection [OF sel_ok_Selection, of 3 2 "SelectionItem 9 1" "SelectionItem 4 7"]
  by (simp add: shiftMessageIndex_def shift_item_def min_def less_eq_SelectionItem_def
      less_SelectionItem_def)

end
