(* ===== verification/Ratelimit.thy ===== *)
theory Ratelimit
  imports Prelude "HOL-Library.Multiset"
begin

text \<open>
  \<open>util/RatelimitBucket.hpp\<close>, \<open>.cpp\<close> and \<open>util/ExponentialBackoff.hpp\<close>: a queue that lets at most
  \<open>budget\<close> calls through per cooldown, and the delays between reconnects.

  The bucket is a state machine: \<open>send\<close> is called at some time, and a single-shot timer fires later.  The timers
  of the code are coarse timers of Qt, which keep their interval within 5%, so they may fire before they are
  due.  A call of the callback is appended to \<open>rb_called\<close> with its time, and the
  due times of the running timers are \<open>rb_timers\<close>.
\<close>

section \<open>Exponential backoff\<close>

record ExponentialBackoff =
  eb_maxSteps :: nat
  eb_start :: int
  eb_step :: nat

definition ExponentialBackoff :: "nat \<Rightarrow> int \<Rightarrow> ExponentialBackoff" where
  "ExponentialBackoff maxSteps start = \<lparr>eb_maxSteps = maxSteps, eb_start = start, eb_step = 1\<rparr>"

definition eb_next :: "ExponentialBackoff \<Rightarrow> int \<times> ExponentialBackoff" where
  "eb_next b =
     (let result = eb_start b * 2 ^ (eb_step b - 1);
          step = eb_step b + 1;
          step = (if step \<ge> eb_maxSteps b then eb_maxSteps b else step)
      in (result, b\<lparr>eb_step := step\<rparr>))"

definition eb_reset :: "ExponentialBackoff \<Rightarrow> ExponentialBackoff" where
  "eb_reset b = b\<lparr>eb_step := 1\<rparr>"

fun eb_delays :: "nat \<Rightarrow> ExponentialBackoff \<Rightarrow> int list" where
  "eb_delays 0 b = []"
| "eb_delays (Suc n) b = (let (d, b') = eb_next b in d # eb_delays n b')"

lemma eb_delays_from:
  assumes "1 \<le> eb_step b" "eb_step b \<le> eb_maxSteps b"
  shows "eb_delays n b =
    map (\<lambda>k. eb_start b * 2 ^ min (eb_step b - 1 + k) (eb_maxSteps b - 1)) [0..<n]"
  using assms
proof (induction n arbitrary: b)
  case (Suc n)
  define b' where "b' = snd (eb_next b)"
  have b': "eb_start b' = eb_start b" "eb_maxSteps b' = eb_maxSteps b"
    "eb_step b' = min (eb_step b + 1) (eb_maxSteps b)"
    by (auto simp: b'_def eb_next_def Let_def)
  have "1 \<le> eb_step b'" "eb_step b' \<le> eb_maxSteps b'" using Suc.prems b' by auto
  from Suc.IH [OF this] have "eb_delays n b' =
      map (\<lambda>k. eb_start b * 2 ^ min (eb_step b - 1 + Suc k) (eb_maxSteps b - 1)) [0..<n]"
    using Suc.prems b' by (auto intro!: arg_cong [where f = "\<lambda>e. 2 ^ e"] simp: min_def)
  moreover have "eb_delays (Suc n) b = eb_start b * 2 ^ (eb_step b - 1) # eb_delays n b'"
    by (simp add: b'_def eb_next_def Let_def)
  moreover have "[0..<Suc n] = 0 # map Suc [0..<n]" by (simp add: map_Suc_upt upt_conv_Cons)
  ultimately show ?case using Suc.prems by (simp del: upt_Suc)
qed simp

section \<open>The bucket\<close>

record 'i RatelimitBucket =
  rb_budget :: int
  rb_cooldown :: int
  rb_queue :: "'i list"
  rb_timers :: "int list"
  rb_called :: "(int \<times> 'i) list"

definition RatelimitBucket :: "int \<Rightarrow> int \<Rightarrow> 'i RatelimitBucket" where
  "RatelimitBucket budget cooldown =
     \<lparr>rb_budget = budget, rb_cooldown = cooldown, rb_queue = [], rb_timers = [], rb_called = []\<rparr>"

definition handleOne :: "int \<Rightarrow> 'i RatelimitBucket \<Rightarrow> 'i RatelimitBucket" where
  "handleOne now b =
     (case rb_queue b of
        [] \<Rightarrow> b
      | item # queue \<Rightarrow>
          b\<lparr>rb_queue := queue, rb_budget := rb_budget b - 1,
            rb_called := rb_called b @ [(now, item)],
            rb_timers := rb_timers b @ [now + rb_cooldown b]\<rparr>)"

definition rb_send :: "int \<Rightarrow> 'i \<Rightarrow> 'i RatelimitBucket \<Rightarrow> 'i RatelimitBucket" where
  "rb_send now item b =
     (let b = b\<lparr>rb_queue := rb_queue b @ [item]\<rparr>
      in if rb_budget b > 0 then handleOne now b else b)"

text \<open>The lambda of the timer, which is over when it runs.\<close>

definition rb_timeout :: "int \<Rightarrow> int \<Rightarrow> 'i RatelimitBucket \<Rightarrow> 'i RatelimitBucket" where
  "rb_timeout now due b =
     handleOne now (b\<lparr>rb_timers := remove1 due (rb_timers b), rb_budget := rb_budget b + 1\<rparr>)"

text \<open>By how much a coarse timer may be early, in milliseconds, and the shortest interval it may take.\<close>

definition coarse_slack :: "int \<Rightarrow> int" where
  "coarse_slack interval = interval div 20"

definition coarse_interval :: "int \<Rightarrow> int" where
  "coarse_interval interval = interval - coarse_slack interval"

text \<open>
  The runs of a bucket: the time, the items sent so far, and the bucket.  Time does not go back.
\<close>

inductive rb_run :: "int \<Rightarrow> int \<Rightarrow> int \<Rightarrow> 'i list \<Rightarrow> 'i RatelimitBucket \<Rightarrow> bool"
  for budget cooldown :: int where
  start: "rb_run budget cooldown t [] (RatelimitBucket budget cooldown)"
| send: "rb_run budget cooldown t sent b \<Longrightarrow> t \<le> now \<Longrightarrow>
    rb_run budget cooldown now (sent @ [item]) (rb_send now item b)"
| timeout: "rb_run budget cooldown t sent b \<Longrightarrow> t \<le> now \<Longrightarrow> due \<in> set (rb_timers b) \<Longrightarrow>
    due - coarse_slack cooldown \<le> now \<Longrightarrow> rb_run budget cooldown now sent (rb_timeout now due b)"

inductive_cases rb_run_cases: "rb_run budget cooldown t sent b"

text \<open>
  The invariant: tokens are in the bucket or in a timer; nothing waits while there is a token; the
  calls and the queue are the items sent, in order; every call within the shortest cooldown has its timer.
\<close>

definition recent_calls :: "int \<Rightarrow> 'i RatelimitBucket \<Rightarrow> int list" where
  "recent_calls now b =
     filter (\<lambda>due. now < due - coarse_slack (rb_cooldown b)) (map (\<lambda>(t, i). t + rb_cooldown b) (rb_called b))"

definition rb_inv :: "int \<Rightarrow> int \<Rightarrow> int \<Rightarrow> 'i list \<Rightarrow> 'i RatelimitBucket \<Rightarrow> bool" where
  "rb_inv budget cooldown now sent b \<longleftrightarrow>
     rb_budget b + int (length (rb_timers b)) = budget \<and> rb_cooldown b = cooldown \<and>
     0 \<le> rb_budget b \<and> (rb_queue b \<noteq> [] \<longrightarrow> rb_budget b = 0) \<and>
     map snd (rb_called b) @ rb_queue b = sent \<and>
     mset (recent_calls now b) \<subseteq># mset (rb_timers b)"

lemma recent_calls_update [simp]:
  "recent_calls now (b\<lparr>rb_queue := q\<rparr>) = recent_calls now b"
  "recent_calls now (b\<lparr>rb_timers := ts\<rparr>) = recent_calls now b"
  "recent_calls now (b\<lparr>rb_budget := n\<rparr>) = recent_calls now b"
  by (simp_all add: recent_calls_def)

lemma recent_later:
  "now \<le> now' \<Longrightarrow> mset (recent_calls now' b) \<subseteq># mset (recent_calls now b)"
proof -
  assume "now \<le> now'"
  then have "recent_calls now' b = filter (\<lambda>due. now' < due - coarse_slack (rb_cooldown b)) (recent_calls now b)"
    by (auto simp: recent_calls_def intro!: filter_cong)
  then show ?thesis by (simp add: mset_filter)
qed

lemma rb_inv_later: "rb_inv budget cooldown now sent b \<Longrightarrow> now \<le> now' \<Longrightarrow> rb_inv budget cooldown now' sent b"
  unfolding rb_inv_def using recent_later subset_mset.order_trans by blast

text \<open>\<open>handleOne\<close> with a token in the bucket restores the invariant that nothing waits.\<close>

lemma handleOne_inv:
  assumes "rb_budget b + int (length (rb_timers b)) = budget" "rb_cooldown b = cooldown"
    and "0 < rb_budget b" "length (rb_queue b) \<le> 1 \<or> rb_budget b = 1"
    and "map snd (rb_called b) @ rb_queue b = sent"
    and "mset (recent_calls now b) \<subseteq># mset (rb_timers b)"
  shows "rb_inv budget cooldown now sent (handleOne now b)"
proof (cases "rb_queue b")
  case Nil
  with assms show ?thesis by (auto simp: rb_inv_def handleOne_def)
next
  case (Cons item queue)
  let ?b = "handleOne now b"
  have "recent_calls now ?b =
      recent_calls now b @ (if now < now + rb_cooldown b - coarse_slack (rb_cooldown b) then [now + rb_cooldown b] else [])"
    by (simp add: recent_calls_def handleOne_def Cons)
  then have "mset (recent_calls now ?b) \<subseteq># mset (rb_timers ?b)"
    using assms(6) by (auto simp: handleOne_def Cons intro: subset_mset.order_trans)
  then show ?thesis
    using assms Cons by (auto simp: rb_inv_def handleOne_def)
qed

lemma mset_remove1_notin: "A \<subseteq># mset xs \<Longrightarrow> x \<notin># A \<Longrightarrow> A \<subseteq># mset (remove1 x xs)"
  by (auto simp: subseteq_mset_def not_in_iff)

lemma rb_run_inv:
  assumes "rb_run budget cooldown t sent b" "0 \<le> budget"
  shows "rb_inv budget cooldown t sent b"
  using assms(1)
proof induction
  case (start t)
  then show ?case using assms(2) by (simp add: rb_inv_def RatelimitBucket_def recent_calls_def)
next
  case (send t sent b now item)
  from rb_inv_later [OF send.IH send.hyps(2)] have inv: "rb_inv budget cooldown now sent b" .
  let ?b = "b\<lparr>rb_queue := rb_queue b @ [item]\<rparr>"
  show ?case
  proof (cases "0 < rb_budget b")
    case True
    then have "rb_queue b = []" using inv by (auto simp: rb_inv_def)
    then have "rb_inv budget cooldown now (sent @ [item]) (handleOne now ?b)"
      using inv True by (intro handleOne_inv) (auto simp: rb_inv_def)
    with True show ?thesis by (simp add: rb_send_def)
  next
    case False
    with inv show ?thesis by (auto simp: rb_send_def rb_inv_def)
  qed
next
  case (timeout t sent b now due)
  from rb_inv_later [OF timeout.IH timeout.hyps(2)] have inv: "rb_inv budget cooldown now sent b" .
  let ?b = "b\<lparr>rb_timers := remove1 due (rb_timers b), rb_budget := rb_budget b + 1\<rparr>"
  have len: "length (rb_timers b) = Suc (length (remove1 due (rb_timers b)))"
    using timeout.hyps(3) by (simp add: length_remove1)
      (metis One_nat_def Suc_pred length_pos_if_in_set)
  have "due \<notin># mset (recent_calls now b)"
    using timeout.hyps(4) inv by (auto simp: recent_calls_def rb_inv_def)
  then have "mset (recent_calls now ?b) \<subseteq># mset (rb_timers ?b)"
    using inv mset_remove1_notin [of _ "rb_timers b" due] by (auto simp: rb_inv_def)
  then have "rb_inv budget cooldown now sent (handleOne now ?b)"
    using inv len by (intro handleOne_inv) (auto simp: rb_inv_def)
  then show ?case by (simp add: rb_timeout_def)
qed

section \<open>Properties\<close>

text \<open>
  C15. The bucket keeps the rate: in every run, at every moment, the calls made within the last
  \<open>cooldown\<close> milliseconds, less the 5% by which a coarse timer may be early, are at most \<open>budget\<close>; items are
  handled in the order they were sent, none lost or repeated; and an item waits only while all tokens are
  in timers.
\<close>

theorem ratelimit_respected:
  assumes "rb_run budget cooldown now sent b" "0 \<le> budget"
  shows "int (length (filter (\<lambda>(t, i). now < t + coarse_interval cooldown) (rb_called b))) \<le> budget \<and>
    map snd (rb_called b) @ rb_queue b = sent \<and>
    (rb_queue b = [] \<or> int (length (rb_timers b)) = budget)"
proof -
  from rb_run_inv [OF assms] have inv: "rb_inv budget cooldown now sent b" .
  then have "length (recent_calls now b) \<le> length (rb_timers b)"
    unfolding rb_inv_def using size_mset_mono by fastforce
  moreover have "length (recent_calls now b) =
      length (filter (\<lambda>(t, i). now < t + coarse_interval cooldown) (rb_called b))"
    using inv by (simp add: coarse_interval_def algebra_simps recent_calls_def rb_inv_def filter_map comp_def case_prod_unfold)
  ultimately show ?thesis using inv by (auto simp: rb_inv_def)
qed

theorem ratelimit_respected_witness:
  "let b = rb_timeout 95 100 (rb_send 5 ''c'' (rb_send 1 ''b'' (rb_send 0 ''a'' (RatelimitBucket 1 100))))
   in rb_called b = [(0, ''a''), (95, ''b'')] \<and> map snd (rb_called b) @ rb_queue b = [''a'', ''b'', ''c'']"
proof -
  let ?b = "rb_send 5 ''c'' (rb_send 1 ''b'' (rb_send 0 ''a'' (RatelimitBucket 1 100)))"
  have "rb_run 1 100 5 [''a'', ''b'', ''c''] ?b"
    using rb_run.send [OF rb_run.send [OF rb_run.send [OF rb_run.start [of 1 100 0], of 0 "''a''"],
      of 1 "''b''"], of 5 "''c''"] by simp
  moreover have "100 \<in> set (rb_timers ?b)"
    by (simp add: rb_send_def handleOne_def RatelimitBucket_def Let_def)
  ultimately have "rb_run 1 100 95 [''a'', ''b'', ''c''] (rb_timeout 95 100 ?b)"
    by (intro rb_run.timeout) (auto simp: coarse_slack_def)
  from ratelimit_respected [OF this] show ?thesis
    by (simp add: rb_send_def rb_timeout_def handleOne_def RatelimitBucket_def Let_def)
qed

text \<open>
  The delays of a backoff double from the start value and stay at \<open>2 ^ (maxSteps - 1)\<close> times
  it: the first \<open>n\<close> results of \<open>next\<close> after construction, and again after a reset.
\<close>

theorem backoff_doubles_to_cap:
  assumes "1 < maxSteps"
  shows "eb_delays n (ExponentialBackoff maxSteps start) =
      map (\<lambda>k. start * 2 ^ min k (maxSteps - 1)) [0..<n] \<and>
    eb_reset (snd (eb_next (ExponentialBackoff maxSteps start))) = ExponentialBackoff maxSteps start"
  using assms
  by (simp add: eb_delays_from ExponentialBackoff_def eb_reset_def eb_next_def Let_def)

theorem backoff_doubles_to_cap_witness:
  "eb_delays 5 (ExponentialBackoff 3 10) = [10, 20, 40, 40, 40]"
  using backoff_doubles_to_cap [of 3 5 10] by (simp add: upt_rec)

end
