(* ===== verification/PubSub.thy ===== *)
theory PubSub
  imports Ratelimit "HOL-Library.Sublist"
begin

text \<open>
  \<open>providers/liveupdates/BasicPubSubClient.hpp\<close> and \<open>BasicPubSubManager.hpp\<close>: live updates over a
  pool of websocket connections, each with at most \<open>maxSubscriptions\<close> subscriptions.

  The manager is a state machine.  Its handlers run on one thread, one per event: a call of
  \<open>subscribe\<close>, \<open>unsubscribe\<close> or \<open>stop\<close>, a connection that opened, failed or closed, a timer.  The
  websocket library is the environment: whether \<open>get_connection\<close> succeeds is an argument,
  \<open>pm_connecting\<close> counts the attempts that have not reported yet, \<open>pm_timers\<close> the reconnect timers
  that have not fired, \<open>pc_sent\<close> what was sent on a connection.  A failed \<open>assert\<close> is \<open>None\<close>.
\<close>

section \<open>One connection\<close>

datatype 's payload = EncodeSubscribe 's | EncodeUnsubscribe 's

record 's BasicPubSubClient =
  pc_maxSubscriptions :: nat
  pc_subscriptions :: "'s set"
  pc_started :: bool
  pc_sent :: "'s payload list"

definition BasicPubSubClient :: "nat \<Rightarrow> 's BasicPubSubClient" where
  "BasicPubSubClient maxSubscriptions =
     \<lparr>pc_maxSubscriptions = maxSubscriptions, pc_subscriptions = {}, pc_started = False, pc_sent = []\<rparr>"

definition pc_subscribe :: "'s \<Rightarrow> 's BasicPubSubClient \<Rightarrow> bool \<times> 's BasicPubSubClient" where
  "pc_subscribe sub c =
     (if card (pc_subscriptions c) \<ge> pc_maxSubscriptions c then (False, c)
      else if sub \<in> pc_subscriptions c then (True, c)
      else (True, c\<lparr>pc_subscriptions := insert sub (pc_subscriptions c),
                    pc_sent := pc_sent c @ [EncodeSubscribe sub]\<rparr>))"

definition pc_unsubscribe :: "'s \<Rightarrow> 's BasicPubSubClient \<Rightarrow> bool \<times> 's BasicPubSubClient" where
  "pc_unsubscribe sub c =
     (if sub \<notin> pc_subscriptions c then (False, c)
      else (True, c\<lparr>pc_subscriptions := pc_subscriptions c - {sub},
                    pc_sent := pc_sent c @ [EncodeUnsubscribe sub]\<rparr>))"

definition pc_start :: "'s BasicPubSubClient \<Rightarrow> 's BasicPubSubClient option" where
  "pc_start c = (if pc_started c then None else Some (c\<lparr>pc_started := True\<rparr>))"

definition pc_stop :: "'s BasicPubSubClient \<Rightarrow> 's BasicPubSubClient option" where
  "pc_stop c = (if pc_started c then Some (c\<lparr>pc_started := False\<rparr>) else None)"

section \<open>The manager\<close>

record ('h, 's) BasicPubSubManager =
  pm_clients :: "('h \<times> 's BasicPubSubClient) list"
  pm_pending :: "'s list"
  pm_addingClient :: bool
  pm_backoff :: ExponentialBackoff
  pm_stopping :: bool
  pm_connecting :: nat
  pm_timers :: "int list"

definition BasicPubSubManager :: "('h, 's) BasicPubSubManager" where
  "BasicPubSubManager =
     \<lparr>pm_clients = [], pm_pending = [], pm_addingClient = False,
      pm_backoff = ExponentialBackoff 5 1000, pm_stopping = False, pm_connecting = 0,
      pm_timers = []\<rparr>"

text \<open>\<open>ok\<close>: whether \<open>get_connection\<close> succeeds.  \<open>connect\<close> will report once, later.\<close>

definition addClient :: "bool \<Rightarrow> ('h, 's) BasicPubSubManager \<Rightarrow> ('h, 's) BasicPubSubManager" where
  "addClient ok m =
     (if pm_addingClient m then m
      else let m = m\<lparr>pm_addingClient := True\<rparr>
           in if \<not> ok then m else m\<lparr>pm_connecting := Suc (pm_connecting m)\<rparr>)"

fun trySubscribe ::
  "'s \<Rightarrow> ('h \<times> 's BasicPubSubClient) list \<Rightarrow> bool \<times> ('h \<times> 's BasicPubSubClient) list" where
  "trySubscribe sub [] = (False, [])"
| "trySubscribe sub ((h, c) # cs) =
     (case pc_subscribe sub c of
        (True, c') \<Rightarrow> (True, (h, c') # cs)
      | (False, c') \<Rightarrow> (let (b, cs') = trySubscribe sub cs in (b, (h, c') # cs')))"

definition pm_subscribe ::
  "bool \<Rightarrow> 's \<Rightarrow> ('h, 's) BasicPubSubManager \<Rightarrow> ('h, 's) BasicPubSubManager" where
  "pm_subscribe ok sub m =
     (let (done, clients) = trySubscribe sub (pm_clients m);
          m = m\<lparr>pm_clients := clients\<rparr>
      in if done then m
         else let m = addClient ok m in m\<lparr>pm_pending := pm_pending m @ [sub]\<rparr>)"

fun unsubscribe_loop ::
  "'s \<Rightarrow> ('h \<times> 's BasicPubSubClient) list \<Rightarrow> ('h \<times> 's BasicPubSubClient) list" where
  "unsubscribe_loop sub [] = []"
| "unsubscribe_loop sub ((h, c) # cs) =
     (case pc_unsubscribe sub c of
        (True, c') \<Rightarrow> (h, c') # cs
      | (False, c') \<Rightarrow> (h, c') # unsubscribe_loop sub cs)"

definition pm_unsubscribe ::
  "'s \<Rightarrow> ('h, 's) BasicPubSubManager \<Rightarrow> ('h, 's) BasicPubSubManager" where
  "pm_unsubscribe sub m = m\<lparr>pm_clients := unsubscribe_loop sub (pm_clients m)\<rparr>"

text \<open>
  The loop of \<open>onConnectionOpen\<close>, which takes the last pending subscription each time.  The first
  component tells whether it ended normally or by the early \<open>return\<close>.
\<close>

fun open_loop ::
  "nat \<Rightarrow> 's BasicPubSubClient \<Rightarrow> 's list \<Rightarrow> bool \<times> 's BasicPubSubClient \<times> 's list" where
  "open_loop 0 c pending = (True, c, pending)"
| "open_loop (Suc n) c pending =
     (if pending = [] then (True, c, pending)
      else case pc_subscribe (last pending) c of
             (False, c') \<Rightarrow> (False, c', butlast pending)
           | (True, c') \<Rightarrow> open_loop n c' (butlast pending))"

definition onConnectionOpen ::
  "bool \<Rightarrow> nat \<Rightarrow> 'h::linorder \<Rightarrow> ('h, 's) BasicPubSubManager \<Rightarrow>
   ('h, 's) BasicPubSubManager option" where
  "onConnectionOpen ok maxSubscriptions h m =
     (let m = m\<lparr>pm_addingClient := False, pm_backoff := eb_reset (pm_backoff m)\<rparr>
      in case pc_start (BasicPubSubClient maxSubscriptions) of
           None \<Rightarrow> None
         | Some client \<Rightarrow>
             let pendingSubsToTake = min (length (pm_pending m)) (pc_maxSubscriptions client);
                 (finished, client, pending) = open_loop pendingSubsToTake client (pm_pending m);
                 m = m\<lparr>pm_clients := (if h \<in> fst ` set (pm_clients m) then pm_clients m
                                      else omap_insert h client (pm_clients m)),
                       pm_pending := pending\<rparr>
             in Some (if finished \<and> pending \<noteq> [] then addClient ok m else m))"

definition onConnectionFail :: "('h, 's) BasicPubSubManager \<Rightarrow> ('h, 's) BasicPubSubManager" where
  "onConnectionFail m =
     (let m = m\<lparr>pm_addingClient := False\<rparr>
      in if pm_pending m \<noteq> []
         then let (delay, backoff) = eb_next (pm_backoff m)
              in m\<lparr>pm_backoff := backoff, pm_timers := pm_timers m @ [delay]\<rparr>
         else m)"

text \<open>
  The set of subscriptions is visited in the order the library iterates over it: \<open>subs\<close> is that
  order, any enumeration of the set.
\<close>

definition onConnectionClose ::
  "bool \<Rightarrow> 'h \<Rightarrow> 's list \<Rightarrow> ('h, 's) BasicPubSubManager \<Rightarrow> ('h, 's) BasicPubSubManager option" where
  "onConnectionClose ok h subs m =
     (case map_of (pm_clients m) h of
        None \<Rightarrow> None
      | Some client \<Rightarrow>
          let m = m\<lparr>pm_clients := omap_remove h (pm_clients m)\<rparr>
          in case pc_stop client of
               None \<Rightarrow> None
             | Some client \<Rightarrow>
                 Some (if \<not> pm_stopping m then fold (pm_subscribe ok) subs m else m))"

definition pm_stop :: "('h, 's) BasicPubSubManager \<Rightarrow> ('h, 's) BasicPubSubManager" where
  "pm_stop m = (if pm_stopping m then m else m\<lparr>pm_stopping := True\<rparr>)"

section \<open>The runs\<close>

datatype ('h, 's) event =
    Subscribe 's | Unsubscribe 's | Opened 'h | Failed | Closed 'h | TimerFired | Stopped

text \<open>
  One event.  The environment opens or fails a connection only when an attempt is under way, opens
  it under a new handle, closes a connection that is open, and fires a timer that is running.
  \<open>oks\<close> are the results \<open>get_connection\<close> may have.
\<close>

inductive pubsub_step ::
  "bool set \<Rightarrow> nat \<Rightarrow> ('h::linorder, 's) BasicPubSubManager \<Rightarrow> ('h, 's) event \<Rightarrow>
   ('h, 's) BasicPubSubManager option \<Rightarrow> bool" for oks :: "bool set" and maxSubs :: nat where
  subscribe: "ok \<in> oks \<Longrightarrow> pubsub_step oks maxSubs m (Subscribe s) (Some (pm_subscribe ok s m))"
| unsubscribe: "pubsub_step oks maxSubs m (Unsubscribe s) (Some (pm_unsubscribe s m))"
| opened: "ok \<in> oks \<Longrightarrow> 0 < pm_connecting m \<Longrightarrow> h \<notin> fst ` set (pm_clients m) \<Longrightarrow>
    pubsub_step oks maxSubs m (Opened h)
      (onConnectionOpen ok maxSubs h (m\<lparr>pm_connecting := pm_connecting m - 1\<rparr>))"
| failed: "0 < pm_connecting m \<Longrightarrow>
    pubsub_step oks maxSubs m Failed
      (Some (onConnectionFail (m\<lparr>pm_connecting := pm_connecting m - 1\<rparr>)))"
| closed: "ok \<in> oks \<Longrightarrow> map_of (pm_clients m) h = Some c \<Longrightarrow> distinct subs \<Longrightarrow>
    set subs = pc_subscriptions c \<Longrightarrow>
    pubsub_step oks maxSubs m (Closed h) (onConnectionClose ok h subs m)"
| timer: "ok \<in> oks \<Longrightarrow> pm_timers m = before @ d # after \<Longrightarrow>
    pubsub_step oks maxSubs m TimerFired
      (Some (addClient ok (m\<lparr>pm_timers := before @ after\<rparr>)))"
| stopped: "pubsub_step oks maxSubs m Stopped (Some (pm_stop m))"

inductive pubsub_run ::
  "bool set \<Rightarrow> nat \<Rightarrow> ('h::linorder, 's) event list \<Rightarrow> ('h, 's) BasicPubSubManager \<Rightarrow> bool"
  for oks :: "bool set" and maxSubs :: nat where
  init: "pubsub_run oks maxSubs [] BasicPubSubManager"
| step: "pubsub_run oks maxSubs es m \<Longrightarrow> pubsub_step oks maxSubs m e (Some m') \<Longrightarrow>
    pubsub_run oks maxSubs (es @ [e]) m'"

inductive_cases pubsub_stepE: "pubsub_step oks maxSubs m e r"

section \<open>Clients\<close>

text \<open>The subscriptions the server was told of.\<close>

fun told :: "'s payload \<Rightarrow> 's set \<Rightarrow> 's set" where
  "told (EncodeSubscribe s) S = insert s S"
| "told (EncodeUnsubscribe s) S = S - {s}"

definition client_ok :: "nat \<Rightarrow> 's BasicPubSubClient \<Rightarrow> bool" where
  "client_ok maxSubs c \<longleftrightarrow>
     finite (pc_subscriptions c) \<and> card (pc_subscriptions c) \<le> maxSubs \<and>
     pc_maxSubscriptions c = maxSubs \<and> fold told (pc_sent c) {} = pc_subscriptions c"

lemma client_ok_new: "client_ok n (BasicPubSubClient n)"
  by (simp add: client_ok_def BasicPubSubClient_def)

lemma pc_subscribe_ok:
  assumes "client_ok n c" "pc_subscribe s c = (b, c')"
  shows "client_ok n c' \<and> pc_started c' = pc_started c \<and>
    pc_subscriptions c' = (if b then insert s (pc_subscriptions c) else pc_subscriptions c) \<and>
    (b \<or> card (pc_subscriptions c) = n)"
proof (cases "n \<le> card (pc_subscriptions c)")
  case True
  with assms have "\<not> b" "c' = c" by (simp_all add: pc_subscribe_def client_ok_def)
  with assms(1) True show ?thesis by (simp add: client_ok_def)
next
  case False
  note room = this
  show ?thesis
  proof (cases "s \<in> pc_subscriptions c")
    case True
    with room assms have "b" "c' = c" by (simp_all add: pc_subscribe_def client_ok_def)
    with assms(1) True show ?thesis by (simp add: insert_absorb)
  next
    case False
    with room assms have "b" "c' = c\<lparr>pc_subscriptions := insert s (pc_subscriptions c),
        pc_sent := pc_sent c @ [EncodeSubscribe s]\<rparr>"
      by (simp_all add: pc_subscribe_def client_ok_def)
    with assms(1) False room show ?thesis by (simp add: client_ok_def)
  qed
qed

lemma pc_unsubscribe_ok:
  assumes "client_ok n c" "pc_unsubscribe s c = (b, c')"
  shows "client_ok n c' \<and> pc_started c' = pc_started c \<and>
    pc_subscriptions c' = pc_subscriptions c - {s}"
proof (cases "s \<in> pc_subscriptions c")
  case True
  with assms(2) have "c' = c\<lparr>pc_subscriptions := pc_subscriptions c - {s},
      pc_sent := pc_sent c @ [EncodeUnsubscribe s]\<rparr>"
    by (simp add: pc_unsubscribe_def)
  moreover have "card (pc_subscriptions c - {s}) \<le> n"
    using assms(1) card_Diff1_le [of "pc_subscriptions c" s] unfolding client_ok_def by linarith
  ultimately show ?thesis using assms(1) by (simp add: client_ok_def)
next
  case False
  with assms show ?thesis by (simp add: pc_unsubscribe_def)
qed

section \<open>The invariant of the pool\<close>

definition clients_ok :: "nat \<Rightarrow> ('h::linorder \<times> 's BasicPubSubClient) list \<Rightarrow> bool" where
  "clients_ok maxSubs cs \<longleftrightarrow>
     ordered cs \<and> (\<forall>c\<in>snd ` set cs. client_ok maxSubs c \<and> pc_started c)"

definition client_subs :: "('h \<times> 's BasicPubSubClient) list \<Rightarrow> 's set" where
  "client_subs cs = (\<Union>c\<in>snd ` set cs. pc_subscriptions c)"

definition all_subs :: "('h, 's) BasicPubSubManager \<Rightarrow> 's set" where
  "all_subs m = client_subs (pm_clients m) \<union> set (pm_pending m)"

lemma client_subs_simps [simp]:
  "client_subs [] = {}" "client_subs ((h, c) # cs) = pc_subscriptions c \<union> client_subs cs"
  by (auto simp: client_subs_def)

lemma clients_ok_Cons [simp]:
  "clients_ok n ((h, c) # cs) \<longleftrightarrow>
   (\<forall>k\<in>fst ` set cs. h < k) \<and> client_ok n c \<and> pc_started c \<and> clients_ok n cs"
  by (auto simp: clients_ok_def)

lemma clients_ok_Nil [simp]: "clients_ok n []"
  by (simp add: clients_ok_def)

lemma trySubscribe_ok:
  assumes "clients_ok n cs" "trySubscribe s cs = (b, cs')"
  shows "clients_ok n cs' \<and> fst ` set cs' = fst ` set cs \<and>
    client_subs cs' = (if b then insert s (client_subs cs) else client_subs cs)"
  using assms
proof (induction cs arbitrary: b cs')
  case (Cons hc cs)
  obtain h c where hc: "hc = (h, c)" by fastforce
  obtain d c' where c': "pc_subscribe s c = (d, c')" by fastforce
  have ok: "client_ok n c" "pc_started c" "\<forall>k\<in>fst ` set cs. h < k" "clients_ok n cs"
    using Cons.prems(1) by (simp_all add: hc)
  note sub = pc_subscribe_ok [OF ok(1) c']
  show ?case
  proof (cases d)
    case True
    with Cons.prems(2) c' have "b" "cs' = (h, c') # cs" by (simp_all add: hc)
    with sub ok True show ?thesis by (simp add: hc)
  next
    case False
    obtain e cs1 where cs1: "trySubscribe s cs = (e, cs1)" by fastforce
    with Cons.prems(2) c' False have "b = e" "cs' = (h, c') # cs1" by (simp_all add: hc)
    with Cons.IH [OF ok(4) cs1] sub ok False show ?thesis by (simp add: hc)
  qed
qed simp

lemma unsubscribe_loop_ok:
  assumes "clients_ok n cs"
  shows "clients_ok n (unsubscribe_loop s cs) \<and>
    fst ` set (unsubscribe_loop s cs) = fst ` set cs \<and>
    client_subs cs - {s} \<subseteq> client_subs (unsubscribe_loop s cs) \<and>
    client_subs (unsubscribe_loop s cs) \<subseteq> client_subs cs"
  using assms
proof (induction cs)
  case (Cons hc cs)
  obtain h c where hc: "hc = (h, c)" by fastforce
  obtain d c' where c': "pc_unsubscribe s c = (d, c')" by fastforce
  have ok: "client_ok n c" "pc_started c" "\<forall>k\<in>fst ` set cs. h < k" "clients_ok n cs"
    using Cons.prems by (simp_all add: hc)
  note sub = pc_unsubscribe_ok [OF ok(1) c']
  have "unsubscribe_loop s (hc # cs) = (h, c') # (if d then cs else unsubscribe_loop s cs)"
    by (simp add: hc c' split: bool.split)
  moreover have "fst ` set (unsubscribe_loop s cs) = fst ` set cs" using Cons.IH [OF ok(4)] by blast
  ultimately show ?case
    using Cons.IH [OF ok(4)] sub ok
    by (cases d) (simp_all add: hc del: unsubscribe_loop.simps split_paired_Ball_Sigma, blast+)
qed simp

text \<open>On a connection with room for \<open>n\<close> the loop never returns early, and loses nothing.\<close>

lemma open_loop_ok:
  assumes "client_ok k c" "card (pc_subscriptions c) + n \<le> k"
    and "open_loop n c pending = (b, c', pending')"
  shows "b \<and> client_ok k c' \<and> pc_started c' = pc_started c \<and>
    pc_subscriptions c' \<union> set pending' = pc_subscriptions c \<union> set pending \<and>
    length pending' = length pending - n"
  using assms
proof (induction n c pending rule: open_loop.induct)
  case (2 n c pending)
  show ?case
  proof (cases "pending = []")
    case False
    obtain d c1 where c1: "pc_subscribe (last pending) c = (d, c1)" by fastforce
    note ok = pc_subscribe_ok [OF 2(2) c1]
    then have d: "d" using 2(3) by auto
    then have subs: "pc_subscriptions c1 = insert (last pending) (pc_subscriptions c)"
      using ok by simp
    then have "card (pc_subscriptions c1) + n \<le> k"
      using 2(2,3) by (auto simp: client_ok_def card_insert_if)
    moreover have "open_loop n c1 (butlast pending) = (b, c', pending')"
      using 2(4) False c1 d by simp
    ultimately have "b \<and> client_ok k c' \<and> pc_started c' = pc_started c1 \<and>
        pc_subscriptions c' \<union> set pending' = pc_subscriptions c1 \<union> set (butlast pending) \<and>
        length pending' = length (butlast pending) - n"
      using 2(1) [OF False c1 [symmetric]] d ok by auto
    moreover have "set pending = insert (last pending) (set (butlast pending))"
      using False by (metis append_butlast_last_id list.set(2) rotate1.simps(2) set_rotate1)
    ultimately show ?thesis using subs ok by auto
  qed (use 2 in auto)
qed simp

section \<open>The handlers keep it\<close>

definition pm_inv :: "nat \<Rightarrow> ('h::linorder, 's) BasicPubSubManager \<Rightarrow> bool" where
  "pm_inv maxSubs m \<longleftrightarrow> clients_ok maxSubs (pm_clients m)"

lemma addClient_simps [simp]:
  "pm_clients (addClient ok m) = pm_clients m" "pm_pending (addClient ok m) = pm_pending m"
  "pm_timers (addClient ok m) = pm_timers m" "pm_stopping (addClient ok m) = pm_stopping m"
  "pm_addingClient (addClient ok m)"
  by (simp_all add: addClient_def Let_def)

lemma pm_subscribe_inv:
  assumes "pm_inv n m"
  shows "pm_inv n (pm_subscribe ok s m) \<and> all_subs (pm_subscribe ok s m) = insert s (all_subs m) \<and>
    fst ` set (pm_clients (pm_subscribe ok s m)) = fst ` set (pm_clients m)"
proof -
  obtain b cs where t: "trySubscribe s (pm_clients m) = (b, cs)" by fastforce
  with trySubscribe_ok [OF assms [unfolded pm_inv_def] t] show ?thesis
    by (auto simp: pm_subscribe_def pm_inv_def all_subs_def Let_def)
qed

lemma pm_subscribe_fold_inv:
  assumes "pm_inv n m"
  shows "pm_inv n (fold (pm_subscribe ok) subs m) \<and>
    all_subs (fold (pm_subscribe ok) subs m) = set subs \<union> all_subs m"
  using assms by (induction subs arbitrary: m) (auto simp: pm_subscribe_inv)

lemma pm_unsubscribe_inv:
  assumes "pm_inv n m"
  shows "pm_inv n (pm_unsubscribe s m) \<and> all_subs m - {s} \<subseteq> all_subs (pm_unsubscribe s m) \<and>
    all_subs (pm_unsubscribe s m) \<subseteq> all_subs m"
  using unsubscribe_loop_ok [OF assms [unfolded pm_inv_def], of s]
  by (auto simp: pm_unsubscribe_def pm_inv_def all_subs_def)

lemma client_subs_set: "set xs = set ys \<Longrightarrow> client_subs xs = client_subs ys"
  by (simp add: client_subs_def)

lemma clients_ok_insert:
  assumes "clients_ok n cs" "client_ok n c" "pc_started c" "h \<notin> fst ` set cs"
  shows "clients_ok n (omap_insert h c cs) \<and> client_subs (omap_insert h c cs) = pc_subscriptions c \<union> client_subs cs"
proof -
  have "set (omap_insert h c cs) = insert (h, c) (set cs)"
    using assms(4) by (induction h c cs rule: omap_insert.induct) auto
  moreover have "ordered (omap_insert h c cs)"
    using assms(1) by (intro ordered_insert(1)) (simp add: clients_ok_def)
  ultimately show ?thesis
    using assms by (auto simp: clients_ok_def client_subs_def)
qed

lemma onConnectionOpen_inv:
  assumes "pm_inv n m" "h \<notin> fst ` set (pm_clients m)"
  shows "\<exists>m'. onConnectionOpen ok n h m = Some m' \<and> pm_inv n m' \<and> all_subs m' = all_subs m \<and>
    pm_stopping m' = pm_stopping m \<and> pm_timers m' = pm_timers m \<and>
    (if pm_pending m' = [] then \<not> pm_addingClient m' \<and> pm_connecting m' = pm_connecting m
     else pm_addingClient m' \<and> pm_connecting m' = pm_connecting m + (if ok then 1 else 0))"
proof -
  let ?c = "(BasicPubSubClient n)\<lparr>pc_started := True\<rparr>"
  let ?k = "min (length (pm_pending m)) n"
  obtain b c' p' where loop: "open_loop ?k ?c (pm_pending m) = (b, c', p')" by (rule prod_cases3)
  have c: "client_ok n ?c" using client_ok_new [of n] by (simp add: client_ok_def)
  have empty: "pc_subscriptions ?c = {}" by (simp add: BasicPubSubClient_def)
  have room: "card (pc_subscriptions ?c) + ?k \<le> n" unfolding empty by simp
  from open_loop_ok [OF c room loop] have c': "b" "client_ok n c'" "pc_started c'"
    "pc_subscriptions c' \<union> set p' = set (pm_pending m)"
    unfolding empty by simp_all
  from clients_ok_insert [OF assms(1) [unfolded pm_inv_def] c'(2,3) assms(2)]
  have ins: "clients_ok n (omap_insert h c' (pm_clients m))"
    "client_subs (omap_insert h c' (pm_clients m)) = pc_subscriptions c' \<union> client_subs (pm_clients m)"
    by auto
  have st: "pc_start (BasicPubSubClient n) = Some ?c"
    by (simp add: pc_start_def BasicPubSubClient_def)
  have mx: "pc_maxSubscriptions ?c = n" by (simp add: BasicPubSubClient_def)
  have "onConnectionOpen ok n h m =
      (let m' = m\<lparr>pm_addingClient := False, pm_backoff := eb_reset (pm_backoff m),
                  pm_clients := omap_insert h c' (pm_clients m), pm_pending := p'\<rparr>
       in Some (if p' \<noteq> [] then addClient ok m' else m'))"
    unfolding onConnectionOpen_def Let_def st option.case mx using assms(2) c'(1)
    by (simp add: loop)
  then show ?thesis
    using ins c'(4) by (auto simp: pm_inv_def all_subs_def addClient_def Let_def)
qed

lemma map_of_ordered:
  "ordered cs \<Longrightarrow> map_of cs h = Some c \<longleftrightarrow> (h, c) \<in> set cs"
  by (rule map_of_eq_Some_iff) (auto simp: strict_sorted_iff)

lemma clients_ok_remove:
  assumes "clients_ok n cs" "map_of cs h = Some c"
  shows "clients_ok n (omap_remove h cs)" "client_subs cs = pc_subscriptions c \<union> client_subs (omap_remove h cs)"
    "client_ok n c" "pc_started c"
proof -
  have "ordered cs" using assms(1) by (simp add: clients_ok_def)
  then show "clients_ok n (omap_remove h cs)"
    using assms(1) by (auto simp: clients_ok_def ordered_remove) (auto simp: omap_remove_def)
  have hc: "(h, c) \<in> set cs" using assms(2) by (rule map_of_SomeD)
  then show "client_ok n c" "pc_started c" using assms(1) by (force simp: clients_ok_def)+
  have uniq: "c' = c" if "(h, c') \<in> set cs" for c'
    using that assms(2) map_of_ordered [OF \<open>ordered cs\<close>, of h c'] by simp
  have "set cs = insert (h, c) (set (omap_remove h cs))"
    using hc by (auto simp: omap_remove_def dest: uniq)
  then show "client_subs cs = pc_subscriptions c \<union> client_subs (omap_remove h cs)"
    by (simp add: client_subs_def)
qed

lemma onConnectionClose_inv:
  assumes "pm_inv n m" "map_of (pm_clients m) h = Some c" "set subs = pc_subscriptions c"
  shows "\<exists>m'. onConnectionClose ok h subs m = Some m' \<and> pm_inv n m' \<and>
    (if pm_stopping m then all_subs m' \<subseteq> all_subs m else all_subs m' = all_subs m)"
proof -
  let ?m = "m\<lparr>pm_clients := omap_remove h (pm_clients m)\<rparr>"
  note rem = clients_ok_remove [OF assms(1) [unfolded pm_inv_def] assms(2)]
  have inv: "pm_inv n ?m" using rem(1) by (simp add: pm_inv_def)
  have "onConnectionClose ok h subs m =
      Some (if \<not> pm_stopping m then fold (pm_subscribe ok) subs ?m else ?m)"
    using assms(2) rem(4) by (simp add: onConnectionClose_def pc_stop_def Let_def)
  then show ?thesis
    using pm_subscribe_fold_inv [OF inv, of ok subs] inv rem(2) assms(3)
    by (auto simp: all_subs_def)
qed

section \<open>Runs\<close>

text \<open>The subscriptions asked for and not given back.\<close>

definition wanted :: "('h, 's) event list \<Rightarrow> 's set" where
  "wanted es = fold (\<lambda>e W. case e of Subscribe s \<Rightarrow> insert s W | Unsubscribe s \<Rightarrow> W - {s} | _ \<Rightarrow> W) es {}"

lemma wanted_snoc:
  "wanted (es @ [e]) =
   (case e of Subscribe s \<Rightarrow> insert s (wanted es) | Unsubscribe s \<Rightarrow> wanted es - {s} | _ \<Rightarrow> wanted es)"
  by (simp add: wanted_def split: event.split)

lemma subscribe_stopping [simp]: "pm_stopping (pm_subscribe ok s m) = pm_stopping m"
  by (simp add: pm_subscribe_def Let_def split: prod.split)

lemma subscribe_fold_stopping [simp]:
  "pm_stopping (fold (pm_subscribe ok) subs m) = pm_stopping m"
  by (induction subs arbitrary: m) simp_all

lemma step_inv:
  assumes "pubsub_step oks n m e r" "pm_inv n m"
  shows "\<exists>m'. r = Some m' \<and> pm_inv n m' \<and>
    (\<not> pm_stopping m \<longrightarrow> pm_stopping m' = (e = Stopped) \<and>
      (\<forall>W \<subseteq> all_subs m. wanted [] = {} \<and>
        (case e of Subscribe s \<Rightarrow> insert s W | Unsubscribe s \<Rightarrow> W - {s} | _ \<Rightarrow> W) \<subseteq> all_subs m'))"
  using assms(1)
proof cases
  case (subscribe ok s)
  with pm_subscribe_inv [OF assms(2), of ok s] show ?thesis by (auto simp: wanted_def)
next
  case (unsubscribe s)
  with pm_unsubscribe_inv [OF assms(2), of s] show ?thesis
    by (auto simp: wanted_def pm_unsubscribe_def)
next
  case (opened ok h)
  let ?m = "m\<lparr>pm_connecting := pm_connecting m - 1\<rparr>"
  have "pm_inv n ?m" "h \<notin> fst ` set (pm_clients ?m)" "all_subs ?m = all_subs m"
    using assms(2) opened by (auto simp: pm_inv_def all_subs_def)
  with onConnectionOpen_inv [of n ?m h ok] opened show ?thesis by (auto simp: wanted_def)
next
  case failed
  then show ?thesis
    using assms(2)
    by (auto simp: onConnectionFail_def pm_inv_def all_subs_def wanted_def Let_def split: prod.split)
next
  case (closed ok h c subs)
  with onConnectionClose_inv [OF assms(2) closed(4) closed(6), of ok]
  obtain m' where m': "r = Some m'" "pm_inv n m'"
    "if pm_stopping m then all_subs m' \<subseteq> all_subs m else all_subs m' = all_subs m" by auto
  have "pm_stopping m' = pm_stopping m"
    using m'(1) closed(2) by (auto simp: onConnectionClose_def Let_def split: option.splits if_splits)
  with m' closed(1) show ?thesis by (auto simp: wanted_def)
next
  case (timer ok before d "after")
  then show ?thesis using assms(2) by (auto simp: pm_inv_def all_subs_def wanted_def)
next
  case stopped
  then show ?thesis using assms(2) by (auto simp: pm_stop_def pm_inv_def all_subs_def wanted_def)
qed

lemma run_inv:
  "pubsub_run oks n es m \<Longrightarrow>
   pm_inv n m \<and> (Stopped \<notin> set es \<longrightarrow> \<not> pm_stopping m \<and> wanted es \<subseteq> all_subs m)"
proof (induction rule: pubsub_run.induct)
  case init
  then show ?case by (simp add: pm_inv_def BasicPubSubManager_def wanted_def)
next
  case (step es m e m')
  from step_inv [OF step.hyps(2)] step.IH have inv: "pm_inv n m'"
    and s: "\<not> pm_stopping m \<longrightarrow> pm_stopping m' = (e = Stopped) \<and>
      (\<forall>W \<subseteq> all_subs m. wanted [] = {} \<and>
        (case e of Subscribe s \<Rightarrow> insert s W | Unsubscribe s \<Rightarrow> W - {s} | _ \<Rightarrow> W) \<subseteq> all_subs m')"
    by auto
  have "\<not> pm_stopping m' \<and> wanted (es @ [e]) \<subseteq> all_subs m'" if "Stopped \<notin> set (es @ [e])"
    using that s step.IH unfolding wanted_snoc by auto
  with inv show ?case by blast
qed

text \<open>Every pending subscription has an attempt or a timer to wait for.\<close>

definition served :: "('h, 's) BasicPubSubManager \<Rightarrow> bool" where
  "served m \<longleftrightarrow> pm_connecting m = (if pm_addingClient m then 1 else 0) \<and>
     (pm_pending m = [] \<or> 0 < pm_connecting m \<or> pm_timers m \<noteq> [])"

lemma served_subscribe: "served m \<Longrightarrow> served (pm_subscribe True s m)"
  by (auto simp: served_def pm_subscribe_def addClient_def Let_def split: prod.split)

lemma served_subscribe_fold: "served m \<Longrightarrow> served (fold (pm_subscribe True) subs m)"
  by (induction subs arbitrary: m) (simp_all add: served_subscribe)

lemma served_step:
  assumes "pubsub_step {True} n m e (Some m')" "pm_inv n m" "served m"
  shows "served m'"
  using assms(1)
proof cases
  case (opened ok h)
  let ?m = "m\<lparr>pm_connecting := pm_connecting m - 1\<rparr>"
  have "pm_inv n ?m" "h \<notin> fst ` set (pm_clients ?m)"
    using assms(2) opened by (auto simp: pm_inv_def)
  from onConnectionOpen_inv [OF this, of ok] opened
  have "if pm_pending m' = [] then \<not> pm_addingClient m' \<and> pm_connecting m' = pm_connecting m - 1
     else pm_addingClient m' \<and> pm_connecting m' = pm_connecting m - 1 + 1" by auto
  moreover have "pm_connecting m \<le> 1" using assms(3) by (auto simp: served_def)
  ultimately show ?thesis by (auto simp: served_def split: if_splits)
next
  case (closed ok h c subs)
  then show ?thesis
    using assms(3) served_subscribe_fold [of "m\<lparr>pm_clients := omap_remove h (pm_clients m)\<rparr>" subs]
    by (auto simp: onConnectionClose_def Let_def served_def split: option.splits if_splits)
next
  case failed
  then show ?thesis
    using assms(3) by (auto simp: served_def onConnectionFail_def Let_def split: prod.splits if_splits)
next
  case (subscribe ok s)
  then show ?thesis using served_subscribe [OF assms(3)] by simp
qed (use assms(3) in
  \<open>auto simp: served_def pm_unsubscribe_def pm_stop_def addClient_def Let_def split: if_splits\<close>)

lemma run_served: "pubsub_run {True} n es m \<Longrightarrow> served m"
proof (induction rule: pubsub_run.induct)
  case init
  then show ?case by (simp add: served_def BasicPubSubManager_def)
next
  case (step es m e m')
  with served_step run_inv show ?case by blast
qed

text \<open>What stays as it is while \<open>addingClient_\<close> is set and nothing is under way.\<close>

definition stuck_from ::
  "('h, 's) BasicPubSubManager \<Rightarrow> ('h, 's) BasicPubSubManager \<Rightarrow> bool" where
  "stuck_from m m' \<longleftrightarrow> pm_addingClient m' \<and> pm_connecting m' = 0 \<and>
     fst ` set (pm_clients m') \<subseteq> fst ` set (pm_clients m) \<and> prefix (pm_pending m) (pm_pending m')"

lemma trySubscribe_keys: "trySubscribe s cs = (b, cs') \<Longrightarrow> fst ` set cs' = fst ` set cs"
proof (induction cs arbitrary: b cs')
  case (Cons hc cs)
  obtain h c d c' e cs1 where
    eqs: "hc = (h, c)" "pc_subscribe s c = (d, c')" "trySubscribe s cs = (e, cs1)"
    by (metis surj_pair)
  with Cons.prems have "cs' = (h, c') # (if d then cs else cs1)"
    by (cases d) simp_all
  with eqs(1) Cons.IH [OF eqs(3)] show ?case by simp
qed simp

lemma unsubscribe_keys: "fst ` set (unsubscribe_loop s cs) = fst ` set cs"
proof (induction cs)
  case (Cons hc cs)
  obtain h c where "hc = (h, c)" by fastforce
  moreover obtain d c' where "pc_unsubscribe s c = (d, c')" by fastforce
  ultimately show ?case using Cons by (cases d) simp_all
qed simp

lemma stuck_subscribe:
  assumes "stuck_from m0 m"
  shows "stuck_from m0 (pm_subscribe ok s m)"
proof -
  obtain b cs where t: "trySubscribe s (pm_clients m) = (b, cs)" by fastforce
  from trySubscribe_keys [OF t] assms show ?thesis
    by (auto simp: stuck_from_def pm_subscribe_def t addClient_def prefix_def Let_def)
qed

lemma stuck_subscribe_fold:
  "stuck_from m0 m \<Longrightarrow> stuck_from m0 (fold (pm_subscribe ok) subs m)"
  by (induction subs arbitrary: m) (simp_all add: stuck_subscribe)

lemma stuck_step:
  assumes "pm_addingClient m" "pm_connecting m = 0" "pubsub_step oks maxSubs m e (Some m')"
  shows "stuck_from m m'"
  using assms(3)
proof cases
  case (subscribe ok s)
  have "stuck_from m m" using assms(1,2) by (simp add: stuck_from_def)
  with subscribe show ?thesis by (simp add: stuck_subscribe)
next
  case (closed ok h c subs)
  have "stuck_from m (m\<lparr>pm_clients := omap_remove h (pm_clients m)\<rparr>)"
    using assms(1,2) by (auto simp: stuck_from_def omap_remove_def)
  with closed show ?thesis
    by (auto simp: onConnectionClose_def Let_def stuck_subscribe_fold split: option.splits if_splits)
qed (use assms(1,2) in
  \<open>auto simp: stuck_from_def pm_unsubscribe_def unsubscribe_keys pm_stop_def addClient_def\<close>)

section \<open>Properties\<close>

text \<open>
  C3. No live-update subscription is lost: after any sequence of calls, connections opening,
  failing and closing, and timers firing, in any order and with any failures to get a connection,
  every subscription asked for and not given back is held by a connection or is pending, as long
  as the manager was not stopped.  No assertion of the handlers fails on the way.
\<close>

theorem pubsub_no_subscription_lost:
  assumes "pubsub_run oks maxSubs es m" "Stopped \<notin> set es" "pubsub_step oks maxSubs m e r"
  shows "wanted es \<subseteq> all_subs m \<and> r \<noteq> None"
proof -
  from run_inv [OF assms(1)] have "pm_inv maxSubs m" "wanted es \<subseteq> all_subs m" using assms(2) by auto
  with step_inv [OF assms(3)] show ?thesis by auto
qed

theorem pubsub_no_subscription_lost_witness:
  "\<exists>m :: (nat, nat) BasicPubSubManager.
     pubsub_run {True} 2 [Subscribe 5, Opened 1] m \<and> 5 \<in> all_subs m"
proof -
  let ?m = "pm_subscribe True 5 BasicPubSubManager :: (nat, nat) BasicPubSubManager"
  have run: "pubsub_run {True} 2 ([] @ [Subscribe 5]) ?m"
    by (rule pubsub_run.step [OF pubsub_run.init pubsub_step.subscribe]) simp
  have m: "0 < pm_connecting ?m" "pm_clients ?m = []"
    by (simp_all add: pm_subscribe_def BasicPubSubManager_def addClient_def Let_def)
  then have open_step: "pubsub_step {True} 2 ?m (Opened 1)
      (onConnectionOpen True 2 1 (?m\<lparr>pm_connecting := pm_connecting ?m - 1\<rparr>))"
    by (intro pubsub_step.opened) auto
  from pubsub_no_subscription_lost [OF run _ open_step]
  obtain m' where "onConnectionOpen True 2 1 (?m\<lparr>pm_connecting := pm_connecting ?m - 1\<rparr>) = Some m'"
    by auto
  with open_step have step: "pubsub_step {True} 2 ?m (Opened 1) (Some m')" by simp
  from pubsub_run.step [OF run step] have run': "pubsub_run {True} 2 [Subscribe 5, Opened 1] m'" by simp
  from pubsub_no_subscription_lost [OF run' _ pubsub_step.stopped] run'
  show ?thesis by (auto simp: wanted_def)
qed

text \<open>
  In every reachable state every connection is started, holds at most \<open>maxSubscriptions\<close>
  subscriptions, and holds exactly those the server was told of by the messages sent on it.
\<close>

theorem pubsub_connections_consistent:
  assumes "pubsub_run oks maxSubs es m" "(h, c) \<in> set (pm_clients m)"
  shows "card (pc_subscriptions c) \<le> maxSubs \<and> pc_started c \<and>
    fold told (pc_sent c) {} = pc_subscriptions c"
  using run_inv [OF assms(1)] assms(2)
  by (force simp: pm_inv_def clients_ok_def client_ok_def)

theorem pubsub_connections_consistent_witness:
  "\<exists>c :: nat BasicPubSubClient. pc_subscriptions c = {7} \<and> card (pc_subscriptions c) \<le> 2"
proof -
  let ?m = "pm_subscribe True 7 BasicPubSubManager :: (nat, nat) BasicPubSubManager"
  have run: "pubsub_run {True} 2 ([] @ [Subscribe 7]) ?m"
    by (rule pubsub_run.step [OF pubsub_run.init pubsub_step.subscribe]) simp
  have m: "0 < pm_connecting ?m" "pm_clients ?m = []"
    by (simp_all add: pm_subscribe_def BasicPubSubManager_def addClient_def Let_def)
  let ?c = "\<lparr>pc_maxSubscriptions = 2, pc_subscriptions = {7}, pc_started = True,
    pc_sent = [EncodeSubscribe 7]\<rparr> :: nat BasicPubSubClient"
  have "map_option pm_clients (onConnectionOpen True 2 1
      (?m\<lparr>pm_connecting := pm_connecting ?m - 1\<rparr>)) = Some [(1, ?c)]"
    by (simp add: onConnectionOpen_def pm_subscribe_def BasicPubSubManager_def addClient_def
        pc_start_def BasicPubSubClient_def pc_subscribe_def ExponentialBackoff_def eb_reset_def Let_def)
  then obtain m' where m': "onConnectionOpen True 2 1
      (?m\<lparr>pm_connecting := pm_connecting ?m - 1\<rparr>) = Some m'" "pm_clients m' = [(1, ?c)]"
    by (auto simp: map_option_eq_Some)
  have "pubsub_step {True} 2 ?m (Opened 1) (Some m')"
    unfolding m'(1) [symmetric] using m by (intro pubsub_step.opened) auto
  from pubsub_run.step [OF run this] have "pubsub_run {True} 2 [Subscribe 7, Opened 1] m'" by simp
  from pubsub_connections_consistent [OF this, of 1 ?c] m'(2)
  have "card (pc_subscriptions ?c) \<le> 2" by simp
  then show ?thesis by (intro exI [of _ ?c] conjI) simp_all
qed

text \<open>
  C16. Progress: as long as the library can make connections, at most one attempt is under way, the
  flag \<open>addingClient_\<close> tells whether, and a pending subscription always has an attempt or a
  reconnect timer to wait for.
\<close>

theorem pubsub_pending_is_served:
  assumes "pubsub_run {True} maxSubs es m"
  shows "pm_connecting m \<le> 1 \<and> pm_addingClient m = (pm_connecting m = 1) \<and>
    (pm_pending m = [] \<or> pm_connecting m = 1 \<or> pm_timers m \<noteq> [])"
  using run_served [OF assms] by (auto simp: served_def split: if_splits)

text \<open>
  When \<open>get_connection\<close> fails once, \<open>addingClient_\<close> stays set although nothing is under way,
  and this lasts: from such a state every event leads to such a state, no connection is ever
  added, and the pending subscriptions only grow.
\<close>

theorem pubsub_stuck_forever:
  assumes "pm_addingClient m" "pm_connecting m = 0" "pubsub_step oks maxSubs m e (Some m')"
  shows "pm_addingClient m' \<and> pm_connecting m' = 0 \<and>
    fst ` set (pm_clients m') \<subseteq> fst ` set (pm_clients m) \<and> prefix (pm_pending m) (pm_pending m')"
proof -
  have "stuck_from m m'"
    by (rule stuck_step [OF assms])
  then show ?thesis by (simp add: stuck_from_def)
qed

theorem pubsub_pending_is_served_witness:
  "pm_connecting (pm_subscribe True 7 BasicPubSubManager :: (nat, nat) BasicPubSubManager) = 1"
proof -
  let ?m = "pm_subscribe True 7 BasicPubSubManager :: (nat, nat) BasicPubSubManager"
  have run: "pubsub_run {True} 2 ([] @ [Subscribe 7]) ?m"
    by (rule pubsub_run.step [OF pubsub_run.init pubsub_step.subscribe]) simp
  have "pm_pending ?m = [7]" "pm_timers ?m = []"
    by (simp_all add: pm_subscribe_def BasicPubSubManager_def)
  with pubsub_pending_is_served [OF run] show ?thesis by simp
qed

theorem pubsub_stuck_forever_witness:
  "let m = pm_subscribe False 1 BasicPubSubManager :: (nat, nat) BasicPubSubManager;
       m' = pm_subscribe True 2 m
   in pm_connecting m' = 0 \<and> prefix [1] (pm_pending m')"
proof -
  let ?m = "pm_subscribe False 1 BasicPubSubManager :: (nat, nat) BasicPubSubManager"
  have m: "pm_addingClient ?m" "pm_connecting ?m = 0" "pm_pending ?m = [1]"
    by (simp_all add: pm_subscribe_def BasicPubSubManager_def addClient_def Let_def)
  have "pubsub_step UNIV 2 ?m (Subscribe 2) (Some (pm_subscribe True 2 ?m))"
    by (rule pubsub_step.subscribe) simp
  from pubsub_stuck_forever [OF m(1,2) this] m(3) show ?thesis by (simp add: Let_def)
qed

text \<open>
  Giving back a subscription that is still pending has no effect: it stays pending, and the
  next connection subscribes to it.
\<close>

theorem pubsub_unsubscribe_ignores_pending:
  assumes "pm_inv maxSubs m" "h \<notin> fst ` set (pm_clients m)" "s \<in> set (pm_pending m)"
    and "onConnectionOpen ok maxSubs h (pm_unsubscribe s m) = Some m'"
  shows "s \<in> set (pm_pending (pm_unsubscribe s m)) \<and> s \<in> all_subs m'"
proof -
  have "pm_inv maxSubs (pm_unsubscribe s m)"
    "h \<notin> fst ` set (pm_clients (pm_unsubscribe s m))"
    using pm_unsubscribe_inv [OF assms(1)] assms(2) by (auto simp: pm_unsubscribe_def unsubscribe_keys)
  from onConnectionOpen_inv [OF this, of ok] assms(3,4) show ?thesis
    by (auto simp: pm_unsubscribe_def all_subs_def)
qed

theorem pubsub_unsubscribe_ignores_pending_witness:
  "let m = pm_subscribe True 1 BasicPubSubManager :: (nat, nat) BasicPubSubManager
   in \<exists>m'. onConnectionOpen True 2 9 (pm_unsubscribe 1 m) = Some m' \<and> 1 \<in> all_subs m'"
proof -
  let ?m = "pm_subscribe True 1 BasicPubSubManager :: (nat, nat) BasicPubSubManager"
  have m: "pm_inv 2 ?m" "9 \<notin> fst ` set (pm_clients ?m)" "1 \<in> set (pm_pending ?m)"
    by (simp_all add: pm_inv_def pm_subscribe_def BasicPubSubManager_def)
  have "pm_inv 2 (pm_unsubscribe 1 ?m)" "9 \<notin> fst ` set (pm_clients (pm_unsubscribe 1 ?m))"
    using pm_unsubscribe_inv [OF m(1)] m(2) by (auto simp: pm_unsubscribe_def unsubscribe_keys)
  from onConnectionOpen_inv [OF this, of True]
  obtain m' where "onConnectionOpen True 2 9 (pm_unsubscribe 1 ?m) = Some m'" by blast
  with pubsub_unsubscribe_ignores_pending [OF m this] show ?thesis by auto
qed

end
