(* ===== verification/SignalVector.thy ===== *)
theory SignalVector
  imports Prelude "HOL-Library.Multiset"
begin

text \<open>
  \<open>common/SignalVector.hpp\<close>: an ordered vector that signals its changes.

  Every modifier invokes a signal between changing the items and refreshing the read-only copy.
  The listeners connected to the signals are an argument of the modifiers, \<open>notify\<close>, which changes
  the listeners' state and may fail; the caller id of a signal is \<open>None\<close> for a null pointer.
  A failed \<open>assert\<close> is an error value.  Positions are unbounded integers: a vector of 2^31 items
  does not fit in memory.
\<close>

section \<open>State and signals\<close>

datatype vector_error = AssertionFailed | BadOptionalAccess | OutOfRange

type_synonym Caller = "nat option"

record 'a SignalVectorItemEvent =
  event_item :: 'a
  event_index :: int
  event_caller :: Caller

datatype 'a vector_signal =
    ItemInserted "'a SignalVectorItemEvent"
  | ItemRemoved "'a SignalVectorItemEvent"
  | DelayedItemsChanged

type_synonym ('a, 's) listener = "'a vector_signal \<Rightarrow> 's \<Rightarrow> vector_error + 's"

record 'a SignalVector =
  sv_items :: "'a list"
  sv_readOnly :: "'a list"
  sv_timerActive :: bool
  sv_compare :: "('a \<Rightarrow> 'a \<Rightarrow> bool) option"

definition SignalVector :: "'a SignalVector" where
  "SignalVector = \<lparr>sv_items = [], sv_readOnly = [], sv_timerActive = False, sv_compare = None\<rparr>"

definition SignalVector_sorted :: "('a \<Rightarrow> 'a \<Rightarrow> bool) \<Rightarrow> 'a SignalVector" where
  "SignalVector_sorted cmp = SignalVector\<lparr>sv_compare := Some cmp\<rparr>"

section \<open>Operations\<close>

definition sv_isSorted :: "'a SignalVector \<Rightarrow> bool" where
  "sv_isSorted v = (sv_compare v \<noteq> None)"

definition itemsChanged :: "'a SignalVector \<Rightarrow> 'a SignalVector" where
  "itemsChanged v = v\<lparr>sv_timerActive := True, sv_readOnly := sv_items v\<rparr>"

text \<open>\<open>std::lower_bound\<close> returns the first position whose element is not less than the value.\<close>

definition lower_bound :: "('a \<Rightarrow> 'a \<Rightarrow> bool) \<Rightarrow> 'a list \<Rightarrow> 'a \<Rightarrow> nat" where
  "lower_bound cmp xs x = length (takeWhile (\<lambda>y. cmp y x) xs)"

definition sv_insert ::
  "('a, 's) listener \<Rightarrow> 'a \<Rightarrow> int \<Rightarrow> Caller \<Rightarrow> 'a SignalVector \<Rightarrow> 's \<Rightarrow>
   vector_error + ('a SignalVector \<times> 's \<times> int)" where
  "sv_insert notify item index caller v s =
     bind_sum
       (case sv_compare v of
          Some cmp \<Rightarrow> Inr (int (lower_bound cmp (sv_items v) item))
        | None \<Rightarrow>
            if index = -1 then Inr (int (length (sv_items v)))
            else if index \<ge> 0 \<and> index \<le> int (length (sv_items v)) then Inr index
            else Inl AssertionFailed)
       (\<lambda>index.
          let v = v\<lparr>sv_items := insert_at (nat index) item (sv_items v)\<rparr>
          in bind_sum
               (notify (ItemInserted \<lparr>event_item = item, event_index = index,
                  event_caller = caller\<rparr>) s)
               (\<lambda>s. Inr (itemsChanged v, s, index)))"

definition sv_append ::
  "('a, 's) listener \<Rightarrow> 'a \<Rightarrow> Caller \<Rightarrow> 'a SignalVector \<Rightarrow> 's \<Rightarrow>
   vector_error + ('a SignalVector \<times> 's \<times> int)" where
  "sv_append notify item caller v s = sv_insert notify item (-1) caller v s"

definition sv_removeAt ::
  "('a, 's) listener \<Rightarrow> int \<Rightarrow> Caller \<Rightarrow> 'a SignalVector \<Rightarrow> 's \<Rightarrow>
   vector_error + ('a SignalVector \<times> 's)" where
  "sv_removeAt notify index caller v s =
     (if index \<ge> 0 \<and> index < int (length (sv_items v))
      then
        let item = sv_items v ! nat index;
            v = v\<lparr>sv_items := erase_at (nat index) (sv_items v)\<rparr>
        in bind_sum
             (notify (ItemRemoved \<lparr>event_item = item, event_index = index,
                event_caller = caller\<rparr>) s)
             (\<lambda>s. Inr (itemsChanged v, s))
      else Inl AssertionFailed)"

definition sv_removeFirstMatching ::
  "('a, 's) listener \<Rightarrow> ('a \<Rightarrow> bool) \<Rightarrow> Caller \<Rightarrow> 'a SignalVector \<Rightarrow> 's \<Rightarrow>
   vector_error + ('a SignalVector \<times> 's \<times> bool)" where
  "sv_removeFirstMatching notify matcher caller v s =
     (case first_index matcher (sv_items v) of
        None \<Rightarrow> Inr (v, s, False)
      | Some index \<Rightarrow>
          let item = sv_items v ! index;
              v = v\<lparr>sv_items := erase_at index (sv_items v)\<rparr>
          in bind_sum
               (notify (ItemRemoved \<lparr>event_item = item, event_index = int index,
                  event_caller = caller\<rparr>) s)
               (\<lambda>s. Inr (itemsChanged v, s, True)))"

text \<open>The single-shot timer of 100 ms fires.\<close>

definition sv_timeout ::
  "('a, 's) listener \<Rightarrow> 'a SignalVector \<Rightarrow> 's \<Rightarrow> vector_error + ('a SignalVector \<times> 's)" where
  "sv_timeout notify v s =
     (if sv_timerActive v
      then bind_sum (notify DelayedItemsChanged s) (\<lambda>s. Inr (v\<lparr>sv_timerActive := False\<rparr>, s))
      else Inr (v, s))"

definition sv_empty :: "'a SignalVector \<Rightarrow> bool" where
  "sv_empty v = (sv_items v = [])"

section \<open>Sorted vectors\<close>

text \<open>What \<open>std::lower_bound\<close> asks of a comparison.\<close>

definition strict_weak_order :: "('a \<Rightarrow> 'a \<Rightarrow> bool) \<Rightarrow> bool" where
  "strict_weak_order cmp \<longleftrightarrow>
     asymp cmp \<and> transp cmp \<and> (\<forall>x y z. cmp x z \<longrightarrow> cmp x y \<or> cmp y z)"

definition sorted_by :: "('a \<Rightarrow> 'a \<Rightarrow> bool) \<Rightarrow> 'a list \<Rightarrow> bool" where
  "sorted_by cmp xs = sorted_wrt (\<lambda>a b. \<not> cmp b a) xs"

lemma lower_bound_le: "lower_bound cmp xs x \<le> length xs"
  by (simp add: lower_bound_def length_takeWhile_le)

lemma insert_lower_bound:
  "insert_at (lower_bound cmp xs x) x xs =
     takeWhile (\<lambda>y. cmp y x) xs @ x # dropWhile (\<lambda>y. cmp y x) xs"
  by (simp add: insert_at_def lower_bound_def takeWhile_eq_take [symmetric]
      dropWhile_eq_drop [symmetric])

lemma sorted_by_around:
  assumes "sorted_by cmp (ys @ zs)"
    and "\<forall>y\<in>set ys. \<not> cmp x y" and "\<forall>z\<in>set zs. \<not> cmp z x"
  shows "sorted_by cmp (ys @ x # zs)"
  using assms by (simp add: sorted_by_def sorted_wrt_append)

lemma sorted_by_insert:
  assumes "strict_weak_order cmp" "sorted_by cmp xs"
  shows "sorted_by cmp (insert_at (lower_bound cmp xs x) x xs)"
  unfolding insert_lower_bound
proof (rule sorted_by_around)
  have order: "asymp cmp" "\<And>a b c. cmp a c \<Longrightarrow> cmp a b \<or> cmp b c"
    using assms(1) unfolding strict_weak_order_def by blast+
  show "sorted_by cmp (takeWhile (\<lambda>y. cmp y x) xs @ dropWhile (\<lambda>y. cmp y x) xs)"
    using assms(2) by simp
  show "\<forall>y\<in>set (takeWhile (\<lambda>y. cmp y x) xs). \<not> cmp x y"
    using asympD [OF order(1)] by (blast dest: set_takeWhileD)
  show "\<forall>z\<in>set (dropWhile (\<lambda>y. cmp y x) xs). \<not> cmp z x"
    using assms(2)
  proof (induction xs)
    case (Cons w ws)
    show ?case
    proof (cases "cmp w x")
      case True
      then have "dropWhile (\<lambda>y. cmp y x) (w # ws) = dropWhile (\<lambda>y. cmp y x) ws" by simp
      moreover have "sorted_by cmp ws" using Cons.prems by (simp add: sorted_by_def)
      ultimately show ?thesis using Cons.IH by metis
    next
      case False
      have "\<forall>y\<in>set (w # ws). y = w \<or> \<not> cmp y w"
        using Cons.prems unfolding sorted_by_def by simp
      then have "\<forall>y\<in>set (w # ws). \<not> cmp y x"
        using False order(2) [of _ x w] by metis
      moreover have "dropWhile (\<lambda>y. cmp y x) (w # ws) = w # ws" using False by simp
      ultimately show ?thesis by (simp only:)
    qed
  qed simp
qed

lemma sorted_by_erase: "sorted_by cmp xs \<Longrightarrow> sorted_by cmp (erase_at i xs)"
proof (induction xs arbitrary: i)
  case (Cons x xs)
  show ?case
  proof (cases i)
    case (Suc j)
    with Cons set_erase_at_subset [of j xs] show ?thesis by (auto simp: sorted_by_def)
  qed (use Cons.prems in \<open>simp add: sorted_by_def\<close>)
qed (simp add: erase_at_def)

section \<open>What a listener can rely on\<close>

text \<open>The vector after an insertion or a removal, and the position an insertion ends up at.\<close>

definition insert_position :: "'a \<Rightarrow> int \<Rightarrow> 'a SignalVector \<Rightarrow> nat" where
  "insert_position item index v =
     (case sv_compare v of Some cmp \<Rightarrow> lower_bound cmp (sv_items v) item
      | None \<Rightarrow> if index = -1 then length (sv_items v) else nat index)"

definition inserted_vector :: "'a \<Rightarrow> nat \<Rightarrow> 'a SignalVector \<Rightarrow> 'a SignalVector" where
  "inserted_vector item i v = itemsChanged (v\<lparr>sv_items := insert_at i item (sv_items v)\<rparr>)"

definition removed_vector :: "nat \<Rightarrow> 'a SignalVector \<Rightarrow> 'a SignalVector" where
  "removed_vector i v = itemsChanged (v\<lparr>sv_items := erase_at i (sv_items v)\<rparr>)"

lemma changed_vector_simps [simp]:
  "sv_items (inserted_vector item i v) = insert_at i item (sv_items v)"
  "sv_readOnly (inserted_vector item i v) = insert_at i item (sv_items v)"
  "sv_compare (inserted_vector item i v) = sv_compare v"
  "sv_timerActive (inserted_vector item i v)"
  "sv_items (removed_vector i v) = erase_at i (sv_items v)"
  "sv_readOnly (removed_vector i v) = erase_at i (sv_items v)"
  "sv_compare (removed_vector i v) = sv_compare v"
  "sv_timerActive (removed_vector i v)"
  by (simp_all add: inserted_vector_def removed_vector_def itemsChanged_def)

text \<open>
  A listener mirrors the vector: it shows a list of items, and follows every signal that was not
  caused by itself.  The model rows of a table are such a view.
\<close>

locale vector_mirror =
  fixes notify :: "('a, 's) listener" and mirrors :: "'s \<Rightarrow> 'a list \<Rightarrow> bool"
    and ours :: "Caller \<Rightarrow> bool"
  assumes inserted: "mirrors s xs \<Longrightarrow> \<not> ours (event_caller e) \<Longrightarrow> event_index e = int i \<Longrightarrow>
      i \<le> length xs \<Longrightarrow>
      \<exists>s'. notify (ItemInserted e) s = Inr s' \<and> mirrors s' (insert_at i (event_item e) xs)"
    and removed: "mirrors s xs \<Longrightarrow> \<not> ours (event_caller e) \<Longrightarrow> event_index e = int i \<Longrightarrow>
      i < length xs \<Longrightarrow> event_item e = xs ! i \<Longrightarrow>
      \<exists>s'. notify (ItemRemoved e) s = Inr s' \<and> mirrors s' (erase_at i xs)"
begin

text \<open>Where an insertion ends up.\<close>

lemma insert_sync:
  assumes "mirrors s (sv_items v)" "\<not> ours caller"
    and "sv_compare v = None \<Longrightarrow> -1 \<le> index \<and> index \<le> int (length (sv_items v))"
  obtains s' where "sv_insert notify item index caller v s =
      Inr (inserted_vector item (insert_position item index v) v, s',
        int (insert_position item index v))"
    and "mirrors s' (insert_at (insert_position item index v) item (sv_items v))"
proof -
  define i where "i = insert_position item index v"
  have le: "i \<le> length (sv_items v)"
    using assms(3) lower_bound_le by (auto simp: i_def insert_position_def split: option.splits)
  define e where "e = \<lparr>event_item = item, event_index = int i, event_caller = caller\<rparr>"
  obtain s' where s': "notify (ItemInserted e) s = Inr s'"
      "mirrors s' (insert_at i item (sv_items v))"
    using inserted [of s _ e i] assms(1,2) le by (auto simp: e_def)
  have "sv_insert notify item index caller v s =
    bind_sum (notify (ItemInserted e) s) (\<lambda>s. Inr (inserted_vector item i v, s, int i))"
    using assms(3) by (auto simp: sv_insert_def insert_position_def inserted_vector_def i_def e_def
        split: option.splits)
  with s' show thesis using that unfolding i_def by simp
qed

lemma removeAt_sync:
  assumes "mirrors s (sv_items v)" "\<not> ours caller" "i < length (sv_items v)"
  obtains s' where "sv_removeAt notify (int i) caller v s = Inr (removed_vector i v, s')"
    and "mirrors s' (erase_at i (sv_items v))"
proof -
  define e where "e = \<lparr>event_item = sv_items v ! i, event_index = int i, event_caller = caller\<rparr>"
  obtain s' where "notify (ItemRemoved e) s = Inr s'" "mirrors s' (erase_at i (sv_items v))"
    using removed [of s _ e i] assms by (auto simp: e_def)
  with assms show thesis
    using that by (auto simp: sv_removeAt_def removed_vector_def e_def)
qed

lemma removeFirstMatching_sync:
  assumes "mirrors s (sv_items v)" "\<not> ours caller"
    and "first_index matcher (sv_items v) = Some i"
  obtains s' where "sv_removeFirstMatching notify matcher caller v s =
      Inr (removed_vector i v, s', True)"
    and "mirrors s' (erase_at i (sv_items v))"
proof -
  have i: "i < length (sv_items v)" using assms(3) by (auto dest: first_index_SomeD)
  define e where "e = \<lparr>event_item = sv_items v ! i, event_index = int i, event_caller = caller\<rparr>"
  obtain s' where "notify (ItemRemoved e) s = Inr s'" "mirrors s' (erase_at i (sv_items v))"
    using removed [of s _ e i] assms i by (auto simp: e_def)
  with assms(3) show thesis
    using that by (auto simp: sv_removeFirstMatching_def removed_vector_def e_def)
qed

end

text \<open>The simplest listener replays the signals over a list, whatever their caller.\<close>

fun replay :: "('a, 'a list) listener" where
  "replay (ItemInserted e) xs = Inr (insert_at (nat (event_index e)) (event_item e) xs)"
| "replay (ItemRemoved e) xs = Inr (erase_at (nat (event_index e)) xs)"
| "replay DelayedItemsChanged xs = Inr xs"

interpretation replay: vector_mirror replay "(=)" "\<lambda>_. False"
  by unfold_locales auto

end
