(* ===== verification/SignalVectorModel.thy ===== *)
theory SignalVectorModel
  imports SignalVector
begin

text \<open>
  \<open>common/SignalVectorModel.hpp\<close>: the table model that shows a \<open>SignalVector\<close>, one row per item plus
  custom rows that belong to no item.

  \<open>QStandardItem\<close> and \<open>QVariant\<close> are code of Qt, so a cell is a value with the operations of the
  record \<open>item_api\<close>.  The virtual methods of the class are the record \<open>model_hooks\<close>: the hooks
  that change the model act on its state, which a subclass extends.  Several models may show the
  same vector: the operations of the view work on the vector and the list of its models, and the
  position of a model in that list is its caller id.
\<close>

section \<open>Cells\<close>

datatype ItemDataRole =
  DisplayRole | EditRole | DecorationRole | CheckStateRole | FontRole | UserRole | OtherRole int

datatype ItemFlag =
    ItemIsSelectable | ItemIsEditable | ItemIsDragEnabled | ItemIsDropEnabled
  | ItemIsUserCheckable | ItemIsEnabled

record ('c, 'v) item_api =
  qi_new :: 'c
  qi_data :: "'c \<Rightarrow> ItemDataRole \<Rightarrow> 'v"
  qi_setData :: "'c \<Rightarrow> 'v \<Rightarrow> ItemDataRole \<Rightarrow> 'c"
  qi_flags :: "'c \<Rightarrow> ItemFlag set"
  qi_setFlags :: "'c \<Rightarrow> ItemFlag set \<Rightarrow> 'c"
  qv_invalid :: 'v

section \<open>State\<close>

record ('a, 'c) Row =
  row_items :: "'c list"
  row_original :: "'a option"
  isCustomRow :: bool

text \<open>What the model tells the views attached to it.\<close>

datatype view_signal =
    RowsInserted int | RowsRemoved int | BeginMoveRows int int | EndMoveRows
  | DataChanged int int ItemDataRole | HeaderDataChanged int

record ('a, 'c, 'v) SignalVectorModel =
  m_headerData :: "(ItemDataRole \<rightharpoonup> 'v) list"
  m_rows :: "('a, 'c) Row list"
  m_columnCount :: nat
  m_emitted :: "view_signal list"

record ('a, 'c, 'v, 'm) model_hooks =
  h_getItemFromRow :: "'c list \<Rightarrow> 'a \<Rightarrow> 'a \<times> 'c list"
  h_getRowFromItem :: "'a \<Rightarrow> 'c list \<Rightarrow> 'c list"
  h_beforeInsert :: "'a \<Rightarrow> 'c list \<Rightarrow> int \<Rightarrow> 'm \<Rightarrow> vector_error + ('m \<times> int)"
  h_afterRemoved :: "'a \<Rightarrow> 'c list \<Rightarrow> int \<Rightarrow> 'm \<Rightarrow> vector_error + 'm"
  h_customRowSetData :: "'c list \<Rightarrow> int \<Rightarrow> 'v \<Rightarrow> ItemDataRole \<Rightarrow> int \<Rightarrow> 'm \<Rightarrow> 'm"
  h_afterInit :: "'m \<Rightarrow> vector_error + 'm"

type_synonym ('a, 'c, 'v, 'z) model = "('a, 'c, 'v, 'z) SignalVectorModel_scheme"
type_synonym ('a, 'c, 'v, 'z) hooks = "('a, 'c, 'v, ('a, 'c, 'v, 'z) model) model_hooks"

definition SignalVectorModel :: "nat \<Rightarrow> ('a, 'c, 'v) SignalVectorModel" where
  "SignalVectorModel columnCount =
     \<lparr>m_headerData = replicate columnCount Map.empty, m_rows = [], m_columnCount = columnCount,
      m_emitted = []\<rparr>"

section \<open>Rows and indices\<close>

definition emit_view :: "view_signal \<Rightarrow> ('a, 'c, 'v, 'z) model \<Rightarrow> ('a, 'c, 'v, 'z) model" where
  "emit_view x m = m\<lparr>m_emitted := m_emitted m @ [x]\<rparr>"

definition createRow :: "('c, 'v, 'y) item_api_scheme \<Rightarrow> ('a, 'c, 'v, 'z) model \<Rightarrow> 'c list" where
  "createRow api m = replicate (m_columnCount m) (qi_new api)"

definition insertRow ::
  "('a, 'c) Row \<Rightarrow> int \<Rightarrow> ('a, 'c, 'v, 'z) model \<Rightarrow> ('a, 'c, 'v, 'z) model" where
  "insertRow row index m =
     emit_view (RowsInserted index) (m\<lparr>m_rows := insert_at (nat index) row (m_rows m)\<rparr>)"

definition insertCustomRow ::
  "'c list \<Rightarrow> int \<Rightarrow> ('a, 'c, 'v, 'z) model \<Rightarrow> vector_error + ('a, 'c, 'v, 'z) model" where
  "insertCustomRow row index m =
     (if index \<ge> 0 \<and> index \<le> int (length (m_rows m))
      then Inr (insertRow \<lparr>row_items = row, row_original = None, isCustomRow = True\<rparr> index m)
      else Inl AssertionFailed)"

definition removeCustomRow ::
  "int \<Rightarrow> ('a, 'c, 'v, 'z) model \<Rightarrow> vector_error + ('a, 'c, 'v, 'z) model" where
  "removeCustomRow index m =
     (if \<not> (index \<ge> 0 \<and> index \<le> int (length (m_rows m))) then Inl AssertionFailed
      else if index = int (length (m_rows m)) then Inl OutOfRange
      else if \<not> isCustomRow (m_rows m ! nat index) then Inl AssertionFailed
      else Inr (emit_view (RowsRemoved index) (m\<lparr>m_rows := erase_at (nat index) (m_rows m)\<rparr>)))"

text \<open>The position in the vector of a model row: the loop counts plain rows until the counters meet.\<close>

fun vector_index_loop :: "('a, 'c) Row list \<Rightarrow> int \<Rightarrow> int \<Rightarrow> int" where
  "vector_index_loop [] index i = i"
| "vector_index_loop (row # rows) index i =
     (if isCustomRow row then vector_index_loop rows (index - 1) i
      else if i = index then i
      else vector_index_loop rows index (i + 1))"

definition getVectorIndexFromModelIndex :: "int \<Rightarrow> ('a, 'c, 'v, 'z) model \<Rightarrow> int" where
  "getVectorIndexFromModelIndex index m = vector_index_loop (m_rows m) index 0"

fun model_index_loop :: "('a, 'c) Row list \<Rightarrow> int \<Rightarrow> int \<Rightarrow> int" where
  "model_index_loop [] vectorIndex modelIndex = modelIndex"
| "model_index_loop (row # rows) vectorIndex modelIndex =
     (let vectorIndex = (if isCustomRow row then vectorIndex + 1 else vectorIndex)
      in if modelIndex = vectorIndex then modelIndex
         else model_index_loop rows vectorIndex (modelIndex + 1))"

definition getModelIndexFromVectorIndex :: "int \<Rightarrow> ('a, 'c, 'v, 'z) model \<Rightarrow> int" where
  "getModelIndexFromVectorIndex vectorIndex m = model_index_loop (m_rows m) vectorIndex 0"

section \<open>Following the vector\<close>

definition on_itemInserted ::
  "('c, 'v, 'y) item_api_scheme \<Rightarrow> ('a, 'c, 'v, 'z) hooks \<Rightarrow> nat \<Rightarrow> 'a SignalVectorItemEvent \<Rightarrow>
   ('a, 'c, 'v, 'z) model \<Rightarrow> vector_error + ('a, 'c, 'v, 'z) model" where
  "on_itemInserted api H this args m =
     (if event_caller args = Some this then Inr m
      else
        let index = getModelIndexFromVectorIndex (event_index args) m
        in if \<not> (index \<ge> 0 \<and> index \<le> int (length (m_rows m))) then Inl AssertionFailed
           else
             let row = h_getRowFromItem H (event_item args) (createRow api m)
             in bind_sum (h_beforeInsert H (event_item args) row index m)
                  (\<lambda>(m, index).
                     Inr (insertRow \<lparr>row_items = row, row_original = Some (event_item args),
                       isCustomRow = False\<rparr> index m)))"

definition on_itemRemoved ::
  "('a, 'c, 'v, 'z) hooks \<Rightarrow> nat \<Rightarrow> 'a SignalVectorItemEvent \<Rightarrow>
   ('a, 'c, 'v, 'z) model \<Rightarrow> vector_error + ('a, 'c, 'v, 'z) model" where
  "on_itemRemoved H this args m =
     (if event_caller args = Some this then Inr m
      else
        let row = getModelIndexFromVectorIndex (event_index args) m
        in if \<not> (row \<ge> 0 \<and> row \<le> int (length (m_rows m))) then Inl AssertionFailed
           else if row = int (length (m_rows m)) then Inl OutOfRange
           else
             let items = row_items (m_rows m ! nat row);
                 m = emit_view (RowsRemoved row) (m\<lparr>m_rows := erase_at (nat row) (m_rows m)\<rparr>)
             in h_afterRemoved H (event_item args) items row m)"

fun on_signal ::
  "('c, 'v, 'y) item_api_scheme \<Rightarrow> ('a, 'c, 'v, 'z) hooks \<Rightarrow> nat \<Rightarrow> ('a, ('a, 'c, 'v, 'z) model) listener" where
  "on_signal api H this (ItemInserted args) m = on_itemInserted api H this args m"
| "on_signal api H this (ItemRemoved args) m = on_itemRemoved H this args m"
| "on_signal api H this DelayedItemsChanged m = Inr m"

text \<open>All models that show the vector, in the order in which they were connected.\<close>

fun notify_models ::
  "('c, 'v, 'y) item_api_scheme \<Rightarrow> ('a, 'c, 'v, 'z) hooks \<Rightarrow> nat \<Rightarrow>
   ('a, ('a, 'c, 'v, 'z) model list) listener" where
  "notify_models api H j x [] = Inr []"
| "notify_models api H j x (m # ms) =
     bind_sum (on_signal api H j x m)
       (\<lambda>m. bind_sum (notify_models api H (Suc j) x ms) (\<lambda>ms. Inr (m # ms)))"

definition initialize ::
  "('c, 'v, 'y) item_api_scheme \<Rightarrow> ('a, 'c, 'v, 'z) hooks \<Rightarrow> nat \<Rightarrow> 'a SignalVector \<Rightarrow>
   ('a, 'c, 'v, 'z) model \<Rightarrow> vector_error + ('a, 'c, 'v, 'z) model" where
  "initialize api H this vec m =
     bind_sum
       (fold (\<lambda>(i, item) r. bind_sum r (on_itemInserted api H this
          \<lparr>event_item = item, event_index = int i, event_caller = None\<rparr>))
          (enumerate 0 (sv_items vec)) (Inr m))
       (h_afterInit H)"

section \<open>Requests of the view\<close>

definition out_of_range :: "int \<Rightarrow> int \<Rightarrow> ('a, 'c, 'v, 'z) model \<Rightarrow> bool" where
  "out_of_range row column m =
     (row < 0 \<or> column < 0 \<or> row \<ge> int (length (m_rows m)) \<or> column \<ge> int (m_columnCount m))"

definition rowCount :: "('a, 'c, 'v, 'z) model \<Rightarrow> int" where
  "rowCount m = int (length (m_rows m))"

definition columnCount :: "('a, 'c, 'v, 'z) model \<Rightarrow> int" where
  "columnCount m = int (m_columnCount m)"

definition m_data ::
  "('c, 'v, 'y) item_api_scheme \<Rightarrow> int \<Rightarrow> int \<Rightarrow> ItemDataRole \<Rightarrow> ('a, 'c, 'v, 'z) model \<Rightarrow> 'v" where
  "m_data api row column role m =
     (if out_of_range row column m then qv_invalid api
      else qi_data api (row_items (m_rows m ! nat row) ! nat column) role)"

definition m_flags ::
  "('c, 'v, 'y) item_api_scheme \<Rightarrow> int \<Rightarrow> int \<Rightarrow> ('a, 'c, 'v, 'z) model \<Rightarrow> vector_error + ItemFlag set" where
  "m_flags api row column m =
     (if out_of_range row column m then Inr {}
      else if m_columnCount m \<noteq> length (row_items (m_rows m ! nat row)) then Inl AssertionFailed
      else Inr (qi_flags api (row_items (m_rows m ! nat row) ! nat column)))"

definition getItem :: "int \<Rightarrow> int \<Rightarrow> ('a, 'c, 'v, 'z) model \<Rightarrow> vector_error + 'c" where
  "getItem row column m =
     (if out_of_range row column m then Inl AssertionFailed
      else if m_columnCount m \<noteq> length (row_items (m_rows m ! nat row)) then Inl AssertionFailed
      else Inr (row_items (m_rows m ! nat row) ! nat column))"

text \<open>The section of a header is not checked.\<close>

definition m_getHeaderData ::
  "('c, 'v, 'y) item_api_scheme \<Rightarrow> int \<Rightarrow> bool \<Rightarrow> ItemDataRole \<Rightarrow> ('a, 'c, 'v, 'z) model \<Rightarrow>
   vector_error + 'v" where
  "m_getHeaderData api section horizontal role m =
     (if \<not> horizontal then Inr (qv_invalid api)
      else if section < 0 \<or> section \<ge> int (length (m_headerData m)) then Inl OutOfRange
      else case (m_headerData m ! nat section) role of
             None \<Rightarrow> Inr (qv_invalid api) | Some value \<Rightarrow> Inr value)"

definition setHeaderData ::
  "int \<Rightarrow> bool \<Rightarrow> 'v \<Rightarrow> ItemDataRole \<Rightarrow> ('a, 'c, 'v, 'z) model \<Rightarrow>
   vector_error + (('a, 'c, 'v, 'z) model \<times> bool)" where
  "setHeaderData section horizontal value role m =
     (if \<not> horizontal then Inr (m, False)
      else if section < 0 \<or> section \<ge> int (length (m_headerData m)) then Inl OutOfRange
      else Inr (emit_view (HeaderDataChanged section)
             (m\<lparr>m_headerData := (m_headerData m)[nat section :=
                (m_headerData m ! nat section)(role \<mapsto> value)]\<rparr>), True))"

definition set_row_items ::
  "int \<Rightarrow> 'c list \<Rightarrow> ('a, 'c, 'v, 'z) model \<Rightarrow> ('a, 'c, 'v, 'z) model" where
  "set_row_items row cells m =
     m\<lparr>m_rows := (m_rows m)[nat row := (m_rows m ! nat row)\<lparr>row_items := cells\<rparr>]\<rparr>"

definition setData ::
  "('c, 'v, 'y) item_api_scheme \<Rightarrow> ('a, 'c, 'v, 'z) hooks \<Rightarrow> nat \<Rightarrow> int \<Rightarrow> int \<Rightarrow> 'v \<Rightarrow> ItemDataRole \<Rightarrow>
   'a SignalVector \<Rightarrow> ('a, 'c, 'v, 'z) model list \<Rightarrow>
   vector_error + ('a SignalVector \<times> ('a, 'c, 'v, 'z) model list \<times> bool)" where
  "setData api H this row column value role v ms =
     (let m = ms ! this
      in if out_of_range row column m then Inr (v, ms, False)
      else if m_columnCount m \<noteq> length (row_items (m_rows m ! nat row)) then Inl AssertionFailed
      else
        let cells = row_items (m_rows m ! nat row);
            cells = cells[nat column := qi_setData api (cells ! nat column) value role];
            m = set_row_items row cells m
        in if isCustomRow (m_rows m ! nat row)
           then Inr (v, ms[this := h_customRowSetData H cells column value role row m], True)
           else
             let vecRow = getVectorIndexFromModelIndex row m; ms = ms[this := m]
             in if vecRow \<ge> int (length (sv_readOnly v)) then Inr (v, ms, False)
                else
                  bind_sum (sv_removeAt (notify_models api H 0) vecRow (Some this) v ms)
                    (\<lambda>(v, ms).
                       let m = ms ! this
                       in case row_original (m_rows m ! nat row) of
                            None \<Rightarrow> Inl AssertionFailed
                          | Some original \<Rightarrow>
                              let (item, cells) =
                                    h_getItemFromRow H (row_items (m_rows m ! nat row)) original;
                                  ms = ms[this := set_row_items row cells m]
                              in bind_sum
                                   (sv_insert (notify_models api H 0) item vecRow (Some this) v ms)
                                   (\<lambda>(v, ms, _).
                                      Inr (v, ms[this := emit_view (DataChanged row column role)
                                             (ms ! this)], True))))"

definition deleteRow ::
  "('c, 'v, 'y) item_api_scheme \<Rightarrow> ('a, 'c, 'v, 'z) hooks \<Rightarrow> nat \<Rightarrow> int \<Rightarrow> 'a SignalVector \<Rightarrow>
   ('a, 'c, 'v, 'z) model list \<Rightarrow> vector_error + ('a SignalVector \<times> ('a, 'c, 'v, 'z) model list)" where
  "deleteRow api H this row v ms =
     sv_removeAt (notify_models api H 0) (getVectorIndexFromModelIndex row (ms ! this)) None v ms"

definition removeRows ::
  "('c, 'v, 'y) item_api_scheme \<Rightarrow> ('a, 'c, 'v, 'z) hooks \<Rightarrow> nat \<Rightarrow> int \<Rightarrow> int \<Rightarrow> 'a SignalVector \<Rightarrow>
   ('a, 'c, 'v, 'z) model list \<Rightarrow>
   vector_error + ('a SignalVector \<times> ('a, 'c, 'v, 'z) model list \<times> bool)" where
  "removeRows api H this row cnt v ms =
     (if cnt \<noteq> 1 then Inr (v, ms, False)
      else if \<not> (row \<ge> 0 \<and> row < int (length (m_rows (ms ! this)))) then Inl AssertionFailed
      else bind_sum
             (sv_removeAt (notify_models api H 0)
                (getVectorIndexFromModelIndex row (ms ! this)) None v ms)
             (\<lambda>(v, ms). Inr (v, ms, True)))"

definition moveRows ::
  "('c, 'v, 'y) item_api_scheme \<Rightarrow> ('a, 'c, 'v, 'z) hooks \<Rightarrow> nat \<Rightarrow> int \<Rightarrow> int \<Rightarrow> int \<Rightarrow> 'a SignalVector \<Rightarrow>
   ('a, 'c, 'v, 'z) model list \<Rightarrow>
   vector_error + ('a SignalVector \<times> ('a, 'c, 'v, 'z) model list \<times> bool)" where
  "moveRows api H this sourceRow cnt destinationChild v ms =
     (if cnt \<noteq> 1 then Inr (v, ms, False)
      else if \<not> (sourceRow \<ge> 0 \<and> sourceRow < int (length (m_rows (ms ! this))))
      then Inl AssertionFailed
      else
        let signalVectorRow = getVectorIndexFromModelIndex sourceRow (ms ! this);
            m = emit_view (BeginMoveRows sourceRow destinationChild) (ms ! this);
            row = m_rows m ! nat sourceRow
        in case row_original row of
             None \<Rightarrow> Inl BadOptionalAccess
           | Some original \<Rightarrow>
               let (item, cells) = h_getItemFromRow H (row_items row) original;
                   ms = ms[this := set_row_items sourceRow cells m]
               in bind_sum (sv_removeAt (notify_models api H 0) signalVectorRow None v ms)
                    (\<lambda>(v, ms).
                       bind_sum
                         (sv_insert (notify_models api H 0) item
                            (getVectorIndexFromModelIndex destinationChild (ms ! this)) None v ms)
                         (\<lambda>(v, ms, _).
                            Inr (v, ms[this := emit_view EndMoveRows (ms ! this)], True))))"

text \<open>The row that is dragged; the selection is the list of the rows of the selected cells.\<close>

definition mimeData :: "int list \<Rightarrow> int option" where
  "mimeData selected =
     (if length selected = 1 then None
      else case selected of [] \<Rightarrow> None
           | first # _ \<Rightarrow> if \<exists>x\<in>set selected. x \<noteq> first then None else Some first)"

text \<open>
  \<open>data\<close> is the dragged row, if the data has the right format; \<open>parent\<close> is the row dropped on, -1
  for the space below the rows.  The result is always false, because the rows are already moved.
  \<open>mimeData\<close> of an empty selection would read \<open>list[0]\<close>; Qt never asks for it.
\<close>

definition dropMimeData ::
  "('c, 'v, 'y) item_api_scheme \<Rightarrow> ('a, 'c, 'v, 'z) hooks \<Rightarrow> nat \<Rightarrow> int option \<Rightarrow> bool \<Rightarrow> int \<Rightarrow>
   'a SignalVector \<Rightarrow> ('a, 'c, 'v, 'z) model list \<Rightarrow>
   vector_error + ('a SignalVector \<times> ('a, 'c, 'v, 'z) model list \<times> bool)" where
  "dropMimeData api H this data moveOrCopy parent v ms =
     (case data of
        Some from \<Rightarrow>
          if moveOrCopy then
            let to = parent;
                vectorFrom = getVectorIndexFromModelIndex from (ms ! this);
                vectorTo = getVectorIndexFromModelIndex to (ms ! this)
            in if vectorFrom > int (length (sv_items v)) \<or> vectorTo > int (length (sv_items v))
               then Inr (v, ms, False)
               else if from \<noteq> to
               then bind_sum (moveRows api H this from 1 to v ms) (\<lambda>(v, ms, _). Inr (v, ms, False))
               else Inr (v, ms, False)
          else Inr (v, ms, False)
      | None \<Rightarrow> Inr (v, ms, False))"

datatype DropAction = CopyAction | MoveAction

definition supportedDropActions :: "'a SignalVector \<Rightarrow> DropAction set" where
  "supportedDropActions v = (if sv_isSorted v then {} else {CopyAction, MoveAction})"

section \<open>The base class\<close>

text \<open>The virtual methods that have a body; the two conversions are pure.\<close>

definition base_hooks ::
  "('c list \<Rightarrow> 'a \<Rightarrow> 'a \<times> 'c list) \<Rightarrow> ('a \<Rightarrow> 'c list \<Rightarrow> 'c list) \<Rightarrow> ('a, 'c, 'v, 'z) hooks" where
  "base_hooks fromRow toRow =
     \<lparr>h_getItemFromRow = fromRow, h_getRowFromItem = toRow,
      h_beforeInsert = (\<lambda>_ _ proposedIndex m. Inr (m, proposedIndex)),
      h_afterRemoved = (\<lambda>_ _ _ m. Inr m),
      h_customRowSetData = (\<lambda>_ _ _ _ _ m. m), h_afterInit = Inr\<rparr>"


section \<open>Positions of plain rows\<close>

abbreviation plain :: "('a, 'c) Row list \<Rightarrow> ('a, 'c) Row list" where
  "plain rows \<equiv> filter (\<lambda>r. \<not> isCustomRow r) rows"

fun nth_plain :: "nat \<Rightarrow> ('a, 'c) Row list \<Rightarrow> nat" where
  "nth_plain d [] = 0"
| "nth_plain d (row # rows) =
     (if isCustomRow row then Suc (nth_plain d rows)
      else case d of 0 \<Rightarrow> 0 | Suc d \<Rightarrow> Suc (nth_plain d rows))"

lemma model_index_loop_eq: "model_index_loop rows (k + int d) k = k + int (nth_plain d rows)"
proof (induction rows arbitrary: k d)
  case (Cons row rows)
  show ?case
    using Cons.IH [of "k + 1" d] Cons.IH [of "k + 1" "d - 1"]
    by (cases d) (auto simp: algebra_simps)
qed simp

lemma getModelIndex_eq [simp]:
  "getModelIndexFromVectorIndex (int d) m = int (nth_plain d (m_rows m))"
  using model_index_loop_eq [of "m_rows m" 0 d] by (simp add: getModelIndexFromVectorIndex_def)

lemma nth_plain_le: "nth_plain d rows \<le> length rows"
  by (induction rows arbitrary: d) (auto split: nat.splits)

lemma nth_plain_row:
  "d < length (plain rows) \<Longrightarrow> nth_plain d rows < length rows \<and>
     \<not> isCustomRow (rows ! nth_plain d rows) \<and> rows ! nth_plain d rows = plain rows ! d"
proof (induction rows arbitrary: d)
  case (Cons r rows)
  show ?case
    using Cons.IH [of d] Cons.IH [of "d - 1"] Cons.prems by (cases d; cases "isCustomRow r"; simp)
qed simp

lemma plain_insert_at:
  assumes "d \<le> length (plain rows)" "\<not> isCustomRow row"
  shows "plain (insert_at (nth_plain d rows) row rows) = insert_at d row (plain rows)"
  using assms
proof (induction rows arbitrary: d)
  case (Cons r rows)
  then show ?case by (cases d) auto
qed (simp add: insert_at_def)

lemma plain_erase_at:
  "d < length (plain rows) \<Longrightarrow>
     plain (erase_at (nth_plain d rows) rows) = erase_at d (plain rows)"
proof (induction rows arbitrary: d)
  case (Cons r rows)
  then show ?case by (cases d) auto
qed simp

lemma vector_index_loop_eq:
  "vector_index_loop rows index i = i +
     (if 0 \<le> index - i \<and> index - i < int (length rows) \<and> \<not> isCustomRow (rows ! nat (index - i))
      then int (length (plain (take (nat (index - i)) rows))) else int (length (plain rows)))"
proof (induction rows arbitrary: index i)
  case (Cons row rows)
  show ?case
  proof (cases "index - i \<le> 0")
    case True
    then show ?thesis
      using Cons.IH [of "index - 1" i] Cons.IH [of index "i + 1"] by (cases "index = i") auto
  next
    case False
    define k where "k = nat (index - i - 1)"
    with False have k: "index = i + 1 + int k" "nat (index - i) = Suc k" by simp_all
    then show ?thesis
      using Cons.IH [of "index - 1" i] Cons.IH [of index "i + 1"] by auto
  qed
qed simp

lemma getVectorIndex_eq:
  "getVectorIndexFromModelIndex index m =
     (if 0 \<le> index \<and> index < int (length (m_rows m)) \<and> \<not> isCustomRow (m_rows m ! nat index)
      then int (length (plain (take (nat index) (m_rows m)))) else int (length (plain (m_rows m))))"
  by (simp add: getVectorIndexFromModelIndex_def vector_index_loop_eq)

lemma plain_take_row:
  assumes "k < length rows" "\<not> isCustomRow (rows ! k)"
  shows "length (plain (take k rows)) < length (plain rows)"
    and "plain rows ! length (plain (take k rows)) = rows ! k"
    and "nth_plain (length (plain (take k rows))) rows = k"
proof -
  have "plain rows = plain (take k rows) @ rows ! k # plain (drop (Suc k) rows)"
    using assms id_take_nth_drop [of k rows] by (metis filter.simps(2) filter_append)
  then show "length (plain (take k rows)) < length (plain rows)"
    and "plain rows ! length (plain (take k rows)) = rows ! k"
    by (simp_all add: nth_append)
  show "nth_plain (length (plain (take k rows))) rows = k"
    using assms
  proof (induction rows arbitrary: k)
    case (Cons r rows)
    then show ?case by (cases k) auto
  qed simp
qed

lemma plain_update:
  assumes "k < length rows" "\<not> isCustomRow (rows ! k)" "\<not> isCustomRow row"
  shows "plain (rows[k := row]) = (plain rows)[length (plain (take k rows)) := row]"
  using assms
proof (induction rows arbitrary: k)
  case (Cons r rows)
  then show ?case by (cases k) auto
qed simp

lemma custom_insert_at [simp]:
  "\<not> isCustomRow row \<Longrightarrow> filter isCustomRow (insert_at i row rows) = filter isCustomRow rows"
  by (metis append_take_drop_id filter.simps(2) filter_append insert_at_def)

lemma custom_erase_at:
  "i < length rows \<Longrightarrow> \<not> isCustomRow (rows ! i) \<Longrightarrow>
     filter isCustomRow (erase_at i rows) = filter isCustomRow rows"
  by (metis erase_at_def filter.simps(2) filter_append id_take_nth_drop)

lemma custom_update:
  "\<not> isCustomRow (rows ! k) \<Longrightarrow> \<not> isCustomRow row \<Longrightarrow>
     filter isCustomRow (rows[k := row]) = filter isCustomRow rows"
proof (induction rows arbitrary: k)
  case (Cons r rows)
  then show ?case by (cases k) auto
qed simp

lemma getVectorIndex_custom:
  "isCustomRow (m_rows m ! nat k) \<Longrightarrow> getVectorIndexFromModelIndex k m = int (length (plain (m_rows m)))"
  by (simp add: getVectorIndex_eq)
section \<open>Models that follow their vector\<close>

definition shown :: "('a, 'c, 'v, 'z) hooks \<Rightarrow> ('a, 'c) Row \<Rightarrow> 'a" where
  "shown H r = fst (h_getItemFromRow H (row_items r) (the (row_original r)))"

definition row_ok :: "nat \<Rightarrow> ('a, 'c) Row \<Rightarrow> bool" where
  "row_ok n r \<longleftrightarrow> length (row_items r) = n \<and> (isCustomRow r \<or> row_original r \<noteq> None)"

definition shows_items ::
  "('a, 'c, 'v, 'z) hooks \<Rightarrow> nat \<Rightarrow> ('a, 'c) Row list \<Rightarrow> ('a, 'c, 'v, 'z) model \<Rightarrow> 'a list \<Rightarrow> bool" where
  "shows_items H n C m xs \<longleftrightarrow>
     m_columnCount m = n \<and> (\<forall>r\<in>set (m_rows m). row_ok n r) \<and>
     filter isCustomRow (m_rows m) = C \<and> map (shown H) (plain (m_rows m)) = xs"

text \<open>All models show the items, except the one that makes the change itself.\<close>

definition model_shows ::
  "('a, 'c, 'v, 'z) hooks \<Rightarrow> nat \<Rightarrow> ('a, 'c) Row list \<Rightarrow>
   (nat \<times> ('a, 'c, 'v, 'z) model) option \<Rightarrow> nat \<Rightarrow>
   ('a, 'c, 'v, 'z) model \<Rightarrow> 'a list \<Rightarrow> bool" where
  "model_shows H n C except k m xs \<longleftrightarrow>
     (case except of None \<Rightarrow> shows_items H n C m xs
      | Some (j, m0) \<Rightarrow> if k = j then m = m0 else shows_items H n C m xs)"

definition all_show ::
  "('a, 'c, 'v, 'z) hooks \<Rightarrow> nat \<Rightarrow> ('a, 'c) Row list list \<Rightarrow> (nat \<times> ('a, 'c, 'v, 'z) model) option \<Rightarrow>
   ('a, 'c, 'v, 'z) model list \<Rightarrow> 'a list \<Rightarrow> bool" where
  "all_show H n Cs except ms xs \<longleftrightarrow>
     length ms = length Cs \<and> (\<forall>k<length Cs. model_shows H n (Cs ! k) except k (ms ! k) xs)"

text \<open>An unsorted vector and the tables that show it.\<close>

definition in_sync ::
  "('a, 'c, 'v, 'z) hooks \<Rightarrow> nat \<Rightarrow> ('a, 'c) Row list list \<Rightarrow> 'a SignalVector \<Rightarrow> ('a, 'c, 'v, 'z) model list \<Rightarrow> bool" where
  "in_sync H n Cs v ms \<longleftrightarrow>
     sv_compare v = None \<and> sv_readOnly v = sv_items v \<and>
     all_show H n Cs None ms (sv_items v)"

lemma all_show_None: "all_show H n Cs None ms xs \<longleftrightarrow> length ms = length Cs \<and> (\<forall>k<length Cs. shows_items H n (Cs ! k) (ms ! k) xs)"
  by (simp add: all_show_def model_shows_def)

lemma all_show_update:
  assumes "all_show H n Cs except ms xs" "this < length Cs" "except = None \<or> (\<exists>m0. except = Some (this, m0))"
  shows "all_show H n Cs (Some (this, m)) (ms[this := m]) xs"
    and "shows_items H n (Cs ! this) m xs \<Longrightarrow> all_show H n Cs None (ms[this := m]) xs"
  using assms by (auto simp: all_show_def model_shows_def nth_list_update split: if_splits)

lemma all_show_self: "all_show H n Cs (Some (this, m)) ms xs \<Longrightarrow> this < length Cs \<Longrightarrow> ms ! this = m"
  by (simp add: all_show_def model_shows_def)

text \<open>The position in the vector of a plain row.\<close>

definition vector_row :: "('a, 'c, 'v, 'z) model \<Rightarrow> nat \<Rightarrow> nat" where
  "vector_row m k = length (plain (take k (m_rows m)))"

lemma shows_row:
  assumes "shows_items H n C m xs" "k < length (m_rows m)" "\<not> isCustomRow (m_rows m ! k)"
  shows "vector_row m k < length xs" "xs ! vector_row m k = shown H (m_rows m ! k)"
    and "row_original (m_rows m ! k) \<noteq> None" "length (row_items (m_rows m ! k)) = n"
    and "getVectorIndexFromModelIndex (int k) m = int (vector_row m k)"
  using assms plain_take_row(1,2) [OF assms(2,3)] nth_mem [OF assms(2)]
  by (auto simp: shows_items_def row_ok_def vector_row_def getVectorIndex_eq)

lemma set_row_items_simps [simp]:
  "m_columnCount (set_row_items row cells m) = m_columnCount m"
  "length (m_rows (set_row_items row cells m)) = length (m_rows m)"
  "vector_row (set_row_items (int k) cells m) k = vector_row m k"
  by (simp_all add: set_row_items_def vector_row_def)

lemma set_row_items_nth [simp]:
  "k < length (m_rows m) \<Longrightarrow>
     m_rows (set_row_items (int k) cells m) ! k = (m_rows m ! k)\<lparr>row_items := cells\<rparr>"
  by (simp add: set_row_items_def)

lemma set_row_items_twice [simp]:
  "k < length (m_rows m) \<Longrightarrow>
     set_row_items (int k) cells' (set_row_items (int k) cells m) = set_row_items (int k) cells' m"
  by (simp add: set_row_items_def)

lemma getVectorIndex_set_row_items [simp]:
  "k < length (m_rows m) \<Longrightarrow> \<not> isCustomRow (m_rows m ! k) \<Longrightarrow>
   getVectorIndexFromModelIndex (int k) (set_row_items (int k) cells m) = int (vector_row m k)"
  by (simp add: getVectorIndex_eq vector_row_def set_row_items_def)

lemma shows_set_row_items:
  assumes "shows_items H n C m xs" "k < length (m_rows m)" "\<not> isCustomRow (m_rows m ! k)"
    and "length cells = n"
  shows "shows_items H n C (set_row_items (int k) cells m)
    (xs[vector_row m k := fst (h_getItemFromRow H cells (the (row_original (m_rows m ! k))))])"
proof -
  let ?row = "(m_rows m ! k)\<lparr>row_items := cells\<rparr>"
  have "row_ok n ?row" and "\<forall>r\<in>set (m_rows m). row_ok n r"
    using assms nth_mem [OF assms(2)] by (auto simp: shows_items_def row_ok_def)
  then have "\<forall>r\<in>set ((m_rows m)[k := ?row]). row_ok n r"
    using set_update_subset_insert [of "m_rows m" k ?row] by blast
  moreover have "map (shown H) (plain ((m_rows m)[k := ?row])) = xs
      [vector_row m k := fst (h_getItemFromRow H cells (the (row_original (m_rows m ! k))))]"
    using assms plain_update [OF assms(2,3), of ?row]
    by (simp add: shows_items_def vector_row_def map_update shown_def)
  moreover have "filter isCustomRow ((m_rows m)[k := ?row]) = filter isCustomRow (m_rows m)"
    using assms(3) by (simp add: custom_update)
  ultimately show ?thesis
    using assms(1) by (simp add: shows_items_def set_row_items_def)
qed

text \<open>
  A table model without hooks of its own, whose rows can be read back as items.  Reading may
  correct the cells of the row, but not what is read.
\<close>

locale table_model =
  fixes api :: "('c, 'v, 'y) item_api_scheme" and H :: "('a, 'c, 'v, 'z) hooks" and n :: nat
  assumes base: "h_beforeInsert H = (\<lambda>_ _ index m. Inr (m, index))"
      "h_afterRemoved H = (\<lambda>_ _ _ m. Inr m)"
    and row_length: "length cells = n \<Longrightarrow> length (h_getRowFromItem H x cells) = n"
    and read_row: "fst (h_getItemFromRow H (h_getRowFromItem H x (replicate n (qi_new api))) x) = x"
    and read_length: "length (snd (h_getItemFromRow H cells x)) = length cells"
    and read_stable: "fst (h_getItemFromRow H (snd (h_getItemFromRow H cells x)) x) =
      fst (h_getItemFromRow H cells x)"
begin

lemma shows_emit [simp]: "shows_items H n C (emit_view x m) xs = shows_items H n C m xs"
  by (simp add: shows_items_def emit_view_def)

lemma on_inserted:
  assumes "shows_items H n C m xs" "event_caller e \<noteq> Some j" "event_index e = int i" "i \<le> length xs"
  shows "\<exists>m'. on_signal api H j (ItemInserted e) m = Inr m' \<and>
    shows_items H n C m' (insert_at i (event_item e) xs)"
proof -
  let ?row = "\<lparr>row_items = h_getRowFromItem H (event_item e) (createRow api m),
    row_original = Some (event_item e), isCustomRow = False\<rparr>"
  have xs: "i \<le> length (plain (m_rows m))" using assms by (auto simp: shows_items_def)
  have "map (shown H) (plain (insert_at (nth_plain i (m_rows m)) ?row (m_rows m))) =
      insert_at i (event_item e) xs"
    using assms(1) plain_insert_at [OF xs, of ?row]
    by (simp add: shows_items_def map_insert_at shown_def createRow_def read_row)
  then have "shows_items H n C (insertRow ?row (int (nth_plain i (m_rows m))) m)
      (insert_at i (event_item e) xs)"
    using assms(1) by (auto simp: shows_items_def insertRow_def emit_view_def row_ok_def
        createRow_def row_length)
  then show ?thesis
    using assms(2,3) nth_plain_le [of i "m_rows m"] by (simp add: on_itemInserted_def base Let_def)
qed

lemma on_removed:
  assumes "shows_items H n C m xs" "event_caller e \<noteq> Some j" "event_index e = int i" "i < length xs"
  shows "\<exists>m'. on_signal api H j (ItemRemoved e) m = Inr m' \<and> shows_items H n C m' (erase_at i xs)"
proof -
  have xs: "i < length (plain (m_rows m))" using assms by (auto simp: shows_items_def)
  have "shows_items H n C (m\<lparr>m_rows := erase_at (nth_plain i (m_rows m)) (m_rows m)\<rparr>) (erase_at i xs)"
    using assms(1) plain_erase_at [OF xs] set_erase_at_subset [of _ "m_rows m"]
      nth_plain_row [OF xs]
    by (auto simp: shows_items_def map_erase_at custom_erase_at)
  then show ?thesis
    using assms(2,3) nth_plain_row [OF xs] by (simp add: on_itemRemoved_def base Let_def)
qed

lemma ours_inserted: "event_caller e = Some j \<Longrightarrow> on_signal api H j (ItemInserted e) m = Inr m"
  and ours_removed: "event_caller e = Some j \<Longrightarrow> on_signal api H j (ItemRemoved e) m = Inr m"
  by (simp_all add: on_itemInserted_def on_itemRemoved_def)

lemma notify_all:
  assumes "\<forall>k<length ms. \<exists>m'. on_signal api H (j + k) x (ms ! k) = Inr m' \<and> Q k m'"
  shows "\<exists>ms'. notify_models api H j x ms = Inr ms' \<and> length ms' = length ms \<and>
    (\<forall>k<length ms'. Q k (ms' ! k))"
  using assms
proof (induction ms arbitrary: j Q)
  case (Cons m ms)
  obtain m' where m': "on_signal api H j x m = Inr m'" "Q 0 m'"
    using Cons.prems by force
  have "\<forall>k<length ms. \<exists>m'. on_signal api H (Suc j + k) x (ms ! k) = Inr m' \<and> Q (Suc k) m'"
    using Cons.prems by force
  from Cons.IH [of "Suc j" "\<lambda>k. Q (Suc k)", OF this] obtain ms' where
    "notify_models api H (Suc j) x ms = Inr ms'" "length ms' = length ms"
    "\<forall>k<length ms'. Q (Suc k) (ms' ! k)" by blast
  then have "notify_models api H j x (m # ms) = Inr (m' # ms')"
    "\<forall>k<length (m' # ms'). Q k ((m' # ms') ! k)" "length (m' # ms') = length (m # ms)"
    using m' by (auto simp: nth_Cons split: nat.splits)
  then show ?case by blast
qed simp

lemma all_show_step:
  assumes "all_show H n Cs except ms xs"
    and "\<And>k m. m = ms ! k \<Longrightarrow> Some k \<noteq> map_option fst except \<Longrightarrow>
      shows_items H n (Cs ! k) m xs \<Longrightarrow>
      \<exists>m'. on_signal api H k x m = Inr m' \<and> shows_items H n (Cs ! k) m' ys"
    and "\<And>k m. Some k = map_option fst except \<Longrightarrow> on_signal api H k x m = Inr m"
  shows "\<exists>ms'. notify_models api H 0 x ms = Inr ms' \<and> all_show H n Cs except ms' ys"
proof -
  have "\<forall>k<length ms. \<exists>m'. on_signal api H (0 + k) x (ms ! k) = Inr m' \<and>
    model_shows H n (Cs ! k) except k m' ys"
  proof (intro allI impI)
    fix k assume "k < length ms"
    with assms(1) have k: "model_shows H n (Cs ! k) except k (ms ! k) xs" by (auto simp: all_show_def)
    show "\<exists>m'. on_signal api H (0 + k) x (ms ! k) = Inr m' \<and> model_shows H n (Cs ! k) except k m' ys"
    proof (cases "Some k = map_option fst except")
      case True
      then obtain m0 where "except = Some (k, m0)" by (cases except) auto
      with k show ?thesis by (simp add: model_shows_def assms(3) [OF True])
    next
      case False
      with k have "shows_items H n (Cs ! k) (ms ! k) xs"
        by (auto simp: model_shows_def split: option.splits)
      from assms(2) [OF refl False this] False show ?thesis
        by (auto simp: model_shows_def split: option.splits)
    qed
  qed
  from notify_all [OF this] assms(1) show ?thesis
    by (auto simp: all_show_def)
qed

sublocale models: vector_mirror "notify_models api H 0" "all_show H n Cs except"
  "\<lambda>c. c \<noteq> map_option fst except" for Cs except
proof unfold_locales
  fix e :: "'a SignalVectorItemEvent" and i xs s
  assume a: "all_show H n Cs except s xs" "\<not> event_caller e \<noteq> map_option fst except"
    "event_index e = int i"
  show "\<exists>s'. notify_models api H 0 (ItemInserted e) s = Inr s' \<and>
      all_show H n Cs except s' (insert_at i (event_item e) xs)" if "i \<le> length xs"
    using a that by (intro all_show_step [OF a(1)])
      (auto intro: on_inserted simp del: on_signal.simps simp: ours_inserted)
  show "\<exists>s'. notify_models api H 0 (ItemRemoved e) s = Inr s' \<and>
      all_show H n Cs except s' (erase_at i xs)" if "i < length xs" "event_item e = xs ! i"
    using a that by (intro all_show_step [OF a(1)])
      (auto intro: on_removed simp del: on_signal.simps simp: ours_removed)
qed

text \<open>Editing a cell changes the item of the row, in the vector and in every table.\<close>

lemma setData_sync:
  assumes sync: "in_sync H n Cs v ms" and known: "this < length ms"
    and m: "m = ms ! this" and k: "k < length (m_rows m)" "\<not> isCustomRow (m_rows m ! k)"
    and column: "column < n"
    and cells: "cells = (row_items (m_rows m ! k))
      [column := qi_setData api (row_items (m_rows m ! k) ! column) value role]"
    and item: "item = fst (h_getItemFromRow H cells (the (row_original (m_rows m ! k))))"
  shows "\<exists>v' ms'. setData api H this (int k) (int column) value role v ms = Inr (v', ms', True) \<and>
    in_sync H n Cs v' ms' \<and> length ms' = length ms \<and> sv_items v' = (sv_items v)[vector_row m k := item]"
proof -
  let ?d = "vector_row m k" and ?xs = "sv_items v"
  have inC: "this < length Cs" using sync known by (auto simp: in_sync_def all_show_def)
  have shows_m: "shows_items H n (Cs ! this) m ?xs"
    using sync inC m by (auto simp: in_sync_def all_show_None)
  note row = shows_row [OF shows_m k]
  obtain original where original: "row_original (m_rows m ! k) = Some original" using row(3) by blast
  define m1 where "m1 = set_row_items (int k) cells m"
  have all1: "all_show H n Cs (Some (this, m1)) (ms[this := m1]) ?xs"
    using sync inC by (intro all_show_update) (auto simp: in_sync_def)
  obtain ms2 where ms2: "sv_removeAt (notify_models api H 0) (int ?d) (Some this) v (ms[this := m1]) =
      Inr (removed_vector ?d v, ms2)"
    and all2: "all_show H n Cs (Some (this, m1)) ms2 (erase_at ?d ?xs)"
    using models.removeAt_sync [OF all1, of "Some this" ?d] row(1) by auto
  obtain cells2 where cells2: "h_getItemFromRow H cells original = (item, cells2)"
    using item original by (cases "h_getItemFromRow H cells original") auto
  define m2 where "m2 = set_row_items (int k) cells2 m"
  have "length cells2 = n" "fst (h_getItemFromRow H cells2 original) = item"
    using read_length [of cells original] read_stable [of cells original] cells2 cells row(4)
    by simp_all
  then have shows2: "shows_items H n (Cs ! this) m2 (?xs[?d := item])"
    using shows_set_row_items [OF shows_m k, of cells2] original by (simp add: m2_def)
  have all3: "all_show H n Cs (Some (this, m2)) (ms2[this := m2]) (sv_items (removed_vector ?d v))"
    using all_show_update(1) [OF all2 inC] by simp
  have pos: "insert_position item (int ?d) (removed_vector ?d v) = ?d"
    using sync by (simp add: insert_position_def in_sync_def)
  obtain ms4 where ms4: "sv_insert (notify_models api H 0) item (int ?d) (Some this)
      (removed_vector ?d v) (ms2[this := m2]) =
      Inr (inserted_vector item ?d (removed_vector ?d v), ms4, int ?d)"
    and all4: "all_show H n Cs (Some (this, m2)) ms4 (?xs[?d := item])"
    using models.insert_sync [OF all3, of "Some this" "int ?d" item] row(1) unfolding pos
    by (auto simp: insert_erase_at)
  let ?ms' = "ms4[this := emit_view (DataChanged (int k) (int column) role) m2]"
  have "setData api H this (int k) (int column) value role v ms =
      Inr (inserted_vector item ?d (removed_vector ?d v), ?ms', True)"
    using k column shows_m row(1,4) ms2 ms4 cells2 original sync all_show_self [OF all2 inC]
      all_show_self [OF all4 inC] known
    by (simp add: setData_def m [symmetric] out_of_range_def shows_items_def in_sync_def cells [symmetric]
        m1_def [symmetric] m2_def [symmetric] Let_def) (simp add: m1_def m2_def original)
  moreover have "all_show H n Cs None ?ms' (?xs[?d := item])"
    using all_show_update(2) [OF all4 inC] shows2 by simp
  ultimately show ?thesis
    using sync row(1) by (auto simp: in_sync_def insert_erase_at all_show_def)
qed

lemma removeRows_sync:
  assumes sync: "in_sync H n Cs v ms" and known: "this < length ms"
    and m: "m = ms ! this" and k: "k < length (m_rows m)" "\<not> isCustomRow (m_rows m ! k)"
  shows "\<exists>v' ms'. removeRows api H this (int k) 1 v ms = Inr (v', ms', True) \<and>
    deleteRow api H this (int k) v ms = Inr (v', ms') \<and>
    in_sync H n Cs v' ms' \<and> sv_items v' = erase_at (vector_row m k) (sv_items v)"
proof -
  have all: "all_show H n Cs None ms (sv_items v)" using sync by (simp add: in_sync_def)
  have shows_m: "shows_items H n (Cs ! this) m (sv_items v)"
    using all known m by (auto simp: all_show_None)
  note row = shows_row [OF shows_m k]
  obtain ms' where "sv_removeAt (notify_models api H 0) (int (vector_row m k)) None v ms =
      Inr (removed_vector (vector_row m k) v, ms')"
    "all_show H n Cs None ms' (erase_at (vector_row m k) (sv_items v))"
    using models.removeAt_sync [OF all, of None] row(1) by auto
  then show ?thesis
    using sync k row(5) m by (auto simp: removeRows_def deleteRow_def in_sync_def)
qed

text \<open>
  Moving a row takes the item out and puts it back at the position that the destination has among
  the remaining rows.
\<close>

lemma moveRows_sync:
  assumes sync: "in_sync H n Cs v ms" and known: "this < length ms"
    and m: "m = ms ! this" and k: "k < length (m_rows m)" "\<not> isCustomRow (m_rows m ! k)"
  shows "\<exists>v' ms' i. moveRows api H this (int k) 1 to v ms = Inr (v', ms', True) \<and>
    in_sync H n Cs v' ms' \<and> i < length (sv_items v) \<and>
    sv_items v' = insert_at i (sv_items v ! vector_row m k) (erase_at (vector_row m k) (sv_items v)) \<and>
    (Cs ! this = [] \<and> -1 \<le> to \<and> to < int (length (sv_items v)) \<longrightarrow>
       i = (if to = -1 then length (sv_items v) - 1 else nat to))"
proof -
  let ?d = "vector_row m k" and ?xs = "sv_items v"
  have all: "all_show H n Cs None ms ?xs" using sync by (simp add: in_sync_def)
  have inC: "this < length Cs" using all known by (simp add: all_show_None)
  have shows_m: "shows_items H n (Cs ! this) m ?xs" using all inC m by (simp add: all_show_None)
  note row = shows_row [OF shows_m k]
  obtain original where original: "row_original (m_rows m ! k) = Some original" using row(3) by blast
  obtain cells where cells: "h_getItemFromRow H (row_items (m_rows m ! k)) original = (?xs ! ?d, cells)"
    using row(2) original by (cases "h_getItemFromRow H (row_items (m_rows m ! k)) original")
      (auto simp: shown_def)
  define m1 where "m1 = set_row_items (int k) cells (emit_view (BeginMoveRows (int k) to) m)"
  have "length cells = n" "fst (h_getItemFromRow H cells original) = ?xs ! ?d"
    using read_length [of _ original] read_stable [of _ original] cells row(4) by (metis fst_conv snd_conv)+
  moreover have "vector_row (emit_view x m) k = ?d" "m_rows (emit_view x m) = m_rows m" for x
    by (simp_all add: vector_row_def emit_view_def)
  ultimately have "shows_items H n (Cs ! this) m1 ?xs"
    using shows_set_row_items [of H n "Cs ! this" "emit_view (BeginMoveRows (int k) to) m" ?xs k cells]
      shows_m k original by (simp add: m1_def)
  with all inC have all1: "all_show H n Cs None (ms[this := m1]) ?xs"
    by (intro all_show_update) auto
  obtain ms2 where ms2: "sv_removeAt (notify_models api H 0) (int ?d) None v (ms[this := m1]) =
      Inr (removed_vector ?d v, ms2)"
    and all2: "all_show H n Cs None ms2 (erase_at ?d ?xs)"
    using models.removeAt_sync [OF all1, of None ?d] row(1) by auto
  define D where "D = nat (getVectorIndexFromModelIndex to (ms2 ! this))"
  have shows2: "shows_items H n (Cs ! this) (ms2 ! this) (erase_at ?d ?xs)"
    using all2 inC by (simp add: all_show_None)
  then have count2: "length (plain (m_rows (ms2 ! this))) = length ?xs - 1"
    using row(1) by (auto simp: shows_items_def dest: arg_cong [where f = length])
  have "length (plain (take j (m_rows (ms2 ! this)))) \<le> length ?xs - 1" for j
    using count2 by (metis append_take_drop_id filter_append le_add1 length_append)
  then have D: "getVectorIndexFromModelIndex to (ms2 ! this) = int D" "D \<le> length ?xs - 1"
    using count2 unfolding D_def by (auto simp: getVectorIndex_eq)
  have Dlt: "D < length ?xs" using D(2) row(1) by linarith
  have pos: "insert_position (?xs ! ?d) (int D) (removed_vector ?d v) = D"
    using sync by (simp add: insert_position_def in_sync_def)
  have all2': "all_show H n Cs None ms2 (sv_items (removed_vector ?d v))"
    using all2 by simp
  obtain ms3 where ms3: "sv_insert (notify_models api H 0) (?xs ! ?d) (int D) None
      (removed_vector ?d v) ms2 = Inr (inserted_vector (?xs ! ?d) D (removed_vector ?d v), ms3, int D)"
    and all3: "all_show H n Cs None ms3 (insert_at D (?xs ! ?d) (erase_at ?d ?xs))"
    using models.insert_sync [OF all2', of None "int D" "?xs ! ?d"] Dlt row(1) unfolding pos by auto
  have "moveRows api H this (int k) 1 to v ms =
      Inr (inserted_vector (?xs ! ?d) D (removed_vector ?d v),
        ms3[this := emit_view EndMoveRows (ms3 ! this)], True)"
    using k m original cells row(5) ms2 ms3 D(1)
    by (simp add: moveRows_def m1_def emit_view_def)
  moreover have "all_show H n Cs None (ms3[this := emit_view EndMoveRows (ms3 ! this)])
      (insert_at D (?xs ! ?d) (erase_at ?d ?xs))"
    using all3 inC by (intro all_show_update [OF all3]) (auto simp: all_show_None)
  moreover have "D = (if to = -1 then length ?xs - 1 else nat to)"
    if "Cs ! this = []" "-1 \<le> to" "to < int (length ?xs)"
  proof -
    have rows2: "plain (m_rows (ms2 ! this)) = m_rows (ms2 ! this)"
      "\<forall>r\<in>set (m_rows (ms2 ! this)). \<not> isCustomRow r"
      using shows2 that(1) by (auto simp: shows_items_def filter_empty_conv filter_id_conv)
    have take: "plain (take (nat to) (m_rows (ms2 ! this))) = take (nat to) (m_rows (ms2 ! this))"
      using rows2(2) by (auto simp: filter_id_conv dest: in_set_takeD)
    have len: "length (m_rows (ms2 ! this)) = length ?xs - 1" using count2 rows2(1) by simp
    show ?thesis
    proof (cases "0 \<le> to \<and> to < int (length (m_rows (ms2 ! this)))")
      case True
      then have "\<not> isCustomRow (m_rows (ms2 ! this) ! nat to)"
        using rows2(2) nth_mem [of "nat to" "m_rows (ms2 ! this)"] by auto
      with True take show ?thesis unfolding D_def by (auto simp: getVectorIndex_eq)
    next
      case False
      with that len row(1) have "to = -1 \<or> nat to = length ?xs - 1" by linarith
      with False len count2 show ?thesis unfolding D_def by (auto simp: getVectorIndex_eq)
    qed
  qed
  ultimately show ?thesis
    using sync Dlt row(1)
    by (intro exI [of _ "inserted_vector (?xs ! ?d) D (removed_vector ?d v)"]
        exI [of _ "ms3[this := emit_view EndMoveRows (ms3 ! this)]"] exI [of _ D])
      (auto simp: in_sync_def)
qed

end

end
