(* ===== verification/TableModels.thy ===== *)
theory TableModels
  imports SignalVectorModel
begin

text \<open>
  The tables of the settings dialog that edit lists of plain records: ignored phrases
  (\<open>controllers/ignores/IgnoreModel.cpp\<close>), blacklisted users
  (\<open>controllers/highlights/HighlightBlacklistModel.cpp\<close>), muted channels
  (\<open>controllers/pings/MutedChannelModel.cpp\<close>), notifications
  (\<open>controllers/notifications/NotificationModel.cpp\<close>), nicknames
  (\<open>controllers/nicknames/NicknamesModel.cpp\<close>) and commands
  (\<open>controllers/commands/CommandModel.cpp\<close>), with the helpers of \<open>util/StandardItemHelper.hpp\<close>.

  The conversions between \<open>QVariant\<close> and strings, check states and fonts are code of Qt: they
  extend the record of the cell operations, and \<open>cell_laws\<close> states their documented behaviour.
\<close>

section \<open>Cells of strings and check boxes\<close>

record ('c, 'v) cell_api = "('c, 'v) item_api" +
  qv_fromString :: "string \<Rightarrow> 'v"
  qv_toString :: "'v \<Rightarrow> string"
  qv_fromCheckState :: "bool \<Rightarrow> 'v"
  qv_toBool :: "'v \<Rightarrow> bool"
  qv_fromFont :: "string \<Rightarrow> nat \<Rightarrow> bool \<Rightarrow> 'v"
  qs_trimmed :: "string \<Rightarrow> string"

text \<open>A \<open>QStandardItem\<close> keeps one value per role, and one for displaying and editing together.\<close>

fun stored_role :: "ItemDataRole \<Rightarrow> ItemDataRole" where
  "stored_role EditRole = DisplayRole"
| "stored_role r = r"

text \<open>The roles that the tables read and write are named by the enumeration; the flags of an item are stored under
  another one.\<close>

fun named_role :: "ItemDataRole \<Rightarrow> bool" where
  "named_role (OtherRole n) = False"
| "named_role r = True"

definition cell_laws :: "('c, 'v) cell_api \<Rightarrow> bool" where
  "cell_laws api \<longleftrightarrow>
     (\<forall>c x r r'. qi_data api (qi_setData api c x r) r' =
        (if stored_role r = stored_role r' then x else qi_data api c r')) \<and>
     (\<forall>c fs r. named_role r \<longrightarrow> qi_data api (qi_setFlags api c fs) r = qi_data api c r) \<and>
     (\<forall>s. qv_toString api (qv_fromString api s) = s) \<and>
     (\<forall>b. qv_toBool api (qv_fromCheckState api b) = b) \<and>
     (\<forall>s. qs_trimmed api (qs_trimmed api s) = qs_trimmed api s)"

lemma cell_lawsD:
  assumes "cell_laws api"
  shows "qi_data api (qi_setData api c x r) r' =
      (if stored_role r = stored_role r' then x else qi_data api c r')"
    and "named_role r \<Longrightarrow> qi_data api (qi_setFlags api c fs) r = qi_data api c r"
    and "qv_toString api (qv_fromString api s) = s"
    and "qv_toBool api (qv_fromCheckState api b) = b"
    and "qs_trimmed api (qs_trimmed api s) = qs_trimmed api s"
  using assms by (simp_all add: cell_laws_def)

definition defaultItemFlags :: "bool \<Rightarrow> ItemFlag set" where
  "defaultItemFlags selectable =
     {ItemIsEnabled} \<union>
     (if selectable then {ItemIsSelectable, ItemIsDragEnabled, ItemIsDropEnabled} else {})"

definition setBoolItem ::
  "('c, 'v) cell_api \<Rightarrow> 'c \<Rightarrow> bool \<Rightarrow> bool \<Rightarrow> bool \<Rightarrow> 'c" where
  "setBoolItem api item value userCheckable selectable =
     (let item = qi_setFlags api item
            (defaultItemFlags selectable \<union> (if userCheckable then {ItemIsUserCheckable} else {}))
      in qi_setData api item (qv_fromCheckState api value) CheckStateRole)"

definition setStringItem ::
  "('c, 'v) cell_api \<Rightarrow> 'c \<Rightarrow> string \<Rightarrow> bool \<Rightarrow> bool \<Rightarrow> 'c" where
  "setStringItem api item value editable selectable =
     (let item = qi_setData api item (qv_fromString api value) EditRole
      in qi_setFlags api item
           (defaultItemFlags selectable \<union> (if editable then {ItemIsEditable} else {})))"

text \<open>Reading a cell back.\<close>

definition cell_string :: "('c, 'v) cell_api \<Rightarrow> 'c list \<Rightarrow> nat \<Rightarrow> string" where
  "cell_string api row i = qv_toString api (qi_data api (row ! i) DisplayRole)"

definition cell_bool :: "('c, 'v) cell_api \<Rightarrow> 'c list \<Rightarrow> nat \<Rightarrow> bool" where
  "cell_bool api row i = qv_toBool api (qi_data api (row ! i) CheckStateRole)"

lemma read_cell [simp]:
  assumes "cell_laws api" "i < length row"
  shows "cell_string api (row[i := setStringItem api item s e f]) i = s"
    and "cell_bool api (row[i := setBoolItem api item b e f]) i = b"
  using assms by (simp_all add: cell_string_def cell_bool_def setStringItem_def setBoolItem_def
      Let_def cell_lawsD)

lemma read_other_cell [simp]:
  assumes "i \<noteq> j"
  shows "cell_string api (row[i := c]) j = cell_string api row j"
    and "cell_bool api (row[i := c]) j = cell_bool api row j"
  using assms by (simp_all add: cell_string_def cell_bool_def)

section \<open>Ignored phrases\<close>

record IgnorePhrase =
  ip_pattern :: string
  ip_isRegex :: bool
  ip_isBlock :: bool
  ip_replace :: string
  ip_isCaseSensitive :: bool

definition IgnoreModel_getItemFromRow ::
  "('c, 'v) cell_api \<Rightarrow> 'c list \<Rightarrow> IgnorePhrase \<Rightarrow> IgnorePhrase \<times> 'c list" where
  "IgnoreModel_getItemFromRow api row original =
     (\<lparr>ip_pattern = cell_string api row 0, ip_isRegex = cell_bool api row 1,
       ip_isBlock = cell_bool api row 3, ip_replace = cell_string api row 4,
       ip_isCaseSensitive = cell_bool api row 2\<rparr>, row)"

definition IgnoreModel_getRowFromItem ::
  "('c, 'v) cell_api \<Rightarrow> IgnorePhrase \<Rightarrow> 'c list \<Rightarrow> 'c list" where
  "IgnoreModel_getRowFromItem api item row =
     (let row = row[0 := setStringItem api (row ! 0) (ip_pattern item) True True];
          row = row[1 := setBoolItem api (row ! 1) (ip_isRegex item) True True];
          row = row[2 := setBoolItem api (row ! 2) (ip_isCaseSensitive item) True True];
          row = row[3 := setBoolItem api (row ! 3) (ip_isBlock item) True True];
          row = row[4 := setStringItem api (row ! 4) (ip_replace item) True True]
      in row)"

definition IgnoreModel :: "('c, 'v) cell_api \<Rightarrow> (IgnorePhrase, 'c, 'v, 'z) hooks" where
  "IgnoreModel api = base_hooks (IgnoreModel_getItemFromRow api) (IgnoreModel_getRowFromItem api)"

section \<open>Blacklisted users\<close>

record HighlightBlacklistUser =
  hb_pattern :: string
  hb_isRegex :: bool

definition HighlightBlacklistModel_getItemFromRow ::
  "('c, 'v) cell_api \<Rightarrow> 'c list \<Rightarrow> HighlightBlacklistUser \<Rightarrow> HighlightBlacklistUser \<times> 'c list" where
  "HighlightBlacklistModel_getItemFromRow api row original =
     (\<lparr>hb_pattern = cell_string api row 0, hb_isRegex = cell_bool api row 1\<rparr>, row)"

definition HighlightBlacklistModel_getRowFromItem ::
  "('c, 'v) cell_api \<Rightarrow> HighlightBlacklistUser \<Rightarrow> 'c list \<Rightarrow> 'c list" where
  "HighlightBlacklistModel_getRowFromItem api item row =
     (let row = row[0 := setStringItem api (row ! 0) (hb_pattern item) True True];
          row = row[1 := setBoolItem api (row ! 1) (hb_isRegex item) True True]
      in row)"

definition HighlightBlacklistModel ::
  "('c, 'v) cell_api \<Rightarrow> (HighlightBlacklistUser, 'c, 'v, 'z) hooks" where
  "HighlightBlacklistModel api = base_hooks (HighlightBlacklistModel_getItemFromRow api)
     (HighlightBlacklistModel_getRowFromItem api)"

section \<open>Lists of channel names\<close>

definition MutedChannelModel_getItemFromRow ::
  "('c, 'v) cell_api \<Rightarrow> 'c list \<Rightarrow> string \<Rightarrow> string \<times> 'c list" where
  "MutedChannelModel_getItemFromRow api row original = (cell_string api row 0, row)"

definition MutedChannelModel_getRowFromItem ::
  "('c, 'v) cell_api \<Rightarrow> string \<Rightarrow> 'c list \<Rightarrow> 'c list" where
  "MutedChannelModel_getRowFromItem api item row =
     row[0 := setStringItem api (row ! 0) item True True]"

definition MutedChannelModel :: "('c, 'v) cell_api \<Rightarrow> (string, 'c, 'v, 'z) hooks" where
  "MutedChannelModel api = base_hooks (MutedChannelModel_getItemFromRow api)
     (MutedChannelModel_getRowFromItem api)"

definition NotificationModel_getItemFromRow ::
  "('c, 'v) cell_api \<Rightarrow> 'c list \<Rightarrow> string \<Rightarrow> string \<times> 'c list" where
  "NotificationModel_getItemFromRow api row original = (cell_string api row 0, row)"

definition NotificationModel_getRowFromItem ::
  "('c, 'v) cell_api \<Rightarrow> string \<Rightarrow> 'c list \<Rightarrow> 'c list" where
  "NotificationModel_getRowFromItem api item row =
     row[0 := setStringItem api (row ! 0) item True True]"

definition NotificationModel :: "('c, 'v) cell_api \<Rightarrow> (string, 'c, 'v, 'z) hooks" where
  "NotificationModel api = base_hooks (NotificationModel_getItemFromRow api)
     (NotificationModel_getRowFromItem api)"

section \<open>Nicknames and commands\<close>

text \<open>These two trim what is read from a row.\<close>

record Nickname =
  nn_name :: string
  nn_replace :: string
  nn_isRegex :: bool
  nn_isCaseSensitive :: bool

definition NicknamesModel_getItemFromRow ::
  "('c, 'v) cell_api \<Rightarrow> 'c list \<Rightarrow> Nickname \<Rightarrow> Nickname \<times> 'c list" where
  "NicknamesModel_getItemFromRow api row original =
     (\<lparr>nn_name = qs_trimmed api (cell_string api row 0), nn_replace = cell_string api row 1,
       nn_isRegex = cell_bool api row 2, nn_isCaseSensitive = cell_bool api row 3\<rparr>, row)"

definition NicknamesModel_getRowFromItem ::
  "('c, 'v) cell_api \<Rightarrow> Nickname \<Rightarrow> 'c list \<Rightarrow> 'c list" where
  "NicknamesModel_getRowFromItem api item row =
     (let row = row[0 := setStringItem api (row ! 0) (nn_name item) True True];
          row = row[1 := setStringItem api (row ! 1) (nn_replace item) True True];
          row = row[2 := setBoolItem api (row ! 2) (nn_isRegex item) True True];
          row = row[3 := setBoolItem api (row ! 3) (nn_isCaseSensitive item) True True]
      in row)"

record Command =
  cmd_name :: string
  cmd_func :: string
  cmd_showInMsgContextMenu :: bool

definition Command :: "('c, 'v) cell_api \<Rightarrow> string \<Rightarrow> string \<Rightarrow> bool \<Rightarrow> Command" where
  "Command api name func showInMsgContextMenu =
     \<lparr>cmd_name = qs_trimmed api name, cmd_func = qs_trimmed api func,
      cmd_showInMsgContextMenu = showInMsgContextMenu\<rparr>"

text \<open>The constructor from one text: without a space the whole text is the name.\<close>

definition Command_text :: "('c, 'v) cell_api \<Rightarrow> string \<Rightarrow> Command" where
  "Command_text api input =
     (case first_index (\<lambda>c. c = CHR '' '') input of
        None \<Rightarrow> \<lparr>cmd_name = input, cmd_func = [], cmd_showInMsgContextMenu = False\<rparr>
      | Some index \<Rightarrow>
          \<lparr>cmd_name = qs_trimmed api (take index input),
           cmd_func = qs_trimmed api (drop (index + 1) input), cmd_showInMsgContextMenu = False\<rparr>)"

definition Command_toString :: "Command \<Rightarrow> string" where
  "Command_toString c = cmd_name c @ '' '' @ cmd_func c"

definition CommandModel_getItemFromRow ::
  "('c, 'v) cell_api \<Rightarrow> 'c list \<Rightarrow> Command \<Rightarrow> Command \<times> 'c list" where
  "CommandModel_getItemFromRow api row original =
     (Command api (qv_toString api (qi_data api (row ! 0) EditRole))
        (qv_toString api (qi_data api (row ! 1) EditRole)) (cell_bool api row 2), row)"

definition CommandModel_getRowFromItem ::
  "('c, 'v) cell_api \<Rightarrow> Command \<Rightarrow> 'c list \<Rightarrow> 'c list" where
  "CommandModel_getRowFromItem api item row =
     (let row = row[0 := setStringItem api (row ! 0) (cmd_name item) True True];
          row = row[1 := setStringItem api (row ! 1) (cmd_func item) True True];
          row = row[2 := setBoolItem api (row ! 2) (cmd_showInMsgContextMenu item) True True]
      in row)"

section \<open>Rows read back\<close>

lemma codec_length [simp]:
  "length (IgnoreModel_getRowFromItem api p row) = length row"
  "length (HighlightBlacklistModel_getRowFromItem api u row) = length row"
  "length (MutedChannelModel_getRowFromItem api s row) = length row"
  "length (NotificationModel_getRowFromItem api s row) = length row"
  "length (NicknamesModel_getRowFromItem api nick row) = length row"
  "length (CommandModel_getRowFromItem api c row) = length row"
  by (simp_all add: IgnoreModel_getRowFromItem_def HighlightBlacklistModel_getRowFromItem_def
      MutedChannelModel_getRowFromItem_def NotificationModel_getRowFromItem_def
      NicknamesModel_getRowFromItem_def CommandModel_getRowFromItem_def Let_def)

lemma IgnoreModel_codec:
  assumes "cell_laws api" "length row = 5"
  shows "fst (IgnoreModel_getItemFromRow api (IgnoreModel_getRowFromItem api p row) original) = p"
  using assms by (simp add: IgnoreModel_getItemFromRow_def IgnoreModel_getRowFromItem_def Let_def)

lemma HighlightBlacklistModel_codec:
  assumes "cell_laws api" "length row = 2"
  shows "fst (HighlightBlacklistModel_getItemFromRow api
    (HighlightBlacklistModel_getRowFromItem api u row) original) = u"
  using assms by (simp add: HighlightBlacklistModel_getItemFromRow_def
      HighlightBlacklistModel_getRowFromItem_def Let_def)

lemma channel_list_codec:
  assumes "cell_laws api" "length row = 1"
  shows "fst (MutedChannelModel_getItemFromRow api (MutedChannelModel_getRowFromItem api s row) original) = s"
    and "fst (NotificationModel_getItemFromRow api (NotificationModel_getRowFromItem api s row) original) = s"
  using assms by (simp_all add: MutedChannelModel_getItemFromRow_def
      MutedChannelModel_getRowFromItem_def NotificationModel_getItemFromRow_def
      NotificationModel_getRowFromItem_def)

lemma NicknamesModel_codec:
  assumes "cell_laws api" "length row = 4"
  shows "fst (NicknamesModel_getItemFromRow api (NicknamesModel_getRowFromItem api nick row) original) =
    nick\<lparr>nn_name := qs_trimmed api (nn_name nick)\<rparr>"
  using assms by (simp add: NicknamesModel_getItemFromRow_def NicknamesModel_getRowFromItem_def Let_def)

lemma CommandModel_codec:
  assumes "cell_laws api" "length row = 3"
  shows "fst (CommandModel_getItemFromRow api (CommandModel_getRowFromItem api c row) original) =
    Command api (cmd_name c) (cmd_func c) (cmd_showInMsgContextMenu c)"
  using assms by (simp add: CommandModel_getItemFromRow_def CommandModel_getRowFromItem_def Let_def
      setStringItem_def cell_lawsD)

section \<open>Requests\<close>

text \<open>
  What can happen to a vector that several tables show: the user edits a cell, removes or moves a
  row of one of the tables, or other code inserts or removes an item.  The first number is the
  position of the table.
\<close>

datatype ('a, 'v) table_request =
    EditCell nat nat nat 'v ItemDataRole
  | RemoveRow nat nat
  | MoveRow nat nat int
  | InsertItem 'a int
  | RemoveItem nat

fun run_request ::
  "('c, 'v, 'y) item_api_scheme \<Rightarrow> ('a, 'c, 'v, 'z) hooks \<Rightarrow> ('a, 'v) table_request \<Rightarrow>
   'a SignalVector \<times> ('a, 'c, 'v, 'z) model list \<Rightarrow>
   vector_error + ('a SignalVector \<times> ('a, 'c, 'v, 'z) model list)" where
  "run_request api H (EditCell j k column value role) (v, ms) =
     bind_sum (setData api H j (int k) (int column) value role v ms) (\<lambda>(v, ms, _). Inr (v, ms))"
| "run_request api H (RemoveRow j k) (v, ms) =
     bind_sum (removeRows api H j (int k) 1 v ms) (\<lambda>(v, ms, _). Inr (v, ms))"
| "run_request api H (MoveRow j k to) (v, ms) =
     bind_sum (moveRows api H j (int k) 1 to v ms) (\<lambda>(v, ms, _). Inr (v, ms))"
| "run_request api H (InsertItem x i) (v, ms) =
     bind_sum (sv_insert (notify_models api H 0) x i None v ms) (\<lambda>(v, ms, _). Inr (v, ms))"
| "run_request api H (RemoveItem k) (v, ms) =
     sv_removeAt (notify_models api H 0) (int k) None v ms"

text \<open>The same requests on a list of items, and when they make sense for N tables of n columns.\<close>

fun apply_request ::
  "(nat \<Rightarrow> 'v \<Rightarrow> ItemDataRole \<Rightarrow> 'a \<Rightarrow> 'a) \<Rightarrow> ('a, 'v) table_request \<Rightarrow> 'a list \<Rightarrow> 'a list" where
  "apply_request edit (EditCell j k column value role) xs =
     xs[k := edit column value role (xs ! k)]"
| "apply_request edit (RemoveRow j k) xs = erase_at k xs"
| "apply_request edit (MoveRow j k to) xs =
     insert_at (if to = -1 then length xs - 1 else nat to) (xs ! k) (erase_at k xs)"
| "apply_request edit (InsertItem x i) xs = insert_at (if i = -1 then length xs else nat i) x xs"
| "apply_request edit (RemoveItem k) xs = erase_at k xs"

fun valid_request :: "nat \<Rightarrow> nat \<Rightarrow> ('a, 'v) table_request \<Rightarrow> nat \<Rightarrow> bool" where
  "valid_request N n (EditCell j k column value role) len \<longleftrightarrow> j < N \<and> k < len \<and> column < n"
| "valid_request N n (RemoveRow j k) len \<longleftrightarrow> j < N \<and> k < len"
| "valid_request N n (MoveRow j k to) len \<longleftrightarrow> j < N \<and> k < len \<and> -1 \<le> to \<and> to < int len"
| "valid_request N n (InsertItem x i) len \<longleftrightarrow> -1 \<le> i \<and> i \<le> int len"
| "valid_request N n (RemoveItem k) len \<longleftrightarrow> k < len"

lemma no_custom_rows:
  assumes "shows_items H n [] m xs"
  shows "length (m_rows m) = length xs" "k < length (m_rows m) \<Longrightarrow> \<not> isCustomRow (m_rows m ! k)"
    and "k < length xs \<Longrightarrow> vector_row m k = k"
proof -
  have all: "\<forall>r\<in>set (m_rows m). \<not> isCustomRow r"
    using assms by (auto simp: shows_items_def filter_empty_conv)
  have "plain (take i (m_rows m)) = take i (m_rows m)" for i
    using all by (auto simp: filter_id_conv dest: in_set_takeD)
  moreover have "plain (m_rows m) = m_rows m" using all by (simp add: filter_id_conv)
  ultimately show "length (m_rows m) = length xs" "k < length xs \<Longrightarrow> vector_row m k = k"
    using assms by (auto simp: shows_items_def vector_row_def)
  show "k < length (m_rows m) \<Longrightarrow> \<not> isCustomRow (m_rows m ! k)" using all nth_mem by blast
qed

context table_model begin

text \<open>Editing a cell acts on the item by \<open>edit\<close>.\<close>

lemma request_sync:
  assumes sync: "in_sync H n (replicate N []) v ms" and valid: "valid_request N n req (length (sv_items v))"
    and edit: "\<And>cells x column value role. length cells = n \<Longrightarrow> column < n \<Longrightarrow>
      fst (h_getItemFromRow H (cells[column := qi_setData api (cells ! column) value role]) x) =
      edit column value role (fst (h_getItemFromRow H cells x))"
  shows "\<exists>v' ms'. run_request api H req (v, ms) = Inr (v', ms') \<and>
    in_sync H n (replicate N []) v' ms' \<and> sv_items v' = apply_request edit req (sv_items v)"
proof -
  have all: "all_show H n (replicate N []) None ms (sv_items v)" and unsorted: "sv_compare v = None"
    using sync by (simp_all add: in_sync_def)
  then have len: "length ms = N" and tables: "\<And>j. j < N \<Longrightarrow> shows_items H n [] (ms ! j) (sv_items v)"
    by (auto simp: all_show_None)
  have row: "j < length ms \<and> k < length (m_rows (ms ! j)) \<and> \<not> isCustomRow (m_rows (ms ! j) ! k) \<and>
      vector_row (ms ! j) k = k" if "j < N" "k < length (sv_items v)" for j k
    using no_custom_rows [OF tables [OF that(1)]] that len by simp
  show ?thesis
  proof (cases req)
    case (EditCell j k column y role)
    then have r: "j < N" "k < length (sv_items v)" "column < n" using valid by auto
    note s = shows_row [OF tables [OF r(1)], of k]
    from setData_sync [OF sync _ refl _ _ r(3) refl refl, of j k y role] row [OF r(1,2)] r
    show ?thesis using s edit by (fastforce simp: EditCell shown_def)
  next
    case (RemoveRow j k)
    with removeRows_sync [OF sync _ refl, of j k] row [of j k] valid show ?thesis by auto
  next
    case (MoveRow j k to)
    with moveRows_sync [OF sync _ refl, of j k to] row [of j k] valid show ?thesis by fastforce
  next
    case (InsertItem x i)
    let ?i = "insert_position x i v"
    obtain ms' where "sv_insert (notify_models api H 0) x i None v ms =
        Inr (inserted_vector x ?i v, ms', int ?i)"
      and "all_show H n (replicate N []) None ms' (insert_at ?i x (sv_items v))"
      using models.insert_sync [OF all, of None i x] valid InsertItem by auto
    moreover have "?i = (if i = -1 then length (sv_items v) else nat i)"
      by (simp add: insert_position_def unsorted)
    ultimately show ?thesis using unsorted by (simp add: InsertItem in_sync_def)
  next
    case (RemoveItem k)
    obtain ms' where "sv_removeAt (notify_models api H 0) (int k) None v ms = Inr (removed_vector k v, ms')"
      and "all_show H n (replicate N []) None ms' (erase_at k (sv_items v))"
      using models.removeAt_sync [OF all, of None k] valid RemoveItem by auto
    then show ?thesis using unsorted by (simp add: RemoveItem in_sync_def)
  qed
qed

end

text \<open>Any sequence of requests.\<close>

fun run_requests ::
  "('c, 'v, 'y) item_api_scheme \<Rightarrow> ('a, 'c, 'v, 'z) hooks \<Rightarrow> ('a, 'v) table_request list \<Rightarrow>
   'a SignalVector \<times> ('a, 'c, 'v, 'z) model list \<Rightarrow>
   vector_error + ('a SignalVector \<times> ('a, 'c, 'v, 'z) model list)" where
  "run_requests api H [] st = Inr st"
| "run_requests api H (req # reqs) st =
     bind_sum (run_request api H req st) (run_requests api H reqs)"

fun valid_requests ::
  "(nat \<Rightarrow> 'v \<Rightarrow> ItemDataRole \<Rightarrow> 'a \<Rightarrow> 'a) \<Rightarrow> nat \<Rightarrow> nat \<Rightarrow> ('a, 'v) table_request list \<Rightarrow>
   'a list \<Rightarrow> bool" where
  "valid_requests edit N n [] xs \<longleftrightarrow> True"
| "valid_requests edit N n (req # reqs) xs \<longleftrightarrow>
     valid_request N n req (length xs) \<and> valid_requests edit N n reqs (apply_request edit req xs)"

context table_model begin

lemma requests_sync:
  assumes "in_sync H n (replicate N []) v ms" "valid_requests edit N n reqs (sv_items v)"
    and edit: "\<And>cells x column value role. length cells = n \<Longrightarrow> column < n \<Longrightarrow>
      fst (h_getItemFromRow H (cells[column := qi_setData api (cells ! column) value role]) x) =
      edit column value role (fst (h_getItemFromRow H cells x))"
  shows "\<exists>v' ms'. run_requests api H reqs (v, ms) = Inr (v', ms') \<and>
    in_sync H n (replicate N []) v' ms' \<and> sv_items v' = fold (apply_request edit) reqs (sv_items v)"
  using assms(1,2)
proof (induction reqs arbitrary: v ms)
  case (Cons req reqs)
  obtain v1 ms1 where 1: "run_request api H req (v, ms) = Inr (v1, ms1)"
    "in_sync H n (replicate N []) v1 ms1" "sv_items v1 = apply_request edit req (sv_items v)"
    using request_sync [of N v ms req edit, OF Cons.prems(1) _ edit] Cons.prems(2) by auto
  with Cons.IH [OF 1(2)] Cons.prems(2) show ?case by simp
qed simp

end

text \<open>An empty vector with new tables is in sync.\<close>

lemma initial_sync: "in_sync H n (replicate N []) SignalVector (replicate N (SignalVectorModel n))"
  by (simp add: in_sync_def all_show_None shows_items_def SignalVectorModel_def SignalVector_def)

section \<open>The tables follow their vectors\<close>

lemma table_model_base:
  assumes "\<And>x cells. length cells = n \<Longrightarrow> length (toRow x cells) = n"
    and "\<And>x. fst (fromRow (toRow x (replicate n (qi_new api))) x) = x"
    and "\<And>cells x. snd (fromRow cells x) = cells"
  shows "table_model api (base_hooks fromRow toRow) n"
  by unfold_locales (simp_all add: base_hooks_def assms)

locale standard_items =
  fixes api :: "('c, 'v) cell_api"
  assumes laws: "cell_laws api"

sublocale standard_items \<subseteq> ignores: table_model api "IgnoreModel api" 5
  unfolding IgnoreModel_def
  by (rule table_model_base) (simp_all add: IgnoreModel_codec laws,
      simp add: IgnoreModel_getItemFromRow_def)

sublocale standard_items \<subseteq> blacklist: table_model api "HighlightBlacklistModel api" 2
  unfolding HighlightBlacklistModel_def
  by (rule table_model_base) (simp_all add: HighlightBlacklistModel_codec laws,
      simp add: HighlightBlacklistModel_getItemFromRow_def)

sublocale standard_items \<subseteq> muted: table_model api "MutedChannelModel api" 1
  unfolding MutedChannelModel_def
  by (rule table_model_base) (simp_all add: channel_list_codec laws,
      simp add: MutedChannelModel_getItemFromRow_def)

sublocale standard_items \<subseteq> notifications: table_model api "NotificationModel api" 1
  unfolding NotificationModel_def
  by (rule table_model_base) (simp_all add: channel_list_codec laws,
      simp add: NotificationModel_getItemFromRow_def)

context standard_items begin

lemmas ignores_requests = ignores.requests_sync

end

definition edit_phrase ::
  "('c, 'v) cell_api \<Rightarrow> nat \<Rightarrow> 'v \<Rightarrow> ItemDataRole \<Rightarrow> IgnorePhrase \<Rightarrow> IgnorePhrase" where
  "edit_phrase api column value role p =
     (if stored_role role = DisplayRole \<and> column = 0 then p\<lparr>ip_pattern := qv_toString api value\<rparr>
      else if stored_role role = DisplayRole \<and> column = 4 then p\<lparr>ip_replace := qv_toString api value\<rparr>
      else if role = CheckStateRole \<and> column = 1 then p\<lparr>ip_isRegex := qv_toBool api value\<rparr>
      else if role = CheckStateRole \<and> column = 2 then p\<lparr>ip_isCaseSensitive := qv_toBool api value\<rparr>
      else if role = CheckStateRole \<and> column = 3 then p\<lparr>ip_isBlock := qv_toBool api value\<rparr>
      else p)"

lemma stored_role_eq_Check [simp]: "stored_role r = CheckStateRole \<longleftrightarrow> r = CheckStateRole"
  by (cases r) auto

lemma cell_after_setData:
  assumes "cell_laws api" "i < length row"
  shows "cell_string api (row[i := qi_setData api (row ! i) x role]) j =
      (if i = j \<and> stored_role role = DisplayRole then qv_toString api x else cell_string api row j)"
    and "cell_bool api (row[i := qi_setData api (row ! i) x role]) j =
      (if i = j \<and> role = CheckStateRole then qv_toBool api x else cell_bool api row j)"
  using assms by (auto simp: cell_string_def cell_bool_def cell_lawsD nth_list_update)

lemma edit_phrase_reads:
  assumes "cell_laws api" "length cells = 5" "column < 5"
  shows "fst (h_getItemFromRow (IgnoreModel api)
      (cells[column := qi_setData api (cells ! column) value role]) x) =
    edit_phrase api column value role (fst (h_getItemFromRow (IgnoreModel api) cells x))"
  using assms by (auto simp: IgnoreModel_def base_hooks_def IgnoreModel_getItemFromRow_def
      edit_phrase_def cell_after_setData)

section \<open>A concrete cell\<close>

datatype sample_value = NoValue | Text string | Check bool | Font string nat bool

type_synonym sample_cell = "(ItemDataRole \<Rightarrow> sample_value) \<times> ItemFlag set"

definition sample_cells :: "(sample_cell, sample_value) cell_api" where
  "sample_cells =
     \<lparr>qi_new = (\<lambda>_. NoValue, {}), qi_data = (\<lambda>c r. fst c (stored_role r)),
      qi_setData = (\<lambda>c x r. ((fst c)(stored_role r := x), snd c)), qi_flags = snd,
      qi_setFlags = (\<lambda>c fs. (fst c, fs)), qv_invalid = NoValue, qv_fromString = Text,
      qv_toString = (\<lambda>x. case x of Text s \<Rightarrow> s | _ \<Rightarrow> []), qv_fromCheckState = Check,
      qv_toBool = (\<lambda>x. case x of Check b \<Rightarrow> b | _ \<Rightarrow> False), qv_fromFont = Font,
      qs_trimmed = (\<lambda>s. rev (dropWhile (\<lambda>c. c = CHR '' '')
         (rev (dropWhile (\<lambda>c. c = CHR '' '') s))))\<rparr>"

lemma dropWhile_twice [simp]: "dropWhile P (dropWhile P xs) = dropWhile P xs"
  by (metis dropWhile_eq_self_iff hd_dropWhile)

lemma dropWhile_rev_dropWhile:
  "dropWhile P (rev (dropWhile P (rev (dropWhile P xs)))) = rev (dropWhile P (rev (dropWhile P xs)))"
proof -
  let ?ys = "dropWhile P xs"
  have "takeWhile P (rev ?ys) @ dropWhile P (rev ?ys) = rev ?ys" by simp
  then have "?ys = rev (dropWhile P (rev ?ys)) @ rev (takeWhile P (rev ?ys))"
    by (metis rev_append rev_rev_ident)
  then have "rev (dropWhile P (rev ?ys)) \<noteq> [] \<Longrightarrow> hd (rev (dropWhile P (rev ?ys))) = hd ?ys"
    by (metis hd_append2)
  moreover have "?ys \<noteq> [] \<Longrightarrow> \<not> P (hd ?ys)" by (rule hd_dropWhile)
  ultimately have "\<not> P (hd (rev (dropWhile P (rev ?ys))))" if "rev (dropWhile P (rev ?ys)) \<noteq> []"
    using that by (metis dropWhile.simps(1) rev.simps(1))
  then show ?thesis by (metis dropWhile_eq_self_iff)
qed

interpretation sample: standard_items sample_cells
  by unfold_locales (auto simp: cell_laws_def sample_cells_def dropWhile_rev_dropWhile)

section \<open>Properties\<close>

text \<open>
  A row of a settings table reads back as the item it was made from; nicknames and commands
  come back with their texts trimmed.
\<close>

theorem rows_round_trip:
  assumes "cell_laws api"
  shows "(let row = IgnoreModel_getRowFromItem api phrase (replicate 5 c)
      in fst (IgnoreModel_getItemFromRow api row x1) = phrase) \<and>
    (let row = HighlightBlacklistModel_getRowFromItem api user (replicate 2 c)
      in fst (HighlightBlacklistModel_getItemFromRow api row x2) = user) \<and>
    (let row = MutedChannelModel_getRowFromItem api name (replicate 1 c)
      in fst (MutedChannelModel_getItemFromRow api row x3) = name) \<and>
    (let row = NotificationModel_getRowFromItem api name (replicate 1 c)
      in fst (NotificationModel_getItemFromRow api row x3) = name) \<and>
    (let row = NicknamesModel_getRowFromItem api nick (replicate 4 c)
      in fst (NicknamesModel_getItemFromRow api row x4) =
        nick\<lparr>nn_name := qs_trimmed api (nn_name nick)\<rparr>) \<and>
    (let row = CommandModel_getRowFromItem api (Command api n f sh) (replicate 3 c)
      in fst (CommandModel_getItemFromRow api row x5) = Command api n f sh)"
  using assms by (simp add: Let_def IgnoreModel_codec HighlightBlacklistModel_codec
      channel_list_codec NicknamesModel_codec CommandModel_codec Command_def cell_lawsD(5)
)

theorem rows_round_trip_witness:
  "fst (NicknamesModel_getItemFromRow sample_cells
     (NicknamesModel_getRowFromItem sample_cells \<lparr>nn_name = '' a'', nn_replace = ''b'',
        nn_isRegex = True, nn_isCaseSensitive = False\<rparr> (replicate 4 (qi_new sample_cells))) undefined) =
   \<lparr>nn_name = ''a'', nn_replace = ''b'', nn_isRegex = True, nn_isCaseSensitive = False\<rparr>"
  using rows_round_trip [OF sample.laws, of _ "qi_new sample_cells" _ _ _ _ _
      "\<lparr>nn_name = '' a'', nn_replace = ''b'', nn_isRegex = True, nn_isCaseSensitive = False\<rparr>"]
  by (simp add: Let_def) (simp add: sample_cells_def)

text \<open>
  C13. Tables of ignored phrases stay in step with their vector.  Whatever users do in any of the
  tables that show the vector, and whatever else inserts or removes items: no request fails, every
  table shows exactly the items of the vector afterwards, and the items are what the same requests
  make of a plain list.  A moved row ends up at its destination, an edited cell changes one field.
\<close>

theorem ignore_tables_refine_list:
  assumes "cell_laws api" "in_sync (IgnoreModel api) 5 (replicate N []) v ms"
    and "valid_requests (edit_phrase api) N 5 reqs (sv_items v)"
  shows "\<exists>v' ms'. run_requests api (IgnoreModel api) reqs (v, ms) = Inr (v', ms') \<and>
    in_sync (IgnoreModel api) 5 (replicate N []) v' ms' \<and>
    sv_items v' = fold (apply_request (edit_phrase api)) reqs (sv_items v)"
  using standard_items.ignores_requests [OF standard_items.intro [OF assms(1)] assms(2,3)]
    edit_phrase_reads [OF assms(1)] by blast

theorem ignore_tables_refine_list_witness:
  "\<exists>v' ms'. run_requests sample_cells (IgnoreModel sample_cells)
      [InsertItem \<lparr>ip_pattern = ''a'', ip_isRegex = False, ip_isBlock = True, ip_replace = [],
         ip_isCaseSensitive = True\<rparr> (-1),
       EditCell 1 0 0 (Text ''b'') EditRole, EditCell 0 0 3 (Check False) CheckStateRole]
      (SignalVector, replicate 2 (SignalVectorModel 5)) = Inr (v', ms') \<and>
    sv_items v' = [\<lparr>ip_pattern = ''b'', ip_isRegex = False, ip_isBlock = False, ip_replace = [],
      ip_isCaseSensitive = True\<rparr>] \<and>
    in_sync (IgnoreModel sample_cells) 5 (replicate 2 []) v' ms'"
proof -
  from ignore_tables_refine_list [OF sample.laws initial_sync, of 2
      "[InsertItem \<lparr>ip_pattern = ''a'', ip_isRegex = False, ip_isBlock = True, ip_replace = [],
         ip_isCaseSensitive = True\<rparr> (-1),
       EditCell 1 0 0 (Text ''b'') EditRole, EditCell 0 0 3 (Check False) CheckStateRole]"]
  show ?thesis
    by (simp add: SignalVector_def edit_phrase_def sample_cells_def del: run_requests.simps)
      blast
qed


end
