(* ===== verification/CategoryModels.thy ===== *)
theory CategoryModels
  imports TableModels
begin

text \<open>
  The two tables with category headers: hotkeys (\<open>controllers/hotkeys/HotkeyModel.cpp\<close>, with the
  parts of \<open>Hotkey.cpp\<close> and \<open>HotkeyController.cpp\<close> they need) and accounts
  (\<open>controllers/accounts/AccountModel.cpp\<close>).  Both count the items per category, insert a custom
  row before the first item of a category and remove it after the last one.

  The layout that the tables should have is \<open>layout\<close>; the lemmas show when the incremental updates
  reach it.
\<close>

section \<open>State\<close>

record ('a, 'c, 'v) CategoryModel = "('a, 'c, 'v) SignalVectorModel" +
  m_categoryCount :: "string \<rightharpoonup> int"

definition CategoryModel :: "nat \<Rightarrow> ('a, 'c, 'v) CategoryModel" where
  "CategoryModel columns =
     \<lparr>m_headerData = replicate columns Map.empty, m_rows = [], m_columnCount = columns,
      m_emitted = [], m_categoryCount = Map.empty\<rparr>"

section \<open>Hotkeys\<close>

datatype HotkeyCategory = PopupWindow | Split | SplitInput | Window

fun hotkey_category_value :: "HotkeyCategory \<Rightarrow> nat" where
  "hotkey_category_value PopupWindow = 0"
| "hotkey_category_value Split = 1"
| "hotkey_category_value SplitInput = 2"
| "hotkey_category_value Window = 3"

instantiation HotkeyCategory :: linorder
begin

definition less_eq_HotkeyCategory :: "HotkeyCategory \<Rightarrow> HotkeyCategory \<Rightarrow> bool" where
  "s \<le> t \<longleftrightarrow> hotkey_category_value s \<le> hotkey_category_value t"

definition less_HotkeyCategory :: "HotkeyCategory \<Rightarrow> HotkeyCategory \<Rightarrow> bool" where
  "s < t \<longleftrightarrow> hotkey_category_value s < hotkey_category_value t"

instance
proof
  show "s = t" if "s \<le> t" "t \<le> s" for s t :: HotkeyCategory
    using that by (cases s; cases t) (simp_all add: less_eq_HotkeyCategory_def)
qed (auto simp: less_eq_HotkeyCategory_def less_HotkeyCategory_def)

end

definition HOTKEY_CATEGORIES :: "HotkeyCategory \<rightharpoonup> string \<times> string" where
  "HOTKEY_CATEGORIES = map_of
     [(PopupWindow, ''popupWindow'', ''Popup Windows''), (Split, ''split'', ''Split''),
      (SplitInput, ''splitInput'', ''Split input box''), (Window, ''window'', ''Window'')]"

definition hotkeyCategoryName :: "HotkeyCategory \<Rightarrow> string" where
  "hotkeyCategoryName category =
     (case HOTKEY_CATEGORIES category of None \<Rightarrow> [] | Some (name, _) \<Rightarrow> name)"

definition hotkeyCategoryDisplayName :: "HotkeyCategory \<Rightarrow> string" where
  "hotkeyCategoryDisplayName category =
     (case HOTKEY_CATEGORIES category of None \<Rightarrow> [] | Some (_, displayName) \<Rightarrow> displayName)"

text \<open>The key sequence is a value of Qt.\<close>

record 'k Hotkey =
  hk_category :: HotkeyCategory
  hk_keySequence :: 'k
  hk_action :: string
  hk_arguments :: "string list"
  hk_name :: string

definition getCategory :: "'k Hotkey \<Rightarrow> string" where
  "getCategory h = hotkeyCategoryDisplayName (hk_category h)"

text \<open>
  What the table asks of its surroundings: the text of a key sequence, the order of strings, and
  the actions that exist per category.
\<close>

record 'k hotkey_env =
  he_toString :: "'k \<Rightarrow> string"
  he_less :: "string \<Rightarrow> string \<Rightarrow> bool"
  he_actionNames :: "HotkeyCategory \<rightharpoonup> string list"

definition validAction :: "'k hotkey_env \<Rightarrow> 'k Hotkey \<Rightarrow> bool" where
  "validAction env h =
     (case he_actionNames env (hk_category h) of None \<Rightarrow> False
      | Some actions \<Rightarrow> hk_action h \<in> set actions)"

definition hotkeySortCompare :: "'k hotkey_env \<Rightarrow> 'k Hotkey \<Rightarrow> 'k Hotkey \<Rightarrow> bool" where
  "hotkeySortCompare env a b =
     (if hk_category a = hk_category b then he_less env (hk_name a) (hk_name b)
      else hk_category a < hk_category b)"

section \<open>The table of hotkeys\<close>

definition HotkeyModel_getRowFromItem ::
  "('c, 'v) cell_api \<Rightarrow> 'k hotkey_env \<Rightarrow> 'k Hotkey \<Rightarrow> 'c list \<Rightarrow> 'c list" where
  "HotkeyModel_getRowFromItem api env item row =
     (let font = qv_fromFont api ''Segoe UI'' 10 (\<not> validAction env item);
          row = row[0 := setStringItem api (row ! 0) (hk_name item) False True];
          row = row[0 := qi_setData api (row ! 0) font FontRole];
          row = row[1 := setStringItem api (row ! 1) (he_toString env (hk_keySequence item)) False True];
          row = row[1 := qi_setData api (row ! 1) font FontRole]
      in row)"

text \<open>The cells of a header: the category in the first column, which is bold, empty cells after it.\<close>

definition hotkey_header :: "('c, 'v) cell_api \<Rightarrow> string \<Rightarrow> 'c list \<Rightarrow> 'c list" where
  "hotkey_header api category newRow =
     (let newRow = newRow[0 := qi_setData api (setStringItem api (newRow ! 0) category False False)
            (qv_fromFont api ''Segoe UI Light'' 16 False) FontRole]
      in take 1 newRow @ map (\<lambda>c. setStringItem api c [] False False) (drop 1 newRow))"

fun category_index_loop ::
  "('c, 'v) cell_api \<Rightarrow> string \<Rightarrow> ('a, 'c) Row list \<Rightarrow> int \<Rightarrow> int \<Rightarrow> int \<times> int" where
  "category_index_loop api category [] modelIndex current = (current, -1)"
| "category_index_loop api category (row # rows) modelIndex current =
     (if isCustomRow row
      then
        let customRowValue = qv_toString api (qi_data api (row_items row ! 0) EditRole)
        in if current \<noteq> -1 then (current, modelIndex)
           else category_index_loop api category rows (modelIndex + 1)
                  (if customRowValue = category then modelIndex else current)
      else category_index_loop api category rows (modelIndex + 1) current)"

definition getCurrentAndNextCategoryModelIndex ::
  "('c, 'v) cell_api \<Rightarrow> string \<Rightarrow> ('a, 'c, 'v) CategoryModel \<Rightarrow> int \<times> int" where
  "getCurrentAndNextCategoryModelIndex api category m =
     category_index_loop api category (m_rows m) 0 (-1)"

definition category_count :: "string \<Rightarrow> ('a, 'c, 'v) CategoryModel \<Rightarrow> int" where
  "category_count category m = (case m_categoryCount m category of None \<Rightarrow> 0 | Some k \<Rightarrow> k)"

definition HotkeyModel_beforeInsert ::
  "('c, 'v) cell_api \<Rightarrow> 'k Hotkey \<Rightarrow> 'c list \<Rightarrow> int \<Rightarrow> ('k Hotkey, 'c, 'v) CategoryModel \<Rightarrow>
   vector_error + (('k Hotkey, 'c, 'v) CategoryModel \<times> int)" where
  "HotkeyModel_beforeInsert api item row proposedIndex m =
     (let category = getCategory item;
          cnt = category_count category m;
          m = m\<lparr>m_categoryCount := (m_categoryCount m)(category \<mapsto> cnt + 1)\<rparr>
      in if cnt = 0
         then bind_sum
                (insertCustomRow (hotkey_header api category (createRow api m)) proposedIndex m)
                (\<lambda>m. Inr (m, proposedIndex + 1))
         else
           let (current, nextCategory) = getCurrentAndNextCategoryModelIndex api category m
           in if nextCategory \<noteq> -1 \<and> proposedIndex \<ge> nextCategory then Inr (m, proposedIndex - 1)
              else Inr (m, proposedIndex))"

definition category_afterRemoved ::
  "string \<Rightarrow> int \<Rightarrow> ('a, 'c, 'v) CategoryModel \<Rightarrow> vector_error + ('a, 'c, 'v) CategoryModel" where
  "category_afterRemoved category index m =
     (case m_categoryCount m category of
        None \<Rightarrow> Inl AssertionFailed
      | Some k \<Rightarrow>
          if k \<le> 1
          then removeCustomRow (index - 1)
                 (m\<lparr>m_categoryCount := (m_categoryCount m)(category := None)\<rparr>)
          else Inr (m\<lparr>m_categoryCount := (m_categoryCount m)(category \<mapsto> k - 1)\<rparr>))"

definition HotkeyModel_afterRemoved ::
  "'k Hotkey \<Rightarrow> 'c list \<Rightarrow> int \<Rightarrow> ('k Hotkey, 'c, 'v) CategoryModel \<Rightarrow>
   vector_error + ('k Hotkey, 'c, 'v) CategoryModel" where
  "HotkeyModel_afterRemoved item row index m = category_afterRemoved (getCategory item) index m"

definition HotkeyModel ::
  "('c, 'v) cell_api \<Rightarrow> 'k hotkey_env \<Rightarrow>
   ('k Hotkey, 'c, 'v, ('k Hotkey, 'c, 'v) CategoryModel) model_hooks" where
  "HotkeyModel api env =
     \<lparr>h_getItemFromRow = (\<lambda>row original. (original, row)),
      h_getRowFromItem = HotkeyModel_getRowFromItem api env,
      h_beforeInsert = HotkeyModel_beforeInsert api,
      h_afterRemoved = HotkeyModel_afterRemoved,
      h_customRowSetData = (\<lambda>_ _ _ _ _ m. m), h_afterInit = Inr\<rparr>"

section \<open>The table of accounts\<close>

datatype ProviderId = ProviderTwitch

text \<open>An account is known by its provider and its text.\<close>

record Account =
  acc_providerId :: ProviderId
  acc_toString :: string

definition account_category :: "Account \<Rightarrow> string" where
  "account_category a = (case acc_providerId a of ProviderTwitch \<Rightarrow> ''Twitch'')"

text \<open>The order of strings is the first argument.\<close>

definition account_less :: "(string \<Rightarrow> string \<Rightarrow> bool) \<Rightarrow> Account \<Rightarrow> Account \<Rightarrow> bool" where
  "account_less lt a b =
     (lt (account_category a) (account_category b) \<or>
      \<not> lt (account_category b) (account_category a) \<and> lt (acc_toString a) (acc_toString b))"

definition AccountModel_getRowFromItem ::
  "('c, 'v) cell_api \<Rightarrow> Account \<Rightarrow> 'c list \<Rightarrow> 'c list" where
  "AccountModel_getRowFromItem api item row =
     row[0 := qi_setData api (setStringItem api (row ! 0) (acc_toString item) False True)
           (qv_fromFont api ''Segoe UI'' 10 False) FontRole]"

definition AccountModel_beforeInsert ::
  "('c, 'v) cell_api \<Rightarrow> Account \<Rightarrow> 'c list \<Rightarrow> int \<Rightarrow> (Account, 'c, 'v) CategoryModel \<Rightarrow>
   vector_error + ((Account, 'c, 'v) CategoryModel \<times> int)" where
  "AccountModel_beforeInsert api item row proposedIndex m =
     (let category = account_category item;
          cnt = category_count category m;
          m = m\<lparr>m_categoryCount := (m_categoryCount m)(category \<mapsto> cnt + 1)\<rparr>
      in if cnt = 0
         then
           let newRow = createRow api m;
               newRow = newRow[0 := qi_setData api
                 (setStringItem api (newRow ! 0) category False False)
                 (qv_fromFont api ''Segoe UI Light'' 16 False) FontRole]
           in bind_sum (insertCustomRow newRow proposedIndex m) (\<lambda>m. Inr (m, proposedIndex + 1))
         else Inr (m, proposedIndex))"

definition AccountModel_afterRemoved ::
  "Account \<Rightarrow> 'c list \<Rightarrow> int \<Rightarrow> (Account, 'c, 'v) CategoryModel \<Rightarrow>
   vector_error + (Account, 'c, 'v) CategoryModel" where
  "AccountModel_afterRemoved item row index m = category_afterRemoved (account_category item) index m"

definition AccountModel ::
  "('c, 'v) cell_api \<Rightarrow> (Account, 'c, 'v, (Account, 'c, 'v) CategoryModel) model_hooks" where
  "AccountModel api =
     \<lparr>h_getItemFromRow = (\<lambda>row original. (original, row)),
      h_getRowFromItem = AccountModel_getRowFromItem api,
      h_beforeInsert = AccountModel_beforeInsert api,
      h_afterRemoved = AccountModel_afterRemoved,
      h_customRowSetData = (\<lambda>_ _ _ _ _ m. m), h_afterInit = Inr\<rparr>"

section \<open>The layout of a table with headers\<close>

text \<open>A header is \<open>Inl\<close>, an item \<open>Inr\<close>: a header stands before every item of a new category.\<close>

fun layout_from :: "('a \<Rightarrow> string) \<Rightarrow> string option \<Rightarrow> 'a list \<Rightarrow> (string + 'a) list" where
  "layout_from cat prev [] = []"
| "layout_from cat prev (x # xs) =
     (if prev = Some (cat x) then [] else [Inl (cat x)]) @ Inr x # layout_from cat (Some (cat x)) xs"

definition layout :: "('a \<Rightarrow> string) \<Rightarrow> 'a list \<Rightarrow> (string + 'a) list" where
  "layout cat xs = layout_from cat None xs"

lemma layout_from_append:
  "layout_from cat prev (xs @ ys) = layout_from cat prev xs @
     layout_from cat (if xs = [] then prev else Some (cat (last xs))) ys"
  by (induction xs arbitrary: prev) auto

lemma layout_from_same: "\<forall>x\<in>set xs. cat x = c \<Longrightarrow> layout_from cat (Some c) xs = map Inr xs"
  by (induction xs) auto

lemma layout_from_other: "\<forall>x\<in>set xs. cat x \<noteq> c \<Longrightarrow> layout_from cat (Some c) xs = layout cat xs"
  by (cases xs) (auto simp: layout_def)

lemma layout_from_new:
  "C \<noteq> [] \<Longrightarrow> \<forall>x\<in>set C. cat x = c \<Longrightarrow> prev \<noteq> Some c \<Longrightarrow>
     layout_from cat prev C = Inl c # map Inr C"
  by (cases C) (auto simp: layout_from_same)

lemma layout_group:
  assumes "C \<noteq> []" "\<forall>x\<in>set C. cat x = c" "\<forall>x\<in>set P \<union> set S. cat x \<noteq> c"
  shows "layout cat (P @ C @ S) = layout cat P @ Inl c # map Inr C @ layout cat S"
proof -
  let ?q = "if P = [] then None else Some (cat (last P))"
  have "cat (last P) \<noteq> c" if "P \<noteq> []" using assms(3) last_in_set [OF that] by auto
  then have q: "?q \<noteq> Some c" by auto
  have "cat (last C) = c" using assms(1,2) by simp
  then have "layout_from cat ?q (C @ S) = Inl c # map Inr C @ layout_from cat (Some c) S"
    using layout_from_new [OF assms(1,2) q] assms(1) by (simp add: layout_from_append)
  moreover have "layout_from cat (Some c) S = layout cat S"
    using assms(3) by (intro layout_from_other) auto
  ultimately show ?thesis by (simp add: layout_def layout_from_append)
qed

lemma layout_Nil [simp]: "layout cat [] = []"
  by (simp add: layout_def)

lemma layout_eq_Nil [simp]: "layout cat xs = [] \<longleftrightarrow> xs = []"
  by (cases xs) (auto simp: layout_def)

lemma Inl_layout_from: "Inl c \<in> set (layout_from cat prev xs) \<Longrightarrow> \<exists>x\<in>set xs. cat x = c"
  by (induction xs arbitrary: prev) (auto split: if_splits)

text \<open>What a row shows.\<close>

definition row_kind :: "('c, 'v) cell_api \<Rightarrow> ('a, 'c) Row \<Rightarrow> string + 'a" where
  "row_kind api r =
     (if isCustomRow r then Inl (qv_toString api (qi_data api (row_items r ! 0) EditRole))
      else Inr (the (row_original r)))"

lemma row_kind_simps [simp]:
  "row_kind api r = Inr x \<longleftrightarrow> \<not> isCustomRow r \<and> the (row_original r) = x"
  "row_kind api r = Inl c \<longleftrightarrow>
     isCustomRow r \<and> qv_toString api (qi_data api (row_items r ! 0) EditRole) = c"
  by (auto simp: row_kind_def)

lemma plain_kinds:
  "map (row_kind api) rows = layout_from cat prev xs \<Longrightarrow>
     map (\<lambda>r. the (row_original r)) (plain rows) = xs"
proof (induction xs arbitrary: rows prev)
  case (Cons x xs)
  then show ?case by (auto simp: Cons_eq_map_conv map_eq_Cons_conv split: if_splits)
qed simp

lemma nth_plain_append:
  "nth_plain d (xs @ ys) =
     (if d < length (plain xs) then nth_plain d xs else length xs + nth_plain (d - length (plain xs)) ys)"
  by (induction xs arbitrary: d) (auto split: nat.splits)

lemma nth_plain_all: "\<forall>r\<in>set xs. \<not> isCustomRow r \<Longrightarrow> nth_plain d xs = min d (length xs)"
  by (induction xs arbitrary: d) (auto split: nat.splits)

lemma category_index_loop_skip:
  assumes "\<forall>r\<in>set rows. row_kind api r \<noteq> Inl category"
  shows "category_index_loop api category (rows @ rows') i (-1) =
    category_index_loop api category rows' (i + int (length rows)) (-1)"
  using assms by (induction rows arbitrary: i) (auto simp: algebra_simps)

lemma category_index_loop_group:
  assumes "\<forall>r\<in>set rows. \<not> isCustomRow r" "current \<noteq> -1"
    and "rows' = [] \<or> isCustomRow (hd rows')"
  shows "category_index_loop api category (rows @ rows') i current =
    (current, if rows' = [] then -1 else i + int (length rows))"
  using assms
proof (induction rows arbitrary: i)
  case Nil
  then show ?case by (cases rows') (auto simp: Let_def)
qed (auto simp: algebra_simps)

section \<open>Tables with one header per category\<close>

definition count_map :: "('a \<Rightarrow> string) \<Rightarrow> 'a list \<Rightarrow> string \<rightharpoonup> int" where
  "count_map cat xs c =
     (let k = length (filter (\<lambda>x. cat x = c) xs) in if k = 0 then None else Some (int k))"

definition category_shows ::
  "('c, 'v) cell_api \<Rightarrow> ('a \<Rightarrow> string) \<Rightarrow> nat \<Rightarrow> ('a, 'c, 'v) CategoryModel \<Rightarrow> 'a list \<Rightarrow> bool" where
  "category_shows api cat n m xs \<longleftrightarrow>
     m_columnCount m = n \<and> (\<forall>r\<in>set (m_rows m). length (row_items r) = n) \<and>
     map (row_kind api) (m_rows m) = layout cat xs \<and> m_categoryCount m = count_map cat xs"

lemma layout_Cons: "layout cat (x # xs) = Inl (cat x) # Inr x # layout_from cat (Some (cat x)) xs"
  by (simp add: layout_def)

text \<open>The rows around the group of a category.\<close>

lemma category_rows:
  assumes "map (row_kind api) rows = layout cat (P @ C @ S)"
    and "C \<noteq> []" "\<forall>x\<in>set C. cat x = c" "\<forall>x\<in>set P \<union> set S. cat x \<noteq> c"
  obtains R1 rh RC RS where "rows = R1 @ rh # RC @ RS"
    and "map (row_kind api) R1 = layout cat P" "row_kind api rh = Inl c"
    and "map (row_kind api) RC = map Inr C" "map (row_kind api) RS = layout cat S"
proof -
  have "map (row_kind api) rows = layout cat P @ Inl c # map Inr C @ layout cat S"
    using assms by (simp add: layout_group)
  then obtain R1 R2 where 1: "rows = R1 @ R2" "map (row_kind api) R1 = layout cat P"
      "map (row_kind api) R2 = Inl c # map Inr C @ layout cat S"
    by (rule map_eq_appendE)
  from 1(3) obtain rh R3 where 2: "R2 = rh # R3" "row_kind api rh = Inl c"
      "map (row_kind api) R3 = map Inr C @ layout cat S"
    by (rule map_eq_ConsE)
  from 2(3) obtain RC RS where "R3 = RC @ RS" "map (row_kind api) RC = map Inr C"
      "map (row_kind api) RS = layout cat S"
    by (rule map_eq_appendE)
  with 1 2 show thesis using that by simp
qed

lemma plain_length:
  "map (row_kind api) rows = layout cat xs \<Longrightarrow> length (plain rows) = length xs"
  using plain_kinds [of api rows cat None xs] by (auto simp: layout_def dest: arg_cong [where f = length])

lemma group_plain: "map (row_kind api) RC = map Inr C \<Longrightarrow> (\<forall>r\<in>set RC. \<not> isCustomRow r) \<and> length RC = length C"
  by (auto dest: map_eq_imp_length_eq simp: list_eq_iff_nth_eq in_set_conv_nth)

lemma layout_starts_with_header:
  assumes "map (row_kind api) RS = layout cat S"
  shows "RS = [] \<or> isCustomRow (hd RS)" "RS = [] \<longleftrightarrow> S = []" "nth_plain 0 RS = (if S = [] then 0 else 1)"
proof -
  show "RS = [] \<longleftrightarrow> S = []" using assms by (metis layout_eq_Nil map_is_Nil_conv)
  show "RS = [] \<or> isCustomRow (hd RS)" "nth_plain 0 RS = (if S = [] then 0 else 1)"
    using assms by (cases S; auto simp: layout_Cons map_eq_Cons_conv)+
qed

lemma nth_plain_group:
  assumes "map (row_kind api) R1 = layout cat P" "isCustomRow rh"
    and "map (row_kind api) RC = map Inr C" "map (row_kind api) RS = layout cat S" "j \<le> length C"
  shows "nth_plain (length P + j) (R1 @ rh # RC @ RS) =
    length R1 + 1 + j + (if j = length C \<and> S \<noteq> [] then 1 else 0)"
proof -
  note RC = group_plain [OF assms(3)] and RS = layout_starts_with_header [OF assms(4)]
  have "length (plain R1) = length P" using plain_length [OF assms(1)] .
  moreover have "plain RC = RC" using RC by (simp add: filter_id_conv)
  ultimately show ?thesis
    using assms(2,5) RC RS(3) by (auto simp: nth_plain_append nth_plain_all min_def)
qed

lemma count_map_insert:
  "cat x = c \<Longrightarrow> count_map cat (xs @ x # ys) =
     (count_map cat (xs @ ys))(c \<mapsto> (case count_map cat (xs @ ys) c of None \<Rightarrow> 0 | Some k \<Rightarrow> k) + 1)"
  by (auto simp: count_map_def Let_def fun_eq_iff)

lemma count_map_None: "count_map cat xs c = None \<longleftrightarrow> (\<forall>x\<in>set xs. cat x \<noteq> c)"
  by (auto simp: count_map_def Let_def filter_empty_conv)

lemma layout_disjoint:
  assumes "\<forall>x\<in>set P. \<forall>y\<in>set S. cat x \<noteq> cat y"
  shows "layout cat (P @ S) = layout cat P @ layout cat S"
proof (cases "P = []")
  case False
  then have "\<forall>y\<in>set S. cat y \<noteq> cat (last P)" using assms last_in_set by metis
  with False show ?thesis by (simp add: layout_def layout_from_append layout_from_other [unfolded layout_def])
qed simp

lemma count_map_pos:
  assumes "x \<in> set xs" "cat x = c"
  shows "\<exists>k>0. count_map cat xs c = Some k"
proof -
  have "filter (\<lambda>x. cat x = c) xs \<noteq> []" using assms by (auto simp: filter_empty_conv)
  then show ?thesis by (simp add: count_map_def)
qed

text \<open>A removal, for both tables: the header goes with the last item of its category.\<close>

lemma category_removed:
  assumes shows_m: "category_shows api cat n m (P @ C1 @ y # C2 @ S)"
    and c: "\<forall>x\<in>set (C1 @ y # C2). cat x = c" "\<forall>x\<in>set P \<union> set S. cat x \<noteq> c"
      "\<forall>x\<in>set P. \<forall>y\<in>set S. cat x \<noteq> cat y"
    and H: "\<And>row index m. h_afterRemoved H y row index m = category_afterRemoved c index m"
    and e: "event_caller e \<noteq> Some j" "event_index e = int i" "i = length P + length C1" "event_item e = y"
  shows "\<exists>m'. on_itemRemoved H j e m = Inr m' \<and> category_shows api cat n m' (P @ C1 @ C2 @ S)"
proof -
  let ?C = "C1 @ y # C2"
  have group_nonempty: "?C \<noteq> []" by simp
  have xs: "P @ C1 @ y # C2 @ S = P @ ?C @ S" by simp
  have kinds: "map (row_kind api) (m_rows m) = layout cat (P @ ?C @ S)"
    using shows_m unfolding category_shows_def xs by blast
  obtain R1 rh RC RS where rows: "m_rows m = R1 @ rh # RC @ RS"
    and k: "map (row_kind api) R1 = layout cat P" "row_kind api rh = Inl c"
      "map (row_kind api) RC = map Inr ?C" "map (row_kind api) RS = layout cat S"
    by (rule category_rows [OF kinds group_nonempty c(1,2)])
  from k(3) have "map (row_kind api) RC = map Inr C1 @ Inr y # map Inr C2" by simp
  then obtain RC1 RC' where RC': "RC = RC1 @ RC'" "map (row_kind api) RC1 = map Inr C1"
      "map (row_kind api) RC' = Inr y # map Inr C2"
    by (rule map_eq_appendE)
  from RC'(3) obtain ry RC2 where RC2: "RC' = ry # RC2" "row_kind api ry = Inr y"
      "map (row_kind api) RC2 = map Inr C2"
    by (rule map_eq_ConsE)
  have len1: "length RC1 = length C1" using RC'(2) by (metis length_map)
  have custom: "isCustomRow rh" using k(2) by simp
  define I where "I = length R1 + 1 + length C1"
  have "nth_plain i (m_rows m) = I"
    using nth_plain_group [OF k(1) custom k(3,4), of "length C1"] rows e(3) by (simp add: I_def)
  then have index: "getModelIndexFromVectorIndex (event_index e) m = int I"
    by (simp add: e(2))
  let ?rest = "R1 @ rh # RC1 @ RC2 @ RS"
  have erase: "erase_at I (m_rows m) = ?rest"
    using len1 by (simp add: rows RC'(1) RC2(1) erase_at_def I_def)
  have in_range: "I < length (m_rows m)" using len1 by (simp add: rows RC'(1) RC2(1) I_def)
  define m1 where "m1 = emit_view (RowsRemoved (int I)) (m\<lparr>m_rows := ?rest\<rparr>)"
  have step: "on_itemRemoved H j e m = category_afterRemoved c (int I) m1"
    using e(1,4) erase in_range by (simp add: on_itemRemoved_def index H m1_def Let_def)
  have counts: "m_categoryCount m c = Some (int (length C1 + length C2 + 1))"
      "count_map cat (P @ C1 @ C2 @ S) = (m_categoryCount m)
        (c := if C1 @ C2 = [] then None else Some (int (length C1 + length C2)))"
  proof -
    have "filter (\<lambda>x. cat x = c) P = []" "filter (\<lambda>x. cat x = c) S = []"
      "filter (\<lambda>x. cat x = c) C1 = C1" "filter (\<lambda>x. cat x = c) C2 = C2"
      using c(1,2) by (auto simp: filter_empty_conv filter_id_conv)
    moreover have "m_categoryCount m = count_map cat (P @ C1 @ y # C2 @ S)" "cat y = c"
      using shows_m c(1) by (auto simp: category_shows_def)
    ultimately show "m_categoryCount m c = Some (int (length C1 + length C2 + 1))"
      "count_map cat (P @ C1 @ C2 @ S) = (m_categoryCount m)
        (c := if C1 @ C2 = [] then None else Some (int (length C1 + length C2)))"
      by (auto simp: count_map_def fun_eq_iff Let_def)
  qed
  have lens: "m_columnCount m = n" "\<forall>r\<in>set (m_rows m). length (row_items r) = n"
    using shows_m by (simp_all add: category_shows_def)
  show ?thesis
  proof (cases "C1 @ C2 = []")
    case True
    then have "RC1 = []" "RC2 = []" using RC'(2) RC2(3) by simp_all
    have "category_afterRemoved c (int I) m1 =
        Inr (emit_view (RowsRemoved (int (length R1)))
          (m1\<lparr>m_categoryCount := (m_categoryCount m)(c := None), m_rows := R1 @ RS\<rparr>))"
      using True counts(1) custom \<open>RC1 = []\<close> \<open>RC2 = []\<close>
      by (simp add: category_afterRemoved_def m1_def emit_view_def removeCustomRow_def erase_at_def
          I_def)
    moreover have "map (row_kind api) (R1 @ RS) = layout cat (P @ S)"
      using k(1,4) layout_disjoint [OF c(3)] by simp
    ultimately show ?thesis
      using True lens counts(2) by (auto simp: step category_shows_def emit_view_def m1_def rows)
  next
    case False
    have "layout cat (P @ C1 @ C2 @ S) = map (row_kind api) ?rest"
      using layout_group [of "C1 @ C2" cat c P S] False c k(1,4) RC'(2) RC2(3)
      by (simp add: k(2) del: row_kind_simps)
    moreover have "\<not> int (length C1) + int (length C2) \<le> 0" using False by (cases C1; cases C2) auto
    ultimately show ?thesis
      using False lens counts
      by (auto simp: step category_shows_def category_afterRemoved_def emit_view_def m1_def rows RC'(1)
          RC2(1))
  qed
qed


text \<open>An insertion into the table of hotkeys, when the category has a header already.\<close>

abbreviation hotkey_table ::
  "('c, 'v) cell_api \<Rightarrow> ('k Hotkey, 'c, 'v) CategoryModel \<Rightarrow> 'k Hotkey list \<Rightarrow> bool" where
  "hotkey_table api \<equiv> category_shows api getCategory 2"

lemma HotkeyModel_row:
  assumes "cell_laws api" "length row = 2"
  shows "length (HotkeyModel_getRowFromItem api env x row) = 2"
  using assms by (simp add: HotkeyModel_getRowFromItem_def Let_def)

lemma hotkey_header_row:
  assumes "cell_laws api"
  shows "length (hotkey_header api c (replicate 2 (qi_new api))) = 2"
    and "row_kind api \<lparr>row_items = hotkey_header api c (replicate 2 (qi_new api)),
      row_original = None, isCustomRow = True\<rparr> = Inl c"
  using assms by (simp_all add: hotkey_header_def Let_def setStringItem_def cell_lawsD numeral_2_eq_2)

lemma hotkey_on_inserted:
  assumes "event_caller e \<noteq> Some j" "event_index e = int i" "event_item e = x"
    and "nth_plain i (m_rows m) = I" "m_columnCount m = 2"
    and "h_beforeInsert (HotkeyModel api env) x
      (HotkeyModel_getRowFromItem api env x (replicate 2 (qi_new api))) (int I) m = Inr (m1, int I')"
  shows "on_itemInserted api (HotkeyModel api env) j e m =
    Inr (insertRow \<lparr>row_items = HotkeyModel_getRowFromItem api env x (replicate 2 (qi_new api)),
      row_original = Some x, isCustomRow = False\<rparr> (int I') m1)"
proof -
  have "getModelIndexFromVectorIndex (event_index e) m = int I"
    using assms(4) by (simp add: assms(2))
  moreover have "I \<le> length (m_rows m)" using nth_plain_le [of i "m_rows m"] assms(4) by simp
  moreover have "h_getRowFromItem (HotkeyModel api env) = HotkeyModel_getRowFromItem api env"
    by (simp add: HotkeyModel_def)
  ultimately show ?thesis
    using assms(1,3,5,6) by (simp add: on_itemInserted_def createRow_def Let_def)
qed

lemma hotkey_inserted:
  assumes laws: "cell_laws api"
    and shows_m: "hotkey_table api m (P @ (C1 @ C2) @ S)"
    and ne: "C1 @ C2 \<noteq> []" and cx: "getCategory x = c"
    and c: "\<forall>y\<in>set (C1 @ C2). getCategory y = c" "\<forall>y\<in>set P \<union> set S. getCategory y \<noteq> c"
    and e: "event_caller e \<noteq> Some j" "event_index e = int i" "i = length P + length C1" "event_item e = x"
  shows "\<exists>m'. on_itemInserted api (HotkeyModel api env) j e m = Inr m' \<and>
    hotkey_table api m' (P @ C1 @ x # C2 @ S)"
proof -
  have kinds: "map (row_kind api) (m_rows m) = layout getCategory (P @ (C1 @ C2) @ S)"
    and lens: "m_columnCount m = 2" "\<forall>r\<in>set (m_rows m). length (row_items r) = 2"
    and counts: "m_categoryCount m = count_map getCategory (P @ (C1 @ C2) @ S)"
    using shows_m unfolding category_shows_def by blast+
  obtain R1 rh RC RS where rows: "m_rows m = R1 @ rh # RC @ RS"
    and k: "map (row_kind api) R1 = layout getCategory P" "row_kind api rh = Inl c"
      "map (row_kind api) RC = map Inr (C1 @ C2)" "map (row_kind api) RS = layout getCategory S"
    by (rule category_rows [OF kinds ne c])
  note RC = group_plain [OF k(3)] and RS = layout_starts_with_header [OF k(4)]
  define I where "I = length R1 + 1 + length C1"
  define I0 where "I0 = I + (if C2 = [] \<and> S \<noteq> [] then 1 else 0)"
  have custom: "isCustomRow rh" using k(2) by simp
  have nth: "nth_plain i (m_rows m) = I0"
    using nth_plain_group [OF k(1) custom k(3,4), of "length C1"] rows e(3) by (simp add: I_def I0_def)
  have "\<forall>r\<in>set R1. row_kind api r \<noteq> Inl c"
    using k(1) c(2) Inl_layout_from [of c getCategory None P]
    by (metis UnI1 image_eqI layout_def list.set_map)
  then have skip: "category_index_loop api c (R1 @ rows') 0 (-1) =
      category_index_loop api c rows' (int (length R1)) (-1)" for rows'
    using category_index_loop_skip [of R1 api c rows' 0] by simp
  have find: "getCurrentAndNextCategoryModelIndex api c m' =
      (int (length R1), if S = [] then -1 else int (length R1 + 1 + length C1 + length C2))"
    if "m_rows m' = m_rows m" for m'
    using k(2) RC RS(1,2)
    by (simp add: getCurrentAndNextCategoryModelIndex_def that rows skip Let_def
        category_index_loop_group algebra_simps)
  define m1 where "m1 = m\<lparr>m_categoryCount := count_map getCategory (P @ C1 @ x # C2 @ S)\<rparr>"
  have "\<exists>k>0. m_categoryCount m c = Some k"
    using count_map_pos [of "hd (C1 @ C2)" "P @ (C1 @ C2) @ S" getCategory c] c(1) ne
      list.set_sel(1) [OF ne] unfolding counts by fastforce
  then have cnt: "category_count c m \<noteq> 0"
    "(m_categoryCount m)(c \<mapsto> category_count c m + 1) = count_map getCategory (P @ C1 @ x # C2 @ S)"
    using count_map_insert [of getCategory x c "P @ C1" "C2 @ S", OF cx]
    by (auto simp: category_count_def counts)
  have "h_beforeInsert (HotkeyModel api env) x row (int I0) m = Inr (m1, int I)" for row
    using cx cnt find [of m1]
    by (auto simp: HotkeyModel_def HotkeyModel_beforeInsert_def Let_def m1_def I0_def I_def)
  note step = hotkey_on_inserted [OF e(1,2,4) nth lens(1) this]
  from k(3) have "map (row_kind api) RC = map Inr C1 @ map Inr C2" by simp
  then obtain RC1 RC2 where RC12: "RC = RC1 @ RC2" "map (row_kind api) RC1 = map Inr C1"
      "map (row_kind api) RC2 = map Inr C2"
    by (rule map_eq_appendE)
  let ?row = "\<lparr>row_items = HotkeyModel_getRowFromItem api env x (replicate 2 (qi_new api)),
      row_original = Some x, isCustomRow = False\<rparr>"
  have "insert_at I ?row (m_rows m) = R1 @ rh # RC1 @ ?row # RC2 @ RS"
    using group_plain [OF RC12(2)] by (simp add: rows RC12(1) I_def insert_at_def)
  moreover have "map (row_kind api) (R1 @ rh # RC1 @ ?row # RC2 @ RS) =
      layout getCategory (P @ (C1 @ x # C2) @ S)"
  proof -
    have "row_kind api ?row = Inr x" by simp
    moreover have "\<forall>y\<in>set (C1 @ x # C2). getCategory y = c" using c(1) cx by auto
    ultimately show ?thesis
      using layout_group [of "C1 @ x # C2" getCategory c P S] c(2) k(1,4) RC12(2,3)
      by (simp add: k(2) del: row_kind_simps)
  qed
  ultimately show ?thesis
    using lens HotkeyModel_row [OF laws, of "replicate 2 (qi_new api)" env x]
    by (auto simp: step category_shows_def insertRow_def emit_view_def m1_def rows RC12(1))
qed

text \<open>
  An insertion into the table of hotkeys, when the category has no header yet: the header and the
  item end up below the header of the next category.
\<close>

lemma hotkey_new_category:
  fixes api :: "('c, 'v) cell_api" and m :: "('k Hotkey, 'c, 'v) CategoryModel"
  assumes laws: "cell_laws api"
    and kinds: "map (row_kind api) (m_rows m) = layout getCategory P @ layout getCategory S"
    and lens: "m_columnCount m = 2" "\<forall>r\<in>set (m_rows m). length (row_items r) = 2"
    and counts: "m_categoryCount m = count_map getCategory (P @ S)"
    and c: "\<forall>y\<in>set (P @ S). getCategory y \<noteq> getCategory x"
    and e: "event_caller e \<noteq> Some j" "event_index e = int (length P)" "event_item e = x"
  shows "\<exists>m'. on_itemInserted api (HotkeyModel api env) j e m = Inr m' \<and> m_columnCount m' = 2 \<and>
    (\<forall>r\<in>set (m_rows m'). length (row_items r) = 2) \<and>
    m_categoryCount m' = count_map getCategory (P @ x # S) \<and>
    map (row_kind api) (m_rows m') = layout getCategory P @ take 1 (layout getCategory S) @
      [Inl (getCategory x), Inr x] @ drop 1 (layout getCategory S)"
proof -
  from kinds obtain R1 RS where rows: "m_rows m = R1 @ RS"
    and k: "map (row_kind api) R1 = layout getCategory P" "map (row_kind api) RS = layout getCategory S"
    by (rule map_eq_appendE)
  note RS = layout_starts_with_header [OF k(2)]
  define RSa RSb where "RSa = take 1 RS" and "RSb = drop 1 RS"
  define I where "I = length R1 + length RSa"
  have RSab: "RS = RSa @ RSb" "map (row_kind api) RSa = take 1 (layout getCategory S)"
    "map (row_kind api) RSb = drop 1 (layout getCategory S)" "length RSa = nth_plain 0 RS"
    using RS k(2) by (auto simp: RSa_def RSb_def simp flip: take_map drop_map) (cases RS; simp)
  have nth: "nth_plain (length P) (m_rows m) = I"
    using plain_length [OF k(1)] RSab(4) by (simp add: rows nth_plain_append I_def)
  define hdr :: "('k Hotkey, 'c) Row" where "hdr = \<lparr>row_items = hotkey_header api (getCategory x) (replicate 2 (qi_new api)),
    row_original = None, isCustomRow = True\<rparr>"
  define m1 where "m1 = insertRow hdr (int I)
    (m\<lparr>m_categoryCount := count_map getCategory (P @ x # S)\<rparr>)"
  have "count_map getCategory (P @ S) (getCategory x) = None" using c by (simp add: count_map_None)
  then have cnt: "category_count (getCategory x) m = 0"
    "(m_categoryCount m)(getCategory x \<mapsto> 1) = count_map getCategory (P @ x # S)"
    using count_map_insert [OF refl, of getCategory P x S] by (simp_all add: category_count_def counts)
  have "I \<le> length (m_rows m)" by (simp add: rows RSab(1) I_def)
  then have "h_beforeInsert (HotkeyModel api env) x row (int I) m = Inr (m1, int (Suc I))" for row
    using lens(1) cnt
    by (simp add: HotkeyModel_def HotkeyModel_beforeInsert_def Let_def m1_def insertCustomRow_def
        createRow_def hdr_def)
  note step = hotkey_on_inserted [OF e nth lens(1) this]
  have "m_rows m1 = (R1 @ RSa) @ hdr # RSb"
    by (simp add: m1_def insertRow_def emit_view_def rows RSab(1) I_def insert_at_def)
  then have "insert_at (Suc I) row (m_rows m1) = R1 @ RSa @ hdr # row # RSb" for row
    by (simp add: I_def insert_at_def)
  moreover have "length (row_items hdr) = 2" "row_kind api hdr = Inl (getCategory x)"
    using hotkey_header_row [OF laws, of "getCategory x"] by (simp_all add: hdr_def del: row_kind_simps)
  ultimately show ?thesis
    using lens HotkeyModel_row [OF laws, of "replicate 2 (qi_new api)" env x] k(1) RSab(2,3)
    by (auto simp: step insertRow_def emit_view_def m1_def rows RSab(1) simp del: row_kind_simps)
      (auto simp: nat_add_distrib)
qed


section \<open>Where a sorted vector inserts\<close>

lemma split_by_key:
  "sorted (map f xs) \<Longrightarrow>
     xs = filter (\<lambda>x. f x < k) xs @ filter (\<lambda>x. f x = k) xs @ filter (\<lambda>x. k < f x) xs"
  for f :: "'a \<Rightarrow> 'k::linorder"
proof (induction xs)
  case (Cons x xs)
  then have "\<forall>y\<in>set xs. f x \<le> f y" by simp
  then have "k < f x \<Longrightarrow> filter (\<lambda>x. f x < k) xs = [] \<and> filter (\<lambda>x. f x = k) xs = []"
    "f x = k \<Longrightarrow> filter (\<lambda>x. f x < k) xs = []"
    by (force simp: filter_empty_conv)+
  with Cons show ?case by (cases "f x" k rule: linorder_cases) auto
qed simp

lemma getCategory_eq [simp]: "getCategory a = getCategory b \<longleftrightarrow> hk_category a = hk_category b"
  by (cases "hk_category a"; cases "hk_category b")
    (simp_all add: getCategory_def hotkeyCategoryDisplayName_def HOTKEY_CATEGORIES_def)

lemma hotkeys_sorted:
  assumes "sorted_by (hotkeySortCompare env) xs"
  shows "sorted (map hk_category xs)"
  unfolding sorted_map
  by (rule sorted_wrt_mono_rel [OF _ assms [unfolded sorted_by_def]])
    (auto simp: hotkeySortCompare_def not_less split: if_splits)

lemma hotkeySortCompare_order:
  assumes "strict_weak_order (he_less env)"
  shows "strict_weak_order (hotkeySortCompare env)"
proof -
  have lt: "asymp (he_less env)" "transp (he_less env)"
    "\<forall>x y z. he_less env x z \<longrightarrow> he_less env x y \<or> he_less env y z"
    using assms unfolding strict_weak_order_def by blast+
  have "asymp (hotkeySortCompare env)"
  proof (rule asympI)
    show "\<not> hotkeySortCompare env y x" if "hotkeySortCompare env x y" for x y
      using that asympD [OF lt(1), of "hk_name x" "hk_name y"]
      by (auto simp: hotkeySortCompare_def split: if_splits)
  qed
  moreover have "transp (hotkeySortCompare env)"
  proof (rule transpI)
    show "hotkeySortCompare env x z" if "hotkeySortCompare env x y" "hotkeySortCompare env y z" for x y z
      using that transpD [OF lt(2), of "hk_name x" "hk_name y" "hk_name z"]
      by (auto simp: hotkeySortCompare_def split: if_splits)
  qed
  moreover have "hotkeySortCompare env x y \<or> hotkeySortCompare env y z"
    if "hotkeySortCompare env x z" for x y z
    using that lt(3) [rule_format, of "hk_name x" "hk_name z" "hk_name y"]
    by (auto simp: hotkeySortCompare_def split: if_splits)
  ultimately show ?thesis unfolding strict_weak_order_def by blast
qed

text \<open>The items around the category of a hotkey, and the position an insertion ends up at.\<close>

lemma hotkey_split:
  assumes "sorted_by (hotkeySortCompare env) xs"
  obtains P C S where "xs = P @ C @ S"
    and "\<forall>y\<in>set P. hk_category y < hk_category x" "\<forall>y\<in>set C. hk_category y = hk_category x"
    and "\<forall>y\<in>set S. hk_category x < hk_category y"
  using split_by_key [OF hotkeys_sorted [OF assms], of "hk_category x"] that by fastforce

lemma hotkey_lower_bound:
  assumes "\<forall>y\<in>set P. hk_category y < hk_category x" "\<forall>y\<in>set C. hk_category y = hk_category x"
    and "\<forall>y\<in>set S. hk_category x < hk_category y"
  shows "lower_bound (hotkeySortCompare env) (P @ C @ S) x =
    length P + lower_bound (hotkeySortCompare env) C x"
proof -
  have "takeWhile (\<lambda>y. hotkeySortCompare env y x) S = []"
    using assms(3) by (cases S) (auto simp: hotkeySortCompare_def)
  moreover have "\<forall>y\<in>set P. hotkeySortCompare env y x"
    using assms(1) by (auto simp: hotkeySortCompare_def)
  ultimately show ?thesis
    by (simp add: lower_bound_def takeWhile_append)
      (metis takeWhile_eq_all_conv)
qed


text \<open>The vector of hotkeys and its table.\<close>

definition hotkeys_ok ::
  "('c, 'v) cell_api \<Rightarrow> 'k hotkey_env \<Rightarrow> 'k Hotkey SignalVector \<Rightarrow>
   ('k Hotkey, 'c, 'v) CategoryModel \<Rightarrow> bool" where
  "hotkeys_ok api env v m \<longleftrightarrow>
     sv_compare v = Some (hotkeySortCompare env) \<and> sv_readOnly v = sv_items v \<and>
     sorted_by (hotkeySortCompare env) (sv_items v) \<and> category_shows api getCategory 2 m (sv_items v)"

lemma hotkey_listener:
  "on_signal api (HotkeyModel api env) 0 (ItemInserted e) m = on_itemInserted api (HotkeyModel api env) 0 e m"
  "on_signal api (HotkeyModel api env) 0 (ItemRemoved e) m = on_itemRemoved (HotkeyModel api env) 0 e m"
  by simp_all

lemma sorted_insert_eq:
  assumes "sv_compare v = Some cmp" and "i = lower_bound cmp (sv_items v) x"
    and "notify (ItemInserted \<lparr>event_item = x, event_index = int i, event_caller = caller\<rparr>) s = Inr s'"
  shows "sv_insert notify x index caller v s = Inr (inserted_vector x i v, s', int i)"
  using assms by (simp add: sv_insert_def inserted_vector_def)

lemma hotkey_insert_ok:
  assumes laws: "cell_laws api" "strict_weak_order (he_less env)" and ok: "hotkeys_ok api env v m"
    and caller: "caller \<noteq> Some 0"
    and x: "(\<exists>y\<in>set (sv_items v). hk_category y = hk_category x) \<or>
      (\<forall>y\<in>set (sv_items v). hk_category y < hk_category x)"
    and i: "i = lower_bound (hotkeySortCompare env) (sv_items v) x"
  shows "\<exists>m'. sv_insert (on_signal api (HotkeyModel api env) 0) x index caller v m =
      Inr (inserted_vector x i v, m', int i) \<and> hotkeys_ok api env (inserted_vector x i v) m'"
proof -
  let ?cmp = "hotkeySortCompare env"
  have v: "sv_compare v = Some ?cmp" "sorted_by ?cmp (sv_items v)"
      "category_shows api getCategory 2 m (sv_items v)"
    using ok by (simp_all add: hotkeys_ok_def)
  define e where "e = \<lparr>event_item = x, event_index = int i, event_caller = caller\<rparr>"
  obtain P C S where xs: "sv_items v = P @ C @ S" and P: "\<forall>y\<in>set P. hk_category y < hk_category x"
    and C: "\<forall>y\<in>set C. hk_category y = hk_category x" and S: "\<forall>y\<in>set S. hk_category x < hk_category y"
    by (rule hotkey_split [OF v(2)])
  define j where "j = lower_bound ?cmp C x"
  have j: "i = length P + j" "j \<le> length C"
    using hotkey_lower_bound [OF P C S] lower_bound_le by (simp_all add: i xs j_def)
  have "\<exists>m'. on_itemInserted api (HotkeyModel api env) 0 e m = Inr m' \<and>
      category_shows api getCategory 2 m' (insert_at i x (sv_items v))"
  proof (cases "C = []")
    case False
    have "category_shows api getCategory 2 m (P @ (take j C @ drop j C) @ S)"
      using v(3) by (simp add: xs)
    note table = this
    have ne: "take j C @ drop j C \<noteq> []" using False by simp
    have sC: "\<forall>y\<in>set (take j C @ drop j C). getCategory y = getCategory x" using C by simp
    have sPS: "\<forall>y\<in>set P \<union> set S. getCategory y \<noteq> getCategory x" using P S by force
    have pos: "i = length P + length (take j C)" using j by simp
    from hotkey_inserted [OF laws(1) table ne refl sC sPS _ _ pos, where e = e and j = 0 and env = env]
    have "\<exists>m'. on_itemInserted api (HotkeyModel api env) 0 e m = Inr m' \<and>
        category_shows api getCategory 2 m' (P @ take j C @ x # drop j C @ S)"
      using caller by (simp add: e_def)
    moreover have "insert_at i x (sv_items v) = P @ take j C @ x # drop j C @ S"
      using j by (simp add: xs insert_at_def)
    ultimately show ?thesis by simp
  next
    case True
    have "S = []"
    proof (cases S)
      case (Cons z S')
      have z: "z \<in> set (sv_items v)" "hk_category x < hk_category z" using S Cons by (auto simp: xs)
      have "\<not> (\<exists>y\<in>set (sv_items v). hk_category y = hk_category x)" using P S by (auto simp: xs True)
      with x z show ?thesis by force
    qed simp
    with True have p: "sv_items v = P" "i = length P" using j by (simp_all add: xs)
    have kinds: "map (row_kind api) (m_rows m) = layout getCategory P @ layout getCategory []"
      and lens: "m_columnCount m = 2" "\<forall>r\<in>set (m_rows m). length (row_items r) = 2"
      and counts: "m_categoryCount m = count_map getCategory (P @ [])"
      using v(3) by (simp_all add: category_shows_def p)
    have "layout getCategory (P @ [x]) = layout getCategory P @ [Inl (getCategory x), Inr x]"
      using P by (subst layout_disjoint) (auto simp: layout_Cons)
    moreover have "\<forall>y\<in>set (P @ []). getCategory y \<noteq> getCategory x" using P by force
    ultimately show ?thesis
      using hotkey_new_category [OF laws(1) kinds lens counts, where x = x and e = e and j = 0 and env = env] caller p
      by (auto simp: e_def category_shows_def)
  qed
  then obtain m' where m': "on_signal api (HotkeyModel api env) 0 (ItemInserted e) m = Inr m'"
      "category_shows api getCategory 2 m' (insert_at i x (sv_items v))"
    by (auto simp: hotkey_listener)
  have "sorted_by ?cmp (insert_at i x (sv_items v))"
    unfolding i by (rule sorted_by_insert [OF hotkeySortCompare_order [OF laws(2)] v(2)])
  with m' v(1) show ?thesis
    using sorted_insert_eq [where notify = "on_signal api (HotkeyModel api env) 0", OF v(1) i m'(1) [unfolded e_def]] by (auto simp: hotkeys_ok_def)
qed

lemma hotkey_remove_ok:
  assumes ok: "hotkeys_ok api env v m" and caller: "caller \<noteq> Some 0" and k: "k < length (sv_items v)"
  shows "\<exists>m'. sv_removeAt (on_signal api (HotkeyModel api env) 0) (int k) caller v m =
      Inr (removed_vector k v, m') \<and> hotkeys_ok api env (removed_vector k v) m'"
proof -
  let ?cmp = "hotkeySortCompare env"
  have v: "sv_compare v = Some ?cmp" "sorted_by ?cmp (sv_items v)"
      "category_shows api getCategory 2 m (sv_items v)"
    using ok by (simp_all add: hotkeys_ok_def)
  define y where "y = sv_items v ! k"
  define e where "e = \<lparr>event_item = y, event_index = int k, event_caller = caller\<rparr>"
  obtain P C S where xs: "sv_items v = P @ C @ S" and P: "\<forall>z\<in>set P. hk_category z < hk_category y"
    and C: "\<forall>z\<in>set C. hk_category z = hk_category y" and S: "\<forall>z\<in>set S. hk_category y < hk_category z"
    by (rule hotkey_split [OF v(2)])
  have "length P \<le> k"
  proof (rule ccontr)
    assume "\<not> length P \<le> k"
    then have "y \<in> set P" by (simp add: y_def xs nth_append)
    with P show False by blast
  qed
  moreover have "k < length P + length C"
  proof (rule ccontr)
    assume "\<not> k < length P + length C"
    with k have "y = S ! (k - length P - length C)" "k - length P - length C < length S"
      by (auto simp: y_def xs nth_append)
    with S show False by (metis nth_mem less_irrefl)
  qed
  ultimately obtain j where j: "k = length P + j" "j < length C" by (metis add_less_cancel_left le_Suc_ex)
  then have yC: "y = C ! j" by (simp add: y_def xs nth_append)
  have split: "C = take j C @ y # drop (Suc j) C" using j(2) yC by (simp add: id_take_nth_drop [symmetric])
  have sC: "\<forall>z\<in>set (take j C @ y # drop (Suc j) C). getCategory z = getCategory y"
    using C by (metis getCategory_eq split)
  have sPS: "\<forall>z\<in>set P \<union> set S. getCategory z \<noteq> getCategory y"
    "\<forall>z\<in>set P. \<forall>w\<in>set S. getCategory z \<noteq> getCategory w"
    using P S by force+
  have "category_shows api getCategory 2 m (P @ take j C @ y # drop (Suc j) C @ S)"
    using v(3) split xs by (metis append.assoc append_Cons)
  from category_removed [OF this sC sPS, where H = "HotkeyModel api env" and e = e and j = 0 and i = k] caller j
  have "\<exists>m'. on_itemRemoved (HotkeyModel api env) 0 e m = Inr m' \<and>
      category_shows api getCategory 2 m' (P @ take j C @ drop (Suc j) C @ S)"
    by (auto simp: HotkeyModel_def HotkeyModel_afterRemoved_def e_def)
  moreover have "erase_at k (sv_items v) = P @ take j C @ drop (Suc j) C @ S"
    using j by (simp add: xs erase_at_def)
  ultimately obtain m' where m': "on_signal api (HotkeyModel api env) 0 (ItemRemoved e) m = Inr m'"
      "category_shows api getCategory 2 m' (erase_at k (sv_items v))"
    by (auto simp: hotkey_listener)
  then show ?thesis
    using v k sorted_by_erase [OF v(2), of k]
    by (auto simp: hotkeys_ok_def sv_removeAt_def removed_vector_def e_def y_def itemsChanged_def Let_def)
qed


section \<open>The table of accounts\<close>

text \<open>All accounts have one category: one header, then the accounts.\<close>

lemma account_category [simp]: "account_category a = ''Twitch''"
  by (cases "acc_providerId a") (simp add: account_category_def)

lemma account_layout: "layout account_category xs = (if xs = [] then [] else Inl ''Twitch'' # map Inr xs)"
  by (cases xs) (simp_all add: layout_Cons layout_from_same)

lemma account_counts:
  "count_map account_category xs = (if xs = [] then Map.empty else [''Twitch'' \<mapsto> int (length xs)])"
  by (auto simp: count_map_def fun_eq_iff)

lemma account_on_inserted:
  fixes m :: "(Account, 'c, 'v) CategoryModel"
  assumes laws: "cell_laws api" and shows_m: "category_shows api account_category 1 m xs"
    and e: "event_caller e \<noteq> Some j" "event_index e = int i" "i \<le> length xs"
  shows "\<exists>m'. on_signal api (AccountModel api) j (ItemInserted e) m = Inr m' \<and>
    category_shows api account_category 1 m' (insert_at i (event_item e) xs)"
proof -
  have m: "m_columnCount m = 1" "\<forall>r\<in>set (m_rows m). length (row_items r) = 1"
      "map (row_kind api) (m_rows m) = layout account_category xs"
      "m_categoryCount m = count_map account_category xs"
    using shows_m by (simp_all add: category_shows_def)
  let ?cells = "AccountModel_getRowFromItem api (event_item e) [qi_new api]"
  have cells: "length ?cells = 1" by (simp add: AccountModel_getRowFromItem_def)
  show ?thesis
  proof (cases xs)
    case Nil
    then have "m_rows m = []" "m_categoryCount m = Map.empty" "i = 0"
      using m e(3) by (simp_all add: account_counts)
    then show ?thesis
      using e(1,2) m(1) Nil cells laws
      by (simp add: on_itemInserted_def createRow_def AccountModel_def AccountModel_beforeInsert_def
          category_count_def insertCustomRow_def insertRow_def emit_view_def category_shows_def
          account_layout account_counts cell_lawsD setStringItem_def Let_def
          getModelIndexFromVectorIndex_def)
  next
    case (Cons y ys)
    from m(3) have "map (row_kind api) (m_rows m) = Inl ''Twitch'' # map Inr xs"
      by (simp add: account_layout Cons)
    then obtain rh RC where rows: "m_rows m = rh # RC" "row_kind api rh = Inl ''Twitch''"
        "map (row_kind api) RC = map Inr xs"
      by (rule map_eq_ConsE)
    note RC = group_plain [OF rows(3)]
    have nth: "nth_plain i (m_rows m) = Suc i"
      using rows(1,2) RC e(3) by (simp add: nth_plain_all)
    have index: "getModelIndexFromVectorIndex (event_index e) m = int (Suc i)"
      using nth by (simp add: e(2))
    have new: "row_kind api \<lparr>row_items = ?cells, row_original = Some (event_item e),
        isCustomRow = False\<rparr> = Inr (event_item e)" by simp
    have kinds: "map (row_kind api) (insert_at (Suc i) \<lparr>row_items = ?cells,
        row_original = Some (event_item e), isCustomRow = False\<rparr> (m_rows m)) =
        Inl ''Twitch'' # map Inr (insert_at i (event_item e) xs)"
      using rows(2,3) by (simp add: rows(1) map_insert_at new del: row_kind_simps)
    define m1 where "m1 = m\<lparr>m_categoryCount := [''Twitch'' \<mapsto> int (Suc (length xs))]\<rparr>"
    have "on_signal api (AccountModel api) j (ItemInserted e) m = Inr (insertRow \<lparr>row_items = ?cells,
        row_original = Some (event_item e), isCustomRow = False\<rparr> (int (Suc i)) m1)"
      using e(1,3) m(1,4) RC Cons
      by (simp add: on_itemInserted_def createRow_def AccountModel_def AccountModel_beforeInsert_def
          category_count_def index account_counts Let_def rows(1) m1_def)
    moreover have "insert_at i (event_item e) xs \<noteq> []" by (simp add: insert_at_def)
    ultimately show ?thesis
      using kinds cells m(1,2)
      by (auto simp: m1_def insertRow_def emit_view_def category_shows_def account_layout account_counts
          simp del: of_nat_Suc row_kind_simps)
  qed
qed

lemma account_on_removed:
  assumes shows_m: "category_shows api account_category 1 m xs"
    and e: "event_caller e \<noteq> Some j" "event_index e = int i" "i < length xs" "event_item e = xs ! i"
  shows "\<exists>m'. on_signal api (AccountModel api) j (ItemRemoved e) m = Inr m' \<and>
    category_shows api account_category 1 m' (erase_at i xs)"
proof -
  have "category_shows api account_category 1 m ([] @ take i xs @ xs ! i # drop (Suc i) xs @ [])"
    using shows_m e(3) by (simp add: id_take_nth_drop [symmetric])
  from category_removed [OF this, where c = "''Twitch''" and H = "AccountModel api" and e = e and j = j
      and i = i] e
  show ?thesis by (simp add: AccountModel_def AccountModel_afterRemoved_def erase_at_def)
qed

sublocale standard_items \<subseteq> accounts: vector_mirror "on_signal api (AccountModel api) 0"
  "category_shows api account_category 1" "\<lambda>c. c = Some 0"
  by unfold_locales (use account_on_inserted [OF laws] account_on_removed in blast)+


context standard_items begin

lemmas account_insert = accounts.insert_sync
lemmas account_remove = accounts.removeAt_sync

end

section \<open>Properties\<close>

text \<open>
  C14. The table of hotkeys keeps its groups.  Inserting a hotkey whose category is shown already, or
  whose category comes after all others, and removing any hotkey succeed, keep the vector sorted,
  and leave a table with exactly one header before the hotkeys of each category.
\<close>

theorem hotkey_table_keeps_groups:
  assumes "cell_laws api" "strict_weak_order (he_less env)" "hotkeys_ok api env v m"
    and "caller \<noteq> Some 0" "k < length (sv_items v)"
    and "(\<exists>y\<in>set (sv_items v). hk_category y = hk_category x) \<or>
      (\<forall>y\<in>set (sv_items v). hk_category y < hk_category x)"
  shows "(\<exists>v' m' i. sv_insert (on_signal api (HotkeyModel api env) 0) x index caller v m = Inr (v', m', int i) \<and>
      hotkeys_ok api env v' m' \<and> sv_items v' = insert_at i x (sv_items v)) \<and>
    (\<exists>v' m'. sv_removeAt (on_signal api (HotkeyModel api env) 0) (int k) caller v m = Inr (v', m') \<and>
      hotkeys_ok api env v' m' \<and> sv_items v' = erase_at k (sv_items v))"
proof -
  from hotkey_insert_ok [OF assms(1-4,6) refl, of index] hotkey_remove_ok [OF assms(3-5)]
  show ?thesis by (metis changed_vector_simps(1,5))
qed

definition sample_hotkeys :: "unit hotkey_env" where
  "sample_hotkeys = \<lparr>he_toString = (\<lambda>_. ''F1''), he_less = (\<lambda>s t. length s < length t),
     he_actionNames = [Split \<mapsto> [''delete'']]\<rparr>"

definition sample_hotkey :: "HotkeyCategory \<Rightarrow> string \<Rightarrow> unit Hotkey" where
  "sample_hotkey c s = \<lparr>hk_category = c, hk_keySequence = (), hk_action = ''delete'', hk_arguments = [],
     hk_name = s\<rparr>"

lemma sample_hotkeys_order: "strict_weak_order (he_less sample_hotkeys)"
  by (auto simp: strict_weak_order_def sample_hotkeys_def intro!: asympI transpI)

definition sample_hotkey_vector :: "unit Hotkey SignalVector" where
  "sample_hotkey_vector = inserted_vector (sample_hotkey SplitInput ''b'') 0
     (SignalVector_sorted (hotkeySortCompare sample_hotkeys))"

lemma sample_hotkey_table:
  "\<exists>m. hotkeys_ok sample_cells sample_hotkeys sample_hotkey_vector m"
proof -
  have "hotkeys_ok sample_cells sample_hotkeys (SignalVector_sorted (hotkeySortCompare sample_hotkeys))
      (CategoryModel 2)"
    by (simp add: hotkeys_ok_def SignalVector_sorted_def SignalVector_def CategoryModel_def sorted_by_def
        category_shows_def count_map_def fun_eq_iff)
  from hotkey_insert_ok [OF sample.laws sample_hotkeys_order this, of None "sample_hotkey SplitInput ''b''" 0]
  show ?thesis
    by (auto simp: sample_hotkey_vector_def SignalVector_sorted_def SignalVector_def lower_bound_def)
qed

theorem hotkey_table_keeps_groups_witness:
  "\<exists>m v' m' i. sv_insert (on_signal sample_cells (HotkeyModel sample_cells sample_hotkeys) 0)
      (sample_hotkey SplitInput ''a'') (-1) None sample_hotkey_vector m = Inr (v', m', int i) \<and>
    hotkeys_ok sample_cells sample_hotkeys v' m'"
proof -
  obtain m where m: "hotkeys_ok sample_cells sample_hotkeys sample_hotkey_vector m"
    using sample_hotkey_table by blast
  have "0 < length (sv_items sample_hotkey_vector)"
    "\<exists>y\<in>set (sv_items sample_hotkey_vector). hk_category y = hk_category (sample_hotkey SplitInput ''a'')"
    by (simp_all add: sample_hotkey_vector_def sample_hotkey_def)
  with hotkey_table_keeps_groups [OF sample.laws sample_hotkeys_order m, of None 0 "sample_hotkey SplitInput ''a''" "-1"]
  show ?thesis by blast
qed

text \<open>
  A hotkey of a category that has no header yet, but that belongs before a category that has
  one, is listed in the wrong place: its header is inserted below the header of the next category,
  so that the new group has no items of the next one above it and the next category's hotkeys appear
  under the new header.
\<close>

theorem hotkey_header_misplaced:
  assumes "cell_laws api" "hotkeys_ok api env v m" "sv_items v = P @ S" "S \<noteq> []" "caller \<noteq> Some 0"
    and "\<forall>y\<in>set P. hk_category y < hk_category x" "\<forall>y\<in>set S. hk_category x < hk_category y"
  shows "\<exists>v' m'. sv_insert (on_signal api (HotkeyModel api env) 0) x index caller v m =
      Inr (v', m', int (length P)) \<and> sv_items v' = P @ x # S \<and>
    map (row_kind api) (m_rows m') = layout getCategory P @ Inl (getCategory (hd S)) #
      Inl (getCategory x) # Inr x # tl (layout getCategory S) \<and>
    map (row_kind api) (m_rows m') \<noteq> layout getCategory (P @ x # S)"
proof -
  have v: "sv_compare v = Some (hotkeySortCompare env)" "category_shows api getCategory 2 m (P @ S)"
    using assms(2,3) by (simp_all add: hotkeys_ok_def)
  define e where "e = \<lparr>event_item = x, event_index = int (length P), event_caller = caller\<rparr>"
  have cats: "\<forall>y\<in>set (P @ S). getCategory y \<noteq> getCategory x"
    "\<forall>y\<in>set P. \<forall>z\<in>set S. getCategory y \<noteq> getCategory z"
    using assms(6,7) by force+
  have layout_S: "layout getCategory S = Inl (getCategory (hd S)) # tl (layout getCategory S)"
    using assms(4) by (cases S) (simp_all add: layout_Cons)
  have first_S: "take 1 (layout getCategory S) = [Inl (getCategory (hd S))]"
    "drop 1 (layout getCategory S) = tl (layout getCategory S)"
    by (subst layout_S, simp) (simp add: drop_Suc)
  have kinds: "map (row_kind api) (m_rows m) = layout getCategory P @ layout getCategory S"
    and lens: "m_columnCount m = 2" "\<forall>r\<in>set (m_rows m). length (row_items r) = 2"
    and counts: "m_categoryCount m = count_map getCategory (P @ S)"
    using v(2) by (simp_all add: category_shows_def layout_disjoint [OF cats(2)])
  have e: "event_caller e \<noteq> Some 0" "event_index e = int (length P)" "event_item e = x"
    using assms(5) by (simp_all add: e_def)
  obtain m' where m': "on_signal api (HotkeyModel api env) 0 (ItemInserted e) m = Inr m'"
    and rows: "map (row_kind api) (m_rows m') = layout getCategory P @ Inl (getCategory (hd S)) #
      Inl (getCategory x) # Inr x # tl (layout getCategory S)"
    using hotkey_new_category [OF assms(1) kinds lens counts cats(1) e, of env]
    unfolding hotkey_listener first_S by auto
  have i: "length P = lower_bound (hotkeySortCompare env) (sv_items v) x"
    using hotkey_lower_bound [of P x "[]" S env] assms(3,6,7) by (simp add: lower_bound_def)
  have "layout getCategory (P @ [x] @ S) = layout getCategory P @ Inl (getCategory x) # Inr x # layout getCategory S"
    using layout_group [of "[x]" getCategory "getCategory x" P S] cats(1) by simp
  moreover have "getCategory (hd S) \<noteq> getCategory x" using assms(4) cats(1) by simp
  ultimately have "map (row_kind api) (m_rows m') \<noteq> layout getCategory (P @ x # S)"
    unfolding rows by (simp del: getCategory_eq)
  moreover have "sv_insert (on_signal api (HotkeyModel api env) 0) x index caller v m =
      Inr (inserted_vector x (length P) v, m', int (length P))"
    by (rule sorted_insert_eq [where notify = "on_signal api (HotkeyModel api env) 0",
        OF v(1) i m' [unfolded e_def]])
  moreover have "sv_items (inserted_vector x (length P) v) = P @ x # S"
    by (simp add: assms(3) insert_at_def)
  ultimately show ?thesis using rows by blast
qed

theorem hotkey_header_misplaced_witness:
  "\<exists>m v' m'. sv_insert (on_signal sample_cells (HotkeyModel sample_cells sample_hotkeys) 0)
      (sample_hotkey Split ''a'') (-1) None sample_hotkey_vector m = Inr (v', m', int 0) \<and>
    map (row_kind sample_cells) (m_rows m') =
      [Inl ''Split input box'', Inl ''Split'', Inr (sample_hotkey Split ''a''),
       Inr (sample_hotkey SplitInput ''b'')]"
proof -
  obtain m where m: "hotkeys_ok sample_cells sample_hotkeys sample_hotkey_vector m"
    using sample_hotkey_table by blast
  have items: "sv_items sample_hotkey_vector = [] @ [sample_hotkey SplitInput ''b'']"
    by (simp add: sample_hotkey_vector_def SignalVector_sorted_def SignalVector_def)
  have shown: "layout getCategory [] @ Inl (getCategory (hd [sample_hotkey SplitInput ''b''])) #
      Inl (getCategory (sample_hotkey Split ''a'')) # Inr (sample_hotkey Split ''a'') #
      tl (layout getCategory [sample_hotkey SplitInput ''b'']) =
    [Inl ''Split input box'', Inl ''Split'', Inr (sample_hotkey Split ''a''),
     Inr (sample_hotkey SplitInput ''b'')]"
    by (simp add: sample_hotkey_def layout_Cons getCategory_def hotkeyCategoryDisplayName_def
        HOTKEY_CATEGORIES_def)
  have "\<forall>y\<in>set [sample_hotkey SplitInput ''b'']. hk_category (sample_hotkey Split ''a'') < hk_category y"
    by (simp add: sample_hotkey_def less_HotkeyCategory_def)
  note above = this
  have below: "\<forall>y\<in>set []. hk_category y < hk_category (sample_hotkey Split ''a'')" by simp
  obtain v' m' where
    "sv_insert (on_signal sample_cells (HotkeyModel sample_cells sample_hotkeys) 0)
      (sample_hotkey Split ''a'') (-1) None sample_hotkey_vector m = Inr (v', m', int 0)"
    "map (row_kind sample_cells) (m_rows m') =
      [Inl ''Split input box'', Inl ''Split'', Inr (sample_hotkey Split ''a''),
       Inr (sample_hotkey SplitInput ''b'')]"
    using hotkey_header_misplaced [OF sample.laws m items list.distinct(2) option.distinct(1) below above,
        of "-1"]
    unfolding shown list.size by (elim exE conjE) (rule that)
  then show ?thesis by (intro exI conjI)
qed

end
