(* ===== verification/SplitTree.thy ===== *)
theory SplitTree
  imports Prelude "HOL-Library.Multiset"
begin

text \<open>
  The tree of splits of a tab (\<open>SplitContainer::Node\<close> in \<open>widgets/splits/SplitContainer.cpp\<close>).

  A node is a value with an identity: \<open>node_id\<close> stands for its address, the pointers to nodes
  (\<open>preferedFocusTarget_\<close>, the positions of released splits) are identities.  The pointer \<open>parent_\<close>
  is not a field but read off the tree: \<open>parents\<close> lists the nodes that a walk along \<open>parent_\<close> meets.
  Geometry is painting and is left out; the flex factors are numbers of any type with the
  operators the code uses, about which nothing is assumed.  Splits are pointers of any type.
\<close>

section \<open>Data\<close>

datatype SplitDirection = Left | Above | Right | Below

datatype NodeType = EmptyRoot | SplitNode | VerticalContainer | HorizontalContainer

datatype ('s, 'q) Node =
  Node (node_id: nat) (n_type: NodeType) (n_split: "'s option") (n_flexH: 'q) (n_flexV: 'q)
    (n_prefered: "nat option") (n_children: "('s, 'q) Node list")

text \<open>What stops the code: a failed assertion, erasing the end iterator, \<open>back()\<close> and \<open>front()\<close> of an
  empty vector, and a null pointer.\<close>

datatype split_fault =
  AssertFailed | EraseEnd | BackOfEmpty | FrontOfEmpty | NullPointer

type_synonym Position = "nat option \<times> SplitDirection"

definition toContainerType :: "SplitDirection \<Rightarrow> NodeType" where
  "toContainerType dir = (if dir = Left \<or> dir = Right then HorizontalContainer else VerticalContainer)"

definition Node_empty :: "nat \<Rightarrow> ('s, 'q::one) Node" where
  "Node_empty i = Node i EmptyRoot None 1 1 None []"

definition Node_split :: "nat \<Rightarrow> 's \<Rightarrow> ('s, 'q::one) Node" where
  "Node_split i split = Node i SplitNode (Some split) 1 1 None []"

definition set_children :: "('s, 'q) Node \<Rightarrow> ('s, 'q) Node list \<Rightarrow> ('s, 'q) Node" where
  "set_children n cs = (case n of Node i t s h v p _ \<Rightarrow> Node i t s h v p cs)"

section \<open>Walking the tree\<close>

fun first_some :: "'a option list \<Rightarrow> 'a option" where
  "first_some [] = None"
| "first_some (x # xs) = (case x of Some a \<Rightarrow> Some a | None \<Rightarrow> first_some xs)"

fun get_node :: "nat \<Rightarrow> ('s, 'q) Node \<Rightarrow> ('s, 'q) Node option" where
  "get_node nid (Node i t s h v p cs) =
     (if i = nid then Some (Node i t s h v p cs) else first_some (map (get_node nid) cs))"

fun replace_node :: "nat \<Rightarrow> ('s, 'q) Node \<Rightarrow> ('s, 'q) Node \<Rightarrow> ('s, 'q) Node" where
  "replace_node nid n (Node i t s h v p cs) =
     (if i = nid then n else Node i t s h v p (map (replace_node nid n) cs))"

fun parents :: "nat \<Rightarrow> ('s, 'q) Node \<Rightarrow> ('s, 'q) Node list option" where
  "parents nid (Node i t s h v p cs) =
     (if i = nid then Some []
      else map_option (\<lambda>ps. ps @ [Node i t s h v p cs]) (first_some (map (parents nid) cs)))"

fun isOrContainsNode :: "nat \<Rightarrow> ('s, 'q) Node \<Rightarrow> bool" where
  "isOrContainsNode nid (Node i t s h v p cs) = (i = nid \<or> list_ex (isOrContainsNode nid) cs)"

fun findNodeContainingSplit :: "'s option \<Rightarrow> ('s, 'q) Node \<Rightarrow> ('s, 'q) Node option" where
  "findNodeContainingSplit split (Node i t s h v p cs) =
     (if t = SplitNode \<and> s = split then Some (Node i t s h v p cs)
      else first_some (map (findNodeContainingSplit split) cs))"

fun getTopRightSplit :: "('s, 'q) Node \<Rightarrow> 's option" where
  "getTopRightSplit (Node i t s h v p cs) =
     (case t of
        SplitNode \<Rightarrow> s
      | VerticalContainer \<Rightarrow> if cs \<noteq> [] then hd (map getTopRightSplit cs) else None
      | HorizontalContainer \<Rightarrow> if cs \<noteq> [] then last (map getTopRightSplit cs) else None
      | EmptyRoot \<Rightarrow> None)"

section \<open>Inserting\<close>

definition setSplit :: "'s \<Rightarrow> ('s, 'q) Node \<Rightarrow> split_fault + ('s, 'q) Node" where
  "setSplit split this = (case this of Node i t s h v p cs \<Rightarrow>
     if s \<noteq> None \<or> cs \<noteq> [] then Inl AssertFailed
     else Inr (Node i SplitNode (Some split) h v p cs))"

text \<open>Called on the child \<open>nid\<close>; the result is its parent \<open>parent\<close> with the new node \<open>fresh\<close>.\<close>

definition insertNextToThis ::
  "nat \<Rightarrow> 's \<Rightarrow> SplitDirection \<Rightarrow> nat \<Rightarrow> ('s, 'q::one) Node \<Rightarrow> split_fault + ('s, 'q) Node" where
  "insertNextToThis nid split dir fresh parent =
     (case first_index (\<lambda>n. node_id n = nid) (n_children parent) of
        None \<Rightarrow> Inl AssertFailed
      | Some i \<Rightarrow>
          (let it = (if dir = Right \<or> dir = Below then i + 1 else i) in
           Inr (set_children parent (insert_at it (Node_split fresh split) (n_children parent)))))"

text \<open>The clone gets the identity \<open>Suc fresh\<close>.\<close>

definition nestSplitIntoCollection ::
  "'s \<Rightarrow> SplitDirection \<Rightarrow> nat \<Rightarrow> ('s, 'q::one) Node \<Rightarrow> split_fault + ('s, 'q) Node" where
  "nestSplitIntoCollection split dir fresh this = (case this of Node i t s h v p cs \<Rightarrow>
     if toContainerType dir = t then Inr (Node i t s h v p (cs @ [Node_split fresh split]))
     else
       let clone = Node (Suc fresh) t s 1 1 None cs in
       insertNextToThis (Suc fresh) split dir fresh (Node i (toContainerType dir) None h v p [clone]))"

text \<open>Called on the node \<open>nid\<close> of the tree \<open>root\<close>; the result is the tree.\<close>

definition insertSplitRelative ::
  "nat \<Rightarrow> 's \<Rightarrow> SplitDirection \<Rightarrow> nat \<Rightarrow> ('s, 'q::one) Node \<Rightarrow> split_fault + ('s, 'q) Node" where
  "insertSplitRelative nid split dir fresh root =
     (case parents nid root of
        None \<Rightarrow> Inl NullPointer
      | Some [] \<Rightarrow>
          (case n_type root of
             EmptyRoot \<Rightarrow> setSplit split root
           | _ \<Rightarrow> nestSplitIntoCollection split dir fresh root)
      | Some (parent # _) \<Rightarrow>
          if n_type parent = toContainerType dir
          then bind_sum (insertNextToThis nid split dir fresh parent)
                 (\<lambda>parent'. Inr (replace_node (node_id parent) parent' root))
          else (case get_node nid root of
             None \<Rightarrow> Inl NullPointer
           | Some this \<Rightarrow> bind_sum (nestSplitIntoCollection split dir fresh this)
                 (\<lambda>this'. Inr (replace_node nid this' root))))"

section \<open>Releasing\<close>

text \<open>
  \<open>releaseSplit\<close> of the child \<open>nid\<close> of \<open>parent\<close>: the parent afterwards and the position that inserts
  the split again where it was.  With two siblings the parent becomes the other one.
\<close>

definition release_child ::
  "nat \<Rightarrow> ('s, 'q) Node \<Rightarrow> split_fault + ('s, 'q) Node \<times> Position" where
  "release_child nid parent = (case parent of Node i t s h v p siblings \<Rightarrow>
     (case first_index (\<lambda>n. node_id n = nid) siblings of
        None \<Rightarrow> Inl AssertFailed
      | Some it \<Rightarrow>
          if length siblings = 2 then
            (let dir = (if t = VerticalContainer then (if it = 0 then Above else Below)
                        else (if it = 0 then Left else Right));
                 sibling = hd (erase_at it siblings)
             in Inr (Node i (n_type sibling) (n_split sibling) h v p (n_children sibling), (Some i, dir)))
          else if node_id (last siblings) = nid then
            (let dir = (if t = VerticalContainer then Below else Right);
                 rest = erase_at it siblings
             in if rest = [] then Inl BackOfEmpty
                else Inr (Node i t s h v p rest, (Some (node_id (last rest)), dir)))
          else
            (let dir = (if t = VerticalContainer then Above else Left)
             in Inr (Node i t s h v p (erase_at it siblings),
                     (Some (node_id (siblings ! (it + 1))), dir)))))"

definition Node_releaseSplit ::
  "nat \<Rightarrow> ('s, 'q) Node \<Rightarrow> split_fault + ('s, 'q) Node \<times> Position" where
  "Node_releaseSplit nid root =
     (case (parents nid root, get_node nid root) of
        (Some ps, Some this) \<Rightarrow>
          if n_type this \<noteq> SplitNode then Inl AssertFailed
          else (case ps of
             [] \<Rightarrow> (case root of Node i t s h v p cs \<Rightarrow>
                 Inr (Node i EmptyRoot None h v p cs, (None, Right)))
           | parent # _ \<Rightarrow> bind_sum (release_child nid parent)
               (\<lambda>(parent', pos). Inr (replace_node (node_id parent) parent' root, pos)))
      | _ \<Rightarrow> Inl NullPointer)"

section \<open>Focus\<close>

fun focusSplitRecursive :: "('s, 'q) Node \<Rightarrow> split_fault + 's option" where
  "focusSplitRecursive (Node i t s h v p cs) =
     (case t of
        SplitNode \<Rightarrow> Inr s
      | EmptyRoot \<Rightarrow> Inr None
      | _ \<Rightarrow> (case first_index (\<lambda>n. p = Some (node_id n)) cs of
            Some it \<Rightarrow> map focusSplitRecursive cs ! it
          | None \<Rightarrow> if cs = [] then Inl FrontOfEmpty else hd (map focusSplitRecursive cs)))"

text \<open>The walks upward take the list of parents that is left; \<open>nid\<close> is the node they have reached.\<close>

definition set_prefered :: "nat \<Rightarrow> ('s, 'q) Node \<Rightarrow> ('s, 'q) Node" where
  "set_prefered nid n = (case n of Node i t s h v _ cs \<Rightarrow> Node i t s h v (Some nid) cs)"

fun setPreferedTargetRecursive ::
  "nat \<Rightarrow> nat list \<Rightarrow> ('s, 'q) Node \<Rightarrow> ('s, 'q) Node" where
  "setPreferedTargetRecursive nid [] root = root"
| "setPreferedTargetRecursive nid (pid # ps) root =
     setPreferedTargetRecursive pid ps
       (case get_node pid root of
          None \<Rightarrow> root
        | Some parent \<Rightarrow> replace_node pid (set_prefered nid parent) root)"

fun selectSplitRecursive ::
  "nat \<Rightarrow> ('s, 'q) Node list \<Rightarrow> SplitDirection \<Rightarrow> split_fault + 's option" where
  "selectSplitRecursive nid [] dir = Inr None"
| "selectSplitRecursive nid (parent # ps) dir =
     (if n_type parent = toContainerType dir then
        (case first_index (\<lambda>n. node_id n = nid) (n_children parent) of
           None \<Rightarrow> Inl AssertFailed
         | Some it \<Rightarrow>
             if dir = Left \<or> dir = Above then
               if it = 0 then selectSplitRecursive (node_id parent) ps dir
               else focusSplitRecursive (n_children parent ! (it - 1))
             else
               if node_id (n_children parent ! it) = node_id (last (n_children parent))
               then selectSplitRecursive (node_id parent) ps dir
               else focusSplitRecursive (n_children parent ! (it + 1)))
      else selectSplitRecursive (node_id parent) ps dir)"

section \<open>Flex factors\<close>

text \<open>
  \<open>layout\<close> clamps the flex factors of the children and divides them by their sum.  The constants are
  parameters: \<open>eps\<close> is \<open>0.0001\<close>, \<open>ofSize\<close> converts the number of children.
\<close>

definition std_max :: "'q::ord \<Rightarrow> 'q \<Rightarrow> 'q" where
  "std_max a b = (if a < b then b else a)"

definition clamp :: "('s, 'q::{zero, ord}) Node \<Rightarrow> ('s, 'q) Node" where
  "clamp n = (case n of Node i t s h v p cs \<Rightarrow> Node i t s (std_max 0 h) (std_max 0 v) p cs)"

definition getFlex :: "bool \<Rightarrow> ('s, 'q) Node \<Rightarrow> 'q" where
  "getFlex isVertical n = (if isVertical then n_flexV n else n_flexH n)"

definition getChildrensTotalFlex :: "bool \<Rightarrow> ('s, 'q::{zero, plus}) Node list \<Rightarrow> 'q" where
  "getChildrensTotalFlex isVertical cs = foldl (\<lambda>val n. val + getFlex isVertical n) 0 cs"

definition normalize_flex ::
  "bool \<Rightarrow> 'q::{one, times, inverse} \<Rightarrow> 'q \<Rightarrow> ('s, 'q) Node \<Rightarrow> ('s, 'q) Node" where
  "normalize_flex isVertical totalFlex n child = (case child of Node i t s h v p cs \<Rightarrow>
     if isVertical then Node i t s 1 (v / totalFlex * n) p cs else Node i t s (h / totalFlex * n) 1 p cs)"

fun node_layout ::
  "'q \<Rightarrow> (nat \<Rightarrow> 'q) \<Rightarrow> ('s, 'q::{zero, one, plus, times, inverse, ord}) Node \<Rightarrow> ('s, 'q) Node" where
  "node_layout eps ofSize (Node i t s h v p cs) =
     (if t = VerticalContainer \<or> t = HorizontalContainer then
        (let isVertical = (t = VerticalContainer);
             totalFlex = std_max eps (getChildrensTotalFlex isVertical (map clamp cs))
         in Node i t s h v p
              (map (\<lambda>child. normalize_flex isVertical totalFlex (ofSize (length cs))
                 (clamp (node_layout eps ofSize child))) cs))
      else Node i t s h v p (map clamp cs))"

section \<open>Paths in a tree\<close>

text \<open>What the nodes of a tree contribute, in the order in which the code visits them.\<close>

fun flat :: "(nat \<Rightarrow> 's option \<Rightarrow> 'a list) \<Rightarrow> ('s, 'q) Node \<Rightarrow> 'a list" where
  "flat g (Node i t s h v p cs) = g i s @ concat (map (flat g) cs)"

abbreviation ids :: "('s, 'q) Node \<Rightarrow> nat list" where
  "ids \<equiv> flat (\<lambda>i s. [i])"

abbreviation leaves :: "('s, 'q) Node \<Rightarrow> 's list" where
  "leaves \<equiv> flat (\<lambda>i s. case s of Some x \<Rightarrow> [x] | None \<Rightarrow> [])"

lemma first_some_append [simp]:
  "first_some (xs @ ys) = (case first_some xs of None \<Rightarrow> first_some ys | Some a \<Rightarrow> Some a)"
  by (induction xs) (auto split: option.splits)

lemma first_some_None [simp]: "first_some xs = None \<longleftrightarrow> (\<forall>x\<in>set xs. x = None)"
  by (induction xs) (auto split: option.splits)

lemma node_id_in_ids [simp]: "node_id t \<in> set (ids t)"
  by (cases t) simp

lemma outside_tree:
  "nid \<notin> set (ids t) \<Longrightarrow> get_node nid t = None"
  "nid \<notin> set (ids t) \<Longrightarrow> parents nid t = None"
  "nid \<notin> set (ids t) \<Longrightarrow> replace_node nid n t = t"
  "isOrContainsNode nid t \<longleftrightarrow> nid \<in> set (ids t)"
  by (induction t) (auto intro: map_idI simp: list_ex_iff)

lemma tree_path_induct [consumes 2, case_names here below]:
  assumes "nid \<in> set (ids t)" "distinct (ids t)"
    and here: "\<And>t. node_id t = nid \<Longrightarrow> distinct (ids t) \<Longrightarrow> P t"
    and below: "\<And>i t s h v p as c bs. i \<noteq> nid \<Longrightarrow> nid \<in> set (ids c) \<Longrightarrow>
      distinct (ids (Node i t s h v p (as @ c # bs))) \<Longrightarrow>
      \<forall>x\<in>set as \<union> set bs. nid \<notin> set (ids x) \<Longrightarrow> P c \<Longrightarrow> P (Node i t s h v p (as @ c # bs))"
  shows "P t"
  using assms(1,2)
proof (induction t)
  case (Node i t s h v p cs)
  show ?case
  proof (cases "i = nid")
    case False
    with Node.prems obtain c where c: "c \<in> set cs" "nid \<in> set (ids c)" by auto
    then obtain as bs where cs: "cs = as @ c # bs" by (auto simp: in_set_conv_decomp)
    have d: "distinct (ids c)" "\<forall>x\<in>set as \<union> set bs. nid \<notin> set (ids x)"
      using Node.prems(2) c(2) unfolding cs by auto
    from Node.IH [OF c d(1)] show ?thesis
      using below [OF False c(2) _ d(2)] Node.prems(2) unfolding cs by blast
  qed (use here Node.prems in auto)
qed

lemma path_simps:
  assumes "i \<noteq> nid" "\<forall>x\<in>set as \<union> set bs. nid \<notin> set (ids x)" "nid \<in> set (ids c)"
  shows "replace_node nid n (Node i t s h v p (as @ c # bs)) = Node i t s h v p (as @ replace_node nid n c # bs)"
    and "get_node nid (Node i t s h v p (as @ c # bs)) =
      (case get_node nid c of None \<Rightarrow> None | Some n \<Rightarrow> Some n)"
    and "parents nid (Node i t s h v p (as @ c # bs)) =
      map_option (\<lambda>ps. ps @ [Node i t s h v p (as @ c # bs)]) (parents nid c)"
proof -
  have as: "map (replace_node nid n) as = as" "map (replace_node nid n) bs = bs"
    using assms(2) by (auto intro!: map_idI simp: outside_tree)
  have g: "first_some (map (get_node nid) as) = None" "first_some (map (get_node nid) bs) = None"
    "first_some (map (parents nid) as) = None" "first_some (map (parents nid) bs) = None"
    using assms(2) by (auto simp: outside_tree)
  show "replace_node nid n (Node i t s h v p (as @ c # bs)) = Node i t s h v p (as @ replace_node nid n c # bs)"
    "get_node nid (Node i t s h v p (as @ c # bs)) =
      (case get_node nid c of None \<Rightarrow> None | Some n \<Rightarrow> Some n)"
    "parents nid (Node i t s h v p (as @ c # bs)) =
      map_option (\<lambda>ps. ps @ [Node i t s h v p (as @ c # bs)]) (parents nid c)"
    using assms(1) as g by (simp_all del: first_some_None split: option.splits)
qed

lemma get_node_in:
  assumes "nid \<in> set (ids t)" "distinct (ids t)"
  obtains n where "get_node nid t = Some n" "node_id n = nid"
proof -
  have "\<exists>n. get_node nid t = Some n \<and> node_id n = nid"
    using assms
  proof (induction rule: tree_path_induct)
    case (here t)
    then show ?case by (cases t) auto
  next
    case (below i t s h v p as c bs)
    then show ?case by (auto simp: path_simps simp del: get_node.simps)
  qed
  with that show thesis by blast
qed

lemma get_node_id: "get_node nid t = Some n \<Longrightarrow> node_id n = nid"
  and get_node_ids: "get_node nid t = Some n \<Longrightarrow> nid \<in> set (ids t)"
proof -
  have "get_node nid t = Some n \<Longrightarrow> node_id n = nid \<and> nid \<in> set (ids t)"
  proof (induction t)
    case (Node i t s h v p cs)
    have "first_some (map (get_node nid) xs) = Some n \<Longrightarrow> \<exists>c\<in>set xs. get_node nid c = Some n" for xs
      by (induction xs) (auto split: option.splits)
    with Node show ?case by (auto split: if_splits)
  qed
  then show "get_node nid t = Some n \<Longrightarrow> node_id n = nid" "get_node nid t = Some n \<Longrightarrow> nid \<in> set (ids t)"
    by auto
qed

text \<open>Replacing a node changes the lists of ids and splits in one segment.\<close>

lemma flat_replace_node:
  assumes "get_node nid t = Some n" "distinct (ids t)"
  shows "replace_node nid n t = t"
    and "\<exists>A B. \<forall>n'. flat g (replace_node nid n' t) = A @ flat g n' @ B"
proof -
  have "nid \<in> set (ids t)" using assms(1) by (rule get_node_ids)
  from this assms(2) have "\<forall>n. get_node nid t = Some n \<longrightarrow> replace_node nid n t = t \<and>
    (\<exists>A B. \<forall>n'. flat g (replace_node nid n' t) = A @ flat g n' @ B)"
  proof (induction rule: tree_path_induct)
    case (here t)
    have "flat g (replace_node nid n' t) = [] @ flat g n' @ []" for n'
      using here by (cases t) auto
    moreover have "\<forall>n. get_node nid t = Some n \<longrightarrow> replace_node nid n t = t"
      using here by (cases t) auto
    ultimately show ?case by blast
  next
    case (below i t s h v p as c bs)
    note ps = path_simps [OF below(1,4,2)]
    have "\<exists>A B. \<forall>n'. flat g (replace_node nid n' (Node i t s h v p (as @ c # bs))) = A @ flat g n' @ B"
      if n: "get_node nid c = Some n" for n
    proof -
      from below(5) n obtain A B where "\<forall>n'. flat g (replace_node nid n' c) = A @ flat g n' @ B" by blast
      then have "\<forall>n'. flat g (replace_node nid n' (Node i t s h v p (as @ c # bs))) =
          (g i s @ concat (map (flat g) as) @ A) @ flat g n' @ (B @ concat (map (flat g) bs))"
        unfolding ps by simp
      then show ?thesis by blast
    qed
    with below(5) show ?case by (auto simp: ps simp del: get_node.simps replace_node.simps split: option.splits)
  qed
  with assms(1) show "replace_node nid n t = t"
    "\<exists>A B. \<forall>n'. flat g (replace_node nid n' t) = A @ flat g n' @ B" by blast+
qed

lemma flat_replaceE:
  assumes "get_node nid t = Some n" "distinct (ids t)"
  obtains A B where "flat g t = A @ flat g n @ B" "\<And>n'. flat g (replace_node nid n' t) = A @ flat g n' @ B"
proof -
  from flat_replace_node(2) [OF assms] obtain A B
    where "\<forall>n'. flat g (replace_node nid n' t) = A @ flat g n' @ B" by blast
  with flat_replace_node(1) [OF assms] that show thesis by metis
qed

text \<open>The parents of a node.\<close>

lemma parents_in:
  assumes "nid \<in> set (ids t)" "distinct (ids t)"
  shows "\<exists>ps. parents nid t = Some ps \<and> (ps = [] \<longleftrightarrow> node_id t = nid) \<and>
    (\<forall>p qs. ps = p # qs \<longrightarrow> get_node (node_id p) t = Some p \<and> nid \<in> set (map node_id (n_children p)))"
  using assms
proof (induction rule: tree_path_induct)
  case (here t)
  then show ?case by (cases t) auto
next
  case (below i t s h v p as c bs)
  let ?t = "Node i t s h v p (as @ c # bs)"
  from below(5) obtain ps where ps: "parents nid c = Some ps" "ps = [] \<longleftrightarrow> node_id c = nid"
    "\<And>p qs. ps = p # qs \<Longrightarrow> get_node (node_id p) c = Some p \<and> nid \<in> set (map node_id (n_children p))"
    by blast
  have P: "parents nid ?t = Some (ps @ [?t])"
    using ps(1) path_simps(3) [OF below(1,4,2)] by simp
  have "get_node (node_id p') ?t = Some p' \<and> nid \<in> set (map node_id (n_children p'))"
    if "ps @ [?t] = p' # qs" for p' qs
  proof (cases ps)
    case Nil
    with that ps(2) show ?thesis by auto
  next
    case (Cons q rs)
    with that have q: "p' = q" by simp
    have g: "get_node (node_id q) c = Some q" and m: "nid \<in> set (map node_id (n_children q))"
      using ps(3) [OF Cons] by auto
    have in_c: "node_id q \<in> set (ids c)" using g by (rule get_node_ids)
    have "i \<noteq> node_id q" "\<forall>x\<in>set as \<union> set bs. node_id q \<notin> set (ids x)"
      using below(3) in_c by auto
    then show ?thesis using g m q path_simps(2) [of i "node_id q" as bs c] in_c by simp
  qed
  with P below(1) show ?case by auto
qed


section \<open>Well-formed trees\<close>

text \<open>
  Every node that is not the empty root is a split without children or a container with at least
  two of them.
\<close>

fun tree_wf :: "('s, 'q) Node \<Rightarrow> bool" where
  "tree_wf (Node i t s h v p cs) =
     ((case t of
         EmptyRoot \<Rightarrow> False
       | SplitNode \<Rightarrow> s \<noteq> None \<and> cs = []
       | _ \<Rightarrow> s = None \<and> 2 \<le> length cs) \<and> (\<forall>c\<in>set cs. tree_wf c))"

definition is_empty_root :: "('s, 'q) Node \<Rightarrow> bool" where
  "is_empty_root t \<longleftrightarrow> n_type t = EmptyRoot \<and> n_split t = None \<and> n_children t = []"

definition split_tree_ok :: "('s, 'q) Node \<Rightarrow> bool" where
  "split_tree_ok t \<longleftrightarrow> distinct (ids t) \<and> (is_empty_root t \<or> tree_wf t)"

lemma tree_wf_leaves: "tree_wf t \<Longrightarrow> leaves t \<noteq> []"
proof (induction t)
  case (Node i t s h v p cs)
  show ?case
  proof (cases cs)
    case (Cons c cs')
    with Node show ?thesis by auto
  qed (use Node.prems in \<open>auto split: NodeType.splits option.splits\<close>)
qed

lemma empty_root_leaves: "is_empty_root t \<Longrightarrow> leaves t = []"
  by (cases t) (auto simp: is_empty_root_def)

lemma wf_replace_node: "tree_wf t \<Longrightarrow> tree_wf n \<Longrightarrow> tree_wf (replace_node nid n t)"
  by (induction t) (auto split: NodeType.splits)

lemma first_some_SomeD: "first_some (map f xs) = Some n \<Longrightarrow> \<exists>x\<in>set xs. f x = Some n"
  by (induction xs) (auto split: option.splits)

lemma get_node_wf: "tree_wf t \<Longrightarrow> get_node nid t = Some n \<Longrightarrow> tree_wf n"
  by (induction t) (auto split: if_splits dest: first_some_SomeD)

lemma findNode_found:
  assumes "findNodeContainingSplit s t = Some n" "distinct (ids t)"
  shows "n_type n = SplitNode \<and> n_split n = s \<and> get_node (node_id n) t = Some n"
  using assms
proof (induction t)
  case (Node i t s' h v p cs)
  show ?case
  proof (cases "t = SplitNode \<and> s' = s")
    case True
    with Node.prems show ?thesis by auto
  next
    case False
    with Node.prems(1) have "first_some (map (findNodeContainingSplit s) cs) = Some n"
      by (auto split: if_splits)
    from first_some_SomeD [OF this]
    obtain c where c: "c \<in> set cs" "findNodeContainingSplit s c = Some n" by blast
    then obtain as bs where cs: "cs = as @ c # bs" by (auto simp: in_set_conv_decomp)
    have IH: "n_type n = SplitNode" "n_split n = s" "get_node (node_id n) c = Some n"
    proof -
      have "distinct (ids c)" using Node.prems(2) by (simp add: cs)
      from Node.IH [OF c this] show "n_type n = SplitNode" "n_split n = s" "get_node (node_id n) c = Some n"
        by blast+
    qed
    from get_node_ids [OF IH(3)] have "node_id n \<in> set (ids c)" .
    moreover from this have "i \<noteq> node_id n" "\<forall>x\<in>set as \<union> set bs. node_id n \<notin> set (ids x)"
      using Node.prems(2) by (auto simp: cs)
    ultimately have "get_node (node_id n) (Node i t s' h v p cs) = Some n"
      unfolding cs using path_simps(2) [of i "node_id n" as bs c] IH(3) by (simp del: get_node.simps)
    with IH show ?thesis by blast
  qed
qed

lemma findNode_of_leaf:
  assumes "tree_wf t" "s \<in> set (leaves t)"
  shows "findNodeContainingSplit (Some s) t \<noteq> None"
  using assms
proof (induction t)
  case (Node i t s' h v p cs)
  show ?case
  proof (cases "t = SplitNode")
    case True
    with Node.prems show ?thesis by (auto split: option.splits)
  next
    case False
    with Node.prems have "\<exists>c\<in>set cs. s \<in> set (leaves c)"
      by (auto split: option.splits NodeType.splits)
    then obtain c where "c \<in> set cs" "s \<in> set (leaves c)" by blast
    with Node have "findNodeContainingSplit (Some s) c \<noteq> None" by auto
    with \<open>c \<in> set cs\<close> have "first_some (map (findNodeContainingSplit (Some s)) cs) \<noteq> None"
      by (auto simp del: not_None_eq)
    then show ?thesis by (simp del: not_None_eq first_some_None)
  qed
qed

section \<open>The operations on well-formed trees\<close>

lemma first_index_id:
  assumes "nid \<in> set (map node_id cs)"
  obtains k where "first_index (\<lambda>n. node_id n = nid) cs = Some k" "k < length cs" "node_id (cs ! k) = nid"
  using assms first_index_SomeD by (cases "first_index (\<lambda>n. node_id n = nid) cs") fastforce+

lemma mset_concat_map: "mset (concat (map f xs)) = sum_list (map (\<lambda>x. mset (f x)) xs)"
  by (induction xs) simp_all

lemma flat_children_insert:
  "mset (concat (map (flat g) (insert_at it c cs))) = mset (flat g c) + mset (concat (map (flat g) cs))"
  by (simp add: mset_concat_map insert_at_def)
    (metis append_take_drop_id map_append sum_list_append add.left_commute)

lemma flat_children_erase:
  "k < length cs \<Longrightarrow>
    mset (concat (map (flat g) cs)) = mset (flat g (cs ! k)) + mset (concat (map (flat g) (erase_at k cs)))"
  using flat_children_insert [of g k "cs ! k" "erase_at k cs"] by (simp add: insert_erase_at)

lemma insertNextToThis_ok:
  assumes "nid \<in> set (map node_id (n_children p))" "tree_wf p"
  shows "\<exists>p'. insertNextToThis nid split dir fresh p = Inr p' \<and> tree_wf p' \<and> node_id p' = node_id p \<and>
    mset (ids p') = {#fresh#} + mset (ids p) \<and> mset (leaves p') = {#split#} + mset (leaves p)"
proof -
  obtain k where k: "first_index (\<lambda>n. node_id n = nid) (n_children p) = Some k"
    using first_index_id [OF assms(1)] by blast
  let ?it = "if dir = Right \<or> dir = Below then k + 1 else k"
  let ?p' = "set_children p (insert_at ?it (Node_split fresh split) (n_children p))"
  have "tree_wf ?p'"
    using assms by (cases p) (auto simp: set_children_def Node_split_def split: NodeType.splits)
  moreover have fl: "mset (flat g ?p') = mset (g fresh (Some split)) + mset (flat g p)" for g
  proof (cases p)
    case (Node i t s h v pf cs)
    then show ?thesis
      using flat_children_insert [of g ?it "Node_split fresh split" cs]
      by (simp add: set_children_def) (simp add: Node_split_def)
  qed
  moreover have "insertNextToThis nid split dir fresh p = Inr ?p'"
    using k by (simp add: insertNextToThis_def)
  moreover have "node_id ?p' = node_id p" by (cases p) (simp add: set_children_def)
  moreover have "mset (ids ?p') = {#fresh#} + mset (ids p)" "mset (leaves ?p') = {#split#} + mset (leaves p)"
    by (subst fl, simp)+
  ultimately show ?thesis by blast
qed

lemma nestSplitIntoCollection_ok:
  assumes "tree_wf t"
  shows "\<exists>t'. nestSplitIntoCollection split dir fresh t = Inr t' \<and> tree_wf t' \<and> node_id t' = node_id t \<and>
    mset (leaves t') = add_mset split (mset (leaves t)) \<and>
    (mset (ids t') = add_mset fresh (mset (ids t)) \<or>
     mset (ids t') = add_mset fresh (add_mset (Suc fresh) (mset (ids t))))"
proof (cases t)
  case (Node i ty s h v p cs)
  show ?thesis
  proof (cases "toContainerType dir = ty")
    case True
    then show ?thesis using assms
      by (auto simp: Node nestSplitIntoCollection_def toContainerType_def Node_split_def split: if_splits)
  next
    case False
    have "tree_wf (Node (Suc fresh) ty s h' v' p' cs)" for h' v' p'
      using assms by (simp add: Node)
    with False show ?thesis
      by (cases dir) (auto simp: Node nestSplitIntoCollection_def insertNextToThis_def Let_def
          toContainerType_def Node_split_def set_children_def)
  qed
qed


text \<open>A replaced node carries its change of ids and splits to the whole tree.\<close>

lemma replace_node_add:
  assumes "get_node nid t = Some n" "distinct (ids t)"
    and "mset (flat g n') = M + mset (flat g n)"
  shows "mset (flat g (replace_node nid n' t)) = M + mset (flat g t)"
proof -
  obtain A B where "flat g t = A @ flat g n @ B"
    "\<And>n'. flat g (replace_node nid n' t) = A @ flat g n' @ B"
    using flat_replaceE [OF assms(1,2), of g] by blast
  with assms(3) show ?thesis by simp
qed

lemma replace_node_sub:
  assumes "get_node nid t = Some n" "distinct (ids t)"
    and "mset (flat g n) = M + mset (flat g n')"
  shows "mset (flat g t) = M + mset (flat g (replace_node nid n' t))"
proof -
  obtain A B where "flat g t = A @ flat g n @ B"
    "\<And>n'. flat g (replace_node nid n' t) = A @ flat g n' @ B"
    using flat_replaceE [OF assms(1,2), of g] by blast
  with assms(3) show ?thesis by simp
qed

lemma node_id_replace: "node_id n = nid \<Longrightarrow> node_id (replace_node nid n t) = node_id t"
  by (cases t) auto

text \<open>The result of an insertion: one more split, one or two more ids.\<close>

definition inserted ::
  "'s \<Rightarrow> nat \<Rightarrow> ('s, 'q) Node \<Rightarrow> ('s, 'q) Node \<Rightarrow> bool" where
  "inserted split fresh t t' \<longleftrightarrow> tree_wf t' \<and> node_id t' = node_id t \<and>
     mset (leaves t') = add_mset split (mset (leaves t)) \<and>
     (mset (ids t') = add_mset fresh (mset (ids t)) \<or>
      mset (ids t') = add_mset fresh (add_mset (Suc fresh) (mset (ids t))) \<or> ids t' = ids t)"

lemma inserted_ok:
  assumes "inserted split fresh t t'" "split_tree_ok t" "fresh \<notin> set (ids t)" "Suc fresh \<notin> set (ids t)"
  shows "split_tree_ok t'" and "set (ids t) \<subseteq> set (ids t')" and "set (ids t') \<subseteq> set (ids t) \<union> {fresh, Suc fresh}"
proof -
  have "\<exists>L\<in>{ids t, fresh # ids t, fresh # Suc fresh # ids t}. mset (ids t') = mset L"
    using assms(1) by (auto simp: inserted_def)
  then obtain L where L: "L \<in> {ids t, fresh # ids t, fresh # Suc fresh # ids t}" "mset (ids t') = mset L" by blast
  have "distinct (ids t)" using assms(2) by (simp add: split_tree_ok_def)
  with L(1) assms(3,4) have "distinct L" "set (ids t) \<subseteq> set L" "set L \<subseteq> set (ids t) \<union> {fresh, Suc fresh}"
    by fastforce+
  then have "distinct (ids t')" "set (ids t) \<subseteq> set (ids t')" "set (ids t') \<subseteq> set (ids t) \<union> {fresh, Suc fresh}"
    unfolding mset_eq_setD [OF L(2)] mset_eq_imp_distinct_iff [OF L(2)] .
  moreover have "tree_wf t'" using assms(1) by (simp add: inserted_def)
  ultimately show "split_tree_ok t'" "set (ids t) \<subseteq> set (ids t')"
    "set (ids t') \<subseteq> set (ids t) \<union> {fresh, Suc fresh}" by (simp_all add: split_tree_ok_def)
qed

lemma insertSplitRelative_ok:
  assumes ok: "split_tree_ok root" and nid: "nid \<in> set (ids root)"
  shows "\<exists>root'. insertSplitRelative nid split dir fresh root = Inr root' \<and> inserted split fresh root root'"
proof -
  have d: "distinct (ids root)" using ok by (simp add: split_tree_ok_def)
  from parents_in [OF nid d] obtain ps where ps: "parents nid root = Some ps"
    "ps = [] \<longleftrightarrow> node_id root = nid"
    "\<And>p qs. ps = p # qs \<Longrightarrow> get_node (node_id p) root = Some p \<and> nid \<in> set (map node_id (n_children p))"
    by blast
  show ?thesis
  proof (cases ps)
    case Nil
    show ?thesis
    proof (cases "is_empty_root root")
      case True
      then show ?thesis using Nil ps(1)
        by (cases root) (auto simp: insertSplitRelative_def is_empty_root_def setSplit_def inserted_def)
    next
      case False
      with ok have wf: "tree_wf root" by (simp add: split_tree_ok_def)
      then have "n_type root \<noteq> EmptyRoot" by (cases root) auto
      with nestSplitIntoCollection_ok [OF wf, of split dir fresh] Nil ps(1) show ?thesis
        by (auto simp: insertSplitRelative_def inserted_def split: NodeType.splits)
    qed
  next
    case (Cons parent qs)
    from ps(3) [OF Cons] have p: "get_node (node_id parent) root = Some parent"
      "nid \<in> set (map node_id (n_children parent))" by auto
    have wf: "tree_wf root"
    proof -
      have "\<not> is_empty_root root" using Cons p ps(2) get_node_ids [OF p(1)] nid
        by (cases root) (auto simp: is_empty_root_def)
      with ok show ?thesis by (simp add: split_tree_ok_def)
    qed
    show ?thesis
    proof (cases "n_type parent = toContainerType dir")
      case True
      from insertNextToThis_ok [OF p(2) get_node_wf [OF wf p(1)], of split dir fresh] obtain p' where
        p': "insertNextToThis nid split dir fresh parent = Inr p'" "tree_wf p'" "node_id p' = node_id parent"
        and f: "mset (ids p') = {#fresh#} + mset (ids parent)"
          "mset (leaves p') = {#split#} + mset (leaves parent)" by blast
      let ?root' = "replace_node (node_id parent) p' root"
      have "inserted split fresh root ?root'"
        using replace_node_add [OF p(1) d f(1)] replace_node_add [OF p(1) d f(2)] p'
        by (auto simp: inserted_def wf_replace_node wf node_id_replace)
      then show ?thesis using Cons ps(1) True p'(1) by (simp add: insertSplitRelative_def)
    next
      case False
      from get_node_in [OF nid d] obtain this' where th: "get_node nid root = Some this'" "node_id this' = nid" .
      from nestSplitIntoCollection_ok [OF get_node_wf [OF wf th(1)], of split dir fresh] obtain t' where
        t': "nestSplitIntoCollection split dir fresh this' = Inr t'" "tree_wf t'" "node_id t' = nid"
        and l: "mset (leaves t') = {#split#} + mset (leaves this')"
        and i: "mset (ids t') = {#fresh#} + mset (ids this') \<or>
          mset (ids t') = {#fresh, Suc fresh#} + mset (ids this')" using th(2) by auto
      let ?root' = "replace_node nid t' root"
      have "mset (leaves ?root') = {#split#} + mset (leaves root)"
        by (rule replace_node_add [OF th(1) d l])
      moreover have "mset (ids ?root') = {#fresh#} + mset (ids root) \<or>
          mset (ids ?root') = {#fresh, Suc fresh#} + mset (ids root)"
        using i replace_node_add [OF th(1) d, of "\<lambda>i s. [i]" t'] by blast
      ultimately have "inserted split fresh root ?root'"
        using t' by (auto simp: inserted_def wf_replace_node wf node_id_replace)
      then show ?thesis using Cons ps(1) False th(1) t'(1) by (simp add: insertSplitRelative_def)
    qed
  qed
qed


lemma get_node_trans:
  assumes "get_node a t = Some n" "distinct (ids t)" "get_node b n = Some m"
  shows "get_node b t = Some m"
proof -
  from assms(1) have "a \<in> set (ids t)" by (rule get_node_ids)
  from this assms(2) have "get_node a t = Some n \<longrightarrow> get_node b t = Some m"
  proof (induction rule: tree_path_induct)
    case (here t)
    then show ?case using assms(3) by (cases t) auto
  next
    case (below i t s h v p as c bs)
    have "get_node b (Node i t s h v p (as @ c # bs)) = Some m" if "get_node a c = Some n"
    proof -
      from below(5) that have g: "get_node b c = Some m" by blast
      then have b: "b \<in> set (ids c)" by (rule get_node_ids)
      then have "i \<noteq> b" "\<forall>x\<in>set as \<union> set bs. b \<notin> set (ids x)" using below(3) by auto
      from path_simps(2) [OF this b] g show ?thesis by simp
    qed
    with path_simps(2) [OF below(1,4,2)] show ?case by (simp del: get_node.simps split: option.splits)
  qed
  with assms(1) show ?thesis by blast
qed

lemma get_node_child:
  assumes "distinct (ids p)" "c \<in> set (n_children p)"
  shows "get_node (node_id c) p = Some c"
proof (cases p)
  case (Node i t s h v pf cs)
  with assms obtain as bs where cs: "cs = as @ c # bs" by (auto simp: in_set_conv_decomp)
  have c: "get_node (node_id c) c = Some c" by (cases c) simp
  define b where "b = node_id c"
  have b: "b \<in> set (ids c)" by (simp add: b_def)
  then have "i \<noteq> b" "\<forall>x\<in>set as \<union> set bs. b \<notin> set (ids x)"
    using assms(1) unfolding Node cs by auto
  from path_simps(2) [OF this b] c show ?thesis unfolding Node cs b_def by simp
qed

lemma distinct_subnode: "get_node nid t = Some n \<Longrightarrow> distinct (ids t) \<Longrightarrow> distinct (ids n)"
  using flat_replaceE [of nid t n "\<lambda>i s. [i]"] by (metis distinct_append)

lemma length_2_conv: "length xs = 2 \<longleftrightarrow> (\<exists>a b. xs = [a, b])"
  by (metis One_nat_def Suc_1 length_0_conv length_Cons length_Suc_conv)

lemma release_child_ok:
  assumes wf: "tree_wf p" and k: "k < length (n_children p)" "node_id (n_children p ! k) = nid"
    "first_index (\<lambda>n. node_id n = nid) (n_children p) = Some k"
    and leaf: "n_type (n_children p ! k) = SplitNode" "n_split (n_children p ! k) = Some s"
  shows "\<exists>p' q dir M. release_child nid p = Inr (p', (Some q, dir)) \<and> tree_wf p' \<and> node_id p' = node_id p \<and>
    mset (leaves p) = {#s#} + mset (leaves p') \<and> mset (ids p) = M + mset (ids p') \<and> q \<in> set (ids p')"
proof (cases p)
  case (Node i t sp h v pf cs)
  have t: "t = VerticalContainer \<or> t = HorizontalContainer" "sp = None" "2 \<le> length cs"
    using wf k(1) by (auto simp: Node split: NodeType.splits)
  have c: "tree_wf (cs ! k)" using wf k(1) by (auto simp: Node)
  then have lf: "leaves (cs ! k) = [s]" "ids (cs ! k) = [nid]"
    using leaf k(2) by (cases "cs ! k"; auto simp: Node)+
  show ?thesis
  proof (cases "length cs = 2")
    case True
    then obtain a b where ab: "cs = [a, b]" by (auto simp: length_2_conv)
    obtain sib where sib: "hd (erase_at k cs) = sib" "sib \<in> set cs" "mset (ids p) = {#i, nid#} + mset (ids sib)"
      "mset (leaves p) = {#s#} + mset (leaves sib)"
      using k(1) lf t(2) by (cases k) (auto simp: Node ab)
    let ?p' = "Node i (n_type sib) (n_split sib) h v pf (n_children sib)"
    have "tree_wf sib" using wf sib(2) by (auto simp: Node)
    then have "tree_wf ?p'" by (cases sib) auto
    moreover have "mset (ids p) = {#nid, node_id sib#} + mset (ids ?p')"
      "mset (leaves p) = {#s#} + mset (leaves ?p')" using sib(3,4) by (cases sib; simp)+
    moreover have "i \<in> set (ids ?p')" by simp
    ultimately show ?thesis using True k(3) sib(1) by (simp add: Node release_child_def Let_def)
  next
    case False
    let ?p' = "Node i t sp h v pf (erase_at k cs)"
    have "2 \<le> length (erase_at k cs)" using False t(3) k(1) by (simp add: Node)
    then have wf': "tree_wf ?p'" "erase_at k cs \<noteq> []"
      using wf t(1) set_erase_at_subset [of k cs] by (auto simp: Node)
    have ms: "mset (ids p) = {#nid#} + mset (ids ?p')" "mset (leaves p) = {#s#} + mset (leaves ?p')"
      using flat_children_erase [where g = "\<lambda>i s. [i]" and k = k and cs = cs]
        flat_children_erase [where g = "\<lambda>i s. case s of Some x \<Rightarrow> [x] | None \<Rightarrow> []" and k = k and cs = cs]
        k(1) lf t(2) by (simp_all add: Node)
    have in_p': "node_id c \<in> set (ids ?p')" if "c \<in> set (erase_at k cs)" for c
      using that by force
    show ?thesis
    proof (cases "node_id (last cs) = nid")
      case True
      then show ?thesis using False k(3) wf' ms in_p' [OF last_in_set [OF wf'(2)]]
        by (simp add: Node release_child_def Let_def)
    next
      case nlast: False
      then have "k \<noteq> length cs - 1" using k(1,2) t(3) by (cases "cs = []") (auto simp: Node last_conv_nth)
      then have "k + 1 < length cs" using k(1) by (auto simp: Node)
      then have "cs ! (k + 1) \<in> set (erase_at k cs)"
        by (auto simp: erase_at_def in_set_conv_nth intro!: disjI2 exI [of _ 0])
      from in_p' [OF this] show ?thesis using False nlast k(3) wf' ms
        by (simp add: Node release_child_def Let_def)
    qed
  qed
qed

lemma Node_releaseSplit_ok:
  assumes ok: "split_tree_ok root" and n: "get_node nid root = Some n" "n_type n = SplitNode" "n_split n = Some s"
  shows "\<exists>root' pos. Node_releaseSplit nid root = Inr (root', pos) \<and> split_tree_ok root' \<and>
    node_id root' = node_id root \<and> mset (leaves root) = {#s#} + mset (leaves root') \<and>
    set (ids root') \<subseteq> set (ids root) \<and>
    (case fst pos of None \<Rightarrow> is_empty_root root' | Some q \<Rightarrow> q \<in> set (ids root'))"
proof -
  have d: "distinct (ids root)" using ok by (simp add: split_tree_ok_def)
  have wf: "tree_wf root"
    using ok n by (cases root) (auto simp: split_tree_ok_def is_empty_root_def split: if_splits)
  from parents_in [OF get_node_ids [OF n(1)] d] obtain ps where ps: "parents nid root = Some ps"
    "ps = [] \<longleftrightarrow> node_id root = nid"
    "\<And>p qs. ps = p # qs \<Longrightarrow> get_node (node_id p) root = Some p \<and> nid \<in> set (map node_id (n_children p))"
    by blast
  show ?thesis
  proof (cases ps)
    case Nil
    with ps(2) n(1) have "root = n" by (cases root) auto
    then show ?thesis using n ps(1) Nil wf
      by (cases root) (auto simp: Node_releaseSplit_def split_tree_ok_def is_empty_root_def)
  next
    case (Cons p qs)
    from ps(3) [OF Cons] have p: "get_node (node_id p) root = Some p"
      "nid \<in> set (map node_id (n_children p))" by auto
    from first_index_id [OF p(2)] obtain k where k: "first_index (\<lambda>n. node_id n = nid) (n_children p) = Some k"
      "k < length (n_children p)" "node_id (n_children p ! k) = nid" .
    have c: "n_children p ! k = n"
      using get_node_trans [OF p(1) d get_node_child [OF distinct_subnode [OF p(1) d] nth_mem [OF k(2)]]] k(3) n(1)
      by simp
    from release_child_ok [OF get_node_wf [OF wf p(1)] k(2,3,1)] n(2,3) c
    obtain p' q dir M where r: "release_child nid p = Inr (p', (Some q, dir))" "tree_wf p'" "node_id p' = node_id p"
      "mset (leaves p) = {#s#} + mset (leaves p')" "mset (ids p) = M + mset (ids p')" "q \<in> set (ids p')" by auto
    let ?root' = "replace_node (node_id p) p' root"
    have l: "mset (leaves root) = {#s#} + mset (leaves ?root')" and m: "mset (ids root) = M + mset (ids ?root')"
      by (rule replace_node_sub [OF p(1) d r(4)]) (rule replace_node_sub [OF p(1) d r(5)])
    obtain N where N: "mset (ids ?root') = N + mset (ids p')"
    proof -
      obtain A B where "ids ?root' = A @ ids p' @ B" using flat_replaceE [OF p(1) d, of "\<lambda>i s. [i]"] by blast
      then have "mset (ids ?root') = (mset A + mset B) + mset (ids p')" by simp
      then show thesis by (rule that)
    qed
    have sub: "set (ids ?root') \<subseteq> set (ids root)" "q \<in> set (ids ?root')"
      using arg_cong [OF m, of set_mset] arg_cong [OF N, of set_mset] r(6) by auto
    obtain L where "mset L = M" using ex_mset by blast
    with m have "mset (ids root) = mset (L @ ids ?root')" by simp
    from mset_eq_imp_distinct_iff [OF this] d have "distinct (ids ?root')" by simp
    then have "split_tree_ok ?root'" by (simp add: split_tree_ok_def wf_replace_node wf r(2))
    moreover have "node_id ?root' = node_id root" using r(3) by (rule node_id_replace)
    moreover have "Node_releaseSplit nid root = Inr (?root', (Some q, dir))"
      using r(1) Cons ps(1) n by (simp add: Node_releaseSplit_def)
    ultimately show ?thesis
      using l sub by (intro exI [of _ ?root'] exI [of _ "(Some q, dir)"]) simp
  qed
qed

end
