(* ===== verification/SplitTreeDrag.thy ===== *)
theory SplitTreeDrag
  imports SplitTree
begin

text \<open>
  Releasing a split and inserting it again at the position \<open>releaseSplit\<close> returned: the shape of the
  tree is restored when no container lies directly in a container of the same orientation.  The
  layout pass in between changes flex factors only, which \<open>bare\<close> forgets.
\<close>

section \<open>Shapes\<close>

datatype 's shape = Shape NodeType "'s option" "'s shape list"

fun skeleton :: "('s, 'q) Node \<Rightarrow> 's shape" where
  "skeleton (Node i t s h v p cs) = Shape t s (map skeleton cs)"

fun bare :: "('s, 'q) Node \<Rightarrow> ('s, nat) Node" where
  "bare (Node i t s h v p cs) = Node i t s 1 1 None (map bare cs)"

definition is_container :: "NodeType \<Rightarrow> bool" where
  "is_container t \<longleftrightarrow> t = VerticalContainer \<or> t = HorizontalContainer"

fun tidy :: "('s, 'q) Node \<Rightarrow> bool" where
  "tidy (Node i t s h v p cs) = (\<forall>c\<in>set cs. tidy c \<and> (is_container (n_type c) \<longrightarrow> n_type c \<noteq> t))"

lemma skeleton_bare [simp]: "skeleton (bare t) = skeleton t"
  by (induction t) auto

lemma bare_skeleton_eq: "bare t = bare t' \<Longrightarrow> skeleton t = skeleton t'"
  by (metis skeleton_bare)

lemma bare_fields [simp]:
  "node_id (bare t) = node_id t" "n_type (bare t) = n_type t" "n_split (bare t) = n_split t"
  "n_children (bare t) = map bare (n_children t)"
  by (cases t; simp)+

lemma bare_layout [simp]: "bare (node_layout e z t) = bare t"
proof -
  have n: "bare (normalize_flex b x y (clamp t)) = bare t" "bare (clamp t) = bare t" for b x y and t :: "('a, 'b) Node"
    by (cases t; simp add: normalize_flex_def clamp_def)+
  show ?thesis by (induction t) (auto simp: n Let_def)
qed

lemma get_node_bare: "get_node nid (bare t) = map_option bare (get_node nid t)"
proof (induction t)
  case (Node i t s h v p cs)
  then have "first_some (map (get_node nid) (map bare cs)) = map_option bare (first_some (map (get_node nid) cs))"
    by (induction cs) (simp_all split: option.split)
  then show ?case by simp
qed

lemma parents_bare: "parents nid (bare t) = map_option (map bare) (parents nid t)"
proof (induction t)
  case (Node i t s h v p cs)
  then have "first_some (map (parents nid) (map bare cs)) = map_option (map bare) (first_some (map (parents nid) cs))"
    by (induction cs) (simp_all split: option.split)
  then show ?case by (simp add: option.map_comp o_def)
qed

lemma replace_node_bare: "replace_node nid (bare n) (bare t) = bare (replace_node nid n t)"
  by (induction t) auto

lemma first_index_map: "first_index P (map f xs) = first_index (\<lambda>x. P (f x)) xs"
  by (induction xs) auto

lemma bare_Node_split [simp]: "bare (Node_split f s) = Node_split f s"
  by (simp add: Node_split_def)

lemma insertNextToThis_bare:
  "insertNextToThis nid s d f (bare p) = map_sum id bare (insertNextToThis nid s d f p)"
  by (cases p; cases "first_index (\<lambda>n. node_id n = nid) (n_children p)")
    (simp_all add: insertNextToThis_def first_index_map set_children_def map_insert_at
      Node_split_def Let_def del: first_index_None)

lemma nestSplitIntoCollection_bare:
  "nestSplitIntoCollection s d f (bare t) = map_sum id bare (nestSplitIntoCollection s d f t)"
  by (cases t) (auto simp: nestSplitIntoCollection_def Let_def insertNextToThis_bare [symmetric])

lemma bind_map_sum: "bind_sum (map_sum id f r) g = bind_sum r (\<lambda>x. g (f x))"
  by (cases r) auto

lemma map_sum_bind: "map_sum id f (bind_sum r g) = bind_sum r (\<lambda>x. map_sum id f (g x))"
  by (cases r) auto

lemma insertSplitRelative_bare:
  "insertSplitRelative nid s d f (bare t) = map_sum id bare (insertSplitRelative nid s d f t)"
proof (cases "parents nid t")
  case (Some ps)
  show ?thesis
  proof (cases ps)
    case Nil
    have "setSplit s (bare t) = map_sum id bare (setSplit s t)"
      by (cases t) (simp add: setSplit_def)
    with Some Nil show ?thesis
      by (simp add: insertSplitRelative_def parents_bare nestSplitIntoCollection_bare split: NodeType.splits)
  next
    case (Cons p qs)
    with Some show ?thesis
      by (auto simp: insertSplitRelative_def parents_bare get_node_bare insertNextToThis_bare
          nestSplitIntoCollection_bare bind_map_sum map_sum_bind replace_node_bare split: option.splits)
  qed
qed (simp add: insertSplitRelative_def parents_bare)

section \<open>Replacing twice\<close>

lemma get_replaced:
  assumes "nid \<in> set (ids t)" "distinct (ids t)" "node_id n = nid"
  shows "get_node nid (replace_node nid n t) = Some n"
    and "replace_node nid m (replace_node nid n t) = replace_node nid m t"
    and "map_option (map n_type) (parents nid (replace_node nid n t)) = map_option (map n_type) (parents nid t)"
proof -
  have in_n: "nid \<in> set (ids n)" using assms(3) node_id_in_ids [of n] by simp
  have "get_node nid (replace_node nid n t) = Some n \<and> replace_node nid m (replace_node nid n t) = replace_node nid m t \<and>
      nid \<in> set (ids (replace_node nid n t)) \<and>
      map_option (map n_type) (parents nid (replace_node nid n t)) = map_option (map n_type) (parents nid t)"
    using assms(1,2)
  proof (induction rule: tree_path_induct)
    case (here t)
    then show ?case using assms(3) in_n by (cases t; cases n) auto
  next
    case (below i t s h v p as c bs)
    let ?c = "replace_node nid n c"
    have c: "nid \<in> set (ids ?c)" "get_node nid ?c = Some n" "replace_node nid m ?c = replace_node nid m c"
      "map_option (map n_type) (parents nid ?c) = map_option (map n_type) (parents nid c)"
      using below(5) by auto
    note ps = path_simps [OF below(1,4) below(2)] path_simps [OF below(1,4) c(1)]
    have "parents nid ?c = None \<longleftrightarrow> parents nid c = None"
      using c(4) by (metis option.map_disc_iff)
    then have "map_option (map n_type) (map_option (\<lambda>ps. ps @ [x]) (parents nid ?c)) =
        map_option (map n_type) (map_option (\<lambda>ps. ps @ [y]) (parents nid c))"
      if "n_type x = n_type y" for x y :: "('a, 'b) Node"
      using c(4) that by (cases "parents nid ?c"; cases "parents nid c") auto
    then show ?case unfolding ps using c by simp
  qed
  then show "get_node nid (replace_node nid n t) = Some n"
    "replace_node nid m (replace_node nid n t) = replace_node nid m t"
    "map_option (map n_type) (parents nid (replace_node nid n t)) = map_option (map n_type) (parents nid t)"
    by blast+
qed

lemma parents_child:
  assumes "get_node b t = Some r" "distinct (ids t)" "q \<in> set (map node_id (n_children r))"
  shows "\<exists>qs. parents q t = Some (r # qs)"
proof -
  from assms(1) have "b \<in> set (ids t)" by (rule get_node_ids)
  from this assms(2) have "get_node b t = Some r \<longrightarrow> (\<exists>qs. parents q t = Some (r # qs))"
  proof (induction rule: tree_path_induct)
    case (here t)
    show ?case
    proof (cases t)
      case (Node i ty s h v p cs)
      have "\<exists>qs. parents q t = Some (t # qs)" if q: "q \<in> set (map node_id cs)"
      proof -
        from q obtain c where c: "c \<in> set cs" "q = node_id c" by auto
        then obtain as bs where cs: "cs = as @ c # bs" by (auto simp: in_set_conv_decomp)
        have b: "q \<in> set (ids c)" using c(2) by simp
        then have "i \<noteq> q" "\<forall>x\<in>set as \<union> set bs. q \<notin> set (ids x)"
          using here(2) unfolding Node cs by auto
        from path_simps(3) [OF this b] show ?thesis
          unfolding Node cs using c(2) by (cases c) simp
      qed
      with assms(3) here show ?thesis by (auto simp: Node)
    qed
  next
    case (below i t s h v p as c bs)
    have "\<exists>qs. parents q (Node i t s h v p (as @ c # bs)) = Some (r # qs)" if g: "get_node b c = Some r"
    proof -
      from below(5) g obtain qs where qs: "parents q c = Some (r # qs)" by blast
      then have q: "q \<in> set (ids c)" using outside_tree(2) [of q c] by auto
      then have "i \<noteq> q" "\<forall>x\<in>set as \<union> set bs. q \<notin> set (ids x)" using below(3) by auto
      from path_simps(3) [OF this q] qs show ?thesis by simp
    qed
    moreover have "get_node b (Node i t s h v p (as @ c # bs)) = get_node b c"
      unfolding path_simps(2) [OF below(1,4,2)] by (cases "get_node b c") simp_all
    ultimately show ?case by argo
  qed
  with assms(1) show ?thesis by blast
qed

lemma skeleton_replace:
  assumes "get_node nid t = Some n" "distinct (ids t)" "skeleton n' = skeleton n"
  shows "skeleton (replace_node nid n' t) = skeleton t"
proof -
  from assms(1) have "nid \<in> set (ids t)" by (rule get_node_ids)
  from this assms(2) have "get_node nid t = Some n \<longrightarrow> skeleton (replace_node nid n' t) = skeleton t"
  proof (induction rule: tree_path_induct)
    case (here t)
    then show ?case using assms(3) by (cases t) auto
  next
    case (below i t s h v p as c bs)
    then show ?case using path_simps(1,2) [OF below(1,4,2)]
      by (simp del: get_node.simps replace_node.simps split: option.splits)
  qed
  with assms(1) show ?thesis by blast
qed

lemma tidy_subnode: "tidy t \<Longrightarrow> get_node nid t = Some n \<Longrightarrow> tidy n"
  by (induction t) (auto split: if_splits dest: first_some_SomeD)

section \<open>Release and insert\<close>

lemma distinct_node_ids: "distinct (concat (map ids cs)) \<Longrightarrow> distinct (map node_id cs)"
proof (induction cs)
  case (Cons c cs)
  then have "node_id c \<noteq> node_id d" if "d \<in> set cs" for d
    using that node_id_in_ids [of c] node_id_in_ids [of d] by fastforce
  with Cons show ?case by auto
qed simp

lemma first_index_node:
  assumes "distinct (map node_id xs)" "j < length xs"
  shows "first_index (\<lambda>n. node_id n = node_id (xs ! j)) xs = Some j"
  using assms unfolding first_index_Some_iff
  by (auto simp: distinct_conv_nth)

text \<open>Three or more siblings: the split goes back next to its neighbour.\<close>

lemma release_insert_siblings:
  assumes p: "p = Node i t sp h v pf cs" "is_container t" "distinct (ids p)" "length cs > 2"
    and k: "k < length cs" "node_id (cs ! k) = nid" "skeleton (cs ! k) = Shape SplitNode (Some s) []"
    and r: "release_child nid p = Inr (p', (Some q, dir))"
  shows "\<exists>p''. p' = Node i t sp h v pf (erase_at k cs) \<and> q \<in> set (map node_id (n_children p')) \<and>
    toContainerType dir = t \<and> insertNextToThis q s dir fresh p' = Inr p'' \<and> skeleton p'' = skeleton p"
proof -
  let ?cs = "erase_at k cs"
  have d: "distinct (map node_id cs)" using p(3) distinct_node_ids by (auto simp: p(1))
  have d': "distinct (map node_id ?cs)"
    using d set_take_disj_set_drop_if_distinct [OF d, of k "Suc k"]
    by (auto simp: erase_at_def take_map [symmetric] drop_map [symmetric])
  have fi: "first_index (\<lambda>n. node_id n = nid) cs = Some k"
    using first_index_node [OF d k(1)] k(2) by simp
  have "length ?cs = length cs - 1" using k(1) by simp
  then have ne: "?cs \<noteq> []" using p(4) by auto
  have sk: "map skeleton (insert_at k (Node_split fresh s) ?cs) = map skeleton cs"
  proof -
    have "map skeleton (insert_at k (Node_split fresh s) ?cs) = insert_at k (skeleton (cs ! k)) (erase_at k (map skeleton cs))"
      by (simp add: map_insert_at map_erase_at Node_split_def k(3))
    also have "\<dots> = map skeleton cs" using k(1) by (simp add: insert_erase_at map_update [symmetric])
    finally show ?thesis .
  qed
  show ?thesis
  proof (cases "k = length cs - 1")
    case True
    then have last: "node_id (last cs) = nid" using k(2) p(4) by (cases "cs = []") (auto simp: last_conv_nth)
    have q: "p' = Node i t sp h v pf ?cs" "q = node_id (last ?cs)" "dir = (if t = VerticalContainer then Below else Right)"
      using r last fi p(4) ne by (auto simp: p(1) release_child_def Let_def)
    have "last ?cs = ?cs ! (k - 1)" using ne k(1) True by (simp add: last_conv_nth)
    moreover have "k - 1 < length ?cs" using True p(4) k(1) by simp
    ultimately have "first_index (\<lambda>n. node_id n = q) ?cs = Some (k - 1)"
      using first_index_node [OF d', of "k - 1"] q(2) by simp
    moreover have "Suc (k - 1) = k" using True p(4) by simp
    ultimately show ?thesis using q ne sk p(2)
      by (auto simp: insertNextToThis_def set_children_def p(1) is_container_def toContainerType_def)
  next
    case False
    then have k1: "k + 1 < length cs" using k(1) by simp
    have last: "node_id (last cs) \<noteq> nid"
    proof -
      have "last cs = cs ! (length cs - 1)" using p(4) by (cases "cs = []") (auto simp: last_conv_nth)
      then show ?thesis using d False k(1,2) by (auto simp: distinct_conv_nth)
    qed
    have q: "p' = Node i t sp h v pf ?cs" "q = node_id (cs ! (k + 1))" "dir = (if t = VerticalContainer then Above else Left)"
      using r last fi p(4) by (auto simp: p(1) release_child_def Let_def)
    have "cs ! (k + 1) = ?cs ! k" "k < length ?cs" using k1 by (auto simp: erase_at_def nth_append)
    then have "first_index (\<lambda>n. node_id n = q) ?cs = Some k" "q \<in> set (map node_id ?cs)"
      using first_index_node [OF d', of k] q(2) by auto
    then show ?thesis using q sk p(2)
      by (auto simp: insertNextToThis_def set_children_def p(1) is_container_def toContainerType_def)
  qed
qed

text \<open>Two siblings: the parent has become the other one and nests it again.\<close>

lemma release_insert_pair:
  assumes p: "p = Node i t sp h v pf cs" "is_container t" "length cs = 2" "tidy p" "sp = None" "tree_wf p"
    and d: "distinct (map node_id cs)"
    and k: "k < length cs" "node_id (cs ! k) = nid" "skeleton (cs ! k) = Shape SplitNode (Some s) []"
    and r: "release_child nid p = Inr (p', (Some q, dir))"
  shows "\<exists>p''. q = i \<and> node_id p' = i \<and> toContainerType dir = t \<and> n_type p' \<noteq> t \<and> n_type p' \<noteq> EmptyRoot \<and>
    nestSplitIntoCollection s dir fresh p' = Inr p'' \<and> skeleton p'' = skeleton p"
proof -
  have fi: "first_index (\<lambda>n. node_id n = nid) cs = Some k"
    using first_index_node [OF d k(1)] k(2) by simp
  obtain a b where cs: "cs = [a, b]" using p(3) by (auto simp: length_2_conv)
  show ?thesis
  proof (cases "k = 0")
    case True
    have "n_type b \<noteq> t" "n_type b \<noteq> EmptyRoot" using p(2,4,6)
      by (auto simp: p(1) cs is_container_def) (cases b; auto)+
    then show ?thesis
      using r fi p(2,5) k(3) True
      by (cases b) (auto simp: p(1) cs release_child_def Let_def nestSplitIntoCollection_def insertNextToThis_def
          is_container_def toContainerType_def set_children_def Node_split_def)
  next
    case False
    then have k1: "k = 1" using k(1) p(3) by simp
    have "n_type a \<noteq> t" "n_type a \<noteq> EmptyRoot" using p(2,4,6)
      by (auto simp: p(1) cs is_container_def) (cases a; auto)+
    then show ?thesis
      using r fi p(2,5) k(3) k1
      by (cases a) (auto simp: p(1) cs release_child_def Let_def nestSplitIntoCollection_def insertNextToThis_def
          is_container_def toContainerType_def set_children_def Node_split_def)
  qed
qed


lemma tree_wf_container:
  "tree_wf p \<Longrightarrow> n_children p \<noteq> [] \<Longrightarrow> is_container (n_type p) \<and> n_split p = None \<and> 2 \<le> length (n_children p)"
  by (cases p) (auto simp: is_container_def split: NodeType.splits)

lemma tree_wf_leaf_skeleton:
  "tree_wf n \<Longrightarrow> n_type n = SplitNode \<Longrightarrow> n_split n = Some s \<Longrightarrow> skeleton n = Shape SplitNode (Some s) []"
  by (cases n) auto

lemma release_insert_tidy:
  assumes ok: "split_tree_ok root" "tidy root"
    and n: "get_node nid root = Some n" "n_type n = SplitNode" "n_split n = Some s"
    and r: "Node_releaseSplit nid root = Inr (root1, (Some q, dir))"
  shows "\<exists>root2. insertSplitRelative q s dir fresh root1 = Inr root2 \<and> skeleton root2 = skeleton root"
proof -
  have d: "distinct (ids root)" using ok by (simp add: split_tree_ok_def)
  have wf: "tree_wf root"
    using ok n by (cases root) (auto simp: split_tree_ok_def is_empty_root_def split: if_splits)
  have d1: "distinct (ids root1)" using Node_releaseSplit_ok [OF ok(1) n] r by (auto simp: split_tree_ok_def)
  from parents_in [OF get_node_ids [OF n(1)] d] obtain ps where ps: "parents nid root = Some ps"
    "\<And>p qs. ps = p # qs \<Longrightarrow> get_node (node_id p) root = Some p \<and> nid \<in> set (map node_id (n_children p))" by blast
  obtain p qs where p: "ps = p # qs"
    using r ps(1) n by (cases ps; cases root) (auto simp: Node_releaseSplit_def split: if_splits)
  from ps(2) [OF p] have gp: "get_node (node_id p) root = Some p"
    and np: "nid \<in> set (map node_id (n_children p))" by auto
  note wfp = get_node_wf [OF wf gp] and dp = distinct_subnode [OF gp d] and tp = tidy_subnode [OF ok(2) gp]
  from first_index_id [OF np] obtain k where k: "k < length (n_children p)" "node_id (n_children p ! k) = nid" .
  have c: "n_children p ! k = n"
    using get_node_trans [OF gp d get_node_child [OF dp nth_mem [OF k(1)]]] k(2) n(1) by simp
  have leaf: "skeleton (n_children p ! k) = Shape SplitNode (Some s) []"
    unfolding c using tree_wf_leaf_skeleton [OF get_node_wf [OF wf n(1)] n(2,3)] .
  obtain i t sp h v pf cs where P: "p = Node i t sp h v pf cs" by (cases p)
  have con: "is_container t" "sp = None" "2 \<le> length cs"
    using tree_wf_container [OF wfp] k(1) by (cases "cs = []"; simp add: P)+
  from r ps(1) p n obtain p' where p': "release_child nid p = Inr (p', (Some q, dir))"
    "root1 = replace_node i p' root"
    by (auto simp: Node_releaseSplit_def bind_sum_eq_Inr P)
  note k' = k [unfolded P Node.sel] leaf [unfolded P Node.sel]
  have gi: "i \<in> set (ids root)" using get_node_ids [OF gp] by (simp add: P)
  have skel: "skeleton (replace_node i p'' root) = skeleton root" if "skeleton p'' = skeleton p" for p''
    using skeleton_replace [OF gp d that] by (simp add: P)
  show ?thesis
  proof (cases "length cs = 2")
    case False
    with con(3) have "length cs > 2" by simp
    from release_insert_siblings [OF P con(1) dp this k' p'(1), of fresh] obtain p'' where
      q: "p' = Node i t sp h v pf (erase_at k cs)" "q \<in> set (map node_id (n_children p'))" "toContainerType dir = t"
        "insertNextToThis q s dir fresh p' = Inr p''" "skeleton p'' = skeleton p" by blast
    have ip: "node_id p' = i" by (simp add: q(1))
    note rep = get_replaced [OF gi d ip]
    from parents_child [of i root1, OF _ d1 q(2)] rep(1) obtain rs where "parents q root1 = Some (p' # rs)"
      by (auto simp: p'(2))
    then have "insertSplitRelative q s dir fresh root1 = Inr (replace_node i p'' root1)"
      using q(3,4) ip by (simp add: insertSplitRelative_def) (simp add: q(1))
    with skel [OF q(5)] rep(2) show ?thesis by (simp add: p'(2))
  next
    case True
    have "distinct (map node_id cs)" using dp distinct_node_ids by (auto simp: P)
    from release_insert_pair [OF P con(1) True tp con(2) wfp this k' p'(1), of fresh] obtain p'' where
      q: "q = i" "node_id p' = i" "toContainerType dir = t" "n_type p' \<noteq> t" "n_type p' \<noteq> EmptyRoot"
        "nestSplitIntoCollection s dir fresh p' = Inr p''" "skeleton p'' = skeleton p" by blast
    note rep = get_replaced [OF gi d q(2)]
    from parents_in [OF gi d] obtain gs where gs: "parents i root = Some gs" "gs = [] \<longleftrightarrow> node_id root = i"
      "\<And>g hs. gs = g # hs \<Longrightarrow> get_node (node_id g) root = Some g \<and> i \<in> set (map node_id (n_children g))" by blast
    from rep(3) gs(1) obtain gs1 where gs1: "parents i root1 = Some gs1" "map n_type gs1 = map n_type gs"
      by (auto simp: p'(2))
    have res: "insertSplitRelative q s dir fresh root1 = Inr (replace_node i p'' root1)"
    proof (cases gs)
      case Nil
      then have "root1 = p'" using gs(2) by (cases root) (simp add: p'(2))
      then have "replace_node i p'' root1 = p''" using q(2) by (cases p') auto
      then show ?thesis using gs1 Nil q \<open>root1 = p'\<close>
        by (simp add: insertSplitRelative_def split: NodeType.splits)
    next
      case (Cons g hs)
      from gs(3) [OF Cons] have g: "get_node (node_id g) root = Some g" "i \<in> set (map node_id (n_children g))" by auto
      from g(2) obtain c where c: "c \<in> set (n_children g)" "node_id c = i" by auto
      have "c = p" using get_node_trans [OF g(1) d get_node_child [OF distinct_subnode [OF g(1) d] c(1)]] c(2) gp
        by (simp add: P)
      with tidy_subnode [OF ok(2) g(1)] c(1) con(1) have "n_type g \<noteq> t" by (cases g) (auto simp: P)
      moreover obtain g1 hs1 where "gs1 = g1 # hs1" "n_type g1 = n_type g" using gs1(2) Cons by (cases gs1) auto
      ultimately show ?thesis using gs1(1) q rep(1) by (simp add: insertSplitRelative_def p'(2))
    qed
    with skel [OF q(7)] rep(2) show ?thesis by (simp add: p'(2))
  qed
qed

text \<open>The layout pass between the two does not matter.\<close>

lemma insertSplitRelative_laid_out:
  assumes "insertSplitRelative nid s d f t = Inr t'"
  shows "\<exists>t''. insertSplitRelative nid s d f (node_layout e z t) = Inr t'' \<and> skeleton t'' = skeleton t'"
proof -
  have "map_sum id bare (insertSplitRelative nid s d f (node_layout e z t)) = map_sum id bare (insertSplitRelative nid s d f t)"
    unfolding insertSplitRelative_bare [symmetric] by simp
  with assms show ?thesis
    by (cases "insertSplitRelative nid s d f (node_layout e z t)") (auto dest: bare_skeleton_eq)
qed


end
