(* ===== verification/SplitContainer.thy ===== *)
theory SplitContainer
  imports Complex_Main SplitTreeDrag
begin

text \<open>
  A tab of splits (\<open>widgets/splits/SplitContainer.cpp\<close>): the tree of its splits, the list of splits
  that painting and titles use, the selected split and the split at the top right, which shows the
  window buttons.  The calls to \<open>setFocus\<close> are recorded; the focus signal that Qt sends later is the
  operation \<open>setSelected\<close>.  Titles, drop rectangles and resize handles are widgets and left out.
\<close>

section \<open>State\<close>

record 'q flex_consts =
  flex_eps :: 'q
  flex_ofSize :: "nat \<Rightarrow> 'q"

record ('s, 'q) SplitContainer =
  baseNode :: "('s, 'q) Node"
  c_splits :: "'s list"
  c_selected :: "'s option"
  c_topRight :: "'s option"
  isTopRightSplit :: "'s set"
  disableLayouting :: bool
  connectionsPerSplit :: "'s set"
  focus_requests :: "'s list"
  fresh_id :: nat

definition SplitContainer :: "nat \<Rightarrow> ('s, 'q::one) SplitContainer" where
  "SplitContainer i = \<lparr>baseNode = Node_empty i, c_splits = [], c_selected = None, c_topRight = None,
     isTopRightSplit = {}, disableLayouting = False, connectionsPerSplit = {}, focus_requests = [],
     fresh_id = Suc i\<rparr>"

record 's InsertOptions =
  io_position :: "Position option"
  io_relativeSplit :: "'s option"
  io_relativeNode :: "nat option"
  io_direction :: "SplitDirection option"

definition no_options :: "'s InsertOptions" where
  "no_options = \<lparr>io_position = None, io_relativeSplit = None, io_relativeNode = None, io_direction = None\<rparr>"

section \<open>Operations\<close>

definition c_layout ::
  "'q flex_consts \<Rightarrow> ('s, 'q::{zero, one, plus, times, inverse, ord}) SplitContainer \<Rightarrow> ('s, 'q) SplitContainer" where
  "c_layout fc c =
     (if disableLayouting c then c
      else
        let topRight = getTopRightSplit (baseNode c);
            flags = (case c_topRight c of Some s \<Rightarrow> isTopRightSplit c - {s} | None \<Rightarrow> isTopRightSplit c);
            flags = (case topRight of Some s \<Rightarrow> insert s flags | None \<Rightarrow> flags)
        in c\<lparr>c_topRight := topRight, isTopRightSplit := flags,
             baseNode := node_layout (flex_eps fc) (flex_ofSize fc) (baseNode c)\<rparr>)"

definition setFocus :: "'s option \<Rightarrow> ('s, 'q) SplitContainer \<Rightarrow> ('s, 'q) SplitContainer" where
  "setFocus s c = (case s of None \<Rightarrow> c | Some x \<Rightarrow> c\<lparr>focus_requests := focus_requests c @ [x]\<rparr>)"

definition addSplit ::
  "'q flex_consts \<Rightarrow> 's \<Rightarrow> ('s, 'q::{zero, one, plus, times, inverse, ord}) SplitContainer \<Rightarrow> ('s, 'q) SplitContainer" where
  "addSplit fc split c =
     (let c = setFocus (Some split) c;
          c = c\<lparr>c_splits := c_splits c @ [split]\<rparr>;
          c = c\<lparr>connectionsPerSplit := insert split (connectionsPerSplit c)\<rparr>
      in c_layout fc c)"

definition insertSplit ::
  "'q flex_consts \<Rightarrow> 's \<Rightarrow> 's InsertOptions \<Rightarrow> ('s, 'q::{zero, one, plus, times, inverse, ord}) SplitContainer \<Rightarrow>
    split_fault + ('s, 'q) SplitContainer" where
  "insertSplit fc split options c =
     bind_sum
       (case io_position options of
          None \<Rightarrow> Inr options
        | Some position \<Rightarrow>
            if io_relativeSplit options = None \<and> io_relativeNode options = None \<and> io_direction options = None
            then Inr (options\<lparr>io_relativeNode := fst position, io_direction := Some (snd position)\<rparr>)
            else Inl AssertFailed)
     (\<lambda>options. bind_sum
       (case io_relativeSplit options of
          None \<Rightarrow> Inr (io_relativeNode options)
        | Some s \<Rightarrow>
            if io_relativeNode options \<noteq> None then Inl AssertFailed
            else (case findNodeContainingSplit (Some s) (baseNode c) of
                None \<Rightarrow> Inl AssertFailed
              | Some node \<Rightarrow> Inr (Some (node_id node))))
     (\<lambda>relativeTo.
       let direction = (case io_direction options of Some d \<Rightarrow> d | None \<Rightarrow> Right) in
       bind_sum
         (case relativeTo of
            None \<Rightarrow>
              (case n_type (baseNode c) of
                 EmptyRoot \<Rightarrow> setSplit split (baseNode c)
               | SplitNode \<Rightarrow> nestSplitIntoCollection split direction (fresh_id c) (baseNode c)
               | _ \<Rightarrow> insertSplitRelative (node_id (baseNode c)) split direction (fresh_id c) (baseNode c))
          | Some node \<Rightarrow>
              if isOrContainsNode node (baseNode c)
              then insertSplitRelative node split direction (fresh_id c) (baseNode c)
              else Inl AssertFailed)
       (\<lambda>base. Inr (addSplit fc split (c\<lparr>baseNode := base, fresh_id := fresh_id c + 2\<rparr>)))))"

definition getSelectedSplit :: "('s, 'q) SplitContainer \<Rightarrow> 's option" where
  "getSelectedSplit c =
     (case c_selected c of None \<Rightarrow> None | Some s \<Rightarrow> if s \<in> set (c_splits c) then Some s else None)"

definition setSelected ::
  "'s option \<Rightarrow> ('s, 'q) SplitContainer \<Rightarrow> split_fault + ('s, 'q) SplitContainer" where
  "setSelected split c =
     (case split of
        None \<Rightarrow> Inr c
      | Some s \<Rightarrow>
          if s \<notin> set (c_splits c) then Inr c
          else
            let c = c\<lparr>c_selected := Some s\<rparr> in
            (case findNodeContainingSplit (Some s) (baseNode c) of
               None \<Rightarrow> Inr c
             | Some node \<Rightarrow> bind_sum (focusSplitRecursive node) (\<lambda>f.
                 let c = setFocus f c in
                 (case parents (node_id node) (baseNode c) of
                    None \<Rightarrow> Inr c
                  | Some ps \<Rightarrow> Inr (c\<lparr>baseNode :=
                      setPreferedTargetRecursive (node_id node) (map node_id ps) (baseNode c)\<rparr>)))))"

definition releaseSplit ::
  "'q flex_consts \<Rightarrow> 's \<Rightarrow> ('s, 'q::{zero, one, plus, times, inverse, ord}) SplitContainer \<Rightarrow>
    split_fault + ('s, 'q) SplitContainer \<times> Position" where
  "releaseSplit fc split c =
     (case findNodeContainingSplit (Some split) (baseNode c) of
        None \<Rightarrow> Inl AssertFailed
      | Some node \<Rightarrow>
          if split \<notin> set (c_splits c) then Inl EraseEnd
          else
            let c = c\<lparr>c_splits := remove1 split (c_splits c)\<rparr> in
            bind_sum (Node_releaseSplit (node_id node) (baseNode c)) (\<lambda>(base, position).
            let c = c_layout fc (c\<lparr>baseNode := base\<rparr>) in
            bind_sum
              (case c_splits c of
                 [] \<Rightarrow> setSelected None c
               | front # _ \<Rightarrow> Inr (setFocus (Some front) c))
            (\<lambda>c. if split \<notin> connectionsPerSplit c then Inl EraseEnd
                  else Inr (c\<lparr>connectionsPerSplit := connectionsPerSplit c - {split}\<rparr>, position))))"

definition selectNextSplit ::
  "SplitDirection \<Rightarrow> ('s, 'q) SplitContainer \<Rightarrow> split_fault + ('s, 'q) SplitContainer" where
  "selectNextSplit dir c =
     (case findNodeContainingSplit (c_selected c) (baseNode c) of
        None \<Rightarrow> Inr c
      | Some node \<Rightarrow>
          (case parents (node_id node) (baseNode c) of
             None \<Rightarrow> Inr c
           | Some ps \<Rightarrow> bind_sum (selectSplitRecursive (node_id node) ps dir) (\<lambda>f. Inr (setFocus f c))))"

text \<open>A split dragged and dropped nowhere goes back to its position (\<open>Split::drag\<close>).\<close>

definition drag_cancelled ::
  "'q flex_consts \<Rightarrow> 's \<Rightarrow> ('s, 'q::{zero, one, plus, times, inverse, ord}) SplitContainer \<Rightarrow>
    split_fault + ('s, 'q) SplitContainer" where
  "drag_cancelled fc split c =
     bind_sum (releaseSplit fc split c) (\<lambda>(c, originalLocation).
       insertSplit fc split (no_options\<lparr>io_position := Some originalLocation\<rparr>) c)"

section \<open>What the layout pass and the focus leave alone\<close>

lemma flat_bare: "flat g (bare t) = flat g t"
  by (induction t) (simp add: o_def cong: map_cong)

lemma wf_bare: "tree_wf (bare t) = tree_wf t"
  by (induction t) (auto split: NodeType.splits)

lemma top_right_bare: "getTopRightSplit (bare t) = getTopRightSplit t"
proof (induction t)
  case (Node i t s h v p cs)
  then have m: "map (getTopRightSplit \<circ> bare) cs = map getTopRightSplit cs" by simp
  show ?case unfolding bare.simps getTopRightSplit.simps list.map_comp m by (simp split: NodeType.split)
qed

lemma empty_root_bare: "is_empty_root (bare t) = is_empty_root t"
  by (simp add: is_empty_root_def)

lemmas bare_transfer = flat_bare wf_bare top_right_bare empty_root_bare

lemma same_bare:
  assumes "bare t = bare t'"
  shows "flat g t = flat g t'" "tree_wf t = tree_wf t'" "getTopRightSplit t = getTopRightSplit t'"
    "is_empty_root t = is_empty_root t'" "split_tree_ok t = split_tree_ok t'"
proof -
  have f: "flat g t = flat g t'" for g :: "nat \<Rightarrow> 'a option \<Rightarrow> 'x list"
    using flat_bare [of g t] flat_bare [of g t'] assms by simp
  have w: "tree_wf t = tree_wf t'" "is_empty_root t = is_empty_root t'"
    using wf_bare [of t] wf_bare [of t'] empty_root_bare [of t] empty_root_bare [of t'] assms by simp_all
  show "flat g t = flat g t'" "tree_wf t = tree_wf t'" "is_empty_root t = is_empty_root t'" by (rule f w)+
  show "getTopRightSplit t = getTopRightSplit t'"
    using top_right_bare [of t] top_right_bare [of t'] assms by simp
  show "split_tree_ok t = split_tree_ok t'"
    using w flat_bare [of "\<lambda>i s. [i]" t] flat_bare [of "\<lambda>i s. [i]" t'] assms by (simp add: split_tree_ok_def)
qed

lemma bare_prefered:
  "distinct (ids rt) \<Longrightarrow> bare (setPreferedTargetRecursive nid ps rt) = bare rt"
proof (induction nid ps rt rule: setPreferedTargetRecursive.induct)
  case (2 nid pid ps rt)
  show ?case
  proof (cases "get_node pid rt")
    case None
    with 2 show ?thesis by simp
  next
    case (Some parent)
    let ?r = "replace_node pid (set_prefered nid parent) rt"
    have "bare (set_prefered nid parent) = bare parent" by (cases parent) (simp add: set_prefered_def)
    then have "bare ?r = bare (replace_node pid parent rt)"
      by (simp only: replace_node_bare [symmetric])
    then have b: "bare ?r = bare rt" using flat_replace_node(1) [OF Some 2(2)] by simp
    then have "distinct (ids ?r)" using same_bare(1) [OF b, of "\<lambda>i s. [i]"] 2(2) by simp
    with 2(1) Some b show ?thesis by simp
  qed
qed simp

lemma focus_total: "tree_wf t \<Longrightarrow> \<exists>s\<in>set (leaves t). focusSplitRecursive t = Inr (Some s)"
proof (induction t)
  case (Node i t s h v p cs)
  show ?case
  proof (cases "t = SplitNode")
    case True
    with Node.prems show ?thesis by auto
  next
    case False
    with Node.prems have cs: "is_container t" "cs \<noteq> []" "\<forall>c\<in>set cs. tree_wf c"
      by (auto simp: is_container_def split: NodeType.splits)
    have sub: "\<exists>s\<in>set (leaves (Node i t s h v p cs)). focusSplitRecursive (cs ! k) = Inr (Some s)"
      if "k < length cs" for k
    proof -
      from Node.IH [of "cs ! k"] cs(3) that obtain x where "x \<in> set (leaves (cs ! k))"
        "focusSplitRecursive (cs ! k) = Inr (Some x)" by fastforce
      with that show ?thesis by (intro bexI [of _ x]) (auto intro: nth_mem)
    qed
    show ?thesis
    proof (cases "first_index (\<lambda>n. p = Some (node_id n)) cs")
      case None
      with cs sub [of 0] show ?thesis by (auto simp: is_container_def hd_conv_nth simp del: flat.simps first_index_None)
    next
      case (Some k)
      with first_index_SomeD(1) [OF Some] cs sub [of k] show ?thesis
        by (auto simp: is_container_def simp del: flat.simps)
    qed
  qed
qed

text \<open>The parents of a node form a chain up to the root.\<close>

fun up_chain :: "nat \<Rightarrow> ('s, 'q) Node list \<Rightarrow> nat \<Rightarrow> bool" where
  "up_chain nid [] x = (nid = x)"
| "up_chain nid (p # ps) x = (nid \<in> set (map node_id (n_children p)) \<and> tree_wf p \<and> up_chain (node_id p) ps x)"

lemma up_chain_snoc:
  "up_chain nid ps x \<Longrightarrow> x \<in> set (map node_id (n_children q)) \<Longrightarrow> tree_wf q \<Longrightarrow> up_chain nid (ps @ [q]) (node_id q)"
  by (induction nid ps x rule: up_chain.induct) auto

lemma parents_chain:
  assumes "nid \<in> set (ids t)" "distinct (ids t)" "tree_wf t"
  shows "\<exists>ps. parents nid t = Some ps \<and> up_chain nid ps (node_id t)"
proof -
  from assms(1,2) have "tree_wf t \<longrightarrow> (\<exists>ps. parents nid t = Some ps \<and> up_chain nid ps (node_id t))"
  proof (induction rule: tree_path_induct)
    case (here t)
    then show ?case by (cases t) auto
  next
    case (below i t s h v p as c bs)
    let ?t = "Node i t s h v p (as @ c # bs)"
    have "\<exists>ps. parents nid ?t = Some ps \<and> up_chain nid ps (node_id ?t)" if wf: "tree_wf ?t"
    proof -
      from wf have "tree_wf c" by simp
      with below(5) obtain ps where ps: "parents nid c = Some ps" "up_chain nid ps (node_id c)" by blast
      from up_chain_snoc [OF ps(2), of ?t] wf have "up_chain nid (ps @ [?t]) (node_id ?t)" by auto
      moreover have "parents nid ?t = Some (ps @ [?t])" using path_simps(3) [OF below(1,4,2)] ps(1) by simp
      ultimately show ?thesis by blast
    qed
    then show ?case by blast
  qed
  with assms(3) show ?thesis by blast
qed

lemma select_total:
  "up_chain nid ps x \<Longrightarrow> \<exists>f. selectSplitRecursive nid ps dir = Inr f"
proof (induction nid ps dir rule: selectSplitRecursive.induct)
  case (2 nid parent ps dir)
  then have p: "nid \<in> set (map node_id (n_children parent))" "tree_wf parent" "up_chain (node_id parent) ps x"
    by auto
  from first_index_id [OF p(1)] obtain k where
    k: "first_index (\<lambda>n. node_id n = nid) (n_children parent) = Some k" "k < length (n_children parent)" .
  have foc: "\<exists>f. focusSplitRecursive (n_children parent ! j) = Inr f" if "j < length (n_children parent)" for j
    using p(2) that focus_total [of "n_children parent ! j"] by (cases parent) fastforce
  have "k + 1 < length (n_children parent)" if "node_id (n_children parent ! k) \<noteq> node_id (last (n_children parent))"
  proof -
    have "n_children parent \<noteq> []" using k(2) by auto
    with that have "k \<noteq> length (n_children parent) - 1" by (auto simp: last_conv_nth)
    with k(2) show ?thesis by linarith
  qed
  then have right: "node_id (n_children parent ! k) \<noteq> node_id (last (n_children parent)) \<Longrightarrow>
      \<exists>f. focusSplitRecursive (n_children parent ! (k + 1)) = Inr f" using foc by blast
  have left: "\<exists>f. focusSplitRecursive (n_children parent ! (k - 1)) = Inr f" using foc k(2) by simp
  show ?case
  proof (cases "n_type parent = toContainerType dir")
    case True
    then show ?thesis using k(1) 2(1,2) [OF True k(1)] p(3) left right
      by (cases "dir = Left \<or> dir = Above") auto
  next
    case False
    with 2(3) p(3) show ?thesis by simp
  qed
qed simp

section \<open>The invariant of a tab\<close>

text \<open>
  The tree is well-formed and holds exactly the splits of the list, each once; every split has its
  connections; exactly the top right split knows that it is.
\<close>

definition container_ok :: "('s, 'q) SplitContainer \<Rightarrow> bool" where
  "container_ok c \<longleftrightarrow> split_tree_ok (baseNode c) \<and> (\<forall>i\<in>set (ids (baseNode c)). i < fresh_id c) \<and>
     distinct (c_splits c) \<and> mset (leaves (baseNode c)) = mset (c_splits c) \<and>
     connectionsPerSplit c = set (c_splits c) \<and> c_topRight c = getTopRightSplit (baseNode c) \<and>
     isTopRightSplit c = set_option (c_topRight c) \<and> \<not> disableLayouting c"

lemma container_ok_new: "container_ok (SplitContainer i)"
  by (simp add: container_ok_def SplitContainer_def Node_empty_def split_tree_ok_def is_empty_root_def)

lemma c_layout_fields [simp]:
  "c_splits (c_layout fc c) = c_splits c" "connectionsPerSplit (c_layout fc c) = connectionsPerSplit c"
  "fresh_id (c_layout fc c) = fresh_id c" "disableLayouting (c_layout fc c) = disableLayouting c"
  "c_selected (c_layout fc c) = c_selected c" "bare (baseNode (c_layout fc c)) = bare (baseNode c)"
  by (simp_all add: c_layout_def Let_def)

lemma setFocus_fields [simp]:
  "baseNode (setFocus s c) = baseNode c" "c_splits (setFocus s c) = c_splits c"
  "connectionsPerSplit (setFocus s c) = connectionsPerSplit c" "fresh_id (setFocus s c) = fresh_id c"
  "disableLayouting (setFocus s c) = disableLayouting c" "c_topRight (setFocus s c) = c_topRight c"
  "isTopRightSplit (setFocus s c) = isTopRightSplit c" "c_selected (setFocus s c) = c_selected c"
  by (cases s; simp add: setFocus_def)+

text \<open>After a layout pass the flags of the top right split are right, if they were before.\<close>

lemma container_ok_layout:
  assumes "split_tree_ok (baseNode c)" "\<forall>i\<in>set (ids (baseNode c)). i < fresh_id c"
    and "distinct (c_splits c)" "mset (leaves (baseNode c)) = mset (c_splits c)"
    and "connectionsPerSplit c = set (c_splits c)" "isTopRightSplit c = set_option (c_topRight c)"
    and "\<not> disableLayouting c"
  shows "container_ok (c_layout fc c)"
proof -
  have b: "bare (node_layout (flex_eps fc) (flex_ofSize fc) (baseNode c)) = bare (baseNode c)" by simp
  show ?thesis
    using assms unfolding container_ok_def
    by (auto simp: c_layout_def Let_def same_bare [OF b] split: option.splits)
qed

lemma container_ok_bare:
  assumes "container_ok c" "bare b = bare (baseNode c)"
  shows "container_ok (c\<lparr>baseNode := b\<rparr>)"
  using assms(1) same_bare(3,5) [OF assms(2)] same_bare(1) [OF assms(2), of "\<lambda>i s. [i]"]
    same_bare(1) [OF assms(2), of "\<lambda>i s. case s of Some x \<Rightarrow> [x] | None \<Rightarrow> []"]
  by (simp add: container_ok_def)

lemma container_ok_focus [simp]: "container_ok (setFocus s c) = container_ok c"
  by (simp add: container_ok_def)

lemma container_ok_selected [simp]: "container_ok (c\<lparr>c_selected := s\<rparr>) = container_ok c"
  by (simp add: container_ok_def)

section \<open>Every operation succeeds and keeps the invariant\<close>

definition valid_options :: "('s, 'q) SplitContainer \<Rightarrow> 's InsertOptions \<Rightarrow> bool" where
  "valid_options c opts \<longleftrightarrow>
     (case io_position opts of
        Some pos \<Rightarrow> io_relativeSplit opts = None \<and> io_relativeNode opts = None \<and> io_direction opts = None \<and>
          (\<forall>q. fst pos = Some q \<longrightarrow> q \<in> set (ids (baseNode c)))
      | None \<Rightarrow>
          (\<forall>s. io_relativeSplit opts = Some s \<longrightarrow> s \<in> set (c_splits c) \<and> io_relativeNode opts = None) \<and>
          (\<forall>q. io_relativeNode opts = Some q \<longrightarrow> q \<in> set (ids (baseNode c))))"

lemma set_leaves: "container_ok c \<Longrightarrow> set (leaves (baseNode c)) = set (c_splits c)"
  by (metis container_ok_def set_mset_mset)

lemma container_wf: "container_ok c \<Longrightarrow> s \<in> set (c_splits c) \<Longrightarrow> tree_wf (baseNode c)"
  using set_leaves [of c] empty_root_leaves [of "baseNode c"]
  by (auto simp: container_ok_def split_tree_ok_def)

lemma held_split:
  assumes "container_ok c" "s \<in> set (c_splits c)"
  obtains n where "findNodeContainingSplit (Some s) (baseNode c) = Some n" "n_type n = SplitNode"
    "n_split n = Some s" "get_node (node_id n) (baseNode c) = Some n"
proof -
  have "s \<in> set (leaves (baseNode c))" using assms set_leaves by blast
  from findNode_of_leaf [OF container_wf [OF assms] this] obtain n
    where n: "findNodeContainingSplit (Some s) (baseNode c) = Some n" by blast
  have "distinct (ids (baseNode c))" using assms(1) by (simp add: container_ok_def split_tree_ok_def)
  from findNode_found [OF n this] n that show thesis by blast
qed

text \<open>Without a relative node the split is inserted relative to the root.\<close>

lemma insert_at_root:
  assumes "split_tree_ok t"
  shows "(case n_type t of
      EmptyRoot \<Rightarrow> setSplit split t
    | SplitNode \<Rightarrow> nestSplitIntoCollection split d f t
    | _ \<Rightarrow> insertSplitRelative (node_id t) split d f t) = insertSplitRelative (node_id t) split d f t"
  by (cases t) (auto simp: insertSplitRelative_def split: NodeType.splits)

definition resolved ::
  "('s, 'q) SplitContainer \<Rightarrow> 's InsertOptions \<Rightarrow> nat \<times> SplitDirection" where
  "resolved c opts =
     (case io_position opts of
        Some pos \<Rightarrow> (case fst pos of Some q \<Rightarrow> q | None \<Rightarrow> node_id (baseNode c), snd pos)
      | None \<Rightarrow>
          (case io_relativeSplit opts of
             Some s \<Rightarrow> node_id (the (findNodeContainingSplit (Some s) (baseNode c)))
           | None \<Rightarrow> (case io_relativeNode opts of Some q \<Rightarrow> q | None \<Rightarrow> node_id (baseNode c)),
           case io_direction opts of Some d \<Rightarrow> d | None \<Rightarrow> Right))"

lemma insertSplit_eq:
  assumes ok: "container_ok c" and v: "valid_options c opts"
  shows "fst (resolved c opts) \<in> set (ids (baseNode c))"
    and "insertSplit fc split opts c =
      bind_sum (insertSplitRelative (fst (resolved c opts)) split (snd (resolved c opts)) (fresh_id c) (baseNode c))
        (\<lambda>base. Inr (addSplit fc split (c\<lparr>baseNode := base, fresh_id := fresh_id c + 2\<rparr>)))"
proof -
  have t: "split_tree_ok (baseNode c)" using ok by (simp add: container_ok_def)
  have find: "\<exists>n. findNodeContainingSplit (Some s) (baseNode c) = Some n \<and> node_id n \<in> set (ids (baseNode c))"
    if "s \<in> set (c_splits c)" for s
    using held_split [OF ok that] get_node_ids by metis
  show "fst (resolved c opts) \<in> set (ids (baseNode c))"
    using v find by (fastforce simp: resolved_def valid_options_def split: option.splits)
  show "insertSplit fc split opts c =
      bind_sum (insertSplitRelative (fst (resolved c opts)) split (snd (resolved c opts)) (fresh_id c) (baseNode c))
        (\<lambda>base. Inr (addSplit fc split (c\<lparr>baseNode := base, fresh_id := fresh_id c + 2\<rparr>)))"
  proof (cases "io_position opts")
    case (Some pos)
    with v show ?thesis
      by (cases "fst pos") (auto simp: insertSplit_def resolved_def valid_options_def outside_tree(4)
          insert_at_root [OF t])
  next
    case None
    show ?thesis
    proof (cases "io_relativeSplit opts")
      case (Some s)
      with v None have "s \<in> set (c_splits c)" "io_relativeNode opts = None" by (auto simp: valid_options_def)
      with find [of s] None Some show ?thesis
        by (auto simp: insertSplit_def resolved_def outside_tree(4) Let_def)
    next
      case rs: None
      with v None show ?thesis
        by (cases "io_relativeNode opts") (auto simp: insertSplit_def resolved_def valid_options_def
            outside_tree(4) insert_at_root [OF t] Let_def)
    qed
  qed
qed

lemma insertSplit_ok:
  assumes ok: "container_ok c" and v: "valid_options c opts" and s: "split \<notin> set (c_splits c)"
  shows "\<exists>c'. insertSplit fc split opts c = Inr c' \<and> container_ok c' \<and> c_splits c' = c_splits c @ [split]"
proof -
  have t: "split_tree_ok (baseNode c)" using ok by (simp add: container_ok_def)
  from insertSplitRelative_ok [OF t insertSplit_eq(1) [OF ok v], of split "snd (resolved c opts)" "fresh_id c"]
  obtain b where b: "insertSplitRelative (fst (resolved c opts)) split (snd (resolved c opts)) (fresh_id c)
      (baseNode c) = Inr b" "inserted split (fresh_id c) (baseNode c) b" by blast
  let ?c = "c\<lparr>baseNode := b, fresh_id := fresh_id c + 2\<rparr>"
  have fr: "fresh_id c \<notin> set (ids (baseNode c))" "Suc (fresh_id c) \<notin> set (ids (baseNode c))"
    using ok by (auto simp: container_ok_def)
  note it = inserted_ok [OF b(2) t fr]
  have "\<forall>i\<in>set (ids b). i < fresh_id c + 2"
    using it(3) ok by (force simp: container_ok_def)
  then have "container_ok (addSplit fc split ?c)"
    unfolding addSplit_def Let_def
    by (intro container_ok_layout) (use it(1) ok s b(2) in \<open>auto simp: container_ok_def inserted_def\<close>)
  moreover have "c_splits (addSplit fc split ?c) = c_splits c @ [split]" by (simp add: addSplit_def Let_def)
  ultimately show ?thesis using b(1) insertSplit_eq(2) [OF ok v] by simp
qed

lemma releaseSplit_ok:
  assumes ok: "container_ok c" and s: "split \<in> set (c_splits c)"
  shows "\<exists>c' pos. releaseSplit fc split c = Inr (c', pos) \<and> container_ok c' \<and>
    c_splits c' = remove1 split (c_splits c) \<and> (\<forall>q. fst pos = Some q \<longrightarrow> q \<in> set (ids (baseNode c')))"
proof -
  have t: "split_tree_ok (baseNode c)" using ok by (simp add: container_ok_def)
  from held_split [OF ok s] obtain n where n: "findNodeContainingSplit (Some split) (baseNode c) = Some n"
    "n_type n = SplitNode" "n_split n = Some split" "get_node (node_id n) (baseNode c) = Some n" .
  from Node_releaseSplit_ok [OF t n(4,2,3)] obtain b pos where
    b: "Node_releaseSplit (node_id n) (baseNode c) = Inr (b, pos)" "split_tree_ok b"
      "mset (leaves (baseNode c)) = {#split#} + mset (leaves b)" "set (ids b) \<subseteq> set (ids (baseNode c))"
    and pos: "case fst pos of None \<Rightarrow> is_empty_root b | Some q \<Rightarrow> q \<in> set (ids b)" by auto
  let ?c1 = "c\<lparr>c_splits := remove1 split (c_splits c), connectionsPerSplit := connectionsPerSplit c - {split},
    baseNode := b\<rparr>"
  have "mset (c_splits c) = add_mset split (mset (leaves b))"
    using b(3) ok by (simp add: container_ok_def)
  then have ms: "mset (leaves b) = mset (remove1 split (c_splits c))" by simp
  have ok1: "container_ok (c_layout fc ?c1)"
    by (rule container_ok_layout) (use ok b(2,4) ms in \<open>auto simp: container_ok_def set_remove1_eq\<close>)
  let ?c2 = "c_layout fc (c\<lparr>c_splits := remove1 split (c_splits c), baseNode := b\<rparr>)"
  have lay: "?c2\<lparr>connectionsPerSplit := connectionsPerSplit c - {split}\<rparr> = c_layout fc ?c1"
    by (cases "c_topRight c"; cases "getTopRightSplit b") (simp_all add: c_layout_def Let_def)
  let ?c3 = "case remove1 split (c_splits c) of [] \<Rightarrow> ?c2 | x # _ \<Rightarrow> setFocus (Some x) ?c2"
  have conn: "connectionsPerSplit ?c3 = connectionsPerSplit c" "split \<in> connectionsPerSplit c"
    using ok s by (auto simp: container_ok_def split: list.splits)
  let ?c' = "?c3\<lparr>connectionsPerSplit := connectionsPerSplit c - {split}\<rparr>"
  have r: "releaseSplit fc split c = Inr (?c', pos)"
    using n(1) s b(1) conn by (auto simp: releaseSplit_def Let_def setSelected_def split: list.splits)
  have "?c' = (case remove1 split (c_splits c) of [] \<Rightarrow> c_layout fc ?c1 | x # _ \<Rightarrow> setFocus (Some x) (c_layout fc ?c1))"
    unfolding lay [symmetric] by (auto simp: setFocus_def split: list.splits)
  then have ok': "container_ok ?c'" and b': "bare (baseNode ?c') = bare b" "c_splits ?c' = remove1 split (c_splits c)"
    using ok1 by (auto split: list.splits)
  have "\<forall>q. fst pos = Some q \<longrightarrow> q \<in> set (ids (baseNode ?c'))"
    using pos same_bare(1) [OF b'(1), of "\<lambda>i s. [i]"] by auto
  with r ok' b'(2) show ?thesis by blast
qed

lemma setSelected_ok:
  assumes ok: "container_ok c"
  shows "\<exists>c'. setSelected x c = Inr c' \<and> container_ok c' \<and> c_splits c' = c_splits c \<and>
    (\<forall>s. x = Some s \<and> s \<in> set (c_splits c) \<longrightarrow> c_selected c' = Some s)"
proof (cases "\<exists>s. x = Some s \<and> s \<in> set (c_splits c)")
  case True
  then obtain s where s: "x = Some s" "s \<in> set (c_splits c)" by blast
  from held_split [OF ok s(2)] obtain n where n: "findNodeContainingSplit (Some s) (baseNode c) = Some n"
    "n_type n = SplitNode" "n_split n = Some s" "get_node (node_id n) (baseNode c) = Some n" .
  have d: "distinct (ids (baseNode c))" using ok by (simp add: container_ok_def split_tree_ok_def)
  from parents_in [OF get_node_ids [OF n(4)] d] obtain ps where
    ps: "parents (node_id n) (baseNode c) = Some ps" by blast
  have f: "focusSplitRecursive n = Inr (Some s)" using n(2,3) by (cases n) simp
  let ?b = "setPreferedTargetRecursive (node_id n) (map node_id ps) (baseNode c)"
  have "container_ok ((setFocus (Some s) (c\<lparr>c_selected := Some s\<rparr>))\<lparr>baseNode := ?b\<rparr>)"
    by (rule container_ok_bare) (use ok bare_prefered [OF d] in simp_all)
  then show ?thesis using s n(1) ps f by (simp add: setSelected_def)
next
  case False
  with ok show ?thesis by (cases x) (auto simp: setSelected_def)
qed

lemma selectNextSplit_ok:
  assumes ok: "container_ok c"
  shows "\<exists>c'. selectNextSplit dir c = Inr c' \<and> container_ok c' \<and> c_splits c' = c_splits c"
proof (cases "findNodeContainingSplit (c_selected c) (baseNode c)")
  case (Some n)
  have d: "distinct (ids (baseNode c))" and t: "split_tree_ok (baseNode c)"
    using ok by (simp_all add: container_ok_def split_tree_ok_def)
  from findNode_found [OF Some d] have n: "n_type n = SplitNode" "get_node (node_id n) (baseNode c) = Some n" by auto
  have "\<not> is_empty_root (baseNode c)"
    using Some by (cases "baseNode c") (auto simp: is_empty_root_def)
  with t have "tree_wf (baseNode c)" by (simp add: split_tree_ok_def)
  from parents_chain [OF get_node_ids [OF n(2)] d this] obtain ps where
    ps: "parents (node_id n) (baseNode c) = Some ps" "up_chain (node_id n) ps (node_id (baseNode c))" by blast
  from select_total [OF ps(2)] obtain f where "selectSplitRecursive (node_id n) ps dir = Inr f" by blast
  with Some ps(1) ok show ?thesis by (simp add: selectNextSplit_def)
qed (use ok in \<open>simp add: selectNextSplit_def\<close>)

lemma valid_position:
  "(\<forall>q. fst pos = Some q \<longrightarrow> q \<in> set (ids (baseNode c))) \<Longrightarrow>
    valid_options c (no_options\<lparr>io_position := Some pos\<rparr>)"
  by (simp add: valid_options_def no_options_def)

lemma drag_cancelled_ok:
  assumes ok: "container_ok c" and s: "split \<in> set (c_splits c)"
  shows "\<exists>c'. drag_cancelled fc split c = Inr c' \<and> container_ok c' \<and> mset (c_splits c') = mset (c_splits c)"
proof -
  from releaseSplit_ok [OF ok s] obtain c1 pos where r: "releaseSplit fc split c = Inr (c1, pos)"
    "container_ok c1" "c_splits c1 = remove1 split (c_splits c)"
    "\<forall>q. fst pos = Some q \<longrightarrow> q \<in> set (ids (baseNode c1))" by blast
  have "split \<notin> set (c_splits c1)" using ok r(3) by (simp add: container_ok_def set_remove1_eq)
  from insertSplit_ok [OF r(2) valid_position [OF r(4)] this, of fc] obtain c' where
    "insertSplit fc split (no_options\<lparr>io_position := Some pos\<rparr>) c1 = Inr c'" "container_ok c'"
    "c_splits c' = remove1 split (c_splits c) @ [split]" by (auto simp: r(3))
  with r(1) s show ?thesis by (simp add: drag_cancelled_def)
qed

section \<open>Runs\<close>

datatype 's container_op =
  InsertOp 's "'s InsertOptions"
| ReleaseOp 's
| CancelDragOp 's
| FocusOp "'s option"
| SelectNextOp SplitDirection

fun run_op ::
  "'q flex_consts \<Rightarrow> 's container_op \<Rightarrow> ('s, 'q::{zero, one, plus, times, inverse, ord}) SplitContainer \<Rightarrow>
    split_fault + ('s, 'q) SplitContainer" where
  "run_op fc (InsertOp s opts) c = insertSplit fc s opts c"
| "run_op fc (ReleaseOp s) c = bind_sum (releaseSplit fc s c) (\<lambda>(c, _). Inr c)"
| "run_op fc (CancelDragOp s) c = drag_cancelled fc s c"
| "run_op fc (FocusOp s) c = setSelected s c"
| "run_op fc (SelectNextOp dir) c = selectNextSplit dir c"

text \<open>Which calls the code makes: new splits are new, released splits and relative nodes are there.\<close>

fun valid_op :: "('s, 'q) SplitContainer \<Rightarrow> 's container_op \<Rightarrow> bool" where
  "valid_op c (InsertOp s opts) = (s \<notin> set (c_splits c) \<and> valid_options c opts)"
| "valid_op c (ReleaseOp s) = (s \<in> set (c_splits c))"
| "valid_op c (CancelDragOp s) = (s \<in> set (c_splits c))"
| "valid_op c (FocusOp s) = True"
| "valid_op c (SelectNextOp dir) = True"

fun op_effect :: "'s container_op \<Rightarrow> 's multiset \<Rightarrow> 's multiset" where
  "op_effect (InsertOp s opts) M = add_mset s M"
| "op_effect (ReleaseOp s) M = M - {#s#}"
| "op_effect (CancelDragOp s) M = M"
| "op_effect (FocusOp s) M = M"
| "op_effect (SelectNextOp dir) M = M"

lemma run_op_ok:
  assumes "container_ok c" "valid_op c oper"
  shows "\<exists>c'. run_op fc oper c = Inr c' \<and> container_ok c' \<and> mset (c_splits c') = op_effect oper (mset (c_splits c))"
proof (cases oper)
  case (InsertOp s opts)
  with assms insertSplit_ok [of c opts s fc] show ?thesis by auto
next
  case (ReleaseOp s)
  with assms releaseSplit_ok [of c s fc] show ?thesis by auto
next
  case (CancelDragOp s)
  with assms drag_cancelled_ok [of c s fc] show ?thesis by auto
next
  case (FocusOp s)
  with assms setSelected_ok [of c s] show ?thesis by auto
next
  case (SelectNextOp dir)
  with assms selectNextSplit_ok [of c dir] show ?thesis by auto
qed

lemma release_insert_position:
  assumes "split_tree_ok rt" "tidy rt" "get_node nid rt = Some n" "n_type n = SplitNode" "n_split n = Some s"
    and r: "Node_releaseSplit nid rt = Inr (b, pos)"
  shows "\<exists>t. insertSplitRelative (case fst pos of Some q \<Rightarrow> q | None \<Rightarrow> node_id b) s (snd pos) f b = Inr t \<and>
    skeleton t = skeleton rt"
proof (cases "fst pos")
  case (Some q)
  with release_insert_tidy [OF assms(1-5), of b q "snd pos" f] r show ?thesis
    by (cases pos) auto
next
  case None
  from Node_releaseSplit_ok [OF assms(1,3-5)] r None have e: "is_empty_root b" by auto
  have d: "distinct (ids rt)" using assms(1) by (simp add: split_tree_ok_def)
  from parents_in [OF get_node_ids [OF assms(3)] d] obtain ps where ps: "parents nid rt = Some ps"
    "ps = [] \<longleftrightarrow> node_id rt = nid" by blast
  have "ps = []"
  proof (cases ps)
    case (Cons p qs)
    with r ps(1) assms(3,4) None obtain p' where "release_child nid p = Inr (p', pos)"
      by (auto simp: Node_releaseSplit_def bind_sum_eq_Inr)
    with None show ?thesis by (cases p) (auto simp: release_child_def Let_def split: if_splits option.splits)
  qed
  with ps(2) assms(3) have "rt = n" by (cases rt) auto
  moreover have "tree_wf rt"
    using assms(1,4) \<open>rt = n\<close> by (auto simp: split_tree_ok_def is_empty_root_def)
  ultimately have "skeleton rt = Shape SplitNode (Some s) []"
    using tree_wf_leaf_skeleton assms(4,5) by auto
  moreover have "insertSplitRelative (node_id b) s (snd pos) f b = setSplit s b"
    using e by (cases b) (simp add: insertSplitRelative_def is_empty_root_def)
  ultimately show ?thesis using e None by (cases b) (simp add: setSplit_def is_empty_root_def)
qed

lemma releaseSplit_base:
  assumes "releaseSplit fc split c = Inr (c1, pos)" "findNodeContainingSplit (Some split) (baseNode c) = Some n"
    and "\<not> disableLayouting c"
  shows "\<exists>b. Node_releaseSplit (node_id n) (baseNode c) = Inr (b, pos) \<and>
    baseNode c1 = node_layout (flex_eps fc) (flex_ofSize fc) b"
  using assms
  by (auto simp: releaseSplit_def bind_sum_eq_Inr c_layout_def Let_def setSelected_def split: if_splits list.splits)

lemma addSplit_bare [simp]: "bare (baseNode (addSplit fc s c)) = bare (baseNode c)"
  by (simp add: addSplit_def Let_def)

lemma insert_at_position:
  assumes "container_ok c" "\<forall>q. fst pos = Some q \<longrightarrow> q \<in> set (ids (baseNode c))"
    and "insertSplitRelative (case fst pos of Some q \<Rightarrow> q | None \<Rightarrow> node_id (baseNode c)) s (snd pos) (fresh_id c)
      (baseNode c) = Inr t"
  shows "\<exists>c'. insertSplit fc s (no_options\<lparr>io_position := Some pos\<rparr>) c = Inr c' \<and> bare (baseNode c') = bare t"
  using insertSplit_eq(2) [OF assms(1) valid_position [OF assms(2)], of fc s] assms(3)
  by (simp add: resolved_def no_options_def)

section \<open>Properties\<close>

text \<open>
  C11. A cancelled drag restores the tab.  When no container lies directly in one of the same
  orientation, releasing a split and inserting it at the position \<open>releaseSplit\<close> returned gives the
  tree of before, with every split and container in its place.
\<close>

theorem drag_cancelled_restores:
  assumes ok: "container_ok c" and s: "split \<in> set (c_splits c)" and t: "tidy (baseNode c)"
  shows "\<exists>c'. drag_cancelled fc split c = Inr c' \<and> container_ok c' \<and>
    skeleton (baseNode c') = skeleton (baseNode c)"
proof -
  have tok: "split_tree_ok (baseNode c)" using ok by (simp add: container_ok_def)
  from held_split [OF ok s] obtain n where n: "findNodeContainingSplit (Some split) (baseNode c) = Some n"
    "n_type n = SplitNode" "n_split n = Some split" "get_node (node_id n) (baseNode c) = Some n" .
  from releaseSplit_ok [OF ok s] obtain c1 pos where r: "releaseSplit fc split c = Inr (c1, pos)"
    "container_ok c1" "\<forall>q. fst pos = Some q \<longrightarrow> q \<in> set (ids (baseNode c1))" by blast
  from drag_cancelled_ok [OF ok s] obtain c' where c': "drag_cancelled fc split c = Inr c'" "container_ok c'" by blast
  obtain b where b: "Node_releaseSplit (node_id n) (baseNode c) = Inr (b, pos)"
    "baseNode c1 = node_layout (flex_eps fc) (flex_ofSize fc) b"
    using releaseSplit_base [OF r(1) n(1)] ok by (auto simp: container_ok_def)
  from release_insert_position [OF tok t n(4,2,3) b(1), of "fresh_id c1"] obtain t1 where
    "insertSplitRelative (case fst pos of Some q \<Rightarrow> q | None \<Rightarrow> node_id b) split (snd pos) (fresh_id c1) b = Inr t1"
    and t1: "skeleton t1 = skeleton (baseNode c)" by blast
  from insertSplitRelative_laid_out [OF this(1), of "flex_eps fc" "flex_ofSize fc"] obtain t2 where
    t2: "insertSplitRelative (case fst pos of Some q \<Rightarrow> q | None \<Rightarrow> node_id b) split (snd pos) (fresh_id c1)
      (baseNode c1) = Inr t2" "skeleton t2 = skeleton t1" by (auto simp: b(2))
  have nid: "node_id b = node_id (baseNode c1)" unfolding b(2) by (cases b) (simp add: Let_def)
  from insert_at_position [OF r(2,3) t2(1) [unfolded nid], of fc] obtain c2 where
    "insertSplit fc split (no_options\<lparr>io_position := Some pos\<rparr>) c1 = Inr c2" "bare (baseNode c2) = bare t2" by auto
  with r(1) c' t1 t2(2) show ?thesis by (auto simp: drag_cancelled_def dest: bare_skeleton_eq)
qed

definition sample_consts :: "real flex_consts" where
  "sample_consts = \<lparr>flex_eps = 1 / 10000, flex_ofSize = real\<rparr>"

text \<open>A tab of four splits whose right half is a container of type \<open>t\<close> with three of them.\<close>

definition sample_tab :: "NodeType \<Rightarrow> (nat, real) SplitContainer" where
  "sample_tab t = \<lparr>baseNode = Node 0 HorizontalContainer None 1 1 None
       [Node_split 1 10, Node 2 t None 1 1 None [Node_split 3 11, Node_split 4 12, Node_split 5 13]],
     c_splits = [10, 11, 12, 13], c_selected = None,
     c_topRight = getTopRightSplit (Node 2 t None 1 (1::real) None [Node_split 3 11, Node_split 4 12, Node_split 5 13]),
     isTopRightSplit = {if t = VerticalContainer then 11 else 13}, disableLayouting = False,
     connectionsPerSplit = {10, 11, 12, 13}, focus_requests = [], fresh_id = 6\<rparr>"

lemma sample_tab_ok: "is_container t \<Longrightarrow> container_ok (sample_tab t)"
  by (auto simp: container_ok_def sample_tab_def Node_split_def split_tree_ok_def is_container_def)

theorem drag_cancelled_restores_witness:
  "\<exists>c'. drag_cancelled sample_consts 12 (sample_tab VerticalContainer) = Inr c' \<and>
    skeleton (baseNode c') = Shape HorizontalContainer None [Shape SplitNode (Some 10) [],
      Shape VerticalContainer None [Shape SplitNode (Some 11) [], Shape SplitNode (Some 12) [], Shape SplitNode (Some 13) []]]"
  using drag_cancelled_restores [OF sample_tab_ok [of VerticalContainer], of 12 sample_consts]
  by (auto simp: is_container_def sample_tab_def Node_split_def)

text \<open>
  A cancelled drag can move a split.  Releasing the other child of a vertical container can put
  a horizontal container directly into a horizontal one.  When the root is such a container with two
  children, its left split, dragged and dropped nowhere, comes back as the rightmost one:
  \<open>nestSplitIntoCollection\<close> appends to a container of the right orientation, whatever the side.
\<close>

theorem drag_cancelled_moves_split:
  assumes ok: "container_ok c" and rt: "n_type (baseNode c) = HorizontalContainer" "n_children (baseNode c) = [a, b]"
    and a: "n_type a = SplitNode" "n_split a = Some s" and b: "n_type b = HorizontalContainer"
  shows "\<exists>c'. drag_cancelled fc s c = Inr c' \<and> leaves (baseNode c) = s # leaves b \<and>
    leaves (baseNode c') = leaves b @ [s]"
proof -
  obtain i sp h v p where base: "baseNode c = Node i HorizontalContainer sp h v p [a, b]"
    using rt by (cases "baseNode c") auto
  have wf: "tree_wf (baseNode c)" and tok: "split_tree_ok (baseNode c)"
    using ok rt by (auto simp: container_ok_def split_tree_ok_def is_empty_root_def)
  then have ab: "tree_wf a" "tree_wf b" "sp = None" by (auto simp: base)
  obtain ia ha va pa where an: "a = Node ia SplitNode (Some s) ha va pa []"
    using a ab(1) by (cases a) auto
  obtain ib hb vb pb cs where bn: "b = Node ib HorizontalContainer None hb vb pb cs"
    using b ab(2) by (cases b) auto
  have l: "leaves (baseNode c) = s # leaves b" by (simp add: base an ab(3))
  have s: "s \<in> set (c_splits c)" using set_leaves [OF ok] l by auto
  have n: "findNodeContainingSplit (Some s) (baseNode c) = Some a" by (simp add: base an)
  have d: "i \<noteq> ia" "ia \<noteq> ib" using tok by (auto simp: split_tree_ok_def base an bn)
  have rel: "Node_releaseSplit (node_id a) (baseNode c) = Inr (Node i HorizontalContainer None h v p cs, (Some i, Left))"
    using d by (simp add: base an bn Node_releaseSplit_def release_child_def Let_def)
  from releaseSplit_ok [OF ok s] obtain c1 pos where r: "releaseSplit fc s c = Inr (c1, pos)"
    "container_ok c1" "\<forall>q. fst pos = Some q \<longrightarrow> q \<in> set (ids (baseNode c1))" by blast
  from releaseSplit_base [OF r(1) n] ok rel have pos: "pos = (Some i, Left)" and
    c1: "baseNode c1 = node_layout (flex_eps fc) (flex_ofSize fc) (Node i HorizontalContainer None h v p cs)"
    by (auto simp: container_ok_def)
  obtain cs' where cs': "baseNode c1 = Node i HorizontalContainer None h v p cs'"
    by (simp add: c1 Let_def)
  have "insertSplitRelative i s Left (fresh_id c1) (baseNode c1) =
      Inr (Node i HorizontalContainer None h v p (cs' @ [Node_split (fresh_id c1) s]))"
    by (simp add: cs' insertSplitRelative_def nestSplitIntoCollection_def toContainerType_def)
  with insert_at_position [OF r(2,3)] obtain c2 where
    "insertSplit fc s (no_options\<lparr>io_position := Some pos\<rparr>) c1 = Inr c2"
    and c2: "bare (baseNode c2) = bare (Node i HorizontalContainer None h v p (cs' @ [Node_split (fresh_id c1) s]))"
    unfolding pos by fastforce
  with r(1) have "drag_cancelled fc s c = Inr c2" by (simp add: drag_cancelled_def)
  moreover have "leaves (baseNode c2) = leaves (baseNode c1) @ [s]"
    using same_bare(1) [OF c2, of "\<lambda>i s. case s of Some x \<Rightarrow> [x] | None \<Rightarrow> []"]
    by (simp add: cs' Node_split_def)
  moreover have "bare (baseNode c1) = bare (Node i HorizontalContainer None h v p cs)" unfolding c1 by (rule bare_layout)
  then have "leaves (baseNode c1) = leaves b"
    using same_bare(1) [of "baseNode c1" "Node i HorizontalContainer None h v p cs"
        "\<lambda>i s. case s of Some x \<Rightarrow> [x] | None \<Rightarrow> []"] by (simp add: bn)
  ultimately show ?thesis using l by auto
qed

theorem drag_cancelled_moves_split_witness:
  "\<exists>c'. drag_cancelled sample_consts 10 (sample_tab HorizontalContainer) = Inr c' \<and>
    leaves (baseNode c') = [11, 12, 13, 10]"
  using drag_cancelled_moves_split [OF sample_tab_ok [of HorizontalContainer], of "Node_split 1 10"
      "Node 2 HorizontalContainer None 1 1 None [Node_split 3 11, Node_split 4 12, Node_split 5 13]" 10 sample_consts]
  by (auto simp: is_container_def sample_tab_def Node_split_def)


end
