(* ===== verification/WindowLayout.thy ===== *)
theory WindowLayout
  imports SplitContainer Channel
begin

text \<open>
  Saving and restoring tabs: the JSON of a tab (\<open>WindowManager::encodeTab\<close> and its helpers in
  \<open>singletons/WindowManager.cpp\<close>), the descriptors read from it (\<open>common/WindowDescriptors.cpp\<close>) and
  the tree built from a descriptor (\<open>SplitContainer::applyFromDescriptor\<close>).

  Qt's JSON classes are the parameter \<open>json_api\<close>, with the documented behaviour in \<open>json_laws\<close>;
  the channels of the Twitch server are the parameter \<open>channel_api\<close>.  The recursion over JSON values
  has fuel, the nesting depth of the value.
\<close>

section \<open>JSON values\<close>

record ('j, 'q, 'u) json_api =
  j_object :: 'j
  j_insert :: "'j \<Rightarrow> string \<Rightarrow> 'j \<Rightarrow> 'j"
  j_value :: "'j \<Rightarrow> string \<Rightarrow> 'j"
  j_contains :: "'j \<Rightarrow> string \<Rightarrow> bool"
  j_isEmpty :: "'j \<Rightarrow> bool"
  j_isUndefined :: "'j \<Rightarrow> bool"
  j_isString :: "'j \<Rightarrow> bool"
  j_equals :: "'j \<Rightarrow> string \<Rightarrow> bool"
  j_toObject :: "'j \<Rightarrow> 'j"
  j_toArray :: "'j \<Rightarrow> 'j list"
  j_toString :: "'j \<Rightarrow> string"
  j_toBool :: "'j \<Rightarrow> bool \<Rightarrow> bool"
  j_toInt :: "'j \<Rightarrow> int \<Rightarrow> int"
  j_toDouble :: "'j \<Rightarrow> 'q \<Rightarrow> 'q"
  j_array :: "'j list \<Rightarrow> 'j"
  j_string :: "string \<Rightarrow> 'j"
  j_bool :: "bool \<Rightarrow> 'j"
  j_double :: "'q \<Rightarrow> 'j"
  j_depth :: "'j \<Rightarrow> nat"
  u_toString :: "'u \<Rightarrow> string"
  u_fromString :: "string \<Rightarrow> 'u"

definition json_laws :: "('j, 'q, 'u) json_api \<Rightarrow> bool" where
  "json_laws J \<longleftrightarrow>
     (\<forall>ob k v k'. j_value J (j_insert J ob k v) k' = (if k = k' then v else j_value J ob k')) \<and>
     (\<forall>ob k v k'. j_contains J (j_insert J ob k v) k' = (k = k' \<or> j_contains J ob k')) \<and>
     (\<forall>ob k v. \<not> j_isEmpty J (j_insert J ob k v)) \<and>
     (\<forall>ob k v. j_toObject J (j_insert J ob k v) = j_insert J ob k v) \<and>
     (\<forall>k. \<not> j_contains J (j_object J) k) \<and>
     (\<forall>k. \<not> j_isString J (j_value J (j_object J) k)) \<and>
     (\<forall>k. j_toString J (j_value J (j_object J) k) = []) \<and>
     (\<forall>k d. j_toBool J (j_value J (j_object J) k) d = d) \<and>
     (\<forall>k d. j_toInt J (j_value J (j_object J) k) d = d) \<and>
     j_toObject J (j_object J) = j_object J \<and>
     (\<forall>s. j_toString J (j_string J s) = s \<and> j_isString J (j_string J s)) \<and>
     (\<forall>s t. j_equals J (j_string J s) t = (s = t)) \<and>
     (\<forall>b d. j_toBool J (j_bool J b) d = b) \<and>
     (\<forall>x d. j_toDouble J (j_double J x) d = x) \<and>
     (\<forall>xs. j_toArray J (j_array J xs) = xs \<and> \<not> j_isUndefined J (j_array J xs)) \<and>
     (\<forall>u. u_fromString J (u_toString J u) = u) \<and>
     (\<forall>v w. w \<in> set (j_toArray J v) \<longrightarrow> j_depth J w < j_depth J v) \<and>
     (\<forall>v. j_depth J (j_toObject J v) \<le> j_depth J v) \<and>
     (\<forall>v k. j_depth J (j_value J v k) \<le> j_depth J v)"

section \<open>Descriptors\<close>

record 'u SplitDescriptor =
  sd_type :: string
  sd_channelName :: string
  sd_server :: int
  sd_moderationMode :: bool
  sd_filters :: "'u list"

text \<open>\<open>std::variant<ContainerNodeDescriptor, SplitNodeDescriptor>\<close>; both begin with \<open>flexH_\<close> and \<open>flexV_\<close>.\<close>

datatype ('q, 'u) NodeDescriptor =
  ContainerNodeDescriptor (d_flexH: 'q) (d_flexV: 'q) (d_vertical: bool) (d_items: "('q, 'u) NodeDescriptor list")
| SplitNodeDescriptor (d_flexH: 'q) (d_flexV: 'q) (d_split: "'u SplitDescriptor")

record ('q, 'u) TabDescriptor =
  customTitle :: string
  tab_selected :: bool
  highlightsEnabled :: bool
  rootNode :: "('q, 'u) NodeDescriptor option"

datatype WindowType = Main | Popup | Attached

datatype WindowState = WindowNone | Minimized | Maximized

record ('q, 'u) WindowDescriptor =
  w_type :: WindowType
  w_state :: WindowState
  w_geometry :: "int \<times> int \<times> int \<times> int"
  w_tabs :: "('q, 'u) TabDescriptor list"

record ('q, 'u) WindowLayout =
  emotePopupBounds :: "int \<times> int \<times> int \<times> int"
  windows :: "('q, 'u) WindowDescriptor list"

section \<open>Reading\<close>

definition loadFilters :: "('j, 'q, 'u) json_api \<Rightarrow> 'j \<Rightarrow> 'u list" where
  "loadFilters J val =
     (if \<not> j_isUndefined J val then map (\<lambda>id. u_fromString J (j_toString J id)) (j_toArray J val) else [])"

definition SplitDescriptor_loadFromJSON :: "('j, 'q, 'u) json_api \<Rightarrow> 'j \<Rightarrow> 'j \<Rightarrow> 'u SplitDescriptor" where
  "SplitDescriptor_loadFromJSON J obj data =
     \<lparr>sd_type = j_toString J (j_value J data ''type''),
      sd_channelName =
        (if j_contains J data ''channel'' then j_toString J (j_value J data ''channel'')
         else j_toString J (j_value J data ''name'')),
      sd_server = j_toInt J (j_value J data ''server'') (-1),
      sd_moderationMode = j_toBool J (j_value J obj ''moderationMode'') False,
      sd_filters = loadFilters J (j_value J obj ''filters'')\<rparr>"

definition loadNodes_split :: "('j, 'q::one, 'u) json_api \<Rightarrow> 'j \<Rightarrow> ('q, 'u) NodeDescriptor" where
  "loadNodes_split J obj =
     SplitNodeDescriptor (j_toDouble J (j_value J obj ''flexh'') 1) (j_toDouble J (j_value J obj ''flexv'') 1)
       (SplitDescriptor_loadFromJSON J obj (j_toObject J (j_value J obj ''data'')))"

fun option_list :: "'a option list \<Rightarrow> 'a list option" where
  "option_list [] = Some []"
| "option_list (x # xs) =
     (case x of None \<Rightarrow> None | Some a \<Rightarrow> map_option (Cons a) (option_list xs))"

fun loadNodes_container ::
  "('j, 'q::one, 'u) json_api \<Rightarrow> nat \<Rightarrow> 'j \<Rightarrow> ('q, 'u) NodeDescriptor option" where
  "loadNodes_container J 0 obj = None"
| "loadNodes_container J (Suc n) obj =
     map_option
       (ContainerNodeDescriptor (j_toDouble J (j_value J obj ''flexh'') 1) (j_toDouble J (j_value J obj ''flexv'') 1)
          (j_toString J (j_value J obj ''type'') = ''vertical''))
       (option_list (map (\<lambda>v.
          let ob = j_toObject J v in
          if j_equals J (j_value J ob ''type'') ''split'' then Some (loadNodes_split J ob)
          else loadNodes_container J n ob) (j_toArray J (j_value J obj ''items''))))"

definition TabDescriptor_loadFromJSON ::
  "('j, 'q::one, 'u) json_api \<Rightarrow> 'j \<Rightarrow> ('q, 'u) TabDescriptor option" where
  "TabDescriptor_loadFromJSON J tabObj =
     (let titleVal = j_value J tabObj ''title'';
          splitRoot = j_toObject J (j_value J tabObj ''splits2'');
          nodeType = j_toString J (j_value J splitRoot ''type'');
          tab = \<lparr>customTitle = (if j_isString J titleVal then j_toString J titleVal else []),
            tab_selected = j_toBool J (j_value J tabObj ''selected'') False,
            highlightsEnabled = j_toBool J (j_value J tabObj ''highlightsEnabled'') True,
            rootNode = None\<rparr>
      in if \<not> j_isEmpty J splitRoot then
           if nodeType = ''split'' then Some (tab\<lparr>rootNode := Some (loadNodes_split J splitRoot)\<rparr>)
           else if nodeType = ''horizontal'' \<or> nodeType = ''vertical'' then
             map_option (\<lambda>r. tab\<lparr>rootNode := Some r\<rparr>)
               (loadNodes_container J (Suc (j_depth J splitRoot)) splitRoot)
           else Some tab
         else Some tab)"

section \<open>Reading windows\<close>

definition load_type :: "('j, 'q, 'u) json_api \<Rightarrow> 'j \<Rightarrow> bool \<Rightarrow> WindowType \<times> bool" where
  "load_type J windowObj hasSetAMainWindow =
     (let type = (if j_toString J (j_value J windowObj ''type'') = ''main'' then Main else Popup) in
      if type = Main then (if hasSetAMainWindow then Popup else type, True)
      else (type, hasSetAMainWindow))"

fun load_tabs ::
  "('j, 'q::one, 'u) json_api \<Rightarrow> bool \<Rightarrow> 'j list \<Rightarrow> ('q, 'u) TabDescriptor list option" where
  "load_tabs J hasSetASelectedTab [] = Some []"
| "load_tabs J hasSetASelectedTab (tabVal # tabs) =
     (case TabDescriptor_loadFromJSON J (j_toObject J tabVal) of
        None \<Rightarrow> None
      | Some tab \<Rightarrow>
          if tab_selected tab then
            map_option (Cons (if hasSetASelectedTab then tab\<lparr>tab_selected := False\<rparr> else tab))
              (load_tabs J True tabs)
          else map_option (Cons tab) (load_tabs J hasSetASelectedTab tabs))"

definition load_rect :: "('j, 'q, 'u) json_api \<Rightarrow> 'j \<Rightarrow> int \<Rightarrow> int \<times> int \<times> int \<times> int" where
  "load_rect J ob d = (j_toInt J (j_value J ob ''x'') d, j_toInt J (j_value J ob ''y'') d,
     j_toInt J (j_value J ob ''width'') d, j_toInt J (j_value J ob ''height'') d)"

definition load_window ::
  "('j, 'q::one, 'u) json_api \<Rightarrow> 'j \<Rightarrow> bool \<Rightarrow> (('q, 'u) WindowDescriptor \<times> bool) option" where
  "load_window J windowObj hasSetAMainWindow =
     (let (type, hasSetAMainWindow) = load_type J windowObj hasSetAMainWindow;
          state = (if j_equals J (j_value J windowObj ''state'') ''minimized'' then Minimized
                   else if j_equals J (j_value J windowObj ''state'') ''maximized'' then Maximized
                   else WindowNone)
      in map_option (\<lambda>tabs. (\<lparr>w_type = type, w_state = state, w_geometry = load_rect J windowObj (-1),
              w_tabs = tabs\<rparr>, hasSetAMainWindow))
           (load_tabs J False (j_toArray J (j_value J windowObj ''tabs''))))"

fun load_windows ::
  "('j, 'q::one, 'u) json_api \<Rightarrow> bool \<Rightarrow> 'j list \<Rightarrow> ('q, 'u) WindowLayout \<Rightarrow> ('q, 'u) WindowLayout option" where
  "load_windows J hasSetAMainWindow [] layout = Some layout"
| "load_windows J hasSetAMainWindow (windowVal # vals) layout =
     (let windowObj = j_toObject J windowVal in
      case load_window J windowObj hasSetAMainWindow of
        None \<Rightarrow> None
      | Some (window, hasSetAMainWindow) \<Rightarrow>
          load_windows J hasSetAMainWindow vals
            (layout\<lparr>emotePopupBounds := load_rect J (j_toObject J (j_value J windowObj ''emotePopup'')) 0,
                windows := windows layout @ [window]\<rparr>))"

text \<open>The array \<open>windows\<close> of the file; a default \<open>QRect\<close> has size 0.\<close>

definition loadFromFile :: "('j, 'q::one, 'u) json_api \<Rightarrow> 'j list \<Rightarrow> ('q, 'u) WindowLayout option" where
  "loadFromFile J vals = load_windows J False vals \<lparr>emotePopupBounds = (0, 0, 0, 0), windows = []\<rparr>"

section \<open>Activating a channel\<close>

text \<open>The recursive visitor: the score and whether the channel was found.\<close>

fun visit_node :: "string \<Rightarrow> ('q, 'u) NodeDescriptor \<Rightarrow> nat \<times> bool \<Rightarrow> nat \<times> bool" where
  "visit_node spec (SplitNodeDescriptor h v sd) (score, hasChannel) =
     (let score = score + 2 in
      if sd_channelName sd = spec then (if sd_filters sd \<noteq> [] then score + 1 else score, True)
      else (score, hasChannel))"
| "visit_node spec (ContainerNodeDescriptor h v vert items) st = fold (visit_node spec) items st"

definition new_split_node :: "string \<Rightarrow> ('q::one, 'u) NodeDescriptor" where
  "new_split_node name = SplitNodeDescriptor 1 1 \<lparr>sd_type = ''twitch'', sd_channelName = name, sd_server = -1,
     sd_moderationMode = False, sd_filters = []\<rparr>"

definition new_selected_tab :: "string \<Rightarrow> ('q::one, 'u) TabDescriptor" where
  "new_selected_tab name = \<lparr>customTitle = [], tab_selected = True, highlightsEnabled = True,
     rootNode = Some (new_split_node name)\<rparr>"

text \<open>The loop over the tabs of the main window; \<open>best\<close> is the index of \<open>bestTab\<close> with its score.\<close>

fun best_tab_loop ::
  "string \<Rightarrow> nat \<Rightarrow> ('q, 'u) TabDescriptor list \<Rightarrow> (nat \<times> nat) option \<Rightarrow> (nat \<times> nat) option" where
  "best_tab_loop name i [] best = best"
| "best_tab_loop name i (tab # tabs) best =
     (case rootNode tab of
        None \<Rightarrow> best_tab_loop name (Suc i) tabs best
      | Some r \<Rightarrow>
          (let (score, hasChannel) = visit_node name r (0, False) in
           best_tab_loop name (Suc i) tabs
             (if hasChannel \<and> (case best of None \<Rightarrow> True | Some (_, bestTabScore) \<Rightarrow> score < bestTabScore)
              then Some (i, score) else best)))"

definition activate_in_window :: "string \<Rightarrow> ('q::one, 'u) WindowDescriptor \<Rightarrow> ('q, 'u) WindowDescriptor" where
  "activate_in_window name w =
     (let tabs = map (\<lambda>tab. tab\<lparr>tab_selected := False\<rparr>) (w_tabs w) in
      case best_tab_loop name 0 (w_tabs w) None of
        Some (i, _) \<Rightarrow> w\<lparr>w_tabs := tabs[i := (tabs ! i)\<lparr>tab_selected := True\<rparr>]\<rparr>
      | None \<Rightarrow> w\<lparr>w_tabs := tabs @ [new_selected_tab name]\<rparr>)"

definition activateOrAddChannel ::
  "bool \<Rightarrow> string \<Rightarrow> ('q::one, 'u) WindowLayout \<Rightarrow> ('q, 'u) WindowLayout" where
  "activateOrAddChannel is_twitch name layout =
     (if \<not> is_twitch \<or> take 1 name = ''/'' \<or> take 1 name = ''$'' then layout
      else
        case first_index (\<lambda>w. w_type w = Main) (windows layout) of
          None \<Rightarrow> layout\<lparr>windows := windows layout @
            [\<lparr>w_type = Main, w_state = WindowNone, w_geometry = (-1, -1, -1, -1), w_tabs = [new_selected_tab name]\<rparr>]\<rparr>
        | Some m \<Rightarrow> layout\<lparr>windows := (windows layout)[m := activate_in_window name (windows layout ! m)]\<rparr>)"

section \<open>Writing\<close>

record ('c, 'u) SplitData =
  sp_channel :: 'c
  sp_moderationMode :: bool
  sp_filters :: "'u list"

text \<open>The channels: their type and name, and what the Twitch server and \<open>Channel::getEmpty\<close> return.\<close>

record 'c channel_api =
  chan_type :: "'c \<Rightarrow> ChannelType"
  chan_name :: "'c \<Rightarrow> string"
  getOrAddChannel :: "string \<Rightarrow> 'c"
  getChannelOrEmpty :: "string \<Rightarrow> 'c"
  getMentionsChannel :: 'c
  getWatchingChannel :: 'c
  getWhispersChannel :: 'c
  getLiveChannel :: 'c
  getAutomodChannel :: 'c
  getEmpty :: 'c

definition encodeChannel :: "('j, 'q, 'u) json_api \<Rightarrow> 'c channel_api \<Rightarrow> 'c \<Rightarrow> 'j \<Rightarrow> 'j" where
  "encodeChannel J C channel ob =
     (case chan_type C channel of
        Twitch \<Rightarrow> j_insert J (j_insert J ob ''type'' (j_string J ''twitch'')) ''name'' (j_string J (chan_name C channel))
      | TwitchAutomod \<Rightarrow> j_insert J ob ''type'' (j_string J ''automod'')
      | TwitchMentions \<Rightarrow> j_insert J ob ''type'' (j_string J ''mentions'')
      | TwitchWatching \<Rightarrow> j_insert J ob ''type'' (j_string J ''watching'')
      | TwitchWhispers \<Rightarrow> j_insert J ob ''type'' (j_string J ''whispers'')
      | TwitchLive \<Rightarrow> j_insert J ob ''type'' (j_string J ''live'')
      | Misc \<Rightarrow> j_insert J (j_insert J ob ''type'' (j_string J ''misc'')) ''name'' (j_string J (chan_name C channel))
      | _ \<Rightarrow> ob)"

definition encodeFilters :: "('j, 'q, 'u) json_api \<Rightarrow> 'u list \<Rightarrow> 'j" where
  "encodeFilters J filters = j_array J (map (\<lambda>f. j_string J (u_toString J f)) filters)"

fun encodeNodeRecursively ::
  "('j, 'q, 'u) json_api \<Rightarrow> 'c channel_api \<Rightarrow> ('s \<Rightarrow> ('c, 'u) SplitData) \<Rightarrow> ('s, 'q) Node \<Rightarrow> 'j \<Rightarrow> 'j" where
  "encodeNodeRecursively J C data (Node i t s h v p cs) ob =
     (let ob =
        (case t of
           SplitNode \<Rightarrow>
             let d = data (the s);
                 ob = j_insert J ob ''type'' (j_string J ''split'');
                 ob = j_insert J ob ''moderationMode'' (j_bool J (sp_moderationMode d));
                 ob = j_insert J ob ''data'' (encodeChannel J C (sp_channel d) (j_object J))
             in j_insert J ob ''filters'' (encodeFilters J (sp_filters d))
         | EmptyRoot \<Rightarrow> ob
         | _ \<Rightarrow>
             let ob = j_insert J ob ''type''
                   (j_string J (if t = HorizontalContainer then ''horizontal'' else ''vertical''))
             in j_insert J ob ''items''
                  (j_array J (map (\<lambda>n. encodeNodeRecursively J C data n (j_object J)) cs)));
          ob = j_insert J ob ''flexh'' (j_double J h)
      in j_insert J ob ''flexv'' (j_double J v))"

text \<open>The tab's own data: its custom title, if it has one, and whether highlights are enabled.\<close>

definition encodeTab ::
  "('j, 'q, 'u) json_api \<Rightarrow> 'c channel_api \<Rightarrow> ('s \<Rightarrow> ('c, 'u) SplitData) \<Rightarrow> string option \<Rightarrow> bool \<Rightarrow>
    ('s, 'q) Node \<Rightarrow> bool \<Rightarrow> 'j \<Rightarrow> 'j" where
  "encodeTab J C data title highlights base isSelected ob =
     (let ob = (case title of Some s \<Rightarrow> j_insert J ob ''title'' (j_string J s) | None \<Rightarrow> ob);
          ob = (if isSelected then j_insert J ob ''selected'' (j_bool J True) else ob);
          ob = j_insert J ob ''highlightsEnabled'' (j_bool J highlights)
      in j_insert J ob ''splits2'' (encodeNodeRecursively J C data base (j_object J)))"

definition decodeChannel :: "'c channel_api \<Rightarrow> 'u SplitDescriptor \<Rightarrow> 'c" where
  "decodeChannel C d =
     (if sd_type d = ''twitch'' then getOrAddChannel C (sd_channelName d)
      else if sd_type d = ''mentions'' then getMentionsChannel C
      else if sd_type d = ''watching'' then getWatchingChannel C
      else if sd_type d = ''whispers'' then getWhispersChannel C
      else if sd_type d = ''live'' then getLiveChannel C
      else if sd_type d = ''automod'' then getAutomodChannel C
      else if sd_type d = ''misc'' then getChannelOrEmpty C (sd_channelName d)
      else getEmpty C)"

section \<open>Building a tree\<close>

text \<open>The splits that exist: the next pointer \<open>new Split\<close> returns, and the data of each split.\<close>

record ('c, 'u) SplitHeap =
  next_split :: nat
  split_data :: "nat \<Rightarrow> ('c, 'u) SplitData"

definition new_Split :: "'c channel_api \<Rightarrow> 'u SplitDescriptor \<Rightarrow> ('c, 'u) SplitHeap \<Rightarrow> ('c, 'u) SplitHeap" where
  "new_Split C sd hp = hp\<lparr>next_split := Suc (next_split hp),
     split_data := (split_data hp)(next_split hp := \<lparr>sp_channel = decodeChannel C sd,
       sp_moderationMode = sd_moderationMode sd, sp_filters = sd_filters sd\<rparr>)\<rparr>"

text \<open>
  The loop over the items of a container.  The new nodes are returned and become the children of the
  container; until then the tree is not read, since layouting is disabled.
\<close>

fun apply_items ::
  "'c channel_api \<Rightarrow> 'q flex_consts \<Rightarrow> ('q, 'u) NodeDescriptor list \<Rightarrow>
    (nat, 'q::{zero, one, plus, times, inverse, ord}) SplitContainer \<times> ('c, 'u) SplitHeap \<Rightarrow>
    (nat, 'q) Node list \<times> (nat, 'q) SplitContainer \<times> ('c, 'u) SplitHeap" where
  "apply_items C fc [] st = ([], st)"
| "apply_items C fc (SplitNodeDescriptor h v sd # items) (c, hp) =
     (let split = next_split hp;
          node = Node (fresh_id c) SplitNode (Some split) h v None [];
          c = addSplit fc split (c\<lparr>fresh_id := Suc (fresh_id c)\<rparr>);
          (nodes, st) = apply_items C fc items (c, new_Split C sd hp)
      in (node # nodes, st))"
| "apply_items C fc (ContainerNodeDescriptor h v vert inner # items) (c, hp) =
     (let (children, st) = apply_items C fc inner (c\<lparr>fresh_id := Suc (fresh_id c)\<rparr>, hp);
          node = Node (fresh_id c) (if vert then VerticalContainer else HorizontalContainer) None h v None children;
          (nodes, st) = apply_items C fc items st
      in (node # nodes, st))"

definition applyFromDescriptor ::
  "'c channel_api \<Rightarrow> 'q flex_consts \<Rightarrow> ('q, 'u) NodeDescriptor \<Rightarrow>
    (nat, 'q::{zero, one, plus, times, inverse, ord}) SplitContainer \<Rightarrow> ('c, 'u) SplitHeap \<Rightarrow>
    split_fault + (nat, 'q) SplitContainer \<times> ('c, 'u) SplitHeap" where
  "applyFromDescriptor C fc desc c hp =
     (if n_type (baseNode c) \<noteq> EmptyRoot then Inl AssertFailed
      else
        let c = c\<lparr>disableLayouting := True\<rparr> in
        bind_sum
          (case desc of
             SplitNodeDescriptor h v sd \<Rightarrow>
               bind_sum (insertSplit fc (next_split hp) no_options c) (\<lambda>c. Inr (c, new_Split C sd hp))
           | ContainerNodeDescriptor h v vert items \<Rightarrow>
               (let (nodes, c, hp) = apply_items C fc items (c, hp)
                in Inr (c\<lparr>baseNode := (case baseNode c of Node i _ s fh fv p cs \<Rightarrow>
                     Node i (if vert then VerticalContainer else HorizontalContainer) s fh fv p (cs @ nodes))\<rparr>, hp)))
        (\<lambda>(c, hp). Inr (c_layout fc (c\<lparr>disableLayouting := False\<rparr>), hp)))"

text \<open>The descriptor of a tab that is duplicated.  It has neither flex factors nor moderation mode.\<close>

fun channelTypeToString :: "ChannelType \<Rightarrow> split_fault + string" where
  "channelTypeToString Twitch = Inr ''twitch''"
| "channelTypeToString TwitchWhispers = Inr ''whispers''"
| "channelTypeToString TwitchWatching = Inr ''watching''"
| "channelTypeToString TwitchMentions = Inr ''mentions''"
| "channelTypeToString TwitchLive = Inr ''live''"
| "channelTypeToString TwitchAutomod = Inr ''automod''"
| "channelTypeToString Misc = Inr ''misc''"
| "channelTypeToString _ = Inl AssertFailed"

fun buildDescriptorRecursively ::
  "'c channel_api \<Rightarrow> ('s \<Rightarrow> ('c, 'u) SplitData) \<Rightarrow> ('s, 'q::one) Node \<Rightarrow> split_fault + ('q, 'u) NodeDescriptor" where
  "buildDescriptorRecursively C data (Node i t s h v p cs) =
     (if cs = [] then
        (case s of
           None \<Rightarrow> Inl NullPointer
         | Some split \<Rightarrow>
             bind_sum (channelTypeToString (chan_type C (sp_channel (data split)))) (\<lambda>ty.
               Inr (SplitNodeDescriptor 1 1 \<lparr>sd_type = ty, sd_channelName = chan_name C (sp_channel (data split)),
                 sd_server = -1, sd_moderationMode = False, sd_filters = sp_filters (data split)\<rparr>)))
      else
        bind_sum (collect (map (buildDescriptorRecursively C data) cs)) (\<lambda>items.
          Inr (ContainerNodeDescriptor 1 1 (t = VerticalContainer) items)))"

section \<open>Loading returns\<close>

lemma json_lawsD:
  assumes "json_laws J"
  shows "j_value J (j_insert J ob k v) k' = (if k = k' then v else j_value J ob k')"
    and "j_contains J (j_insert J ob k v) k' = (k = k' \<or> j_contains J ob k')"
    and "\<not> j_isEmpty J (j_insert J ob k v)" "j_toObject J (j_insert J ob k v) = j_insert J ob k v"
    and "\<not> j_contains J (j_object J) k" "\<not> j_isString J (j_value J (j_object J) k)"
    and "j_toString J (j_value J (j_object J) k) = []" "j_toBool J (j_value J (j_object J) k) b = b"
    and "j_toInt J (j_value J (j_object J) k) i = i" "j_toObject J (j_object J) = j_object J"
    and "j_toString J (j_string J s) = s" "j_isString J (j_string J s)" "j_equals J (j_string J s) t = (s = t)"
    and "j_toBool J (j_bool J b) b' = b" "j_toDouble J (j_double J x) y = x"
    and "j_toArray J (j_array J xs) = xs" "\<not> j_isUndefined J (j_array J xs)" "u_fromString J (u_toString J u) = u"
  using assms unfolding json_laws_def by simp_all

lemma json_depth:
  assumes "json_laws J"
  shows "w \<in> set (j_toArray J v) \<Longrightarrow> j_depth J w < j_depth J v"
    and "j_depth J (j_toObject J v) \<le> j_depth J v" "j_depth J (j_value J v k) \<le> j_depth J v"
  using assms unfolding json_laws_def by blast+

lemma option_list_total: "\<forall>x\<in>set xs. x \<noteq> None \<Longrightarrow> \<exists>ys. option_list xs = Some ys"
  by (induction xs) auto

lemma loadNodes_total:
  assumes "json_laws J"
  shows "j_depth J obj < n \<Longrightarrow> \<exists>d. loadNodes_container J n obj = Some d"
proof (induction n arbitrary: obj)
  case (Suc n)
  have "\<exists>d. loadNodes_container J n (j_toObject J w) = Some d"
    if "w \<in> set (j_toArray J (j_value J obj ''items''))" for w
  proof (rule Suc.IH)
    have "j_depth J (j_toObject J w) \<le> j_depth J w" by (rule json_depth(2) [OF assms])
    also have "\<dots> < j_depth J (j_value J obj ''items'')" by (rule json_depth(1) [OF assms that])
    also have "\<dots> \<le> j_depth J obj" by (rule json_depth(3) [OF assms])
    finally show "j_depth J (j_toObject J w) < n" using Suc.prems by simp
  qed
  then show ?case by (auto simp: Let_def intro!: option_list_total)
qed simp

lemma loadFromJSON_total: "json_laws J \<Longrightarrow> \<exists>tab. TabDescriptor_loadFromJSON J ob = Some tab"
  using loadNodes_total [of J "j_toObject J (j_value J ob ''splits2'')" "Suc (j_depth J (j_toObject J (j_value J ob ''splits2'')))"]
  by (auto simp: TabDescriptor_loadFromJSON_def Let_def simp del: loadNodes_container.simps)

definition one_selected :: "('q, 'u) TabDescriptor list \<Rightarrow> bool" where
  "one_selected tabs \<longleftrightarrow> length (filter tab_selected tabs) \<le> 1"

lemma load_tabs_total:
  assumes "json_laws J"
  shows "\<exists>tabs. load_tabs J b vals = Some tabs \<and> length tabs = length vals \<and>
    length (filter tab_selected tabs) \<le> (if b then 0 else 1)"
proof (induction vals arbitrary: b)
  case (Cons val vals)
  from loadFromJSON_total [OF assms] obtain tab where
    "TabDescriptor_loadFromJSON J (j_toObject J val) = Some tab" by blast
  with Cons.IH [of True] Cons.IH [of b] show ?case by (cases b) auto
qed simp

lemma load_windows_total:
  assumes "json_laws J"
  shows "\<exists>ws r. load_windows J b vals layout = Some \<lparr>emotePopupBounds = r, windows = windows layout @ ws\<rparr> \<and>
    length ws = length vals \<and> length (filter (\<lambda>w. w_type w = Main) ws) \<le> (if b then 0 else 1) \<and>
    (\<forall>w\<in>set ws. one_selected (w_tabs w) \<and> w_type w \<noteq> Attached)"
proof (induction vals arbitrary: b layout)
  case Nil
  show ?case by (cases layout) auto
next
  case (Cons val vals)
  let ?ob = "j_toObject J val"
  from load_tabs_total [OF assms, of False "j_toArray J (j_value J ?ob ''tabs'')"] obtain tabs where
    tabs: "load_tabs J False (j_toArray J (j_value J ?ob ''tabs'')) = Some tabs" "one_selected tabs"
    by (auto simp: one_selected_def)
  obtain ty b' where ty: "load_type J ?ob b = (ty, b')" by force
  have b: "(ty = Main \<longrightarrow> \<not> b \<and> b') \<and> (b \<longrightarrow> b') \<and> ty \<noteq> Attached"
    using ty by (auto simp: load_type_def Let_def split: if_splits)
  obtain w where w: "load_window J ?ob b = Some (w, b')" "w_type w = ty" "w_tabs w = tabs"
    using tabs(1) ty by (auto simp: load_window_def)
  let ?l = "layout\<lparr>emotePopupBounds := load_rect J (j_toObject J (j_value J ?ob ''emotePopup'')) 0,
      windows := windows layout @ [w]\<rparr>"
  from Cons.IH [of b' ?l] obtain ws r where
    IH: "load_windows J b' vals ?l = Some \<lparr>emotePopupBounds = r, windows = windows layout @ (w # ws)\<rparr>"
    "length ws = length vals" "length (filter (\<lambda>w. w_type w = Main) ws) \<le> (if b' then 0 else 1)"
    "\<forall>w\<in>set ws. one_selected (w_tabs w) \<and> w_type w \<noteq> Attached" by auto
  have "load_windows J b (val # vals) layout = Some \<lparr>emotePopupBounds = r, windows = windows layout @ (w # ws)\<rparr>"
    using IH(1) w(1) by (simp add: Let_def)
  moreover have "length (filter (\<lambda>w. w_type w = Main) (w # ws)) \<le> (if b then 0 else 1)"
    using IH(3) b w(2) by (cases b'; cases b) auto
  moreover have "\<forall>w\<in>set (w # ws). one_selected (w_tabs w) \<and> w_type w \<noteq> Attached"
    using IH(4) tabs(2) w b by auto
  moreover have "length (w # ws) = length (val # vals)" using IH(2) by simp
  ultimately show ?case by blast
qed

section \<open>What is written is read back\<close>

text \<open>The descriptor a tree is saved as, and the type and name a channel is saved with.\<close>

fun channel_tag :: "ChannelType \<Rightarrow> string" where
  "channel_tag Twitch = ''twitch''"
| "channel_tag TwitchWhispers = ''whispers''"
| "channel_tag TwitchWatching = ''watching''"
| "channel_tag TwitchMentions = ''mentions''"
| "channel_tag TwitchLive = ''live''"
| "channel_tag TwitchAutomod = ''automod''"
| "channel_tag Misc = ''misc''"
| "channel_tag _ = []"

definition saved_split :: "'c channel_api \<Rightarrow> ('c, 'u) SplitData \<Rightarrow> 'u SplitDescriptor" where
  "saved_split C d =
     \<lparr>sd_type = channel_tag (chan_type C (sp_channel d)),
      sd_channelName = (if chan_type C (sp_channel d) \<in> {Twitch, Misc} then chan_name C (sp_channel d) else []),
      sd_server = -1, sd_moderationMode = sp_moderationMode d, sd_filters = sp_filters d\<rparr>"

fun node_descriptor ::
  "'c channel_api \<Rightarrow> ('s \<Rightarrow> ('c, 'u) SplitData) \<Rightarrow> ('s, 'q) Node \<Rightarrow> ('q, 'u) NodeDescriptor" where
  "node_descriptor C data (Node i t s h v p cs) =
     (if t = SplitNode then SplitNodeDescriptor h v (saved_split C (data (the s)))
      else ContainerNodeDescriptor h v (t = VerticalContainer) (map (node_descriptor C data) cs))"

lemma channel_codec:
  assumes "json_laws J"
  shows "j_toString J (j_value J (encodeChannel J C ch (j_object J)) ''type'') = channel_tag (chan_type C ch)"
    and "j_toString J (j_value J (encodeChannel J C ch (j_object J)) ''name'') =
      (if chan_type C ch \<in> {Twitch, Misc} then chan_name C ch else [])"
    and "\<not> j_contains J (encodeChannel J C ch (j_object J)) ''channel''"
    and "j_toInt J (j_value J (encodeChannel J C ch (j_object J)) ''server'') (-1) = -1"
    and "j_toObject J (encodeChannel J C ch (j_object J)) = encodeChannel J C ch (j_object J)"
  by (cases "chan_type C ch"; simp add: encodeChannel_def json_lawsD [OF assms])+

lemma filters_codec: "json_laws J \<Longrightarrow> loadFilters J (encodeFilters J fs) = fs"
  by (simp add: loadFilters_def encodeFilters_def json_lawsD o_def)

lemma encode_is_object:
  assumes "json_laws J"
  shows "j_toObject J (encodeNodeRecursively J C data n ob) = encodeNodeRecursively J C data n ob"
    and "\<not> j_isEmpty J (encodeNodeRecursively J C data n ob)"
  by (cases n; simp add: Let_def json_lawsD [OF assms])+

text \<open>The values of an encoded node.\<close>

lemma encoded_split:
  assumes "json_laws J" "n = Node i SplitNode (Some s) h v p []"
  shows "loadNodes_split J (encodeNodeRecursively J C data n (j_object J)) = node_descriptor C data n"
    and "j_toString J (j_value J (encodeNodeRecursively J C data n (j_object J)) ''type'') = ''split''"
    and "j_value J (encodeNodeRecursively J C data n (j_object J)) ''type'' = j_string J ''split''"
  by (simp_all add: assms(2) loadNodes_split_def SplitDescriptor_loadFromJSON_def saved_split_def Let_def
      json_lawsD [OF assms(1)] channel_codec [OF assms(1)] filters_codec [OF assms(1)])

lemma encoded_container:
  assumes "json_laws J" "n = Node i t s h v p cs" "is_container t"
  shows "j_value J (encodeNodeRecursively J C data n (j_object J)) ''items'' =
      j_array J (map (\<lambda>n. encodeNodeRecursively J C data n (j_object J)) cs)"
    and "j_value J (encodeNodeRecursively J C data n (j_object J)) ''flexh'' = j_double J h"
    and "j_value J (encodeNodeRecursively J C data n (j_object J)) ''flexv'' = j_double J v"
    and "j_value J (encodeNodeRecursively J C data n (j_object J)) ''type'' =
      j_string J (if t = VerticalContainer then ''vertical'' else ''horizontal'')"
  using assms(3) by (auto simp: assms(2) is_container_def Let_def json_lawsD [OF assms(1)])

lemma encoded_type:
  assumes "json_laws J" "is_container (n_type n)"
  shows "j_value J (encodeNodeRecursively J C data n (j_object J)) ''type'' =
      j_string J (if n_type n = VerticalContainer then ''vertical'' else ''horizontal'')"
proof (cases n)
  case (Node i t s h v p cs)
  with assms(2) have "is_container t" by simp
  from encoded_container(4) [OF assms(1) refl this] show ?thesis unfolding Node Node.sel .
qed

lemma option_list_map_Some: "option_list (map (\<lambda>x. Some (f x)) xs) = Some (map f xs)"
  by (induction xs) auto

lemma option_list_cong: "(\<And>x. x \<in> set xs \<Longrightarrow> g x = Some (f x)) \<Longrightarrow> option_list (map g xs) = Some (map f xs)"
  by (induction xs) auto

lemma node_codec:
  assumes J: "json_laws J"
  shows "tree_wf node \<Longrightarrow> is_container (n_type node) \<Longrightarrow>
    j_depth J (encodeNodeRecursively J C data node (j_object J)) < fuel \<Longrightarrow>
    loadNodes_container J fuel (encodeNodeRecursively J C data node (j_object J)) = Some (node_descriptor C data node)"
proof (induction node arbitrary: fuel)
  case (Node i t s h v p cs)
  let ?n = "Node i t s h v p cs"
  let ?enc = "\<lambda>n. encodeNodeRecursively J C data n (j_object J)"
  have t: "is_container t" using Node.prems(2) by simp
  note enc = encoded_container [OF J refl t, of C data i s h v p cs]
  obtain n where n: "fuel = Suc n" using Node.prems(3) by (cases fuel) auto
  have item: "(let ob = j_toObject J (?enc c) in
      if j_equals J (j_value J ob ''type'') ''split'' then Some (loadNodes_split J ob)
      else loadNodes_container J n ob) = Some (node_descriptor C data c)" if c: "c \<in> set cs" for c
  proof (cases "n_type c = SplitNode")
    case True
    have "tree_wf c" using Node.prems(1) c by simp
    with True obtain i' s' h' v' p' where "c = Node i' SplitNode (Some s') h' v' p' []"
      by (cases c) auto
    show ?thesis
      by (simp add: encode_is_object [OF J] json_lawsD(13) [OF J] encoded_split [OF J \<open>c = _\<close>] Let_def
          del: encodeNodeRecursively.simps)
  next
    case False
    have wf: "tree_wf c" using Node.prems(1) c by simp
    with False have con: "is_container (n_type c)" by (cases c) (auto simp: is_container_def split: NodeType.splits)
    have "?enc c \<in> set (j_toArray J (j_value J (?enc ?n) ''items''))"
      unfolding enc(1) json_lawsD(16) [OF J] using c by simp
    from json_depth(1) [OF J this] json_depth(3) [OF J, of "?enc ?n" "''items''"]
    have "j_depth J (?enc c) < n" using Node.prems(3) n by simp
    from Node.IH [OF c wf con this] show ?thesis
      by (simp add: encode_is_object [OF J] json_lawsD(13) [OF J] encoded_type [OF J con] Let_def
          del: encodeNodeRecursively.simps node_descriptor.simps)
  qed
  have "loadNodes_container J (Suc n) (?enc ?n) = Some (ContainerNodeDescriptor h v (t = VerticalContainer)
      (map (node_descriptor C data) cs))"
    unfolding loadNodes_container.simps enc json_lawsD(11,15,16) [OF J] list.map_comp
    by (subst option_list_cong [where f = "node_descriptor C data"]) (use item in auto)
  then show ?case using t n by (auto simp: is_container_def simp del: loadNodes_container.simps encodeNodeRecursively.simps)
qed

lemma tab_codec:
  assumes J: "json_laws J" and wf: "tree_wf base"
  shows "TabDescriptor_loadFromJSON J (encodeTab J C data title hl base sel (j_object J)) =
    Some \<lparr>customTitle = (case title of Some s \<Rightarrow> s | None \<Rightarrow> []), tab_selected = sel, highlightsEnabled = hl,
      rootNode = Some (node_descriptor C data base)\<rparr>"
proof -
  let ?e = "encodeNodeRecursively J C data base (j_object J)"
  let ?ob = "encodeTab J C data title hl base sel (j_object J)"
  have v: "j_value J ?ob ''splits2'' = ?e" "j_toBool J (j_value J ?ob ''selected'') False = sel"
    "j_toBool J (j_value J ?ob ''highlightsEnabled'') True = hl"
    "(if j_isString J (j_value J ?ob ''title'') then j_toString J (j_value J ?ob ''title'') else []) =
      (case title of Some s \<Rightarrow> s | None \<Rightarrow> [])"
    by (cases title; cases sel; simp add: encodeTab_def Let_def json_lawsD [OF J])+
  show ?thesis
  proof (cases "n_type base = SplitNode")
    case True
    with wf obtain i s h v p where b: "base = Node i SplitNode (Some s) h v p []" by (cases base) auto
    show ?thesis
      unfolding TabDescriptor_loadFromJSON_def v Let_def
      by (simp add: encoded_split [OF J b] encode_is_object [OF J] json_lawsD(11) [OF J] del: encodeNodeRecursively.simps)
  next
    case False
    with wf have con: "is_container (n_type base)" by (cases base) (auto simp: is_container_def split: NodeType.splits)
    have ty: "j_toString J (j_value J ?e ''type'') = (if n_type base = VerticalContainer then ''vertical'' else ''horizontal'')"
      by (simp add: encoded_type [OF J con] json_lawsD(11) [OF J])
    have "loadNodes_container J (Suc (j_depth J ?e)) ?e = Some (node_descriptor C data base)"
      by (rule node_codec [OF J wf con]) simp
    then show ?thesis
      unfolding TabDescriptor_loadFromJSON_def v Let_def encode_is_object [OF J] ty
      by (simp add: encode_is_object [OF J] del: encodeNodeRecursively.simps loadNodes_container.simps)
  qed
qed

section \<open>What is built\<close>

text \<open>The shape a descriptor describes, with the data of its splits, and well-formed descriptors.\<close>

definition described_split :: "'c channel_api \<Rightarrow> 'u SplitDescriptor \<Rightarrow> ('c, 'u) SplitData" where
  "described_split C sd = \<lparr>sp_channel = decodeChannel C sd, sp_moderationMode = sd_moderationMode sd,
     sp_filters = sd_filters sd\<rparr>"

fun desc_shape :: "'c channel_api \<Rightarrow> ('q, 'u) NodeDescriptor \<Rightarrow> ('c, 'u) SplitData shape" where
  "desc_shape C (SplitNodeDescriptor h v sd) = Shape SplitNode (Some (described_split C sd)) []"
| "desc_shape C (ContainerNodeDescriptor h v vert items) =
     Shape (if vert then VerticalContainer else HorizontalContainer) None (map (desc_shape C) items)"

fun desc_wf :: "('q, 'u) NodeDescriptor \<Rightarrow> bool" where
  "desc_wf (SplitNodeDescriptor h v sd) = True"
| "desc_wf (ContainerNodeDescriptor h v vert items) = (2 \<le> length items \<and> (\<forall>d\<in>set items. desc_wf d))"

lemma set_shape_skeleton: "set_shape (skeleton t) = set (leaves t)"
  by (induction t) (auto split: option.splits)

lemma map_shape_agree:
  "\<forall>s\<in>set (leaves t). f s = g s \<Longrightarrow> map_shape f (skeleton t) = map_shape g (skeleton t)"
  by (rule shape.map_cong0) (simp add: set_shape_skeleton)

text \<open>What a run of the loop over items guarantees.\<close>

definition applied ::
  "'c channel_api \<Rightarrow> ('q, 'u) NodeDescriptor list \<Rightarrow> (nat, 'q) SplitContainer \<Rightarrow> ('c, 'u) SplitHeap \<Rightarrow>
    (nat, 'q) Node list \<Rightarrow> (nat, 'q) SplitContainer \<Rightarrow> ('c, 'u) SplitHeap \<Rightarrow> bool" where
  "applied C items c hp nodes c' hp' \<longleftrightarrow>
     concat (map leaves nodes) = [next_split hp..<next_split hp'] \<and> next_split hp \<le> next_split hp' \<and>
     c_splits c' = c_splits c @ [next_split hp..<next_split hp'] \<and>
     connectionsPerSplit c' = connectionsPerSplit c \<union> {next_split hp..<next_split hp'} \<and>
     baseNode c' = baseNode c \<and> disableLayouting c' \<and> c_topRight c' = c_topRight c \<and>
     isTopRightSplit c' = isTopRightSplit c \<and> fresh_id c \<le> fresh_id c' \<and>
     distinct (concat (map ids nodes)) \<and> set (concat (map ids nodes)) \<subseteq> {fresh_id c..<fresh_id c'} \<and>
     (\<forall>s<next_split hp. split_data hp' s = split_data hp s) \<and>
     map (\<lambda>n. map_shape (split_data hp') (skeleton n)) nodes = map (desc_shape C) items \<and>
     length nodes = length items \<and> ((\<forall>d\<in>set items. desc_wf d) \<longrightarrow> (\<forall>n\<in>set nodes. tree_wf n))"

lemma upt_split: "i \<le> j \<Longrightarrow> j \<le> k \<Longrightarrow> [i..<j] @ [j..<k] = [i..<k]"
  by (metis le_Suc_ex upt_add_eq_append)

lemma shape_of_mono:
  assumes "set (leaves n) \<subseteq> {..<next_split hp1}" "\<forall>s<next_split hp1. split_data hp2 s = split_data hp1 s"
  shows "map_shape (split_data hp2) (skeleton n) = map_shape (split_data hp1) (skeleton n)"
  using assms by (intro map_shape_agree) auto

lemma applied_split:
  assumes dis: "disableLayouting c"
    and r: "applied C items (addSplit fc (next_split hp) (c\<lparr>fresh_id := Suc (fresh_id c)\<rparr>)) (new_Split C sd hp) nodes c' hp'"
  shows "applied C (SplitNodeDescriptor h v sd # items) c hp
    (Node (fresh_id c) SplitNode (Some (next_split hp)) h v None [] # nodes) c' hp'"
proof -
  let ?k = "next_split hp"
  let ?c = "addSplit fc ?k (c\<lparr>fresh_id := Suc (fresh_id c)\<rparr>)"
  have c: "c_splits ?c = c_splits c @ [?k]" "connectionsPerSplit ?c = insert ?k (connectionsPerSplit c)"
    "baseNode ?c = baseNode c" "c_topRight ?c = c_topRight c" "isTopRightSplit ?c = isTopRightSplit c"
    "fresh_id ?c = Suc (fresh_id c)"
    using dis by (simp_all add: addSplit_def setFocus_def c_layout_def Let_def)
  have hp: "next_split (new_Split C sd hp) = Suc ?k"
    "split_data (new_Split C sd hp) = (split_data hp)(?k := described_split C sd)"
    by (simp_all add: new_Split_def described_split_def)
  from r have le: "Suc ?k \<le> next_split hp'" by (simp add: applied_def hp)
  then have upt: "[?k..<next_split hp'] = ?k # [Suc ?k..<next_split hp']" by (simp add: upt_rec)
  have iv: "{?k..<next_split hp'} = insert ?k {Suc ?k..<next_split hp'}" using le by auto
  have "split_data hp' ?k = described_split C sd" using r by (simp add: applied_def hp)
  then have sh: "map_shape (split_data hp') (skeleton (Node (fresh_id c) SplitNode (Some ?k) h v None [])) =
    desc_shape C (SplitNodeDescriptor h v sd)" by simp
  from r have sub: "set (concat (map ids nodes)) \<subseteq> {Suc (fresh_id c)..<fresh_id c'}" by (simp add: applied_def c)
  then have "fresh_id c \<notin> set (concat (map ids nodes))" by auto
  moreover have "set (concat (map ids nodes)) \<subseteq> {fresh_id c..<fresh_id c'}" using sub by fastforce
  moreover from r have "fresh_id c < fresh_id c'" by (simp add: applied_def c)
  ultimately show ?thesis
    using r sh le unfolding applied_def c hp upt iv by (simp add: Suc_le_eq)
qed

lemma applied_container:
  assumes r1: "applied C inner (c\<lparr>fresh_id := Suc (fresh_id c)\<rparr>) hp children c1 hp1"
    and r2: "applied C items c1 hp1 nodes c' hp'"
  shows "applied C (ContainerNodeDescriptor h v vert inner # items) c hp
    (Node (fresh_id c) (if vert then VerticalContainer else HorizontalContainer) None h v None children # nodes) c' hp'"
proof -
  let ?n = "Node (fresh_id c) (if vert then VerticalContainer else HorizontalContainer) None h v None children"
  have le: "next_split hp \<le> next_split hp1" "next_split hp1 \<le> next_split hp'" "Suc (fresh_id c) \<le> fresh_id c1"
    "fresh_id c1 \<le> fresh_id c'" using r1 r2 by (auto simp: applied_def)
  have lv: "leaves ?n = [next_split hp..<next_split hp1]" using r1 by (simp add: applied_def)
  have agree: "\<forall>s<next_split hp1. split_data hp' s = split_data hp1 s" using r2 by (simp add: applied_def)
  have "map_shape (split_data hp') (skeleton ?n) = map_shape (split_data hp1) (skeleton ?n)"
    by (rule shape_of_mono [OF _ agree]) (use lv in auto)
  moreover have "map_shape (split_data hp1) (skeleton ?n) = desc_shape C (ContainerNodeDescriptor h v vert inner)"
    using r1 by (simp add: applied_def o_def)
  ultimately have sh: "map_shape (split_data hp') (skeleton ?n) = desc_shape C (ContainerNodeDescriptor h v vert inner)"
    by (rule trans)
  have idn: "set (ids ?n) \<subseteq> {fresh_id c..<fresh_id c1}" "distinct (ids ?n)"
    using r1 le unfolding applied_def by fastforce+
  have idr: "set (concat (map ids nodes)) \<subseteq> {fresh_id c1..<fresh_id c'}" "distinct (concat (map ids nodes))"
    using r2 by (auto simp: applied_def)
  have dj: "set (ids ?n) \<inter> set (concat (map ids nodes)) = {}" using idn(1) idr(1) by fastforce
  have ids: "distinct (concat (map ids (?n # nodes)))"
    unfolding list.map concat.simps distinct_append using idn(2) idr(2) dj by blast
  have idset: "set (concat (map ids (?n # nodes))) \<subseteq> {fresh_id c..<fresh_id c'}"
  proof -
    have "{fresh_id c..<fresh_id c1} \<union> {fresh_id c1..<fresh_id c'} \<subseteq> {fresh_id c..<fresh_id c'}" using le by auto
    with idn(1) idr(1) show ?thesis unfolding list.map concat.simps set_append by blast
  qed
  have lvs: "concat (map leaves (?n # nodes)) = [next_split hp..<next_split hp']"
    using lv r2 upt_split [OF le(1,2)] by (simp add: applied_def del: flat.simps)
  have wf: "(\<forall>d\<in>set (ContainerNodeDescriptor h v vert inner # items). desc_wf d) \<longrightarrow> (\<forall>n\<in>set (?n # nodes). tree_wf n)"
    using r1 r2 by (simp add: applied_def)
  have old: "\<forall>s<next_split hp. split_data hp' s = split_data hp s"
    using r1 agree le by (simp add: applied_def)
  have "c_splits c' = c_splits c @ [next_split hp..<next_split hp']"
    using r1 r2 upt_split [OF le(1,2)] by (simp add: applied_def)
  moreover have "connectionsPerSplit c' = connectionsPerSplit c \<union> {next_split hp..<next_split hp'}"
    using r1 r2 ivl_disj_un_two(3) [OF le(1,2)] by (simp add: applied_def Un_assoc)
  ultimately show ?thesis
    using r1 r2 sh ids idset lvs wf old le unfolding applied_def by (simp del: flat.simps tree_wf.simps desc_wf.simps skeleton.simps)
qed

lemma apply_items_applied:
  "disableLayouting c \<Longrightarrow> apply_items C fc items (c, hp) = (nodes, c', hp') \<Longrightarrow> applied C items c hp nodes c' hp'"
proof (induction C fc items "(c, hp)" arbitrary: c hp nodes c' hp' rule: apply_items.induct)
  case (1 C fc)
  then show ?case by (simp add: applied_def)
next
  case (2 C fc h v sd items c hp)
  let ?c = "addSplit fc (next_split hp) (c\<lparr>fresh_id := Suc (fresh_id c)\<rparr>)"
  obtain ns where r: "apply_items C fc items (?c, new_Split C sd hp) = (ns, c', hp')"
    "nodes = Node (fresh_id c) SplitNode (Some (next_split hp)) h v None [] # ns"
    using 2(3) by (auto simp: Let_def split: prod.splits)
  have "disableLayouting ?c" using 2(2) by (simp add: addSplit_def c_layout_def Let_def)
  from applied_split [OF 2(2) 2(1) [OF refl refl refl this r(1)]] show ?case by (simp add: r(2))
next
  case (3 C fc h v vert inner items c hp)
  obtain children c1 hp1 where r1: "apply_items C fc inner (c\<lparr>fresh_id := Suc (fresh_id c)\<rparr>, hp) = (children, c1, hp1)"
    by (metis prod_cases3)
  obtain ns where r2: "apply_items C fc items (c1, hp1) = (ns, c', hp')"
    "nodes = Node (fresh_id c) (if vert then VerticalContainer else HorizontalContainer) None h v None children # ns"
    using 3(4) r1 by (auto simp: Let_def split: prod.splits)
  have a1: "applied C inner (c\<lparr>fresh_id := Suc (fresh_id c)\<rparr>) hp children c1 hp1"
    by (rule 3(1) [OF _ r1]) (use 3(3) in simp)
  then have "disableLayouting c1" by (simp add: applied_def)
  from 3(2) [OF r1 [symmetric] refl refl this r2(1)] have "applied C items c1 hp1 ns c' hp'" .
  from applied_container [OF a1 this] show ?case by (simp add: r2(2))
qed

lemma empty_tab:
  assumes "container_ok c" "n_type (baseNode c) = EmptyRoot"
  shows "is_empty_root (baseNode c)" "c_splits c = []" "connectionsPerSplit c = {}" "c_topRight c = None"
proof -
  show e: "is_empty_root (baseNode c)"
    using assms by (cases "baseNode c") (auto simp: container_ok_def split_tree_ok_def)
  show s: "c_splits c = []"
    using assms(1) empty_root_leaves [OF e] by (auto simp: container_ok_def)
  show "connectionsPerSplit c = {}" "c_topRight c = None"
    using assms(1) s e by (cases "baseNode c"; auto simp: container_ok_def is_empty_root_def)+
qed

lemma applyFromDescriptor_ok:
  assumes ok: "container_ok c" and e: "n_type (baseNode c) = EmptyRoot" and wf: "desc_wf desc"
  shows "\<exists>c' hp'. applyFromDescriptor C fc desc c hp = Inr (c', hp') \<and> container_ok c' \<and>
    map_shape (split_data hp') (skeleton (baseNode c')) = desc_shape C desc"
proof (cases desc)
  case (SplitNodeDescriptor h v sd)
  note em = empty_tab [OF ok e]
  obtain i fh fv p where b: "baseNode c = Node i EmptyRoot None fh fv p []"
    using em(1) by (cases "baseNode c") (auto simp: is_empty_root_def)
  let ?k = "next_split hp"
  let ?b = "Node i SplitNode (Some ?k) fh fv p []"
  let ?c = "c\<lparr>baseNode := ?b, fresh_id := fresh_id c + 2, focus_requests := focus_requests c @ [?k],
    c_splits := [?k], connectionsPerSplit := {?k}, disableLayouting := False\<rparr>"
  have "insertSplit fc ?k no_options (c\<lparr>disableLayouting := True\<rparr>) = Inr (?c\<lparr>disableLayouting := True\<rparr>)"
    using em b by (simp add: insertSplit_def no_options_def setSplit_def addSplit_def setFocus_def c_layout_def Let_def)
  then have r: "applyFromDescriptor C fc desc c hp = Inr (c_layout fc ?c, new_Split C sd hp)"
    using e by (simp add: applyFromDescriptor_def SplitNodeDescriptor Let_def)
  have "container_ok (c_layout fc ?c)"
    by (rule container_ok_layout) (use ok em b in \<open>auto simp: container_ok_def split_tree_ok_def\<close>)
  moreover have "skeleton (baseNode (c_layout fc ?c)) = skeleton ?b"
    using bare_skeleton_eq [OF c_layout_fields(6), of fc ?c] by simp
  ultimately show ?thesis using r by (auto simp: SplitNodeDescriptor new_Split_def described_split_def)
next
  case (ContainerNodeDescriptor h v vert items)
  note em = empty_tab [OF ok e]
  obtain i fh fv p where b: "baseNode c = Node i EmptyRoot None fh fv p []"
    using em(1) by (cases "baseNode c") (auto simp: is_empty_root_def)
  obtain nodes c1 hp1 where a: "apply_items C fc items (c\<lparr>disableLayouting := True\<rparr>, hp) = (nodes, c1, hp1)"
    by (metis prod_cases3)
  have ap: "applied C items (c\<lparr>disableLayouting := True\<rparr>) hp nodes c1 hp1"
    by (rule apply_items_applied [OF _ a]) simp
  let ?t = "if vert then VerticalContainer else HorizontalContainer"
  let ?b = "Node i ?t None fh fv p nodes"
  let ?c = "c1\<lparr>baseNode := ?b, disableLayouting := False\<rparr>"
  have b1: "baseNode c1 = Node i EmptyRoot None fh fv p []" using ap b by (simp add: applied_def)
  have r: "applyFromDescriptor C fc desc c hp = Inr (c_layout fc ?c, hp1)"
    using e a b1 by (simp add: applyFromDescriptor_def ContainerNodeDescriptor Let_def)
  have sh: "map_shape (split_data hp1) (skeleton ?b) = desc_shape C desc"
    using ap by (simp add: applied_def ContainerNodeDescriptor o_def)
  have i: "i < fresh_id c" using ok b by (simp add: container_ok_def)
  have ids: "set (concat (map ids nodes)) \<subseteq> {fresh_id c..<fresh_id c1}" "distinct (concat (map ids nodes))"
    using ap by (simp_all add: applied_def)
  then have "i \<notin> set (concat (map ids nodes))" using i by auto
  moreover have wfn: "tree_wf ?b" using ap wf by (auto simp: applied_def ContainerNodeDescriptor)
  ultimately have "split_tree_ok ?b" using ids(2) by (simp add: split_tree_ok_def)
  moreover have "\<forall>j\<in>set (ids ?b). j < fresh_id c1"
    using ids(1) i ap by (fastforce simp: applied_def)
  moreover have "leaves ?b = c_splits c1" using ap em by (simp add: applied_def)
  moreover have "distinct (c_splits c1)" using ap em by (simp add: applied_def)
  moreover have "connectionsPerSplit c1 = set (c_splits c1)" using ap em by (simp add: applied_def)
  moreover have "isTopRightSplit c1 = set_option (c_topRight c1)"
    using ap ok by (simp add: applied_def container_ok_def)
  ultimately have "container_ok (c_layout fc ?c)"
    by (intro container_ok_layout) simp_all
  moreover have "skeleton (baseNode (c_layout fc ?c)) = skeleton ?b"
    using bare_skeleton_eq [OF c_layout_fields(6), of fc ?c] by simp
  ultimately show ?thesis using r sh by auto
qed

section \<open>Runs of a tab\<close>

text \<open>A tab is made empty, or restored from the layout that was saved or from a tab that is duplicated, and then
  changed by the calls of the user interface.  In the layouts it is restored from, every container has at least two
  items, as in the ones the program writes.  The state is the tab and the splits made so far, whose data may change
  with any call.\<close>

inductive reachable ::
  "'c channel_api \<Rightarrow> 'q flex_consts \<Rightarrow> (nat, 'q::{zero, one, plus, times, inverse, ord}) SplitContainer \<Rightarrow>
    ('c, 'u) SplitHeap \<Rightarrow> bool"
  for C fc where
  reachable_new: "reachable C fc (SplitContainer i) hp"
| reachable_restored: "reachable C fc c hp \<Longrightarrow> n_type (baseNode c) = EmptyRoot \<Longrightarrow> desc_wf desc \<Longrightarrow>
    applyFromDescriptor C fc desc c hp = Inr (c', hp') \<Longrightarrow> reachable C fc c' hp'"
| reachable_op: "reachable C fc c hp \<Longrightarrow> valid_op c oper \<Longrightarrow> run_op fc oper c = Inr c' \<Longrightarrow> reachable C fc c' hp'"

lemma reachable_ok: "reachable C fc c hp \<Longrightarrow> container_ok c"
proof (induction rule: reachable.induct)
  case (reachable_new i hp)
  show ?case by (rule container_ok_new)
next
  case (reachable_restored c hp desc c' hp')
  with applyFromDescriptor_ok [OF reachable_restored.IH reachable_restored.hyps(2,3), of C fc hp] show ?case by auto
next
  case (reachable_op c hp oper c' hp')
  with run_op_ok [OF reachable_op.IH reachable_op.hyps(2), of fc] show ?case by auto
qed

text \<open>
  C8. A tab never loses its tree.  In every state that a tab reaches, from an empty one or from one restored from a
  layout whose containers have at least two items, every call the code makes succeeds: no assertion fails, nothing
  is erased at the end iterator, no empty vector is read.  Afterwards the tree and the list hold the same splits,
  each once, namely the ones of before with the inserted split added or the released one removed, and exactly the
  split at the top right is marked.  A tab without splits can be restored from such a layout.\<close>

theorem tab_operations_safe:
  assumes "reachable C fc c hp"
  shows "(valid_op c oper \<longrightarrow> (\<exists>c'. run_op fc oper c = Inr c' \<and> mset (leaves (baseNode c')) = mset (c_splits c') \<and>
      mset (c_splits c') = op_effect oper (mset (c_splits c)) \<and> distinct (c_splits c') \<and>
      isTopRightSplit c' = set_option (getTopRightSplit (baseNode c')) \<and>
      (c_splits c' \<noteq> [] \<longrightarrow> tree_wf (baseNode c')))) \<and>
    (n_type (baseNode c) = EmptyRoot \<longrightarrow> desc_wf desc \<longrightarrow> (\<exists>c' hp'. applyFromDescriptor C fc desc c hp = Inr (c', hp') \<and>
      map_shape (split_data hp') (skeleton (baseNode c')) = desc_shape C desc))"
proof (intro conjI impI)
  assume "valid_op c oper"
  from run_op_ok [OF reachable_ok [OF assms(1)] this, of fc] obtain c' where
    c': "run_op fc oper c = Inr c'" "container_ok c'" "mset (c_splits c') = op_effect oper (mset (c_splits c))" by blast
  moreover have "tree_wf (baseNode c')" if "c_splits c' \<noteq> []"
    using container_wf [OF c'(2), of "hd (c_splits c')"] that by simp
  ultimately show "\<exists>c'. run_op fc oper c = Inr c' \<and> mset (leaves (baseNode c')) = mset (c_splits c') \<and>
      mset (c_splits c') = op_effect oper (mset (c_splits c)) \<and> distinct (c_splits c') \<and>
      isTopRightSplit c' = set_option (getTopRightSplit (baseNode c')) \<and>
      (c_splits c' \<noteq> [] \<longrightarrow> tree_wf (baseNode c'))" by (auto simp: container_ok_def)
next
  assume "n_type (baseNode c) = EmptyRoot" "desc_wf desc"
  from applyFromDescriptor_ok [OF reachable_ok [OF assms] this, of C fc hp]
  show "\<exists>c' hp'. applyFromDescriptor C fc desc c hp = Inr (c', hp') \<and>
      map_shape (split_data hp') (skeleton (baseNode c')) = desc_shape C desc" by blast
qed

theorem tab_operations_safe_witness:
  "\<exists>c'. run_op \<lparr>flex_eps = 1 / 10000, flex_ofSize = real\<rparr> (InsertOp (1::nat) no_options) (SplitContainer 0) = Inr c' \<and>
    mset (c_splits c') = {#1#}"
  using tab_operations_safe [OF reachable_new, THEN conjunct1, of 0 "InsertOp (1::nat) no_options"
      "\<lparr>flex_eps = 1 / 10000, flex_ofSize = real\<rparr>"]
  by (auto simp: SplitContainer_def valid_options_def no_options_def)

text \<open>A channel the application hands out for its type and name.\<close>

definition known_channel :: "'c channel_api \<Rightarrow> 'c \<Rightarrow> bool" where
  "known_channel C ch \<longleftrightarrow>
     (case chan_type C ch of
        Twitch \<Rightarrow> getOrAddChannel C (chan_name C ch) = ch
      | TwitchMentions \<Rightarrow> getMentionsChannel C = ch
      | TwitchWatching \<Rightarrow> getWatchingChannel C = ch
      | TwitchWhispers \<Rightarrow> getWhispersChannel C = ch
      | TwitchLive \<Rightarrow> getLiveChannel C = ch
      | TwitchAutomod \<Rightarrow> getAutomodChannel C = ch
      | Misc \<Rightarrow> getChannelOrEmpty C (chan_name C ch) = ch
      | NoneType \<Rightarrow> getEmpty C = ch
      | _ \<Rightarrow> False)"

lemma described_saved: "known_channel C (sp_channel d) \<Longrightarrow> described_split C (saved_split C d) = d"
  by (cases d; cases "chan_type C (sp_channel d)")
    (simp_all add: known_channel_def described_split_def saved_split_def decodeChannel_def)

lemma desc_shape_node:
  "tree_wf n \<Longrightarrow> \<forall>s\<in>set (leaves n). known_channel C (sp_channel (data s)) \<Longrightarrow>
    desc_shape C (node_descriptor C data n) = map_shape data (skeleton n) \<and> desc_wf (node_descriptor C data n)"
proof (induction n)
  case (Node i t s h v p cs)
  show ?case
  proof (cases "t = SplitNode")
    case True
    with Node.prems show ?thesis by (auto simp: described_saved)
  next
    case False
    with Node show ?thesis by (auto split: NodeType.splits)
  qed
qed

section \<open>Choosing a tab\<close>

fun contains_channel :: "string \<Rightarrow> ('q, 'u) NodeDescriptor \<Rightarrow> bool" where
  "contains_channel name (SplitNodeDescriptor h v sd) = (sd_channelName sd = name)"
| "contains_channel name (ContainerNodeDescriptor h v vert items) = (\<exists>d\<in>set items. contains_channel name d)"

text \<open>Two points for every split and one for every split of the channel that has filters.\<close>

fun node_score :: "string \<Rightarrow> ('q, 'u) NodeDescriptor \<Rightarrow> nat" where
  "node_score name (SplitNodeDescriptor h v sd) =
     (if sd_channelName sd = name \<and> sd_filters sd \<noteq> [] then 3 else 2)"
| "node_score name (ContainerNodeDescriptor h v vert items) = sum_list (map (node_score name) items)"

lemma visit_node_eq:
  "visit_node name n (k, b) = (k + node_score name n, b \<or> contains_channel name n)"
proof (induction n arbitrary: k b)
  case (ContainerNodeDescriptor h v vert items)
  have "fold (visit_node name) xs (k, b) =
      (k + sum_list (map (node_score name) xs), b \<or> (\<exists>d\<in>set xs. contains_channel name d))"
    if "set xs \<subseteq> set items" for xs
    using that ContainerNodeDescriptor by (induction xs arbitrary: k b) (auto simp: add.assoc)
  then show ?case by simp
qed (simp add: Let_def)

definition tab_has :: "string \<Rightarrow> ('q, 'u) TabDescriptor \<Rightarrow> bool" where
  "tab_has name tab \<longleftrightarrow> (\<exists>r. rootNode tab = Some r \<and> contains_channel name r)"

definition tab_score :: "string \<Rightarrow> ('q, 'u) TabDescriptor \<Rightarrow> nat" where
  "tab_score name tab = (case rootNode tab of Some r \<Rightarrow> node_score name r | None \<Rightarrow> 0)"

text \<open>\<open>b\<close> is the first of the best tabs among the first tabs of the list.\<close>

definition best_of :: "string \<Rightarrow> ('q, 'u) TabDescriptor list \<Rightarrow> (nat \<times> nat) option \<Rightarrow> bool" where
  "best_of name tabs b \<longleftrightarrow>
     (case b of
        None \<Rightarrow> \<forall>tab\<in>set tabs. \<not> tab_has name tab
      | Some (i, k) \<Rightarrow> i < length tabs \<and> tab_has name (tabs ! i) \<and> k = tab_score name (tabs ! i) \<and>
          (\<forall>j<length tabs. tab_has name (tabs ! j) \<longrightarrow> k \<le> tab_score name (tabs ! j)))"

lemma best_of_snoc:
  assumes "best_of name tabs b"
  shows "best_of name (tabs @ [tab])
    (if tab_has name tab \<and> (case b of None \<Rightarrow> True | Some (_, k) \<Rightarrow> tab_score name tab < k)
     then Some (length tabs, tab_score name tab) else b)"
proof (cases b)
  case None
  then show ?thesis using assms by (auto simp: best_of_def nth_append)
next
  case (Some ik)
  obtain i k where ik: "ik = (i, k)" by force
  show ?thesis
  proof (cases "tab_has name tab \<and> tab_score name tab < k")
    case True
    have "tab_score name tab \<le> tab_score name ((tabs @ [tab]) ! j)"
      if "j < Suc (length tabs)" "tab_has name ((tabs @ [tab]) ! j)" for j
    proof (cases "j = length tabs")
      case False
      with that assms Some ik have "k \<le> tab_score name (tabs ! j)" by (auto simp: best_of_def nth_append)
      with True that False show ?thesis by (simp add: nth_append)
    qed simp
    with True Some ik show ?thesis by (simp add: best_of_def)
  next
    case False
    have "k \<le> tab_score name ((tabs @ [tab]) ! j)"
      if "j < Suc (length tabs)" "tab_has name ((tabs @ [tab]) ! j)" for j
      using that assms Some ik False by (cases "j = length tabs") (auto simp: best_of_def nth_append)
    with False assms Some ik show ?thesis by (auto simp: best_of_def nth_append)
  qed
qed

lemma best_tab_loop_best:
  "best_of name ds b \<Longrightarrow> best_of name (ds @ tabs) (best_tab_loop name (length ds) tabs b)"
proof (induction tabs arbitrary: ds b)
  case (Cons tab tabs)
  let ?b = "if tab_has name tab \<and> (case b of None \<Rightarrow> True | Some (_, k) \<Rightarrow> tab_score name tab < k)
     then Some (length ds, tab_score name tab) else b"
  from Cons.IH [OF best_of_snoc [OF Cons.prems, of tab]]
  have "best_of name (ds @ tab # tabs) (best_tab_loop name (Suc (length ds)) tabs ?b)" by simp
  moreover have "best_tab_loop name (length ds) (tab # tabs) b = best_tab_loop name (Suc (length ds)) tabs ?b"
    by (cases "rootNode tab"; cases b) (auto simp: tab_has_def tab_score_def visit_node_eq Let_def)
  ultimately show ?case by simp
qed simp

section \<open>Properties\<close>

text \<open>
  C10. Loading a window layout returns for every JSON value, however deep and whatever its contents:
  one window for each entry, in order, at most one of them the main window, at most one selected tab
  in each.
\<close>

theorem loadFromFile_total:
  assumes "json_laws J"
  shows "\<exists>layout. loadFromFile J vals = Some layout \<and> length (windows layout) = length vals \<and>
    length (filter (\<lambda>w. w_type w = Main) (windows layout)) \<le> 1 \<and>
    (\<forall>w\<in>set (windows layout). one_selected (w_tabs w) \<and> w_type w \<noteq> Attached)"
  using load_windows_total [OF assms, of False vals "\<lparr>emotePopupBounds = (0, 0, 0, 0), windows = []\<rparr>"]
  by (auto simp: loadFromFile_def)

text \<open>
  C9. Saving and loading a tab restores it.  A tab with splits, written as JSON, is read back with
  its title, its selection and its highlight setting; the descriptor builds, in an empty tab, a tree
  of the same shape whose splits have the same channels, filters and moderation modes.
\<close>

theorem tab_save_load:
  assumes J: "json_laws J" and ok: "container_ok c" "c_splits c \<noteq> []"
    and chans: "\<forall>s\<in>set (c_splits c). known_channel C (sp_channel (data s))"
    and new: "container_ok new" "n_type (baseNode new) = EmptyRoot"
  shows "\<exists>tab desc c' hp'. TabDescriptor_loadFromJSON J
      (encodeTab J C data title hl (baseNode c) sel (j_object J)) = Some tab \<and>
    customTitle tab = (case title of Some s \<Rightarrow> s | None \<Rightarrow> []) \<and> tab_selected tab = sel \<and> highlightsEnabled tab = hl \<and>
    rootNode tab = Some desc \<and> applyFromDescriptor C fc desc new hp = Inr (c', hp') \<and> container_ok c' \<and>
    map_shape (split_data hp') (skeleton (baseNode c')) = map_shape data (skeleton (baseNode c))"
proof -
  have wf: "tree_wf (baseNode c)" using container_wf [OF ok(1)] ok(2) by (cases "c_splits c") auto
  have "\<forall>s\<in>set (leaves (baseNode c)). known_channel C (sp_channel (data s))"
    using chans set_leaves [OF ok(1)] by simp
  from desc_shape_node [OF wf this]
  have d: "desc_shape C (node_descriptor C data (baseNode c)) = map_shape data (skeleton (baseNode c))"
    "desc_wf (node_descriptor C data (baseNode c))" by auto
  from applyFromDescriptor_ok [OF new d(2), of C fc hp] d(1) tab_codec [OF J wf, of C data title hl sel]
  show ?thesis by auto
qed

text \<open>A concrete instance of the parameters: JSON values as a datatype, channels as type and name.\<close>

datatype json =
    JUndefined
  | JBool bool
  | JDouble real
  | JString string
  | JArray "json list"
  | JObject "(string \<times> json) list"

fun json_depth_of :: "json \<Rightarrow> nat" where
  "json_depth_of (JArray xs) = Suc (sum_list (map json_depth_of xs))"
| "json_depth_of (JObject kvs) = sum_list (map (\<lambda>(k, v). json_depth_of v) kvs)"
| "json_depth_of _ = 0"

definition json_fields :: "json \<Rightarrow> (string \<times> json) list" where
  "json_fields v = (case v of JObject kvs \<Rightarrow> kvs | _ \<Rightarrow> [])"

definition sample_json :: "(json, real, string) json_api" where
  "sample_json = \<lparr>j_object = JObject [], j_insert = (\<lambda>ob k v. JObject ((k, v) # json_fields ob)),
     j_value = (\<lambda>ob k. case map_of (json_fields ob) k of Some v \<Rightarrow> v | None \<Rightarrow> JUndefined),
     j_contains = (\<lambda>ob k. map_of (json_fields ob) k \<noteq> None), j_isEmpty = (\<lambda>ob. json_fields ob = []),
     j_isUndefined = (\<lambda>v. v = JUndefined), j_isString = (\<lambda>v. case v of JString _ \<Rightarrow> True | _ \<Rightarrow> False),
     j_equals = (\<lambda>v s. v = JString s), j_toObject = (\<lambda>v. JObject (json_fields v)),
     j_toArray = (\<lambda>v. case v of JArray xs \<Rightarrow> xs | _ \<Rightarrow> []),
     j_toString = (\<lambda>v. case v of JString s \<Rightarrow> s | _ \<Rightarrow> []),
     j_toBool = (\<lambda>v d. case v of JBool b \<Rightarrow> b | _ \<Rightarrow> d), j_toInt = (\<lambda>v d. d),
     j_toDouble = (\<lambda>v d. case v of JDouble x \<Rightarrow> x | _ \<Rightarrow> d),
     j_array = JArray, j_string = JString, j_bool = JBool, j_double = JDouble, j_depth = json_depth_of,
     u_toString = (\<lambda>u. u), u_fromString = (\<lambda>s. s)\<rparr>"

lemma json_depth_member: "w \<in> set xs \<Longrightarrow> json_depth_of w \<le> sum_list (map json_depth_of xs)"
  by (induction xs) auto

lemma json_depth_field:
  "map_of kvs k = Some v \<Longrightarrow> json_depth_of v \<le> sum_list (map (\<lambda>(k, v). json_depth_of v) kvs)"
  by (induction kvs) (auto split: if_splits)

lemma sample_json_laws: "json_laws sample_json"
proof -
  have "json_depth_of (case map_of (json_fields v) k of Some v \<Rightarrow> v | None \<Rightarrow> JUndefined) \<le> json_depth_of v" for v k
    using json_depth_field by (cases v) (auto simp: json_fields_def split: option.splits)
  moreover have "w \<in> set (case v of JArray xs \<Rightarrow> xs | _ \<Rightarrow> []) \<Longrightarrow> json_depth_of w < json_depth_of v" for v w
    using json_depth_member by (cases v) (auto simp: less_Suc_eq_le)
  moreover have "json_depth_of (JObject (json_fields v)) \<le> json_depth_of v" for v
    by (cases v) (auto simp: json_fields_def)
  ultimately show ?thesis
    unfolding json_laws_def by (simp add: sample_json_def) (simp add: json_fields_def)
qed

definition sample_channels :: "(ChannelType \<times> string) channel_api" where
  "sample_channels = \<lparr>chan_type = fst, chan_name = snd, getOrAddChannel = (\<lambda>n. (Twitch, n)),
     getChannelOrEmpty = (\<lambda>n. (Misc, n)), getMentionsChannel = (TwitchMentions, ''/mentions''),
     getWatchingChannel = (TwitchWatching, ''/watching''), getWhispersChannel = (TwitchWhispers, ''/whispers''),
     getLiveChannel = (TwitchLive, ''/live''), getAutomodChannel = (TwitchAutomod, ''/automod''),
     getEmpty = (NoneType, [])\<rparr>"

theorem loadFromFile_total_witness:
  "\<exists>layout. loadFromFile sample_json [JObject [(''type'', JString ''main'')], JObject [(''type'', JString ''main'')]] =
      Some layout \<and> length (filter (\<lambda>w. w_type w = Main) (windows layout)) \<le> 1"
  using loadFromFile_total [OF sample_json_laws, of "[JObject [(''type'', JString ''main'')], JObject [(''type'', JString ''main'')]]"]
  by blast

theorem tab_save_load_witness:
  "\<exists>tab desc c' hp'. TabDescriptor_loadFromJSON sample_json
      (encodeTab sample_json sample_channels (\<lambda>s. \<lparr>sp_channel = (Twitch, ''forsen''), sp_moderationMode = s = (11::nat),
          sp_filters = []\<rparr>) None True (baseNode (sample_tab VerticalContainer)) False (j_object sample_json)) = Some tab \<and>
    rootNode tab = Some desc \<and> applyFromDescriptor sample_channels sample_consts desc (SplitContainer 0)
      \<lparr>next_split = 0, split_data = (\<lambda>_. undefined)\<rparr> = Inr (c', hp') \<and> container_ok c'"
proof -
  have "c_splits (sample_tab VerticalContainer) \<noteq> []" "n_type (baseNode (SplitContainer 0)) = EmptyRoot"
    by (simp_all add: sample_tab_def SplitContainer_def Node_empty_def)
  from tab_save_load [OF sample_json_laws sample_tab_ok [of VerticalContainer] this(1) _ container_ok_new this(2),
      of sample_channels "\<lambda>s. \<lparr>sp_channel = (Twitch, ''forsen''), sp_moderationMode = s = 11, sp_filters = []\<rparr>"
        None True False sample_consts "\<lparr>next_split = 0, split_data = (\<lambda>_. undefined)\<rparr>"]
  show ?thesis by (fastforce simp: is_container_def known_channel_def sample_channels_def)
qed

text \<open>
  A container with one item in a layout file is accepted, and releasing its split then reads the
  last element of an empty vector.
\<close>

theorem one_item_container_release:
  assumes "container_ok c" "n_type (baseNode c) = EmptyRoot"
  shows "\<exists>c' hp'. applyFromDescriptor C fc (ContainerNodeDescriptor h v vert [SplitNodeDescriptor h' v' sd]) c hp =
      Inr (c', hp') \<and> c_splits c' = [next_split hp] \<and> releaseSplit fc (next_split hp) c' = Inl BackOfEmpty"
proof -
  note em = empty_tab [OF assms]
  obtain i fh fv p where b: "baseNode c = Node i EmptyRoot None fh fv p []"
    using em(1) by (cases "baseNode c") (auto simp: is_empty_root_def)
  have i: "i \<noteq> fresh_id c" using assms(1) b by (auto simp: container_ok_def)
  let ?k = "next_split hp"
  let ?t = "if vert then VerticalContainer else HorizontalContainer"
  let ?b = "Node i ?t None fh fv p [Node (fresh_id c) SplitNode (Some ?k) h' v' None []]"
  let ?c = "c\<lparr>baseNode := ?b, fresh_id := Suc (fresh_id c), focus_requests := focus_requests c @ [?k],
    c_splits := [?k], connectionsPerSplit := {?k}, disableLayouting := False\<rparr>"
  have r: "applyFromDescriptor C fc (ContainerNodeDescriptor h v vert [SplitNodeDescriptor h' v' sd]) c hp =
      Inr (c_layout fc ?c, new_Split C sd hp)"
    using em b by (simp add: applyFromDescriptor_def addSplit_def setFocus_def c_layout_def Let_def)
  have "\<exists>h2 v2. baseNode (c_layout fc ?c) =
      Node i ?t None fh fv p [Node (fresh_id c) SplitNode (Some ?k) h2 v2 None []]"
    by (cases vert) (simp_all add: c_layout_def Let_def normalize_flex_def clamp_def)
  then obtain h2 v2 where lb: "baseNode (c_layout fc ?c) =
      Node i ?t None fh fv p [Node (fresh_id c) SplitNode (Some ?k) h2 v2 None []]" by blast
  have "releaseSplit fc ?k (c_layout fc ?c) = Inl BackOfEmpty"
    using i by (simp add: releaseSplit_def lb Node_releaseSplit_def release_child_def Let_def)
  with r show ?thesis by auto
qed

theorem one_item_container_release_witness:
  "\<exists>c' hp'. applyFromDescriptor sample_channels sample_consts (ContainerNodeDescriptor 1 1 True [new_split_node ''forsen''])
      (SplitContainer 0) \<lparr>next_split = 7, split_data = (\<lambda>_. undefined)\<rparr> = Inr (c', hp' :: (_, string) SplitHeap) \<and>
    releaseSplit sample_consts 7 c' = Inl BackOfEmpty"
proof -
  have e: "n_type (baseNode (SplitContainer 0)) = EmptyRoot" by (simp add: SplitContainer_def Node_empty_def)
  from one_item_container_release [OF container_ok_new e, of sample_channels sample_consts 1 1 True 1 1
      "d_split (new_split_node ''forsen'')" "\<lparr>next_split = 7, split_data = (\<lambda>_. undefined)\<rparr>"]
  show ?thesis by (auto simp: new_split_node_def)
qed

text \<open>
  C12. Activating a channel.  In the first main window every tab is deselected and, when some tab has
  a split of the channel, one of the tabs with the lowest score is selected; otherwise a selected tab
  with a new split of the channel is added.  No other window changes, no tab is lost or moved.
\<close>

theorem activate_selects_best:
  assumes name: "take 1 name \<noteq> ''/''" "take 1 name \<noteq> ''$''"
    and m: "first_index (\<lambda>w. w_type w = Main) (windows layout) = Some m"
    and tabs: "tabs = w_tabs (windows layout ! m)"
  shows "\<exists>tabs'. windows (activateOrAddChannel True name layout) =
      (windows layout)[m := (windows layout ! m)\<lparr>w_tabs := tabs'\<rparr>] \<and>
    (if \<exists>tab\<in>set tabs. tab_has name tab then
       \<exists>i<length tabs. tab_has name (tabs ! i) \<and>
         (\<forall>j<length tabs. tab_has name (tabs ! j) \<longrightarrow> tab_score name (tabs ! i) \<le> tab_score name (tabs ! j)) \<and>
         tabs' = (map (\<lambda>tab. tab\<lparr>tab_selected := False\<rparr>) tabs)[i := (tabs ! i)\<lparr>tab_selected := True\<rparr>]
     else tabs' = map (\<lambda>tab. tab\<lparr>tab_selected := False\<rparr>) tabs @ [new_selected_tab name])"
proof -
  let ?w = "windows layout ! m"
  have act: "windows (activateOrAddChannel True name layout) = (windows layout)[m := activate_in_window name ?w]"
    using name m by (simp add: activateOrAddChannel_def)
  have best: "best_of name tabs (best_tab_loop name 0 tabs None)"
    using best_tab_loop_best [of name "[]" None tabs] by (simp add: best_of_def)
  show ?thesis
  proof (cases "best_tab_loop name 0 tabs None")
    case None
    with best have "\<not> (\<exists>tab\<in>set tabs. tab_has name tab)" by (simp add: best_of_def)
    with None show ?thesis using act tabs by (auto simp: activate_in_window_def Let_def)
  next
    case (Some ik)
    obtain i k where ik: "ik = (i, k)" by force
    from best Some ik have i: "i < length tabs" "tab_has name (tabs ! i)"
      "\<forall>j<length tabs. tab_has name (tabs ! j) \<longrightarrow> tab_score name (tabs ! i) \<le> tab_score name (tabs ! j)"
      by (auto simp: best_of_def)
    then have ex: "\<exists>tab\<in>set tabs. tab_has name tab" using nth_mem by blast
    have "activate_in_window name ?w =
        ?w\<lparr>w_tabs := (map (\<lambda>tab. tab\<lparr>tab_selected := False\<rparr>) tabs)[i := (tabs ! i)\<lparr>tab_selected := True\<rparr>]\<rparr>"
      using Some ik tabs i(1) by (simp add: activate_in_window_def Let_def)
    with act ex i show ?thesis by auto
  qed
qed

theorem activate_selects_best_witness:
  "windows (activateOrAddChannel True ''forsen''
      \<lparr>emotePopupBounds = (0, 0, 0, 0), windows = [\<lparr>w_type = Main, w_state = WindowNone, w_geometry = (0, 0, 0, 0),
         w_tabs = [new_selected_tab ''nymn'' :: (real, string) TabDescriptor]\<rparr>]\<rparr>) =
    [\<lparr>w_type = Main, w_state = WindowNone, w_geometry = (0, 0, 0, 0),
      w_tabs = [(new_selected_tab ''nymn'')\<lparr>tab_selected := False\<rparr>, new_selected_tab ''forsen'']\<rparr>]"
  using activate_selects_best [of "''forsen''" "\<lparr>emotePopupBounds = (0, 0, 0, 0), windows = [\<lparr>w_type = Main,
      w_state = WindowNone, w_geometry = (0, 0, 0, 0), w_tabs = [new_selected_tab ''nymn'' :: (real, string) TabDescriptor]\<rparr>]\<rparr>" 0,
      OF _ _ _ refl]
  by (simp add: tab_has_def new_selected_tab_def new_split_node_def)

end
