(* ===== verification/TwitchTags.thy ===== *)
theory TwitchTags
  imports Prelude "HOL-Library.Word"
begin

text \<open>
  Tags of Twitch's IRC messages: \<open>parseTagString\<close> and \<open>slashKeyValue\<close> of \<open>util/IrcHelpers.hpp\<close>, and the
  badges and emotes of \<open>providers/twitch/TwitchIrc.cpp\<close>.  A text is a list of 16-bit code units; the tags
  of a message are a map from names to texts.
\<close>

type_synonym qstring = "16 word list"

text \<open>The code unit of an ASCII character, and a literal.\<close>

definition qc :: "char \<Rightarrow> 16 word" where
  "qc c = of_char c"

definition qs :: "string \<Rightarrow> qstring" where
  "qs s = map qc s"

section \<open>Escaped tag values\<close>

text \<open>\<open>QChar::cell\<close>, the low byte of a code unit.\<close>

definition cell :: "16 word \<Rightarrow> 16 word" where
  "cell c = c mod 256"

text \<open>The text that replaces a backslash and the character behind it.\<close>

definition unescaped :: "16 word \<Rightarrow> 16 word" where
  "unescaped c =
     (if cell c = qc (CHR ''n'') then 10
      else if cell c = qc (CHR ''r'') then 13
      else if cell c = qc (CHR ''s'') then qc (CHR '' '')
      else if cell c = 92 then 92
      else if cell c = qc (CHR '':'') then qc (CHR '';'')
      else c)"

text \<open>\<open>output.replace(i, 2, x)\<close>, and \<open>output.remove(i, 1)\<close> in the default case, which leaves the
  character at \<open>i\<close>.\<close>

function tagLoop :: "qstring \<Rightarrow> nat \<Rightarrow> nat \<Rightarrow> qstring" where
  "tagLoop output len i =
     (if i + 1 < len then
        if output ! i = 92
        then tagLoop (take i output @ unescaped (output ! (i + 1)) # drop (i + 2) output) (len - 1) (Suc i)
        else tagLoop output len (Suc i)
      else output)"
  by pat_completeness auto
termination by (relation "measure (\<lambda>(output, len, i). len - i)") auto

declare tagLoop.simps [simp del]

definition parseTagString :: "qstring \<Rightarrow> qstring" where
  "parseTagString input = tagLoop input (length input) 0"

text \<open>The reference: an escape is a backslash and one character, a backslash at the end stands for
  itself.\<close>

fun unescape :: "qstring \<Rightarrow> qstring" where
  "unescape (c # d # s) = (if c = 92 then unescaped d # unescape s else c # unescape (d # s))"
| "unescape s = s"

lemma tagLoop_unescape:
  "tagLoop (pre @ s) (length (pre @ s)) (length pre) = pre @ unescape s"
proof (induction s arbitrary: pre rule: unescape.induct)
  case (1 c d s)
  show ?case
  proof (cases "c = 92")
    case True
    then have "tagLoop (pre @ c # d # s) (length (pre @ c # d # s)) (length pre) =
        tagLoop ((pre @ [unescaped d]) @ s) (length ((pre @ [unescaped d]) @ s)) (length (pre @ [unescaped d]))"
      by (subst tagLoop.simps) (simp add: nth_append)
    then show ?thesis using 1(1) [OF True, of "pre @ [unescaped d]"] True by simp
  next
    case False
    then have "tagLoop (pre @ c # d # s) (length (pre @ c # d # s)) (length pre) =
        tagLoop ((pre @ [c]) @ d # s) (length ((pre @ [c]) @ d # s)) (length (pre @ [c]))"
      by (subst tagLoop.simps) (simp add: nth_append)
    then show ?thesis using 1(2) [OF False, of "pre @ [c]"] False by simp
  qed
qed (subst tagLoop.simps, simp)+

lemma parseTagString_unescape: "parseTagString s = unescape s"
  using tagLoop_unescape [of "[]" s] by (simp add: parseTagString_def)

text \<open>How a server escapes a value (IRCv3).\<close>

definition escaped :: "16 word \<Rightarrow> qstring" where
  "escaped c =
     (if c = 10 then [92, qc (CHR ''n'')]
      else if c = 13 then [92, qc (CHR ''r'')]
      else if c = qc (CHR '' '') then [92, qc (CHR ''s'')]
      else if c = 92 then [92, 92]
      else if c = qc (CHR '';'') then [92, qc (CHR '':'')]
      else [c])"

definition escapeTag :: "qstring \<Rightarrow> qstring" where
  "escapeTag s = concat (map escaped s)"

lemma qc_values [simp]:
  "qc (CHR ''n'') = 110" "qc (CHR ''r'') = 114" "qc (CHR ''s'') = 115" "qc (CHR '' '') = 32"
  "qc (CHR '';'') = 59" "qc (CHR '':'') = 58" "qc (CHR ''/'') = 47" "qc (CHR '','') = 44" "qc (CHR ''-'') = 45"
  by (simp_all add: qc_def)

lemma unescape_escaped: "unescape (escaped c @ s) = c # unescape s"
  by (cases s) (auto simp: escaped_def unescaped_def cell_def)

text \<open>
  C30. \<open>parseTagString\<close>, which rewrites the text in place while the index advances, undoes the
  escaping of tag values: every text is read back.\<close>

theorem parseTagString_escapeTag: "parseTagString (escapeTag s) = s"
proof -
  have "unescape (escapeTag s) = s"
    by (induction s) (simp_all add: escapeTag_def unescape_escaped)
  then show ?thesis by (simp add: parseTagString_unescape)
qed

text \<open>Only the low byte is compared: \<open>U+016E\<close> behind a backslash becomes a line break.\<close>

lemma parseTagString_low_byte: "parseTagString [92, 0x16E] = [10]"
  by (simp add: parseTagString_unescape unescaped_def cell_def)

section \<open>Badges\<close>

text \<open>\<open>section('/', 0, 0)\<close> and \<open>section('/', 1, -1)\<close>.\<close>

fun join_with :: "'a \<Rightarrow> 'a list list \<Rightarrow> 'a list" where
  "join_with c [] = []"
| "join_with c [s] = s"
| "join_with c (s # ss) = s @ c # join_with c ss"

definition slashKeyValue :: "qstring \<Rightarrow> qstring \<times> qstring" where
  "slashKeyValue kvStr =
     (let parts = splitOn (qc (CHR ''/'')) kvStr in (hd parts, join_with (qc (CHR ''/'')) (tl parts)))"

type_synonym tags = "string \<rightharpoonup> qstring"

text \<open>\<open>split(',', Qt::SkipEmptyParts)\<close>.\<close>

definition split_commas :: "qstring \<Rightarrow> qstring list" where
  "split_commas s = filter (\<lambda>w. w \<noteq> []) (splitOn (qc (CHR '','')) s)"

text \<open>\<open>emplace\<close> keeps an entry that is present.\<close>

definition emplace :: "('k \<rightharpoonup> 'v) \<Rightarrow> 'k \<times> 'v \<Rightarrow> 'k \<rightharpoonup> 'v" where
  "emplace m kv = (if fst kv \<in> dom m then m else m(fst kv \<mapsto> snd kv))"

definition parseBadgeInfoTag :: "tags \<Rightarrow> qstring \<rightharpoonup> qstring" where
  "parseBadgeInfoTag tgs =
     (case tgs ''badge-info'' of
        None \<Rightarrow> Map.empty
      | Some info \<Rightarrow> foldl (\<lambda>infoMap badge. emplace infoMap (slashKeyValue badge)) Map.empty (split_commas info))"

datatype BadgeFlag = BadgeGlobalAuthority | BadgePredictions | BadgeChannelAuthority | BadgeSubscription | BadgeVanity

record Badge =
  badge_key :: qstring
  badge_value :: qstring
  badge_flag :: BadgeFlag

definition make_Badge :: "qstring \<Rightarrow> qstring \<Rightarrow> Badge" where
  "make_Badge k v =
     \<lparr>badge_key = k, badge_value = v,
      badge_flag =
        (if k \<in> {qs ''staff'', qs ''admin'', qs ''global_mod''} then BadgeGlobalAuthority
         else if k = qs ''predictions'' then BadgePredictions
         else if k \<in> {qs ''moderator'', qs ''vip'', qs ''broadcaster''} then BadgeChannelAuthority
         else if k \<in> {qs ''subscriber'', qs ''founder''} then BadgeSubscription
         else BadgeVanity)\<rparr>"

definition Badge_equals :: "Badge \<Rightarrow> Badge \<Rightarrow> bool" where
  "Badge_equals a b \<longleftrightarrow> badge_key a = badge_key b \<and> badge_value a = badge_value b"

definition parseBadgeTag :: "tags \<Rightarrow> Badge list" where
  "parseBadgeTag tgs =
     (case tgs ''badges'' of
        None \<Rightarrow> []
      | Some s \<Rightarrow>
          foldl (\<lambda>b badge.
            if qc (CHR ''/'') \<notin> set badge then b
            else let pair = slashKeyValue badge in b @ [make_Badge (fst pair) (snd pair)])
            [] (split_commas s))"

text \<open>Badges as a server writes them.\<close>

definition badge_text :: "Badge \<Rightarrow> qstring" where
  "badge_text b = badge_key b @ qc (CHR ''/'') # badge_value b"

definition plain_badge :: "Badge \<Rightarrow> bool" where
  "plain_badge b \<longleftrightarrow> b = make_Badge (badge_key b) (badge_value b) \<and>
     qc (CHR ''/'') \<notin> set (badge_key b) \<and> qc (CHR '','') \<notin> set (badge_key b) \<and>
     qc (CHR '','') \<notin> set (badge_value b)"

lemma joined_head: "join_with c ((x # h) # t) = x # join_with c (h # t)"
  by (cases t) auto

lemma joined_splitOn: "join_with c (splitOn c s) = s"
proof (induction s)
  case (Cons x s)
  then show ?case
    using splitOn_ne [of c s] by (cases "splitOn c s") (auto simp: joined_head elim: join_with.elims)
qed simp

lemma joined_cons: "ss \<noteq> [] \<Longrightarrow> join_with c (s # ss) = s @ c # join_with c ss"
  by (cases ss) auto

lemma slashKeyValue_append:
  assumes "qc (CHR ''/'') \<notin> set k"
  shows "slashKeyValue (k @ qc (CHR ''/'') # v) = (k, v)"
  unfolding slashKeyValue_def Let_def splitOn_append [OF assms] by (simp add: joined_splitOn)

lemma splitOn_joined:
  assumes "ws \<noteq> []" "\<forall>w\<in>set ws. c \<notin> set w"
  shows "splitOn c (join_with c ws) = ws"
  using assms
proof (induction ws rule: join_with.induct)
  case (3 c s s' ss)
  then show ?case by (simp add: splitOn_append)
qed (auto simp: splitOn_none)

lemma badge_loop:
  assumes "\<forall>b\<in>set bs. plain_badge b"
  shows "foldl (\<lambda>b badge.
      if qc (CHR ''/'') \<notin> set badge then b
      else let pair = slashKeyValue badge in b @ [make_Badge (fst pair) (snd pair)]) acc (map badge_text bs) = acc @ bs"
  using assms
proof (induction bs arbitrary: acc)
  case (Cons b bs)
  have "slashKeyValue (badge_text b) = (badge_key b, badge_value b)"
    unfolding badge_text_def using Cons.prems by (intro slashKeyValue_append) (simp add: plain_badge_def)
  moreover have "make_Badge (badge_key b) (badge_value b) = b"
    using Cons.prems by (simp add: plain_badge_def)
  moreover have "qc (CHR ''/'') \<in> set (badge_text b)" by (simp add: badge_text_def)
  ultimately show ?case using Cons by (simp add: Let_def del: qc_values)
qed simp

text \<open>
  The badges of a message, written as \<open>name/value\<close> with commas between, are read back in order
  with the flag of their name; a value may itself contain slashes.\<close>

theorem parseBadgeTag_reads:
  assumes "\<forall>b\<in>set bs. plain_badge b"
  shows "parseBadgeTag [''badges'' \<mapsto> join_with (qc (CHR '','')) (map badge_text bs)] = bs"
proof (cases "bs = []")
  case True
  then show ?thesis by (simp add: parseBadgeTag_def split_commas_def)
next
  case False
  have "splitOn (qc (CHR '','')) (join_with (qc (CHR '','')) (map badge_text bs)) = map badge_text bs"
  proof (rule splitOn_joined)
    show "\<forall>w\<in>set (map badge_text bs). qc (CHR '','') \<notin> set w"
      using assms by (auto simp: plain_badge_def badge_text_def)
  qed (use False in simp)
  then have "split_commas (join_with (qc (CHR '','')) (map badge_text bs)) = map badge_text bs"
    by (simp add: split_commas_def badge_text_def filter_id_conv del: qc_values)
  then show ?thesis using badge_loop [OF assms, of "[]"] by (simp add: parseBadgeTag_def del: qc_values)
qed

theorem parseBadgeTag_reads_witness:
  "parseBadgeTag [''badges'' \<mapsto> join_with (qc (CHR '','')) (map badge_text
      [make_Badge (qs ''subscriber'') (qs ''3''), make_Badge (qs ''game'') (qs ''a/b'')])] =
    [make_Badge (qs ''subscriber'') (qs ''3''), make_Badge (qs ''game'') (qs ''a/b'')]"
  by (rule parseBadgeTag_reads) (simp add: plain_badge_def make_Badge_def qs_def qc_def)

section \<open>Emotes\<close>

record ('c, 'e) TwitchEmoteOccurrence =
  occ_start :: int
  occ_end :: int
  occ_ptr :: "'e option"
  occ_name :: "'c list"

definition isLowSurrogate16 :: "16 word \<Rightarrow> bool" where
  "isLowSurrogate16 c \<longleftrightarrow> 0xDC00 \<le> c \<and> c \<le> 0xDFFF"

text \<open>The positions at which a code point starts.\<close>

definition correctPositions :: "qstring \<Rightarrow> int list" where
  "correctPositions content =
     foldl (\<lambda>ps i. if \<not> isLowSurrogate16 (content ! i) then ps @ [int i] else ps) [] [0..<length content]"

text \<open>The loop over the occurrences of one emote; an occurrence out of range ends it.  \<open>toUInt\<close> is Qt's,
  the coordinates are unsigned 32-bit values.\<close>

fun occurrenceLoop ::
  "(qstring \<Rightarrow> 32 word) \<Rightarrow> (qstring \<Rightarrow> qstring \<Rightarrow> 'e option) \<Rightarrow> qstring \<Rightarrow> int list \<Rightarrow> qstring \<Rightarrow> 32 word \<Rightarrow>
    qstring list \<Rightarrow> (16 word, 'e) TwitchEmoteOccurrence list \<Rightarrow> (16 word, 'e) TwitchEmoteOccurrence list" where
  "occurrenceLoop toUInt getOrCreateEmote i ps originalMessage messageOffset [] vec = vec"
| "occurrenceLoop toUInt getOrCreateEmote i ps originalMessage messageOffset (occurrence # os) vec =
     (let coords = splitOn (qc (CHR ''-'')) occurrence in
      if length coords < 2 then vec
      else
        let from = toUInt (coords ! 0) - messageOffset;
            to = toUInt (coords ! 1) - messageOffset;
            maxPositions = length ps
        in if from > to \<or> unat to \<ge> maxPositions then vec
           else
             let st = ps ! unat from; en = ps ! unat to in
             if st > en \<or> st < 0 \<or> en > int (length originalMessage) then vec
             else
               let nm = take (nat (en - st + 1)) (drop (nat st) originalMessage)
               in occurrenceLoop toUInt getOrCreateEmote i ps originalMessage messageOffset os
                    (vec @ [\<lparr>occ_start = st, occ_end = en, occ_ptr = getOrCreateEmote i nm, occ_name = nm\<rparr>]))"

definition appendTwitchEmoteOccurrences ::
  "(qstring \<Rightarrow> 32 word) \<Rightarrow> (qstring \<Rightarrow> qstring \<Rightarrow> 'e option) \<Rightarrow> qstring \<Rightarrow>
    (16 word, 'e) TwitchEmoteOccurrence list \<Rightarrow> int list \<Rightarrow> qstring \<Rightarrow> 32 word \<Rightarrow>
    (16 word, 'e) TwitchEmoteOccurrence list" where
  "appendTwitchEmoteOccurrences toUInt getOrCreateEmote emote vec ps originalMessage messageOffset =
     (if qc (CHR '':'') \<notin> set emote then vec
      else
        let parameters = splitOn (qc (CHR '':'')) emote in
        if length parameters < 2 then vec
        else occurrenceLoop toUInt getOrCreateEmote (parameters ! 0) ps originalMessage messageOffset
               (splitOn (qc (CHR '','')) (parameters ! 1)) vec)"

definition parseTwitchEmotes ::
  "(qstring \<Rightarrow> 32 word) \<Rightarrow> (qstring \<Rightarrow> qstring \<Rightarrow> 'e option) \<Rightarrow> tags \<Rightarrow> qstring \<Rightarrow> 32 word \<Rightarrow>
    (16 word, 'e) TwitchEmoteOccurrence list" where
  "parseTwitchEmotes toUInt getOrCreateEmote tgs content messageOffset =
     (case tgs ''emotes'' of
        None \<Rightarrow> []
      | Some emotesTag \<Rightarrow>
          foldl (\<lambda>vec emote.
              appendTwitchEmoteOccurrences toUInt getOrCreateEmote emote vec (correctPositions content) content messageOffset)
            [] (splitOn (qc (CHR ''/'')) emotesTag))"

lemma correctPositions_filter:
  "correctPositions content = map int (filter (\<lambda>i. \<not> isLowSurrogate16 (content ! i)) [0..<length content])"
proof -
  have "foldl (\<lambda>ps i. if \<not> isLowSurrogate16 (content ! i) then ps @ [int i] else ps) acc js =
      acc @ map int (filter (\<lambda>i. \<not> isLowSurrogate16 (content ! i)) js)" for acc js
    by (induction js arbitrary: acc) auto
  then show ?thesis by (simp add: correctPositions_def)
qed

lemma correctPositions_sorted: "sorted (correctPositions content)"
  unfolding correctPositions_filter by (intro sorted_map_mono sorted_wrt_filter) (auto intro: mono_onI)

lemma correctPositions_nth:
  assumes "i < length (correctPositions content)"
  shows "0 \<le> correctPositions content ! i \<and> correctPositions content ! i < int (length content) \<and>
    \<not> isLowSurrogate16 (content ! nat (correctPositions content ! i))"
proof -
  have "correctPositions content ! i \<in> set (correctPositions content)" using assms by simp
  then show ?thesis unfolding correctPositions_filter by auto
qed

text \<open>What holds of an occurrence in the text of its message.\<close>

definition occurrence_in :: "qstring \<Rightarrow> (16 word, 'e) TwitchEmoteOccurrence \<Rightarrow> bool" where
  "occurrence_in content oc \<longleftrightarrow>
     0 \<le> occ_start oc \<and> occ_start oc \<le> occ_end oc \<and> occ_end oc < int (length content) \<and>
     \<not> isLowSurrogate16 (content ! nat (occ_start oc)) \<and> \<not> isLowSurrogate16 (content ! nat (occ_end oc)) \<and>
     occ_name oc = take (nat (occ_end oc - occ_start oc + 1)) (drop (nat (occ_start oc)) content)"

lemma occurrenceLoop_in:
  assumes "list_all (occurrence_in content) vec"
  shows "list_all (occurrence_in content)
    (occurrenceLoop toUInt getOrCreateEmote i (correctPositions content) content off os vec)"
  using assms
proof (induction os arbitrary: vec)
  case (Cons occurrence os)
  let ?ps = "correctPositions content"
  let ?c = "splitOn (qc (CHR ''-'')) occurrence"
  define fr to where "fr = toUInt (?c ! 0) - off" and "to = toUInt (?c ! 1) - off"
  show ?case
  proof (cases "length ?c < 2 \<or> fr > to \<or> unat to \<ge> length ?ps")
    case True
    then show ?thesis using Cons.prems by (auto simp: Let_def fr_def to_def simp del: qc_values)
  next
    case False
    then have ft: "unat fr \<le> unat to" "unat to < length ?ps" by (auto simp: word_le_nat_alt not_less)
    let ?st = "?ps ! unat fr" and ?en = "?ps ! unat to"
    have le: "?st \<le> ?en" using correctPositions_sorted ft by (rule sorted_nth_mono)
    have st: "0 \<le> ?st" "?st < int (length content)" "\<not> isLowSurrogate16 (content ! nat ?st)"
      and en: "?en < int (length content)" "\<not> isLowSurrogate16 (content ! nat ?en)"
      using correctPositions_nth [of "unat fr" content] correctPositions_nth [of "unat to" content] ft by auto
    have "occurrenceLoop toUInt getOrCreateEmote i ?ps content off (occurrence # os) vec =
        occurrenceLoop toUInt getOrCreateEmote i ?ps content off os
          (vec @ [\<lparr>occ_start = ?st, occ_end = ?en,
             occ_ptr = getOrCreateEmote i (take (nat (?en - ?st + 1)) (drop (nat ?st) content)),
             occ_name = take (nat (?en - ?st + 1)) (drop (nat ?st) content)\<rparr>])"
      using False le st en unfolding fr_def to_def by (simp add: Let_def del: qc_values)
    moreover have "list_all (occurrence_in content) (vec @ [\<lparr>occ_start = ?st, occ_end = ?en,
             occ_ptr = getOrCreateEmote i (take (nat (?en - ?st + 1)) (drop (nat ?st) content)),
             occ_name = take (nat (?en - ?st + 1)) (drop (nat ?st) content)\<rparr>])"
      using Cons.prems le st en
      by (simp del: split_paired_All) (simp add: occurrence_in_def)
    ultimately show ?thesis by (simp only: Cons.IH)
  qed
qed simp

lemma append_occurrences_in:
  "list_all (occurrence_in content) vec \<Longrightarrow> list_all (occurrence_in content)
    (appendTwitchEmoteOccurrences toUInt getOrCreateEmote emote vec (correctPositions content) content off)"
  unfolding appendTwitchEmoteOccurrences_def Let_def by (simp add: occurrenceLoop_in del: qc_values)

text \<open>
  Whatever the tag and the offset are, also where the unsigned subtraction of the offset wraps,
  every emote occurrence lies inside the text, starts and ends at code points, and carries the text of its
  range, the last position included.\<close>

theorem parseTwitchEmotes_in_text:
  "list_all (occurrence_in content) (parseTwitchEmotes toUInt getOrCreateEmote tgs content messageOffset)"
proof -
  have "list_all (occurrence_in content) (foldl (\<lambda>vec emote. appendTwitchEmoteOccurrences toUInt getOrCreateEmote emote vec
      (correctPositions content) content messageOffset) vec es)"
    if "list_all (occurrence_in content) vec" for vec es
    using that by (induction es arbitrary: vec) (simp_all add: append_occurrences_in)
  then show ?thesis by (cases "tgs ''emotes''") (simp_all add: parseTwitchEmotes_def)
qed

end
