(* ===== verification/Highlights.thy ===== *)
theory Highlights
  imports TableModels TwitchTags Messages
begin

text \<open>
  Highlights: the phrases, badges and checks of \<open>controllers/highlights\<close>, and the matching of
  blacklisted users and nicknames.  Regular expressions and case folding are the parameter
  \<open>highlight_api\<close>; URLs and colors are texts and values of a type of their own.
\<close>

section \<open>Parameters and data\<close>

record highlight_api =
  hl_reValid :: "string \<Rightarrow> bool"
  hl_reMatch :: "string \<Rightarrow> bool \<Rightarrow> string \<Rightarrow> bool"
  hl_reEscape :: "string \<Rightarrow> string"
  hl_reReplace :: "string \<Rightarrow> bool \<Rightarrow> string \<Rightarrow> string \<Rightarrow> string"
  hl_toLower :: "string \<Rightarrow> string"
  hl_compareCI :: "string \<Rightarrow> string \<Rightarrow> bool"
  hl_compareCI16 :: "qstring \<Rightarrow> qstring \<Rightarrow> bool"

record 'c HighlightResult =
  alert :: bool
  playSound :: bool
  customSoundUrl :: "string option"
  hcolor :: "'c option"
  showInMentions :: bool

definition emptyResult :: "'c HighlightResult" where
  "emptyResult = \<lparr>alert = False, playSound = False, customSoundUrl = None, hcolor = None, showInMentions = False\<rparr>"

definition hr_empty :: "'c HighlightResult \<Rightarrow> bool" where
  "hr_empty r \<longleftrightarrow> \<not> alert r \<and> \<not> playSound r \<and> customSoundUrl r = None \<and> hcolor r = None \<and> \<not> showInMentions r"

definition hr_full :: "'c HighlightResult \<Rightarrow> bool" where
  "hr_full r \<longleftrightarrow> alert r \<and> playSound r \<and> customSoundUrl r \<noteq> None \<and> hcolor r \<noteq> None \<and> showInMentions r"

text \<open>Results whose colors are not both set are compared without them.\<close>

definition hr_equals :: "'c HighlightResult \<Rightarrow> 'c HighlightResult \<Rightarrow> bool" where
  "hr_equals a b =
     (if alert a \<noteq> alert b then False
      else if playSound a \<noteq> playSound b then False
      else if customSoundUrl a \<noteq> customSoundUrl b then False
      else if hcolor a \<noteq> None \<and> hcolor b \<noteq> None \<and> the (hcolor a) \<noteq> the (hcolor b) then False
      else if showInMentions a \<noteq> showInMentions b then False
      else True)"

record MessageParseArgs =
  isSubscriptionMessage :: bool
  isReceivedWhisper :: bool

type_synonym 'c HighlightCheck =
  "MessageParseArgs \<Rightarrow> Badge list \<Rightarrow> string \<Rightarrow> string \<Rightarrow> flag_set \<Rightarrow> bool \<Rightarrow> 'c HighlightResult option"

section \<open>Phrases\<close>

record 'c HighlightPhrase =
  hp_pattern :: string
  hp_showInMentions :: bool
  hp_hasAlert :: bool
  hp_hasSound :: bool
  hp_isRegex :: bool
  hp_isCaseSensitive :: bool
  hp_soundUrl :: string
  hp_color :: 'c

text \<open>The regular expression of a phrase: its pattern, or the escaped pattern between boundaries.\<close>

definition hp_regex :: "highlight_api \<Rightarrow> 'c HighlightPhrase \<Rightarrow> string" where
  "hp_regex api p =
     (if hp_isRegex p then hp_pattern p
      else ''(?:'' @ [CHR 0x5C] @ ''b|'' @ [CHR 0x5C] @ ''s|^)'' @ hl_reEscape api (hp_pattern p) @
           ''(?:'' @ [CHR 0x5C] @ ''b|'' @ [CHR 0x5C] @ ''s|$)'')"

definition hp_hasCustomSound :: "'c HighlightPhrase \<Rightarrow> bool" where
  "hp_hasCustomSound p \<longleftrightarrow> hp_soundUrl p \<noteq> []"

definition hp_isValid :: "highlight_api \<Rightarrow> 'c HighlightPhrase \<Rightarrow> bool" where
  "hp_isValid api p \<longleftrightarrow> hp_pattern p \<noteq> [] \<and> hl_reValid api (hp_regex api p)"

definition hp_isMatch :: "highlight_api \<Rightarrow> 'c HighlightPhrase \<Rightarrow> string \<Rightarrow> bool" where
  "hp_isMatch api p subject \<longleftrightarrow>
     hp_isValid api p \<and> hl_reMatch api (hp_regex api p) (hp_isCaseSensitive p) subject"

text \<open>What the checks of phrases and users return for a phrase that matches.\<close>

definition phrase_result :: "'c HighlightPhrase \<Rightarrow> 'c HighlightResult" where
  "phrase_result p =
     \<lparr>alert = hp_hasAlert p, playSound = hp_hasSound p,
      customSoundUrl = (if hp_hasCustomSound p then Some (hp_soundUrl p) else None),
      hcolor = Some (hp_color p), showInMentions = hp_showInMentions p\<rparr>"

definition highlightPhraseCheck :: "highlight_api \<Rightarrow> 'c HighlightPhrase \<Rightarrow> 'c HighlightCheck" where
  "highlightPhraseCheck api highlight args userBadges senderName originalMessage flgs self =
     (if self then None
      else if \<not> hp_isMatch api highlight originalMessage then None
      else Some (phrase_result highlight))"

section \<open>Badges\<close>

record 'c HighlightBadge =
  hg_badgeName :: qstring
  hg_displayName :: string
  hg_showInMentions :: bool
  hg_hasAlert :: bool
  hg_hasSound :: bool
  hg_soundUrl :: string
  hg_color :: 'c
  hg_hasVersions :: bool
  hg_isMulti :: bool
  hg_badges :: "qstring list"

definition make_HighlightBadge ::
  "qstring \<Rightarrow> string \<Rightarrow> bool \<Rightarrow> bool \<Rightarrow> bool \<Rightarrow> string \<Rightarrow> 'c \<Rightarrow> 'c HighlightBadge" where
  "make_HighlightBadge badgeName dispName mentions alrt sound soundUrl color =
     \<lparr>hg_badgeName = badgeName, hg_displayName = dispName, hg_showInMentions = mentions,
      hg_hasAlert = alrt, hg_hasSound = sound, hg_soundUrl = soundUrl, hg_color = color,
      hg_hasVersions = (qc (CHR ''/'') \<in> set badgeName), hg_isMulti = (qc (CHR '','') \<in> set badgeName),
      hg_badges = (if qc (CHR '','') \<in> set badgeName then splitOn (qc (CHR '','')) badgeName else [])\<rparr>"

definition hg_compare :: "highlight_api \<Rightarrow> 'c HighlightBadge \<Rightarrow> qstring \<Rightarrow> Badge \<Rightarrow> bool" where
  "hg_compare api h i badge =
     (if hg_hasVersions h then
        let parts = slashKeyValue i
        in hl_compareCI16 api (fst parts) (badge_key badge) \<and> hl_compareCI16 api (snd parts) (badge_value badge)
      else hl_compareCI16 api i (badge_key badge))"

definition hg_isMatch :: "highlight_api \<Rightarrow> 'c HighlightBadge \<Rightarrow> Badge \<Rightarrow> bool" where
  "hg_isMatch api h badge =
     (if hg_isMulti h then list_ex (\<lambda>i. hg_compare api h i badge) (hg_badges h)
      else hg_compare api h (hg_badgeName h) badge)"

definition hg_hasCustomSound :: "'c HighlightBadge \<Rightarrow> bool" where
  "hg_hasCustomSound h \<longleftrightarrow> hg_soundUrl h \<noteq> []"

section \<open>Settings\<close>

datatype ColorType =
    SelfHighlight | SubscriptionColor | WhisperColor | RedeemedHighlightColor | FirstMessageHighlight
  | ElevatedMessageHighlight | ThreadMessageHighlight | SelfMessageHighlight | AutomodHighlight

text \<open>The settings of one automatic highlight.\<close>

record auto_highlight =
  ah_enabled :: bool
  ah_sound :: bool
  ah_taskbar :: bool
  ah_soundUrl :: string
  ah_mentions :: bool

record 'c highlight_settings =
  hs_sub :: auto_highlight
  hs_whisper :: auto_highlight
  hs_thread :: auto_highlight
  hs_self :: auto_highlight
  hs_automod :: auto_highlight
  hs_selfMessage :: auto_highlight
  highlightedMessages :: "'c HighlightPhrase list"
  highlightedUsers :: "'c HighlightPhrase list"
  highlightedBadges :: "'c HighlightBadge list"

record current_user =
  cu_name :: string
  cu_isAnon :: bool

definition auto_result :: "(ColorType \<Rightarrow> 'c) \<Rightarrow> auto_highlight \<Rightarrow> ColorType \<Rightarrow> bool \<Rightarrow> 'c HighlightResult" where
  "auto_result color h ct mentions =
     \<lparr>alert = ah_taskbar h, playSound = ah_sound h,
      customSoundUrl = (if ah_soundUrl h \<noteq> [] then Some (ah_soundUrl h) else None),
      hcolor = Some (color ct), showInMentions = mentions\<rparr>"

section \<open>The checks, in the order the controller builds them\<close>

definition rebuildSubscriptionHighlights ::
  "(ColorType \<Rightarrow> 'c) \<Rightarrow> 'c highlight_settings \<Rightarrow> 'c HighlightCheck list \<Rightarrow> 'c HighlightCheck list" where
  "rebuildSubscriptionHighlights color settings checks =
     (if ah_enabled (hs_sub settings) then
        checks @ [\<lambda>args userBadges senderName originalMessage flgs self.
          if \<not> isSubscriptionMessage args then None
          else Some (auto_result color (hs_sub settings) SubscriptionColor False)]
      else checks)"

definition rebuildWhisperHighlights ::
  "(ColorType \<Rightarrow> 'c) \<Rightarrow> 'c highlight_settings \<Rightarrow> 'c HighlightCheck list \<Rightarrow> 'c HighlightCheck list" where
  "rebuildWhisperHighlights color settings checks =
     (if ah_enabled (hs_whisper settings) then
        checks @ [\<lambda>args userBadges senderName originalMessage flgs self.
          if \<not> isReceivedWhisper args then None
          else Some (auto_result color (hs_whisper settings) WhisperColor False)]
      else checks)"

definition rebuildReplyThreadHighlight ::
  "(ColorType \<Rightarrow> 'c) \<Rightarrow> 'c highlight_settings \<Rightarrow> 'c HighlightCheck list \<Rightarrow> 'c HighlightCheck list" where
  "rebuildReplyThreadHighlight color settings checks =
     (if ah_enabled (hs_thread settings) then
        checks @ [\<lambda>args userBadges senderName originalMessage flgs self.
          if has flgs SubscribedThread \<and> \<not> self
          then Some (auto_result color (hs_thread settings) ThreadMessageHighlight (ah_mentions (hs_thread settings)))
          else None]
      else checks)"

definition self_phrase :: "(ColorType \<Rightarrow> 'c) \<Rightarrow> 'c highlight_settings \<Rightarrow> current_user \<Rightarrow> 'c HighlightPhrase" where
  "self_phrase color settings user =
     \<lparr>hp_pattern = cu_name user, hp_showInMentions = ah_mentions (hs_self settings),
      hp_hasAlert = ah_taskbar (hs_self settings), hp_hasSound = ah_sound (hs_self settings),
      hp_isRegex = False, hp_isCaseSensitive = False, hp_soundUrl = ah_soundUrl (hs_self settings),
      hp_color = color SelfHighlight\<rparr>"

definition rebuildMessageHighlights ::
  "highlight_api \<Rightarrow> (ColorType \<Rightarrow> 'c) \<Rightarrow> current_user \<Rightarrow> 'c highlight_settings \<Rightarrow>
    'c HighlightCheck list \<Rightarrow> 'c HighlightCheck list" where
  "rebuildMessageHighlights api color user settings checks =
     (let checks = (if ah_enabled (hs_self settings) \<and> cu_name user \<noteq> [] \<and> \<not> cu_isAnon user
                    then checks @ [highlightPhraseCheck api (self_phrase color settings user)] else checks);
          checks = foldl (\<lambda>checks highlight. checks @ [highlightPhraseCheck api highlight]) checks
                     (highlightedMessages settings)
      in if ah_enabled (hs_automod settings) then
           checks @ [\<lambda>args userBadges senderName originalMessage flgs self.
             if \<not> has flgs AutoModOffendingMessage then None
             else Some (auto_result color (hs_automod settings) AutomodHighlight False)]
         else checks)"

text \<open>The empty URL of the check for the own messages is a value, not the absence of one.\<close>

definition rebuildUserHighlights ::
  "highlight_api \<Rightarrow> (ColorType \<Rightarrow> 'c) \<Rightarrow> 'c highlight_settings \<Rightarrow>
    'c HighlightCheck list \<Rightarrow> 'c HighlightCheck list" where
  "rebuildUserHighlights api color settings checks =
     (let checks = (if ah_enabled (hs_selfMessage settings) then
            checks @ [\<lambda>args userBadges senderName originalMessage flgs self.
              if \<not> self then None
              else Some \<lparr>alert = False, playSound = False, customSoundUrl = Some [],
                         hcolor = Some (color SelfMessageHighlight),
                         showInMentions = ah_mentions (hs_selfMessage settings)\<rparr>]
            else checks)
      in foldl (\<lambda>checks highlight. checks @ [\<lambda>args userBadges senderName originalMessage flgs self.
            if \<not> hp_isMatch api highlight senderName then None else Some (phrase_result highlight)])
          checks (highlightedUsers settings))"

definition badge_result :: "'c HighlightBadge \<Rightarrow> 'c HighlightResult" where
  "badge_result h =
     \<lparr>alert = hg_hasAlert h, playSound = hg_hasSound h,
      customSoundUrl = (if hg_hasCustomSound h then Some (hg_soundUrl h) else None),
      hcolor = Some (hg_color h), showInMentions = hg_showInMentions h\<rparr>"

definition rebuildBadgeHighlights ::
  "highlight_api \<Rightarrow> 'c highlight_settings \<Rightarrow> 'c HighlightCheck list \<Rightarrow> 'c HighlightCheck list" where
  "rebuildBadgeHighlights api settings checks =
     foldl (\<lambda>checks highlight. checks @ [\<lambda>args userBadges senderName originalMessage flgs self.
         case find (hg_isMatch api highlight) userBadges of
           None \<Rightarrow> None
         | Some badge \<Rightarrow> Some (badge_result highlight)])
       checks (highlightedBadges settings)"

definition rebuildChecks ::
  "highlight_api \<Rightarrow> (ColorType \<Rightarrow> 'c) \<Rightarrow> current_user \<Rightarrow> 'c highlight_settings \<Rightarrow> 'c HighlightCheck list" where
  "rebuildChecks api color user settings =
     (let checks = [];
          checks = rebuildSubscriptionHighlights color settings checks;
          checks = rebuildWhisperHighlights color settings checks;
          checks = rebuildMessageHighlights api color user settings checks;
          checks = rebuildUserHighlights api color settings checks;
          checks = rebuildReplyThreadHighlight color settings checks
      in rebuildBadgeHighlights api settings checks)"

section \<open>Checking a message\<close>

definition merge_result :: "'c HighlightResult \<Rightarrow> 'c HighlightResult \<Rightarrow> 'c HighlightResult" where
  "merge_result r c =
     (let r = (if alert c then if \<not> alert r then r\<lparr>alert := alert c\<rparr> else r else r);
          r = (if playSound c then if \<not> playSound r then r\<lparr>playSound := playSound c\<rparr> else r else r);
          r = (if customSoundUrl c \<noteq> None
               then if customSoundUrl r = None then r\<lparr>customSoundUrl := customSoundUrl c\<rparr> else r else r);
          r = (if hcolor c \<noteq> None then if hcolor r = None then r\<lparr>hcolor := hcolor c\<rparr> else r else r)
      in if showInMentions c then if \<not> showInMentions r then r\<lparr>showInMentions := showInMentions c\<rparr> else r else r)"

fun checkLoop ::
  "('c HighlightCheck) list \<Rightarrow> MessageParseArgs \<Rightarrow> Badge list \<Rightarrow> string \<Rightarrow> string \<Rightarrow> flag_set \<Rightarrow> bool \<Rightarrow>
    bool \<Rightarrow> 'c HighlightResult \<Rightarrow> bool \<times> 'c HighlightResult" where
  "checkLoop [] args userBadges senderName originalMessage flgs self highlighted r = (highlighted, r)"
| "checkLoop (check # checks) args userBadges senderName originalMessage flgs self highlighted r =
     (case check args userBadges senderName originalMessage flgs self of
        None \<Rightarrow> checkLoop checks args userBadges senderName originalMessage flgs self highlighted r
      | Some checkResult \<Rightarrow>
          let r = merge_result r checkResult
          in if hr_full r then (True, r)
             else checkLoop checks args userBadges senderName originalMessage flgs self True r)"

definition hc_check ::
  "'c HighlightCheck list \<Rightarrow> current_user \<Rightarrow> MessageParseArgs \<Rightarrow> Badge list \<Rightarrow> string \<Rightarrow> string \<Rightarrow>
    flag_set \<Rightarrow> bool \<times> 'c HighlightResult" where
  "hc_check checks user args userBadges senderName originalMessage messageFlags =
     checkLoop checks args userBadges senderName originalMessage messageFlags (senderName = cu_name user)
       False emptyResult"

section \<open>Blacklisted users and nicknames\<close>

definition hbu_isMatch :: "highlight_api \<Rightarrow> HighlightBlacklistUser \<Rightarrow> string \<Rightarrow> bool" where
  "hbu_isMatch api u subject =
     (if hb_isRegex u then
        if hl_reValid api (hb_pattern u) then hl_reMatch api (hb_pattern u) False subject else False
      else hl_toLower api subject = hl_toLower api (hb_pattern u))"

definition Nickname_match :: "highlight_api \<Rightarrow> Nickname \<Rightarrow> string \<Rightarrow> string option" where
  "Nickname_match api n usernameText =
     (if nn_isRegex n then
        if \<not> hl_reValid api (nn_name n) then None
        else if nn_name n = [] then None
        else
          let workingCopy = hl_reReplace api (nn_name n) (nn_isCaseSensitive n) usernameText (nn_replace n)
          in if workingCopy \<noteq> usernameText then Some workingCopy else None
      else if (if nn_isCaseSensitive n then nn_name n = usernameText else hl_compareCI api (nn_name n) usernameText)
        then Some (nn_replace n)
      else None)"

section \<open>The result of a check\<close>

text \<open>The results of the checks that match, and the first value that is set in a list of results.\<close>

definition matching_results ::
  "'c HighlightCheck list \<Rightarrow> MessageParseArgs \<Rightarrow> Badge list \<Rightarrow> string \<Rightarrow> string \<Rightarrow> flag_set \<Rightarrow> bool \<Rightarrow>
    'c HighlightResult list" where
  "matching_results checks args bs senderName originalMessage flgs self =
     List.map_filter (\<lambda>check. check args bs senderName originalMessage flgs self) checks"

fun first_set :: "'a option list \<Rightarrow> 'a option" where
  "first_set [] = None"
| "first_set (x # xs) = (case x of Some v \<Rightarrow> Some v | None \<Rightarrow> first_set xs)"

definition combined :: "'c HighlightResult list \<Rightarrow> 'c HighlightResult" where
  "combined rs =
     \<lparr>alert = list_ex alert rs, playSound = list_ex playSound rs,
      customSoundUrl = first_set (map customSoundUrl rs), hcolor = first_set (map hcolor rs),
      showInMentions = list_ex showInMentions rs\<rparr>"

lemma merge_steps:
  fixes r :: "'c HighlightResult"
  shows "(if a then if \<not> alert r then r\<lparr>alert := a\<rparr> else r else r) = r\<lparr>alert := alert r \<or> a\<rparr>"
    and "(if a then if \<not> playSound r then r\<lparr>playSound := a\<rparr> else r else r) = r\<lparr>playSound := playSound r \<or> a\<rparr>"
    and "(if u \<noteq> None then if customSoundUrl r = None then r\<lparr>customSoundUrl := u\<rparr> else r else r) =
      r\<lparr>customSoundUrl := first_set [customSoundUrl r, u]\<rparr>"
    and "(if k \<noteq> None then if hcolor r = None then r\<lparr>hcolor := k\<rparr> else r else r) =
      r\<lparr>hcolor := first_set [hcolor r, k]\<rparr>"
    and "(if a then if \<not> showInMentions r then r\<lparr>showInMentions := a\<rparr> else r else r) =
      r\<lparr>showInMentions := showInMentions r \<or> a\<rparr>"
  by (cases r; simp split: option.splits)+

lemma merge_result_fields [simp]:
  "alert (merge_result r c) \<longleftrightarrow> alert r \<or> alert c"
  "playSound (merge_result r c) \<longleftrightarrow> playSound r \<or> playSound c"
  "customSoundUrl (merge_result r c) = first_set [customSoundUrl r, customSoundUrl c]"
  "hcolor (merge_result r c) = first_set [hcolor r, hcolor c]"
  "showInMentions (merge_result r c) \<longleftrightarrow> showInMentions r \<or> showInMentions c"
  unfolding merge_result_def Let_def merge_steps by simp_all

lemma HighlightResult_eqI:
  fixes a b :: "'c HighlightResult"
  assumes "alert a = alert b" "playSound a = playSound b" "customSoundUrl a = customSoundUrl b"
    "hcolor a = hcolor b" "showInMentions a = showInMentions b"
  shows "a = b"
  using assms by simp

lemma combined_merge: "combined (merge_result r c # rs) = combined (r # c # rs)"
  by (rule HighlightResult_eqI) (auto simp: combined_def split: option.splits)

lemma combined_one: "combined [r] = r"
  by (rule HighlightResult_eqI) (simp_all add: combined_def split: option.splits)

lemma combined_full: "hr_full r \<Longrightarrow> combined (r # rs) = r"
  by (rule HighlightResult_eqI) (auto simp: combined_def hr_full_def)

lemma checkLoop_combined:
  "checkLoop checks args bs senderName originalMessage flgs self highlighted r =
    (highlighted \<or> matching_results checks args bs senderName originalMessage flgs self \<noteq> [],
     combined (r # matching_results checks args bs senderName originalMessage flgs self))"
proof (induction checks arbitrary: highlighted r)
  case Nil
  show ?case by (simp add: matching_results_def map_filter_simps combined_one)
next
  case (Cons check checks)
  show ?case
  proof (cases "check args bs senderName originalMessage flgs self")
    case None
    then show ?thesis using Cons by (simp add: matching_results_def map_filter_simps)
  next
    case (Some c)
    let ?rs = "matching_results checks args bs senderName originalMessage flgs self"
    have e: "matching_results (check # checks) args bs senderName originalMessage flgs self = c # ?rs"
      using Some by (simp add: matching_results_def map_filter_simps)
    show ?thesis
    proof (cases "hr_full (merge_result r c)")
      case True
      then have "combined (r # c # ?rs) = merge_result r c"
        unfolding combined_merge [symmetric] by (rule combined_full)
      then show ?thesis using Some True e by (simp add: Let_def)
    next
      case False
      then show ?thesis using Some Cons e by (simp add: Let_def combined_merge)
    qed
  qed
qed

lemma combined_empty: "combined (emptyResult # rs) = combined rs"
  by (simp add: combined_def emptyResult_def)

lemma hc_check_results:
  "hc_check checks user args bs senderName originalMessage flgs =
    (matching_results checks args bs senderName originalMessage flgs (senderName = cu_name user) \<noteq> [],
     combined (matching_results checks args bs senderName originalMessage flgs (senderName = cu_name user)))"
  by (simp add: hc_check_def checkLoop_combined combined_empty)

text \<open>
  C26. A message is highlighted exactly when some check matches, and its result takes from all checks
  that match, the earlier ones first: an alert, a sound or a mention when one of them asks for it, the first
  sound and the first color.  Leaving the loop once the result is full changes nothing.\<close>

theorem hc_check_combined:
  "hc_check checks user args bs senderName originalMessage flgs =
    (let rs = matching_results checks args bs senderName originalMessage flgs (senderName = cu_name user)
     in (rs \<noteq> [], combined rs))"
  unfolding Let_def by (rule hc_check_results)

section \<open>The order of the checks\<close>

text \<open>The results of a controller whose checks are rebuilt from the settings, group by group.\<close>

definition phrase_results ::
  "('a \<Rightarrow> bool) \<Rightarrow> ('a \<Rightarrow> 'c HighlightResult) \<Rightarrow> 'a list \<Rightarrow> 'c HighlightResult list" where
  "phrase_results P f hs = map f (filter P hs)"

definition results_by_group ::
  "highlight_api \<Rightarrow> (ColorType \<Rightarrow> 'c) \<Rightarrow> current_user \<Rightarrow> 'c highlight_settings \<Rightarrow> MessageParseArgs \<Rightarrow>
    Badge list \<Rightarrow> string \<Rightarrow> string \<Rightarrow> flag_set \<Rightarrow> 'c HighlightResult list" where
  "results_by_group api color user st args bs senderName originalMessage flgs =
     (let self = (senderName = cu_name user) in
      (if ah_enabled (hs_sub st) \<and> isSubscriptionMessage args
       then [auto_result color (hs_sub st) SubscriptionColor False] else []) @
      (if ah_enabled (hs_whisper st) \<and> isReceivedWhisper args
       then [auto_result color (hs_whisper st) WhisperColor False] else []) @
      phrase_results (\<lambda>p. \<not> self \<and> hp_isMatch api p originalMessage) phrase_result
        ((if ah_enabled (hs_self st) \<and> cu_name user \<noteq> [] \<and> \<not> cu_isAnon user
          then [self_phrase color st user] else []) @ highlightedMessages st) @
      (if ah_enabled (hs_automod st) \<and> has flgs AutoModOffendingMessage
       then [auto_result color (hs_automod st) AutomodHighlight False] else []) @
      (if ah_enabled (hs_selfMessage st) \<and> self
       then [\<lparr>alert = False, playSound = False, customSoundUrl = Some [], hcolor = Some (color SelfMessageHighlight),
              showInMentions = ah_mentions (hs_selfMessage st)\<rparr>] else []) @
      phrase_results (\<lambda>p. hp_isMatch api p senderName) phrase_result (highlightedUsers st) @
      (if ah_enabled (hs_thread st) \<and> has flgs SubscribedThread \<and> \<not> self
       then [auto_result color (hs_thread st) ThreadMessageHighlight (ah_mentions (hs_thread st))] else []) @
      phrase_results (\<lambda>h. list_ex (hg_isMatch api h) bs) badge_result (highlightedBadges st))"

lemma matching_results_append [simp]:
  "matching_results (cs @ ds) args bs senderName originalMessage flgs self =
    matching_results cs args bs senderName originalMessage flgs self @
    matching_results ds args bs senderName originalMessage flgs self"
  by (simp add: matching_results_def map_filter_def)

lemma matching_results_one [simp]:
  "matching_results [c] args bs senderName originalMessage flgs self =
    (case c args bs senderName originalMessage flgs self of None \<Rightarrow> [] | Some r \<Rightarrow> [r])"
  by (simp add: matching_results_def map_filter_simps split: option.splits)

lemma matching_results_Nil [simp]: "matching_results [] args bs senderName originalMessage flgs self = []"
  by (simp add: matching_results_def map_filter_simps)

lemma foldl_append_map: "foldl (\<lambda>cs h. cs @ [f h]) acc hs = acc @ map f hs"
  by (induction hs arbitrary: acc) simp_all

lemma matching_results_map:
  "(\<And>h. f h args bs senderName originalMessage flgs self = (if P h then Some (g h) else None)) \<Longrightarrow>
    matching_results (map f hs) args bs senderName originalMessage flgs self = phrase_results P g hs"
  by (induction hs) (simp_all add: matching_results_def phrase_results_def map_filter_simps)

lemma find_list_ex: "(case find P xs of None \<Rightarrow> a | Some x \<Rightarrow> b) = (if list_ex P xs then b else a)"
  by (induction xs) auto

lemma phrase_results_append:
  "phrase_results P f (as @ bs) = phrase_results P f as @ phrase_results P f bs"
  by (simp add: phrase_results_def)

lemma matching_results_phrases:
  "matching_results (map (highlightPhraseCheck api) hs) args bs senderName originalMessage flgs self =
    phrase_results (\<lambda>p. \<not> self \<and> hp_isMatch api p originalMessage) phrase_result hs"
  by (rule matching_results_map) (simp add: highlightPhraseCheck_def)

lemma matching_results_users:
  "matching_results (map (\<lambda>highlight args userBadges senderName originalMessage flgs self.
      if \<not> hp_isMatch api highlight senderName then None else Some (phrase_result highlight)) hs)
      args bs senderName originalMessage flgs self =
    phrase_results (\<lambda>p. hp_isMatch api p senderName) phrase_result hs"
  by (rule matching_results_map) simp

lemma matching_results_badges:
  "matching_results (map (\<lambda>highlight args userBadges senderName originalMessage flgs self.
      case find (hg_isMatch api highlight) userBadges of None \<Rightarrow> None | Some badge \<Rightarrow> Some (badge_result highlight)) hs)
      args bs senderName originalMessage flgs self =
    phrase_results (\<lambda>h. list_ex (hg_isMatch api h) bs) badge_result hs"
  by (rule matching_results_map) (rule find_list_ex)

text \<open>What each group of checks adds.\<close>

lemma rebuildSubscription_results:
  "matching_results (rebuildSubscriptionHighlights color st checks) args bs senderName originalMessage flgs self =
    matching_results checks args bs senderName originalMessage flgs self @
    (if ah_enabled (hs_sub st) \<and> isSubscriptionMessage args
     then [auto_result color (hs_sub st) SubscriptionColor False] else [])"
  by (simp add: rebuildSubscriptionHighlights_def)

lemma rebuildWhisper_results:
  "matching_results (rebuildWhisperHighlights color st checks) args bs senderName originalMessage flgs self =
    matching_results checks args bs senderName originalMessage flgs self @
    (if ah_enabled (hs_whisper st) \<and> isReceivedWhisper args
     then [auto_result color (hs_whisper st) WhisperColor False] else [])"
  by (simp add: rebuildWhisperHighlights_def)

lemma rebuildThread_results:
  "matching_results (rebuildReplyThreadHighlight color st checks) args bs senderName originalMessage flgs self =
    matching_results checks args bs senderName originalMessage flgs self @
    (if ah_enabled (hs_thread st) \<and> has flgs SubscribedThread \<and> \<not> self
     then [auto_result color (hs_thread st) ThreadMessageHighlight (ah_mentions (hs_thread st))] else [])"
  by (simp add: rebuildReplyThreadHighlight_def)

lemma rebuildMessage_results:
  "matching_results (rebuildMessageHighlights api color user st checks) args bs senderName originalMessage flgs self =
    matching_results checks args bs senderName originalMessage flgs self @
    phrase_results (\<lambda>p. \<not> self \<and> hp_isMatch api p originalMessage) phrase_result
      ((if ah_enabled (hs_self st) \<and> cu_name user \<noteq> [] \<and> \<not> cu_isAnon user
        then [self_phrase color st user] else []) @ highlightedMessages st) @
    (if ah_enabled (hs_automod st) \<and> has flgs AutoModOffendingMessage
     then [auto_result color (hs_automod st) AutomodHighlight False] else [])"
proof -
  define self_checks where "self_checks = (if ah_enabled (hs_self st) \<and> cu_name user \<noteq> [] \<and> \<not> cu_isAnon user
      then [self_phrase color st user] else [])"
  have "rebuildMessageHighlights api color user st checks =
      checks @ map (highlightPhraseCheck api) (self_checks @ highlightedMessages st) @
      (if ah_enabled (hs_automod st) then [\<lambda>args userBadges senderName originalMessage flgs self.
             if \<not> has flgs AutoModOffendingMessage then None
             else Some (auto_result color (hs_automod st) AutomodHighlight False)] else [])"
    unfolding rebuildMessageHighlights_def Let_def foldl_append_map self_checks_def by simp
  then show ?thesis
    unfolding self_checks_def [symmetric] by (simp add: matching_results_phrases del: map_append)
qed

lemma rebuildUser_results:
  "matching_results (rebuildUserHighlights api color st checks) args bs senderName originalMessage flgs self =
    matching_results checks args bs senderName originalMessage flgs self @
    (if ah_enabled (hs_selfMessage st) \<and> self
     then [\<lparr>alert = False, playSound = False, customSoundUrl = Some [], hcolor = Some (color SelfMessageHighlight),
            showInMentions = ah_mentions (hs_selfMessage st)\<rparr>] else []) @
    phrase_results (\<lambda>p. hp_isMatch api p senderName) phrase_result (highlightedUsers st)"
  by (simp add: rebuildUserHighlights_def Let_def foldl_append_map matching_results_users)

lemma rebuildBadge_results:
  "matching_results (rebuildBadgeHighlights api st checks) args bs senderName originalMessage flgs self =
    matching_results checks args bs senderName originalMessage flgs self @
    phrase_results (\<lambda>h. list_ex (hg_isMatch api h) bs) badge_result (highlightedBadges st)"
  by (simp add: rebuildBadgeHighlights_def foldl_append_map matching_results_badges)

lemmas rebuild_results =
  rebuildSubscription_results rebuildWhisper_results rebuildMessage_results rebuildUser_results
  rebuildThread_results rebuildBadge_results

lemma rebuildChecks_results:
  "matching_results (rebuildChecks api color user st) args bs senderName originalMessage flgs
      (senderName = cu_name user) =
    results_by_group api color user st args bs senderName originalMessage flgs"
  unfolding rebuildChecks_def results_by_group_def Let_def rebuild_results
  by (simp only: matching_results_Nil append_assoc append_Nil)

text \<open>
  The checks rebuilt from the settings are asked in this order: subscriptions, whispers, the own
  name and the highlighted phrases (never for own messages), AutoMod, own messages, users, reply threads,
  badges.  Each group contributes exactly the results of its enabled and matching entries.\<close>

theorem rebuildChecks_order:
  "matching_results (rebuildChecks api color user st) args bs senderName originalMessage flgs
      (senderName = cu_name user) =
    results_by_group api color user st args bs senderName originalMessage flgs"
  by (rule rebuildChecks_results)

section \<open>Sounds of own messages\<close>

text \<open>
  The check for own messages sets an empty sound URL instead of none.  While it is enabled, the
  custom sound of a highlighted user or badge that also matches an own message is never chosen, although the
  check itself plays no sound.\<close>

theorem own_message_hides_custom_sound:
  assumes "ah_enabled (hs_selfMessage st)" "\<not> isSubscriptionMessage args" "\<not> isReceivedWhisper args"
    and "\<not> has flgs AutoModOffendingMessage"
  shows "customSoundUrl (snd (hc_check (rebuildChecks api color user st) user args bs (cu_name user) originalMessage flgs))
    = Some []"
proof -
  have "matching_results (rebuildChecks api color user st) args bs (cu_name user) originalMessage flgs True =
      results_by_group api color user st args bs (cu_name user) originalMessage flgs"
    using rebuildChecks_results [of api color user st args bs "cu_name user"] by simp
  then show ?thesis
    using assms by (simp add: hc_check_results combined_def results_by_group_def phrase_results_def Let_def)
qed

text \<open>Settings with one highlighted badge that has a sound of its own.\<close>

definition sample_highlight_api :: highlight_api where
  "sample_highlight_api = \<lparr>hl_reValid = (\<lambda>r. True), hl_reMatch = (\<lambda>r cs s. r = s), hl_reEscape = (\<lambda>s. s),
     hl_reReplace = (\<lambda>r cs s t. s), hl_toLower = (\<lambda>s. s), hl_compareCI = (=), hl_compareCI16 = (=)\<rparr>"

definition sample_off :: auto_highlight where
  "sample_off = \<lparr>ah_enabled = False, ah_sound = False, ah_taskbar = False, ah_soundUrl = [], ah_mentions = False\<rparr>"

definition sample_highlight_settings :: "unit highlight_settings" where
  "sample_highlight_settings = \<lparr>hs_sub = sample_off, hs_whisper = sample_off, hs_thread = sample_off,
     hs_self = sample_off, hs_automod = sample_off, hs_selfMessage = sample_off\<lparr>ah_enabled := True\<rparr>,
     highlightedMessages = [], highlightedUsers = [],
     highlightedBadges = [make_HighlightBadge (qs ''moderator'') [] False False True ''sound'' ()]\<rparr>"

theorem own_message_hides_custom_sound_witness:
  "customSoundUrl (snd (hc_check (rebuildChecks sample_highlight_api (\<lambda>c. ()) \<lparr>cu_name = ''me'', cu_isAnon = False\<rparr>
      sample_highlight_settings) \<lparr>cu_name = ''me'', cu_isAnon = False\<rparr>
      \<lparr>isSubscriptionMessage = False, isReceivedWhisper = False\<rparr> [make_Badge (qs ''moderator'') (qs ''1'')]
      (cu_name \<lparr>cu_name = ''me'', cu_isAnon = False\<rparr>) ''hi'' 0)) = Some []"
  by (rule own_message_hides_custom_sound)
    (simp_all add: sample_highlight_settings_def sample_off_def has_def)

end
