(* ===== verification/Ignores.thy ===== *)
theory Ignores
  imports TableModels TwitchTags SampleText
begin

text \<open>
  Ignored messages and the replacement of ignored phrases: \<open>IgnoreController.cpp\<close> and
  \<open>IgnorePhrase.cpp\<close> of \<open>controllers/ignores\<close>.  Regular expressions, case folding and
  \<open>std::partition\<close>, whose order is not specified, are fields of the parameter \<open>ignore_api\<close>.
\<close>

section \<open>Parameters\<close>

record re_match =
  capturedStart :: "nat \<Rightarrow> int"
  capturedLength :: "nat \<Rightarrow> int"

type_synonym 'e emote_occ = "(char, 'e) TwitchEmoteOccurrence"

text \<open>\<open>ig_fold\<close> folds the case of a character; \<open>ig_match\<close> gives the first match of a regular expression at
  or behind an offset; \<open>ig_wordMatch\<close> matches an emote name at word boundaries and gives begin and end;
  \<open>ig_accessEmotes\<close> are the emotes of the current account.\<close>

record 'e ignore_api =
  ig_fold :: "char \<Rightarrow> char"
  ig_digitValue :: "char \<Rightarrow> int"
  ig_reValid :: "IgnorePhrase \<Rightarrow> bool"
  ig_captureCount :: "IgnorePhrase \<Rightarrow> int"
  ig_match :: "IgnorePhrase \<Rightarrow> string \<Rightarrow> int \<Rightarrow> re_match option"
  ig_wordMatch :: "string \<Rightarrow> string \<Rightarrow> (int \<times> int) option"
  ig_partition :: "('e emote_occ \<Rightarrow> bool) \<Rightarrow> 'e emote_occ list \<Rightarrow> 'e emote_occ list \<times> 'e emote_occ list"
  ig_accessEmotes :: "(string \<times> 'e option) list"

definition partition_law :: "'e ignore_api \<Rightarrow> bool" where
  "partition_law api \<longleftrightarrow>
     (\<forall>P xs. list_all P (fst (ig_partition api P xs)) \<and> list_all (\<lambda>x. \<not> P x) (snd (ig_partition api P xs)) \<and>
        mset (fst (ig_partition api P xs)) + mset (snd (ig_partition api P xs)) = mset xs)"

lemma partition_lawD:
  assumes "partition_law api"
  shows "list_all P (fst (ig_partition api P xs))" "list_all (\<lambda>x. \<not> P x) (snd (ig_partition api P xs))"
    and "mset (fst (ig_partition api P xs)) + mset (snd (ig_partition api P xs)) = mset xs"
  using assms unfolding partition_law_def by simp_all

section \<open>Phrases\<close>

text \<open>\<open>QString::indexOf\<close> of a text at or behind an offset, and \<open>contains\<close>.\<close>

definition occurs_at :: "('a \<Rightarrow> 'a) \<Rightarrow> 'a list \<Rightarrow> 'a list \<Rightarrow> nat \<Rightarrow> bool" where
  "occurs_at f p s i \<longleftrightarrow> i + length p \<le> length s \<and> map f (take (length p) (drop i s)) = map f p"

definition text_indexOf :: "('a \<Rightarrow> 'a) \<Rightarrow> 'a list \<Rightarrow> 'a list \<Rightarrow> nat \<Rightarrow> nat option" where
  "text_indexOf f p s from = find (occurs_at f p s) [from..<Suc (length s)]"

definition phrase_fold :: "'e ignore_api \<Rightarrow> IgnorePhrase \<Rightarrow> char \<Rightarrow> char" where
  "phrase_fold api phrase = (if ip_isCaseSensitive phrase then (\<lambda>c. c) else ig_fold api)"

definition isMatch :: "'e ignore_api \<Rightarrow> IgnorePhrase \<Rightarrow> string \<Rightarrow> bool" where
  "isMatch api phrase subject \<longleftrightarrow>
     ip_pattern phrase \<noteq> [] \<and>
     (if ip_isRegex phrase then ig_reValid api phrase \<and> ig_match api phrase subject 0 \<noteq> None
      else text_indexOf (phrase_fold api phrase) (ip_pattern phrase) subject 0 \<noteq> None)"

text \<open>The emotes of the account that the replacement contains.  The code computes them once per phrase.\<close>

definition getEmotes :: "'e ignore_api \<Rightarrow> IgnorePhrase \<Rightarrow> (string \<times> 'e option) list" where
  "getEmotes api phrase =
     filter (\<lambda>(name, ptr). text_indexOf (\<lambda>c. c) name (ip_replace phrase) 0 \<noteq> None) (ig_accessEmotes api)"

definition containsEmote :: "'e ignore_api \<Rightarrow> IgnorePhrase \<Rightarrow> bool" where
  "containsEmote api phrase \<longleftrightarrow> getEmotes api phrase \<noteq> []"

section \<open>Ignored messages\<close>

datatype ShowIgnoredUsersMessages = ShowNever | IfModerator | IfBroadcaster

record IgnoredMessageParameters =
  imp_message :: string
  imp_twitchUserID :: string
  imp_isMod :: bool
  imp_isBroadcaster :: bool

record ignore_settings =
  ignoredMessages :: "IgnorePhrase list"
  enableTwitchBlockedUsers :: bool
  showBlockedUsersMessages :: ShowIgnoredUsersMessages
  blockedUserIds :: "string set"

definition isIgnoredMessage :: "'e ignore_api \<Rightarrow> ignore_settings \<Rightarrow> IgnoredMessageParameters \<Rightarrow> bool" where
  "isIgnoredMessage api st params =
     (if imp_message params \<noteq> [] \<and>
         list_ex (\<lambda>phrase. ip_isBlock phrase \<and> isMatch api phrase (imp_message params)) (ignoredMessages st)
      then True
      else if imp_twitchUserID params \<noteq> [] \<and> enableTwitchBlockedUsers st then
        if imp_twitchUserID params \<in> blockedUserIds st then
          (case showBlockedUsersMessages st of
             IfModerator \<Rightarrow> if imp_isMod params \<or> imp_isBroadcaster params then False else True
           | IfBroadcaster \<Rightarrow> if imp_isBroadcaster params then False else True
           | ShowNever \<Rightarrow> True)
        else False
      else False)"

section \<open>Replacements with captured groups\<close>

record QStringCapture =
  cap_pos :: nat
  cap_len :: nat
  captureNumber :: int

text \<open>The capture at position \<open>i\<close> of the replacement, if there is one.\<close>

definition backReference :: "'e ignore_api \<Rightarrow> int \<Rightarrow> string \<Rightarrow> nat \<Rightarrow> QStringCapture option" where
  "backReference api numCaptures replacement i =
     (if replacement ! i \<noteq> CHR 0x5C then None
      else
        let no = ig_digitValue api (replacement ! (i + 1)) in
        if no \<le> 0 \<or> no > numCaptures then None
        else if i + 2 < length replacement then
          let secondDigit = ig_digitValue api (replacement ! (i + 2)) in
          if secondDigit \<noteq> -1 \<and> no * 10 + secondDigit \<le> numCaptures
          then Some \<lparr>cap_pos = i, cap_len = 3, captureNumber = no * 10 + secondDigit\<rparr>
          else Some \<lparr>cap_pos = i, cap_len = 2, captureNumber = no\<rparr>
        else Some \<lparr>cap_pos = i, cap_len = 2, captureNumber = no\<rparr>)"

definition backReferences :: "'e ignore_api \<Rightarrow> int \<Rightarrow> string \<Rightarrow> QStringCapture list" where
  "backReferences api numCaptures replacement =
     List.map_filter (backReference api numCaptures replacement) [0..<length replacement - 1]"

text \<open>\<open>QStringView::mid\<close> with the positions of a match.\<close>

definition captured_text :: "string \<Rightarrow> re_match \<Rightarrow> nat \<Rightarrow> string" where
  "captured_text source mt no =
     (let len = capturedLength mt no
      in if len > 0 then take (nat len) (drop (nat (capturedStart mt no)) source) else [])"

text \<open>The chunks: the text before each back reference, what it captured, and the text behind the last.\<close>

fun chunkLoop :: "string \<Rightarrow> re_match \<Rightarrow> string \<Rightarrow> QStringCapture list \<Rightarrow> nat \<Rightarrow> string list \<Rightarrow> string list" where
  "chunkLoop source mt replacement [] lastEnd chunks =
     (if length replacement > lastEnd then chunks @ [drop lastEnd replacement] else chunks)"
| "chunkLoop source mt replacement (b # bs) lastEnd chunks =
     (let chunks = (if cap_pos b > lastEnd
                    then chunks @ [take (cap_pos b - lastEnd) (drop lastEnd replacement)] else chunks);
          chunks = (if capturedLength mt (nat (captureNumber b)) > 0
                    then chunks @ [captured_text source mt (nat (captureNumber b))] else chunks)
      in chunkLoop source mt replacement bs (cap_pos b + cap_len b) chunks)"

definition makeRegexReplacement ::
  "'e ignore_api \<Rightarrow> string \<Rightarrow> IgnorePhrase \<Rightarrow> re_match \<Rightarrow> string \<Rightarrow> string" where
  "makeRegexReplacement api source regex mt replacement =
     concat (chunkLoop source mt replacement
       (backReferences api (ig_captureCount api regex) replacement) 0 [])"

section \<open>Replacing one match\<close>

definition removeEmotesInRange ::
  "'e ignore_api \<Rightarrow> 'e emote_occ list \<Rightarrow> int \<Rightarrow> int \<Rightarrow> 'e emote_occ list \<times> 'e emote_occ list" where
  "removeEmotesInRange api twitchEmotes pos len =
     ig_partition api (\<lambda>item. \<not> (occ_start item \<ge> pos \<and> occ_start item < pos + len)) twitchEmotes"

definition shiftIndicesAfter :: "'e emote_occ list \<Rightarrow> int \<Rightarrow> int \<Rightarrow> 'e emote_occ list" where
  "shiftIndicesAfter twitchEmotes pos k =
     map (\<lambda>item. if occ_start item \<ge> pos
        then item\<lparr>occ_start := occ_start item + k, occ_end := occ_end item + k\<rparr> else item) twitchEmotes"

text \<open>The emotes for the words of the replaced text, with their positions; \<open>pos\<close> walks over the words.\<close>

fun wordEmotes ::
  "(string \<times> 'e option) list \<Rightarrow> string list \<Rightarrow> int \<Rightarrow> int \<Rightarrow> 'e emote_occ list" where
  "wordEmotes emotes [] startIndex pos = []"
| "wordEmotes emotes (w # ws) startIndex pos =
     map (\<lambda>(name, ptr). \<lparr>occ_start = startIndex + pos, occ_end = startIndex + pos + int (length name),
                          occ_ptr = ptr, occ_name = name\<rparr>)
       (filter (\<lambda>(name, ptr). w = name) emotes) @
     wordEmotes emotes ws startIndex (pos + int (length w) + 1)"

definition addReplEmotes ::
  "'e ignore_api \<Rightarrow> IgnorePhrase \<Rightarrow> string \<Rightarrow> int \<Rightarrow> 'e emote_occ list \<Rightarrow> 'e emote_occ list" where
  "addReplEmotes api phrase midrepl startIndex twitchEmotes =
     (if \<not> containsEmote api phrase then twitchEmotes
      else twitchEmotes @ wordEmotes (getEmotes api phrase) (splitOn (CHR '' '') midrepl) startIndex 0)"

fun wordStartLoop :: "string \<Rightarrow> nat \<Rightarrow> nat" where
  "wordStartLoop content 0 = 0"
| "wordStartLoop content (Suc k) = (if content ! k = CHR '' '' then Suc k else wordStartLoop content k)"

function wordEndLoop :: "string \<Rightarrow> nat \<Rightarrow> nat" where
  "wordEndLoop content k =
     (if k < length content \<and> content ! k \<noteq> CHR '' '' then wordEndLoop content (Suc k) else k)"
  by pat_completeness auto
termination by (relation "measure (\<lambda>(content, k). length content - k)") auto

declare wordEndLoop.simps [simp del]

text \<open>A removed emote whose name still stands in the extended text is added again.\<close>

definition readd :: "'e ignore_api \<Rightarrow> string \<Rightarrow> nat \<Rightarrow> 'e emote_occ \<Rightarrow> 'e emote_occ option" where
  "readd api midExtended from emote =
     (if occ_ptr emote = None then None
      else case ig_wordMatch api (occ_name emote) midExtended of
          None \<Rightarrow> None
        | Some (s, e) \<Rightarrow> Some (emote\<lparr>occ_start := int from + s, occ_end := int from + e\<rparr>))"

definition replaceMessageAt ::
  "'e ignore_api \<Rightarrow> IgnorePhrase \<Rightarrow> nat \<Rightarrow> nat \<Rightarrow> string \<Rightarrow> string \<times> 'e emote_occ list \<Rightarrow>
    string \<times> 'e emote_occ list" where
  "replaceMessageAt api phrase from len replacement st =
     (let (content, twitchEmotes) = st;
          (twitchEmotes, removedEmotes) = removeEmotesInRange api twitchEmotes (int from) (int len);
          content = take from content @ replacement @ drop (from + len) content;
          wordStart = wordStartLoop content from;
          wordEnd = wordEndLoop content (from + length replacement);
          twitchEmotes = shiftIndicesAfter twitchEmotes (int (from + len)) (int (length replacement) - int len);
          midExtended = take (wordEnd - wordStart) (drop wordStart content);
          twitchEmotes = twitchEmotes @ List.map_filter (readd api midExtended from) removedEmotes
      in (content, addReplEmotes api phrase midExtended (int wordStart) twitchEmotes))"

section \<open>Finding texts\<close>

lemma text_indexOf_Some:
  assumes "text_indexOf f p s from = Some i"
  shows "from \<le> i" "occurs_at f p s i" "\<And>j. from \<le> j \<Longrightarrow> j < i \<Longrightarrow> \<not> occurs_at f p s j"
proof -
  obtain k where k: "k < length [from..<Suc (length s)]" "occurs_at f p s ([from..<Suc (length s)] ! k)"
      "i = [from..<Suc (length s)] ! k" "\<forall>j<k. \<not> occurs_at f p s ([from..<Suc (length s)] ! j)"
    using assms unfolding text_indexOf_def find_Some_iff by blast
  have i: "i = from + k" using k(1,3) by (simp del: upt_Suc)
  show "from \<le> i" "occurs_at f p s i" using i k(2,3) by simp_all
  show "\<not> occurs_at f p s j" if "from \<le> j" "j < i" for j
  proof -
    have "j - from < k" using that i by simp
    moreover from this have "[from..<Suc (length s)] ! (j - from) = j" using that k(1) by (simp del: upt_Suc)
    ultimately show ?thesis using k(4) by metis
  qed
qed

lemma text_indexOf_None: "text_indexOf f p s from = None \<longleftrightarrow> (\<forall>j. from \<le> j \<longrightarrow> \<not> occurs_at f p s j)"
  unfolding text_indexOf_def find_None_iff by (auto simp: occurs_at_def simp del: upt_Suc)

lemma occurs_at_drop: "occurs_at f p (pre @ s) (length pre + i) \<longleftrightarrow> occurs_at f p s i"
  by (simp add: occurs_at_def)

section \<open>The loops over the matches of a phrase\<close>

text \<open>\<open>processIgnorePhrases\<close> skips phrases with an empty pattern before it enters this loop, which would
  not end for them.\<close>

function literalLoop ::
  "'e ignore_api \<Rightarrow> IgnorePhrase \<Rightarrow> nat \<Rightarrow> string \<times> 'e emote_occ list \<Rightarrow> string \<times> 'e emote_occ list" where
  "literalLoop api phrase from st =
     (if ip_pattern phrase = [] then st
      else case text_indexOf (phrase_fold api phrase) (ip_pattern phrase) (fst st) from of
          None \<Rightarrow> st
        | Some i \<Rightarrow> literalLoop api phrase (i + length (ip_replace phrase))
            (replaceMessageAt api phrase i (length (ip_pattern phrase)) (ip_replace phrase) st))"
  by pat_completeness auto

lemma fst_replaceMessageAt:
  "fst (replaceMessageAt api phrase from len replacement st) =
    take from (fst st) @ replacement @ drop (from + len) (fst st)"
  by (auto simp: replaceMessageAt_def Let_def split: prod.splits)

termination literalLoop
proof (relation "measure (\<lambda>(api, phrase, from, st). length (fst st) - from)", goal_cases)
  case (2 api phrase fr st i)
  have "fr \<le> i" "i + length (ip_pattern phrase) \<le> length (fst st)"
    using text_indexOf_Some(1,2) [OF 2(2)] by (simp_all add: occurs_at_def)
  then show ?case using 2(1) by (cases "ip_pattern phrase") (simp_all add: fst_replaceMessageAt)
qed simp

declare literalLoop.simps [simp del]

definition too_many :: string where
  "too_many = ''Too many replacements - check your ignores!''"

text \<open>The second component tells that the function has returned.\<close>

function regexLoop ::
  "'e ignore_api \<Rightarrow> IgnorePhrase \<Rightarrow> nat \<Rightarrow> int \<Rightarrow> string \<times> 'e emote_occ list \<Rightarrow>
    (string \<times> 'e emote_occ list) \<times> bool" where
  "regexLoop api phrase iterations from st =
     (case ig_match api phrase (fst st) from of
        None \<Rightarrow> (st, False)
      | Some mt \<Rightarrow>
          let from = capturedStart mt 0;
              replacement = (if ig_captureCount api phrase > 0
                             then makeRegexReplacement api (fst st) phrase mt (ip_replace phrase)
                             else ip_replace phrase);
              st = replaceMessageAt api phrase (nat from) (nat (capturedLength mt 0)) replacement st;
              from = from + int (length (ip_replace phrase));
              iterations = iterations + 1
          in if iterations \<ge> 128 then ((too_many, snd st), True)
             else regexLoop api phrase iterations from st)"
  by pat_completeness auto
termination by (relation "measure (\<lambda>(api, phrase, iterations, from, st). 128 - iterations)") auto

declare regexLoop.simps [simp del]

fun processIgnorePhrases ::
  "'e ignore_api \<Rightarrow> IgnorePhrase list \<Rightarrow> string \<times> 'e emote_occ list \<Rightarrow> string \<times> 'e emote_occ list" where
  "processIgnorePhrases api [] st = st"
| "processIgnorePhrases api (phrase # phrases) st =
     (if ip_isBlock phrase then processIgnorePhrases api phrases st
      else if ip_pattern phrase = [] then processIgnorePhrases api phrases st
      else if ip_isRegex phrase then
        if \<not> ig_reValid api phrase then processIgnorePhrases api phrases st
        else
          let (st, returned) = regexLoop api phrase 0 0 st
          in if returned then st else processIgnorePhrases api phrases st
      else processIgnorePhrases api phrases (literalLoop api phrase 0 st))"

section \<open>Literal phrases replace every occurrence\<close>

text \<open>The reference: occurrences from left to right that do not overlap.\<close>

function replaceAll :: "('a \<Rightarrow> 'a) \<Rightarrow> 'a list \<Rightarrow> 'a list \<Rightarrow> 'a list \<Rightarrow> 'a list" where
  "replaceAll f p r s =
     (if s = [] \<or> p = [] then s
      else if occurs_at f p s 0 then r @ replaceAll f p r (drop (length p) s)
      else hd s # replaceAll f p r (tl s))"
  by pat_completeness auto
termination by (relation "measure (\<lambda>(f, p, r, s). length s)") auto

declare replaceAll.simps [simp del]

lemma replaceAll_none: "\<forall>j. \<not> occurs_at f p s j \<Longrightarrow> replaceAll f p r s = s"
proof (induction s)
  case (Cons x s)
  then have "\<not> occurs_at f p s j" for j using occurs_at_drop [of f p "[x]" s j] by auto
  then show ?case using Cons by (subst replaceAll.simps) auto
qed (subst replaceAll.simps, simp)

lemma replaceAll_first:
  assumes "p \<noteq> []" "occurs_at f p (a @ s) (length a)" "\<forall>j<length a. \<not> occurs_at f p (a @ s) j"
  shows "replaceAll f p r (a @ s) = a @ r @ replaceAll f p r (drop (length p) s)"
  using assms(2,3)
proof (induction a)
  case Nil
  then have "s \<noteq> []" using assms(1) by (auto simp: occurs_at_def)
  then show ?case using Nil assms(1) by (subst replaceAll.simps) simp
next
  case (Cons x a)
  have "replaceAll f p r ((x # a) @ s) = x # replaceAll f p r (a @ s)"
    using Cons.prems(2) assms(1) by (subst replaceAll.simps) auto
  moreover have "\<forall>j<length a. \<not> occurs_at f p (a @ s) j"
    using Cons.prems(2) occurs_at_drop [of f p "[x]" "a @ s"] by auto
  ultimately show ?case
    using Cons.IH Cons.prems(1) occurs_at_drop [of f p "[x]" "a @ s" "length a"] by simp
qed

lemma literalLoop_content:
  assumes "ip_pattern phrase \<noteq> []" "from \<le> length (fst st)"
  shows "fst (literalLoop api phrase from st) =
    take from (fst st) @ replaceAll (phrase_fold api phrase) (ip_pattern phrase) (ip_replace phrase) (drop from (fst st))"
  using assms
proof (induction api phrase "from" st rule: literalLoop.induct)
  case (1 api phrase fr st)
  let ?f = "phrase_fold api phrase" and ?p = "ip_pattern phrase" and ?r = "ip_replace phrase"
  let ?pre = "take fr (fst st)" and ?s = "drop fr (fst st)"
  have s: "fst st = ?pre @ ?s" "length ?pre = fr" using "1.prems" by simp_all
  show ?case
  proof (cases "text_indexOf ?f ?p (fst st) fr")
    case None
    then have "\<not> occurs_at ?f ?p ?s j" for j
      using occurs_at_drop [of ?f ?p ?pre ?s j] unfolding text_indexOf_None s(2) by (simp only: s(1) [symmetric]) simp
    then show ?thesis using "1.prems" None by (subst literalLoop.simps) (simp add: replaceAll_none)
  next
    case (Some i)
    note ix = text_indexOf_Some [OF Some]
    define a t where "a = take (i - fr) ?s" and "t = drop (i - fr) ?s"
    have st: "?s = a @ t" unfolding a_def t_def by (rule append_take_drop_id [symmetric])
    have "length a = i - fr" "length (?pre @ a) = i" using ix(1,2) by (auto simp: a_def occurs_at_def)
    moreover have "fst st = (?pre @ a) @ t" using s(1) st by simp
    ultimately have at: "?s = a @ t" "length a = i - fr" "fst st = (?pre @ a) @ t" "length (?pre @ a) = i"
      using st by blast+
    have oc: "occurs_at ?f ?p (a @ t) k \<longleftrightarrow> occurs_at ?f ?p (fst st) (fr + k)" for k
      using occurs_at_drop [of ?f ?p ?pre "a @ t" k] at(3) unfolding s(2) append_assoc by metis
    have o: "occurs_at ?f ?p (a @ t) (length a)" "\<forall>j<length a. \<not> occurs_at ?f ?p (a @ t) j"
      using ix(1,2) ix(3) [of "fr + _"] unfolding oc at(2) by auto
    let ?st' = "replaceMessageAt api phrase i (length ?p) ?r st"
    have c: "fst ?st' = (?pre @ a @ ?r) @ drop (length ?p) t"
    proof -
      have "take i (fst st) = ?pre @ a" "drop i (fst st) = t"
        using at(3,4) by (metis append_eq_conv_conj)+
      moreover have "drop (i + length ?p) (fst st) = drop (length ?p) (drop i (fst st))" by (simp add: add.commute)
      ultimately show ?thesis unfolding fst_replaceMessageAt by simp
    qed
    have l: "length (?pre @ a @ ?r) = i + length ?r" using at(4) by simp
    have "fst (literalLoop api phrase fr st) = fst (literalLoop api phrase (i + length ?r) ?st')"
      using "1.prems" Some by (subst literalLoop.simps) simp
    also have "\<dots> = take (i + length ?r) (fst ?st') @ replaceAll ?f ?p ?r (drop (i + length ?r) (fst ?st'))"
      by (rule "1.IH" [OF "1.prems"(1) Some "1.prems"(1)]) (unfold c length_append l [unfolded length_append], simp)
    also have "\<dots> = (?pre @ a @ ?r) @ replaceAll ?f ?p ?r (drop (length ?p) t)"
    proof -
      have td: "take (length xs) (xs @ ys) = xs" "drop (length xs) (xs @ ys) = ys" for xs ys :: string
        by simp_all
      show ?thesis unfolding l [symmetric] c td ..
    qed
    finally show ?thesis using replaceAll_first [OF "1.prems"(1) o] at(1) by simp
  qed
qed

text \<open>
  C24. Phrases without regular expressions replace, one phrase after the other, every occurrence of
  their pattern that a scan from left to right finds, with regard to the case or not; block phrases and
  empty patterns change nothing.\<close>

theorem literal_phrases_replace_all:
  assumes "list_all (\<lambda>p. \<not> ip_isRegex p) phrases"
  shows "fst (processIgnorePhrases api phrases st) =
    foldl (\<lambda>content p. if ip_isBlock p then content
        else replaceAll (phrase_fold api p) (ip_pattern p) (ip_replace p) content) (fst st) phrases"
  using assms
proof (induction phrases arbitrary: st)
  case (Cons p phrases)
  show ?case
  proof (cases "ip_pattern p = []")
    case True
    moreover have "replaceAll f [] r s = s" for f :: "char \<Rightarrow> char" and r s by (subst replaceAll.simps) simp
    ultimately show ?thesis using Cons by simp
  next
    case False
    then show ?thesis using Cons literalLoop_content [OF False, of 0 st api] by simp
  qed
qed simp

section \<open>Emotes follow the text\<close>

text \<open>The emote's range, its end included, holds its name.\<close>

definition points_at :: "string \<Rightarrow> 'e emote_occ \<Rightarrow> bool" where
  "points_at content oc \<longleftrightarrow>
     0 \<le> occ_start oc \<and> occ_start oc \<le> occ_end oc \<and> occ_end oc < int (length content) \<and>
     occ_name oc = take (nat (occ_end oc - occ_start oc + 1)) (drop (nat (occ_start oc)) content)"

definition starts_in :: "nat \<Rightarrow> nat \<Rightarrow> 'e emote_occ \<Rightarrow> bool" where
  "starts_in from len oc \<longleftrightarrow> int from \<le> occ_start oc \<and> occ_start oc < int (from + len)"

lemma points_at_before:
  assumes "points_at content oc" "occ_end oc < int from" "from \<le> length content"
  shows "points_at (take from content @ x) oc"
  using assms by (simp add: points_at_def nat_le_iff drop_take min_def)

lemma points_at_behind:
  assumes "points_at content oc" "int (from + len) \<le> occ_start oc" "from + len \<le> length content"
  shows "points_at (take from content @ r @ drop (from + len) content)
    (oc\<lparr>occ_start := occ_start oc + (int (length r) - int len),
        occ_end := occ_end oc + (int (length r) - int len)\<rparr>)"
proof -
  define k where "k = nat (occ_start oc) - (from + len)"
  have s: "nat (occ_start oc) = from + len + k" and s': "occ_start oc = int (from + len + k)"
    using assms(2) by (auto simp: k_def)
  have "nat (occ_start oc + (int (length r) - int len)) = from + length r + k"
    unfolding s' by simp
  moreover have "drop (from + length r + k) (take from content @ r @ drop (from + len) content) =
      drop (nat (occ_start oc)) content"
    using assms(3) unfolding s by (simp add: ac_simps)
  ultimately show ?thesis using assms by (simp add: points_at_def s' algebra_simps)
qed

text \<open>Where an emote outside the range is afterwards.\<close>

definition moved :: "nat \<Rightarrow> nat \<Rightarrow> nat \<Rightarrow> 'e emote_occ \<Rightarrow> 'e emote_occ" where
  "moved from len k oc =
     (if int (from + len) \<le> occ_start oc
      then oc\<lparr>occ_start := occ_start oc + (int k - int len), occ_end := occ_end oc + (int k - int len)\<rparr> else oc)"

lemma kept_emotes:
  assumes "partition_law api" "list_all (points_at content) emotes" "from + len \<le> length content"
    and "kept = shiftIndicesAfter (fst (removeEmotesInRange api emotes (int from) (int len))) (int (from + len))
        (int (length r) - int len)"
  shows "list_all (\<lambda>oc. occ_start oc < int from \<and> int from \<le> occ_end oc \<or>
      points_at (take from content @ r @ drop (from + len) content) oc) kept"
    and "mset kept = mset (map (moved from len (length r)) (filter (\<lambda>oc. \<not> starts_in from len oc) emotes))"
    and "mset (snd (removeEmotesInRange api emotes (int from) (int len))) = mset (filter (starts_in from len) emotes)"
proof -
  let ?P = "\<lambda>item. \<not> (occ_start item \<ge> int from \<and> occ_start item < int from + int len)"
  define out where "out = fst (ig_partition api ?P emotes)"
  define inr where "inr = snd (ig_partition api ?P emotes)"
  have law: "list_all ?P out" "list_all (\<lambda>x. \<not> ?P x) inr" "mset out + mset inr = mset emotes"
    unfolding out_def inr_def using partition_lawD [OF assms(1), of ?P emotes] by simp_all
  have P: "?P = (\<lambda>oc. \<not> starts_in from len oc)" "(\<lambda>x. \<not> ?P x) = starts_in from len" by (simp_all add: starts_in_def fun_eq_iff)
  have kept: "kept = map (moved from len (length r)) out"
    by (simp add: assms(4) removeEmotesInRange_def out_def shiftIndicesAfter_def moved_def)
  have sub: "set out \<subseteq> set emotes"
    using law(3) by (metis mset_subset_eq_add_left set_mset_mono set_mset_mset)
  show "list_all (\<lambda>oc. occ_start oc < int from \<and> int from \<le> occ_end oc \<or>
      points_at (take from content @ r @ drop (from + len) content) oc) kept"
    unfolding kept list_all_iff
  proof (intro ballI)
    fix x
    assume "x \<in> set (map (moved from len (length r)) out)"
    then obtain oc where oc: "oc \<in> set out" and x: "x = moved from len (length r) oc" by auto
    have pt: "points_at content oc" and "?P oc" using oc sub assms(2) law(1) by (auto simp: list_all_iff)
    consider "int (from + len) \<le> occ_start oc" | "\<not> int (from + len) \<le> occ_start oc" "occ_end oc < int from"
      | "occ_start oc < int from" "int from \<le> occ_end oc"
      using \<open>?P oc\<close> by fastforce
    then show "occ_start x < int from \<and> int from \<le> occ_end x \<or> points_at (take from content @ r @ drop (from + len) content) x"
    proof cases
      case 1
      then show ?thesis using points_at_behind [OF pt 1 assms(3)] x by (simp add: moved_def)
    next
      case 2
      then show ?thesis using points_at_before [OF pt 2(2)] assms(3) x by (simp add: moved_def)
    next
      case 3
      then show ?thesis using x by (simp add: moved_def)
    qed
  qed
  have f: "filter ?P out = out" "filter ?P inr = []" "filter (\<lambda>x. \<not> ?P x) out = []" "filter (\<lambda>x. \<not> ?P x) inr = inr"
    using law(1,2) by (auto simp: filter_id_conv filter_empty_conv list_all_iff)
  have split: "mset (filter Q emotes) = mset (filter Q out) + mset (filter Q inr)" for Q
    unfolding mset_filter law(3) [symmetric] by simp
  have "mset (filter ?P emotes) = mset out" unfolding split f by simp
  then show "mset kept = mset (map (moved from len (length r)) (filter (\<lambda>oc. \<not> starts_in from len oc) emotes))"
    unfolding kept P by (metis mset_map)
  have "mset (filter (\<lambda>x. \<not> ?P x) emotes) = mset inr" unfolding split f by simp
  then show "mset (snd (removeEmotesInRange api emotes (int from) (int len))) = mset (filter (starts_in from len) emotes)"
    unfolding P by (simp add: removeEmotesInRange_def inr_def)
qed

text \<open>The words of a text, between blanks, that a range of it reaches into: \<open>ws\<close>, from the begin of the word at the
  begin of the range to the end of the word at its end.\<close>

definition touched_words :: "string \<Rightarrow> nat \<Rightarrow> nat \<Rightarrow> string \<Rightarrow> bool" where
  "touched_words content from len ws \<longleftrightarrow> (\<exists>pre post. content = pre @ ws @ post \<and>
     length pre \<le> from \<and> from + len \<le> length pre + length ws \<and>
     (pre = [] \<or> last pre = CHR '' '') \<and> (post = [] \<or> hd post = CHR '' '') \<and>
     CHR '' '' \<notin> set (take (from - length pre) ws) \<and> CHR '' '' \<notin> set (drop (from + len - length pre) ws))"

lemma wordStartLoop_spec:
  "k \<le> length content \<Longrightarrow> wordStartLoop content k \<le> k \<and>
    (wordStartLoop content k = 0 \<or> content ! (wordStartLoop content k - 1) = CHR '' '') \<and>
    (\<forall>i. wordStartLoop content k \<le> i \<longrightarrow> i < k \<longrightarrow> content ! i \<noteq> CHR '' '')"
  by (induction k) (auto simp: less_Suc_eq)

lemma wordEndLoop_spec:
  "k \<le> length content \<Longrightarrow> k \<le> wordEndLoop content k \<and> wordEndLoop content k \<le> length content \<and>
    (wordEndLoop content k = length content \<or> content ! wordEndLoop content k = CHR '' '') \<and>
    (\<forall>i. k \<le> i \<longrightarrow> i < wordEndLoop content k \<longrightarrow> content ! i \<noteq> CHR '' '')"
proof (induction content k rule: wordEndLoop.induct)
  case (1 content k)
  show ?case
  proof (cases "k < length content \<and> content ! k \<noteq> CHR '' ''")
    case True
    then have e: "wordEndLoop content k = wordEndLoop content (Suc k)" by (subst wordEndLoop.simps) simp
    show ?thesis unfolding e using "1.IH" [OF True] True by (metis Suc_leI Suc_le_eq le_eq_less_or_eq Suc_leD)
  next
    case False
    then have "wordEndLoop content k = k" by (subst wordEndLoop.simps) auto
    then show ?thesis using False "1.prems" by auto
  qed
qed

lemma words_of_range:
  fixes content :: string
  assumes "from + len \<le> length content"
  defines "a \<equiv> wordStartLoop content from" and "b \<equiv> wordEndLoop content (from + len)"
  shows "touched_words content from len (take (b - a) (drop a content))"
proof -
  have a: "a \<le> from" "a = 0 \<or> content ! (a - 1) = CHR '' ''" "\<And>i. a \<le> i \<Longrightarrow> i < from \<Longrightarrow> content ! i \<noteq> CHR '' ''"
    using wordStartLoop_spec [of "from" content] assms(1) by (auto simp: a_def)
  have b: "from + len \<le> b" "b \<le> length content" "b = length content \<or> content ! b = CHR '' ''"
    "\<And>i. from + len \<le> i \<Longrightarrow> i < b \<Longrightarrow> content ! i \<noteq> CHR '' ''"
    using wordEndLoop_spec [OF assms(1)] by (auto simp: b_def)
  let ?ws = "take (b - a) (drop a content)"
  have ab: "a \<le> b" using a(1) b(1) by simp
  have "content = take a content @ ?ws @ drop b content"
    using ab by (metis append_take_drop_id drop_drop le_add_diff_inverse2)
  moreover have "take a content = [] \<or> last (take a content) = CHR '' ''"
  proof (cases "a = 0")
    case False
    then have "last (take a content) = content ! (a - 1)"
      using a(1) assms(1) False by (subst last_conv_nth) (auto simp: min_absorb2)
    then show ?thesis using a(2) False by simp
  qed simp
  moreover have "drop b content = [] \<or> hd (drop b content) = CHR '' ''"
    using b(2,3) by (auto simp: hd_drop_conv_nth le_less)
  moreover have "CHR '' '' \<notin> set (take (from - a) ?ws)"
  proof
    assume "CHR '' '' \<in> set (take (from - a) ?ws)"
    then obtain i where "i < from - a" "?ws ! i = CHR '' ''" by (auto simp: in_set_conv_nth)
    moreover from this b(1) have "?ws ! i = content ! (a + i)" using b(2) by simp
    ultimately show False using a(3) [of "a + i"] by simp
  qed
  moreover have "CHR '' '' \<notin> set (drop (from + len - a) ?ws)"
  proof
    assume "CHR '' '' \<in> set (drop (from + len - a) ?ws)"
    then obtain i where i: "a + (i + (from + len - a)) < b" "content ! (a + (i + (from + len - a))) = CHR '' ''"
      using b(2) by (auto simp: in_set_conv_nth less_diff_conv ac_simps)
    moreover have "a + (i + (from + len - a)) = from + len + i" using a(1) by simp
    ultimately have "content ! (from + len + i) = CHR '' ''" by (simp add: ac_simps)
    then show False using b(4) [of "from + len + i"] i(1) a(1) by simp
  qed
  ultimately show ?thesis unfolding touched_words_def using a(1) b(1,2) ab assms(1)
    by (intro exI [of _ "take a content"] exI [of _ "drop b content"]) (simp add: min_def)
qed

lemma wordEmotes_names:
  "oc \<in> set (wordEmotes es ws start pos) \<Longrightarrow> occ_name oc \<in> set ws \<and> (occ_name oc, occ_ptr oc) \<in> set es"
  by (induction es ws start pos rule: wordEmotes.induct) auto

lemma map_filter_filter: "List.map_filter f xs = map (\<lambda>x. the (f x)) (filter (\<lambda>x. f x \<noteq> None) xs)"
  by (simp add: List.map_filter_def comp_def)


section \<open>A concrete instance\<close>

text \<open>ASCII case folding; the regular expressions \<open>(a+)\<close>, with one group, and plain texts between blanks or
  brackets for the words.\<close>

fun span_len :: "(char \<Rightarrow> bool) \<Rightarrow> string \<Rightarrow> nat" where
  "span_len P [] = 0"
| "span_len P (c # s) = (if P c then Suc (span_len P s) else 0)"

definition sample_a_plus :: "string \<Rightarrow> int \<Rightarrow> re_match option" where
  "sample_a_plus s from =
     (case text_indexOf (\<lambda>c. c) ''a'' s (nat from) of
        None \<Rightarrow> None
      | Some i \<Rightarrow> Some \<lparr>capturedStart = (\<lambda>n. int i),
          capturedLength = (\<lambda>n. int (span_len (\<lambda>c. c = CHR ''a'') (drop i s)))\<rparr>)"

definition sample_ignore :: "string ignore_api" where
  "sample_ignore = \<lparr>ig_fold = ascii_lower,
     ig_digitValue = (\<lambda>c. if is_digit c then int (of_char c - 48) else -1),
     ig_reValid = (\<lambda>p. True), ig_captureCount = (\<lambda>p. 1), ig_match = (\<lambda>p. sample_a_plus),
     ig_wordMatch = (\<lambda>name s. map_option (\<lambda>i. (int i, int (i + length name))) (text_indexOf (\<lambda>c. c) name s 0)),
     ig_partition = (\<lambda>P xs. (filter P xs, filter (\<lambda>x. \<not> P x) xs)),
     ig_accessEmotes = []\<rparr>"

definition sample_phrase :: IgnorePhrase where
  "sample_phrase = \<lparr>ip_pattern = ''AB'', ip_isRegex = False, ip_isBlock = False,
     ip_replace = ''xyz'', ip_isCaseSensitive = False\<rparr>"

definition sample_emote :: "string emote_occ" where
  "sample_emote = \<lparr>occ_start = 3, occ_end = 7, occ_ptr = Some ''id'', occ_name = ''Kappa''\<rparr>"

lemma sample_partition: "partition_law sample_ignore"
  by (simp add: partition_law_def sample_ignore_def list_all_iff mset_filter)

theorem literal_phrases_replace_all_witness:
  "fst (processIgnorePhrases sample_ignore [sample_phrase] (''ab Kappa aB'', [sample_emote])) = ''xyz Kappa xyz''"
proof -
  have "foldl (\<lambda>content p. if ip_isBlock p then content
        else replaceAll (phrase_fold sample_ignore p) (ip_pattern p) (ip_replace p) content)
      ''ab Kappa aB'' [sample_phrase] = ''xyz Kappa xyz''" by code_simp
  then show ?thesis
    using literal_phrases_replace_all [of "[sample_phrase]" sample_ignore "(''ab Kappa aB'', [sample_emote])"]
    by (simp add: sample_phrase_def)
qed


section \<open>Where the code goes wrong\<close>

text \<open>A removed emote whose name still stands in the replaced word is looked for in the whole word, but its
  position there is added to the start of the replaced range: with \<open>(Kappa\<close> and \<open>Kappa\<close> replaced by
  \<open>Kappa!\<close>, the emote that stands at 1 is recorded at 2, and its end lies behind its last character.\<close>

lemma readd_wrong_position:
  "replaceMessageAt sample_ignore sample_phrase 1 5 ''Kappa!''
     (''(Kappa'', [sample_emote\<lparr>occ_start := 1, occ_end := 5\<rparr>]) =
   (''(Kappa!'', [sample_emote\<lparr>occ_start := 2, occ_end := 7\<rparr>])"
  by code_simp

text \<open>The regular expression continues behind the length of the replacement pattern, not of the text that
  was inserted: replacing \<open>(a+)\<close> by \<open>[\1]\<close> also replaces inside the inserted text.\<close>

definition sample_regex :: IgnorePhrase where
  "sample_regex = \<lparr>ip_pattern = ''(a+)'', ip_isRegex = True, ip_isBlock = False,
     ip_replace = [CHR ''['', CHR 0x5C, CHR ''1'', CHR '']''], ip_isCaseSensitive = True\<rparr>"

lemma regex_replaces_inside_replacement:
  "fst (processIgnorePhrases sample_ignore [sample_regex] (''aaaa'', [])) = ''[aaa[a]]''"
  by code_simp

section \<open>Replacements with captured groups, by their reading\<close>

text \<open>A backslash and a group number, of two digits where there are so many groups, stands for what the group
  captured.\<close>

function expand :: "(char \<Rightarrow> int) \<Rightarrow> int \<Rightarrow> (nat \<Rightarrow> string) \<Rightarrow> string \<Rightarrow> string" where
  "expand dv n cap (c # d # s) =
     (if c = CHR 0x5C \<and> 0 < dv d \<and> dv d \<le> n then
        if s \<noteq> [] \<and> dv (hd s) \<noteq> -1 \<and> dv d * 10 + dv (hd s) \<le> n
        then cap (nat (dv d * 10 + dv (hd s))) @ expand dv n cap (tl s)
        else cap (nat (dv d)) @ expand dv n cap s
      else c # expand dv n cap (d # s))"
| "expand dv n cap [c] = [c]"
| "expand dv n cap [] = []"
  by pat_completeness auto
termination by (relation "measure (\<lambda>(dv, n, cap, s). length s)") auto

lemma chunkLoop_chunks:
  "concat (chunkLoop source mt rep bs e chunks) = concat chunks @ concat (chunkLoop source mt rep bs e [])"
proof (induction bs arbitrary: e chunks)
  case (Cons b bs)
  show ?case by (subst (1 2) chunkLoop.simps, unfold Let_def, subst (1 2) Cons) simp
qed simp

lemma chunkLoop_Cons:
  "concat (chunkLoop source mt rep (b # bs) e []) =
    take (cap_pos b - e) (drop e rep) @ captured_text source mt (nat (captureNumber b)) @
    concat (chunkLoop source mt rep bs (cap_pos b + cap_len b) [])"
  by (subst chunkLoop.simps, unfold Let_def, subst chunkLoop_chunks)
    (simp add: captured_text_def Let_def)

lemma map_filter_upt:
  "i < m \<Longrightarrow> List.map_filter f [i..<m] =
    (case f i of None \<Rightarrow> List.map_filter f [Suc i..<m] | Some b \<Rightarrow> b # List.map_filter f [Suc i..<m])"
  by (simp add: upt_conv_Cons map_filter_simps split: option.splits)

lemma backReference_digit:
  assumes "ig_digitValue api (CHR 0x5C) = -1" "ig_digitValue api (rep ! i) \<noteq> -1"
  shows "backReference api n rep i = None"
  using assms by (auto simp: backReference_def)

lemma map_filter_skip:
  assumes "ig_digitValue api (CHR 0x5C) = -1" "ig_digitValue api (rep ! i) \<noteq> -1"
  shows "List.map_filter (backReference api n rep) [i..<m] = List.map_filter (backReference api n rep) [Suc i..<m]"
  using backReference_digit [OF assms, of n]
  by (cases "i < m") (simp_all add: map_filter_upt map_filter_simps)

lemma chunkLoop_expand:
  assumes d: "ig_digitValue api (CHR 0x5C) = -1" and le: "e \<le> i" "i \<le> length rep"
  shows "concat (chunkLoop source mt rep
      (List.map_filter (backReference api n rep) [i..<length rep - 1]) e []) =
    take (i - e) (drop e rep) @ expand (ig_digitValue api) n (captured_text source mt) (drop i rep)"
  using le
proof (induction "length rep - i" arbitrary: i e rule: less_induct)
  case less
  let ?dv = "ig_digitValue api" and ?cap = "captured_text source mt"
  let ?br = "backReference api n rep" and ?m = "length rep - 1"
  show ?case
  proof (cases "i < ?m")
    case False
    then have "length (drop i rep) \<le> 1" by simp
    then have "expand ?dv n ?cap (drop i rep) = drop i rep"
      by (cases "drop i rep" rule: list.exhaust) auto
    moreover have "take (i - e) (drop e rep) @ drop i rep = drop e rep"
      using append_take_drop_id [of "i - e" "drop e rep"] less.prems by simp
    ultimately show ?thesis using False by (simp add: map_filter_simps)
  next
    case True
    then have dr: "drop i rep = rep ! i # rep ! Suc i # drop (i + 2) rep"
      by (simp add: Cons_nth_drop_Suc)
    show ?thesis
    proof (cases "?br i")
      case None
      have "concat (chunkLoop source mt rep (List.map_filter ?br [Suc i..<?m]) e []) =
          take (Suc i - e) (drop e rep) @ expand ?dv n ?cap (drop (Suc i) rep)"
        using less.prems True by (intro less.hyps) auto
      moreover have "take (Suc i - e) (drop e rep) = take (i - e) (drop e rep) @ [rep ! i]"
        using less.prems True by (simp add: Suc_diff_le take_Suc_conv_app_nth)
      moreover have "expand ?dv n ?cap (drop i rep) = rep ! i # expand ?dv n ?cap (drop (Suc i) rep)"
      proof -
        have "\<not> (rep ! i = CHR 0x5C \<and> 0 < ?dv (rep ! Suc i) \<and> ?dv (rep ! Suc i) \<le> n)"
          using None by (auto simp: backReference_def Let_def split: if_splits)
        moreover have "drop (Suc i) rep = rep ! Suc i # drop (i + 2) rep" using True by (simp add: Cons_nth_drop_Suc)
        ultimately show ?thesis unfolding dr by (simp only: expand.simps if_False)
      qed
      ultimately show ?thesis using True None by (simp add: map_filter_upt)
    next
      case (Some b)
      then have b: "rep ! i = CHR 0x5C" "0 < ?dv (rep ! Suc i)" "?dv (rep ! Suc i) \<le> n" "cap_pos b = i"
        by (auto simp: backReference_def Let_def split: if_splits)
      have mf: "List.map_filter ?br [i..<?m] = b # List.map_filter ?br [i + 2..<?m]"
        using True Some map_filter_skip [OF d, of rep "Suc i" n ?m] b(2) by (simp add: map_filter_upt)
      define C where "C \<longleftrightarrow> i + 2 < length rep \<and> ?dv (rep ! (i + 2)) \<noteq> -1 \<and>
        ?dv (rep ! Suc i) * 10 + ?dv (rep ! (i + 2)) \<le> n"
      have bb: "b = (if C then \<lparr>cap_pos = i, cap_len = 3, captureNumber = ?dv (rep ! Suc i) * 10 + ?dv (rep ! (i + 2))\<rparr>
          else \<lparr>cap_pos = i, cap_len = 2, captureNumber = ?dv (rep ! Suc i)\<rparr>)"
        using Some b(1-3) unfolding C_def backReference_def Let_def by (auto split: if_splits)
      consider (two) "cap_len b = 2" "captureNumber b = ?dv (rep ! Suc i)" "\<not> C"
        | (three) "cap_len b = 3" "captureNumber b = ?dv (rep ! Suc i) * 10 + ?dv (rep ! (i + 2))"
          "i + 2 < length rep" "?dv (rep ! (i + 2)) \<noteq> -1" "?dv (rep ! Suc i) * 10 + ?dv (rep ! (i + 2)) \<le> n"
      proof (cases C)
        case True
        then have "cap_len b = 3" "captureNumber b = ?dv (rep ! Suc i) * 10 + ?dv (rep ! (i + 2))" by (simp_all add: bb)
        then show thesis using that(2) True unfolding C_def by blast
      next
        case False
        then have "cap_len b = 2" "captureNumber b = ?dv (rep ! Suc i)" by (simp_all add: bb)
        then show thesis using that(1) False by blast
      qed
      then have "concat (chunkLoop source mt rep (List.map_filter ?br [i + 2..<?m]) (i + cap_len b) []) =
            expand ?dv n ?cap (drop (i + cap_len b) rep) \<and>
          expand ?dv n ?cap (drop i rep) = ?cap (nat (captureNumber b)) @ expand ?dv n ?cap (drop (i + cap_len b) rep)"
      proof cases
        case two
        have "concat (chunkLoop source mt rep (List.map_filter ?br [i + 2..<?m]) (i + 2) []) =
            take (i + 2 - (i + 2)) (drop (i + 2) rep) @ expand ?dv n ?cap (drop (i + 2) rep)"
          using True by (intro less.hyps) auto
        moreover have "drop (i + 2) rep \<noteq> [] \<Longrightarrow> hd (drop (i + 2) rep) = rep ! (i + 2)"
          by (simp add: hd_drop_conv_nth)
        ultimately show ?thesis using two b unfolding dr C_def by auto
      next
        case three
        have "concat (chunkLoop source mt rep (List.map_filter ?br [i + 3..<?m]) (i + 3) []) =
            take (i + 3 - (i + 3)) (drop (i + 3) rep) @ expand ?dv n ?cap (drop (i + 3) rep)"
          using three(3) by (intro less.hyps) auto
        moreover have "List.map_filter ?br [i + 2..<?m] = List.map_filter ?br [i + 3..<?m]"
          using map_filter_skip [OF d three(4), of n ?m] by (simp add: numeral_eq_Suc)
        moreover have "hd (drop (i + 2) rep) = rep ! (i + 2)" "drop (i + 2) rep \<noteq> []" "tl (drop (i + 2) rep) = drop (i + 3) rep"
          using three(3) by (simp_all add: hd_drop_conv_nth tl_drop numeral_eq_Suc drop_Suc [of "Suc (Suc i)"])
        ultimately show ?thesis using three b unfolding dr by simp
      qed
      then show ?thesis unfolding mf chunkLoop_Cons b(4) by simp
    qed
  qed
qed

text \<open>
  The replacement of one match, assembled from a list of back references and chunks, is the
  replacement pattern with every back reference replaced by what its group captured.\<close>

theorem makeRegexReplacement_expands:
  assumes "ig_digitValue api (CHR 0x5C) = -1"
  shows "makeRegexReplacement api source regex mt replacement =
    expand (ig_digitValue api) (ig_captureCount api regex) (captured_text source mt) replacement"
  using chunkLoop_expand [OF assms, of 0 0 replacement source mt "ig_captureCount api regex"]
  by (simp add: makeRegexReplacement_def backReferences_def)

theorem makeRegexReplacement_expands_witness:
  "makeRegexReplacement sample_ignore ''x aaa'' sample_regex
     \<lparr>capturedStart = (\<lambda>n. 2), capturedLength = (\<lambda>n. 3)\<rparr> (ip_replace sample_regex) = ''[aaa]''"
proof -
  have "expand (ig_digitValue sample_ignore) (ig_captureCount sample_ignore sample_regex)
      (captured_text ''x aaa'' \<lparr>capturedStart = (\<lambda>n. 2), capturedLength = (\<lambda>n. 3)\<rparr>) (ip_replace sample_regex) = ''[aaa]''"
    by code_simp
  then show ?thesis
    by (subst makeRegexReplacement_expands) (simp_all add: sample_ignore_def is_digit_def)
qed

end
