(* ===== verification/StringHelpers.thy ===== *)
theory StringHelpers
  imports SampleText "HOL-Library.Word"
begin

text \<open>
  Durations, and the other pure functions of \<open>util/Helpers.cpp\<close> and \<open>util/FormatTime.cpp\<close>.

  The character classes and number conversions of Qt are the parameter \<open>qchar_api\<close>; \<open>qchar_laws\<close>
  states what is documented of them.  Positions are natural numbers, 64-bit values words.
\<close>

section \<open>Qt's characters and numbers\<close>

record qchar_api =
  qc_isSpace :: "char \<Rightarrow> bool"
  qc_isDigit :: "char \<Rightarrow> bool"
  qc_toUInt :: "string \<Rightarrow> nat"
  qc_number :: "int \<Rightarrow> string"
  qc_trimmed :: "string \<Rightarrow> string"
  qc_toLower :: "string \<Rightarrow> string"

definition qchar_laws :: "qchar_api \<Rightarrow> bool" where
  "qchar_laws Q \<longleftrightarrow>
     qc_isSpace Q (CHR '' '') \<and> (\<forall>c. qc_isDigit Q c \<longrightarrow> \<not> qc_isSpace Q c) \<and>
     (\<forall>c\<in>set ''abcdefghijklmnopqrstuvwxyz''. \<not> qc_isSpace Q c \<and> \<not> qc_isDigit Q c) \<and>
     (\<forall>n. 0 \<le> n \<and> n < 2 ^ 32 \<longrightarrow> qc_toUInt Q (qc_number Q n) = nat n) \<and>
     (\<forall>n. 0 \<le> n \<longrightarrow> qc_number Q n \<noteq> [] \<and> (\<forall>c\<in>set (qc_number Q n). qc_isDigit Q c)) \<and>
     (\<forall>s. s \<noteq> [] \<and> \<not> qc_isSpace Q (hd s) \<and> \<not> qc_isSpace Q (last s) \<longrightarrow> qc_trimmed Q s = s) \<and>
     (\<forall>s. (\<forall>c\<in>set s. qc_isSpace Q c) \<longrightarrow> qc_trimmed Q s = []) \<and> qc_toUInt Q [] = 0"

lemma qchar_lawsD:
  assumes "qchar_laws Q"
  shows "qc_isSpace Q (CHR '' '')" "qc_isDigit Q c \<Longrightarrow> \<not> qc_isSpace Q c"
    and "c \<in> set ''abcdefghijklmnopqrstuvwxyz'' \<Longrightarrow> \<not> qc_isSpace Q c \<and> \<not> qc_isDigit Q c"
    and "0 \<le> n \<Longrightarrow> n < 2 ^ 32 \<Longrightarrow> qc_toUInt Q (qc_number Q n) = nat n"
    and "0 \<le> n \<Longrightarrow> qc_number Q n \<noteq> []" "0 \<le> n \<Longrightarrow> \<forall>c\<in>set (qc_number Q n). qc_isDigit Q c"
    and "s \<noteq> [] \<Longrightarrow> \<not> qc_isSpace Q (hd s) \<Longrightarrow> \<not> qc_isSpace Q (last s) \<Longrightarrow> qc_trimmed Q s = s"
    and "\<forall>c\<in>set s. qc_isSpace Q c \<Longrightarrow> qc_trimmed Q s = []" "qc_toUInt Q [] = 0"
  using assms unfolding qchar_laws_def by blast+

text \<open>\<open>QStringView::mid\<close>.\<close>

definition mid :: "'a list \<Rightarrow> nat \<Rightarrow> nat \<Rightarrow> 'a list" where
  "mid s pos n = take n (drop pos s)"

section \<open>Parsing durations\<close>

function skipSpaceLoop :: "qchar_api \<Rightarrow> string \<Rightarrow> nat \<Rightarrow> nat" where
  "skipSpaceLoop Q view pos =
     (if pos < length view \<and> qc_isSpace Q (view ! pos) then skipSpaceLoop Q view (Suc pos) else pos)"
  by pat_completeness auto
termination by (relation "measure (\<lambda>(Q, view, pos). length view - pos)") auto

declare skipSpaceLoop.simps [simp del]

definition skipSpace :: "qchar_api \<Rightarrow> string \<Rightarrow> nat \<Rightarrow> nat" where
  "skipSpace Q view startPos = skipSpaceLoop Q view startPos - 1"

definition matchesIgnorePlural :: "string \<Rightarrow> string \<Rightarrow> bool" where
  "matchesIgnorePlural word expected =
     (if take (length expected) word \<noteq> expected then False
      else if length word = length expected then True
      else length word = length expected + 1 \<and> word ! (length word - 1) = CHR ''s'')"

text \<open>The end of the unit that starts at \<open>pos\<close>.\<close>

function unitEnd :: "qchar_api \<Rightarrow> string \<Rightarrow> nat \<Rightarrow> nat" where
  "unitEnd Q view pos =
     (if pos < length view then
        if qc_isSpace Q (view ! pos) \<or> qc_isDigit Q (view ! pos) then pos else unitEnd Q view (Suc pos)
      else length view)"
  by pat_completeness auto
termination by (relation "measure (\<lambda>(Q, view, pos). length view - pos)") auto

declare unitEnd.simps [simp del]

text \<open>The multiplier, if the unit is valid, and the new position, the last one of the unit.\<close>

definition findUnitMultiplierToSec :: "qchar_api \<Rightarrow> string \<Rightarrow> nat \<Rightarrow> 64 word option \<times> nat" where
  "findUnitMultiplierToSec Q view pos =
     (let startIdx = pos;
          endIdx = unitEnd Q view pos;
          u = mid view startIdx (endIdx - startIdx);
          first = hd u
      in (if u = [] then None
          else if first = CHR ''s'' then
            if length u = 1 \<or> matchesIgnorePlural u ''second'' then Some 1 else None
          else if first = CHR ''m'' then
            if length u = 1 \<or> matchesIgnorePlural u ''minute'' then Some 60
            else if length u = 2 \<and> u ! 1 = CHR ''o'' \<or> matchesIgnorePlural u ''month''
              then Some (60 * 60 * 24 * 30) else None
          else if first = CHR ''h'' then
            if length u = 1 \<or> matchesIgnorePlural u ''hour'' then Some (60 * 60) else None
          else if first = CHR ''d'' then
            if length u = 1 \<or> matchesIgnorePlural u ''day'' then Some (60 * 60 * 24) else None
          else if first = CHR ''w'' then
            if length u = 1 \<or> matchesIgnorePlural u ''week'' then Some (60 * 60 * 24 * 7) else None
          else None, endIdx - 1))"

lemma skipSpaceLoop_ge: "pos \<le> skipSpaceLoop Q view pos"
proof (induction Q view pos rule: skipSpaceLoop.induct)
  case (1 Q view pos)
  then show ?case by (subst skipSpaceLoop.simps) auto
qed

lemma unitEnd_ge: "pos \<le> length view \<Longrightarrow> pos \<le> unitEnd Q view pos \<and> unitEnd Q view pos \<le> length view"
proof (induction Q view pos rule: unitEnd.induct)
  case (1 Q view pos)
  then show ?case by (subst (1 2) unitEnd.simps) auto
qed

lemma findUnit_ge:
  assumes "findUnitMultiplierToSec Q view pos = (Some k, pos')" "pos \<le> length view"
  shows "pos \<le> pos'"
proof -
  have "pos < unitEnd Q view pos"
    using assms unitEnd_ge [of pos view Q]
    by (cases "unitEnd Q view pos = pos") (auto simp: findUnitMultiplierToSec_def mid_def Let_def)
  with assms(1) show ?thesis by (auto simp: findUnitMultiplierToSec_def Let_def)
qed

text \<open>The loop of \<open>parseDurationToSeconds\<close> over \<open>pos\<close>, and what follows it.\<close>

function durationLoop ::
  "qchar_api \<Rightarrow> string \<Rightarrow> 64 word \<Rightarrow> nat \<Rightarrow> bool \<Rightarrow> nat \<Rightarrow> 64 word \<Rightarrow> int" where
  "durationLoop Q input noUnitMultiplier pos visitingNumber numberStartIdx currentValue =
     (if pos < length input then
        let c = input ! pos in
        if visitingNumber \<and> \<not> qc_isDigit Q c then
          let parsed = word_of_nat (qc_toUInt Q (mid input numberStartIdx (pos - numberStartIdx)));
              pos' = (if qc_isSpace Q c then skipSpace Q input pos + 1 else pos)
          in if pos' \<ge> length input then -1
             else (case findUnitMultiplierToSec Q input pos' of
                 (None, _) \<Rightarrow> -1
               | (Some multiplier, pos'') \<Rightarrow>
                   durationLoop Q input noUnitMultiplier (Suc pos'') False numberStartIdx
                     (currentValue + parsed * multiplier))
        else if \<not> visitingNumber \<and> \<not> qc_isSpace Q c then
          if \<not> qc_isDigit Q c then -1
          else durationLoop Q input noUnitMultiplier (Suc pos) True pos currentValue
        else durationLoop Q input noUnitMultiplier (Suc pos) visitingNumber numberStartIdx currentValue
      else if visitingNumber then
        if numberStartIdx \<noteq> 0 then -1
        else sint (currentValue + word_of_nat (qc_toUInt Q input) * noUnitMultiplier)
      else sint currentValue)"
  by pat_completeness auto
termination
proof (relation "measure (\<lambda>(Q, input, noUnitMultiplier, pos, v, n, cur). length input - pos)",
    goal_cases)
  case 1
  show ?case by simp
next
  case (2 Q input k pos v n cur c parsed pos' p pos'' multiplier)
  have "pos \<le> pos'"
    using 2(5) skipSpaceLoop_ge [of "Suc pos" Q input] 2(1,2)
    by (auto simp: skipSpace_def skipSpaceLoop.simps [of Q input pos])
  moreover have "pos' \<le> pos''" using findUnit_ge 2(6-) by (metis nat_le_linear)
  ultimately show ?case using 2(1) by simp
qed auto

declare durationLoop.simps [simp del]

definition parseDurationToSeconds :: "qchar_api \<Rightarrow> string \<Rightarrow> 64 word \<Rightarrow> int" where
  "parseDurationToSeconds Q inputString noUnitMultiplier =
     (if length inputString = 0 then -1
      else durationLoop Q (qc_trimmed Q inputString) noUnitMultiplier 0 True 0 0)"

section \<open>Formatting durations\<close>

definition appendDuration :: "qchar_api \<Rightarrow> int \<Rightarrow> char \<Rightarrow> string \<Rightarrow> string" where
  "appendDuration Q n suffix out =
     (if out \<noteq> [] then out @ '' '' else out) @ qc_number Q n @ [suffix]"

text \<open>The integers of the function are C's: \<open>/\<close> and \<open>%\<close> truncate towards zero.\<close>

definition formatTime :: "qchar_api \<Rightarrow> int \<Rightarrow> string" where
  "formatTime Q totalSeconds =
     (let res = [];
          seconds = cpp_mod totalSeconds 60;
          timeoutMinutes = cpp_div totalSeconds 60;
          minutes = cpp_mod timeoutMinutes 60;
          timeoutHours = cpp_div timeoutMinutes 60;
          hours = cpp_mod timeoutHours 24;
          days = cpp_div timeoutHours 24;
          res = (if days > 0 then appendDuration Q days (CHR ''d'') res else res);
          res = (if hours > 0 then appendDuration Q hours (CHR ''h'') res else res);
          res = (if minutes > 0 then appendDuration Q minutes (CHR ''m'') res else res);
          res = (if seconds > 0 then appendDuration Q seconds (CHR ''s'') res else res)
      in res)"

text \<open>The other two overloads.\<close>

definition formatTimeString :: "qchar_api \<Rightarrow> (string \<Rightarrow> int option) \<Rightarrow> string \<Rightarrow> string" where
  "formatTimeString Q toInt totalSecondsString =
     (case toInt totalSecondsString of
        Some totalSeconds \<Rightarrow> formatTime Q totalSeconds
      | None \<Rightarrow> ''n/a'')"

definition formatTimeChrono :: "qchar_api \<Rightarrow> int \<Rightarrow> string" where
  "formatTimeChrono Q n = formatTime Q (min (max n int_min) int_max)"

section \<open>Formatting and parsing again\<close>

text \<open>The units that \<open>formatTime\<close> writes.\<close>

definition unitSeconds :: "char \<Rightarrow> int" where
  "unitSeconds u = (if u = CHR ''d'' then 86400 else if u = CHR ''h'' then 3600
     else if u = CHR ''m'' then 60 else 1)"

lemma unit_letter:
  assumes "qchar_laws Q" "u \<in> {CHR ''d'', CHR ''h'', CHR ''m'', CHR ''s''}"
  shows "\<not> qc_isSpace Q u" "\<not> qc_isDigit Q u"
proof -
  have "{CHR ''d'', CHR ''h'', CHR ''m'', CHR ''s''} \<subseteq> set ''abcdefghijklmnopqrstuvwxyz''" by simp
  with assms(2) have "u \<in> set ''abcdefghijklmnopqrstuvwxyz''" by blast
  then show "\<not> qc_isSpace Q u" "\<not> qc_isDigit Q u" using qchar_lawsD(3) [OF assms(1)] by blast+
qed

lemma unitEnd_hit:
  assumes "pos < length view" "qc_isSpace Q (view ! pos) \<or> qc_isDigit Q (view ! pos)"
  shows "unitEnd Q view pos = pos"
  using assms by (subst unitEnd.simps) simp

lemma findUnit_letter:
  assumes "qchar_laws Q" "u \<in> {CHR ''d'', CHR ''h'', CHR ''m'', CHR ''s''}"
    and "rest = [] \<or> qc_isSpace Q (hd rest)"
  shows "findUnitMultiplierToSec Q (pre @ u # rest) (length pre) =
    (Some (word_of_int (unitSeconds u)), length pre)"
proof -
  have "\<not> qc_isSpace Q u" "\<not> qc_isDigit Q u" by (rule unit_letter [OF assms(1,2)])+
  then have "unitEnd Q (pre @ u # rest) (length pre) = unitEnd Q (pre @ u # rest) (Suc (length pre))"
    by (subst unitEnd.simps) (simp add: nth_append)
  also have "\<dots> = Suc (length pre)"
  proof (cases rest)
    case Nil
    then show ?thesis by (subst unitEnd.simps) simp
  next
    case (Cons x xs)
    with assms(3) show ?thesis by (intro unitEnd_hit) (auto simp: nth_append)
  qed
  finally have e: "unitEnd Q (pre @ u # rest) (length pre) = Suc (length pre)" .
  show ?thesis
    using assms(2) by (auto simp: findUnitMultiplierToSec_def e mid_def unitSeconds_def Let_def)
qed

lemma durationLoop_digits:
  assumes "\<forall>c\<in>set ds. qc_isDigit Q c"
  shows "durationLoop Q (pre @ ds @ rest) k (length pre) True n cur =
    durationLoop Q (pre @ ds @ rest) k (length (pre @ ds)) True n cur"
  using assms
proof (induction ds arbitrary: pre)
  case (Cons d ds)
  have "durationLoop Q (pre @ (d # ds) @ rest) k (length pre) True n cur =
      durationLoop Q (pre @ (d # ds) @ rest) k (Suc (length pre)) True n cur"
    using Cons.prems by (subst durationLoop.simps) (simp add: nth_append)
  with Cons.IH [of "pre @ [d]"] Cons.prems show ?case by simp
qed simp

lemma durationLoop_unit:
  assumes "qchar_laws Q" "u \<in> {CHR ''d'', CHR ''h'', CHR ''m'', CHR ''s''}"
    and "rest = [] \<or> qc_isSpace Q (hd rest)"
  shows "durationLoop Q (pre @ ds @ u # rest) k (length (pre @ ds)) True (length pre) cur =
    durationLoop Q (pre @ ds @ u # rest) k (Suc (length (pre @ ds))) False (length pre)
      (cur + word_of_nat (qc_toUInt Q ds) * word_of_int (unitSeconds u))"
proof -
  have nu: "\<not> qc_isSpace Q u" "\<not> qc_isDigit Q u"
    by (rule unit_letter [OF assms(1,2)])+
  have at: "(pre @ ds @ u # rest) ! length (pre @ ds) = u" by (simp add: nth_append)
  have md: "mid (pre @ ds @ u # rest) (length pre) (length (pre @ ds) - length pre) = ds"
    by (simp add: mid_def)
  have fu: "findUnitMultiplierToSec Q (pre @ ds @ u # rest) (length (pre @ ds)) =
      (Some (word_of_int (unitSeconds u)), length (pre @ ds))"
    using findUnit_letter [OF assms, of "pre @ ds"] by simp
  show ?thesis
    by (subst durationLoop.simps) (simp only: at md Let_def nu, simp add: fu [simplified])
qed

lemma durationLoop_space:
  assumes "qc_isSpace Q c"
  shows "durationLoop Q (pre @ c # rest) k (length pre) False n cur =
    durationLoop Q (pre @ c # rest) k (Suc (length pre)) False n cur"
  using assms by (subst durationLoop.simps) simp

lemma durationLoop_first:
  assumes "qchar_laws Q" "qc_isDigit Q d"
  shows "durationLoop Q (pre @ d # rest) k (length pre) False n cur =
    durationLoop Q (pre @ d # rest) k (length pre) True (length pre) cur"
  using assms qchar_lawsD(2) [OF assms] by (subst (1 2) durationLoop.simps) simp

text \<open>A list of counts and units, as \<open>appendDuration\<close> joins them.\<close>

definition joinDurations :: "qchar_api \<Rightarrow> (int \<times> char) list \<Rightarrow> string \<Rightarrow> string" where
  "joinDurations Q ps out = foldl (\<lambda>out (n, u). appendDuration Q n u out) out ps"

definition duration_part :: "int \<times> char \<Rightarrow> bool" where
  "duration_part p \<longleftrightarrow> 0 < fst p \<and> fst p < 2 ^ 32 \<and> snd p \<in> {CHR ''d'', CHR ''h'', CHR ''m'', CHR ''s''}"

definition durations_sum :: "(int \<times> char) list \<Rightarrow> int" where
  "durations_sum ps = (\<Sum>(n, u)\<leftarrow>ps. n * unitSeconds u)"

lemma joinDurations_snoc:
  "joinDurations Q (ps @ [p]) out = appendDuration Q (fst p) (snd p) (joinDurations Q ps out)"
  by (simp add: joinDurations_def split_beta)

lemma joinDurations_prefix: "\<exists>ys. joinDurations Q ps out = out @ ys \<and> (ys = [] \<or> out = [] \<or> hd ys = CHR '' '')"
proof (induction ps rule: rev_induct)
  case (snoc p ps)
  then obtain ys where "joinDurations Q ps out = out @ ys" "ys = [] \<or> out = [] \<or> hd ys = CHR '' ''" by blast
  then show ?case by (cases ys) (auto simp: joinDurations_snoc appendDuration_def)
qed (simp add: joinDurations_def)

lemma durationLoop_part:
  assumes Q: "qchar_laws Q" and p: "duration_part (n, u)"
    and r: "rest = [] \<or> hd rest = CHR '' ''"
  shows "durationLoop Q (pre @ qc_number Q n @ u # rest) k (length pre) True (length pre) cur =
    durationLoop Q (pre @ qc_number Q n @ u # rest) k (length (pre @ qc_number Q n @ [u])) False (length pre)
      (cur + word_of_int (n * unitSeconds u))"
proof -
  have n: "0 \<le> n" "n < 2 ^ 32" and u: "u \<in> {CHR ''d'', CHR ''h'', CHR ''m'', CHR ''s''}"
    using p by (auto simp: duration_part_def)
  have r': "rest = [] \<or> qc_isSpace Q (hd rest)" using r qchar_lawsD(1) [OF Q] by auto
  have e: "word_of_nat (qc_toUInt Q (qc_number Q n)) * word_of_int (unitSeconds u)
      = (word_of_int (n * unitSeconds u) :: 64 word)"
    using qchar_lawsD(4) [OF Q n] n(1) by simp
  show ?thesis
    using durationLoop_digits [OF qchar_lawsD(6) [OF Q n(1)], where rest = "u # rest"]
      durationLoop_unit [OF Q u r', where ds = "qc_number Q n"] by (simp only: e) simp
qed

lemma durationLoop_spaced_part:
  assumes Q: "qchar_laws Q" and p: "duration_part (n, u)"
    and r: "rest = [] \<or> hd rest = CHR '' ''"
  shows "\<exists>m'. durationLoop Q (pre @ CHR '' '' # qc_number Q n @ u # rest) k (length pre) False m cur =
    durationLoop Q (pre @ CHR '' '' # qc_number Q n @ u # rest) k
      (length (pre @ CHR '' '' # qc_number Q n @ [u])) False m' (cur + word_of_int (n * unitSeconds u))"
proof -
  have n: "0 \<le> n" using p by (auto simp: duration_part_def)
  obtain d ds where d: "qc_number Q n = d # ds" "qc_isDigit Q d"
    using qchar_lawsD(5,6) [OF Q n] by (cases "qc_number Q n") auto
  let ?s = "pre @ CHR '' '' # qc_number Q n @ u # rest"
  have "durationLoop Q ?s k (length pre) False m cur =
      durationLoop Q ((pre @ [CHR '' '']) @ d # ds @ u # rest) k (length (pre @ [CHR '' ''])) False m cur"
    using durationLoop_space [OF qchar_lawsD(1) [OF Q], where pre = pre and rest = "qc_number Q n @ u # rest"]
    by (simp add: d)
  also have "\<dots> = durationLoop Q ((pre @ [CHR '' '']) @ qc_number Q n @ u # rest) k
      (length (pre @ [CHR '' ''])) True (length (pre @ [CHR '' ''])) cur"
    by (subst durationLoop_first [OF Q d(2)]) (simp add: d)
  also have "\<dots> = durationLoop Q ((pre @ [CHR '' '']) @ qc_number Q n @ u # rest) k
      (length ((pre @ [CHR '' '']) @ qc_number Q n @ [u])) False (length (pre @ [CHR '' '']))
      (cur + word_of_int (n * unitSeconds u))"
    by (rule durationLoop_part [OF Q p r])
  finally show ?thesis by (intro exI) simp
qed

lemma durationLoop_join:
  assumes Q: "qchar_laws Q" and ps: "\<forall>p\<in>set ps. duration_part p" "ps \<noteq> []"
    and r: "rest = [] \<or> hd rest = CHR '' ''"
  shows "\<exists>m. durationLoop Q (joinDurations Q ps [] @ rest) k 0 True 0 0 =
    durationLoop Q (joinDurations Q ps [] @ rest) k (length (joinDurations Q ps [])) False m
      (word_of_int (durations_sum ps))"
  using ps r
proof (induction ps arbitrary: rest rule: rev_induct)
  case (snoc p ps)
  obtain n u where p: "p = (n, u)" by (cases p)
  have pp: "duration_part (n, u)" using snoc.prems p by simp
  show ?case
  proof (cases "ps = []")
    case True
    have "durationLoop Q (qc_number Q n @ u # rest) k 0 True 0 0 =
        durationLoop Q (qc_number Q n @ u # rest) k (length (qc_number Q n @ [u])) False 0
          (word_of_int (n * unitSeconds u))"
      using durationLoop_part [OF Q pp, of rest "[]"] snoc.prems(3) by simp
    then show ?thesis
      by (intro exI [of _ 0]) (simp add: True p joinDurations_def appendDuration_def durations_sum_def)
  next
    case False
    let ?J = "joinDurations Q ps []"
    have ne: "?J \<noteq> []" using False by (cases ps rule: rev_cases) (auto simp: joinDurations_snoc appendDuration_def)
    let ?rest = "CHR '' '' # qc_number Q n @ u # rest"
    have e: "joinDurations Q (ps @ [p]) [] @ rest = ?J @ ?rest"
      using ne by (simp add: joinDurations_snoc appendDuration_def p)
    obtain m where "durationLoop Q (?J @ ?rest) k 0 True 0 0 =
        durationLoop Q (?J @ ?rest) k (length ?J) False m (word_of_int (durations_sum ps))"
      using snoc.IH [of ?rest] snoc.prems False by auto
    moreover obtain m' where "durationLoop Q (?J @ ?rest) k (length ?J) False m (word_of_int (durations_sum ps)) =
        durationLoop Q (?J @ ?rest) k (length (?J @ CHR '' '' # qc_number Q n @ [u])) False m'
          (word_of_int (durations_sum ps) + word_of_int (n * unitSeconds u))"
      using durationLoop_spaced_part [OF Q pp snoc.prems(3)] by blast
    ultimately have "durationLoop Q (?J @ ?rest) k 0 True 0 0 =
        durationLoop Q (?J @ ?rest) k (length (?J @ CHR '' '' # qc_number Q n @ [u])) False m'
          (word_of_int (durations_sum ps) + word_of_int (n * unitSeconds u))" by simp
    moreover have "length (joinDurations Q (ps @ [p]) []) = length (?J @ CHR '' '' # qc_number Q n @ [u])"
      using ne by (simp add: joinDurations_snoc appendDuration_def p)
    ultimately show ?thesis unfolding e
      by (intro exI [of _ m']) (simp add: durations_sum_def p)
  qed
qed simp

lemma parse_joinDurations:
  assumes Q: "qchar_laws Q" and ps: "\<forall>p\<in>set ps. duration_part p" "ps \<noteq> []"
    and b: "0 \<le> durations_sum ps" "durations_sum ps < 2 ^ 63"
  shows "parseDurationToSeconds Q (joinDurations Q ps []) k = durations_sum ps"
proof -
  let ?J = "joinDurations Q ps []"
  obtain ps' n u where e: "ps = ps' @ [(n, u)]" using ps(2) by (cases ps rule: rev_cases) auto
  have u: "\<not> qc_isSpace Q u" using unit_letter [OF Q, of u] ps(1) by (simp add: e duration_part_def)
  obtain n0 u0 qs where e0: "ps = (n0, u0) # qs" using ps(2) by (cases ps) auto
  obtain d ds where d: "qc_number Q n0 = d # ds" "qc_isDigit Q d"
    using qchar_lawsD(5,6) [OF Q, of n0] ps(1) by (cases "qc_number Q n0") (auto simp: e0 duration_part_def)
  have hd: "?J \<noteq> []" "hd ?J = d"
    using joinDurations_prefix [of Q qs "qc_number Q n0 @ [u0]"] d(1)
    by (auto simp: e0 joinDurations_def appendDuration_def)
  have "last ?J = u" by (simp add: e joinDurations_snoc appendDuration_def)
  then have t: "qc_trimmed Q ?J = ?J"
    using qchar_lawsD(7) [OF Q hd(1)] u hd(2) qchar_lawsD(2) [OF Q d(2)] by simp
  obtain m where "durationLoop Q (?J @ []) k 0 True 0 0 =
      durationLoop Q (?J @ []) k (length ?J) False m (word_of_int (durations_sum ps))"
    using durationLoop_join [OF Q ps, of "[]" k] by auto
  also have "\<dots> = sint (word_of_int (durations_sum ps) :: 64 word)"
    by (subst durationLoop.simps) simp
  also have "\<dots> = durations_sum ps"
    using b by (simp add: int_word_sint)
  finally show ?thesis using t hd(1) by (simp add: parseDurationToSeconds_def)
qed

lemma durations_sum_filter:
  "\<forall>p\<in>set ps. 0 \<le> fst p \<Longrightarrow> durations_sum (filter (\<lambda>p. fst p > 0) ps) = durations_sum ps"
  by (induction ps) (auto simp: durations_sum_def)

lemma cpp_div_pos: "0 \<le> a \<Longrightarrow> 0 < b \<Longrightarrow> cpp_div a b = a div b"
  by (simp add: cpp_div_def sgn_if)

lemma cpp_mod_pos: "0 \<le> a \<Longrightarrow> 0 < b \<Longrightarrow> cpp_mod a b = a mod b"
  by (simp add: cpp_mod_def cpp_div_pos minus_mult_div_eq_mod)

lemma formatTime_join:
  "formatTime Q t = joinDurations Q (filter (\<lambda>p. fst p > 0)
     [(cpp_div (cpp_div (cpp_div t 60) 60) 24, CHR ''d''), (cpp_mod (cpp_div (cpp_div t 60) 60) 24, CHR ''h''),
      (cpp_mod (cpp_div t 60) 60, CHR ''m''), (cpp_mod t 60, CHR ''s'')]) []"
  by (simp add: formatTime_def joinDurations_def Let_def)

text \<open>
  C29. A positive number of seconds, written with \<open>formatTime\<close> in days, hours, minutes and seconds, is
  read back by \<open>parseDurationToSeconds\<close> as the same number, whatever the multiplier for numbers without
  a unit.\<close>

theorem duration_round_trip:
  assumes "qchar_laws Q" "0 < n" "n \<le> int_max"
  shows "parseDurationToSeconds Q (formatTime Q n) k = n"
proof -
  define ps where "ps = [(n div 60 div 60 div 24, CHR ''d''), (n div 60 div 60 mod 24, CHR ''h''),
      (n div 60 mod 60, CHR ''m''), (n mod 60, CHR ''s'')]"
  let ?ps = "filter (\<lambda>p. fst p > 0) ps"
  have f: "formatTime Q n = joinDurations Q ?ps []"
    unfolding formatTime_join ps_def using assms(2) by (simp add: cpp_div_pos cpp_mod_pos)
  have n: "n < 2147483648" using assms(3) by (simp add: int_max_def)
  have dec: "x div y \<le> x" if "0 \<le> x" "0 < y" for x y :: int
    using that div_le_dividend [of "nat x" "nat y"] by (simp add: nat_div_distrib [symmetric])
  have "n div 60 div 60 div 24 \<le> n"
    using dec [of n 60] dec [of "n div 60" 60] dec [of "n div 60 div 60" 24] assms(2)
    by (simp add: pos_imp_zdiv_nonneg_iff)
  then have b: "n div 60 div 60 div 24 < 2 ^ 32" using n by simp
  have m: "x mod 60 < 2 ^ 32" "x mod 24 < 2 ^ 32" for x :: int
    using pos_mod_bound [of 60 x] pos_mod_bound [of 24 x] by simp_all
  have all: "\<forall>p\<in>set ?ps. duration_part p"
    using b m by (simp add: ps_def duration_part_def)
  have "durations_sum ?ps = durations_sum ps"
    using assms(2) by (intro durations_sum_filter) (simp add: ps_def pos_imp_zdiv_nonneg_iff)
  also have "\<dots> = n div 60 div 60 div 24 * 86400 + n div 60 div 60 mod 24 * 3600 + n div 60 mod 60 * 60 + n mod 60"
    by (simp add: ps_def durations_sum_def unitSeconds_def)
  also have "\<dots> = n"
    using div_mult_mod_eq [of "n div 60 div 60" 24] div_mult_mod_eq [of "n div 60" 60]
      div_mult_mod_eq [of n 60] by linarith
  finally have sum: "durations_sum ?ps = n" .
  moreover have "?ps \<noteq> []" using sum assms(2) by (auto simp: durations_sum_def)
  ultimately show ?thesis
    using parse_joinDurations [OF assms(1) all] assms(2,3) by (simp add: f int_max_def)
qed

text \<open>ASCII text, decimal numbers and blanks.\<close>

definition sample_qchar :: qchar_api where
  "sample_qchar = \<lparr>qc_isSpace = is_blank, qc_isDigit = is_digit, qc_toUInt = read_uint,
     qc_number = (\<lambda>n. if n < 0 then CHR ''-'' # show_nat (nat (- n)) else show_nat (nat n)),
     qc_trimmed = trim_blanks, qc_toLower = map ascii_lower\<rparr>"

lemma sample_qchar_laws: "qchar_laws sample_qchar"
  unfolding qchar_laws_def sample_qchar_def qchar_api.simps
proof (intro conjI allI impI)
  show "\<forall>c\<in>set ''abcdefghijklmnopqrstuvwxyz''. \<not> is_blank c \<and> \<not> is_digit c"
    by (simp add: is_blank_def is_digit_def)
qed (use show_nat_digits in \<open>auto simp: is_blank_def is_digit_def read_uint_def read_show_nat
       trim_blanks_id trim_blanks_all list_all_iff\<close>, simp_all add: read_nat_def)

theorem duration_round_trip_witness:
  "parseDurationToSeconds sample_qchar (formatTime sample_qchar 93784) 60 = 93784"
  by (rule duration_round_trip) (simp_all add: sample_qchar_laws int_max_def)

section \<open>Durations that start without a number\<close>

text \<open>A text of blanks, and a unit without a number, are read as zero seconds, although the comments say
  that the input must start with a number and that the result is \<open>-1\<close> if it is invalid.\<close>

lemma duration_blank:
  assumes "qchar_laws Q" "s \<noteq> []" "\<forall>c\<in>set s. qc_isSpace Q c"
  shows "parseDurationToSeconds Q s k = 0"
  using assms(2) qchar_lawsD(8) [OF assms(1,3)] qchar_lawsD(9) [OF assms(1)]
  by (simp add: parseDurationToSeconds_def durationLoop.simps)

lemma duration_bare_unit:
  assumes Q: "qchar_laws Q" and u: "u \<in> {CHR ''d'', CHR ''h'', CHR ''m'', CHR ''s''}"
  shows "parseDurationToSeconds Q [u] k = 0"
proof -
  have "qc_trimmed Q [u] = [u]" using qchar_lawsD(7) [OF Q, of "[u]"] unit_letter [OF Q u] by simp
  moreover have "durationLoop Q ([] @ [] @ u # []) k (length ([] @ [])) True (length []) 0 =
      durationLoop Q ([] @ [] @ u # []) k (Suc (length ([] @ []))) False (length [])
        (0 + word_of_nat (qc_toUInt Q []) * word_of_int (unitSeconds u))"
    using durationLoop_unit [OF Q u, of "[]" "[]" "[]"] by simp
  ultimately show ?thesis
    using qchar_lawsD(9) [OF Q] by (simp add: parseDurationToSeconds_def durationLoop.simps [of Q "[u]" k "Suc 0"])
qed

section \<open>The other text functions\<close>

definition contains_in :: "'a list \<Rightarrow> 'a list \<Rightarrow> bool" where
  "contains_in s p \<longleftrightarrow> (\<exists>i \<in> set [0..<Suc (length s)]. take (length p) (drop i s) = p)"

definition startsWithOrContains :: "qchar_api \<Rightarrow> string \<Rightarrow> string \<Rightarrow> bool \<Rightarrow> bool \<Rightarrow> bool" where
  "startsWithOrContains Q str1 str2 caseSensitive startsWith =
     (let fold = (if caseSensitive then (\<lambda>s. s) else qc_toLower Q) in
      if startsWith then take (length (fold str2)) (fold str1) = fold str2
      else contains_in (fold str1) (fold str2))"

definition formatRichNamedLink :: "string \<Rightarrow> string \<Rightarrow> bool \<Rightarrow> string" where
  "formatRichNamedLink url name file =
     ''<a href='' @ [CHR 0x22] @ (if file then ''file:///'' else []) @ url @ [CHR 0x22] @ ''>'' @ name @ ''</a>''"

definition formatRichLink :: "string \<Rightarrow> bool \<Rightarrow> string" where
  "formatRichLink url file =
     ''<a href='' @ [CHR 0x22] @ (if file then ''file:///'' else []) @ url @ [CHR 0x22] @ ''>'' @ url @ ''</a>''"

text \<open>\<open>int(maxWidth)\<close> is negative from \<open>2^31\<close> on; \<open>resize\<close> of a negative size empties the text.\<close>

definition shortenString :: "string \<Rightarrow> 32 word \<Rightarrow> string" where
  "shortenString str maxWidth =
     (if int (length str) > sint maxWidth then take (nat (sint maxWidth)) str @ ''...'' else str)"

definition kFormatNumbers :: "qchar_api \<Rightarrow> int \<Rightarrow> string" where
  "kFormatNumbers Q number = qc_number Q (cpp_div number 1000) @ ''K''"

definition formatUserMention :: "qchar_api \<Rightarrow> string \<Rightarrow> bool \<Rightarrow> bool \<Rightarrow> bool \<Rightarrow> string" where
  "formatUserMention Q userName isFirstWord mentionUsersWithComma lowercaseUsernames =
     (let result = (if isFirstWord \<and> mentionUsersWithComma then userName @ '','' else userName)
      in if lowercaseUsernames then qc_toLower Q result else result)"

text \<open>\<open>QString::compare\<close> is the parameter: without and with regard to case.\<close>

definition compareEmoteStrings :: "(string \<Rightarrow> string \<Rightarrow> int) \<Rightarrow> (string \<Rightarrow> string \<Rightarrow> int) \<Rightarrow> string \<Rightarrow> string \<Rightarrow> bool" where
  "compareEmoteStrings compareCI compareCS a b =
     (let k = compareCI a b in if k = 0 then compareCS a b > 0 else k < 0)"

text \<open>When both comparisons are total preorders and the second one separates all texts, the emotes are
  ordered strictly: no two different texts are left unordered.\<close>

lemma compareEmoteStrings_linear:
  assumes "\<And>x y. compareCI y x = - compareCI x y" "\<And>x y. compareCS y x = - compareCS x y"
    and "\<And>x y. compareCS x y = 0 \<Longrightarrow> x = y" "a \<noteq> b"
  shows "compareEmoteStrings compareCI compareCS a b \<noteq> compareEmoteStrings compareCI compareCS b a"
proof -
  have "compareCS a b \<noteq> 0" using assms(3,4) by blast
  then show ?thesis
    using assms(1) [of a b] assms(2) [of a b] by (auto simp: compareEmoteStrings_def Let_def)
qed

section \<open>Batches\<close>

text \<open>\<open>std::ceil(size / batchSize)\<close>.  The inner loop copies up to \<open>batchSize\<close> elements from the iterator,
  here the rest of the list.\<close>

definition batchCount :: "nat \<Rightarrow> nat \<Rightarrow> nat" where
  "batchCount n batchSize = (n + batchSize - 1) div batchSize"

fun batchLoop :: "nat \<Rightarrow> nat \<Rightarrow> 'a list \<Rightarrow> 'a list list" where
  "batchLoop 0 batchSize it = []"
| "batchLoop (Suc j) batchSize it =
     (let batch = take batchSize it; it' = drop batchSize it
      in if batch = [] then [] else batch # batchLoop j batchSize it')"

definition splitListIntoBatches :: "'a list \<Rightarrow> nat \<Rightarrow> 'a list list" where
  "splitListIntoBatches list batchSize = batchLoop (batchCount (length list) batchSize) batchSize list"

lemma batchLoop_concat:
  "length it \<le> j * batchSize \<Longrightarrow> concat (batchLoop j batchSize it) = it"
proof (induction j batchSize it rule: batchLoop.induct)
  case (2 j batchSize it)
  then show ?case by (cases "batchSize = 0"; cases it) (auto simp: Let_def)
qed simp

lemma batchCount_enough: "0 < k \<Longrightarrow> n \<le> batchCount n k * k"
  using div_mult_mod_eq [of "n + k - 1" k] mod_less_divisor [of k "n + k - 1"]
  unfolding batchCount_def by linarith

lemma batchLoop_sizes:
  "b \<in> set (batchLoop j batchSize it) \<Longrightarrow> b \<noteq> [] \<and> length b \<le> batchSize"
  by (induction j batchSize it rule: batchLoop.induct) (auto simp: Let_def split: if_splits)

lemma splitListIntoBatches_concat:
  "0 < batchSize \<Longrightarrow> concat (splitListIntoBatches list batchSize) = list"
  by (simp add: splitListIntoBatches_def batchLoop_concat batchCount_enough)

lemma splitListIntoBatches_sizes:
  "b \<in> set (splitListIntoBatches list batchSize) \<Longrightarrow> b \<noteq> [] \<and> length b \<le> batchSize"
  unfolding splitListIntoBatches_def by (rule batchLoop_sizes)

section \<open>Slices by code point\<close>

text \<open>UTF-16 code units are 16-bit words.\<close>

definition isHighSurrogate :: "16 word \<Rightarrow> bool" where
  "isHighSurrogate c \<longleftrightarrow> 0xD800 \<le> c \<and> c \<le> 0xDBFF"

definition isLowSurrogate :: "16 word \<Rightarrow> bool" where
  "isLowSurrogate c \<longleftrightarrow> 0xDC00 \<le> c \<and> c \<le> 0xDFFF"

text \<open>The number of code units of the code point at \<open>pos\<close>, as the loop advances over it.\<close>

definition stepUnits :: "16 word list \<Rightarrow> nat \<Rightarrow> nat" where
  "stepUnits str pos =
     (if isHighSurrogate (str ! pos) \<and> Suc pos < length str \<and> isLowSurrogate (str ! Suc pos)
      then Suc (Suc pos) else Suc pos)"

function sliceLoop :: "16 word list \<Rightarrow> nat \<Rightarrow> nat \<Rightarrow> nat \<Rightarrow> nat \<Rightarrow> nat option \<Rightarrow> 16 word list" where
  "sliceLoop str b e n pos sliceBegin =
     (if n < e then
        if pos \<ge> length str then []
        else sliceLoop str b e (Suc n) (stepUnits str pos) (if n = b then Some pos else sliceBegin)
      else (case sliceBegin of None \<Rightarrow> [] | Some s \<Rightarrow> mid str s (pos - s)))"
  by pat_completeness auto
termination by (relation "measure (\<lambda>(str, b, e, n, pos, s). e - n)") auto

declare sliceLoop.simps [simp del]

definition codepointSlice :: "16 word list \<Rightarrow> int \<Rightarrow> int \<Rightarrow> 16 word list" where
  "codepointSlice str b e =
     (if e \<le> b \<or> b < 0 then [] else sliceLoop str (nat b) (nat e) 0 0 None)"

text \<open>The reference: the text as a list of code points, each with its code units.\<close>

fun codepoints :: "16 word list \<Rightarrow> 16 word list list" where
  "codepoints (c # d # s) =
     (if isHighSurrogate c \<and> isLowSurrogate d then [c, d] # codepoints s else [c] # codepoints (d # s))"
| "codepoints [c] = [[c]]"
| "codepoints [] = []"

lemma concat_codepoints [simp]: "concat (codepoints s) = s"
  by (induction s rule: codepoints.induct) auto

lemma codepoints_step:
  assumes "s \<noteq> []"
  shows "\<exists>c. codepoints s = c # codepoints (drop (length c) s)
    \<and> c = take (length c) s \<and> stepUnits (pre @ s) (length pre) = length pre + length c"
  using assms
  by (cases s rule: codepoints.cases) (auto simp: stepUnits_def nth_append)

lemma sliceLoop_codepoints:
  assumes "n = length pre_cps" "n \<le> e" "b < e"
    and "sb = (if b < n then Some (length (concat (take b pre_cps))) else None)"
  shows "sliceLoop (concat pre_cps @ s) b e n (length (concat pre_cps)) sb =
    (if length (pre_cps @ codepoints s) < e then []
     else concat (take (e - b) (drop b (pre_cps @ codepoints s))))"
  using assms
proof (induction "length s" arbitrary: s pre_cps n sb rule: less_induct)
  case less
  show ?case
  proof (cases "n < e")
    case False
    then have n: "n = e" using less.prems by simp
    have "mid (concat pre_cps @ s) (length (concat (take b pre_cps)))
        (length (concat pre_cps) - length (concat (take b pre_cps))) = concat (drop b pre_cps)"
      by (subst (1 3) append_take_drop_id [of b pre_cps, symmetric], unfold concat_append) (simp add: mid_def)
    then show ?thesis using less.prems n by (subst sliceLoop.simps) simp
  next
    case True
    show ?thesis
    proof (cases s)
      case Nil
      then show ?thesis using True less.prems by (subst sliceLoop.simps) simp
    next
      case (Cons x xs)
      obtain c where c: "codepoints s = c # codepoints (drop (length c) s)" "c = take (length c) s"
          "stepUnits (concat pre_cps @ s) (length (concat pre_cps)) = length (concat pre_cps) + length c"
        using codepoints_step [of s "concat pre_cps"] Cons by auto
      have ne: "c \<noteq> []" using c(1) Cons concat_codepoints [of s] concat_codepoints [of "drop (length c) s"]
        by (auto simp del: concat_codepoints)
      define t where "t = drop (length c) s"
      have s: "s = c @ t" using c(2) unfolding t_def by (metis append_take_drop_id)
      have "sliceLoop (concat pre_cps @ s) b e n (length (concat pre_cps)) sb =
          sliceLoop (concat (pre_cps @ [c]) @ t) b e (Suc n) (length (concat (pre_cps @ [c])))
            (if n = b then Some (length (concat pre_cps)) else sb)"
        using True Cons c(3) by (subst sliceLoop.simps) (simp add: s)
      also have "\<dots> = (if length ((pre_cps @ [c]) @ codepoints t) < e then []
          else concat (take (e - b) (drop b ((pre_cps @ [c]) @ codepoints t))))"
      proof (rule less.hyps)
        show "length t < length s" using ne by (simp add: s)
      qed (use less.prems True in \<open>auto simp: less_Suc_eq\<close>)
      finally show ?thesis using c(1) by (simp add: t_def)
    qed
  qed
qed

text \<open>
  \<open>codepointSlice\<close>, which walks over the UTF-16 code units, is the slice of the list of code
  points, and is empty when the range is empty, starts before the text or ends after it.\<close>

theorem codepointSlice_is_slice:
  "codepointSlice str b e =
     (if e \<le> b \<or> b < 0 \<or> e > int (length (codepoints str)) then []
      else concat (take (nat (e - b)) (drop (nat b) (codepoints str))))"
proof (cases "e \<le> b \<or> b < 0")
  case False
  then show ?thesis
    using sliceLoop_codepoints [of 0 "[]" "nat e" "nat b" None str]
    by (auto simp: codepointSlice_def nat_diff_distrib)
qed (auto simp: codepointSlice_def)

end
