(* ===== verification/Completion.thy ===== *)
theory Completion
  imports StringHelpers
begin

text \<open>
  Completing emotes, users and commands: the strategies, the sources and \<open>TabCompletionModel\<close> of
  \<open>controllers/completion\<close>.  The comparisons and character classes of Qt, \<open>std::sort\<close> and the plugins
  are parameters.
\<close>

section \<open>Items and parameters\<close>

record 'e EmoteItem =
  emote :: 'e
  searchName :: string
  tabCompletionName :: string
  ei_displayName :: string
  providerName :: string
  isEmoji :: bool

type_synonym UserItem = "string \<times> string"

record CommandItem =
  ci_name :: string
  ci_prefix :: string

record 'e completion_api =
  cp_qchar :: qchar_api
  cp_isUpper :: "char \<Rightarrow> bool"
  cp_compareCI :: "string \<Rightarrow> string \<Rightarrow> int"
  cp_compareCS :: "string \<Rightarrow> string \<Rightarrow> int"
  cp_sort :: "('e EmoteItem \<Rightarrow> 'e EmoteItem \<Rightarrow> bool) \<Rightarrow> 'e EmoteItem list \<Rightarrow> 'e EmoteItem list"

text \<open>What is documented of \<open>QString::compare\<close>: it orders texts.\<close>

definition compare_law :: "('a \<Rightarrow> 'a \<Rightarrow> int) \<Rightarrow> bool" where
  "compare_law c \<longleftrightarrow> (\<forall>a b. (c b a < 0) = (c a b > 0)) \<and>
     (\<forall>x y z. c x y \<le> 0 \<longrightarrow> c y z \<le> 0 \<longrightarrow> c x z \<le> 0)"

section \<open>Smart completion of emotes\<close>

definition costOfEmote :: "'e completion_api \<Rightarrow> string \<Rightarrow> string \<Rightarrow> bool \<Rightarrow> int" where
  "costOfEmote api query em prioritizeUpper =
     (let score = (if prioritizeUpper
                   then foldl (\<lambda>score i. score + (if \<not> cp_isUpper api i then 1 else 0)) 0 em
                   else foldl (\<lambda>score i. score + (if cp_isUpper api (query ! i) \<noteq> cp_isUpper api (em ! i) then 1 else 0))
                          0 [0..<min (length em) (length query)]);
          score = (if score = 0 then -10 else score);
          diff = int (length em) - int (length query)
      in if diff > 0 then score + diff * 100 else score)"

definition startsWithChar :: "char \<Rightarrow> string \<Rightarrow> bool" where
  "startsWithChar c s \<longleftrightarrow> s \<noteq> [] \<and> hd s = c"

text \<open>The comparison that the results are sorted by.\<close>

definition costName :: "bool \<Rightarrow> 'e EmoteItem \<Rightarrow> string" where
  "costName ignoreColonForCost a =
     (if ignoreColonForCost \<and> startsWithChar (CHR '':'') (searchName a) then drop 1 (searchName a) else searchName a)"

definition emoteLess :: "'e completion_api \<Rightarrow> string \<Rightarrow> bool \<Rightarrow> bool \<Rightarrow> 'e EmoteItem \<Rightarrow> 'e EmoteItem \<Rightarrow> bool" where
  "emoteLess api query prioritizeUpper ignoreColonForCost a b =
     (let tempA = costName ignoreColonForCost a;
          tempB = costName ignoreColonForCost b;
          costA = costOfEmote api query tempA prioritizeUpper;
          costB = costOfEmote api query tempB prioritizeUpper
      in if costA = costB then cp_compareCI api tempA tempB < 0 else costA < costB)"

text \<open>The matching function takes whether case matters.\<close>

definition completeEmotes ::
  "'e completion_api \<Rightarrow> 'e EmoteItem list \<Rightarrow> string \<Rightarrow> bool \<Rightarrow> ('e EmoteItem \<Rightarrow> bool \<Rightarrow> bool) \<Rightarrow>
    'e EmoteItem list" where
  "completeEmotes api items query ignoreColonForCost matchingFunction =
     (let haveUpper = list_ex (cp_isUpper api) query;
          output = foldl (\<lambda>out item. if matchingFunction item haveUpper then out @ [item] else out) [] items
      in if output = [] then
           if \<not> haveUpper then output
           else
             let output = foldl (\<lambda>out item. if matchingFunction item False then out @ [item] else out) output items
             in if output = [] then output
                else cp_sort api (emoteLess api query True ignoreColonForCost) output
         else cp_sort api (emoteLess api query False ignoreColonForCost) output)"

definition SmartEmoteStrategy :: "'e completion_api \<Rightarrow> 'e EmoteItem list \<Rightarrow> string \<Rightarrow> 'e EmoteItem list" where
  "SmartEmoteStrategy api items query =
     (let colon = startsWithChar (CHR '':'') query;
          normalizedQuery = (if colon then drop 1 query else query)
      in completeEmotes api items normalizedQuery colon
           (\<lambda>left cs. startsWithOrContains (cp_qchar api) (searchName left) normalizedQuery cs False))"

definition SmartTabEmoteStrategy ::
  "'e completion_api \<Rightarrow> bool \<Rightarrow> 'e EmoteItem list \<Rightarrow> string \<Rightarrow> 'e EmoteItem list" where
  "SmartTabEmoteStrategy api prefixOnly items query =
     (let colonStart = startsWithChar (CHR '':'') query;
          normalizedQuery = (if colonStart then drop 1 query else query)
      in completeEmotes api items normalizedQuery False
           (\<lambda>item cs.
              if isEmoji item \<and> \<not> colonStart then False
              else startsWithOrContains (cp_qchar api) (searchName item)
                     (if isEmoji item then normalizedQuery else query) cs prefixOnly))"

section \<open>Classic completion of emotes\<close>

text \<open>The second pass: the first exact match behind the first element is moved to the front.\<close>

fun exactFirst :: "('e EmoteItem \<Rightarrow> bool) \<Rightarrow> 'e EmoteItem list \<Rightarrow> nat \<Rightarrow> nat \<Rightarrow> 'e EmoteItem list" where
  "exactFirst exact output i 0 = output"
| "exactFirst exact output i (Suc n) =
     (if i < length output then
        if exact (output ! i) then output ! i # (take i output @ drop (Suc i) output)
        else exactFirst exact output (Suc i) n
      else output)"

definition ClassicEmoteStrategy :: "'e completion_api \<Rightarrow> 'e EmoteItem list \<Rightarrow> string \<Rightarrow> 'e EmoteItem list" where
  "ClassicEmoteStrategy api items query =
     (let normalizedQuery = (if startsWithChar (CHR '':'') query then drop 1 query else query);
          output = filter (\<lambda>item. startsWithOrContains (cp_qchar api) (searchName item) normalizedQuery False False) items
      in exactFirst (\<lambda>e. cp_compareCI api (searchName e) normalizedQuery = 0 \<or>
             cp_compareCI api (searchName e) (CHR '':'' # normalizedQuery) = 0) output 1 (length output))"

text \<open>\<open>std::set::insert\<close>, on the elements in their order: an equivalent element is kept.\<close>

fun set_insert :: "('a \<Rightarrow> 'a \<Rightarrow> bool) \<Rightarrow> 'a \<Rightarrow> 'a list \<Rightarrow> 'a list" where
  "set_insert lt x [] = [x]"
| "set_insert lt x (y # ys) =
     (if lt x y then x # y # ys else if lt y x then y # set_insert lt x ys else y # ys)"

definition emoteOrder :: "'e completion_api \<Rightarrow> 'e EmoteItem \<Rightarrow> 'e EmoteItem \<Rightarrow> bool" where
  "emoteOrder api a b = compareEmoteStrings (cp_compareCI api) (cp_compareCS api) (searchName a) (searchName b)"

definition ClassicTabEmoteStrategy ::
  "'e completion_api \<Rightarrow> bool \<Rightarrow> 'e EmoteItem list \<Rightarrow> string \<Rightarrow> 'e EmoteItem list" where
  "ClassicTabEmoteStrategy api prefixOnly items query =
     (let colonStart = startsWithChar (CHR '':'') query;
          normalizedQuery = (if colonStart then drop 1 query else query)
      in foldl (\<lambda>emotes item.
           if isEmoji item \<and> \<not> colonStart then emotes
           else if startsWithOrContains (cp_qchar api) (searchName item)
                     (if isEmoji item then normalizedQuery else query) False prefixOnly
                then set_insert (emoteOrder api) item emotes
           else emotes) [] items)"

section \<open>Users and commands\<close>

definition ClassicUserStrategy :: "'e completion_api \<Rightarrow> UserItem list \<Rightarrow> string \<Rightarrow> UserItem list" where
  "ClassicUserStrategy api items query =
     (let lowerQuery = qc_toLower (cp_qchar api) query;
          lowerQuery = (if startsWithChar (CHR ''@'') lowerQuery then drop 1 lowerQuery else lowerQuery)
      in filter (\<lambda>item. take (length lowerQuery) (fst item) = lowerQuery) items)"

definition normalizeQuery :: "string \<Rightarrow> string" where
  "normalizeQuery query =
     (if startsWithChar (CHR ''/'') query \<or> startsWithChar (CHR ''.'') query then drop 1 query else query)"

definition CommandStrategy :: "'e completion_api \<Rightarrow> bool \<Rightarrow> CommandItem list \<Rightarrow> string \<Rightarrow> CommandItem list" where
  "CommandStrategy api startsWithOnly items query =
     filter (\<lambda>item. startsWithOrContains (cp_qchar api) (ci_name item) (normalizeQuery query) False startsWithOnly) items"

definition addCommand :: "string \<Rightarrow> CommandItem list \<Rightarrow> CommandItem list" where
  "addCommand command out =
     (if startsWithChar (CHR ''/'') command \<or> startsWithChar (CHR ''.'') command
      then out @ [\<lparr>ci_name = drop 1 command, ci_prefix = [hd command]\<rparr>]
      else out @ [\<lparr>ci_name = command, ci_prefix = []\<rparr>])"

section \<open>Sources\<close>

text \<open>A source holds the items of its kind, a strategy, and after \<open>update\<close> its output.\<close>

datatype 'e source =
    EmoteSource "'e EmoteItem list" "'e EmoteItem list \<Rightarrow> string \<Rightarrow> 'e EmoteItem list" "'e EmoteItem list"
  | UserSource "UserItem list" "UserItem list \<Rightarrow> string \<Rightarrow> UserItem list" bool "UserItem list"
  | CommandSource "CommandItem list" "CommandItem list \<Rightarrow> string \<Rightarrow> CommandItem list" "CommandItem list"
  | UnifiedSource "'e source list"

primrec source_update :: "string \<Rightarrow> 'e source \<Rightarrow> 'e source" where
  "source_update query (EmoteSource items strategy output) = EmoteSource items strategy (strategy items query)"
| "source_update query (UserSource items strategy prependAt output) =
     UserSource items strategy prependAt (strategy items query)"
| "source_update query (CommandSource items strategy output) = CommandSource items strategy (strategy items query)"
| "source_update query (UnifiedSource sources) = UnifiedSource (map (source_update query) sources)"

definition sizeWithinLimit :: "nat \<Rightarrow> nat \<Rightarrow> nat" where
  "sizeWithinLimit n limit = (if limit = 0 then n else min n limit)"

definition addVecToStringList :: "'i list \<Rightarrow> string list \<Rightarrow> nat \<Rightarrow> ('i \<Rightarrow> string) \<Rightarrow> string list" where
  "addVecToStringList input list maxCount mapper =
     foldl (\<lambda>list i. list @ [mapper (input ! i)]) list [0..<sizeWithinLimit (length input) maxCount]"

text \<open>The settings that the sources read.\<close>

record completion_settings =
  mentionUsersWithComma :: bool
  lowercaseUsernames :: bool
  prefixOnlyEmoteCompletion :: bool
  useSmartEmoteCompletion :: bool
  userCompletionOnlyWithAt :: bool
  alwaysIncludeBroadcasterInUserCompletions :: bool

text \<open>The loop of \<open>UnifiedSource::addToStringList\<close> over its sources, with the number of strings used so
  far; a source that is unified itself is reached through the same function.\<close>

function addToStringList ::
    "'e completion_api \<Rightarrow> completion_settings \<Rightarrow> 'e source \<Rightarrow> string list \<Rightarrow> nat \<Rightarrow> bool \<Rightarrow> string list"
  and unifiedLoop ::
    "'e completion_api \<Rightarrow> completion_settings \<Rightarrow> 'e source list \<Rightarrow> string list \<Rightarrow> nat \<Rightarrow> bool \<Rightarrow> nat \<Rightarrow> nat \<Rightarrow> string list"
  where
  "addToStringList api st (EmoteSource items strategy output) list maxCount isFirstWord =
     addVecToStringList output list maxCount (\<lambda>e. tabCompletionName e @ '' '')"
| "addToStringList api st (UserSource items strategy prependAt output) list maxCount isFirstWord =
     addVecToStringList output list maxCount (\<lambda>user.
       let userMention = formatUserMention (cp_qchar api) (snd user) isFirstWord
             (mentionUsersWithComma st) (lowercaseUsernames st)
       in (if prependAt then ''@'' else []) @ userMention @ '' '')"
| "addToStringList api st (CommandSource items strategy output) list maxCount isFirstWord =
     addVecToStringList output list maxCount (\<lambda>c. ci_prefix c @ ci_name c @ '' '')"
| "addToStringList api st (UnifiedSource sources) list maxCount isFirstWord =
     unifiedLoop api st sources list maxCount isFirstWord (length list) 0"
| "unifiedLoop api st [] list maxCount isFirstWord startingSize used = list"
| "unifiedLoop api st (source # sources) list maxCount isFirstWord startingSize used =
     (if maxCount = 0
      then unifiedLoop api st sources (addToStringList api st source list 0 isFirstWord) maxCount isFirstWord startingSize used
      else
        let list = addToStringList api st source list (maxCount - used) isFirstWord;
            used = length list - startingSize
        in if used \<ge> maxCount then list
           else unifiedLoop api st sources list maxCount isFirstWord startingSize used)"
  by pat_completeness auto
termination
  by (relation "measure (\<lambda>x. case x of Inl (api, st, s, list, n, b) \<Rightarrow> size s
        | Inr (api, st, ss, list, n, b, k, u) \<Rightarrow> size_list size ss)") auto

section \<open>The model\<close>

datatype SourceKind = EmoteKind | UserKind | CommandKind | EmoteUserCommandKind | EmoteCommandKind

definition deduceSourceKind :: "completion_settings \<Rightarrow> bool \<Rightarrow> string \<Rightarrow> SourceKind option" where
  "deduceSourceKind st isTwitchChannel query =
     (if length query < 2 \<or> \<not> isTwitchChannel then None
      else if startsWithChar (CHR ''@'') query then Some UserKind
      else if startsWithChar (CHR '':'') query then Some EmoteKind
      else if startsWithChar (CHR ''/'') query \<or> startsWithChar (CHR ''.'') query then Some CommandKind
      else if userCompletionOnlyWithAt st then Some EmoteCommandKind
      else Some EmoteUserCommandKind)"

text \<open>What the sources are filled with: the emotes of the channel, its chatters with the name and display
  name of the broadcaster, if it is a channel of Twitch, and the commands.\<close>

record 'e completion_data =
  channel_emotes :: "'e EmoteItem list"
  chatters :: "UserItem list option"
  broadcaster :: UserItem
  command_names :: "string list"

definition buildEmoteSource :: "'e completion_api \<Rightarrow> completion_settings \<Rightarrow> 'e completion_data \<Rightarrow> 'e source" where
  "buildEmoteSource api st data =
     EmoteSource (channel_emotes data)
       (if useSmartEmoteCompletion st then SmartTabEmoteStrategy api (prefixOnlyEmoteCompletion st)
        else ClassicTabEmoteStrategy api (prefixOnlyEmoteCompletion st)) []"

definition userItems :: "completion_settings \<Rightarrow> 'e completion_data \<Rightarrow> UserItem list" where
  "userItems st data =
     (case chatters data of
        None \<Rightarrow> []
      | Some items \<Rightarrow>
          if alwaysIncludeBroadcasterInUserCompletions st \<and> \<not> list_ex (\<lambda>user. fst user = fst (broadcaster data)) items
          then items @ [broadcaster data] else items)"

definition buildUserSource :: "'e completion_api \<Rightarrow> completion_settings \<Rightarrow> 'e completion_data \<Rightarrow> bool \<Rightarrow> 'e source" where
  "buildUserSource api st data prependAt = UserSource (userItems st data) (ClassicUserStrategy api) prependAt []"

definition buildCommandSource :: "'e completion_api \<Rightarrow> 'e completion_data \<Rightarrow> 'e source" where
  "buildCommandSource api data =
     CommandSource (foldl (\<lambda>out command. addCommand command out) [] (command_names data)) (CommandStrategy api True) []"

definition buildSource :: "'e completion_api \<Rightarrow> completion_settings \<Rightarrow> 'e completion_data \<Rightarrow> SourceKind \<Rightarrow> 'e source" where
  "buildSource api st data kind =
     (case kind of
        EmoteKind \<Rightarrow> buildEmoteSource api st data
      | UserKind \<Rightarrow> buildUserSource api st data True
      | CommandKind \<Rightarrow> buildCommandSource api data
      | EmoteCommandKind \<Rightarrow> UnifiedSource [buildEmoteSource api st data, buildCommandSource api data]
      | EmoteUserCommandKind \<Rightarrow>
          UnifiedSource [buildEmoteSource api st data, buildUserSource api st data False, buildCommandSource api data])"

text \<open>The state of the model: its source and the strings it shows.  \<open>plugins\<close> are the custom completions of
  plugins, and whether they replace the others; \<open>std::unique\<close> removes neighbours that are equal.\<close>

record 'e TabCompletionModel =
  tcm_source :: "'e source option"
  tcm_strings :: "string list"

definition updateResults ::
  "'e completion_api \<Rightarrow> completion_settings \<Rightarrow> bool \<Rightarrow> 'e completion_data \<Rightarrow> bool \<times> string list \<Rightarrow>
    string \<Rightarrow> bool \<Rightarrow> 'e TabCompletionModel \<Rightarrow> 'e TabCompletionModel" where
  "updateResults api st isTwitchChannel data plugins query isFirstWord m =
     (case deduceSourceKind st isTwitchChannel query of
        None \<Rightarrow> m\<lparr>tcm_source := None\<rparr>
      | Some kind \<Rightarrow>
          let source = source_update query (buildSource api st data kind);
              m = m\<lparr>tcm_source := Some source\<rparr>;
              (done, results) = plugins
          in if done then m\<lparr>tcm_strings := remdups_adj results\<rparr>
             else m\<lparr>tcm_strings := remdups_adj (addToStringList api st source results 0 isFirstWord)\<rparr>)"

section \<open>Smart completion shows the best matches, the cheapest first\<close>

lemma strict_weak_cost:
  assumes "compare_law c"
  shows "strict_weak (\<lambda>a b. if k a = k b then c (f a) (f b) < 0 else (k a :: int) < k b)"
proof -
  have as: "\<not> c y x < 0" if "c x y < 0" for x y
    using that assms by (force simp: compare_law_def)
  have tr: "c x y < 0 \<or> c y z < 0" if "c x z < 0" for x y z
  proof (rule ccontr)
    assume "\<not> (c x y < 0 \<or> c y z < 0)"
    then have "c y x \<le> 0" "c z y \<le> 0" using assms unfolding compare_law_def by (meson not_less)+
    then have "c z x \<le> 0" using assms unfolding compare_law_def by blast
    moreover have "c z x > 0" using that assms unfolding compare_law_def by blast
    ultimately show False by simp
  qed
  show ?thesis unfolding strict_weak_def
  proof (intro conjI allI impI)
    fix a b
    assume "if k a = k b then c (f a) (f b) < 0 else k a < k b"
    then show "\<not> (if k b = k a then c (f b) (f a) < 0 else k b < k a)"
      using as by (auto split: if_splits)
  next
    fix a b d
    assume "if k a = k d then c (f a) (f d) < 0 else k a < k d"
    then show "(if k a = k b then c (f a) (f b) < 0 else k a < k b) \<or>
        (if k b = k d then c (f b) (f d) < 0 else k b < k d)"
      using tr [of "f a" "f d" "f b"] by (auto split: if_splits)
  qed
qed

lemma emoteLess_strict_weak: "compare_law (cp_compareCI api) \<Longrightarrow> strict_weak (emoteLess api query up ic)"
  unfolding emoteLess_def Let_def by (rule strict_weak_cost)

lemma foldl_filter: "foldl (\<lambda>out item. if P item then out @ [item] else out) acc items = acc @ filter P items"
  by (induction items arbitrary: acc) auto

text \<open>Whether case is ignored in the end, and the matches that are shown then.\<close>

definition matchesWithCase ::
  "'e completion_api \<Rightarrow> 'e EmoteItem list \<Rightarrow> string \<Rightarrow> ('e EmoteItem \<Rightarrow> bool \<Rightarrow> bool) \<Rightarrow> 'e EmoteItem list" where
  "matchesWithCase api items query mf = filter (\<lambda>item. mf item (list_ex (cp_isUpper api) query)) items"

definition shownMatches ::
  "'e completion_api \<Rightarrow> 'e EmoteItem list \<Rightarrow> string \<Rightarrow> ('e EmoteItem \<Rightarrow> bool \<Rightarrow> bool) \<Rightarrow> 'e EmoteItem list" where
  "shownMatches api items query mf =
     (if matchesWithCase api items query mf = [] \<and> list_ex (cp_isUpper api) query
      then filter (\<lambda>item. mf item False) items else matchesWithCase api items query mf)"

lemma completeEmotes_cases:
  "completeEmotes api items query ic mf = shownMatches api items query mf \<and> shownMatches api items query mf = [] \<or>
   completeEmotes api items query ic mf =
     cp_sort api (emoteLess api query (matchesWithCase api items query mf = []) ic) (shownMatches api items query mf)"
  unfolding completeEmotes_def shownMatches_def matchesWithCase_def Let_def foldl_filter
  by (cases "filter (\<lambda>item. mf item (list_ex (cp_isUpper api) query)) items = []"; cases "list_ex (cp_isUpper api) query";
      cases "filter (\<lambda>item. mf item False) items = []") simp_all

text \<open>What a user sees of the order: how many letters a name has more than the query, and how far its case is off,
  which is the number of positions where the case differs or, when upper case names are preferred, the number of its
  letters that are not upper case.\<close>

definition extraLetters :: "string \<Rightarrow> string \<Rightarrow> nat" where
  "extraLetters query name = length name - length query"

definition caseErrors :: "'e completion_api \<Rightarrow> bool \<Rightarrow> string \<Rightarrow> string \<Rightarrow> nat" where
  "caseErrors api preferUpper query name =
     (if preferUpper then length (filter (\<lambda>c. \<not> cp_isUpper api c) name)
      else length (filter (\<lambda>(q, c). cp_isUpper api q \<noteq> cp_isUpper api c) (zip query name)))"

definition emoteCost :: "'e completion_api \<Rightarrow> bool \<Rightarrow> string \<Rightarrow> string \<Rightarrow> int" where
  "emoteCost api preferUpper query name =
     100 * int (extraLetters query name) +
     (if caseErrors api preferUpper query name = 0 then -10 else int (caseErrors api preferUpper query name))"

text \<open>A name goes before another: fewer letters more than the query, or as many and fewer errors of case, or as many
  of both and not behind it in the order of names.\<close>

definition goesBefore :: "'e completion_api \<Rightarrow> bool \<Rightarrow> string \<Rightarrow> string \<Rightarrow> string \<Rightarrow> bool" where
  "goesBefore api preferUpper query m n \<longleftrightarrow>
     extraLetters query m < extraLetters query n \<or>
     extraLetters query m = extraLetters query n \<and>
       (caseErrors api preferUpper query m < caseErrors api preferUpper query n \<or>
        caseErrors api preferUpper query m = caseErrors api preferUpper query n \<and> cp_compareCI api m n \<le> 0)"

lemma foldl_count:
  "foldl (\<lambda>score i. score + (if P i then 1 else 0)) (s :: int) xs = s + int (length (filter P xs))"
  by (induction xs arbitrary: s) auto

lemma count_zip:
  "length (filter (\<lambda>i. P (xs ! i) (ys ! i)) [0..<min (length ys) (length xs)]) =
    length (filter (\<lambda>(a, b). P a b) (zip xs ys))"
proof -
  have "zip xs ys = map (\<lambda>i. (xs ! i, ys ! i)) [0..<min (length ys) (length xs)]"
    by (simp add: list_eq_iff_nth_eq min.commute)
  then show ?thesis by (simp add: filter_map comp_def)
qed

lemma costOfEmote_emoteCost: "costOfEmote api query name up = emoteCost api up query name"
proof -
  have "(if up then foldl (\<lambda>score i. score + (if \<not> cp_isUpper api i then 1 else 0)) 0 name
      else foldl (\<lambda>score i. score + (if cp_isUpper api (query ! i) \<noteq> cp_isUpper api (name ! i) then 1 else 0))
        0 [0..<min (length name) (length query)]) = int (caseErrors api up query name)"
    unfolding foldl_count caseErrors_def count_zip [of "\<lambda>q c. cp_isUpper api q \<noteq> cp_isUpper api c"] by simp
  then show ?thesis
    unfolding costOfEmote_def emoteCost_def extraLetters_def Let_def by auto
qed

lemma caseErrors_length: "caseErrors api up query name \<le> length name"
proof (cases up)
  case False
  have "length (filter P (zip query name)) \<le> length name" for P
    using length_filter_le [of P "zip query name"] by simp
  then show ?thesis using False by (simp add: caseErrors_def)
qed (simp add: caseErrors_def)

lemma not_emoteLess:
  assumes "compare_law (cp_compareCI api)" "\<not> emoteLess api query up ic b a"
  shows "emoteCost api up query (costName ic a) < emoteCost api up query (costName ic b) \<or>
    emoteCost api up query (costName ic a) = emoteCost api up query (costName ic b) \<and>
      cp_compareCI api (costName ic a) (costName ic b) \<le> 0"
proof -
  have "\<not> cp_compareCI api n m < 0 \<Longrightarrow> cp_compareCI api m n \<le> 0" for m n
    using assms(1) unfolding compare_law_def by (meson not_less)
  then show ?thesis using assms(2)
    unfolding emoteLess_def Let_def costOfEmote_emoteCost by (auto split: if_splits)
qed

lemma emoteCost_lexicographic:
  assumes "emoteCost api up query m < emoteCost api up query n \<or>
      emoteCost api up query m = emoteCost api up query n \<and> cp_compareCI api m n \<le> 0"
    and "length m < 90" "length n < 90"
  shows "goesBefore api up query m n"
proof -
  have "caseErrors api up query m < 90" "caseErrors api up query n < 90"
    using caseErrors_length [of api up query m] caseErrors_length [of api up query n] assms(2,3) by simp_all
  then show ?thesis using assms(1) unfolding goesBefore_def emoteCost_def by (auto split: if_splits)
qed

lemma completeEmotes_sorted:
  fixes api :: "'e completion_api"
  assumes "compare_law (cp_compareCI api)" "std_sort_law (cp_sort api)"
  shows "sorted_wrt (\<lambda>a b. \<not> emoteLess api query (matchesWithCase api items query mf = []) ic b a)
      (completeEmotes api items query ic mf)"
    and "mset (completeEmotes api items query ic mf) = mset (shownMatches api items query mf)"
  using completeEmotes_cases [of api items query ic mf] emoteLess_strict_weak [OF assms(1)] assms(2)
  unfolding std_sort_law_def by auto

text \<open>
  C32. Smart completion shows exactly the matching emotes: with an upper case letter in the query those that
  match with regard to case, or all that match without when there are none.  A name with fewer letters more than
  the query goes first, among these one with fewer differences of case (in the second case: with fewer letters
  that are not upper case), and the rest is sorted by name.  This is so for names of less than 90 characters; in
  general the order is that of a cost of 100 for each letter more and 1 for each difference of case, where -10
  stands for no difference.\<close>

theorem completeEmotes_best:
  assumes "compare_law (cp_compareCI api)" "std_sort_law (cp_sort api)" "up = (matchesWithCase api items query mf = [])"
  shows "mset (completeEmotes api items query ic mf) = mset (shownMatches api items query mf) \<and>
    sorted_wrt (\<lambda>a b. emoteCost api up query (costName ic a) < emoteCost api up query (costName ic b) \<or>
        emoteCost api up query (costName ic a) = emoteCost api up query (costName ic b) \<and>
          cp_compareCI api (costName ic a) (costName ic b) \<le> 0) (completeEmotes api items query ic mf) \<and>
    ((\<forall>e \<in> set items. length (searchName e) < 90) \<longrightarrow>
      sorted_wrt (\<lambda>a b. goesBefore api up query (costName ic a) (costName ic b)) (completeEmotes api items query ic mf))"
proof -
  let ?out = "completeEmotes api items query ic mf"
  note sorted = completeEmotes_sorted [OF assms(1,2), where query = query and items = items and mf = mf]
  have cost: "sorted_wrt (\<lambda>a b. emoteCost api up query (costName ic a) < emoteCost api up query (costName ic b) \<or>
      emoteCost api up query (costName ic a) = emoteCost api up query (costName ic b) \<and>
        cp_compareCI api (costName ic a) (costName ic b) \<le> 0) ?out"
    by (rule sorted_wrt_mono_rel [OF _ sorted(1) [where ic = ic]]) (use not_emoteLess [OF assms(1)] in \<open>auto simp: assms(3)\<close>)
  have "set ?out \<subseteq> set items"
    using mset_eq_setD [OF sorted(2) [where ic = ic]] by (auto simp: shownMatches_def matchesWithCase_def split: if_splits)
  then have "length (costName ic e) < 90" if "\<forall>e \<in> set items. length (searchName e) < 90" "e \<in> set ?out" for e
    using that by (force simp: costName_def)
  then have "(\<forall>e \<in> set items. length (searchName e) < 90) \<longrightarrow>
      sorted_wrt (\<lambda>a b. goesBefore api up query (costName ic a) (costName ic b)) ?out"
    using emoteCost_lexicographic by (intro impI sorted_wrt_mono_rel [OF _ cost]) blast
  then show ?thesis using cost sorted(2) [where ic = ic] by blast
qed

section \<open>The limit of a unified source\<close>

primrec source_strings :: "'e completion_api \<Rightarrow> completion_settings \<Rightarrow> bool \<Rightarrow> 'e source \<Rightarrow> string list" where
  "source_strings api st first (EmoteSource items strategy output) = map (\<lambda>e. tabCompletionName e @ '' '') output"
| "source_strings api st first (UserSource items strategy prependAt output) =
     map (\<lambda>user. (if prependAt then ''@'' else []) @
       formatUserMention (cp_qchar api) (snd user) first (mentionUsersWithComma st) (lowercaseUsernames st) @ '' '') output"
| "source_strings api st first (CommandSource items strategy output) = map (\<lambda>c. ci_prefix c @ ci_name c @ '' '') output"
| "source_strings api st first (UnifiedSource sources) = concat (map (source_strings api st first) sources)"

definition limited :: "nat \<Rightarrow> 'a list \<Rightarrow> 'a list" where
  "limited n xs = (if n = 0 then xs else take n xs)"

lemma addVecToStringList_limited:
  "addVecToStringList input list maxCount mapper = list @ map mapper (limited maxCount input)"
proof -
  have "foldl (\<lambda>list i. list @ [mapper (input ! i)]) acc is = acc @ map (\<lambda>i. mapper (input ! i)) is" for acc "is"
    by (induction "is" arbitrary: acc) simp_all
  moreover have "map (\<lambda>i. mapper (input ! i)) [0..<k] = map mapper (take k input)" if "k \<le> length input" for k
    using that by (simp add: list_eq_iff_nth_eq)
  moreover have "sizeWithinLimit (length input) maxCount \<le> length input" by (simp add: sizeWithinLimit_def)
  ultimately have "addVecToStringList input list maxCount mapper =
      list @ map mapper (take (sizeWithinLimit (length input) maxCount) input)"
    by (simp add: addVecToStringList_def)
  then show ?thesis by (simp add: sizeWithinLimit_def limited_def min_def)
qed

lemma map_limited: "map f (limited n xs) = limited n (map f xs)"
  by (simp add: limited_def take_map)

lemma source_limit:
  "addToStringList api st source list maxCount first =
     list @ limited maxCount (source_strings api st first source)"
  "maxCount = 0 \<or> startingSize \<le> length list \<and> used = length list - startingSize \<and> used < maxCount \<Longrightarrow>
     unifiedLoop api st sources list maxCount first startingSize used =
       list @ (if maxCount = 0 then concat (map (source_strings api st first) sources)
               else take (maxCount - used) (concat (map (source_strings api st first) sources)))"
proof (induction api st source list maxCount first and api st sources list maxCount first startingSize used
    rule: addToStringList_unifiedLoop.induct)
  case (4 api st sources list maxCount first)
  then show ?case by (cases "maxCount = 0") (simp_all add: limited_def)
next
  case (6 api st source sources list maxCount first startingSize used)
  show ?case
  proof (cases "maxCount = 0")
    case True
    then show ?thesis using 6(1,2) "6.prems" by (simp add: limited_def)
  next
    case False
    let ?ss = "source_strings api st first source" and ?rest = "concat (map (source_strings api st first) sources)"
    define k where "k = maxCount - used"
    have k: "0 < k" "k + used = maxCount" using "6.prems" False by (auto simp: k_def)
    have l: "addToStringList api st source list k first = list @ take k ?ss"
      using 6(3) [OF False] k(1) by (simp add: k_def limited_def)
    define list' where "list' = list @ take k ?ss"
    have len: "length list' - startingSize = used + min k (length ?ss)"
      using "6.prems" False by (auto simp: list'_def min.commute)
    show ?thesis
    proof (cases "length list' - startingSize \<ge> maxCount")
      case True
      then have "k \<le> length ?ss" using len k by simp
      then show ?thesis using True False l k by (simp add: list'_def k_def [symmetric] Let_def)
    next
      case lt: False
      then have short: "length ?ss < k" using len k by (simp add: min_def split: if_splits)
      have "unifiedLoop api st sources list' maxCount first startingSize (length list' - startingSize) =
          list' @ (if maxCount = 0 then ?rest else take (maxCount - (length list' - startingSize)) ?rest)"
      proof (rule 6(4) [OF False _ refl])
        show "list' = addToStringList api st source list (maxCount - used) first" using l by (simp add: list'_def k_def)
        show "\<not> maxCount \<le> length list' - startingSize" by (rule lt)
        show "maxCount = 0 \<or> startingSize \<le> length list' \<and> length list' - startingSize = length list' - startingSize \<and>
            length list' - startingSize < maxCount"
          using lt "6.prems" False by (simp add: list'_def)
      qed
      moreover have "maxCount - (length list' - startingSize) = k - length ?ss" using len short k by simp
      ultimately show ?thesis
        using False l lt short by (simp add: list'_def k_def [symmetric] Let_def)
    qed
  qed
qed (simp_all add: addVecToStringList_limited limited_def take_map Let_def)

text \<open>
  A limit on the number of strings holds for all sources together: a source, also a unified one of
  several, adds the first \<open>maxCount\<close> of the strings that it would add without a limit.\<close>

theorem unified_source_limit:
  "addToStringList api st source list maxCount isFirstWord =
    (let all = addToStringList api st source [] 0 isFirstWord
     in list @ (if maxCount = 0 then all else take maxCount all))"
  using source_limit(1) [of api st source list maxCount] source_limit(1) [of api st source "[]" 0]
  by (simp add: limited_def Let_def)

section \<open>Classic completion\<close>

lemma exactFirst_mset: "mset (exactFirst ex out i n) = mset out"
proof (induction ex out i n rule: exactFirst.induct)
  case (2 ex out i n)
  show ?case
  proof (cases "i < length out \<and> ex (out ! i)")
    case True
    then have "out = take i out @ out ! i # drop (Suc i) out" by (simp add: id_take_nth_drop)
    then have "mset out = mset (take i out @ out ! i # drop (Suc i) out)" by simp
    then show ?thesis using True by simp
  qed (use 2 in auto)
qed simp

lemma set_insert_set:
  "set (set_insert lt x ys) \<subseteq> insert x (set ys)" "set ys \<subseteq> set (set_insert lt x ys)"
  by (induction ys) auto

lemma set_insert_sorted:
  assumes tr: "\<And>a b c. lt a b \<Longrightarrow> lt b c \<Longrightarrow> lt a c" and "sorted_wrt lt ys"
  shows "sorted_wrt lt (set_insert lt x ys)"
  using assms(2)
proof (induction ys)
  case (Cons y ys)
  then show ?case using set_insert_set(1) [of lt x ys] tr by (auto dest: tr)
qed simp

text \<open>Classic completion in the input keeps a sorted set of matching emotes.\<close>

lemma ClassicTab_sorted:
  assumes "\<And>a b c. emoteOrder api a b \<Longrightarrow> emoteOrder api b c \<Longrightarrow> emoteOrder api a c"
  shows "sorted_wrt (emoteOrder api) (ClassicTabEmoteStrategy api prefixOnly items query) \<and>
    set (ClassicTabEmoteStrategy api prefixOnly items query) \<subseteq> set items"
proof -
  have "sorted_wrt (emoteOrder api) (foldl (\<lambda>emotes item. if A item then emotes
        else if B item then set_insert (emoteOrder api) item emotes else emotes) acc items) \<and>
      set (foldl (\<lambda>emotes item. if A item then emotes
        else if B item then set_insert (emoteOrder api) item emotes else emotes) acc items) \<subseteq> set acc \<union> set items"
    if "sorted_wrt (emoteOrder api) acc" for acc A B
    using that
  proof (induction items arbitrary: acc)
    case (Cons item items)
    let ?acc = "if A item then acc else if B item then set_insert (emoteOrder api) item acc else acc"
    have "sorted_wrt (emoteOrder api) ?acc" 
      using Cons.prems set_insert_sorted [of "emoteOrder api" acc item] assms by auto
    moreover have "set ?acc \<subseteq> insert item (set acc)"
      using set_insert_set(1) [of "emoteOrder api" item acc] by auto
    ultimately show ?case using Cons.IH [of ?acc] unfolding foldl_Cons list.set by blast
  qed simp
  from this [of "[]"] show ?thesis unfolding ClassicTabEmoteStrategy_def Let_def by simp
qed

section \<open>A concrete instance\<close>

text \<open>An order of texts.\<close>

fun text_compare :: "(char \<Rightarrow> nat) \<Rightarrow> string \<Rightarrow> string \<Rightarrow> int" where
  "text_compare f [] [] = 0"
| "text_compare f [] (d # t) = -1"
| "text_compare f (c # s) [] = 1"
| "text_compare f (c # s) (d # t) = (if f c < f d then -1 else if f d < f c then 1 else text_compare f s t)"

definition sample_completion :: "unit completion_api" where
  "sample_completion =
     \<lparr>cp_qchar = sample_qchar,
      cp_isUpper = (\<lambda>c. 65 \<le> (of_char c :: nat) \<and> (of_char c :: nat) \<le> 90),
      cp_compareCI = text_compare (\<lambda>c. of_char (ascii_lower c)), cp_compareCS = text_compare of_char,
      cp_sort = sort_by\<rparr>"

lemma sample_sort: "std_sort_law (cp_sort sample_completion)"
  using sort_by_law by (simp add: sample_completion_def)

lemma text_compare_swap: "text_compare f t s < 0 \<longleftrightarrow> text_compare f s t > 0"
  by (induction f s t rule: text_compare.induct) auto

lemma text_compare_trans: "text_compare f x y \<le> 0 \<Longrightarrow> text_compare f y z \<le> 0 \<Longrightarrow> text_compare f x z \<le> 0"
proof (induction f x y arbitrary: z rule: text_compare.induct)
  case (1 f)
  then show ?case by (cases z) auto
next
  case (2 f d t)
  then show ?case by (cases z) auto
next
  case (4 f c s d t)
  show ?case
  proof (cases z)
    case (Cons e u)
    have le: "text_compare f (a # v) (b # w) \<le> 0 \<longleftrightarrow> f a < f b \<or> f a = f b \<and> text_compare f v w \<le> 0" for a b v w
      by (cases "f a < f b"; cases "f b < f a") auto
    have "f c < f d \<or> f c = f d \<and> text_compare f s t \<le> 0" using 4(2) unfolding le .
    moreover have "f d < f e \<or> f d = f e \<and> text_compare f t u \<le> 0" using 4(3) unfolding Cons le .
    moreover have "f c = f d \<Longrightarrow> text_compare f s t \<le> 0 \<Longrightarrow> text_compare f t u \<le> 0 \<Longrightarrow> text_compare f s u \<le> 0"
      using 4(1) [of u] by simp
    ultimately show ?thesis unfolding Cons le by (metis less_trans)
  qed (use 4 in simp)
qed simp

lemma text_compare_law: "compare_law (text_compare f)"
proof -
  have "\<forall>a b. (text_compare f b a < 0) = (text_compare f a b > 0)" by (simp only: text_compare_swap) simp
  moreover have "text_compare f x z \<le> 0" if "text_compare f x y \<le> 0" "text_compare f y z \<le> 0" for x y z
    by (rule text_compare_trans [OF that])
  ultimately show ?thesis unfolding compare_law_def by blast
qed

lemma sample_compare: "compare_law (cp_compareCI sample_completion)"
  using text_compare_law by (simp add: sample_completion_def)

definition sample_item :: "string \<Rightarrow> unit EmoteItem" where
  "sample_item n = \<lparr>emote = (), searchName = n, tabCompletionName = n, ei_displayName = n, providerName = [], isEmoji = False\<rparr>"

text \<open>The example of the comment in the code: no emote contains the query with its case.\<close>

lemma sample_complete:
  "completeEmotes sample_completion [sample_item ''pajaW'', sample_item ''PAJAW''] ''Pajaw'' False
     (\<lambda>e cs. startsWithOrContains sample_qchar (searchName e) ''Pajaw'' cs False) =
   [sample_item ''PAJAW'', sample_item ''pajaW'']"
  by code_simp

theorem completeEmotes_best_witness:
  "goesBefore sample_completion True ''Pajaw'' ''PAJAW'' ''pajaW''"
proof -
  let ?mf = "\<lambda>(e :: unit EmoteItem) cs. startsWithOrContains sample_qchar (searchName e) ''Pajaw'' cs False"
  let ?items = "[sample_item ''pajaW'', sample_item ''PAJAW'']"
  have up: "matchesWithCase sample_completion ?items ''Pajaw'' ?mf = []" by code_simp
  have names: "costName False (sample_item n) = n" "searchName (sample_item n) = n" for n
    by (simp_all add: costName_def sample_item_def)
  have "\<forall>e \<in> set ?items. length (searchName e) < 90" by (simp add: names)
  then show ?thesis
    using completeEmotes_best [OF sample_compare sample_sort refl, where items = ?items and query = "''Pajaw''" and mf = ?mf and ic = False]
    unfolding sample_complete up by (simp add: names)
qed

end
