(* ===== verification/Emojis.thy ===== *)
theory Emojis
  imports TwitchTags StringHelpers
begin

text \<open>
  Emojis in texts: the tables of \<open>providers/emoji/Emojis.cpp\<close>, finding emojis in a text and replacing
  short codes.  Reading the emoji data from JSON and the images are not modelled; the matches of the regular
  expression for short codes are a parameter.
\<close>

section \<open>Tables\<close>

record 'e EmojiData =
  em_value :: qstring
  nonQualified :: "qstring option"
  shortCodes :: "qstring list"
  em_emote :: 'e

record 'e Emojis =
  emojiFirstByte :: "16 word \<rightharpoonup> 'e EmojiData list"
  emojiShortCodeToEmoji :: "qstring \<rightharpoonup> 'e EmojiData"
  all_shortCodes :: "qstring list"
  all_emojis :: "'e EmojiData list"

definition no_emojis :: "'e Emojis" where
  "no_emojis = \<lparr>emojiFirstByte = Map.empty, emojiShortCodeToEmoji = Map.empty, all_shortCodes = [], all_emojis = []\<rparr>"

text \<open>One step of \<open>loadEmojis\<close>: an emoji, or a variation of one, with its short codes.\<close>

definition insertEmoji :: "'e EmojiData \<Rightarrow> 'e Emojis \<Rightarrow> 'e Emojis" where
  "insertEmoji e m =
     (let m = foldl (\<lambda>m shortCode. m\<lparr>emojiShortCodeToEmoji := (emojiShortCodeToEmoji m)(shortCode \<mapsto> e),
                all_shortCodes := all_shortCodes m @ [shortCode]\<rparr>) m (shortCodes e);
          first = hd (em_value e);
          known = (case emojiFirstByte m first of None \<Rightarrow> [] | Some es \<Rightarrow> es)
      in m\<lparr>emojiFirstByte := (emojiFirstByte m)(first \<mapsto> known @ [e]), all_emojis := all_emojis m @ [e]\<rparr>)"

text \<open>\<open>sortEmojis\<close>: the stable sort puts the longest values first; short codes are sorted by their code
  units.\<close>

fun qstring_less :: "qstring \<Rightarrow> qstring \<Rightarrow> bool" where
  "qstring_less _ [] = False"
| "qstring_less [] (d # t) = True"
| "qstring_less (c # s) (d # t) = (c < d \<or> c = d \<and> qstring_less s t)"

fun insert_stable :: "('a \<Rightarrow> 'a \<Rightarrow> bool) \<Rightarrow> 'a \<Rightarrow> 'a list \<Rightarrow> 'a list" where
  "insert_stable lt x [] = [x]"
| "insert_stable lt x (y # ys) = (if lt y x then y # insert_stable lt x ys else x # y # ys)"

definition stable_sort :: "('a \<Rightarrow> 'a \<Rightarrow> bool) \<Rightarrow> 'a list \<Rightarrow> 'a list" where
  "stable_sort lt xs = foldr (insert_stable lt) xs []"

definition sortEmojis :: "'e Emojis \<Rightarrow> 'e Emojis" where
  "sortEmojis m = m\<lparr>emojiFirstByte :=
       (\<lambda>c. map_option (stable_sort (\<lambda>lhs rhs. length (em_value lhs) > length (em_value rhs))) (emojiFirstByte m c)),
     all_shortCodes := stable_sort qstring_less (all_shortCodes m)\<rparr>"

definition loadEmojis :: "'e EmojiData list \<Rightarrow> 'e Emojis" where
  "loadEmojis es = sortEmojis (foldl (\<lambda>m e. insertEmoji e m) no_emojis es)"

section \<open>Finding emojis in a text\<close>

text \<open>The loop over the emojis that start with the character at \<open>i\<close>; every value has a first character.\<close>

fun findEmoji :: "'e EmojiData list \<Rightarrow> qstring \<Rightarrow> nat \<Rightarrow> ('e EmojiData \<times> nat) option" where
  "findEmoji [] src i = None"
| "findEmoji (e # es) src i =
     (let remainingCharacters = length src - i - 1;
          emojiExtraCharacters = length (em_value e) - 1
      in if remainingCharacters \<ge> emojiExtraCharacters \<and>
            drop 1 (em_value e) = mid src (i + 1) emojiExtraCharacters
         then Some (e, length (em_value e))
         else case nonQualified e of
             None \<Rightarrow> findEmoji es src i
           | Some nq \<Rightarrow>
               if remainingCharacters \<ge> length nq - 1 \<and> drop 1 nq = mid src (i + 1) (length nq - 1)
               then Some (e, length nq) else findEmoji es src i)"

text \<open>A part of the result is the emote of an emoji or the text between emojis.\<close>

function emojiLoop :: "'e Emojis \<Rightarrow> qstring \<Rightarrow> nat \<Rightarrow> nat \<Rightarrow> ('e + qstring) list \<Rightarrow> ('e + qstring) list" where
  "emojiLoop m src i lastEnd parts =
     (if i < length src then
        if isLowSurrogate16 (src ! i) then emojiLoop m src (Suc i) lastEnd parts
        else case emojiFirstByte m (src ! i) of
            None \<Rightarrow> emojiLoop m src (Suc i) lastEnd parts
          | Some possibleEmojis \<Rightarrow>
              (case findEmoji possibleEmojis src i of
                 None \<Rightarrow> emojiLoop m src (Suc i) lastEnd parts
               | Some (e, matchedLength) \<Rightarrow>
                   if matchedLength = 0 then emojiLoop m src (Suc i) lastEnd parts
                   else
                     let parts = (if i > lastEnd then parts @ [Inr (mid src lastEnd (i - lastEnd))] else parts)
                     in emojiLoop m src (i + matchedLength) (i + matchedLength) (parts @ [Inl (em_emote e)]))
      else if lastEnd < length src then parts @ [Inr (drop lastEnd src)] else parts)"
  by pat_completeness auto
termination by (relation "measure (\<lambda>(m, src, i, l, p). length src - i)") auto

declare emojiLoop.simps [simp del]

definition Emojis_parse :: "'e Emojis \<Rightarrow> qstring \<Rightarrow> ('e + qstring) list" where
  "Emojis_parse m src = emojiLoop m src 0 0 []"

section \<open>Short codes\<close>

text \<open>The loop over the matches, given by begin and length; \<open>toLower\<close> is Qt's.\<close>

fun shortCodeLoop :: "'e Emojis \<Rightarrow> (qstring \<Rightarrow> qstring) \<Rightarrow> qstring \<Rightarrow> (nat \<times> nat) list \<Rightarrow> int \<Rightarrow> qstring \<Rightarrow> qstring" where
  "shortCodeLoop m toLower src [] offset ret = ret"
| "shortCodeLoop m toLower src ((s, n) # ms) offset ret =
     (let matchString = mid (toLower (mid src s n)) 1 (n - 2) in
      case emojiShortCodeToEmoji m matchString of
        None \<Rightarrow> shortCodeLoop m toLower src ms offset ret
      | Some e \<Rightarrow>
          let p = nat (offset + int s);
              ret = take p ret @ em_value e @ drop (p + n) ret
          in shortCodeLoop m toLower src ms (offset + (int (length (em_value e)) - int n)) ret)"

definition replaceShortCodes ::
  "'e Emojis \<Rightarrow> (qstring \<Rightarrow> qstring) \<Rightarrow> (qstring \<Rightarrow> (nat \<times> nat) list) \<Rightarrow> qstring \<Rightarrow> qstring" where
  "replaceShortCodes m toLower globalMatch src = shortCodeLoop m toLower src (globalMatch src) 0 src"

section \<open>Well-formed tables\<close>

definition emoji_ok :: "16 word \<Rightarrow> 'e EmojiData \<Rightarrow> bool" where
  "emoji_ok c e \<longleftrightarrow> em_value e \<noteq> [] \<and> hd (em_value e) = c \<and>
     (case nonQualified e of None \<Rightarrow> True | Some nq \<Rightarrow> nq \<noteq> [] \<and> hd nq = c)"

definition emojis_ok :: "'e Emojis \<Rightarrow> bool" where
  "emojis_ok m \<longleftrightarrow> (\<forall>c es. emojiFirstByte m c = Some es \<longrightarrow> list_all (emoji_ok c) es)"

lemma set_stable_sort [simp]: "set (stable_sort lt xs) = set xs"
proof -
  have "set (insert_stable lt x ys) = insert x (set ys)" for x ys by (induction ys) auto
  then show ?thesis by (induction xs) (simp_all add: stable_sort_def)
qed

lemma insert_short_codes:
  "emojiFirstByte (foldl (\<lambda>m shortCode. m\<lparr>emojiShortCodeToEmoji := (emojiShortCodeToEmoji m)(shortCode \<mapsto> e),
     all_shortCodes := all_shortCodes m @ [shortCode]\<rparr>) m cs) = emojiFirstByte m"
  by (induction cs arbitrary: m) simp_all

lemma insertEmoji_ok:
  assumes "emojis_ok m" "emoji_ok (hd (em_value e)) e"
  shows "emojis_ok (insertEmoji e m)"
  using assms by (auto simp: emojis_ok_def insertEmoji_def Let_def insert_short_codes split: option.splits if_splits)

lemma loadEmojis_ok:
  assumes "list_all (\<lambda>e. emoji_ok (hd (em_value e)) e) es"
  shows "emojis_ok (loadEmojis es)"
proof -
  have "emojis_ok (foldl (\<lambda>m e. insertEmoji e m) m es)" if "emojis_ok m" for m
    using that assms by (induction es arbitrary: m) (simp_all add: insertEmoji_ok)
  moreover have "emojis_ok no_emojis" by (simp add: emojis_ok_def no_emojis_def)
  ultimately have "emojis_ok (foldl (\<lambda>m e. insertEmoji e m) no_emojis es)" by blast
  then show ?thesis by (auto simp: loadEmojis_def sortEmojis_def emojis_ok_def list_all_iff)
qed

section \<open>Parsing keeps the text\<close>

text \<open>The text that a part stands for: itself, or one of the two spellings of an emoji.\<close>

definition stands_for :: "'e Emojis \<Rightarrow> 'e + qstring \<Rightarrow> qstring \<Rightarrow> bool" where
  "stands_for m part s \<longleftrightarrow> s \<noteq> [] \<and>
     (case part of
        Inr t \<Rightarrow> t = s
      | Inl em \<Rightarrow> \<exists>c es. emojiFirstByte m c = Some es \<and>
          (\<exists>e\<in>set es. em_emote e = em \<and> (em_value e = s \<or> nonQualified e = Some s)))"

lemma findEmoji_Some:
  assumes "findEmoji es src i = Some (e, n)" "list_all (emoji_ok (src ! i)) es" "i < length src"
  shows "e \<in> set es" "0 < n" "i + n \<le> length src"
    "em_value e = mid src i n \<or> nonQualified e = Some (mid src i n)"
proof -
  have hit: "w = mid src i (length w) \<and> i + length w \<le> length src"
    if "w \<noteq> []" "hd w = src ! i" "length w - 1 \<le> length src - i - 1" "drop 1 w = mid src (i + 1) (length w - 1)" for w
    using that assms(3) by (cases w) (auto simp: mid_def Cons_nth_drop_Suc [symmetric])
  have "e \<in> set es \<and> 0 < n \<and> i + n \<le> length src \<and> (em_value e = mid src i n \<or> nonQualified e = Some (mid src i n))"
    using assms(1,2)
  proof (induction es)
    case (Cons x es)
    have ok: "emoji_ok (src ! i) x" using Cons.prems by simp
    let ?v = "length src - i - 1 \<ge> length (em_value x) - 1 \<and> drop 1 (em_value x) = mid src (i + 1) (length (em_value x) - 1)"
    show ?case
    proof (cases ?v)
      case True
      then have "e = x" "n = length (em_value x)" using Cons.prems by (auto simp: Let_def)
      then show ?thesis using hit [of "em_value x"] True ok by (auto simp: emoji_ok_def)
    next
      case no: False
      show ?thesis
      proof (cases "\<exists>nq. nonQualified x = Some nq \<and> length src - i - 1 \<ge> length nq - 1 \<and> drop 1 nq = mid src (i + 1) (length nq - 1)")
        case True
        then obtain nq where nq: "nonQualified x = Some nq" "length src - i - 1 \<ge> length nq - 1"
          "drop 1 nq = mid src (i + 1) (length nq - 1)" by blast
        then have "e = x" "n = length nq" using Cons.prems no by (auto simp: Let_def)
        then show ?thesis using hit [of nq] nq ok by (auto simp: emoji_ok_def)
      next
        case False
        then have "findEmoji es src i = Some (e, n)"
          using Cons.prems no by (auto simp: Let_def split: option.splits)
        then show ?thesis using Cons by auto
      qed
    qed
  qed simp
  then show "e \<in> set es" "0 < n" "i + n \<le> length src"
    "em_value e = mid src i n \<or> nonQualified e = Some (mid src i n)" by blast+
qed

lemma take_mid: "a \<le> b \<Longrightarrow> take a s @ mid s a (b - a) = take b s"
  using take_add [of a "b - a" s] by (simp add: mid_def)

lemma emojiLoop_source:
  assumes "emojis_ok m" "lastEnd \<le> i" "i \<le> length src"
    and "list_all2 (stands_for m) parts ss" "concat ss = take lastEnd src"
  shows "\<exists>ss. list_all2 (stands_for m) (emojiLoop m src i lastEnd parts) ss \<and> concat ss = src"
  using assms(2-)
proof (induction "length src - i" arbitrary: i lastEnd parts ss rule: less_induct)
  case less
  show ?case
  proof (cases "i < length src")
    case False
    show ?thesis
    proof (cases "lastEnd < length src")
      case True
      have "stands_for m (Inr (drop lastEnd src)) (drop lastEnd src)" using True by (simp add: stands_for_def)
      then have "list_all2 (stands_for m) (parts @ [Inr (drop lastEnd src)]) (ss @ [drop lastEnd src])"
        using less.prems(3) by (simp add: list_all2_appendI)
      moreover have "concat (ss @ [drop lastEnd src]) = src" using less.prems(4) by simp
      ultimately show ?thesis using False True by (subst emojiLoop.simps) auto
    next
      case False
      then show ?thesis using \<open>\<not> i < length src\<close> less.prems by (subst emojiLoop.simps) auto
    qed
  next
    case True
    have skip: "\<exists>ss. list_all2 (stands_for m) (emojiLoop m src (Suc i) lastEnd parts) ss \<and> concat ss = src"
      using less.prems True by (intro less.hyps) auto
    consider (skip) "emojiLoop m src i lastEnd parts = emojiLoop m src (Suc i) lastEnd parts"
      | (hit) es e n where "emojiFirstByte m (src ! i) = Some es" "findEmoji es src i = Some (e, n)"
        "emojiLoop m src i lastEnd parts = emojiLoop m src (i + n) (i + n)
          ((if i > lastEnd then parts @ [Inr (mid src lastEnd (i - lastEnd))] else parts) @ [Inl (em_emote e)])"
      using True emojiLoop.simps [of m src i lastEnd parts]
      by (auto simp: Let_def split: option.splits prod.splits if_splits)
    then show ?thesis
    proof cases
      case hit
      have ok: "list_all (emoji_ok (src ! i)) es" using hit(1) assms(1) by (simp add: emojis_ok_def)
      note fe = findEmoji_Some [OF hit(2) ok True]
      define parts' where "parts' = (if i > lastEnd then parts @ [Inr (mid src lastEnd (i - lastEnd))] else parts)"
      define ss' where "ss' = (if i > lastEnd then ss @ [mid src lastEnd (i - lastEnd)] else ss)"
      have "mid src lastEnd (i - lastEnd) \<noteq> []" if "i > lastEnd" using that True by (simp add: mid_def)
      then have p: "list_all2 (stands_for m) parts' ss'"
        using less.prems(3) by (auto simp: parts'_def ss'_def stands_for_def intro!: list_all2_appendI)
      have c: "concat ss' = take i src"
        using less.prems(1,4) take_mid [of lastEnd i src] by (auto simp: ss'_def)
      have "mid src i n \<noteq> []" using fe(2) True by (simp add: mid_def)
      then have "stands_for m (Inl (em_emote e)) (mid src i n)"
        using fe(1,4) hit(1) by (auto simp: stands_for_def)
      then have p': "list_all2 (stands_for m) (parts' @ [Inl (em_emote e)]) (ss' @ [mid src i n])"
        using p by (auto intro: list_all2_appendI)
      have c': "concat (ss' @ [mid src i n]) = take (i + n) src"
        using c take_mid [of i "i + n" src] by simp
      show ?thesis unfolding hit(3) parts'_def [symmetric]
        by (rule less.hyps [OF _ _ fe(3) p' c']) (use fe(2) True in simp_all)
    qed (use skip in simp)
  qed
qed

text \<open>
  C31. The parts that a text is split into stand, in order and without a gap, for the whole text: a text part
  for itself, an emoji for one of its two spellings in the table.  No part is empty.\<close>

theorem Emojis_parse_keeps_text:
  assumes "emojis_ok m"
  shows "\<exists>ss. list_all2 (stands_for m) (Emojis_parse m src) ss \<and> concat ss = src"
  unfolding Emojis_parse_def by (rule emojiLoop_source [OF assms, of _ _ _ _ "[]"]) simp_all

definition sample_emoji :: "nat EmojiData" where
  "sample_emoji = \<lparr>em_value = [0x2764, 0xFE0F], nonQualified = Some [0x2764], shortCodes = [qs ''heart''], em_emote = 7\<rparr>"

theorem Emojis_parse_keeps_text_witness:
  "\<exists>ss. list_all2 (stands_for (loadEmojis [sample_emoji]))
     (Emojis_parse (loadEmojis [sample_emoji]) [120, 0x2764, 121]) ss \<and> concat ss = [120, 0x2764, 121]"
  by (rule Emojis_parse_keeps_text, rule loadEmojis_ok) (simp add: sample_emoji_def emoji_ok_def)

lemma sample_parse:
  "Emojis_parse (loadEmojis [sample_emoji]) [120, 0x2764, 121] = [Inr [120], Inl 7, Inr [121]]"
  by code_simp

section \<open>Short codes are replaced in place\<close>

text \<open>The matches of a global match, from position \<open>k\<close> on, do not overlap and are in order.\<close>

fun matches_from :: "nat \<Rightarrow> qstring \<Rightarrow> (nat \<times> nat) list \<Rightarrow> bool" where
  "matches_from k src [] \<longleftrightarrow> k \<le> length src"
| "matches_from k src ((s, n) # ms) \<longleftrightarrow> k \<le> s \<and> s + n \<le> length src \<and> matches_from (s + n) src ms"

text \<open>The reference: the text between the matches, and for each match the emoji of its short code or the
  match itself.\<close>

fun replacedFrom :: "'e Emojis \<Rightarrow> (qstring \<Rightarrow> qstring) \<Rightarrow> qstring \<Rightarrow> nat \<Rightarrow> (nat \<times> nat) list \<Rightarrow> qstring" where
  "replacedFrom m toLower src k [] = drop k src"
| "replacedFrom m toLower src k ((s, n) # ms) =
     mid src k (s - k) @
     (case emojiShortCodeToEmoji m (mid (toLower (mid src s n)) 1 (n - 2)) of
        None \<Rightarrow> mid src s n | Some e \<Rightarrow> em_value e) @
     replacedFrom m toLower src (s + n) ms"

lemma matches_from_le: "matches_from k src ms \<Longrightarrow> k \<le> length src"
  by (induction k src ms rule: matches_from.induct) auto

lemma shortCodeLoop_replaced:
  assumes "matches_from k src ms" "int (length pre) = offset + int k"
  shows "shortCodeLoop m toLower src ms offset (pre @ drop k src) = pre @ replacedFrom m toLower src k ms"
  using assms
proof (induction ms arbitrary: k offset pre)
  case (Cons sn ms)
  obtain s n where sn: "sn = (s, n)" by (cases sn)
  have b: "k \<le> s" "s + n \<le> length src" "matches_from (s + n) src ms" using Cons.prems by (simp_all add: sn)
  have d: "drop k src = mid src k (s - k) @ mid src s n @ drop (s + n) src"
    using b append_take_drop_id [of "s - k" "drop k src"] append_take_drop_id [of n "drop s src"]
    by (simp add: mid_def add.commute)
  have lm: "length (mid src k (s - k)) = s - k" "length (mid src s n) = n" using b by (simp_all add: mid_def)
  show ?case
  proof (cases "emojiShortCodeToEmoji m (mid (toLower (mid src s n)) 1 (n - 2))")
    case None
    have "shortCodeLoop m toLower src ms offset ((pre @ mid src k (s - k) @ mid src s n) @ drop (s + n) src) =
        (pre @ mid src k (s - k) @ mid src s n) @ replacedFrom m toLower src (s + n) ms"
      using b lm Cons.prems(2) by (intro Cons.IH) simp_all
    then show ?thesis using None by (simp add: sn d)
  next
    case (Some e)
    have p: "nat (offset + int s) = length (pre @ mid src k (s - k))" using Cons.prems(2) b lm by simp
    have r: "take (length (pre @ mid src k (s - k))) (pre @ drop k src) = pre @ mid src k (s - k)"
      "drop (length (pre @ mid src k (s - k)) + n) (pre @ drop k src) = drop (s + n) src"
      using lm by (simp_all add: d)
    have "shortCodeLoop m toLower src ms (offset + (int (length (em_value e)) - int n))
        ((pre @ mid src k (s - k) @ em_value e) @ drop (s + n) src) =
        (pre @ mid src k (s - k) @ em_value e) @ replacedFrom m toLower src (s + n) ms"
      using b lm Cons.prems(2) by (intro Cons.IH) simp_all
    then show ?thesis using Some r unfolding sn by (simp add: Let_def p del: drop_append take_append length_append)
  qed
qed (simp add: matches_from_le)

text \<open>
  Replacing short codes, with the running offset into the text that is rewritten, replaces each match
  whose short code is known by its emoji and leaves all else as it is.\<close>

theorem replaceShortCodes_in_place:
  assumes "matches_from 0 src (globalMatch src)"
  shows "replaceShortCodes m toLower globalMatch src = replacedFrom m toLower src 0 (globalMatch src)"
  using shortCodeLoop_replaced [OF assms, of "[]" 0 m toLower] by (simp add: replaceShortCodes_def)

theorem replaceShortCodes_in_place_witness:
  "replaceShortCodes (loadEmojis [sample_emoji]) (\<lambda>s. s) (\<lambda>s. [(1, 7)]) (qs ''a:heart:b'') =
     replacedFrom (loadEmojis [sample_emoji]) (\<lambda>s. s) (qs ''a:heart:b'') 0 [(1, 7)]"
  by (rule replaceShortCodes_in_place) (simp add: qs_def)

end
