(* ===== verification/LinkParser.thy ===== *)
theory LinkParser
  imports StringHelpers
begin

text \<open>
  Recognising links in words: \<open>common/LinkParser.cpp\<close>.  A view over the source is the pair of its begin
  and end positions; the set of top level domains, a resource of the build, is a predicate.
\<close>

section \<open>Views\<close>

type_synonym view = "nat \<times> nat"

definition view_text :: "'a list \<Rightarrow> view \<Rightarrow> 'a list" where
  "view_text source v = mid source (fst v) (snd v - fst v)"

definition null_view :: view where
  "null_view = (0, 0)"

record Parsed =
  protocol :: view
  host :: view
  rest :: view
  link :: view

definition hasPrefix :: "Parsed \<Rightarrow> string \<Rightarrow> bool" where
  "hasPrefix p source = (fst (link p) \<noteq> 0)"

definition link_prefix :: "Parsed \<Rightarrow> string \<Rightarrow> view" where
  "link_prefix p source = (0, fst (link p))"

definition hasSuffix :: "Parsed \<Rightarrow> string \<Rightarrow> bool" where
  "hasSuffix p source = (snd (link p) \<noteq> length source)"

definition link_suffix :: "Parsed \<Rightarrow> string \<Rightarrow> view" where
  "link_suffix p source = (fst (link p) + (snd (link p) - fst (link p)), length source)"

section \<open>IPv4 addresses, ports, and the characters around a link\<close>

fun ipv4Loop :: "string \<Rightarrow> 16 word \<Rightarrow> 8 word \<Rightarrow> 8 word \<Rightarrow> bool \<Rightarrow> bool" where
  "ipv4Loop [] sectionValue octetNumber sectionDigits lastWasDot = (octetNumber = 3 \<and> \<not> lastWasDot)"
| "ipv4Loop (c # cs) sectionValue octetNumber sectionDigits lastWasDot =
     (if c = CHR ''.'' then
        if lastWasDot \<or> octetNumber = 3 then False
        else ipv4Loop cs 0 (octetNumber + 1) 0 True
      else if (of_char c :: nat) > of_char (CHR ''9'') \<or> (of_char c :: nat) < of_char (CHR ''0'') then False
      else
        let sectionValue' = sectionValue * 10 + (of_char c - of_char (CHR ''0''));
            sectionDigits' = sectionDigits + 1
        in if sectionValue' \<ge> 256 \<or> sectionDigits' > 3 then False
           else ipv4Loop cs sectionValue' octetNumber sectionDigits' False)"

definition isValidIpv4 :: "string \<Rightarrow> bool" where
  "isValidIpv4 h = ipv4Loop h 0 0 0 True"

text \<open>The loop over the first five characters; \<open>i\<close> counts them.\<close>

fun portLoop :: "qchar_api \<Rightarrow> string \<Rightarrow> nat \<Rightarrow> bool" where
  "portLoop Q [] i = True"
| "portLoop Q (c # cs) i =
     (if i \<ge> 5 then True
      else if i \<ge> 1 \<and> (c = CHR ''/'' \<or> c = CHR ''?'' \<or> c = CHR ''#'') then True
      else if \<not> qc_isDigit Q c then False
      else portLoop Q cs (Suc i))"

definition startsWithPort :: "qchar_api \<Rightarrow> string \<Rightarrow> bool" where
  "startsWithPort Q s = portLoop Q s 0"

definition strippedFirst :: "char \<Rightarrow> bool" where
  "strippedFirst c =
     (c = CHR ''<'' \<or> c = CHR ''*'' \<or> c = CHR ''_'' \<or> c = CHR ''~'' \<or> c = CHR ''('')"

definition strippedLast :: "char \<Rightarrow> bool" where
  "strippedLast c =
     (c = CHR ''>'' \<or> c = CHR ''?'' \<or> c = CHR ''!'' \<or> c = CHR ''.'' \<or> c = CHR '','' \<or>
      c = CHR '':'' \<or> c = CHR ''*'' \<or> c = CHR ''~'' \<or> c = CHR '')'')"

fun stripBegin :: "string \<Rightarrow> nat \<Rightarrow> nat" where
  "stripBegin [] b = b"
| "stripBegin (c # cs) b = (if strippedFirst c then stripBegin cs (Suc b) else b)"

function stripEnd :: "string \<Rightarrow> nat \<Rightarrow> nat \<Rightarrow> nat" where
  "stripEnd source b e =
     (if b < e \<and> strippedLast (source ! (e - 1)) then stripEnd source b (e - 1) else e)"
  by pat_completeness auto
termination by (relation "measure (\<lambda>(source, b, e). e)") auto

declare stripEnd.simps [simp del]

definition strip :: "string \<Rightarrow> view" where
  "strip source = (let b = stripBegin source 0 in (b, stripEnd source b (length source)))"

definition isValidDomainChar :: "char \<Rightarrow> bool" where
  "isValidDomainChar c =
     ((of_char c :: nat) \<ge> 0x80 \<or>
      of_char (CHR ''0'') \<le> (of_char c :: nat) \<and> (of_char c :: nat) \<le> of_char (CHR ''9'') \<or>
      of_char (CHR ''A'') \<le> (of_char c :: nat) \<and> (of_char c :: nat) \<le> of_char (CHR ''Z'') \<or>
      of_char (CHR ''a'') \<le> (of_char c :: nat) \<and> (of_char c :: nat) \<le> of_char (CHR ''z'') \<or>
      c = CHR ''_'' \<or> c = CHR ''-'' \<or> c = CHR ''.'')"

section \<open>Parsing\<close>

text \<open>The protocol: the position behind it, if the view starts with \<open>http://\<close> or \<open>https://\<close>.\<close>

definition findProtocol :: "string \<Rightarrow> view \<Rightarrow> nat option" where
  "findProtocol source v =
     (let remaining = view_text source v in
      if map ascii_lower (take 4 remaining) = ''http'' \<and> length remaining \<ge> 4 + 3 + 1 then
        let withProto = fst v + 4;
            withProto = (if source ! withProto = CHR ''s'' \<or> source ! withProto = CHR ''S''
                         then withProto + 1 else withProto)
        in if take 3 (view_text source (withProto, snd v)) = ''://'' then Some (withProto + 3) else None
      else None)"

record HostScan =
  hostLen :: nat
  hasRest :: bool
  lastWasDot :: bool
  lastDotPos :: int
  nDots :: nat

text \<open>The loop that extracts the host; \<open>None\<close> is the early return of no link.\<close>

function hostLoop :: "qchar_api \<Rightarrow> string \<Rightarrow> nat \<Rightarrow> bool \<Rightarrow> int \<Rightarrow> nat \<Rightarrow> HostScan option" where
  "hostLoop Q remaining i wasDot dotPos dots =
     (if i < length remaining then
        let currentChar = remaining ! i in
        if currentChar = CHR ''.'' \<and> wasDot then None
        else
          let (wasDot', dotPos', dots') =
                (if currentChar = CHR ''.'' then (True, int i, Suc dots) else (False, dotPos, dots));
              found = \<lparr>hostLen = i, hasRest = True, lastWasDot = wasDot', lastDotPos = dotPos', nDots = dots'\<rparr>
          in if currentChar = CHR '':'' then
               if \<not> startsWithPort Q (drop (Suc i) remaining) then None else Some found
             else if currentChar = CHR ''/'' \<or> currentChar = CHR ''?'' \<or> currentChar = CHR ''#'' then Some found
             else if \<not> isValidDomainChar currentChar then None
             else hostLoop Q remaining (Suc i) wasDot' dotPos' dots'
      else Some \<lparr>hostLen = length remaining, hasRest = False, lastWasDot = wasDot,
                 lastDotPos = dotPos, nDots = dots\<rparr>)"
  by pat_completeness auto
termination by (relation "measure (\<lambda>(Q, r, i, w, d, n). length r - i)") auto

declare hostLoop.simps [simp del]

text \<open>The scan for parentheses; \<open>it\<close> is the position in the source.\<close>

fun parenLoop :: "string \<Rightarrow> nat \<Rightarrow> nat \<Rightarrow> nat \<Rightarrow> nat" where
  "parenLoop [] it nestingLevel lastClose = lastClose"
| "parenLoop (c # cs) it nestingLevel lastClose =
     (if c = CHR ''('' then parenLoop cs (Suc it) (Suc nestingLevel) lastClose
      else if nestingLevel \<noteq> 0 \<and> c = CHR '')'' then
        parenLoop cs (Suc it) (nestingLevel - 1) (if nestingLevel - 1 = 0 then Suc it else lastClose)
      else parenLoop cs (Suc it) nestingLevel lastClose)"

definition parse :: "qchar_api \<Rightarrow> (string \<Rightarrow> bool) \<Rightarrow> string \<Rightarrow> Parsed option" where
  "parse Q isValidTld source =
     (let lnk = strip source;
          (remaining, proto) =
            (case findProtocol source lnk of
               Some r \<Rightarrow> ((r, snd lnk), (fst lnk, r))
             | None \<Rightarrow> (lnk, null_view))
      in case hostLoop Q (view_text source remaining) 0 True (-1) 0 of
           None \<Rightarrow> None
         | Some scan \<Rightarrow>
             let hst = (fst remaining, fst remaining + hostLen scan);
                 rst = (if hasRest scan then (fst remaining + hostLen scan, snd remaining) else null_view)
             in if lastWasDot scan \<or> lastDotPos scan \<le> 0 then None
                else if nDots scan = 3 \<and> isValidIpv4 (view_text source hst) \<or>
                        isValidTld (drop (nat (lastDotPos scan + 1)) (view_text source hst)) then
                  let lastClose = parenLoop (drop (fst rst) source) (fst rst) 0 (snd lnk);
                      (lnk', rst') =
                        (if snd lnk \<noteq> length source \<and> fst rst \<noteq> snd rst
                         then ((fst lnk, max (snd lnk) lastClose), (fst rst, max (snd rst) lastClose))
                         else (lnk, rst))
                  in Some \<lparr>protocol = proto, host = hst, rest = rst', link = lnk'\<rparr>
                else None)"

section \<open>What a parsed link looks like\<close>

lemma stripBegin_le: "b \<le> stripBegin s b \<and> stripBegin s b \<le> b + length s"
  by (induction s b rule: stripBegin.induct) auto

lemma stripEnd_bounds: "b \<le> e \<Longrightarrow> b \<le> stripEnd s b e \<and> stripEnd s b e \<le> e"
proof (induction s b e rule: stripEnd.induct)
  case (1 s b e)
  then show ?case by (subst (1 2) stripEnd.simps) (auto intro: le_trans [OF _ diff_le_self [of _ "Suc 0"]])
qed

lemma strip_bounds: "fst (strip s) \<le> snd (strip s)" "snd (strip s) \<le> length s"
  using stripBegin_le [of 0 s] stripEnd_bounds [of "stripBegin s 0" "length s" s]
  by (auto simp: strip_def Let_def)

lemma length_view_text: "snd v \<le> length s \<Longrightarrow> length (view_text s v) = snd v - fst v"
  by (simp add: view_text_def mid_def)

lemma view_text_append:
  "a \<le> b \<Longrightarrow> b \<le> c \<Longrightarrow> view_text s (a, b) @ view_text s (b, c) = view_text s (a, c)"
  using take_add [of "b - a" "c - b" "drop a s"] by (simp add: view_text_def mid_def)

lemma view_text_all: "view_text s (0, length s) = s"
  by (simp add: view_text_def mid_def)

lemma view_text_take: "a \<le> b \<Longrightarrow> b \<le> c \<Longrightarrow> view_text s (a, b) = take (b - a) (view_text s (a, c))"
  by (simp add: view_text_def mid_def)

definition is_protocol :: "string \<Rightarrow> bool" where
  "is_protocol p \<longleftrightarrow> map ascii_lower p \<in> {''http://'', ''https://''}"

lemma ascii_lower_s: "c = CHR ''s'' \<or> c = CHR ''S'' \<Longrightarrow> ascii_lower c = CHR ''s''"
  by (elim disjE; simp only:; code_simp)

lemma findProtocol_text:
  assumes "findProtocol s v = Some r" "snd v \<le> length s" "fst v \<le> snd v"
  shows "fst v \<le> r \<and> r \<le> snd v \<and> is_protocol (view_text s (fst v, r))"
proof -
  let ?t = "view_text s v"
  have h: "map ascii_lower (take 4 ?t) = ''http''" "length ?t \<ge> 8"
    using assms(1) by (auto simp: findProtocol_def Let_def split: if_splits)
  have len: "fst v + 8 \<le> snd v" using h(2) length_view_text [OF assms(2)] assms(3) by simp
  define w where "w = (if s ! (fst v + 4) = CHR ''s'' \<or> s ! (fst v + 4) = CHR ''S'' then fst v + 4 + 1 else fst v + 4)"
  have p: "take 3 (view_text s (w, snd v)) = ''://''" "r = w + 3"
    using assms(1) unfolding findProtocol_def Let_def w_def [symmetric] by (auto split: if_splits)
  have "length (take 3 (view_text s (w, snd v))) = 3" unfolding p(1) by simp
  then have "3 \<le> snd v - w" using length_view_text [of "(w, snd v)" s] assms(2) by simp
  then have r: "r \<le> snd v" using p(2) by simp
  have w: "fst v + 4 \<le> w" "w \<le> fst v + 5" by (simp_all add: w_def)
  have t4: "view_text s (fst v, fst v + 4) = take 4 ?t"
    using view_text_take [of "fst v" "fst v + 4" "snd v" s] len by simp
  have t3: "view_text s (w, r) = ''://''"
    using view_text_take [of w r "snd v" s] r p by simp
  have "view_text s (fst v, r) = view_text s (fst v, fst v + 4) @ view_text s (fst v + 4, w) @ view_text s (w, r)"
    using w p(2) by (simp add: view_text_append)
  moreover have "map ascii_lower (view_text s (fst v + 4, w)) \<in> {[], ''s''}"
  proof (cases "w = fst v + 4")
    case False
    then have "w = fst v + 5" "s ! (fst v + 4) = CHR ''s'' \<or> s ! (fst v + 4) = CHR ''S''"
      by (auto simp: w_def split: if_splits)
    moreover have "fst v + 4 < length s" using len assms(2) by simp
    ultimately show ?thesis
      by (simp add: view_text_def mid_def Cons_nth_drop_Suc [symmetric] ascii_lower_s)
  qed (simp add: view_text_def mid_def)
  ultimately have "is_protocol (view_text s (fst v, r))"
    unfolding is_protocol_def using h(1) t4 t3 by (auto simp: ascii_lower_def)
  then show ?thesis using r w p(2) by simp
qed

lemma hostLoop_end:
  "\<not> i < length s \<Longrightarrow> hostLoop Q s i wasDot dotPos dots =
    Some \<lparr>hostLen = length s, hasRest = False, lastWasDot = wasDot, lastDotPos = dotPos, nDots = dots\<rparr>"
  by (subst hostLoop.simps) simp

lemma hostLoop_delim:
  "i < length s \<Longrightarrow> s ! i \<in> set '':/?#'' \<Longrightarrow> hostLoop Q s i wasDot dotPos dots =
    (if s ! i = CHR '':'' \<and> \<not> startsWithPort Q (drop (Suc i) s) then None
     else Some \<lparr>hostLen = i, hasRest = True, lastWasDot = False, lastDotPos = dotPos, nDots = dots\<rparr>)"
  by (subst hostLoop.simps) auto

lemma hostLoop_char:
  "i < length s \<Longrightarrow> s ! i \<notin> set '':/?#'' \<Longrightarrow> hostLoop Q s i wasDot dotPos dots =
    (if s ! i = CHR ''.'' \<and> wasDot \<or> \<not> isValidDomainChar (s ! i) then None
     else hostLoop Q s (Suc i) (s ! i = CHR ''.'') (if s ! i = CHR ''.'' then int i else dotPos)
       (if s ! i = CHR ''.'' then Suc dots else dots))"
  by (subst hostLoop.simps) (simp add: Let_def split del: if_split, simp)

text \<open>What the loop keeps, and what its result satisfies.\<close>

definition scanned :: "string \<Rightarrow> nat \<Rightarrow> int \<Rightarrow> bool" where
  "scanned s i dotPos \<longleftrightarrow> i \<le> length s \<and> dotPos < int i \<and> (\<forall>j<i. isValidDomainChar (s ! j)) \<and>
     (0 \<le> dotPos \<longrightarrow> s ! nat dotPos = CHR ''.'')"

lemma hostLoop_scan:
  assumes "hostLoop Q s i wasDot dotPos dots = Some sc" "scanned s i dotPos"
  shows "scanned s (hostLen sc) (lastDotPos sc) \<and>
    (if hasRest sc then hostLen sc < length s \<and> s ! hostLen sc \<in> set '':/?#'' else hostLen sc = length s)"
  using assms
proof (induction "length s - i" arbitrary: i wasDot dotPos dots)
  case 0
  then have "i = length s" by (simp add: scanned_def)
  then show ?case using 0 by (auto simp: hostLoop_end)
next
  case (Suc m)
  then have i: "i < length s" by simp
  show ?case
  proof (cases "s ! i \<in> set '':/?#''")
    case True
    then show ?thesis using Suc.prems i by (auto simp: hostLoop_delim split: if_splits)
  next
    case False
    let ?d = "if s ! i = CHR ''.'' then int i else dotPos"
    have v: "isValidDomainChar (s ! i)" and r: "hostLoop Q s (Suc i) (s ! i = CHR ''.'') ?d
        (if s ! i = CHR ''.'' then Suc dots else dots) = Some sc"
      using Suc.prems(1) hostLoop_char [OF i False, of Q wasDot dotPos dots] by (auto split: if_splits)
    have "scanned s (Suc i) ?d" using v i Suc.prems(2) by (auto simp: scanned_def less_Suc_eq)
    then show ?thesis using Suc.hyps(2) by (intro Suc.hyps(1) [OF _ r]) simp_all
  qed
qed

lemma parenLoop_bounds:
  "lastClose \<le> it + length cs \<Longrightarrow> parenLoop cs it lvl lastClose \<le> it + length cs"
  by (induction cs it lvl lastClose rule: parenLoop.induct) auto

lemma parenLoop_ge: "lastClose \<le> parenLoop cs it lvl lastClose \<or> it \<le> parenLoop cs it lvl lastClose"
  by (induction cs it lvl lastClose rule: parenLoop.induct) auto

lemma view_text_nth: "i < snd v - fst v \<Longrightarrow> snd v \<le> length s \<Longrightarrow> view_text s v ! i = s ! (fst v + i)"
  by (simp add: view_text_def mid_def)

text \<open>The views of a parsed link, by their positions.\<close>

lemma parse_positions:
  assumes "parse Q isValidTld source = Some p"
  shows "\<exists>a r h e. protocol p \<in> {(a, r), null_view} \<and> (protocol p = null_view \<longrightarrow> r = a) \<and>
    host p = (r, h) \<and> rest p \<in> {(h, e), null_view} \<and> (rest p = null_view \<longrightarrow> e = h) \<and> link p = (a, e) \<and>
    a \<le> r \<and> r < h \<and> h \<le> e \<and> e \<le> length source \<and>
    (protocol p = (a, r) \<and> a < r \<longrightarrow> is_protocol (view_text source (a, r))) \<and>
    (\<forall>c\<in>set (view_text source (r, h)). isValidDomainChar c) \<and> CHR ''.'' \<in> set (view_text source (r, h)) \<and>
    (rest p \<noteq> null_view \<longrightarrow> source ! h \<in> set '':/?#'')"
proof -
  obtain a b where lk: "strip source = (a, b)" by (cases "strip source")
  have ab: "a \<le> b" "b \<le> length source" using strip_bounds [of source] by (simp_all add: lk)
  obtain r pr where rp: "(case findProtocol source (strip source) of Some r \<Rightarrow> ((r, b), (a, r)) | None \<Rightarrow> ((a, b), null_view))
      = ((r, b), pr)" and r: "a \<le> r" "r \<le> b"
      and pr: "pr \<in> {(a, r), null_view}" "pr = null_view \<longrightarrow> r = a" "pr = (a, r) \<and> a < r \<longrightarrow> is_protocol (view_text source (a, r))"
  proof (cases "findProtocol source (strip source)")
    case (Some r)
    then show ?thesis
      using findProtocol_text [OF Some] ab that [of r "(a, r)"] by (auto simp: lk null_view_def)
  next
    case None
    then show ?thesis using that [of a null_view] ab by (auto simp: null_view_def)
  qed
  let ?t = "view_text source (r, b)"
  obtain sc where sc: "hostLoop Q ?t 0 True (-1) 0 = Some sc" and ld: "0 < lastDotPos sc"
    using assms rp by (auto simp: parse_def lk Let_def split: option.splits if_splits)
  have scn: "scanned ?t (hostLen sc) (lastDotPos sc)"
      "if hasRest sc then hostLen sc < length ?t \<and> ?t ! hostLen sc \<in> set '':/?#'' else hostLen sc = length ?t"
    using hostLoop_scan [OF sc] by (auto simp: scanned_def)
  have len: "length ?t = b - r" using ab by (simp add: length_view_text)
  define h where "h = r + hostLen sc"
  have hb: "h \<le> b" "hostLen sc \<le> b - r" using scn(1) r unfolding scanned_def len h_def by auto
  have hl: "0 < hostLen sc" "nat (lastDotPos sc) < hostLen sc" using scn(1) ld by (auto simp: scanned_def)
  have ht: "view_text source (r, h) = take (hostLen sc) ?t"
    using view_text_take [of r h b source] hb by (simp add: h_def)
  have dom: "\<forall>c\<in>set (view_text source (r, h)). isValidDomainChar c"
    using scn(1) hb(2) len unfolding ht scanned_def by (auto simp: in_set_conv_nth)
  have dot: "CHR ''.'' \<in> set (view_text source (r, h))"
    using scn(1) ld hl(2) len hb(2) unfolding ht scanned_def
    by (auto simp: in_set_conv_nth intro!: exI [of _ "nat (lastDotPos sc)"])
  define rst where "rst = (if hasRest sc then (h, b) else null_view)"
  have rst: "hasRest sc \<Longrightarrow> h < b \<and> source ! h \<in> set '':/?#''" "\<not> hasRest sc \<Longrightarrow> h = b"
    using scn(2) view_text_nth [of "hostLen sc" "(r, b)" source] ab r hb unfolding len
    by (auto simp: h_def)
  define lc where "lc = parenLoop (drop (fst rst) source) (fst rst) 0 b"
  have lc: "lc \<le> length source"
    using parenLoop_bounds [of b "fst rst" "drop (fst rst) source" 0] ab hb r
    by (auto simp: lc_def rst_def null_view_def)
  define e where "e = (if b \<noteq> length source \<and> fst rst \<noteq> snd rst then max b lc else b)"
  have p: "p = \<lparr>protocol = pr, host = (r, h), rest = (if hasRest sc then (h, e) else null_view), link = (a, e)\<rparr>"
    using assms rp sc
    by (auto simp: parse_def lk Let_def e_def lc_def rst_def h_def null_view_def
        split: option.splits if_splits)
  show ?thesis
  proof (intro exI conjI)
    show "protocol p \<in> {(a, r), null_view}" "protocol p = null_view \<longrightarrow> r = a" using pr by (simp_all add: p)
    show "host p = (r, h)" "link p = (a, e)" by (simp_all add: p)
    show "rest p \<in> {(h, e), null_view}" by (simp add: p)
    show "rest p = null_view \<longrightarrow> e = h" using rst hl(1) by (auto simp: p e_def rst_def null_view_def h_def)
    show "a \<le> r" "r < h" using r hl by (simp_all add: h_def)
    show "h \<le> e" "e \<le> length source" using hb ab lc by (auto simp: e_def)
    show "protocol p = (a, r) \<and> a < r \<longrightarrow> is_protocol (view_text source (a, r))" using pr(3) by (simp add: p)
    show "\<forall>c\<in>set (view_text source (r, h)). isValidDomainChar c" by (rule dom)
    show "CHR ''.'' \<in> set (view_text source (r, h))" by (rule dot)
    show "rest p \<noteq> null_view \<longrightarrow> source ! h \<in> set '':/?#''" using rst(1) by (simp add: p)
  qed
qed

text \<open>
  What \<open>parse\<close> finds lies side by side in the word: the word is prefix, link and suffix, and the
  link is protocol, host and rest.  The host is not empty, consists of valid characters and contains a dot,
  the protocol is empty, \<open>http://\<close> or \<open>https://\<close> in any case, and the rest is empty or starts with one of
  \<open>:\<close>, \<open>/\<close>, \<open>?\<close> and \<open>#\<close>.\<close>

theorem parse_segments:
  assumes "parse Q isValidTld source = Some p"
  shows "view_text source (link_prefix p source) @ view_text source (link p) @ view_text source (link_suffix p source) = source
    \<and> view_text source (link p) =
        view_text source (protocol p) @ view_text source (host p) @ view_text source (rest p)
    \<and> (view_text source (protocol p) = [] \<or> is_protocol (view_text source (protocol p)))
    \<and> list_all isValidDomainChar (view_text source (host p)) \<and> CHR ''.'' \<in> set (view_text source (host p))
    \<and> (view_text source (rest p) = [] \<or> hd (view_text source (rest p)) \<in> set '':/?#'')"
proof -
  obtain a r h e where v: "protocol p \<in> {(a, r), null_view}" "protocol p = null_view \<longrightarrow> r = a"
      "host p = (r, h)" "rest p \<in> {(h, e), null_view}" "rest p = null_view \<longrightarrow> e = h" "link p = (a, e)"
    and b: "a \<le> r" "r < h" "h \<le> e" "e \<le> length source"
    and t: "protocol p = (a, r) \<and> a < r \<longrightarrow> is_protocol (view_text source (a, r))"
      "\<forall>c\<in>set (view_text source (r, h)). isValidDomainChar c" "CHR ''.'' \<in> set (view_text source (r, h))"
      "rest p \<noteq> null_view \<longrightarrow> source ! h \<in> set '':/?#''"
    using parse_positions [OF assms] by blast
  have nil: "view_text source (i, i) = []" for i by (simp add: view_text_def mid_def)
  have pt: "view_text source (protocol p) = view_text source (a, r)"
    using v(1,2) nil nil [of 0] by (auto simp: null_view_def)
  have rt: "view_text source (rest p) = view_text source (h, e)"
    using v(4,5) nil nil [of 0] by (auto simp: null_view_def)
  show ?thesis
  proof (intro conjI)
    show "view_text source (link_prefix p source) @ view_text source (link p) @ view_text source (link_suffix p source) = source"
      using b by (simp add: link_prefix_def link_suffix_def v(6) view_text_append view_text_all)
    show "view_text source (link p) = view_text source (protocol p) @ view_text source (host p) @ view_text source (rest p)"
      using b by (simp add: pt rt v(3,6) view_text_append)
    show "view_text source (protocol p) = [] \<or> is_protocol (view_text source (protocol p))"
      unfolding pt using t(1) v(1,2) b nil [of a] by (cases "a = r") auto
    show "view_text source (rest p) = [] \<or> hd (view_text source (rest p)) \<in> set '':/?#''"
    proof (cases "h = e")
      case False
      then have "view_text source (h, e) ! 0 = source ! h" "length (view_text source (h, e)) = e - h"
        using b by (simp_all add: view_text_nth length_view_text)
      moreover have "rest p \<noteq> null_view" using v(5) False by blast
      ultimately show ?thesis using t(4) False b by (auto simp: rt hd_conv_nth)
    qed (simp add: rt nil)
  qed (use t(2,3) in \<open>simp_all add: v(3) list_all_iff\<close>)
qed

section \<open>IPv4 addresses by their sections\<close>

definition octet_ok :: "string \<Rightarrow> bool" where
  "octet_ok w \<longleftrightarrow> w \<noteq> [] \<and> length w \<le> 3 \<and> list_all is_digit w \<and> read_nat w < 256"

lemma read_nat_snoc: "read_nat (w @ [c]) = 10 * read_nat w + (of_char c - 48)"
  by (simp add: read_nat_def)

lemma read_nat_mono: "read_nat w \<le> read_nat (w @ x)"
proof (induction x rule: rev_induct)
  case (snoc c x)
  then show ?case using read_nat_snoc [of "w @ x" c] by simp
qed simp

lemma octet_ok_prefix: "octet_ok (w @ x) \<Longrightarrow> w \<noteq> [] \<Longrightarrow> octet_ok w"
  using read_nat_mono [of w x] by (auto simp: octet_ok_def)

lemma octet_words:
  assumes "w = [] \<or> octet_ok w" "is_digit c"
  shows "(word_of_nat (read_nat w) :: 16 word) * 10 + (of_char c - of_char (CHR ''0'')) =
      word_of_nat (read_nat (w @ [c]))"
    and "(word_of_nat (read_nat (w @ [c])) :: 16 word) \<ge> 256 \<longleftrightarrow> \<not> read_nat (w @ [c]) < 256"
    and "(word_of_nat (length w) :: 8 word) + 1 > 3 \<longleftrightarrow> \<not> length (w @ [c]) \<le> 3"
proof -
  have c: "48 \<le> (of_char c :: nat)" "(of_char c :: nat) \<le> 57" using assms(2) by (simp_all add: is_digit_def)
  have w: "read_nat w < 256" "length w \<le> 3" using assms(1) by (auto simp: octet_ok_def read_nat_def)
  have "of_char c - of_char (CHR ''0'') = (word_of_nat ((of_char c :: nat) - 48) :: 16 word)"
    using c by (simp add: of_nat_diff of_nat_of_char)
  then show "(word_of_nat (read_nat w) :: 16 word) * 10 + (of_char c - of_char (CHR ''0'')) =
      word_of_nat (read_nat (w @ [c]))"
    unfolding read_nat_snoc by (simp add: mult.commute)
  have b: "read_nat (w @ [c]) < 65536" using w c unfolding read_nat_snoc by simp
  then have u: "unat (word_of_nat (read_nat (w @ [c])) :: 16 word) = read_nat (w @ [c])"
    by (simp add: unat_of_nat)
  show "(word_of_nat (read_nat (w @ [c])) :: 16 word) \<ge> 256 \<longleftrightarrow> \<not> read_nat (w @ [c]) < 256"
    unfolding word_le_nat_alt u by (simp add: not_less)
  have "length w = 0 \<or> length w = 1 \<or> length w = 2 \<or> length w = 3" using w(2) by linarith
  then show "(word_of_nat (length w) :: 8 word) + 1 > 3 \<longleftrightarrow> \<not> length (w @ [c]) \<le> 3" by auto
qed

lemma ipv4Loop_sections:
  assumes "w = [] \<or> octet_ok w" "oct \<le> 3"
  shows "ipv4Loop cs (word_of_nat (read_nat w)) (word_of_nat oct) (word_of_nat (length w)) (w = []) \<longleftrightarrow>
    oct + length (splitOn (CHR ''.'') cs) = 4 \<and> octet_ok (w @ hd (splitOn (CHR ''.'') cs)) \<and>
    (\<forall>sec\<in>set (tl (splitOn (CHR ''.'') cs)). octet_ok sec)"
  using assms
proof (induction cs arbitrary: w oct)
  case Nil
  have "(word_of_nat oct :: 8 word) = 3 \<longleftrightarrow> oct = 3"
    using Nil.prems(2) by (cases "oct \<in> {0, 1, 2, 3}") auto
  then show ?case using Nil.prems by (auto simp: octet_ok_def)
next
  case (Cons c cs)
  have ne: "splitOn (CHR ''.'') cs \<noteq> []" by simp
  show ?case
  proof (cases "c = CHR ''.''")
    case True
    have o: "(word_of_nat oct :: 8 word) = 3 \<longleftrightarrow> oct = 3"
      using Cons.prems(2) by (cases "oct \<in> {0, 1, 2, 3}") auto
    show ?thesis
    proof (cases "w = [] \<or> oct = 3")
      case True
      then show ?thesis using \<open>c = CHR ''.''\<close> o ne by (auto simp: octet_ok_def)
    next
      case False
      then have "ipv4Loop cs (word_of_nat (read_nat [])) (word_of_nat (Suc oct)) (word_of_nat (length ([] :: string))) (([] :: string) = []) \<longleftrightarrow>
          Suc oct + length (splitOn (CHR ''.'') cs) = 4 \<and> octet_ok ([] @ hd (splitOn (CHR ''.'') cs)) \<and>
          (\<forall>sec\<in>set (tl (splitOn (CHR ''.'') cs)). octet_ok sec)"
        using Cons.prems by (intro Cons.IH) auto
      moreover have "(\<forall>sec\<in>set (splitOn (CHR ''.'') cs). octet_ok sec) \<longleftrightarrow>
          octet_ok (hd (splitOn (CHR ''.'') cs)) \<and> (\<forall>sec\<in>set (tl (splitOn (CHR ''.'') cs)). octet_ok sec)"
        using ne by (cases "splitOn (CHR ''.'') cs") auto
      ultimately show ?thesis using \<open>c = CHR ''.''\<close> o False Cons.prems(1)
        by (simp add: read_nat_def add.commute)
    qed
  next
    case False
    show ?thesis
    proof (cases "is_digit c")
      case nd: False
      then show ?thesis using False by (auto simp: is_digit_def octet_ok_def)
    next
      case d: True
      note ow = octet_words [OF Cons.prems(1) d]
      have dc: "\<not> ((of_char c :: nat) > of_char (CHR ''9'') \<or> (of_char c :: nat) < of_char (CHR ''0''))"
        using d by (simp add: is_digit_def)
      have ok: "octet_ok (w @ [c]) \<longleftrightarrow> read_nat (w @ [c]) < 256 \<and> length (w @ [c]) \<le> 3"
        using d Cons.prems(1) by (auto simp: octet_ok_def)
      have "ipv4Loop (c # cs) (word_of_nat (read_nat w)) (word_of_nat oct) (word_of_nat (length w)) (w = []) \<longleftrightarrow>
          octet_ok (w @ [c]) \<and>
          ipv4Loop cs (word_of_nat (read_nat (w @ [c]))) (word_of_nat oct) (word_of_nat (length (w @ [c]))) (w @ [c] = [])"
      proof -
        have l: "(word_of_nat (length (w @ [c])) :: 8 word) = word_of_nat (length w) + 1" by simp
        show ?thesis
          unfolding ipv4Loop.simps Let_def ow ok l if_not_P [OF False] if_not_P [OF dc]
          by (cases "read_nat (w @ [c]) < 256"; cases "length (w @ [c]) \<le> 3") simp_all
      qed
      then show ?thesis
        using Cons.IH [of "w @ [c]" oct] Cons.prems(2) False octet_ok_prefix [of "w @ [c]"] by auto
    qed
  qed
qed

text \<open>
  The single pass of \<open>isValidIpv4\<close>, with its 16-bit section value and 8-bit counters, accepts
  exactly the texts whose sections between dots are four numbers of one to three digits below 256.\<close>

theorem isValidIpv4_sections:
  "isValidIpv4 h \<longleftrightarrow> length (splitOn (CHR ''.'') h) = 4 \<and> list_all octet_ok (splitOn (CHR ''.'') h)"
proof -
  have "list_all octet_ok (splitOn (CHR ''.'') h) \<longleftrightarrow>
      octet_ok (hd (splitOn (CHR ''.'') h)) \<and> (\<forall>sec\<in>set (tl (splitOn (CHR ''.'') h)). octet_ok sec)"
    using splitOn_ne [of "CHR ''.''" h] by (cases "splitOn (CHR ''.'') h") (auto simp: list_all_iff)
  then show ?thesis using ipv4Loop_sections [of "[]" 0 h] by (simp add: isValidIpv4_def read_nat_def)
qed

lemma sample_link:
  "parse sample_qchar (\<lambda>t. t = ''com'') ''(https://a.com/b(c))'' =
     Some \<lparr>protocol = (1, 9), host = (9, 14), rest = (14, 19), link = (1, 19)\<rparr>"
  by code_simp

theorem parse_segments_witness:
  "view_text ''(https://a.com/b(c))'' (1, 19) =
    view_text ''(https://a.com/b(c))'' (1, 9) @ view_text ''(https://a.com/b(c))'' (9, 14) @
    view_text ''(https://a.com/b(c))'' (14, 19)"
  using parse_segments [OF sample_link] by simp

section \<open>Ports\<close>

text \<open>Only the first five characters of a port are looked at: after five digits anything is accepted,
  although a port is to be followed by a slash, a question mark or a hash sign.\<close>

lemma startsWithPort_five_digits:
  assumes "length ds = 5" "\<forall>c\<in>set ds. qc_isDigit Q c \<and> c \<notin> set ''/?#''"
  shows "startsWithPort Q (ds @ s)"
proof -
  obtain a b c d e where ds: "ds = [a, b, c, d, e]"
    using assms(1) by (auto simp: length_Suc_conv numeral_eq_Suc)
  have "portLoop Q s 5" by (cases s) auto
  then show ?thesis using assms(2) by (simp add: startsWithPort_def ds eval_nat_numeral)
qed

lemma sample_long_port:
  "parse sample_qchar (\<lambda>t. t = ''com'') ''a.com:12345x'' =
     Some \<lparr>protocol = null_view, host = (0, 5), rest = (5, 12), link = (0, 12)\<rparr>"
  by code_simp

end
