(* ===== verification/Search.thy ===== *)
theory Search
  imports ChannelProps LinkParser
begin

text \<open>
  Searching messages: the predicates of \<open>messages/search\<close>, their parsing and the filtering of a channel in
  \<open>widgets/helper/SearchPopup.cpp\<close>.  The matches of the regular expression that splits the search text,
  matching without regard to case, and the versions of a message's badges are the parameter \<open>search_api\<close>.
\<close>

section \<open>Parameters\<close>

text \<open>One match of the splitting expression: the whole match and its named groups, empty if unset.\<close>

record predicate_match =
  pm_captured :: string
  pm_negation :: string
  pm_name :: string
  pm_value :: string

record 'c search_api =
  se_qchar :: qchar_api
  se_isValidTld :: "string \<Rightarrow> bool"
  se_compareCI :: "string \<Rightarrow> string \<Rightarrow> bool"
  se_containsCI :: "string \<Rightarrow> string \<Rightarrow> bool"
  se_reMatch :: "string \<Rightarrow> string \<Rightarrow> bool option"
  se_globalMatch :: "string \<Rightarrow> predicate_match list"
  se_badges :: "'c Message \<Rightarrow> (string \<times> string) list"

section \<open>Predicates\<close>

datatype predicate =
    AuthorPredicate "string list"
  | BadgePredicate "string list"
  | SubtierPredicate "string list"
  | LinkPredicate
  | ChannelPredicate "string list"
  | MessageFlagsPredicate flag_set
  | RegexPredicate string
  | SubstringPredicate string

record MessagePredicate =
  mp_predicate :: predicate
  isNegated :: bool

text \<open>\<open>split(c, Qt::SkipEmptyParts)\<close>.\<close>

definition split_skip :: "char \<Rightarrow> string \<Rightarrow> string list" where
  "split_skip c s = filter (\<lambda>w. w \<noteq> []) (splitOn c s)"

definition make_BadgePredicate :: "'c search_api \<Rightarrow> string \<Rightarrow> predicate" where
  "make_BadgePredicate api bs =
     BadgePredicate (map (\<lambda>badge.
       if se_compareCI api badge ''mod'' then ''moderator''
       else if se_compareCI api badge ''sub'' then ''subscriber''
       else if se_compareCI api badge ''prime'' then ''premium''
       else badge) (split_skip (CHR '','') bs))"

definition flags_named :: "string \<Rightarrow> MessageFlag list" where
  "flags_named flag =
     (if flag = ''deleted'' \<or> flag = ''disabled'' then [Disabled]
      else if flag = ''sub'' \<or> flag = ''subscription'' then [Subscription]
      else if flag = ''timeout'' \<or> flag = ''ban'' then [Timeout]
      else if flag = ''highlighted'' then [Highlighted]
      else if flag = ''system'' then [System]
      else if flag = ''first-msg'' then [FirstMessage]
      else if flag = ''elevated-msg'' \<or> flag = ''hype-chat'' then [ElevatedMessage]
      else if flag = ''cheer-msg'' then [CheerMessage]
      else if flag = ''redemption'' then [RedeemedChannelPointReward, RedeemedHighlight]
      else if flag = ''reply'' then [ReplyMessage]
      else if flag = ''restricted'' then [RestrictedMessage]
      else if flag = ''monitored'' then [MonitoredMessage]
      else if flag = ''shared'' then [SharedMessage]
      else [])"

definition make_MessageFlagsPredicate :: "string \<Rightarrow> predicate" where
  "make_MessageFlagsPredicate s =
     MessageFlagsPredicate (foldl (\<lambda>fs flag. foldl (\<lambda>fs f. flags_set fs (flag_value f)) fs (flags_named flag)) 0
       (split_skip (CHR '','') s))"

fun appliesToImpl :: "'c search_api \<Rightarrow> predicate \<Rightarrow> 'c Message \<Rightarrow> bool" where
  "appliesToImpl api (AuthorPredicate authors) message =
     (list_ex (\<lambda>a. se_compareCI api a (displayName message)) authors \<or>
      list_ex (\<lambda>a. se_compareCI api a (loginName message)) authors)"
| "appliesToImpl api (BadgePredicate bs) message =
     list_ex (\<lambda>badge. list_ex (\<lambda>b. se_compareCI api b (fst badge)) bs) (se_badges api message)"
| "appliesToImpl api (SubtierPredicate subtiers) message =
     (case find (\<lambda>badge. fst badge = ''subscriber'') (se_badges api message) of
        None \<Rightarrow> False
      | Some badge \<Rightarrow>
          let subTier = (if length (snd badge) > 3 then hd (snd badge) else CHR ''1'')
          in [subTier] \<in> set subtiers)"
| "appliesToImpl api LinkPredicate message =
     list_ex (\<lambda>word. parse (se_qchar api) (se_isValidTld api) word \<noteq> None)
       (split_skip (CHR '' '') (messageText message))"
| "appliesToImpl api (ChannelPredicate channels) message =
     list_ex (\<lambda>c. se_compareCI api c (channelName message)) channels"
| "appliesToImpl api (MessageFlagsPredicate fs) message =
     (if has fs System \<and> \<not> has fs Timeout
      then hasAny (flags message) fs \<and> \<not> has (flags message) Timeout
      else hasAny (flags message) fs)"
| "appliesToImpl api (RegexPredicate regex) message =
     (case se_reMatch api regex (messageText message) of None \<Rightarrow> False | Some r \<Rightarrow> r)"
| "appliesToImpl api (SubstringPredicate search) message = se_containsCI api (searchText message) search"

definition appliesTo :: "'c search_api \<Rightarrow> MessagePredicate \<Rightarrow> 'c Message \<Rightarrow> bool" where
  "appliesTo api p message =
     (let result = appliesToImpl api (mp_predicate p) message in if isNegated p then \<not> result else result)"

section \<open>Parsing the search text\<close>

text \<open>One quotation mark at the begin and one at the end are removed.\<close>

definition trimQuotationMarks :: "string \<Rightarrow> string" where
  "trimQuotationMarks s =
     (let s = (if s \<noteq> [] \<and> hd s = CHR 0x22 then tl s else s)
      in if s \<noteq> [] \<and> last s = CHR 0x22 then butlast s else s)"

definition parsePredicate :: "'c search_api \<Rightarrow> predicate_match \<Rightarrow> MessagePredicate" where
  "parsePredicate api mt =
     (let name = pm_name mt; neg = (pm_negation mt \<noteq> []); value = trimQuotationMarks (pm_value mt) in
      if name = ''from'' then \<lparr>mp_predicate = AuthorPredicate (split_skip (CHR '','') value), isNegated = neg\<rparr>
      else if name = ''badge'' then \<lparr>mp_predicate = make_BadgePredicate api value, isNegated = neg\<rparr>
      else if name = ''subtier'' then \<lparr>mp_predicate = SubtierPredicate (split_skip (CHR '','') value), isNegated = neg\<rparr>
      else if name = ''has'' \<and> value = ''link'' then \<lparr>mp_predicate = LinkPredicate, isNegated = neg\<rparr>
      else if name = ''in'' then \<lparr>mp_predicate = ChannelPredicate (split_skip (CHR '','') value), isNegated = neg\<rparr>
      else if name = ''is'' then \<lparr>mp_predicate = make_MessageFlagsPredicate value, isNegated = neg\<rparr>
      else if name = ''regex'' then \<lparr>mp_predicate = RegexPredicate value, isNegated = neg\<rparr>
      else \<lparr>mp_predicate = SubstringPredicate (pm_captured mt), isNegated = False\<rparr>)"

definition parsePredicates :: "'c search_api \<Rightarrow> string \<Rightarrow> MessagePredicate list" where
  "parsePredicates api input = map (parsePredicate api) (se_globalMatch api input)"

section \<open>Filtering a channel\<close>

fun acceptLoop :: "'c search_api \<Rightarrow> MessagePredicate list \<Rightarrow> 'c Message \<Rightarrow> bool" where
  "acceptLoop api [] message = True"
| "acceptLoop api (pred # preds) message = (if \<not> appliesTo api pred message then False else acceptLoop api preds message)"

text \<open>\<open>w\<close> starts as the new channel; the snapshot holds pointers into the same heap.\<close>

definition search_filter ::
  "'c search_api \<Rightarrow> MessagePtr circular_buffer \<Rightarrow> nat \<Rightarrow> string \<Rightarrow> string \<Rightarrow> MessagePtr list \<Rightarrow> 'c heap \<Rightarrow> 'c Channel" where
  "search_filter api cb scrollbackSplitLimit text chan snapshot h =
     (let predicates = parsePredicates api text in
      foldl (\<lambda>w message.
          if acceptLoop api predicates (deref w message)
          then let overrideFlags = flags_set (flags (deref w message)) (flag_value DoNotLog)
               in ch_addMessage message Repost (Some overrideFlags) w
          else w) (Channel cb scrollbackSplitLimit chan NoneType h) snapshot)"

lemma acceptLoop_all: "acceptLoop api preds message \<longleftrightarrow> list_all (\<lambda>p. appliesTo api p message) preds"
  by (induction preds) auto

lemma lastN_lastN_append: "lastN n (lastN n xs @ ys) = lastN n (xs @ ys)"
  by (cases "length xs \<le> n") (simp_all add: lastN_def add.commute)

lemma search_loop:
  assumes "lq_wf (ch_messages w)" "0 < lq_limit (ch_messages w)"
  shows "let w' = foldl (\<lambda>w message.
          if acceptLoop api preds (deref w message)
          then let overrideFlags = flags_set (flags (deref w message)) (flag_value DoNotLog)
               in ch_addMessage message Repost (Some overrideFlags) w
          else w) w snapshot
    in ch_contents w' = lastN (lq_limit (ch_messages w))
          (ch_contents w @ filter (\<lambda>p. acceptLoop api preds (deref w p)) snapshot) \<and>
       ch_logged w' = ch_logged w \<and> ch_faulted w' = ch_faulted w"
  using assms
proof (induction snapshot arbitrary: w)
  case Nil
  then show ?case by (simp add: lq_wf_def)
next
  case (Cons p snapshot)
  show ?case
  proof (cases "acceptLoop api preds (deref w p)")
    case False
    then show ?thesis using Cons by simp
  next
    case True
    define fs where "fs = Some (flags_set (flags (deref w p)) (flag_value DoNotLog))"
    define w1 where "w1 = ch_addMessage p Repost fs w"
    note g = ch_addMessage_good [OF Cons.prems, of p Repost fs, folded w1_def]
    have logged: "ch_logged w1 = ch_logged w"
      by (simp add: w1_def ch_addMessage_def Let_def emit_def split: option.splits prod.splits)
    have "lq_wf (ch_messages w1)" "0 < lq_limit (ch_messages w1)"
      using Cons.prems by (simp_all add: g(1) lq_wf_def)
    from Cons.IH [OF this] have "let w' = foldl (\<lambda>w message.
          if acceptLoop api preds (deref w message)
          then let overrideFlags = flags_set (flags (deref w message)) (flag_value DoNotLog)
               in ch_addMessage message Repost (Some overrideFlags) w
          else w) w1 snapshot
      in ch_contents w' = lastN (lq_limit (ch_messages w))
          (lastN (lq_limit (ch_messages w)) (ch_contents w @ [p]) @ filter (\<lambda>p. acceptLoop api preds (deref w p)) snapshot) \<and>
        ch_logged w' = ch_logged w \<and> ch_faulted w' = ch_faulted w"
      by (simp add: g logged deref_def)
    then show ?thesis using True by (simp add: lastN_lastN_append Let_def fs_def [symmetric] w1_def [symmetric])
  qed
qed

text \<open>
  C33. A search shows, in order and up to the limit of a channel, exactly the messages of the snapshot that
  satisfy every predicate of the search text; none of them is logged again.\<close>

theorem search_filter_result:
  assumes "circular_buffer_laws cb" "0 < limit"
  shows "let w = search_filter api cb limit text chan snapshot h in
    ch_contents w = lastN limit
      (filter (\<lambda>p. list_all (\<lambda>pred. appliesTo api pred (deref h p)) (parsePredicates api text)) snapshot) \<and>
    ch_logged w = [] \<and> \<not> ch_faulted w"
proof -
  let ?w = "Channel cb limit chan NoneType h"
  have w: "ch_messages ?w = LimitedQueue cb limit" "ch_logged ?w = []" "\<not> ch_faulted ?w" "deref ?w p = deref h p" for p
    by (simp_all add: Channel_def Let_def deref_def)
  have "lq_wf (ch_messages ?w)" "0 < lq_limit (ch_messages ?w)"
    using assms by (simp_all add: w lq_wf_LimitedQueue) (simp add: LimitedQueue_def)
  from search_loop [OF this, of api "parsePredicates api text" snapshot] show ?thesis
    by (simp add: search_filter_def Let_def w acceptLoop_all) (simp add: LimitedQueue_def)
qed

definition sample_search :: "unit search_api" where
  "sample_search = \<lparr>se_qchar = sample_qchar, se_isValidTld = (\<lambda>t. t = ''com''), se_compareCI = (=),
     se_containsCI = (=), se_reMatch = (\<lambda>r s. Some (r = s)),
     se_globalMatch = (\<lambda>s. [\<lparr>pm_captured = s, pm_negation = ''!'', pm_name = ''from'', pm_value = s\<rparr>]),
     se_badges = (\<lambda>m. [])\<rparr>"

theorem search_filter_result_witness:
  "ch_contents (search_filter sample_search list_circular_buffer 4 ''a'' [] [0, 1]
     \<lparr>msgs = [chat_message [] ''a'' [] 0, chat_message [] ''b'' [] 0]\<rparr>) = [1]"
  using search_filter_result [OF list_circular_buffer_laws, of 4 sample_search "''a''" "[]" "[0, 1]"
      "\<lparr>msgs = [chat_message [] ''a'' [] 0, chat_message [] ''b'' [] 0]\<rparr>"]
  by (simp add: Let_def parsePredicates_def parsePredicate_def sample_search_def trimQuotationMarks_def
      split_skip_def appliesTo_def deref_def chat_message_def new_message_def)

section \<open>Flags\<close>

lemma bit_make_flags:
  "bit (foldl (\<lambda>fs flag. foldl (\<lambda>fs f. flags_set fs (flag_value f)) fs (flags_named flag)) v ws) n \<longleftrightarrow>
    bit v n \<or> (\<exists>w\<in>set ws. \<exists>f\<in>set (flags_named w). bit (flag_value f) n)"
proof -
  have "bit (foldl (\<lambda>fs f. flags_set fs (flag_value f)) v fs) n \<longleftrightarrow> bit v n \<or> (\<exists>f\<in>set fs. bit (flag_value f) n)" for v fs
    by (induction fs arbitrary: v) (auto simp: bit_flags_set)
  then show ?thesis by (induction ws arbitrary: v) auto
qed

text \<open>\<open>is:system\<close> alone leaves out timeouts.\<close>

lemma is_system_excludes_timeouts:
  "appliesToImpl api (make_MessageFlagsPredicate ''system'') message \<longleftrightarrow>
    has (flags message) System \<and> \<not> has (flags message) Timeout"
proof -
  have "make_MessageFlagsPredicate ''system'' = MessageFlagsPredicate (flag_value System)"
    by (simp add: make_MessageFlagsPredicate_def split_skip_def flags_named_def flags_set_def)
  then show ?thesis by (simp add: has_def hasAny_def flag_value_def)
qed

end
