(* ===== verification/LiveController.thy ===== *)
theory LiveController
  imports StringHelpers "HOL-Library.List_Lexorder" "HOL-Library.Char_ord"
begin

text \<open>
  The live status of channels: \<open>controllers/twitch/LiveController.cpp\<close> as a state machine.  Its events are
  the calls of \<open>add\<close>, the two timers, the replies of the Twitch API to the batched requests, and the
  destruction of channels.  The iteration order of the hash containers is the parameter \<open>order\<close>.
\<close>

section \<open>State\<close>

record ChannelEntry =
  ce_ptr :: nat
  wasChecked :: bool

datatype lc_request = FetchStreams "string list" | FetchChannels "string list"

text \<open>What the controller does to a channel: its stream status, with whether it is the first one, its title
  and display name.\<close>

datatype 's lc_update =
    UpdateStreamStatus nat "'s option" bool
  | UpdateStreamTitle nat string
  | UpdateDisplayName nat string

text \<open>\<open>lc_alive\<close> are the channels that exist, \<open>lc_outstanding\<close> the requests without a reply, \<open>lc_failed\<close>
  holds the ids of failed requests that were not requested or added again since.\<close>

record 's LiveController =
  lc_channels :: "string \<rightharpoonup> ChannelEntry"
  lc_immediate :: "string set"
  lc_alive :: "nat set"
  lc_outstanding :: "lc_request list"
  lc_updates :: "'s lc_update list"
  lc_failed :: "string set"

definition BATCH_SIZE :: nat where
  "BATCH_SIZE = 100"

definition order_law :: "(string set \<Rightarrow> string list) \<Rightarrow> bool" where
  "order_law order \<longleftrightarrow> (\<forall>S. finite S \<longrightarrow> set (order S) = S \<and> distinct (order S))"

section \<open>Operations\<close>

definition lc_init :: "'s LiveController" where
  "lc_init = \<lparr>lc_channels = Map.empty, lc_immediate = {}, lc_alive = {}, lc_outstanding = [],
     lc_updates = [], lc_failed = {}\<rparr>"

text \<open>\<open>add\<close> asserts that the channel has an id.  Its two sections, which are locked one after the other, are one step:
  no other event touches both containers, so an event between the two has the effect it has before or after.\<close>

definition lc_add :: "string \<Rightarrow> nat \<Rightarrow> 's LiveController \<Rightarrow> 's LiveController option" where
  "lc_add channelID p s =
     (if channelID = [] then None
      else Some (s\<lparr>lc_channels := (lc_channels s)(channelID \<mapsto> \<lparr>ce_ptr = p, wasChecked = False\<rparr>),
                   lc_immediate := insert channelID (lc_immediate s),
                   lc_failed := lc_failed s - {channelID}\<rparr>))"

definition request :: "(string set \<Rightarrow> string list) \<Rightarrow> string list option \<Rightarrow> 's LiveController \<Rightarrow> 's LiveController" where
  "request order optChannelIDs s =
     (let channelIDs = (case optChannelIDs of Some ids \<Rightarrow> ids | None \<Rightarrow> order (dom (lc_channels s)))
      in if channelIDs = [] then s
         else s\<lparr>lc_outstanding := lc_outstanding s @
             concat (map (\<lambda>batch. [FetchStreams batch, FetchChannels batch]) (splitListIntoBatches channelIDs BATCH_SIZE)),
           lc_failed := lc_failed s - set channelIDs\<rparr>)"

definition immediateTimeout :: "(string set \<Rightarrow> string list) \<Rightarrow> 's LiveController \<Rightarrow> 's LiveController" where
  "immediateTimeout order s =
     (let channelIDs = order (lc_immediate s);
          s = s\<lparr>lc_immediate := {}\<rparr>
      in if channelIDs = [] then s else request order (Some channelIDs) s)"

definition refreshTimeout :: "(string set \<Rightarrow> string list) \<Rightarrow> 's LiveController \<Rightarrow> 's LiveController" where
  "refreshTimeout order s = request order None s"

text \<open>\<open>this->channels.erase\<close> for every dead channel.\<close>

definition eraseAll :: "string list \<Rightarrow> 's LiveController \<Rightarrow> 's LiveController" where
  "eraseAll dead s = foldl (\<lambda>s i. s\<lparr>lc_channels := (lc_channels s)(i := None)\<rparr>) s dead"

definition streamResults :: "string list \<Rightarrow> (string \<times> 's) list \<Rightarrow> string \<rightharpoonup> 's option" where
  "streamResults batch streams =
     foldl (\<lambda>results stream. results(fst stream \<mapsto> Some (snd stream)))
       (foldl (\<lambda>results channelID. results(channelID \<mapsto> None)) Map.empty batch) streams"

text \<open>The loop over the results: the state and the dead channels.\<close>

fun streamLoop ::
  "(string \<rightharpoonup> 's option) \<Rightarrow> string list \<Rightarrow> 's LiveController \<Rightarrow> string list \<Rightarrow> 's LiveController \<times> string list" where
  "streamLoop results [] s dead = (s, dead)"
| "streamLoop results (i # is) s dead =
     (case lc_channels s i of
        None \<Rightarrow> streamLoop results is s dead
      | Some e \<Rightarrow>
          if ce_ptr e \<in> lc_alive s
          then streamLoop results is
                 (s\<lparr>lc_updates := lc_updates s @ [UpdateStreamStatus (ce_ptr e) (the (results i)) (\<not> wasChecked e)],
                    lc_channels := (lc_channels s)(i \<mapsto> e\<lparr>wasChecked := True\<rparr>)\<rparr>) dead
          else streamLoop results is s (dead @ [i]))"

definition streamsReply ::
  "(string set \<Rightarrow> string list) \<Rightarrow> string list \<Rightarrow> (string \<times> 's) list \<Rightarrow> 's LiveController \<Rightarrow> 's LiveController" where
  "streamsReply order batch streams s =
     (let results = streamResults batch streams;
          (s, deadChannels) = streamLoop results (order (dom results)) s []
      in if deadChannels \<noteq> [] then eraseAll deadChannels s else s)"

text \<open>The reply with titles and names.\<close>

fun channelLoop ::
  "(string \<times> string \<times> string) list \<Rightarrow> 's LiveController \<Rightarrow> string list \<Rightarrow> 's LiveController \<times> string list" where
  "channelLoop [] s dead = (s, dead)"
| "channelLoop ((i, title, name) # cs) s dead =
     (case lc_channels s i of
        None \<Rightarrow> channelLoop cs s dead
      | Some e \<Rightarrow>
          if ce_ptr e \<in> lc_alive s
          then channelLoop cs (s\<lparr>lc_updates := lc_updates s @
                 [UpdateStreamTitle (ce_ptr e) title, UpdateDisplayName (ce_ptr e) name]\<rparr>) dead
          else channelLoop cs s (dead @ [i]))"

definition channelsReply :: "(string \<times> string \<times> string) list \<Rightarrow> 's LiveController \<Rightarrow> 's LiveController" where
  "channelsReply helixChannels s =
     (let (s, deadChannels) = channelLoop helixChannels s []
      in if deadChannels \<noteq> [] then eraseAll deadChannels s else s)"

definition drop_request :: "nat \<Rightarrow> 's LiveController \<Rightarrow> 's LiveController" where
  "drop_request k s = s\<lparr>lc_outstanding := take k (lc_outstanding s) @ drop (Suc k) (lc_outstanding s)\<rparr>"

section \<open>Runs\<close>

inductive lc_step :: "(string set \<Rightarrow> string list) \<Rightarrow> 's LiveController \<Rightarrow> 's LiveController \<Rightarrow> bool"
  for order :: "string set \<Rightarrow> string list" where
  channel_created: "lc_step order s (s\<lparr>lc_alive := insert p (lc_alive s)\<rparr>)"
| channel_destroyed: "lc_step order s (s\<lparr>lc_alive := lc_alive s - {p}\<rparr>)"
| channel_added: "p \<in> lc_alive s \<Longrightarrow> lc_add i p s = Some s' \<Longrightarrow> lc_step order s s'"
| immediate_timer: "lc_step order s (immediateTimeout order s)"
| refresh_timer: "lc_step order s (refreshTimeout order s)"
| streams_arrived: "k < length (lc_outstanding s) \<Longrightarrow> lc_outstanding s ! k = FetchStreams batch \<Longrightarrow>
    lc_step order s (streamsReply order batch streams (drop_request k s))"
| channels_arrived: "k < length (lc_outstanding s) \<Longrightarrow> lc_outstanding s ! k = FetchChannels batch \<Longrightarrow>
    lc_step order s (channelsReply helixChannels (drop_request k s))"
| streams_failed: "k < length (lc_outstanding s) \<Longrightarrow> lc_outstanding s ! k = FetchStreams batch \<Longrightarrow>
    lc_step order s ((drop_request k s)\<lparr>lc_failed := lc_failed s \<union> set batch\<rparr>)"
| channels_failed: "k < length (lc_outstanding s) \<Longrightarrow> lc_outstanding s ! k = FetchChannels batch \<Longrightarrow>
    lc_step order s (drop_request k s)"

inductive lc_reachable :: "(string set \<Rightarrow> string list) \<Rightarrow> 's LiveController \<Rightarrow> bool"
  for order :: "string set \<Rightarrow> string list" where
  init: "lc_reachable order lc_init"
| step: "lc_reachable order s \<Longrightarrow> lc_step order s s' \<Longrightarrow> lc_reachable order s'"

section \<open>The loops over replies\<close>

lemma eraseAll_simps [simp]:
  "lc_immediate (eraseAll dead s) = lc_immediate s" "lc_alive (eraseAll dead s) = lc_alive s"
  "lc_outstanding (eraseAll dead s) = lc_outstanding s" "lc_updates (eraseAll dead s) = lc_updates s"
  "lc_failed (eraseAll dead s) = lc_failed s"
  "lc_channels (eraseAll dead s) = (\<lambda>i. if i \<in> set dead then None else lc_channels s i)"
proof -
  have "lc_immediate (eraseAll dead s) = lc_immediate s \<and> lc_alive (eraseAll dead s) = lc_alive s \<and>
      lc_outstanding (eraseAll dead s) = lc_outstanding s \<and> lc_updates (eraseAll dead s) = lc_updates s \<and>
      lc_failed (eraseAll dead s) = lc_failed s \<and>
      lc_channels (eraseAll dead s) = (\<lambda>i. if i \<in> set dead then None else lc_channels s i)"
    by (induction dead arbitrary: s) (auto simp: eraseAll_def)
  then show "lc_immediate (eraseAll dead s) = lc_immediate s" "lc_alive (eraseAll dead s) = lc_alive s"
    "lc_outstanding (eraseAll dead s) = lc_outstanding s" "lc_updates (eraseAll dead s) = lc_updates s"
    "lc_failed (eraseAll dead s) = lc_failed s"
    "lc_channels (eraseAll dead s) = (\<lambda>i. if i \<in> set dead then None else lc_channels s i)" by blast+
qed

text \<open>The entry of a channel after the loop over the streams, and the update it causes.\<close>

definition checked_entry :: "'s LiveController \<Rightarrow> string \<Rightarrow> ChannelEntry option" where
  "checked_entry s i =
     (case lc_channels s i of
        None \<Rightarrow> None
      | Some e \<Rightarrow> if ce_ptr e \<in> lc_alive s then Some (e\<lparr>wasChecked := True\<rparr>) else Some e)"

definition status_update :: "(string \<rightharpoonup> 's option) \<Rightarrow> 's LiveController \<Rightarrow> string \<Rightarrow> 's lc_update option" where
  "status_update results s i =
     (case lc_channels s i of
        None \<Rightarrow> None
      | Some e \<Rightarrow> if ce_ptr e \<in> lc_alive s
                   then Some (UpdateStreamStatus (ce_ptr e) (the (results i)) (\<not> wasChecked e)) else None)"

definition is_dead :: "'s LiveController \<Rightarrow> string \<Rightarrow> bool" where
  "is_dead s i \<longleftrightarrow> (\<exists>e. lc_channels s i = Some e \<and> ce_ptr e \<notin> lc_alive s)"

lemma streamLoop_effect:
  assumes "distinct is"
  shows "streamLoop results is s dead =
    (s\<lparr>lc_channels := (\<lambda>i. if i \<in> set is then checked_entry s i else lc_channels s i),
       lc_updates := lc_updates s @ List.map_filter (status_update results s) is\<rparr>,
     dead @ filter (is_dead s) is)"
  using assms
proof (induction "is" arbitrary: s dead)
  case Nil
  then show ?case by (simp add: map_filter_simps)
next
  case (Cons i "is")
  show ?case
  proof (cases "lc_channels s i")
    case None
    then have "checked_entry s i = lc_channels s i" "status_update results s i = None" "\<not> is_dead s i"
      by (simp_all add: checked_entry_def status_update_def is_dead_def)
    then show ?thesis using Cons None by (simp add: map_filter_simps fun_eq_iff)
  next
    case (Some e)
    show ?thesis
    proof (cases "ce_ptr e \<in> lc_alive s")
      case False
      then have "checked_entry s i = lc_channels s i" "status_update results s i = None" "is_dead s i"
        using Some by (simp_all add: checked_entry_def status_update_def is_dead_def)
      then show ?thesis using Cons Some False by (simp add: map_filter_simps fun_eq_iff)
    next
      case True
      define u where "u = UpdateStreamStatus (ce_ptr e) (the (results i)) (\<not> wasChecked e)"
      define s1 where "s1 = s\<lparr>lc_updates := lc_updates s @ [u],
        lc_channels := (lc_channels s)(i \<mapsto> e\<lparr>wasChecked := True\<rparr>)\<rparr>"
      have same: "checked_entry s1 j = checked_entry s j" "status_update results s1 j = status_update results s j"
        "is_dead s1 j = is_dead s j" "lc_channels s1 j = lc_channels s j" if "j \<noteq> i" for j
        using that by (simp_all add: s1_def checked_entry_def status_update_def is_dead_def split: option.split)
      have ne: "j \<noteq> i" if "j \<in> set is" for j using Cons.prems that by auto
      have mf: "List.map_filter (status_update results s1) is = List.map_filter (status_update results s) is"
        "filter (is_dead s1) is = filter (is_dead s) is"
        using same ne by (auto simp: map_filter_def intro!: map_cong filter_cong)
      have i: "checked_entry s i = Some (e\<lparr>wasChecked := True\<rparr>)" "status_update results s i = Some u" "\<not> is_dead s i"
        using Some True by (simp_all add: checked_entry_def status_update_def is_dead_def u_def)
      have ch: "(\<lambda>j. if j \<in> set is then checked_entry s1 j else lc_channels s1 j) =
          (\<lambda>j. if j \<in> set (i # is) then checked_entry s j else lc_channels s j)"
      proof
        fix j
        show "(if j \<in> set is then checked_entry s1 j else lc_channels s1 j) =
            (if j \<in> set (i # is) then checked_entry s j else lc_channels s j)"
        proof (cases "j = i")
          case True
          then show ?thesis using Cons.prems i(1) by (simp add: s1_def)
        next
          case False
          then show ?thesis using same [of j] by simp
        qed
      qed
      have "streamLoop results (i # is) s dead = streamLoop results is s1 dead"
        using Some True by (simp add: s1_def u_def)
      also have "\<dots> = (s1\<lparr>lc_channels := (\<lambda>j. if j \<in> set (i # is) then checked_entry s j else lc_channels s j),
          lc_updates := lc_updates s1 @ List.map_filter (status_update results s) is\<rparr>, dead @ filter (is_dead s) is)"
        using Cons.IH [of s1 dead] Cons.prems unfolding ch mf by simp
      finally show ?thesis using i by (simp add: map_filter_simps s1_def)
    qed
  qed
qed

lemma channelLoop_frame:
  "channelLoop cs s dead = (s', dead') \<Longrightarrow> lc_channels s' = lc_channels s \<and> lc_alive s' = lc_alive s \<and>
    lc_immediate s' = lc_immediate s \<and> lc_outstanding s' = lc_outstanding s \<and> lc_failed s' = lc_failed s"
proof (induction cs s dead rule: channelLoop.induct)
  case (2 i title name cs s dead)
  show ?case
  proof (cases "lc_channels s i")
    case None
    then show ?thesis using 2 by simp
  next
    case (Some e)
    then show ?thesis using 2 by (cases "ce_ptr e \<in> lc_alive s") auto
  qed
qed simp

lemma streamResults_dom:
  fixes streams :: "(string \<times> 's) list"
  shows "dom (streamResults batch streams) = set batch \<union> fst ` set streams"
proof -
  have "dom (foldl (\<lambda>results channelID. results(channelID \<mapsto> None)) m batch) = dom m \<union> set batch" for m :: "string \<rightharpoonup> 's option"
    by (induction batch arbitrary: m) auto
  moreover have "dom (foldl (\<lambda>results stream. results(fst stream \<mapsto> Some (snd stream))) m streams) = dom m \<union> fst ` set streams"
    for m :: "string \<rightharpoonup> 's option"
    by (induction streams arbitrary: m) auto
  ultimately show ?thesis by (simp add: streamResults_def)
qed

lemma streamsReply_state:
  assumes "order_law order"
    and results: "results = streamResults batch streams"
  shows "streamsReply order batch streams s = eraseAll (filter (is_dead s) (order (dom results)))
      (s\<lparr>lc_channels := (\<lambda>i. if i \<in> set (order (dom results)) then checked_entry s i else lc_channels s i),
         lc_updates := lc_updates s @ List.map_filter (status_update results s) (order (dom results))\<rparr>)"
    and "set (order (dom results)) = set batch \<union> fst ` set streams"
proof -
  have "finite (dom results)" by (simp add: results streamResults_dom)
  then have o: "set (order (dom results)) = set batch \<union> fst ` set streams" "distinct (order (dom results))"
    using assms(1) by (simp_all add: order_law_def results streamResults_dom)
  show "set (order (dom results)) = set batch \<union> fst ` set streams" by (rule o(1))
  show "streamsReply order batch streams s = eraseAll (filter (is_dead s) (order (dom results)))
      (s\<lparr>lc_channels := (\<lambda>i. if i \<in> set (order (dom results)) then checked_entry s i else lc_channels s i),
         lc_updates := lc_updates s @ List.map_filter (status_update results s) (order (dom results))\<rparr>)"
    unfolding streamsReply_def Let_def results [symmetric] streamLoop_effect [OF o(2)] by (simp add: eraseAll_def)
qed

lemma streamsReply_frame:
  assumes "order_law order"
  shows "lc_immediate (streamsReply order batch streams s) = lc_immediate s"
    "lc_outstanding (streamsReply order batch streams s) = lc_outstanding s"
    "lc_failed (streamsReply order batch streams s) = lc_failed s"
    "lc_alive (streamsReply order batch streams s) = lc_alive s"
  by (simp_all add: streamsReply_state(1) [OF assms refl])

lemma streamsReply_channels:
  assumes "order_law order"
  shows "lc_channels (streamsReply order batch streams s) =
    (\<lambda>i. if i \<in> set batch \<union> fst ` set streams
         then if is_dead s i then None else checked_entry s i else lc_channels s i)"
  by (simp add: streamsReply_state [OF assms refl] fun_eq_iff)

text \<open>
  A reply to a stream request updates exactly the living channels of the batch and of the streams it
  names, each once and with the stream found for it; the update says whether it is the first for the channel,
  and the next one will not be.  Channels that no longer exist are removed, all others are left alone.\<close>

theorem streamsReply_effect:
  assumes "order_law order"
  shows "let results = streamResults batch streams; ids = order (dom results); s' = streamsReply order batch streams s in
    lc_updates s' = lc_updates s @ List.map_filter (status_update results s) ids \<and>
    lc_channels s' = (\<lambda>i. if i \<in> set batch \<union> fst ` set streams
                        then if is_dead s i then None else checked_entry s i else lc_channels s i)"
  by (simp add: streamsReply_state [OF assms refl] Let_def fun_eq_iff)

definition sample_order :: "string set \<Rightarrow> string list" where
  "sample_order S = sorted_list_of_set S"

lemma sample_order_law: "order_law sample_order"
  by (simp add: order_law_def sample_order_def)

definition sample_live :: "nat LiveController" where
  "sample_live = \<lparr>lc_channels = [''1'' \<mapsto> \<lparr>ce_ptr = 5, wasChecked = False\<rparr>, ''2'' \<mapsto> \<lparr>ce_ptr = 6, wasChecked = False\<rparr>],
     lc_immediate = {}, lc_alive = {5}, lc_outstanding = [], lc_updates = [], lc_failed = {}\<rparr>"

lemma streamsReply_effect_witness:
  "lc_updates (streamsReply sample_order [''1'', ''2''] [(''1'', 7)] sample_live) = [UpdateStreamStatus 5 (Some 7) True] \<and>
   lc_channels (streamsReply sample_order [''1'', ''2''] [(''1'', 7)] sample_live) =
     [''1'' \<mapsto> \<lparr>ce_ptr = 5, wasChecked = True\<rparr>]"
  using streamsReply_effect [OF sample_order_law, of "[''1'', ''2'']" "[(''1'', 7)]" sample_live]
  by (simp add: Let_def sample_live_def streamResults_def sample_order_def status_update_def checked_entry_def is_dead_def
      map_filter_simps fun_eq_iff)

section \<open>No channel is forgotten\<close>

lemma order_set: "order_law order \<Longrightarrow> finite S \<Longrightarrow> set (order S) = S"
  by (simp add: order_law_def)

lemma outstanding_request:
  "set (lc_outstanding (request order opt s)) = set (lc_outstanding s) \<union>
    (\<Union>b\<in>set (splitListIntoBatches (case opt of Some ids \<Rightarrow> ids | None \<Rightarrow> order (dom (lc_channels s))) BATCH_SIZE).
      {FetchStreams b, FetchChannels b})"
  by (auto simp: request_def Let_def splitListIntoBatches_def batchCount_def BATCH_SIZE_def)

lemma request_frame [simp]:
  "lc_channels (request order opt s) = lc_channels s" "lc_immediate (request order opt s) = lc_immediate s"
  "lc_alive (request order opt s) = lc_alive s"
  by (simp_all add: request_def Let_def)

definition streams_requested :: "'s LiveController \<Rightarrow> string \<Rightarrow> bool" where
  "streams_requested s i \<longleftrightarrow> (\<exists>b. FetchStreams b \<in> set (lc_outstanding s) \<and> i \<in> set b)"

definition waiting :: "'s LiveController \<Rightarrow> string \<Rightarrow> bool" where
  "waiting s i \<longleftrightarrow> i \<in> lc_immediate s \<or> streams_requested s i \<or> i \<in> lc_failed s"

definition lc_inv :: "'s LiveController \<Rightarrow> bool" where
  "lc_inv s \<longleftrightarrow> finite (dom (lc_channels s)) \<and> finite (lc_immediate s) \<and>
     (\<forall>i e. lc_channels s i = Some e \<longrightarrow> \<not> wasChecked e \<longrightarrow> waiting s i) \<and>
     (\<forall>r\<in>set (lc_outstanding s). \<forall>b. r = FetchStreams b \<or> r = FetchChannels b \<longrightarrow> b \<noteq> [] \<and> length b \<le> BATCH_SIZE)"

lemma lc_invI:
  assumes "finite (dom (lc_channels s))" "finite (lc_immediate s)"
    and "\<And>i e. lc_channels s i = Some e \<Longrightarrow> \<not> wasChecked e \<Longrightarrow> waiting s i"
    and "\<And>b. FetchStreams b \<in> set (lc_outstanding s) \<or> FetchChannels b \<in> set (lc_outstanding s) \<Longrightarrow>
      b \<noteq> [] \<and> length b \<le> BATCH_SIZE"
  shows "lc_inv s"
  using assms unfolding lc_inv_def by blast

lemma lc_invD:
  assumes "lc_inv s"
  shows "finite (dom (lc_channels s))" "finite (lc_immediate s)"
    "lc_channels s i = Some e \<Longrightarrow> \<not> wasChecked e \<Longrightarrow> waiting s i"
    "FetchStreams b \<in> set (lc_outstanding s) \<or> FetchChannels b \<in> set (lc_outstanding s) \<Longrightarrow>
      b \<noteq> [] \<and> length b \<le> BATCH_SIZE"
  using assms unfolding lc_inv_def by blast+

lemma batches_cover: "i \<in> set ids \<Longrightarrow> \<exists>b\<in>set (splitListIntoBatches ids BATCH_SIZE). i \<in> set b"
  using splitListIntoBatches_concat [of BATCH_SIZE ids] by (simp add: BATCH_SIZE_def) (metis UN_E set_concat)

lemma waiting_request:
  assumes "waiting s i"
  shows "waiting (request order opt s) i"
proof -
  define ids where "ids = (case opt of Some ids \<Rightarrow> ids | None \<Rightarrow> order (dom (lc_channels s)))"
  have "lc_failed (request order opt s) = lc_failed s - set ids" by (simp add: request_def ids_def Let_def)
  moreover have "streams_requested (request order opt s) i" if "i \<in> set ids"
    using batches_cover [OF that] by (auto simp: streams_requested_def outstanding_request ids_def)
  ultimately show ?thesis using assms
    by (auto simp: waiting_def streams_requested_def outstanding_request)
qed

lemma lc_inv_request:
  assumes "lc_inv s"
  shows "lc_inv (request order opt s)"
proof (rule lc_invI)
  fix i e
  assume "lc_channels (request order opt s) i = Some e" "\<not> wasChecked e"
  then have "waiting s i" using lc_invD(3) [OF assms] by simp
  then show "waiting (request order opt s) i" by (rule waiting_request)
next
  fix b
  assume "FetchStreams b \<in> set (lc_outstanding (request order opt s)) \<or>
    FetchChannels b \<in> set (lc_outstanding (request order opt s))"
  then show "b \<noteq> [] \<and> length b \<le> BATCH_SIZE"
    using lc_invD(4) [OF assms] splitListIntoBatches_sizes by (auto simp: outstanding_request)
qed (use lc_invD(1,2) [OF assms] in simp_all)

lemma lc_inv_immediate:
  assumes o: "order_law order" and "lc_inv s"
  shows "lc_inv (immediateTimeout order s)"
proof -
  let ?s0 = "s\<lparr>lc_immediate := {}\<rparr>"
  let ?ids = "order (lc_immediate s)"
  have ids: "set ?ids = lc_immediate s" using order_set [OF o] lc_invD(2) [OF assms(2)] by blast
  let ?s1 = "request order (Some ?ids) ?s0"
  have e: "immediateTimeout order s = ?s1"
    by (simp add: immediateTimeout_def Let_def request_def)
  show ?thesis unfolding e
  proof (rule lc_invI)
    fix i c
    assume c: "lc_channels ?s1 i = Some c" "\<not> wasChecked c"
    then have "waiting s i" using lc_invD(3) [OF assms(2)] by simp
    moreover have "streams_requested ?s1 i" if "i \<in> lc_immediate s"
      using batches_cover [of i ?ids] that ids by (auto simp: streams_requested_def outstanding_request)
    moreover have "waiting ?s1 i" if "i \<notin> lc_immediate s"
      by (rule waiting_request) (use \<open>waiting s i\<close> that in \<open>auto simp: waiting_def streams_requested_def\<close>)
    ultimately show "waiting ?s1 i" by (auto simp: waiting_def)
  next
    fix b
    assume "FetchStreams b \<in> set (lc_outstanding ?s1) \<or> FetchChannels b \<in> set (lc_outstanding ?s1)"
    then show "b \<noteq> [] \<and> length b \<le> BATCH_SIZE"
      using lc_invD(4) [OF assms(2)] splitListIntoBatches_sizes by (auto simp: outstanding_request)
  qed (use lc_invD(1) [OF assms(2)] in simp_all)
qed

lemma drop_request_set: "set (lc_outstanding (drop_request k s)) \<subseteq> set (lc_outstanding s)"
  using set_take_subset set_drop_subset by (fastforce simp: drop_request_def)

lemma drop_request_requested:
  assumes "k < length (lc_outstanding s)" "r \<in> set (lc_outstanding s)"
  shows "r = lc_outstanding s ! k \<or> r \<in> set (lc_outstanding (drop_request k s))"
proof -
  have "set (lc_outstanding s) = set (take k (lc_outstanding s) @ lc_outstanding s ! k # drop (Suc k) (lc_outstanding s))"
    using assms(1) by (simp add: id_take_nth_drop [symmetric])
  then show ?thesis using assms(2) by (auto simp: drop_request_def)
qed

lemma drop_request_frame [simp]:
  "lc_channels (drop_request k s) = lc_channels s" "lc_immediate (drop_request k s) = lc_immediate s"
  "lc_failed (drop_request k s) = lc_failed s" "lc_alive (drop_request k s) = lc_alive s"
  "lc_updates (drop_request k s) = lc_updates s"
  by (simp_all add: drop_request_def)

text \<open>A reply that leaves no channel of the batch unchecked, and a failure that is recorded, keep the
  invariant.\<close>

lemma lc_inv_reply:
  assumes inv: "lc_inv s" and k: "k < length (lc_outstanding s)" "lc_outstanding s ! k \<in> {FetchStreams batch, FetchChannels batch}"
    and out: "lc_outstanding s' = lc_outstanding (drop_request k s)" "lc_immediate s' = lc_immediate s"
    and failed: "lc_failed s \<subseteq> lc_failed s'"
    and ch: "\<And>i e. lc_channels s' i = Some e \<Longrightarrow> \<not> wasChecked e \<Longrightarrow>
      lc_channels s i = Some e \<and> (lc_outstanding s ! k = FetchStreams batch \<longrightarrow> i \<in> set batch \<longrightarrow> i \<in> lc_failed s')"
    and fin: "finite (dom (lc_channels s'))"
  shows "lc_inv s'"
proof (rule lc_invI)
  fix i e
  assume e: "lc_channels s' i = Some e" "\<not> wasChecked e"
  have "waiting s i" using lc_invD(3) [OF inv] ch [OF e] e(2) by blast
  then consider "i \<in> lc_immediate s" | "i \<in> lc_failed s" | b where "FetchStreams b \<in> set (lc_outstanding s)" "i \<in> set b"
    by (auto simp: waiting_def streams_requested_def)
  then show "waiting s' i"
  proof cases
    case 3
    from drop_request_requested [OF k(1) 3(1)] show ?thesis
    proof
      assume "FetchStreams b = lc_outstanding s ! k"
      then have "b = batch" "lc_outstanding s ! k = FetchStreams batch" using k(2) by auto
      then show ?thesis using ch [OF e] 3(2) by (auto simp: waiting_def)
    next
      assume "FetchStreams b \<in> set (lc_outstanding (drop_request k s))"
      then show ?thesis using 3(2) out(1) by (auto simp: waiting_def streams_requested_def)
    qed
  qed (use out failed in \<open>auto simp: waiting_def\<close>)
next
  fix b
  assume "FetchStreams b \<in> set (lc_outstanding s') \<or> FetchChannels b \<in> set (lc_outstanding s')"
  then show "b \<noteq> [] \<and> length b \<le> BATCH_SIZE"
    using lc_invD(4) [OF inv] drop_request_set [of k s] unfolding out(1) by blast
qed (use lc_invD(2) [OF inv] out(2) fin in simp_all)

lemma lc_inv_streamsReply:
  assumes o: "order_law order" and inv: "lc_inv s"
    and k: "k < length (lc_outstanding s)" "lc_outstanding s ! k = FetchStreams batch"
  shows "lc_inv (streamsReply order batch streams (drop_request k s))"
proof (rule lc_inv_reply [OF inv k(1)])
  let ?s = "drop_request k s"
  note c = streamsReply_channels [OF o, of batch streams ?s]
  have some: "checked_entry ?s i = Some e \<Longrightarrow> \<exists>e. lc_channels s i = Some e" for i e
    by (simp add: checked_entry_def split: option.splits)
  show "finite (dom (lc_channels (streamsReply order batch streams ?s)))"
    by (rule finite_subset [OF _ lc_invD(1) [OF inv]]) (auto simp: c dest: some split: if_splits)
  show "lc_channels s i = Some e \<and> (lc_outstanding s ! k = FetchStreams batch \<longrightarrow> i \<in> set batch \<longrightarrow>
      i \<in> lc_failed (streamsReply order batch streams ?s))"
    if e: "lc_channels (streamsReply order batch streams ?s) i = Some e" "\<not> wasChecked e" for i e
    using e by (auto simp: c checked_entry_def is_dead_def split: if_splits option.splits)
qed (use k(2) in \<open>simp_all add: streamsReply_frame [OF o]\<close>)

lemma channelsReply_frame:
  "lc_immediate (channelsReply cs s) = lc_immediate s" "lc_outstanding (channelsReply cs s) = lc_outstanding s"
  "lc_failed (channelsReply cs s) = lc_failed s"
  "lc_channels (channelsReply cs s) i = Some e \<Longrightarrow> lc_channels s i = Some e"
proof -
  obtain s' dead where r: "channelLoop cs s [] = (s', dead)" by (cases "channelLoop cs s []")
  note f = channelLoop_frame [OF r]
  show "lc_immediate (channelsReply cs s) = lc_immediate s" "lc_outstanding (channelsReply cs s) = lc_outstanding s"
    "lc_failed (channelsReply cs s) = lc_failed s"
    using f by (simp_all add: channelsReply_def r)
  show "lc_channels s i = Some e" if "lc_channels (channelsReply cs s) i = Some e"
    using that f by (auto simp: channelsReply_def r split: if_splits)
qed

lemma lc_inv_channelsReply:
  assumes inv: "lc_inv s" and k: "k < length (lc_outstanding s)" "lc_outstanding s ! k = FetchChannels batch"
  shows "lc_inv (channelsReply cs (drop_request k s))"
proof (rule lc_inv_reply [OF inv k(1)])
  have sub: "lc_channels (channelsReply cs (drop_request k s)) i = Some e \<Longrightarrow> lc_channels s i = Some e" for i e
    using channelsReply_frame(4) [of cs "drop_request k s" i e] by simp
  show "finite (dom (lc_channels (channelsReply cs (drop_request k s))))"
    by (rule finite_subset [OF _ lc_invD(1) [OF inv]]) (use sub in blast)
  show "lc_channels s i = Some e \<and> (lc_outstanding s ! k = FetchStreams batch \<longrightarrow> i \<in> set batch \<longrightarrow>
      i \<in> lc_failed (channelsReply cs (drop_request k s)))"
    if "lc_channels (channelsReply cs (drop_request k s)) i = Some e" for i e
    using sub [OF that] k(2) by simp
qed (use k(2) in \<open>simp_all add: channelsReply_frame\<close>)

lemma lc_inv_add:
  assumes inv: "lc_inv s" and add: "lc_add i p s = Some s'"
  shows "lc_inv s'"
proof (rule lc_invI)
  from add have s': "s' = s\<lparr>lc_channels := (lc_channels s)(i \<mapsto> \<lparr>ce_ptr = p, wasChecked = False\<rparr>),
      lc_immediate := insert i (lc_immediate s), lc_failed := lc_failed s - {i}\<rparr>"
    by (auto simp: lc_add_def split: if_splits)
  show "finite (dom (lc_channels s'))" "finite (lc_immediate s')"
    using lc_invD(1,2) [OF inv] by (simp_all add: s')
  show "waiting s' j" if "lc_channels s' j = Some e" "\<not> wasChecked e" for j e
    using that lc_invD(3) [OF inv, of j e] by (auto simp: s' waiting_def streams_requested_def split: if_splits)
  show "b \<noteq> [] \<and> length b \<le> BATCH_SIZE"
    if "FetchStreams b \<in> set (lc_outstanding s') \<or> FetchChannels b \<in> set (lc_outstanding s')" for b
    using that lc_invD(4) [OF inv, of b] by (simp add: s')
qed

lemma lc_inv_alive: "lc_inv s \<Longrightarrow> lc_inv (s\<lparr>lc_alive := A\<rparr>)"
  by (simp add: lc_inv_def waiting_def streams_requested_def)

lemma lc_inv_step:
  assumes o: "order_law order" and "lc_step order s s'" "lc_inv s"
  shows "lc_inv s'"
  using assms(2,3)
proof cases
  case (streams_failed k batch)
  show ?thesis unfolding streams_failed(1)
    by (rule lc_inv_reply [OF assms(3) streams_failed(2)]) (use streams_failed(3) lc_invD(1) [OF assms(3)] in auto)
next
  case (channels_failed k batch)
  show ?thesis unfolding channels_failed(1)
    by (rule lc_inv_reply [OF assms(3) channels_failed(2)]) (use channels_failed(3) lc_invD(1) [OF assms(3)] in auto)
qed (use assms(3) o in \<open>auto intro: lc_inv_alive lc_inv_add lc_inv_immediate lc_inv_request lc_inv_streamsReply
  lc_inv_channelsReply simp: refreshTimeout_def\<close>)

lemma lc_inv_reachable:
  assumes "lc_reachable order s" "order_law order"
  shows "lc_inv s"
  using assms(1)
proof induction
  case init
  show ?case by (simp add: lc_inv_def lc_init_def)
next
  case (step s s')
  then show ?case using lc_inv_step assms(2) by blast
qed

text \<open>
  C39. A channel the controller knows and has not yet checked is always accounted for: its id waits for the
  next immediate request, is in a batch whose stream request has no reply yet, or was in one that failed and was
  not asked for since (the periodic refresh asks for it again).\<close>

theorem live_no_channel_forgotten:
  assumes "order_law order" "lc_reachable order s" "lc_channels s i = Some e" "\<not> wasChecked e"
  shows "i \<in> lc_immediate s \<or> (\<exists>b. FetchStreams b \<in> set (lc_outstanding s) \<and> i \<in> set b) \<or> i \<in> lc_failed s"
  using lc_invD(3) [OF lc_inv_reachable [OF assms(2,1)] assms(3,4)]
  by (simp add: waiting_def streams_requested_def)

text \<open>A run: a channel is created and added, and the immediate timer fires.\<close>

definition sample_added :: "nat LiveController" where
  "sample_added = \<lparr>lc_channels = [''1'' \<mapsto> \<lparr>ce_ptr = 5, wasChecked = False\<rparr>], lc_immediate = {''1''}, lc_alive = {5},
     lc_outstanding = [], lc_updates = [], lc_failed = {}\<rparr>"

lemma sample_added_reachable: "lc_reachable sample_order (immediateTimeout sample_order sample_added)"
proof -
  let ?i = "lc_init :: nat LiveController"
  let ?s = "?i\<lparr>lc_alive := insert 5 (lc_alive ?i)\<rparr>"
  have "lc_reachable sample_order ?s" using lc_reachable.step [OF lc_reachable.init channel_created] by blast
  moreover have "lc_step sample_order ?s sample_added"
    by (rule channel_added [of 5 _ "''1''"]) (simp_all add: lc_add_def lc_init_def sample_added_def)
  ultimately show ?thesis using lc_reachable.step immediate_timer by metis
qed

lemma live_no_channel_forgotten_witness:
  "lc_outstanding (immediateTimeout sample_order sample_added) = [FetchStreams [''1''], FetchChannels [''1'']] \<and>
   (\<exists>b. FetchStreams b \<in> set (lc_outstanding (immediateTimeout sample_order sample_added)) \<and> ''1'' \<in> set b)"
proof -
  let ?s = "immediateTimeout sample_order sample_added"
  have o: "lc_outstanding ?s = [FetchStreams [''1''], FetchChannels [''1'']]"
    by (simp add: immediateTimeout_def request_def Let_def sample_order_def sample_added_def BATCH_SIZE_def
        splitListIntoBatches_def batchCount_def)
  have c: "lc_channels ?s ''1'' = Some \<lparr>ce_ptr = 5, wasChecked = False\<rparr>" "lc_immediate ?s = {}" "lc_failed ?s = {}"
    by (simp_all add: immediateTimeout_def request_def Let_def sample_added_def)
  show ?thesis
    using live_no_channel_forgotten [OF sample_order_law sample_added_reachable c(1)] o c(2,3) by simp
qed

end
