(* ===== verification/EventSub.thy ===== *)
theory EventSub
  imports Prelude
begin

text \<open>
  The EventSub controller of \<open>providers/twitch/eventsub/Controller.cpp\<close>: subscriptions to topics of Twitch,
  shared by reference counting, made over websocket sessions and retried on errors.  Its events are the
  calls of the rest of the program, tasks posted to the I/O thread, timers, replies of the Twitch API and what
  happens to the sessions of \<open>src/lib/twitch-eventsub-ws\<close>.  An operation whose assertion fails has the value
  \<open>None\<close>.
\<close>

section \<open>State\<close>

record SubscriptionRequest =
  subscriptionType :: string
  subscriptionVersion :: string
  conditions :: "(string \<times> string) list"

datatype sub_state = Unsubscribed | Failed | Subscribing | Retrying | Subscribed | Unsubscribing

text \<open>\<open>es_conn\<close> is the weak pointer to a session, \<open>retryTimer\<close> the delay of a timer that is set, in milliseconds.\<close>

record Subscription =
  es_state :: sub_state
  refCount :: int
  es_conn :: "nat option"
  subscriptionID :: string
  retryTimer :: "int option"
  retryAttempts :: int

definition new_Subscription :: Subscription where
  "new_Subscription = \<lparr>es_state = Unsubscribed, refCount = 0, es_conn = None, subscriptionID = [],
     retryTimer = None, retryAttempts = 0\<rparr>"

text \<open>The listener of a session.\<close>

record Connection =
  sessionID :: string
  con_subscriptions :: "SubscriptionRequest list"

definition new_Connection :: Connection where
  "new_Connection = \<lparr>sessionID = [], con_subscriptions = []\<rparr>"

datatype es_task = SubscribeTask SubscriptionRequest | RetryTask SubscriptionRequest int int

text \<open>\<open>sessions\<close> are the sessions that exist, with their listener unless it was moved out; \<open>posted\<close>, \<open>creates\<close>
  and \<open>deletes\<close> the tasks and the requests to the Twitch API that are under way, \<open>handles\<close> the subscription
  handles that exist.\<close>

record Controller =
  subscriptions :: "SubscriptionRequest \<rightharpoonup> Subscription"
  connections :: "nat list"
  quitting :: bool
  sessions :: "nat \<rightharpoonup> Connection option"
  nextSession :: nat
  posted :: "es_task list"
  creates :: "(SubscriptionRequest \<times> nat) list"
  deletes :: "SubscriptionRequest list"
  handles :: "SubscriptionRequest list"

definition es_init :: Controller where
  "es_init = \<lparr>subscriptions = Map.empty, connections = [], quitting = False, sessions = Map.empty, nextSession = 0,
     posted = [], creates = [], deletes = [], handles = []\<rparr>"

text \<open>\<open>subscriptions[request]\<close>, which makes a new entry when there is none.\<close>

definition sub_at :: "Controller \<Rightarrow> SubscriptionRequest \<Rightarrow> Subscription" where
  "sub_at c r = (case subscriptions c r of None \<Rightarrow> new_Subscription | Some s \<Rightarrow> s)"

definition put_sub :: "SubscriptionRequest \<Rightarrow> Subscription \<Rightarrow> Controller \<Rightarrow> Controller" where
  "put_sub r s c = c\<lparr>subscriptions := (subscriptions c)(r \<mapsto> s)\<rparr>"

text \<open>Locking a weak pointer and asking for the listener.\<close>

definition connection_of :: "Controller \<Rightarrow> nat \<Rightarrow> Connection option" where
  "connection_of c sid = (case sessions c sid of None \<Rightarrow> None | Some l \<Rightarrow> l)"

section \<open>Connections\<close>

fun viableLoop :: "Controller \<Rightarrow> nat list \<Rightarrow> nat \<Rightarrow> nat option \<times> nat" where
  "viableLoop c [] openButNotReady = (None, openButNotReady)"
| "viableLoop c (sid # sids) openButNotReady =
     (case connection_of c sid of
        None \<Rightarrow> viableLoop c sids openButNotReady
      | Some l \<Rightarrow>
          if sessionID l = [] then viableLoop c sids (openButNotReady + 1) else (Some sid, openButNotReady))"

definition getViableConnection :: "Controller \<Rightarrow> nat option \<times> nat" where
  "getViableConnection c = viableLoop c (connections c) 0"

text \<open>\<open>ok\<close> is whether setting up the session throws no exception.\<close>

definition createConnection :: "bool \<Rightarrow> Connection \<Rightarrow> Controller \<Rightarrow> Controller" where
  "createConnection ok l c =
     (if ok then c\<lparr>sessions := (sessions c)(nextSession c \<mapsto> Some l), connections := connections c @ [nextSession c],
                   nextSession := nextSession c + 1\<rparr>
      else c)"

definition clearConnections :: "Controller \<Rightarrow> Controller" where
  "clearConnections c = c\<lparr>connections := filter (\<lambda>sid. connection_of c sid \<noteq> None) (connections c)\<rparr>"

section \<open>Subscribing\<close>

definition retrySubscription :: "SubscriptionRequest \<Rightarrow> int \<Rightarrow> int \<Rightarrow> Controller \<Rightarrow> Controller option" where
  "retrySubscription r delay maxAttempts c =
     (let s = sub_at c r in
      if retryAttempts s < 0 then None
      else if refCount s = 0 then Some (put_sub r (s\<lparr>es_state := Unsubscribed\<rparr>) c)
      else if retryAttempts s = 0 \<or> retryAttempts s > maxAttempts then
        if es_state s \<noteq> Subscribing \<and> es_state s \<noteq> Retrying then None
        else if retryTimer s \<noteq> None then None
        else Some (put_sub r (s\<lparr>retryAttempts := maxAttempts, es_state := Retrying, retryTimer := Some delay\<rparr>) c)
      else if es_state s \<noteq> Retrying then None
      else
        let s = s\<lparr>retryAttempts := retryAttempts s - 1\<rparr> in
        if retryAttempts s = 0 then Some (put_sub r (s\<lparr>es_state := Failed\<rparr>) c)
        else if retryTimer s \<noteq> None then None
        else Some (put_sub r (s\<lparr>es_state := Retrying, retryTimer := Some delay\<rparr>) c))"

text \<open>The private \<open>subscribe\<close>, on the I/O thread.\<close>

definition subscribe_request :: "SubscriptionRequest \<Rightarrow> bool \<Rightarrow> bool \<Rightarrow> Controller \<Rightarrow> Controller option" where
  "subscribe_request r isRetry ok c =
     (let s = sub_at c r in
      if isRetry \<and> retryTimer s = None then None
      else
        let s = (if isRetry then s\<lparr>retryTimer := None\<rparr> else s) in
        if retryTimer s \<noteq> None then None
        else
          let c = put_sub r s c in
          case getViableConnection c of
            (Some sid, openButNotReady) \<Rightarrow> Some (c\<lparr>creates := creates c @ [(r, sid)]\<rparr>)
          | (None, openButNotReady) \<Rightarrow>
              if openButNotReady = 0 then retrySubscription r 500 10 (createConnection ok new_Connection c)
              else retrySubscription r 250 10 c)"

text \<open>The public \<open>subscribe\<close>, which makes a handle.\<close>

definition subscribe :: "SubscriptionRequest \<Rightarrow> Controller \<Rightarrow> Controller option" where
  "subscribe r c =
     (if quitting c then None
      else
        let s = sub_at c r in
        if refCount s < 0 then None
        else if es_state s = Unsubscribed \<and> refCount s \<noteq> 0 then None
        else
          let needToSubscribe = (es_state s = Unsubscribed \<or> es_state s = Failed);
              s = (if needToSubscribe then s\<lparr>es_state := Subscribing, retryAttempts := 0\<rparr> else s)
          in if needToSubscribe \<and> retryTimer s \<noteq> None then None
             else
               let c = (put_sub r (s\<lparr>refCount := refCount s + 1\<rparr>) c)\<lparr>handles := r # handles c\<rparr>
               in Some (if needToSubscribe then c\<lparr>posted := posted c @ [SubscribeTask r]\<rparr> else c))"

definition removeRef :: "SubscriptionRequest \<Rightarrow> Controller \<Rightarrow> Controller option" where
  "removeRef r c =
     (if quitting c then Some c
      else case subscriptions c r of
          None \<Rightarrow> None
        | Some s \<Rightarrow>
            let s = s\<lparr>refCount := refCount s - 1\<rparr> in
            if refCount s < 0 then None
            else if refCount s \<le> 0 then
              let s = s\<lparr>retryTimer := None\<rparr> in
              if subscriptionID s = [] then Some (put_sub r s c)
              else Some ((put_sub r (s\<lparr>es_state := Unsubscribing, subscriptionID := []\<rparr>) c)\<lparr>deletes := deletes c @ [r]\<rparr>)
            else Some (put_sub r s c))"

section \<open>Replies\<close>

definition markRequestSubscribed :: "SubscriptionRequest \<Rightarrow> nat \<Rightarrow> string \<Rightarrow> Controller \<Rightarrow> Controller option" where
  "markRequestSubscribed r sid i c =
     (if quitting c then Some c
      else case connection_of c sid of
          None \<Rightarrow> Some c
        | Some l \<Rightarrow>
            let l = (if r \<in> set (con_subscriptions l) then l else l\<lparr>con_subscriptions := con_subscriptions l @ [r]\<rparr>);
                c = c\<lparr>sessions := (sessions c)(sid \<mapsto> Some l)\<rparr>;
                s = sub_at c r
            in if es_state s \<noteq> Subscribing \<and> es_state s \<noteq> Retrying then None
               else Some (put_sub r (s\<lparr>es_conn := Some sid, subscriptionID := i, es_state := Subscribed\<rparr>) c))"

definition markRequestFailed :: "SubscriptionRequest \<Rightarrow> Controller \<Rightarrow> Controller" where
  "markRequestFailed r c = (if quitting c then c else put_sub r ((sub_at c r)\<lparr>es_state := Failed\<rparr>) c)"

definition markRequestUnsubscribed :: "SubscriptionRequest \<Rightarrow> Controller \<Rightarrow> Controller option" where
  "markRequestUnsubscribed r c =
     (if quitting c then Some c
      else
        let s = sub_at c r in
        if es_state s \<noteq> Unsubscribing \<and> es_state s \<noteq> Retrying then None
        else if retryTimer s \<noteq> None then None
        else
          let c = (case es_conn s of
                None \<Rightarrow> c
              | Some sid \<Rightarrow>
                  (case connection_of c sid of
                     None \<Rightarrow> c
                   | Some l \<Rightarrow> c\<lparr>sessions := (sessions c)(sid \<mapsto>
                       Some (l\<lparr>con_subscriptions := filter (\<lambda>r'. r' \<noteq> r) (con_subscriptions l)\<rparr>))\<rparr>))
          in Some (put_sub r (s\<lparr>es_state := Unsubscribed, retryAttempts := 0, es_conn := None\<rparr>) c))"

datatype es_error = BadRequest | Unauthorized | Forbidden | Conflict | Ratelimited | Forwarded

definition createFailed :: "SubscriptionRequest \<Rightarrow> es_error \<Rightarrow> Controller \<Rightarrow> Controller" where
  "createFailed r err c =
     (case err of
        Forbidden \<Rightarrow> c\<lparr>posted := posted c @ [RetryTask r 2000 2]\<rparr>
      | Forwarded \<Rightarrow> c\<lparr>posted := posted c @ [RetryTask r 2000 5]\<rparr>
      | _ \<Rightarrow> markRequestFailed r c)"

section \<open>Closed sessions\<close>

definition resetSubscription :: "SubscriptionRequest \<Rightarrow> Controller \<Rightarrow> Controller" where
  "resetSubscription r c =
     (case subscriptions c r of
        None \<Rightarrow> c
      | Some s \<Rightarrow> put_sub r (s\<lparr>es_conn := None, retryAttempts := 0, es_state := Subscribing\<rparr>) c)"

fun resubscribeLoop :: "bool \<Rightarrow> SubscriptionRequest list \<Rightarrow> Controller \<Rightarrow> Controller option" where
  "resubscribeLoop ok [] c = Some c"
| "resubscribeLoop ok (r # rs) c =
     (case subscribe_request r False ok c of None \<Rightarrow> None | Some c' \<Rightarrow> resubscribeLoop ok rs c')"

text \<open>\<open>subs\<close> are the requests of the listener in the order of the hash set.\<close>

definition reconnectConnection ::
  "Connection \<Rightarrow> bool \<Rightarrow> SubscriptionRequest list \<Rightarrow> bool \<Rightarrow> Controller \<Rightarrow> Controller option" where
  "reconnectConnection l hasReconnectURL subs ok c =
     (let c = clearConnections c in
      if subs = [] then Some c
      else if hasReconnectURL then Some (createConnection ok l c)
      else resubscribeLoop ok subs (foldl (\<lambda>c r. resetSubscription r c) c subs))"

text \<open>\<open>onClose\<close> is called with the listener moved out of the session.\<close>

definition sessionClosed :: "nat \<Rightarrow> bool \<Rightarrow> SubscriptionRequest list \<Rightarrow> bool \<Rightarrow> Controller \<Rightarrow> Controller option" where
  "sessionClosed sid hasReconnectURL subs ok c =
     (case connection_of c sid of
        None \<Rightarrow> Some c
      | Some l \<Rightarrow> reconnectConnection l hasReconnectURL subs ok (c\<lparr>sessions := (sessions c)(sid \<mapsto> None)\<rparr>))"

section \<open>Events\<close>

datatype es_event =
    Subscribe SubscriptionRequest
  | Release SubscriptionRequest
  | RunTask bool
  | TimerFired SubscriptionRequest bool
  | CreateReply nat string
  | CreateError nat es_error
  | DeleteReply nat
  | Welcome nat string
  | Closed nat bool "SubscriptionRequest list" bool
  | SessionDestroyed nat
  | SetQuitting

definition without :: "nat \<Rightarrow> 'a list \<Rightarrow> 'a list" where
  "without k xs = take k xs @ drop (Suc k) xs"

fun runTask :: "es_task \<Rightarrow> bool \<Rightarrow> Controller \<Rightarrow> Controller option" where
  "runTask (SubscribeTask r) ok c = subscribe_request r False ok c"
| "runTask (RetryTask r delay maxAttempts) ok c = retrySubscription r delay maxAttempts c"

fun event_enabled :: "es_event \<Rightarrow> Controller \<Rightarrow> bool" where
  "event_enabled (Subscribe r) c = (\<not> quitting c)"
| "event_enabled (Release r) c = (r \<in> set (handles c))"
| "event_enabled (RunTask ok) c = (posted c \<noteq> [])"
| "event_enabled (TimerFired r ok) c = (retryTimer (sub_at c r) \<noteq> None)"
| "event_enabled (CreateReply k i) c = (k < length (creates c) \<and> i \<noteq> [])"
| "event_enabled (CreateError k err) c = (k < length (creates c))"
| "event_enabled (DeleteReply k) c = (k < length (deletes c))"
| "event_enabled (Welcome sid i) c = (connection_of c sid \<noteq> None \<and> i \<noteq> [])"
| "event_enabled (Closed sid url subs ok) c =
     (case connection_of c sid of None \<Rightarrow> False | Some l \<Rightarrow> set subs = set (con_subscriptions l) \<and> distinct subs)"
| "event_enabled (SessionDestroyed sid) c = (sessions c sid = Some None)"
| "event_enabled SetQuitting c = True"

fun handle_event :: "es_event \<Rightarrow> Controller \<Rightarrow> Controller option" where
  "handle_event (Subscribe r) c = subscribe r c"
| "handle_event (Release r) c = removeRef r (c\<lparr>handles := remove1 r (handles c)\<rparr>)"
| "handle_event (RunTask ok) c = runTask (hd (posted c)) ok (c\<lparr>posted := tl (posted c)\<rparr>)"
| "handle_event (TimerFired r ok) c = subscribe_request r True ok c"
| "handle_event (CreateReply k i) c =
     markRequestSubscribed (fst (creates c ! k)) (snd (creates c ! k)) i (c\<lparr>creates := without k (creates c)\<rparr>)"
| "handle_event (CreateError k err) c =
     Some (createFailed (fst (creates c ! k)) err (c\<lparr>creates := without k (creates c)\<rparr>))"
| "handle_event (DeleteReply k) c = markRequestUnsubscribed (deletes c ! k) (c\<lparr>deletes := without k (deletes c)\<rparr>)"
| "handle_event (Welcome sid i) c =
     (case connection_of c sid of
        None \<Rightarrow> Some c
      | Some l \<Rightarrow> Some (c\<lparr>sessions := (sessions c)(sid \<mapsto> Some (l\<lparr>sessionID := i\<rparr>))\<rparr>))"
| "handle_event (Closed sid url subs ok) c = sessionClosed sid url subs ok c"
| "handle_event (SessionDestroyed sid) c = Some (c\<lparr>sessions := (sessions c)(sid := None)\<rparr>)"
| "handle_event SetQuitting c = Some (c\<lparr>quitting := True\<rparr>)"

section \<open>Calm runs\<close>

text \<open>How many attempts to subscribe are under way for a request, apart from its timer, and with it.\<close>

definition attempts_posted :: "Controller \<Rightarrow> SubscriptionRequest \<Rightarrow> nat" where
  "attempts_posted c r =
     length (filter (\<lambda>t. case t of SubscribeTask r' \<Rightarrow> r' = r | RetryTask r' d m \<Rightarrow> r' = r) (posted c)) +
     length (filter (\<lambda>x. fst x = r) (creates c))"

definition in_flight :: "Controller \<Rightarrow> SubscriptionRequest \<Rightarrow> nat" where
  "in_flight c r = attempts_posted c r + (if retryTimer (sub_at c r) = None then 0 else 1)"

text \<open>A request that a session with a listener carries.\<close>

definition listed :: "Controller \<Rightarrow> SubscriptionRequest \<Rightarrow> bool" where
  "listed c r \<longleftrightarrow> (\<exists>sid l. connection_of c sid = Some l \<and> r \<in> set (con_subscriptions l))"

text \<open>Events that do not run into one of the races of the controller: nobody subscribes again while the request
  is being unsubscribed or after its retry timer was cancelled, the last handle is not released while a
  subscription is made again after a reconnect, and a session is not closed while a reply for it is awaited
  or while it carries requests that are not subscribed.\<close>

fun calm :: "es_event \<Rightarrow> Controller \<Rightarrow> bool" where
  "calm (Subscribe r) c =
     (es_state (sub_at c r) \<noteq> Unsubscribing \<and> (es_state (sub_at c r) = Retrying \<longrightarrow> in_flight c r > 0))"
| "calm (Release r) c =
     (refCount (sub_at c r) = 1 \<longrightarrow>
        subscriptionID (sub_at c r) = [] \<or> es_state (sub_at c r) \<in> {Subscribed, Failed})"
| "calm (Closed sid url subs ok) c =
     (sid \<notin> snd ` set (creates c) \<and> (if url then ok else list_all (\<lambda>r. es_state (sub_at c r) = Subscribed) subs))"
| "calm SetQuitting c = False"
| "calm _ c = True"

inductive calm_run :: "Controller \<Rightarrow> bool" where
  start: "calm_run es_init"
| step: "calm_run c \<Longrightarrow> event_enabled e c \<Longrightarrow> calm e c \<Longrightarrow> handle_event e c = Some c' \<Longrightarrow> calm_run c'"

section \<open>The invariant\<close>

text \<open>A subscription with \<open>h\<close> handles, \<open>t\<close> posted tasks and create requests, \<open>d\<close> delete requests.\<close>

definition sub_inv :: "Subscription \<Rightarrow> nat \<Rightarrow> nat \<Rightarrow> nat \<Rightarrow> bool \<Rightarrow> bool" where
  "sub_inv s h t d carried \<longleftrightarrow> refCount s = int h \<and>
     (case es_state s of
        Unsubscribed \<Rightarrow> t = 0 \<and> retryTimer s = None \<and> h = 0 \<and> d = 0 \<and> retryAttempts s \<ge> 0
      | Failed \<Rightarrow> t = 0 \<and> retryTimer s = None \<and> d = 0 \<and> retryAttempts s \<ge> 0
      | Subscribing \<Rightarrow> t = 1 \<and> retryTimer s = None \<and> d = 0 \<and> retryAttempts s = 0
      | Retrying \<Rightarrow> d = 0 \<and> retryAttempts s > 0 \<and>
          (if retryTimer s = None then t \<le> 1 \<and> (t = 0 \<longrightarrow> h = 0) else t = 0)
      | Subscribed \<Rightarrow> t = 0 \<and> retryTimer s = None \<and> d = 0 \<and> carried
      | Unsubscribing \<Rightarrow> t = 0 \<and> retryTimer s = None \<and> h = 0 \<and> d = 1)"

abbreviation deletes_of :: "Controller \<Rightarrow> SubscriptionRequest \<Rightarrow> nat" where
  "deletes_of c r \<equiv> count_list (deletes c) r"

definition inv_at :: "Controller \<Rightarrow> SubscriptionRequest \<Rightarrow> bool" where
  "inv_at c r \<longleftrightarrow> sub_inv (sub_at c r) (count_list (handles c) r) (attempts_posted c r) (deletes_of c r) (listed c r)"

definition sessions_inv :: "Controller \<Rightarrow> bool" where
  "sessions_inv c \<longleftrightarrow> (\<forall>x\<in>set (creates c). connection_of c (snd x) \<noteq> None) \<and>
     (\<forall>sid. sessions c sid \<noteq> None \<longrightarrow> sid < nextSession c) \<and> \<not> quitting c \<and>
     (\<forall>r d m. RetryTask r d m \<in> set (posted c) \<longrightarrow> m > 0)"

definition es_inv :: "Controller \<Rightarrow> bool" where
  "es_inv c \<longleftrightarrow> (\<forall>r. inv_at c r) \<and> sessions_inv c"

lemma sub_at_put [simp]: "sub_at (put_sub r s c) r' = (if r' = r then s else sub_at c r')"
  by (simp add: sub_at_def put_sub_def)

lemma put_sub_frame [simp]:
  "connections (put_sub r s c) = connections c" "quitting (put_sub r s c) = quitting c"
  "sessions (put_sub r s c) = sessions c" "nextSession (put_sub r s c) = nextSession c"
  "posted (put_sub r s c) = posted c" "creates (put_sub r s c) = creates c" "deletes (put_sub r s c) = deletes c"
  "handles (put_sub r s c) = handles c"
  by (simp_all add: put_sub_def)

lemma connection_of_put [simp]: "connection_of (put_sub r s c) = connection_of c"
  by (simp add: connection_of_def fun_eq_iff)

lemma listed_put [simp]: "listed (put_sub r s c) = listed c"
  by (simp add: listed_def fun_eq_iff)

lemma attempts_posted_put [simp]: "attempts_posted (put_sub r s c) = attempts_posted c"
  by (simp add: attempts_posted_def fun_eq_iff)

lemma inv_at_put:
  "inv_at (put_sub r s c) r' \<longleftrightarrow>
     (if r' = r then sub_inv s (count_list (handles c) r) (attempts_posted c r) (deletes_of c r) (listed c r) else inv_at c r')"
  by (simp add: inv_at_def)

lemma sessions_inv_put [simp]: "sessions_inv (put_sub r s c) = sessions_inv c"
  by (simp add: sessions_inv_def)

text \<open>A request whose only attempt was just taken up; requests in \<open>R\<close> are like that, the others fulfil the
  invariant.\<close>

definition taken_at :: "Controller \<Rightarrow> SubscriptionRequest \<Rightarrow> bool" where
  "taken_at c r \<longleftrightarrow> attempts_posted c r = 0 \<and> deletes_of c r = 0 \<and> retryTimer (sub_at c r) = None \<and>
     refCount (sub_at c r) = int (count_list (handles c) r) \<and>
     (es_state (sub_at c r) = Subscribing \<and> retryAttempts (sub_at c r) = 0 \<or>
      es_state (sub_at c r) = Retrying \<and> retryAttempts (sub_at c r) > 0)"

definition ok_at :: "SubscriptionRequest set \<Rightarrow> Controller \<Rightarrow> SubscriptionRequest \<Rightarrow> bool" where
  "ok_at R c r \<longleftrightarrow> (if r \<in> R then taken_at c r else inv_at c r)"

definition inv_except :: "SubscriptionRequest set \<Rightarrow> Controller \<Rightarrow> bool" where
  "inv_except R c \<longleftrightarrow> (\<forall>r. ok_at R c r) \<and> sessions_inv c"

lemma es_inv_except: "es_inv c \<longleftrightarrow> inv_except {} c"
  by (simp add: es_inv_def inv_except_def ok_at_def)

lemma inv_exceptD:
  assumes "inv_except R c"
  shows "sessions_inv c" "ok_at R c r" "r \<in> R \<Longrightarrow> taken_at c r" "r \<notin> R \<Longrightarrow> inv_at c r"
  using assms by (auto simp: inv_except_def ok_at_def split: if_splits)

lemma taken_at_put: "r' \<noteq> r \<Longrightarrow> taken_at (put_sub r s c) r' = taken_at c r'"
  by (simp add: taken_at_def)

lemma inv_except_put:
  assumes "inv_except R c"
    and "sub_inv s (count_list (handles c) r) (attempts_posted c r) (deletes_of c r) (listed c r)"
  shows "inv_except (R - {r}) (put_sub r s c)"
proof -
  have "ok_at (R - {r}) (put_sub r s c) r'" for r'
    using assms inv_exceptD(2) [OF assms(1), of r'] by (cases "r' = r") (simp_all add: ok_at_def inv_at_put taken_at_put)
  then show ?thesis using inv_exceptD(1) [OF assms(1)] by (auto simp: inv_except_def)
qed

lemma es_inv_put:
  assumes "sessions_inv c" "\<forall>r'. r' \<noteq> r \<longrightarrow> inv_at c r'"
    and "sub_inv s (count_list (handles c) r) (attempts_posted c r) (deletes_of c r) (listed c r)"
  shows "es_inv (put_sub r s c)"
  using assms by (simp add: es_inv_def inv_at_put)

lemma retrySubscription_inv:
  assumes "inv_except R c" "r \<in> R" "maxAttempts > 0"
  shows "\<exists>c'. retrySubscription r delay maxAttempts c = Some c' \<and> inv_except (R - {r}) c'"
proof -
  let ?s = "sub_at c r"
  have t: "attempts_posted c r = 0" "deletes_of c r = 0"
    "retryTimer ?s = None" "refCount ?s = int (count_list (handles c) r)"
    "es_state ?s = Subscribing \<and> retryAttempts ?s = 0 \<or> es_state ?s = Retrying \<and> retryAttempts ?s > 0"
    using inv_exceptD(3) [OF assms(1,2)] by (simp_all add: taken_at_def)
  have a: "retryAttempts ?s \<ge> 0" using t(5) by auto
  consider "refCount ?s = 0"
    | "refCount ?s \<noteq> 0" "retryAttempts ?s = 0 \<or> retryAttempts ?s > maxAttempts"
    | "refCount ?s \<noteq> 0" "es_state ?s = Retrying" "0 < retryAttempts ?s" "retryAttempts ?s \<le> maxAttempts"
    using t(5) by linarith
  then show ?thesis
  proof cases
    case 1
    then show ?thesis using a t inv_except_put [OF assms(1)]
      by (simp add: retrySubscription_def Let_def sub_inv_def)
  next
    case 2
    then show ?thesis using a t inv_except_put [OF assms(1)] assms(3)
      by (auto simp: retrySubscription_def Let_def sub_inv_def)
  next
    case 3
    then show ?thesis using a t inv_except_put [OF assms(1)]
      by (auto simp: retrySubscription_def Let_def sub_inv_def)
  qed
qed

lemma viableLoop_ready:
  "viableLoop c sids n = (Some sid, m) \<Longrightarrow> connection_of c sid \<noteq> None"
  by (induction sids arbitrary: n) (auto split: option.splits if_splits)

lemma sub_inv_mono: "sub_inv s h t d carried \<Longrightarrow> (carried \<Longrightarrow> carried') \<Longrightarrow> sub_inv s h t d carried'"
  by (auto simp: sub_inv_def split: sub_state.splits)

text \<open>What an operation on connections leaves alone.\<close>

definition same_requests :: "Controller \<Rightarrow> Controller \<Rightarrow> bool" where
  "same_requests c c' \<longleftrightarrow> subscriptions c' = subscriptions c \<and> handles c' = handles c \<and> posted c' = posted c \<and>
     creates c' = creates c \<and> deletes c' = deletes c"

lemma same_requests_simps:
  assumes "same_requests c c'"
  shows "sub_at c' = sub_at c" "attempts_posted c' = attempts_posted c" "handles c' = handles c"
    "deletes c' = deletes c" "creates c' = creates c" "in_flight c' = in_flight c"
  using assms by (simp_all add: same_requests_def sub_at_def attempts_posted_def in_flight_def fun_eq_iff)

lemma inv_at_same:
  assumes "same_requests c c'" "listed c r \<Longrightarrow> listed c' r" "inv_at c r"
  shows "inv_at c' r"
  using assms(3) sub_inv_mono [OF _ assms(2)] by (simp add: inv_at_def same_requests_simps [OF assms(1)])

lemma createConnection_same: "same_requests c (createConnection ok l c)"
  by (simp add: same_requests_def createConnection_def)

lemma createConnection_sessions:
  assumes "sessions_inv c"
  shows "sessions_inv (createConnection ok l c)" "listed c r \<Longrightarrow> listed (createConnection ok l c) r"
proof -
  have fresh: "connection_of c (nextSession c) = None" "sessions c (nextSession c) = None"
    using assms by (auto simp: sessions_inv_def connection_of_def split: option.splits)
  have other: "connection_of (createConnection ok l c) sid = connection_of c sid" if "connection_of c sid \<noteq> None" for sid
    using that fresh by (auto simp: createConnection_def connection_of_def split: option.splits)
  show "sessions_inv (createConnection ok l c)"
  proof -
    have "connection_of (createConnection ok l c) (snd x) \<noteq> None" if "x \<in> set (creates c)" for x
      using that assms other [of "snd x"] by (auto simp: sessions_inv_def)
    moreover have "sid < nextSession (createConnection ok l c)" if "sessions (createConnection ok l c) sid \<noteq> None" for sid
      using that assms by (auto simp: sessions_inv_def createConnection_def less_Suc_eq split: if_splits)
    ultimately show ?thesis
      using assms by (auto simp: sessions_inv_def same_requests_simps [OF createConnection_same] createConnection_def)
  qed
  show "listed (createConnection ok l c) r" if "listed c r"
    using that other by (fastforce simp: listed_def)
qed

lemma inv_except_createConnection:
  assumes "inv_except R c"
  shows "inv_except R (createConnection ok l c)"
proof -
  note s = createConnection_sessions [OF inv_exceptD(1) [OF assms], where ok = ok and l = l]
  have "ok_at R (createConnection ok l c) r'" for r'
    using inv_exceptD(2) [OF assms, of r'] inv_at_same [OF createConnection_same s(2)]
    by (auto simp: ok_at_def taken_at_def same_requests_simps [OF createConnection_same])
  then show ?thesis using s(1) by (simp add: inv_except_def)
qed

lemma attempts_posted_create:
  "attempts_posted (c\<lparr>creates := creates c @ [(r, sid)]\<rparr>) r' = attempts_posted c r' + (if r' = r then 1 else 0)"
  by (simp add: attempts_posted_def)

lemma creates_frame [simp]:
  "sub_at (c\<lparr>creates := xs\<rparr>) = sub_at c" "connection_of (c\<lparr>creates := xs\<rparr>) = connection_of c"
  "listed (c\<lparr>creates := xs\<rparr>) = listed c"
  by (simp_all add: sub_at_def connection_of_def listed_def fun_eq_iff)

lemma inv_except_create:
  assumes "inv_except R c" "r \<in> R" "connection_of c sid \<noteq> None"
  shows "inv_except (R - {r}) (c\<lparr>creates := creates c @ [(r, sid)]\<rparr>)"
proof -
  let ?c = "c\<lparr>creates := creates c @ [(r, sid)]\<rparr>"
  have "ok_at (R - {r}) ?c r'" for r'
  proof (cases "r' = r")
    case True
    then show ?thesis using inv_exceptD(3) [OF assms(1,2)]
      by (auto simp: ok_at_def inv_at_def attempts_posted_create taken_at_def sub_inv_def)
  next
    case False
    then have "taken_at ?c r' = taken_at c r'" "inv_at ?c r' = inv_at c r'"
      by (simp_all add: taken_at_def inv_at_def attempts_posted_create)
    then show ?thesis using inv_exceptD(2) [OF assms(1), of r'] False by (simp add: ok_at_def)
  qed
  moreover have "sessions_inv ?c" using inv_exceptD(1) [OF assms(1)] assms(3) by (auto simp: sessions_inv_def)
  ultimately show ?thesis by (simp add: inv_except_def)
qed

lemma inv_except_put_same:
  assumes "inv_except R c" "r \<in> R"
  shows "inv_except R (put_sub r (sub_at c r) c)"
proof -
  have "taken_at (put_sub r (sub_at c r) c) r' = taken_at c r'" "inv_at (put_sub r (sub_at c r) c) r' = inv_at c r'" for r'
    by (simp_all add: taken_at_def inv_at_def)
  then have "ok_at R (put_sub r (sub_at c r) c) r'" for r'
    using inv_exceptD(2) [OF assms(1), of r'] by (simp add: ok_at_def)
  then show ?thesis using inv_exceptD(1) [OF assms(1)] by (simp add: inv_except_def)
qed

lemma attempt_subscribe:
  assumes "inv_except R c" "r \<in> R"
  shows "\<exists>c'. (case getViableConnection c of
      (Some sid, n) \<Rightarrow> Some (c\<lparr>creates := creates c @ [(r, sid)]\<rparr>)
    | (None, n) \<Rightarrow> if n = 0 then retrySubscription r 500 10 (createConnection ok new_Connection c)
                   else retrySubscription r 250 10 c) = Some c' \<and> inv_except (R - {r}) c'"
proof -
  obtain v n where v: "getViableConnection c = (v, n)" by (cases "getViableConnection c")
  show ?thesis
  proof (cases v)
    case None
    then show ?thesis
      using retrySubscription_inv [OF assms, of 10 250]
        retrySubscription_inv [OF inv_except_createConnection [OF assms(1)] assms(2), of 10 500 ok new_Connection]
      by (simp add: v)
  next
    case (Some sid)
    then have "connection_of c sid \<noteq> None"
      using v viableLoop_ready unfolding getViableConnection_def by blast
    then show ?thesis using inv_except_create [OF assms] Some by (simp add: v)
  qed
qed

lemma subscribe_request_inv:
  assumes "inv_except R c" "r \<in> R"
  shows "\<exists>c'. subscribe_request r False ok c = Some c' \<and> inv_except (R - {r}) c'"
proof -
  have "retryTimer (sub_at c r) = None" using inv_exceptD(3) [OF assms] by (simp add: taken_at_def)
  then show ?thesis
    using attempt_subscribe [OF inv_except_put_same [OF assms] assms(2), of ok] by (simp add: subscribe_request_def Let_def)
qed

lemma resubscribeLoop_inv:
  "inv_except (set rs) c \<Longrightarrow> distinct rs \<Longrightarrow> \<exists>c'. resubscribeLoop ok rs c = Some c' \<and> es_inv c'"
proof (induction rs arbitrary: c)
  case Nil
  then show ?case by (simp add: es_inv_except)
next
  case (Cons r rs)
  obtain c' where "subscribe_request r False ok c = Some c'" "inv_except (set (r # rs) - {r}) c'"
    using subscribe_request_inv [OF Cons.prems(1), of r ok] by auto
  moreover from this Cons.prems(2) have "inv_except (set rs) c'" by simp
  ultimately show ?case using Cons by simp
qed

lemma timer_inv:
  assumes "es_inv c" "retryTimer (sub_at c r) \<noteq> None"
  shows "\<exists>c'. subscribe_request r True ok c = Some c' \<and> es_inv c'"
proof -
  let ?s = "(sub_at c r)\<lparr>retryTimer := None\<rparr>"
  have "inv_at c r" using assms(1) by (simp add: es_inv_def)
  then have "taken_at (put_sub r ?s c) r"
    using assms(2) by (auto simp: taken_at_def inv_at_def sub_inv_def split: sub_state.splits if_splits)
  then have "inv_except {r} (put_sub r ?s c)"
    using assms(1) by (simp add: inv_except_def ok_at_def es_inv_def inv_at_put)
  from attempt_subscribe [OF this, of r ok] show ?thesis
    using assms(2) by (simp add: subscribe_request_def Let_def es_inv_except)
qed

lemma field_frame [simp]:
  "sub_at (c\<lparr>handles := hs\<rparr>) = sub_at c" "connection_of (c\<lparr>handles := hs\<rparr>) = connection_of c"
  "listed (c\<lparr>handles := hs\<rparr>) = listed c" "attempts_posted (c\<lparr>handles := hs\<rparr>) = attempts_posted c"
  "sub_at (c\<lparr>deletes := ds\<rparr>) = sub_at c" "connection_of (c\<lparr>deletes := ds\<rparr>) = connection_of c"
  "listed (c\<lparr>deletes := ds\<rparr>) = listed c" "attempts_posted (c\<lparr>deletes := ds\<rparr>) = attempts_posted c"
  "sub_at (c\<lparr>posted := ts\<rparr>) = sub_at c" "connection_of (c\<lparr>posted := ts\<rparr>) = connection_of c"
  "listed (c\<lparr>posted := ts\<rparr>) = listed c" "sub_at (c\<lparr>sessions := ss\<rparr>) = sub_at c"
  "attempts_posted (c\<lparr>sessions := ss\<rparr>) = attempts_posted c"
  by (simp_all add: sub_at_def connection_of_def listed_def attempts_posted_def fun_eq_iff)

lemma sessions_inv_frame [simp]:
  "sessions_inv (c\<lparr>handles := hs\<rparr>) = sessions_inv c" "sessions_inv (c\<lparr>deletes := ds\<rparr>) = sessions_inv c"
  by (simp_all add: sessions_inv_def)

definition task_request :: "es_task \<Rightarrow> SubscriptionRequest" where
  "task_request t = (case t of SubscribeTask r \<Rightarrow> r | RetryTask r d m \<Rightarrow> r)"

lemma attempts_posted_alt:
  "attempts_posted c r = length (filter (\<lambda>t. task_request t = r) (posted c)) + length (filter (\<lambda>x. fst x = r) (creates c))"
proof -
  have "(case t of SubscribeTask r' \<Rightarrow> r' = r | RetryTask r' d m \<Rightarrow> r' = r) \<longleftrightarrow> task_request t = r" for t
    by (cases t) (simp_all add: task_request_def)
  then show ?thesis by (simp add: attempts_posted_def)
qed

lemma attempts_posted_task:
  "attempts_posted (c\<lparr>posted := posted c @ [t]\<rparr>) r = attempts_posted c r + (if task_request t = r then 1 else 0)"
  by (simp add: attempts_posted_alt)

lemma subscribe_inv:
  assumes inv: "es_inv c" and calm: "calm (Subscribe r) c"
  shows "\<exists>c'. subscribe r c = Some c' \<and> es_inv c'"
proof -
  let ?s = "sub_at c r"
  have i: "inv_at c r" and si: "sessions_inv c" and others: "\<And>r'. inv_at c r'" using inv by (simp_all add: es_inv_def)
  have q: "\<not> quitting c" using si by (simp add: sessions_inv_def)
  have ref: "refCount ?s = int (count_list (handles c) r)" using i by (simp add: inv_at_def sub_inv_def)
  show ?thesis
  proof (cases "es_state ?s = Unsubscribed \<or> es_state ?s = Failed")
    case True
    define s' where "s' = ?s\<lparr>es_state := Subscribing, retryAttempts := 0, refCount := refCount ?s + 1\<rparr>"
    define c' where "c' = (put_sub r s' c)\<lparr>handles := r # handles c, posted := posted c @ [SubscribeTask r]\<rparr>"
    have e: "subscribe r c = Some c'"
      using True q i ref by (auto simp: subscribe_def Let_def inv_at_def sub_inv_def c'_def s'_def)
    have at: "attempts_posted c' r' = attempts_posted c r' + (if r = r' then 1 else 0)" for r'
      using attempts_posted_task [of "(put_sub r s' c)\<lparr>handles := r # handles c\<rparr>" "SubscribeTask r" r']
      by (simp add: c'_def task_request_def)
    have "sub_inv s' (Suc (count_list (handles c) r)) (attempts_posted c r + 1) (deletes_of c r) (listed c r)"
      using True i by (auto simp: inv_at_def sub_inv_def s'_def)
    then have "inv_at c' r'" for r'
      using others [of r'] at [of r'] by (cases "r' = r") (simp_all add: inv_at_def c'_def)
    moreover have "sessions_inv c'" using si by (auto simp: sessions_inv_def c'_def)
    ultimately show ?thesis using e by (auto simp: es_inv_def)
  next
    case False
    define s' where "s' = ?s\<lparr>refCount := refCount ?s + 1\<rparr>"
    define c' where "c' = (put_sub r s' c)\<lparr>handles := r # handles c\<rparr>"
    have e: "subscribe r c = Some c'"
      using False q ref by (auto simp: subscribe_def Let_def c'_def s'_def)
    have "sub_inv s' (Suc (count_list (handles c) r)) (attempts_posted c r) (deletes_of c r) (listed c r)"
      using False i calm by (auto simp: inv_at_def sub_inv_def s'_def in_flight_def split: sub_state.splits if_splits)
    then have "inv_at c' r'" for r'
      using others [of r'] by (cases "r' = r") (simp_all add: inv_at_def c'_def)
    moreover have "sessions_inv c'" using si by (auto simp: sessions_inv_def c'_def)
    ultimately show ?thesis using e by (auto simp: es_inv_def)
  qed
qed

lemma count_list_remove1: "count_list (remove1 x xs) y = count_list xs y - (if x = y then 1 else 0)"
  by (induction xs) auto

lemma count_list_pos: "x \<in> set xs \<Longrightarrow> 0 < count_list xs x"
  using count_list_0_iff [of xs x] by blast

lemma removeRef_inv:
  assumes inv: "es_inv c" and r: "r \<in> set (handles c)" and calm: "calm (Release r) c"
  shows "\<exists>c'. removeRef r (c\<lparr>handles := remove1 r (handles c)\<rparr>) = Some c' \<and> es_inv c'"
proof -
  let ?s = "sub_at c r"
  let ?c = "c\<lparr>handles := remove1 r (handles c)\<rparr>"
  obtain h where h: "count_list (handles c) r = Suc h" using r gr0_conv_Suc count_list_pos by metis
  have i: "inv_at c r" and si: "sessions_inv c" and others: "\<And>r'. inv_at c r'" using inv by (simp_all add: es_inv_def)
  have q: "\<not> quitting c" using si by (simp add: sessions_inv_def)
  have ref: "refCount ?s = int (Suc h)" using i h by (simp add: inv_at_def sub_inv_def)
  then have entry: "subscriptions c r = Some ?s" by (auto simp: sub_at_def new_Subscription_def split: option.splits)
  have inv': "inv_at ?c r'" if "r' \<noteq> r" for r'
    using that others [of r'] by (simp add: inv_at_def count_list_remove1)
  have h': "count_list (handles ?c) r = h" using h by (simp add: count_list_remove1)
  define s1 where "s1 = ?s\<lparr>refCount := int h\<rparr>"
  consider "h \<noteq> 0" | "h = 0" "subscriptionID ?s = []" | "h = 0" "subscriptionID ?s \<noteq> []" by blast
  then show ?thesis
  proof cases
    case 1
    have "removeRef r ?c = Some (put_sub r s1 ?c)"
      using q ref entry 1 by (simp add: removeRef_def s1_def Let_def)
    moreover have "es_inv (put_sub r s1 ?c)"
      by (rule es_inv_put) (use si inv' i h h' 1 in \<open>auto simp: inv_at_def sub_inv_def s1_def split: sub_state.splits if_splits\<close>)
    ultimately show ?thesis by blast
  next
    case 2
    have "removeRef r ?c = Some (put_sub r (s1\<lparr>retryTimer := None\<rparr>) ?c)"
      using q ref entry 2 by (simp add: removeRef_def s1_def Let_def)
    moreover have "es_inv (put_sub r (s1\<lparr>retryTimer := None\<rparr>) ?c)"
      by (rule es_inv_put) (use si inv' i h h' 2 in \<open>auto simp: inv_at_def sub_inv_def s1_def split: sub_state.splits if_splits\<close>)
    ultimately show ?thesis by blast
  next
    case 3
    define s2 where "s2 = s1\<lparr>retryTimer := None, es_state := Unsubscribing, subscriptionID := []\<rparr>"
    define c' where "c' = (put_sub r s2 ?c)\<lparr>deletes := deletes c @ [r]\<rparr>"
    have "removeRef r ?c = Some c'"
      using q ref entry 3 by (simp add: removeRef_def s1_def s2_def c'_def Let_def)
    moreover have "es_state ?s = Subscribed \<or> es_state ?s = Failed" using calm ref 3 by simp
    then have "sub_inv s2 h (attempts_posted c r) (Suc (deletes_of c r)) (listed c r)"
      using i 3(1) by (auto simp: inv_at_def sub_inv_def s1_def s2_def)
    then have "inv_at c' r'" for r' using inv' [of r'] h' by (cases "r' = r") (simp_all add: inv_at_def c'_def)
    moreover have "sessions_inv c'" using si by (simp add: c'_def)
    ultimately show ?thesis by (auto simp: es_inv_def)
  qed
qed

text \<open>A task or a reply takes up the attempt that was under way.\<close>

lemma taken_attempt:
  assumes inv: "es_inv c" and c': "sub_at c' = sub_at c" "handles c' = handles c" "deletes c' = deletes c"
      "listed c' = listed c" "sessions_inv c'"
    and at: "\<And>r'. attempts_posted c r' = attempts_posted c' r' + (if r' = r then 1 else 0)"
  shows "inv_except {r} c'"
proof -
  have i: "inv_at c r" and others: "\<And>r'. inv_at c r'" using inv by (simp_all add: es_inv_def)
  have "attempts_posted c r = Suc (attempts_posted c' r)" using at [of r] by simp
  then have "taken_at c' r"
    using i by (auto simp: taken_at_def c' inv_at_def sub_inv_def split: sub_state.splits if_splits)
  moreover have "inv_at c' r'" if "r' \<noteq> r" for r'
    using that others [of r'] at [of r'] by (simp add: inv_at_def c')
  ultimately show ?thesis using c' by (simp add: inv_except_def ok_at_def)
qed

lemma runTask_inv:
  assumes inv: "es_inv c" and ne: "posted c \<noteq> []"
  shows "\<exists>c'. runTask (hd (posted c)) ok (c\<lparr>posted := tl (posted c)\<rparr>) = Some c' \<and> es_inv c'"
proof -
  obtain t ts where p: "posted c = t # ts" using ne by (cases "posted c") simp_all
  have "sessions_inv c" using inv by (simp add: es_inv_def)
  then have s: "sessions_inv (c\<lparr>posted := ts\<rparr>)" "\<And>r d m. t = RetryTask r d m \<Longrightarrow> m > 0"
    by (auto simp: sessions_inv_def p)
  have "inv_except {task_request t} (c\<lparr>posted := ts\<rparr>)"
    by (rule taken_attempt [OF inv]) (use s(1) in \<open>simp_all add: p attempts_posted_alt\<close>)
  then show ?thesis
    using s(2) subscribe_request_inv [of "{task_request t}" "c\<lparr>posted := ts\<rparr>" "task_request t" ok]
      retrySubscription_inv [of "{task_request t}" "c\<lparr>posted := ts\<rparr>" "task_request t"]
    by (cases t) (simp_all add: p task_request_def es_inv_except)
qed

lemma filter_without:
  "k < length xs \<Longrightarrow> length (filter P xs) = length (filter P (without k xs)) + (if P (xs ! k) then 1 else 0)"
  by (subst (1) id_take_nth_drop [of k xs]) (simp_all add: without_def)

lemma set_without: "set (without k xs) \<subseteq> set xs"
  using set_take_subset set_drop_subset by (fastforce simp: without_def)

lemma taken_create:
  assumes inv: "es_inv c" and k: "k < length (creates c)"
  shows "inv_except {fst (creates c ! k)} (c\<lparr>creates := without k (creates c)\<rparr>)"
proof (rule taken_attempt [OF inv])
  show "sessions_inv (c\<lparr>creates := without k (creates c)\<rparr>)"
    using inv set_without [of k "creates c"] by (auto simp: es_inv_def sessions_inv_def)
  show "attempts_posted c r' = attempts_posted (c\<lparr>creates := without k (creates c)\<rparr>) r' +
      (if r' = fst (creates c ! k) then 1 else 0)" for r'
    using filter_without [OF k, of "\<lambda>x. fst x = r'"] by (simp add: attempts_posted_alt)
qed simp_all

lemma takenD:
  assumes "inv_except {r} c"
  shows "sessions_inv c" "\<forall>r'. r' \<noteq> r \<longrightarrow> inv_at c r'" "attempts_posted c r = 0" "deletes_of c r = 0"
    "retryTimer (sub_at c r) = None" "refCount (sub_at c r) = int (count_list (handles c) r)"
    "es_state (sub_at c r) = Subscribing \<and> retryAttempts (sub_at c r) = 0 \<or>
      es_state (sub_at c r) = Retrying \<and> retryAttempts (sub_at c r) > 0"
  using inv_exceptD [OF assms] by (simp_all add: taken_at_def)

lemma createFailed_inv:
  assumes "inv_except {r} c"
  shows "es_inv (createFailed r err c)"
proof -
  note t = takenD [OF assms]
  have retry: "es_inv (c\<lparr>posted := posted c @ [RetryTask r 2000 m]\<rparr>)" if "m > 0" for m
  proof -
    have "inv_at (c\<lparr>posted := posted c @ [RetryTask r 2000 m]\<rparr>) r'" for r'
      using t by (cases "r' = r") (auto simp: inv_at_def attempts_posted_task task_request_def sub_inv_def)
    moreover have "sessions_inv (c\<lparr>posted := posted c @ [RetryTask r 2000 m]\<rparr>)"
      using t(1) that by (auto simp: sessions_inv_def)
    ultimately show ?thesis by (auto simp: es_inv_def)
  qed
  have failed: "es_inv (markRequestFailed r c)"
  proof -
    have "es_inv (put_sub r ((sub_at c r)\<lparr>es_state := Failed\<rparr>) c)"
      by (rule es_inv_put) (use t in \<open>auto simp: sub_inv_def\<close>)
    then show ?thesis using t(1) by (simp add: markRequestFailed_def sessions_inv_def)
  qed
  show ?thesis using retry failed by (cases err) (simp_all add: createFailed_def)
qed

lemma markRequestSubscribed_inv:
  assumes tk: "inv_except {r} c" and l: "connection_of c sid = Some l"
  shows "\<exists>c'. markRequestSubscribed r sid i c = Some c' \<and> es_inv c'"
proof -
  let ?l = "if r \<in> set (con_subscriptions l) then l else l\<lparr>con_subscriptions := con_subscriptions l @ [r]\<rparr>"
  let ?c = "c\<lparr>sessions := (sessions c)(sid \<mapsto> Some ?l)\<rparr>"
  let ?s = "(sub_at c r)\<lparr>es_conn := Some sid, subscriptionID := i, es_state := Subscribed\<rparr>"
  note t = takenD [OF tk]
  note si = t(1)
  have conn: "connection_of ?c sid' = (if sid' = sid then Some ?l else connection_of c sid')" for sid'
    by (simp add: connection_of_def)
  have li: "listed ?c r" "listed c r' \<Longrightarrow> listed ?c r'" for r'
  proof -
    have "r \<in> set (con_subscriptions ?l)" by simp
    then show "listed ?c r" unfolding listed_def using conn by metis
    show "listed ?c r'" if "listed c r'"
    proof -
      from that obtain sid' l' where "connection_of c sid' = Some l'" "r' \<in> set (con_subscriptions l')"
        by (auto simp: listed_def)
      then show ?thesis unfolding listed_def
        by (intro exI [of _ sid'] exI [of _ "if sid' = sid then ?l else l'"]) (use conn l in auto)
    qed
  qed
  have si': "sessions_inv ?c"
    using si l conn by (auto simp: sessions_inv_def connection_of_def split: option.splits)
  have "es_inv (put_sub r ?s ?c)"
  proof (rule es_inv_put [OF si'])
    show "\<forall>r'. r' \<noteq> r \<longrightarrow> inv_at ?c r'"
      using t(2) li(2) sub_inv_mono by (auto simp: inv_at_def)
    show "sub_inv ?s (count_list (handles ?c) r) (attempts_posted ?c r) (deletes_of ?c r) (listed ?c r)"
      using t li(1) by (auto simp: sub_inv_def)
  qed
  moreover have "markRequestSubscribed r sid i c = Some (put_sub r ?s ?c)"
    using t l si by (auto simp: markRequestSubscribed_def Let_def sessions_inv_def)
  ultimately show ?thesis by blast
qed

lemma deletes_without:
  assumes "k < length (deletes c)"
  shows "deletes_of c r = count_list (without k (deletes c)) r + (if deletes c ! k = r then 1 else 0)"
proof -
  have "count_list (deletes c) r = count_list (take k (deletes c) @ deletes c ! k # drop (Suc k) (deletes c)) r"
    using assms by (simp add: id_take_nth_drop [symmetric])
  then show ?thesis by (simp add: without_def)
qed

lemma markRequestUnsubscribed_inv:
  assumes inv: "es_inv c" and k: "k < length (deletes c)"
  shows "\<exists>c'. markRequestUnsubscribed (deletes c ! k) (c\<lparr>deletes := without k (deletes c)\<rparr>) = Some c' \<and> es_inv c'"
proof -
  let ?r = "deletes c ! k"
  let ?c = "c\<lparr>deletes := without k (deletes c)\<rparr>"
  let ?s = "sub_at c ?r"
  have i: "inv_at c ?r" and si: "sessions_inv c" and others: "\<And>r'. inv_at c r'" using inv by (simp_all add: es_inv_def)
  have "deletes_of c ?r = Suc (deletes_of ?c ?r)" using deletes_without [OF k] by simp
  then have s: "es_state ?s = Unsubscribing" "retryTimer ?s = None" "attempts_posted c ?r = 0" "deletes_of ?c ?r = 0"
      "refCount ?s = 0" "count_list (handles c) ?r = 0"
    using i by (auto simp: inv_at_def sub_inv_def split: sub_state.splits if_splits)
  define drop_listed where "drop_listed = (case es_conn ?s of
      None \<Rightarrow> ?c
    | Some sid \<Rightarrow> (case connection_of ?c sid of
          None \<Rightarrow> ?c
        | Some l \<Rightarrow> ?c\<lparr>sessions := (sessions ?c)(sid \<mapsto>
            Some (l\<lparr>con_subscriptions := filter (\<lambda>r'. r' \<noteq> ?r) (con_subscriptions l)\<rparr>))\<rparr>))"
  have same: "sub_at drop_listed = sub_at c" "handles drop_listed = handles c"
      "deletes drop_listed = without k (deletes c)" "attempts_posted drop_listed = attempts_posted c"
    by (simp_all add: drop_listed_def split: option.split)
  have conn: "connection_of drop_listed sid = None \<longleftrightarrow> connection_of c sid = None" for sid
    by (auto simp: drop_listed_def connection_of_def split: option.splits if_splits)
  have sessions: "(sessions drop_listed sid = None) = (sessions c sid = None)" for sid
    by (auto simp: drop_listed_def connection_of_def split: option.splits if_splits)
  have si': "sessions_inv drop_listed"
  proof -
    have "creates drop_listed = creates c" "nextSession drop_listed = nextSession c" "posted drop_listed = posted c"
      "quitting drop_listed = quitting c" by (simp_all add: drop_listed_def split: option.split)
    then show ?thesis using si conn sessions by (simp add: sessions_inv_def)
  qed
  have li: "listed drop_listed r'" if "listed c r'" "r' \<noteq> ?r" for r'
  proof -
    from that(1) obtain sid l where l: "connection_of c sid = Some l" "r' \<in> set (con_subscriptions l)"
      by (auto simp: listed_def)
    have "\<exists>l'. connection_of drop_listed sid = Some l' \<and> r' \<in> set (con_subscriptions l')"
      using l that(2) by (auto simp: drop_listed_def connection_of_def split: option.splits)
    then show ?thesis by (auto simp: listed_def)
  qed
  let ?s' = "?s\<lparr>es_state := Unsubscribed, retryAttempts := 0, es_conn := None\<rparr>"
  have "es_inv (put_sub ?r ?s' drop_listed)"
  proof (rule es_inv_put [OF si'])
    show "\<forall>r'. r' \<noteq> ?r \<longrightarrow> inv_at drop_listed r'"
    proof (intro allI impI)
      fix r'
      assume r': "r' \<noteq> ?r"
      have "sub_inv (sub_at c r') (count_list (handles c) r') (attempts_posted c r')
          (count_list (without k (deletes c)) r') (listed c r')"
        using others [of r'] deletes_without [OF k, of r'] r' by (simp add: inv_at_def)
      from sub_inv_mono [OF this li [OF _ r']] show "inv_at drop_listed r'" by (simp add: inv_at_def same)
    qed
    show "sub_inv ?s' (count_list (handles drop_listed) ?r) (attempts_posted drop_listed ?r)
        (deletes_of drop_listed ?r) (listed drop_listed ?r)"
      using s by (simp add: same sub_inv_def)
  qed
  moreover have "markRequestUnsubscribed ?r ?c = Some (put_sub ?r ?s' drop_listed)"
    using s si by (simp add: markRequestUnsubscribed_def Let_def drop_listed_def sessions_inv_def cong: option.case_cong)
  ultimately show ?thesis by blast
qed

lemma es_inv_sessions:
  assumes inv: "es_inv c" and c': "same_requests c c'" "posted c' = posted c" "sessions_inv c'"
    and li: "\<And>r. listed c r \<Longrightarrow> listed c' r"
  shows "es_inv c'"
  using inv inv_at_same [OF c'(1) li] c'(3) by (simp add: es_inv_def)

lemma welcome_inv:
  assumes inv: "es_inv c" and l: "connection_of c sid = Some l"
  shows "es_inv (c\<lparr>sessions := (sessions c)(sid \<mapsto> Some (l\<lparr>sessionID := i\<rparr>))\<rparr>)"
proof (rule es_inv_sessions [OF inv])
  let ?c = "c\<lparr>sessions := (sessions c)(sid \<mapsto> Some (l\<lparr>sessionID := i\<rparr>))\<rparr>"
  have si: "sessions_inv c" using inv by (simp add: es_inv_def)
  have conn: "connection_of ?c sid' = (if sid' = sid then Some (l\<lparr>sessionID := i\<rparr>) else connection_of c sid')" for sid'
    by (simp add: connection_of_def)
  show "sessions_inv ?c" using si l conn by (auto simp: sessions_inv_def connection_of_def split: option.splits)
  show "listed ?c r" if "listed c r" for r
  proof -
    from that obtain sid' l' where "connection_of c sid' = Some l'" "r \<in> set (con_subscriptions l')" by (auto simp: listed_def)
    then show ?thesis unfolding listed_def
      by (intro exI [of _ sid'] exI [of _ "if sid' = sid then l\<lparr>sessionID := i\<rparr> else l'"]) (use conn l in auto)
  qed
qed (simp_all add: same_requests_def)

lemma destroyed_inv:
  assumes inv: "es_inv c" and s: "sessions c sid = Some None"
  shows "es_inv (c\<lparr>sessions := (sessions c)(sid := None)\<rparr>)"
proof (rule es_inv_sessions [OF inv])
  let ?c = "c\<lparr>sessions := (sessions c)(sid := None)\<rparr>"
  have "connection_of ?c = connection_of c" using s by (auto simp: connection_of_def fun_eq_iff)
  then show "sessions_inv ?c" "listed c r \<Longrightarrow> listed ?c r" for r
    using inv by (auto simp: es_inv_def sessions_inv_def listed_def)
qed (simp_all add: same_requests_def)

abbreviation resetAll :: "SubscriptionRequest list \<Rightarrow> Controller \<Rightarrow> Controller" where
  "resetAll rs c \<equiv> foldl (\<lambda>c r. resetSubscription r c) c rs"

lemma reset_frame:
  "handles (resetAll rs c) = handles c \<and> deletes (resetAll rs c) = deletes c \<and>
   attempts_posted (resetAll rs c) = attempts_posted c \<and> listed (resetAll rs c) = listed c \<and>
   sessions_inv (resetAll rs c) = sessions_inv c \<and> (\<forall>r. r \<notin> set rs \<longrightarrow> sub_at (resetAll rs c) r = sub_at c r)"
proof (induction rs arbitrary: c)
  case (Cons r rs)
  show ?case using Cons [of "resetSubscription r c"] by (simp add: resetSubscription_def split: option.split)
qed simp

lemma reset_sub:
  "r \<in> set rs \<Longrightarrow> distinct rs \<Longrightarrow> subscriptions c r \<noteq> None \<Longrightarrow>
   sub_at (resetAll rs c) r = (sub_at c r)\<lparr>es_conn := None, retryAttempts := 0, es_state := Subscribing\<rparr>"
proof (induction rs arbitrary: c)
  case (Cons r' rs)
  show ?case
  proof (cases "r = r'")
    case True
    then have "r \<notin> set rs" using Cons.prems(2) by simp
    then have "sub_at (resetAll (r' # rs) c) r = sub_at (resetSubscription r' c) r"
      using reset_frame [of "resetSubscription r' c" rs] by simp
    moreover obtain s where "subscriptions c r' = Some s" using Cons.prems(3) True by blast
    moreover from this have "sub_at c r' = s" by (simp add: sub_at_def)
    ultimately show ?thesis using True by (simp add: resetSubscription_def)
  next
    case False
    then have "subscriptions (resetSubscription r' c) r = subscriptions c r" "sub_at (resetSubscription r' c) r = sub_at c r"
      by (simp_all add: resetSubscription_def put_sub_def sub_at_def split: option.split)
    then show ?thesis using Cons False by simp
  qed
qed simp

text \<open>The state in which \<open>reconnectConnection\<close> does its work: the listener is moved out of the session, and dead
  connections are removed.\<close>

lemma closed_inv:
  assumes inv: "es_inv c" and en: "event_enabled (Closed sid url subs ok) c" and calm: "calm (Closed sid url subs ok) c"
  shows "\<exists>c'. sessionClosed sid url subs ok c = Some c' \<and> es_inv c'"
proof -
  obtain l where l: "connection_of c sid = Some l" and subs: "set subs = set (con_subscriptions l)" "distinct subs"
    using en by (auto split: option.splits)
  define c1 where "c1 = clearConnections (c\<lparr>sessions := (sessions c)(sid \<mapsto> None)\<rparr>)"
  have e: "sessionClosed sid url subs ok c = (if subs = [] then Some c1
      else if url then Some (createConnection ok l c1)
      else resubscribeLoop ok subs (foldl (\<lambda>c r. resetSubscription r c) c1 subs))"
    by (simp add: sessionClosed_def l reconnectConnection_def Let_def c1_def)
  have same: "same_requests c c1" "posted c1 = posted c" by (simp_all add: c1_def same_requests_def clearConnections_def)
  have conn: "connection_of c1 sid' = (if sid' = sid then None else connection_of c sid')" for sid'
    by (simp add: c1_def clearConnections_def connection_of_def)
  have si: "sessions_inv c" using inv by (simp add: es_inv_def)
  have si1: "sessions_inv c1"
  proof -
    have "sessions c sid \<noteq> None" using l by (auto simp: connection_of_def split: option.splits)
    moreover have "snd x \<noteq> sid" if "x \<in> set (creates c)" for x using calm that by auto
    ultimately show ?thesis
      using si conn same by (auto simp: sessions_inv_def same_requests_def c1_def clearConnections_def)
  qed
  have listed1: "listed c1 r" if "listed c r" "r \<notin> set subs" for r
  proof -
    from that(1) obtain sid' l' where l': "connection_of c sid' = Some l'" "r \<in> set (con_subscriptions l')" by (auto simp: listed_def)
    then have "sid' \<noteq> sid" using l that(2) subs(1) by auto
    then show ?thesis using l' conn unfolding listed_def by metis
  qed
  consider "subs = []" | "subs \<noteq> []" "url" | "subs \<noteq> []" "\<not> url" by blast
  then show ?thesis
  proof cases
    case 1
    then show ?thesis using e es_inv_sessions [OF inv same si1] listed1 by simp
  next
    case 2
    then have ok using calm by simp
    have "listed (createConnection ok l c1) r" if "listed c r" for r
    proof (cases "r \<in> set subs")
      case True
      moreover have "connection_of (createConnection ok l c1) (nextSession c1) = Some l"
        using \<open>ok\<close> by (simp add: createConnection_def connection_of_def)
      ultimately show ?thesis using subs(1) unfolding listed_def by blast
    next
      case False
      then show ?thesis using createConnection_sessions(2) [OF si1] listed1 that by blast
    qed
    moreover have "same_requests c (createConnection ok l c1)" "posted (createConnection ok l c1) = posted c"
      using same createConnection_same [of c1 ok l] by (simp_all add: same_requests_def)
    ultimately have "es_inv (createConnection ok l c1)"
      using es_inv_sessions [OF inv] createConnection_sessions(1) [OF si1] by blast
    then show ?thesis using e 2 by simp
  next
    case 3
    let ?c2 = "resetAll subs c1"
    note frame = reset_frame and sub = reset_sub
    have "ok_at (set subs) ?c2 r" for r
    proof (cases "r \<in> set subs")
      case True
      have i: "inv_at c r" using inv by (simp add: es_inv_def)
      have st: "es_state (sub_at c r) = Subscribed" using calm 3 True by (auto simp: list_all_iff)
      then have "subscriptions c1 r \<noteq> None"
        using same(1) by (auto simp: same_requests_def sub_at_def new_Subscription_def split: option.splits)
      from sub [OF True subs(2) this] show ?thesis
        using True i st frame [of c1 subs] same_requests_simps [OF same(1)]
        by (simp add: ok_at_def taken_at_def inv_at_def sub_inv_def)
    next
      case False
      have i: "inv_at c r" using inv by (simp add: es_inv_def)
      have "inv_at c1 r" by (rule inv_at_same [OF same(1) _ i]) (rule listed1 [OF _ False])
      moreover have "inv_at ?c2 r = inv_at c1 r" using frame [of c1 subs] False by (simp add: inv_at_def)
      ultimately show ?thesis using False by (simp add: ok_at_def)
    qed
    then have "inv_except (set subs) ?c2" using frame [of c1 subs] si1 by (simp add: inv_except_def)
    from resubscribeLoop_inv [OF this subs(2), of ok] show ?thesis using e 3 by simp
  qed
qed

section \<open>Every wanted request is served\<close>

lemma handle_event_inv:
  assumes inv: "es_inv c" and en: "event_enabled e c" and calm: "calm e c"
  shows "\<exists>c'. handle_event e c = Some c' \<and> es_inv c'"
proof (cases e)
  case (Subscribe r)
  then show ?thesis using subscribe_inv [OF inv] calm by simp
next
  case (Release r)
  then show ?thesis using removeRef_inv [OF inv] en calm by simp
next
  case (RunTask ok)
  then show ?thesis using runTask_inv [OF inv] en by simp
next
  case (TimerFired r ok)
  then show ?thesis using timer_inv [OF inv] en by simp
next
  case (CreateReply k i)
  then have k: "k < length (creates c)" using en by simp
  have "connection_of c (snd (creates c ! k)) \<noteq> None"
    using inv nth_mem [OF k] by (auto simp: es_inv_def sessions_inv_def)
  then show ?thesis using markRequestSubscribed_inv [OF taken_create [OF inv k]] CreateReply by auto
next
  case (CreateError k err)
  then show ?thesis using createFailed_inv [OF taken_create [OF inv]] en by simp
next
  case (DeleteReply k)
  then show ?thesis using markRequestUnsubscribed_inv [OF inv] en by simp
next
  case (Welcome sid i)
  then show ?thesis using welcome_inv [OF inv] en by auto
next
  case (Closed sid url subs ok)
  then show ?thesis using closed_inv [OF inv, of sid url subs ok] en calm by simp
next
  case (SessionDestroyed sid)
  then show ?thesis using destroyed_inv [OF inv] en by simp
next
  case SetQuitting
  then show ?thesis using calm by simp
qed

lemma calm_run_inv: "calm_run c \<Longrightarrow> es_inv c"
proof (induction rule: calm_run.induct)
  case start
  have "inv_at es_init r" for r
    by (simp add: inv_at_def es_init_def sub_at_def new_Subscription_def sub_inv_def attempts_posted_def)
  then show ?case by (simp add: es_inv_def sessions_inv_def es_init_def)
next
  case (step c e c')
  then show ?case using handle_event_inv [of c e] by auto
qed

definition served :: "Controller \<Rightarrow> SubscriptionRequest \<Rightarrow> bool" where
  "served c r \<longleftrightarrow> es_state (sub_at c r) = Subscribed \<and> listed c r \<or> es_state (sub_at c r) = Failed \<or> in_flight c r = 1"

lemma inv_served:
  assumes "es_inv c"
  shows "r \<in> set (handles c) \<Longrightarrow> served c r" "in_flight c r \<le> 1"
proof -
  have i: "inv_at c r" using assms by (simp add: es_inv_def)
  then show "in_flight c r \<le> 1"
    by (auto simp: inv_at_def sub_inv_def in_flight_def split: sub_state.splits if_splits)
  assume "r \<in> set (handles c)"
  then have "count_list (handles c) r \<noteq> 0" using count_list_pos by fastforce
  then show "served c r" using i
    by (auto simp: served_def inv_at_def sub_inv_def in_flight_def split: sub_state.splits if_splits)
qed

text \<open>
  C22. As long as the races of the controller are avoided, no assertion of it fails, and every request that
  somebody holds a handle for is served: it is subscribed on a session that will make it again when it closes,
  or it has failed for good, or exactly one attempt to subscribe is under way.  There are never two.\<close>

theorem eventsub_requests_served:
  assumes "calm_run c" "event_enabled e c" "calm e c"
  shows "\<exists>c'. handle_event e c = Some c' \<and> (\<forall>r\<in>set (handles c'). served c' r) \<and> (\<forall>r. in_flight c' r \<le> 1)"
  using handle_event_inv [OF calm_run_inv [OF assms(1)] assms(2,3)] inv_served by blast

lemma eventsub_requests_served_witness:
  "\<exists>c'. handle_event (Subscribe \<lparr>subscriptionType = ''channel.ban'', subscriptionVersion = ''1'', conditions = []\<rparr>) es_init = Some c' \<and>
     (\<forall>r\<in>set (handles c'). served c' r) \<and> (\<forall>r. in_flight c' r \<le> 1)"
  by (rule eventsub_requests_served [OF calm_run.start]) (simp_all add: es_init_def sub_at_def new_Subscription_def)

section \<open>Retries end\<close>

text \<open>The steps of a calm run in which a request is subscribing or retrying all the time, with the number of times
  its timer fired.\<close>

inductive trying :: "SubscriptionRequest \<Rightarrow> Controller \<Rightarrow> nat \<Rightarrow> bool" for r where
  trying_start: "calm_run c \<Longrightarrow> es_state (sub_at c r) = Subscribing \<Longrightarrow> trying r c 0"
| trying_step: "trying r c n \<Longrightarrow> event_enabled e c \<Longrightarrow> calm e c \<Longrightarrow> handle_event e c = Some c' \<Longrightarrow>
    es_state (sub_at c' r) \<in> {Subscribing, Retrying} \<Longrightarrow>
    trying r c' (case e of TimerFired r' ok \<Rightarrow> if r' = r then n + 1 else n | _ \<Rightarrow> n)"

lemma trying_calm: "trying r c n \<Longrightarrow> calm_run c \<and> es_state (sub_at c r) \<in> {Subscribing, Retrying}"
  by (induction rule: trying.induct) (auto intro: calm_run.step)

text \<open>What the operations do to the tasks that are posted, and to other requests.\<close>

lemma retrySubscription_frame:
  "retrySubscription r delay m c = Some c' \<Longrightarrow> posted c' = posted c \<and> (\<forall>r'. r' \<noteq> r \<longrightarrow> sub_at c' r' = sub_at c r')"
  by (auto simp: retrySubscription_def Let_def split: if_splits)

lemma createConnection_frame: "posted (createConnection ok l c) = posted c" "sub_at (createConnection ok l c) = sub_at c"
  by (simp_all add: createConnection_def sub_at_def fun_eq_iff)

lemma subscribe_request_frame:
  assumes "subscribe_request r isRetry ok c = Some c'"
  shows "posted c' = posted c \<and> (\<forall>r'. r' \<noteq> r \<longrightarrow> sub_at c' r' = sub_at c r')"
proof -
  let ?c = "put_sub r (if isRetry then (sub_at c r)\<lparr>retryTimer := None\<rparr> else sub_at c r) c"
  obtain v n where v: "getViableConnection ?c = (v, n)" by (cases "getViableConnection ?c")
  consider sid where "c' = ?c\<lparr>creates := creates ?c @ [(r, sid)]\<rparr>"
    | "retrySubscription r 500 10 (createConnection ok new_Connection ?c) = Some c'"
    | "retrySubscription r 250 10 ?c = Some c'"
    using assms v by (cases v) (auto simp: subscribe_request_def Let_def split: if_splits)
  then show ?thesis
  proof cases
    case 1
    then show ?thesis by simp
  next
    case 2
    then show ?thesis using retrySubscription_frame [OF 2] by (auto simp: createConnection_frame)
  next
    case 3
    then show ?thesis using retrySubscription_frame [OF 3] by auto
  qed
qed

lemma resubscribeLoop_frame:
  "resubscribeLoop ok rs c = Some c' \<Longrightarrow> posted c' = posted c \<and> (\<forall>r'. r' \<notin> set rs \<longrightarrow> sub_at c' r' = sub_at c r')"
proof (induction rs arbitrary: c)
  case (Cons r rs)
  then obtain c1 where "subscribe_request r False ok c = Some c1" "resubscribeLoop ok rs c1 = Some c'"
    by (auto split: option.splits)
  then show ?case using subscribe_request_frame [of r False ok c c1] Cons.IH [of c1] by auto
qed simp

lemma posted_resetAll: "posted (resetAll rs c) = posted c"
  by (induction rs arbitrary: c) (simp_all add: resetSubscription_def split: option.split)

lemma sessionClosed_frame:
  assumes "sessionClosed sid url subs ok c = Some c'"
  shows "posted c' = posted c \<and> (\<forall>r. r \<notin> set subs \<longrightarrow> sub_at c' r = sub_at c r)"
proof (cases "connection_of c sid")
  case None
  then show ?thesis using assms by (simp add: sessionClosed_def)
next
  case (Some l)
  define c1 where "c1 = clearConnections (c\<lparr>sessions := (sessions c)(sid \<mapsto> None)\<rparr>)"
  have c1: "posted c1 = posted c" "sub_at c1 = sub_at c" by (simp_all add: c1_def clearConnections_def sub_at_def fun_eq_iff)
  have "c' = c1 \<or> c' = createConnection ok l c1 \<or> resubscribeLoop ok subs (resetAll subs c1) = Some c'"
    using assms Some by (auto simp: sessionClosed_def reconnectConnection_def Let_def c1_def split: if_splits)
  then show ?thesis
    using c1 createConnection_frame [of ok l c1] resubscribeLoop_frame [of ok subs "resetAll subs c1" c'] posted_resetAll [of c1 subs]
      reset_frame [of c1 subs] by auto
qed

text \<open>Tasks to retry have at most ten attempts.\<close>

definition retries_bounded :: "Controller \<Rightarrow> bool" where
  "retries_bounded c \<longleftrightarrow> (\<forall>r d m. RetryTask r d m \<in> set (posted c) \<longrightarrow> 0 < m \<and> m \<le> 10)"

lemma retries_bounded_subset: "retries_bounded c \<Longrightarrow> set (posted c') \<subseteq> set (posted c) \<Longrightarrow> retries_bounded c'"
  by (auto simp: retries_bounded_def)

lemma posted_event:
  assumes "handle_event e c = Some c'" "event_enabled e c"
  shows "set (posted c') \<subseteq> set (posted c) \<union> range SubscribeTask \<union>
    {RetryTask r 2000 m |r m. m = 2 \<or> m = 5}"
proof (cases e)
  case (Subscribe r)
  then show ?thesis using assms by (auto simp: subscribe_def Let_def split: if_splits)
next
  case (Release r)
  then show ?thesis using assms by (auto simp: removeRef_def Let_def split: if_splits option.splits)
next
  case (RunTask ok)
  let ?c = "c\<lparr>posted := tl (posted c)\<rparr>"
  have run: "runTask (hd (posted c)) ok ?c = Some c'" using assms(1) RunTask by simp
  have "posted c' = tl (posted c)"
  proof (cases "hd (posted c)")
    case (SubscribeTask r)
    then show ?thesis using run subscribe_request_frame [of r False ok ?c c'] by simp
  next
    case (RetryTask r d m)
    then show ?thesis using run retrySubscription_frame [of r d m ?c c'] by simp
  qed
  then show ?thesis by (cases "posted c") auto
next
  case (TimerFired r ok)
  then have "posted c' = posted c" using assms(1) subscribe_request_frame [of r True ok c c'] by simp
  then show ?thesis by auto
next
  case (CreateReply k i)
  then show ?thesis using assms by (auto simp: markRequestSubscribed_def Let_def split: if_splits option.splits)
next
  case (CreateError k err)
  then show ?thesis using assms by (auto simp: createFailed_def markRequestFailed_def split: es_error.splits if_splits)
next
  case (DeleteReply k)
  then show ?thesis using assms by (auto simp: markRequestUnsubscribed_def Let_def split: if_splits option.splits)
next
  case (Welcome sid i)
  then show ?thesis using assms by (auto split: option.splits)
next
  case (Closed sid url subs ok)
  then have "posted c' = posted c" using assms(1) sessionClosed_frame [of sid url subs ok c c'] by simp
  then show ?thesis by auto
qed (use assms in auto)

lemma calm_run_retries_bounded: "calm_run c \<Longrightarrow> retries_bounded c"
proof (induction rule: calm_run.induct)
  case (step c e c')
  then show ?case using posted_event [OF step.hyps(4,2)] unfolding retries_bounded_def by fastforce
qed (simp add: retries_bounded_def es_init_def)

text \<open>How often the timer of the request may fire before it gives up.\<close>

definition retries_left :: "Controller \<Rightarrow> SubscriptionRequest \<Rightarrow> int" where
  "retries_left c r =
     (let s = sub_at c r in
      case es_state s of
        Subscribing \<Rightarrow> 10
      | Retrying \<Rightarrow> if retryTimer s = None then retryAttempts s - 1 else retryAttempts s
      | _ \<Rightarrow> 0)"

lemma retrySubscription_left:
  assumes "retrySubscription r delay m c = Some c'" "0 < m" "m \<le> 10"
    and "es_state (sub_at c r) = Retrying \<longrightarrow> retryAttempts (sub_at c r) > 0" "retryTimer (sub_at c r) = None"
    and "es_state (sub_at c r) \<in> {Subscribing, Retrying}" "es_state (sub_at c' r) \<in> {Subscribing, Retrying}"
  shows "retries_left c' r \<le> retries_left c r"
  using assms by (auto simp: retrySubscription_def retries_left_def Let_def split: if_splits)

lemma subscribe_request_left:
  assumes "subscribe_request r isRetry ok c = Some c'"
    and "es_state (sub_at c r) = Retrying \<longrightarrow> retryAttempts (sub_at c r) > 0"
    and "es_state (sub_at c r) \<in> {Subscribing, Retrying}" "es_state (sub_at c' r) \<in> {Subscribing, Retrying}"
    and "isRetry \<longrightarrow> es_state (sub_at c r) = Retrying"
  shows "retries_left c' r \<le> retries_left c r - (if isRetry then 1 else 0)"
proof -
  let ?s = "if isRetry then (sub_at c r)\<lparr>retryTimer := None\<rparr> else sub_at c r"
  let ?c = "put_sub r ?s c"
  have t: "retryTimer ?s = None" "isRetry \<longrightarrow> retryTimer (sub_at c r) \<noteq> None"
    using assms(1) by (auto simp: subscribe_request_def Let_def split: if_splits)
  have left: "retries_left ?c r = retries_left c r - (if isRetry then 1 else 0)"
    using t(2) assms(5) by (auto simp: retries_left_def Let_def)
  have conn: "retries_left (createConnection ok l ?c) r = retries_left ?c r" for l
    by (simp add: retries_left_def createConnection_frame)
  have st: "es_state (sub_at ?c r) = es_state (sub_at c r)" "retryAttempts (sub_at ?c r) = retryAttempts (sub_at c r)"
    "retryTimer (sub_at ?c r) = None" using t(1) by simp_all
  obtain v n where v: "getViableConnection ?c = (v, n)" by (cases "getViableConnection ?c")
  consider sid where "c' = ?c\<lparr>creates := creates ?c @ [(r, sid)]\<rparr>"
    | "retrySubscription r 500 10 (createConnection ok new_Connection ?c) = Some c'"
    | "retrySubscription r 250 10 ?c = Some c'"
    using assms(1) v by (cases v) (auto simp: subscribe_request_def Let_def split: if_splits)
  then show ?thesis
  proof cases
    case 1
    then have "retries_left c' r = retries_left ?c r" by (simp add: retries_left_def)
    then show ?thesis using left by simp
  next
    case 2
    from retrySubscription_left [OF 2] show ?thesis
      using assms(2-4) st left conn by (simp add: createConnection_frame)
  next
    case 3
    from retrySubscription_left [OF 3] show ?thesis using assms(2-4) st left by simp
  qed
qed

lemma sub_at_posted [simp]: "sub_at (c\<lparr>posted := ts\<rparr>) = sub_at c" "sub_at (c\<lparr>creates := cs\<rparr>) = sub_at c"
  "sub_at (c\<lparr>deletes := ds\<rparr>) = sub_at c" "sub_at (c\<lparr>sessions := ss\<rparr>) = sub_at c" "sub_at (c\<lparr>handles := hs\<rparr>) = sub_at c"
  "sub_at (c\<lparr>connections := cns\<rparr>) = sub_at c"
  by (simp_all add: sub_at_def fun_eq_iff)

lemma retries_left_same: "sub_at c' r = sub_at c r \<Longrightarrow> retries_left c' r = retries_left c r"
  by (simp add: retries_left_def)

lemma sessionClosed_reconnect:
  "sessionClosed sid True subs ok c = Some c' \<Longrightarrow> sub_at c' = sub_at c"
  by (auto simp: sessionClosed_def reconnectConnection_def clearConnections_def createConnection_frame Let_def
    split: option.splits if_splits)

lemma removeRef_frame: "removeRef r c = Some c' \<Longrightarrow> r' \<noteq> r \<Longrightarrow> sub_at c' r' = sub_at c r'"
  unfolding removeRef_def Let_def by (auto split: if_splits option.splits)

lemma trying_left_step:
  assumes inv: "es_inv c" and b: "retries_bounded c" and en: "event_enabled e c" and calm: "calm e c"
    and h: "handle_event e c = Some c'"
    and s: "es_state (sub_at c r) \<in> {Subscribing, Retrying}" and s': "es_state (sub_at c' r) \<in> {Subscribing, Retrying}"
  shows "retries_left c' r + (case e of TimerFired r' ok \<Rightarrow> if r' = r then 1 else 0 | _ \<Rightarrow> 0) \<le> retries_left c r"
proof -
  have i: "inv_at c r" using inv by (simp add: es_inv_def)
  have q: "\<not> quitting c" using inv by (simp add: es_inv_def sessions_inv_def)
  have a: "es_state (sub_at c r) = Retrying \<longrightarrow> retryAttempts (sub_at c r) > 0"
    using i by (auto simp: inv_at_def sub_inv_def)
  show ?thesis
  proof (cases e)
    case (Subscribe r0)
    have "r0 = r \<longrightarrow> (\<exists>n. sub_at c' r = (sub_at c r)\<lparr>refCount := n\<rparr>)" "r0 \<noteq> r \<longrightarrow> sub_at c' r = sub_at c r"
      using h s Subscribe by (auto simp: subscribe_def Let_def split: if_splits)
    then show ?thesis using Subscribe by (cases "r0 = r") (auto simp: retries_left_def Let_def split: sub_state.splits)
  next
    case (Release r0)
    show ?thesis
    proof (cases "r0 = r")
      case True
      have "\<exists>n. sub_at c' r = (sub_at c r)\<lparr>refCount := n\<rparr> \<or> sub_at c' r = (sub_at c r)\<lparr>refCount := n, retryTimer := None\<rparr>"
        using h s' Release True q by (auto simp: removeRef_def Let_def sub_at_def put_sub_def split: if_splits option.splits)
      then consider n where "sub_at c' r = (sub_at c r)\<lparr>refCount := n\<rparr>"
        | n where "sub_at c' r = (sub_at c r)\<lparr>refCount := n, retryTimer := None\<rparr>" by blast
      then have "retries_left c' r \<le> retries_left c r"
        by cases (simp_all add: retries_left_def Let_def split: sub_state.split)
      then show ?thesis using Release by simp
    next
      case False
      then have "sub_at c' r = sub_at (c\<lparr>handles := remove1 r0 (handles c)\<rparr>) r"
        using h Release by (intro removeRef_frame [of r0]) simp_all
      then have "sub_at c' r = sub_at c r" by simp
      then show ?thesis using Release retries_left_same [of c' r c] by simp
    qed
  next
    case (RunTask ok)
    let ?c = "c\<lparr>posted := tl (posted c)\<rparr>"
    have same: "retries_left ?c r = retries_left c r" by (rule retries_left_same) simp
    have ne: "posted c \<noteq> []" using en RunTask by simp
    show ?thesis
    proof (cases "hd (posted c)")
      case (SubscribeTask r0)
      then have sub: "subscribe_request r0 False ok ?c = Some c'" using h RunTask by simp
      show ?thesis
      proof (cases "r0 = r")
        case True
        then show ?thesis using subscribe_request_left [of r False ok ?c c'] sub a s s' same RunTask by simp
      next
        case False
        then have "sub_at c' r = sub_at c r" using subscribe_request_frame [OF sub] by simp
        then show ?thesis using RunTask retries_left_same [of c' r c] by simp
      qed
    next
      case (RetryTask r0 d m)
      then have ret: "retrySubscription r0 d m ?c = Some c'" using h RunTask by simp
      show ?thesis
      proof (cases "r0 = r")
        case True
        have "RetryTask r d m \<in> set (posted c)" using hd_in_set [OF ne] RetryTask True by simp
        then have "0 < m" "m \<le> 10" using b by (auto simp: retries_bounded_def)
        moreover have "attempts_posted c r > 0"
          using ne RetryTask True by (cases "posted c") (simp_all add: attempts_posted_alt task_request_def)
        then have "retryTimer (sub_at c r) = None" using i s by (auto simp: inv_at_def sub_inv_def split: if_splits)
        ultimately show ?thesis using retrySubscription_left [of r d m ?c c'] ret True a s s' same RunTask by simp
      next
        case False
        then have "sub_at c' r = sub_at c r" using retrySubscription_frame [OF ret] by simp
        then show ?thesis using RunTask retries_left_same [of c' r c] by simp
      qed
    qed
  next
    case (TimerFired r0 ok)
    then have sub: "subscribe_request r0 True ok c = Some c'" using h by simp
    show ?thesis
    proof (cases "r0 = r")
      case True
      have "es_state (sub_at c r) = Retrying" using en TimerFired True i s by (auto simp: inv_at_def sub_inv_def)
      then show ?thesis using subscribe_request_left [of r True ok c c'] sub True a s' TimerFired by simp
    next
      case False
      then have "sub_at c' r = sub_at c r" using subscribe_request_frame [OF sub] by simp
      then show ?thesis using TimerFired False retries_left_same [of c' r c] by simp
    qed
  next
    case (CreateReply k id)
    then have "sub_at c' r = sub_at c r"
      using h s' by (auto simp: markRequestSubscribed_def Let_def split: if_splits option.splits)
    then show ?thesis using CreateReply retries_left_same [of c' r c] by simp
  next
    case (CreateError k err)
    then have "sub_at c' r = sub_at c r"
      using h s' by (auto simp: createFailed_def markRequestFailed_def split: es_error.splits if_splits)
    then show ?thesis using CreateError retries_left_same [of c' r c] by simp
  next
    case (DeleteReply k)
    then have "sub_at c' r = sub_at c r"
      using h s' by (auto simp: markRequestUnsubscribed_def Let_def split: if_splits option.splits)
    then show ?thesis using DeleteReply retries_left_same [of c' r c] by simp
  next
    case (Welcome sid id)
    then have "sub_at c' r = sub_at c r" using h by (auto split: option.splits)
    then show ?thesis using Welcome retries_left_same [of c' r c] by simp
  next
    case (Closed sid url subs ok)
    have "sub_at c' r = sub_at c r"
    proof (cases url)
      case True
      then show ?thesis using h Closed sessionClosed_reconnect [of sid subs ok c c'] by simp
    next
      case False
      then have "r \<notin> set subs" using calm Closed s by (auto simp: list_all_iff)
      then show ?thesis using h Closed sessionClosed_frame [of sid url subs ok c c'] by simp
    qed
    then show ?thesis using Closed retries_left_same [of c' r c] by simp
  next
    case (SessionDestroyed sid)
    then have "sub_at c' r = sub_at c r" using h by auto
    then show ?thesis using SessionDestroyed retries_left_same [of c' r c] by simp
  next
    case SetQuitting
    then show ?thesis using calm by simp
  qed
qed

text \<open>
  C23. Retrying ends: in a calm run, from a state on in which a request is being subscribed, its timer fires at most
  ten times as long as it is neither subscribed nor given up, whatever the errors are, however their causes
  change, and whatever else happens.\<close>

theorem eventsub_retries_end:
  assumes "trying r c n"
  shows "n \<le> 10"
proof -
  have "int n + retries_left c r \<le> 10"
    using assms
  proof (induction rule: trying.induct)
    case (trying_start c)
    then show ?case by (simp add: retries_left_def)
  next
    case (trying_step c n e c')
    note run = trying_calm [OF trying_step.hyps(1)]
    have "retries_left c' r + (case e of TimerFired r' ok \<Rightarrow> if r' = r then 1 else 0 | _ \<Rightarrow> 0) \<le> retries_left c r"
      using trying_left_step [OF calm_run_inv calm_run_retries_bounded] run trying_step.hyps by blast
    then show ?case using trying_step.IH by (auto split: es_event.splits if_splits)
  qed
  moreover have "retries_left c r \<ge> 0"
  proof -
    have "inv_at c r" using calm_run_inv trying_calm [OF assms] by (auto simp: es_inv_def)
    then show ?thesis by (auto simp: retries_left_def inv_at_def sub_inv_def Let_def split: sub_state.splits if_splits)
  qed
  ultimately show ?thesis by simp
qed

definition sample_request :: SubscriptionRequest where
  "sample_request = \<lparr>subscriptionType = ''channel.ban'', subscriptionVersion = ''1'', conditions = []\<rparr>"

definition sample_subscribing :: Controller where
  "sample_subscribing = (put_sub sample_request (new_Subscription\<lparr>es_state := Subscribing, refCount := 1\<rparr>) es_init)
     \<lparr>posted := [SubscribeTask sample_request], handles := [sample_request]\<rparr>"

lemma sample_subscribing_run: "calm_run sample_subscribing"
  by (rule calm_run.step [OF calm_run.start, of "Subscribe sample_request"])
    (simp_all add: es_init_def sub_at_def new_Subscription_def subscribe_def Let_def sample_subscribing_def put_sub_def)

section \<open>The races\<close>

fun run_events :: "es_event list \<Rightarrow> Controller \<Rightarrow> Controller option" where
  "run_events [] c = Some c"
| "run_events (e # es) c =
     (if event_enabled e c then case handle_event e c of None \<Rightarrow> None | Some c' \<Rightarrow> run_events es c' else None)"

lemmas es_ops = subscribe_def subscribe_request_def removeRef_def retrySubscription_def markRequestSubscribed_def
  markRequestUnsubscribed_def createConnection_def getViableConnection_def new_Connection_def new_Subscription_def
  sessionClosed_def reconnectConnection_def clearConnections_def without_def es_init_def Let_def

lemma sub_at_entry [simp]: "sub_at (c\<lparr>subscriptions := m(r \<mapsto> s)\<rparr>) r' = (if r' = r then s else sub_at (c\<lparr>subscriptions := m\<rparr>) r')"
  by (simp add: sub_at_def)

text \<open>The first attempt opens a connection, and the first retry, before the session is ready, waits again.\<close>

lemma eventsub_retries_end_witness:
  "\<exists>c. trying sample_request c 1 \<and> retryAttempts (sub_at c sample_request) = 9 \<and> (1 :: nat) \<le> 10"
proof -
  let ?r = sample_request
  have t0: "trying ?r sample_subscribing 0"
    by (rule trying_start [OF sample_subscribing_run]) (simp add: sample_subscribing_def)
  have "\<exists>c1 c2. handle_event (RunTask True) sample_subscribing = Some c1 \<and> es_state (sub_at c1 ?r) = Retrying \<and>
      retryTimer (sub_at c1 ?r) \<noteq> None \<and> handle_event (TimerFired ?r True) c1 = Some c2 \<and>
      es_state (sub_at c2 ?r) = Retrying \<and> retryAttempts (sub_at c2 ?r) = 9"
    by (simp add: sample_subscribing_def es_ops sub_at_def put_sub_def connection_of_def)
  then obtain c1 c2 where c1: "handle_event (RunTask True) sample_subscribing = Some c1" "es_state (sub_at c1 ?r) = Retrying"
    "retryTimer (sub_at c1 ?r) \<noteq> None" and c2: "handle_event (TimerFired ?r True) c1 = Some c2"
    "es_state (sub_at c2 ?r) = Retrying" "retryAttempts (sub_at c2 ?r) = 9" by blast
  have "trying ?r c1 0"
    using trying_step [OF t0 _ _ c1(1)] c1(2) by (simp add: sample_subscribing_def)
  from trying_step [OF this _ _ c2(1)] have "trying ?r c2 1" using c1(3) c2(2) by simp
  from eventsub_retries_end [OF this] this c2(3) show ?thesis by blast
qed

text \<open>
  A request whose last handle was released while it waited for a retry is dead: the timer is gone, but
  the state is still \<open>Retrying\<close>, so whoever subscribes to it again gets a handle for which nothing is ever done.\<close>

theorem resubscribe_after_cancelled_retry:
  "\<exists>c. run_events [Subscribe r, RunTask True, Release r, Subscribe r] es_init = Some c \<and>
     r \<in> set (handles c) \<and> es_state (sub_at c r) = Retrying \<and> in_flight c r = 0 \<and> deletes c = []"
  by (simp add: es_ops sub_at_def put_sub_def connection_of_def in_flight_def attempts_posted_def)

text \<open>
  C40. Whenever a request is being unsubscribed, subscribing to it again is forgotten: the caller gets a handle, but
  the reply sets the state to \<open>Unsubscribed\<close> with nothing under way, and the next call of \<open>subscribe\<close> fails its
  assertion that an unsubscribed request has no references.\<close>

theorem resubscribe_while_unsubscribing:
  assumes "calm_run c" "es_state (sub_at c r) = Unsubscribing"
  shows "\<exists>k c1 c2. handle_event (Subscribe r) c = Some c1 \<and>
    event_enabled (DeleteReply k) c1 \<and> deletes c1 ! k = r \<and> handle_event (DeleteReply k) c1 = Some c2 \<and>
    r \<in> set (handles c2) \<and> es_state (sub_at c2 r) = Unsubscribed \<and> in_flight c2 r = 0 \<and>
    handle_event (Subscribe r) c2 = None"
proof -
  have i: "inv_at c r" "\<not> quitting c" using calm_run_inv [OF assms(1)] by (simp_all add: es_inv_def sessions_inv_def)
  then have s: "refCount (sub_at c r) = 0" "attempts_posted c r = 0" "retryTimer (sub_at c r) = None" "deletes_of c r = 1"
    using assms(2) by (simp_all add: inv_at_def sub_inv_def)
  then obtain k where k: "k < length (deletes c)" "deletes c ! k = r"
    by (metis count_list_0_iff in_set_conv_nth zero_neq_one)
  let ?c1 = "(put_sub r ((sub_at c r)\<lparr>refCount := 1\<rparr>) c)\<lparr>handles := r # handles c\<rparr>"
  have c1: "handle_event (Subscribe r) c = Some ?c1" using i s assms(2) by (simp add: subscribe_def Let_def)
  obtain c2 where c2: "handle_event (DeleteReply k) ?c1 = Some c2" "handles c2 = r # handles c"
    "sub_at c2 r = (sub_at c r)\<lparr>refCount := 1, es_state := Unsubscribed, retryAttempts := 0, es_conn := None\<rparr>"
    "attempts_posted c2 r = 0" "\<not> quitting c2"
    using i s assms(2) k by (auto simp: markRequestUnsubscribed_def Let_def split: option.split)
  have "in_flight c2 r = 0" using c2 s by (simp add: in_flight_def)
  moreover have "handle_event (Subscribe r) c2 = None" using c2 by (simp add: subscribe_def Let_def)
  ultimately show ?thesis using c1 c2 k by (intro exI [of _ k] exI [of _ ?c1] exI [of _ c2]) auto
qed

text \<open>A request that was subscribed, and whose only handle was released.\<close>

fun calm_events :: "es_event list \<Rightarrow> Controller \<Rightarrow> Controller option" where
  "calm_events [] c = Some c"
| "calm_events (e # es) c =
     (if event_enabled e c \<and> calm e c then case handle_event e c of None \<Rightarrow> None | Some c' \<Rightarrow> calm_events es c' else None)"

lemma calm_events_run: "calm_run c \<Longrightarrow> calm_events es c = Some c' \<Longrightarrow> calm_run c'"
  by (induction es arbitrary: c) (auto intro: calm_run.step split: option.splits if_splits)

lemma unsubscribing_run:
  "\<exists>c. calm_run c \<and> es_state (sub_at c sample_request) = Unsubscribing"
proof -
  have "\<exists>c. calm_events [Subscribe sample_request, RunTask True, Welcome 0 ''s'', TimerFired sample_request True,
      CreateReply 0 ''i'', Release sample_request] es_init = Some c \<and> es_state (sub_at c sample_request) = Unsubscribing"
    by (simp add: es_ops sub_at_def put_sub_def connection_of_def in_flight_def attempts_posted_def)
  then show ?thesis using calm_events_run [OF calm_run.start] by blast
qed

lemma resubscribe_while_unsubscribing_witness:
  "\<exists>c k c1 c2. calm_run c \<and> es_state (sub_at c sample_request) = Unsubscribing \<and>
    handle_event (Subscribe sample_request) c = Some c1 \<and> handle_event (DeleteReply k) c1 = Some c2 \<and>
    es_state (sub_at c2 sample_request) = Unsubscribed \<and> handle_event (Subscribe sample_request) c2 = None"
proof -
  obtain c where c: "calm_run c" "es_state (sub_at c sample_request) = Unsubscribing" using unsubscribing_run by blast
  from resubscribe_while_unsubscribing [OF this] show ?thesis using c by blast
qed

text \<open>When the session closes before the reply to a create request arrives, the request stays \<open>Retrying\<close> for
  ever.\<close>

lemma reply_for_closed_session:
  "\<exists>c. run_events [Subscribe r, RunTask True, Welcome 0 ''s'', TimerFired r True, Closed 0 False [] True,
        CreateReply 0 ''i''] es_init = Some c \<and>
     r \<in> set (handles c) \<and> es_state (sub_at c r) = Retrying \<and> in_flight c r = 0 \<and> deletes c = []"
  by (simp add: es_ops sub_at_def put_sub_def connection_of_def in_flight_def attempts_posted_def)

end
