(* ===== verification/Commands.thy ===== *)
theory Commands
  imports TableModels Messages SampleText
begin

text \<open>
  Commands: \<open>controllers/commands/CommandController.cpp\<close>.  The commands of users are the items of a
  \<open>SignalVector\<close>, indexed by a map that follows its signals; \<open>execCommand\<close> decides what a text runs;
  \<open>execCustomCommand\<close> expands the template of a command.  What the built-in commands do is not modelled, only
  which one runs; replacing short codes of emojis is a parameter.
\<close>

section \<open>State\<close>

record command_controller =
  cc_items :: "Command SignalVector"
  userCommands :: "string \<rightharpoonup> Command"
  maxSpaces :: nat
  registered :: "string set"
  pluginCommands :: "string list"
  autoCompletions :: "string list"

definition cc_init :: command_controller where
  "cc_init = \<lparr>cc_items = SignalVector, userCommands = Map.empty, maxSpaces = 0, registered = {},
     pluginCommands = [], autoCompletions = []\<rparr>"

text \<open>The loops of \<open>addFirstMatchToMap\<close>.\<close>

fun firstNamed :: "string \<Rightarrow> Command list \<Rightarrow> Command option" where
  "firstNamed name [] = None"
| "firstNamed name (cmd # cmds) = (if cmd_name cmd = name then Some cmd else firstNamed name cmds)"

fun maxSpacesLoop :: "Command list \<Rightarrow> nat \<Rightarrow> nat" where
  "maxSpacesLoop [] m = m"
| "maxSpacesLoop (cmd # cmds) m =
     (let localMaxSpaces = count_list (cmd_name cmd) (CHR '' '')
      in maxSpacesLoop cmds (if localMaxSpaces > m then localMaxSpaces else m))"

definition addFirstMatchToMap :: "Command \<Rightarrow> command_controller \<Rightarrow> command_controller" where
  "addFirstMatchToMap item c =
     (let commands = (userCommands c)(cmd_name item := None);
          commands = (case firstNamed (cmd_name item) (sv_items (cc_items c)) of
              None \<Rightarrow> commands | Some cmd \<Rightarrow> commands(cmd_name cmd \<mapsto> cmd))
      in c\<lparr>userCommands := commands, maxSpaces := maxSpacesLoop (sv_items (cc_items c)) 0\<rparr>)"

text \<open>Inserting and removing items; the signal comes when the items have changed.\<close>

definition cc_insert :: "Command \<Rightarrow> int \<Rightarrow> command_controller \<Rightarrow> vector_error + command_controller" where
  "cc_insert item index c =
     bind_sum (sv_insert (\<lambda>_. Inr) item index None (cc_items c) ())
       (\<lambda>(v, _, _). Inr (addFirstMatchToMap item (c\<lparr>cc_items := v\<rparr>)))"

definition cc_removeAt :: "int \<Rightarrow> command_controller \<Rightarrow> vector_error + command_controller" where
  "cc_removeAt index c =
     bind_sum (sv_removeAt (\<lambda>_. Inr) index None (cc_items c) ())
       (\<lambda>(v, _). Inr (addFirstMatchToMap (sv_items (cc_items c) ! nat index) (c\<lparr>cc_items := v\<rparr>)))"

text \<open>Registering commands; \<open>registerCommand\<close> asserts that the name is new.\<close>

definition registerCommand :: "string \<Rightarrow> command_controller \<Rightarrow> command_controller option" where
  "registerCommand name c =
     (if name \<in> registered c then None
      else Some (c\<lparr>registered := insert name (registered c), autoCompletions := autoCompletions c @ [name]\<rparr>))"

definition registerPluginCommand :: "string \<Rightarrow> command_controller \<Rightarrow> command_controller \<times> bool" where
  "registerPluginCommand name c =
     (if name \<in> registered c then (c, False)
      else (c\<lparr>registered := insert name (registered c), pluginCommands := pluginCommands c @ [name]\<rparr>, True))"

definition unregisterPluginCommand :: "string \<Rightarrow> command_controller \<Rightarrow> command_controller \<times> bool" where
  "unregisterPluginCommand name c =
     (if name \<notin> set (pluginCommands c) then (c, False)
      else (c\<lparr>pluginCommands := filter (\<lambda>n. n \<noteq> name) (pluginCommands c), registered := registered c - {name}\<rparr>,
            name \<in> registered c))"

section \<open>Variables\<close>

text \<open>A channel of Twitch has an id and a stream status; the account is the current one.\<close>

record twitch_info =
  roomId :: string
  live :: bool
  game :: string
  title :: string

record command_context =
  cx_channel :: string
  cx_twitch :: "twitch_info option"
  cx_userId :: string
  cx_userName :: string

definition orAlt :: "string \<Rightarrow> string \<Rightarrow> string" where
  "orAlt v altText = (if v = [] then altText else v)"

definition COMMAND_VARS :: "command_context \<Rightarrow> 'c Message option \<Rightarrow> string \<Rightarrow> (string \<Rightarrow> string) option" where
  "COMMAND_VARS cx message name =
     (if name = ''channel.name'' \<or> name = ''channel'' then Some (\<lambda>altText. cx_channel cx)
      else if name = ''channel.id'' then
        Some (\<lambda>altText. case cx_twitch cx of None \<Rightarrow> altText | Some tc \<Rightarrow> roomId tc)
      else if name = ''stream.game'' then
        Some (\<lambda>altText. case cx_twitch cx of None \<Rightarrow> altText | Some tc \<Rightarrow> if live tc then game tc else altText)
      else if name = ''stream.title'' then
        Some (\<lambda>altText. case cx_twitch cx of None \<Rightarrow> altText | Some tc \<Rightarrow> if live tc then title tc else altText)
      else if name = ''my.id'' then Some (orAlt (cx_userId cx))
      else if name = ''my.name'' then Some (orAlt (cx_userName cx))
      else if name = ''user.name'' \<or> name = ''user'' then
        Some (\<lambda>altText. case message of None \<Rightarrow> altText | Some m \<Rightarrow> orAlt (loginName m) altText)
      else if name = ''msg.id'' \<or> name = ''msg-id'' then
        Some (\<lambda>altText. case message of None \<Rightarrow> altText | Some m \<Rightarrow> orAlt (msg_id m) altText)
      else if name = ''msg.text'' \<or> name = ''message'' then
        Some (\<lambda>altText. case message of None \<Rightarrow> altText | Some m \<Rightarrow> orAlt (messageText m) altText)
      else if name = ''input.text'' then Some (\<lambda>altText. altText)
      else None)"

section \<open>The expression that finds placeholders\<close>

text \<open>\<open>(^|[^{])({{)*{(\d+\+?|([a-zA-Z.-]+)(?:;(.+?))?)}\<close>: the braces before the content are matched all, since
  the content starts with none, and must be odd in number.\<close>

record cmd_match =
  m_start :: nat
  m_end :: nat
  m_g3 :: string
  m_g4 :: string
  m_g5 :: string

definition is_ident :: "char \<Rightarrow> bool" where
  "is_ident c = (let n = of_char c :: nat in 97 \<le> n \<and> n \<le> 122 \<or> 65 \<le> n \<and> n \<le> 90 \<or> n = 46 \<or> n = 45)"

definition parse_content :: "string \<Rightarrow> (string \<times> string \<times> string) option" where
  "parse_content s =
     (let ds = takeWhile is_digit s; r = dropWhile is_digit s in
      if ds \<noteq> [] then
        (case r of
           CHR 0x7D # _ \<Rightarrow> Some (ds, [], [])
         | CHR 0x2B # CHR 0x7D # _ \<Rightarrow> Some (ds @ ''+'', [], [])
         | _ \<Rightarrow> None)
      else
        let i = takeWhile is_ident s; r = dropWhile is_ident s in
        if i = [] then None
        else case r of
            CHR 0x7D # _ \<Rightarrow> Some (i, i, [])
          | CHR 0x3B # x # xs \<Rightarrow>
              let alt = x # takeWhile (\<lambda>c. c \<noteq> CHR 0x7D) xs in
              if CHR 0x7D \<in> set xs \<and> CHR 0x0A \<notin> set alt then Some (i @ CHR 0x3B # alt, i, alt) else None
          | _ \<Rightarrow> None)"

text \<open>The position behind the first group.\<close>

definition group1_end :: "string \<Rightarrow> nat \<Rightarrow> nat option" where
  "group1_end s i =
     (if i = 0 \<and> s \<noteq> [] \<and> hd s = CHR 0x7B then Some 0
      else if i < length s \<and> s ! i \<noteq> CHR 0x7B then Some (i + 1) else None)"

definition match_at :: "string \<Rightarrow> nat \<Rightarrow> cmd_match option" where
  "match_at s i =
     (case group1_end s i of
           None \<Rightarrow> None
         | Some j \<Rightarrow>
             let n = length (takeWhile (\<lambda>c. c = CHR 0x7B) (drop j s)) in
             if even n then None
             else case parse_content (drop (j + n) s) of
                 None \<Rightarrow> None
               | Some (g3, g4, g5) \<Rightarrow>
                   Some \<lparr>m_start = i, m_end = j + n + length g3 + 1, m_g3 = g3, m_g4 = g4, m_g5 = g5\<rparr>)"

fun first_match :: "string \<Rightarrow> nat list \<Rightarrow> cmd_match option" where
  "first_match s [] = None"
| "first_match s (i # is) = (case match_at s i of None \<Rightarrow> first_match s is | Some m \<Rightarrow> Some m)"

definition parseCommand_match :: "string \<Rightarrow> nat \<Rightarrow> cmd_match option" where
  "parseCommand_match s offset = first_match s [offset..<length s]"

text \<open>Every match is longer than two characters and ends inside the text.\<close>

lemma parse_content_length:
  "parse_content s = Some (g3, g4, g5) \<Longrightarrow> 0 < length g3 \<and> length g3 < length s"
proof -
  assume p: "parse_content s = Some (g3, g4, g5)"
  have split: "length s = length (takeWhile P s) + length (dropWhile P s)" for P
    by (metis length_append takeWhile_dropWhile_id)
  show ?thesis
  proof (cases "takeWhile is_digit s = []")
    case False
    then show ?thesis using p split [of is_digit]
      by (auto simp: parse_content_def Let_def split: list.splits char.splits bool.splits)
  next
    case True
    note d = this
    show ?thesis
    proof (cases "takeWhile is_ident s = []")
      case False
      have le: "length (takeWhile P xs) < length xs" if "\<exists>c\<in>set xs. \<not> P c" for P and xs :: string
        using that by (induction xs) auto
      have "length (takeWhile (\<lambda>c. c \<noteq> CHR 0x7D) xs) < length xs" if "CHR 0x7D \<in> set xs" for xs
        using that le [of xs "\<lambda>c. c \<noteq> CHR 0x7D"] by blast
      then show ?thesis using p d False split [of is_ident]
        by (auto simp: parse_content_def Let_def split: list.splits char.splits bool.splits if_splits)
    qed (use p d in \<open>simp add: parse_content_def\<close>)
  qed
qed

lemma match_at_bounds:
  assumes "match_at s i = Some m"
  shows "m_start m = i" "i + 3 \<le> m_end m" "m_end m \<le> length s"
proof -
  define j where "j = group1_end s i"
  obtain k where k: "j = Some k" "i \<le> k" "k \<le> length s"
    using assms unfolding match_at_def j_def [symmetric] by (cases j) (auto simp: j_def group1_end_def split: if_splits)
  define n where "n = length (takeWhile (\<lambda>c. c = CHR 0x7B) (drop k s))"
  have n: "odd n" "k + n \<le> length s"
    using assms k length_takeWhile_le [of "\<lambda>c. c = CHR 0x7B" "drop k s"]
    unfolding match_at_def j_def [symmetric] by (auto simp: n_def [symmetric] Let_def split: if_splits)
  obtain g3 g4 g5 where p: "parse_content (drop (k + n) s) = Some (g3, g4, g5)"
    and m: "m = \<lparr>m_start = i, m_end = k + n + length g3 + 1, m_g3 = g3, m_g4 = g4, m_g5 = g5\<rparr>"
    using assms k n unfolding match_at_def j_def [symmetric] by (auto simp: n_def [symmetric] Let_def split: option.splits)
  have "0 < length g3 \<and> length g3 < length s - (k + n)" using parse_content_length [OF p] by simp
  then have l: "1 \<le> length g3" "k + n + length g3 < length s" by linarith+
  have "i + 3 \<le> k + n + length g3 + 1" using k(2) l(1) odd_pos [OF n(1)] by linarith
  then show "m_start m = i" "i + 3 \<le> m_end m" "m_end m \<le> length s" using l(2) by (simp_all add: m)
qed

lemma first_match_bounds:
  "first_match s is = Some m \<Longrightarrow> m_start m \<in> set is \<and> m_start m + 3 \<le> m_end m \<and> m_end m \<le> length s"
  by (induction "is") (auto simp: match_at_bounds split: option.splits)

section \<open>Expanding a template\<close>

text \<open>\<open>toInt\<close> of Qt on what the expression matches.\<close>

definition to_int :: "string \<Rightarrow> nat option" where
  "to_int s = (if s \<noteq> [] \<and> list_all is_digit s \<and> read_nat s \<le> 2147483647 then Some (read_nat s) else None)"

text \<open>What a placeholder is replaced with; \<open>words\<close> from an index on are joined by single spaces.\<close>

fun joinWords :: "string list \<Rightarrow> string" where
  "joinWords [] = []"
| "joinWords [w] = w"
| "joinWords (w # ws) = w @ '' '' @ joinWords ws"

definition replacement ::
  "(string \<Rightarrow> (string \<Rightarrow> string) option) \<Rightarrow> (string \<rightharpoonup> string) \<Rightarrow> string list \<Rightarrow> cmd_match \<Rightarrow> string" where
  "replacement vars ctx words m =
     (let plus = (last (m_g3 m) = CHR ''+'');
          wordIndexMatch = filter (\<lambda>c. c \<noteq> CHR ''+'' \<and> c \<noteq> CHR ''='') (m_g3 m);
          wordIndex = to_int wordIndexMatch
      in if wordIndex = None \<or> wordIndex = Some 0 then
           (case ctx (m_g4 m) of
              Some v \<Rightarrow> if v = [] then m_g5 m else v
            | None \<Rightarrow>
                (case vars (m_g4 m) of
                   Some f \<Rightarrow> f (m_g5 m)
                 | None \<Rightarrow> CHR 0x7B # m_g3 m @ [CHR 0x7D]))
         else if length words \<le> the wordIndex then []
         else if plus then joinWords (drop (the wordIndex) words)
         else words ! the wordIndex)"

function customLoop ::
  "(string \<Rightarrow> (string \<Rightarrow> string) option) \<Rightarrow> (string \<rightharpoonup> string) \<Rightarrow> string list \<Rightarrow> string \<Rightarrow> nat \<Rightarrow> nat \<Rightarrow>
    string \<Rightarrow> string" where
  "customLoop vars ctx words func lastCaptureEnd matchOffset result =
     (case parseCommand_match func matchOffset of
        None \<Rightarrow> result @ drop lastCaptureEnd func
      | Some m \<Rightarrow>
          customLoop vars ctx words func (m_end m) (m_end m - 1)
            (result @ take (m_start m + 1 - lastCaptureEnd) (drop lastCaptureEnd func) @
             replacement vars ctx words m))"
  by pat_completeness auto
termination
proof (relation "measure (\<lambda>(v, c, w, func, l, off, r). length func - off)")
  fix vars :: "string \<Rightarrow> (string \<Rightarrow> string) option" and ctx :: "string \<rightharpoonup> string"
    and words func l off result m
  assume "parseCommand_match func off = Some m"
  then have "off \<le> m_start m" "m_start m + 3 \<le> m_end m" "m_end m \<le> length func"
    using first_match_bounds unfolding parseCommand_match_def by force+
  then show "((vars, ctx, words, func, m_end m, m_end m - 1,
      result @ take (m_start m + 1 - l) (drop l func) @ replacement vars ctx words m), vars, ctx, words, func, l, off, result)
    \<in> measure (\<lambda>(v, c, w, func, l, off, r). length func - off)" by simp
qed simp

declare customLoop.simps [simp del]

text \<open>\<open>replace("{{", "{")\<close>.\<close>

fun unbrace :: "string \<Rightarrow> string" where
  "unbrace (c # d # s) =
     (if c = CHR 0x7B \<and> d = CHR 0x7B then CHR 0x7B # unbrace s else c # unbrace (d # s))"
| "unbrace s = s"

definition execCustomCommand ::
  "(string \<Rightarrow> (string \<Rightarrow> string) option) \<Rightarrow> (string \<rightharpoonup> string) \<Rightarrow> string list \<Rightarrow> string \<Rightarrow> string" where
  "execCustomCommand vars ctx words func =
     (let result = customLoop vars ctx words func 0 0 [];
          result = (if result \<noteq> [] \<and> hd result = CHR 0x7B then tl result else result)
      in unbrace result)"

section \<open>What a text runs\<close>

datatype command_outcome = Send string | RunCommand string "string list" | WhisperHint

definition words_of :: "string \<Rightarrow> string list" where
  "words_of text = filter (\<lambda>w. w \<noteq> []) (splitOn (CHR '' '') text)"

text \<open>The loop over names of several words.\<close>

fun spacesLoop :: "(string \<rightharpoonup> Command) \<Rightarrow> string list \<Rightarrow> nat \<Rightarrow> string \<Rightarrow> Command option" where
  "spacesLoop commands ws 0 name = None"
| "spacesLoop commands [] (Suc n) name = None"
| "spacesLoop commands (w # ws) (Suc n) name =
     (let name = name @ '' '' @ w in
      case commands name of Some cmd \<Rightarrow> Some cmd | None \<Rightarrow> spacesLoop commands ws n name)"

definition execCommand ::
  "(string \<Rightarrow> string) \<Rightarrow> (string list \<Rightarrow> Command \<Rightarrow> string) \<Rightarrow> bool \<Rightarrow> command_controller \<Rightarrow> bool \<Rightarrow> string \<Rightarrow>
    command_outcome" where
  "execCommand replaceShortCodes custom inWhispers c dryRun textNoEmoji =
     (let text = replaceShortCodes textNoEmoji; words = words_of text in
      if words = [] then Send text
      else
        let (text, words) = (case userCommands c (hd words) of
              None \<Rightarrow> (text, words)
            | Some cmd \<Rightarrow> let text = replaceShortCodes (custom words cmd) in (text, words_of text))
        in if words = [] then Send text
           else if \<not> dryRun \<and> hd words \<in> registered c then RunCommand (hd words) words
           else case spacesLoop (userCommands c) (tl words) (min (maxSpaces c) (length words - 1)) (hd words) of
               Some cmd \<Rightarrow> Send (custom words cmd)
             | None \<Rightarrow> if \<not> dryRun \<and> inWhispers then WhisperHint else Send text)"

section \<open>Templates\<close>

text \<open>The template language as its help text describes it: text, the n-th word, the words from the n-th on,
  and variables with an alternative.\<close>

datatype piece = Lit string | WordAt nat | WordsFrom nat | Var string string

fun render_content :: "piece \<Rightarrow> string" where
  "render_content (Lit s) = s"
| "render_content (WordAt n) = show_nat n"
| "render_content (WordsFrom n) = show_nat n @ ''+''"
| "render_content (Var v alt) = (if alt = [] then v else v @ CHR 0x3B # alt)"

fun render :: "piece \<Rightarrow> string" where
  "render (Lit s) = s"
| "render p = CHR 0x7B # render_content p @ [CHR 0x7D]"

fun piece_value ::
  "(string \<Rightarrow> (string \<Rightarrow> string) option) \<Rightarrow> (string \<rightharpoonup> string) \<Rightarrow> string list \<Rightarrow> piece \<Rightarrow> string" where
  "piece_value vars ctx words (Lit s) = s"
| "piece_value vars ctx words (WordAt n) = (if n < length words then words ! n else [])"
| "piece_value vars ctx words (WordsFrom n) = joinWords (drop n words)"
| "piece_value vars ctx words (Var v alt) =
     (case ctx v of
        Some x \<Rightarrow> orAlt x alt
      | None \<Rightarrow> (case vars v of Some f \<Rightarrow> f alt | None \<Rightarrow> render (Var v alt)))"

fun piece_ok :: "piece \<Rightarrow> bool" where
  "piece_ok (Lit s) = (CHR 0x7B \<notin> set s)"
| "piece_ok (WordAt n) = (0 < n \<and> n \<le> 2147483647)"
| "piece_ok (WordsFrom n) = (0 < n \<and> n \<le> 2147483647)"
| "piece_ok (Var v alt) = (v \<noteq> [] \<and> list_all is_ident v \<and>
     (alt = [] \<or> CHR 0x7D \<notin> set (tl alt) \<and> CHR 0x0A \<notin> set alt))"

text \<open>The groups of a match of a placeholder.\<close>

fun groups :: "piece \<Rightarrow> string \<times> string \<times> string" where
  "groups (Var v alt) = (render_content (Var v alt), v, alt)"
| "groups p = (render_content p, [], [])"

lemma ident_chars: "is_ident c \<Longrightarrow> \<not> is_digit c \<and> c \<noteq> CHR 0x7D \<and> c \<noteq> CHR 0x3B \<and> c \<noteq> CHR 0x7B"
  by (auto simp: is_ident_def is_digit_def Let_def)

lemma digit_chars: "is_digit c \<Longrightarrow> c \<noteq> CHR 0x7D \<and> c \<noteq> CHR ''+'' \<and> c \<noteq> CHR ''='' \<and> c \<noteq> CHR 0x7B"
  by (auto simp: is_digit_def)

lemma take_drop_while_append:
  "list_all P xs \<Longrightarrow> \<not> P y \<Longrightarrow> takeWhile P (xs @ y # ys) = xs \<and> dropWhile P (xs @ y # ys) = y # ys"
  by (induction xs) auto

lemma parse_render:
  assumes "piece_ok p" "\<And>s. p \<noteq> Lit s"
  shows "parse_content (render_content p @ CHR 0x7D # r) = Some (groups p)"
proof (cases p)
  case (WordAt n)
  have "takeWhile is_digit (show_nat n @ CHR 0x7D # r) = show_nat n \<and> dropWhile is_digit (show_nat n @ CHR 0x7D # r) = CHR 0x7D # r"
    using show_nat_digits by (intro take_drop_while_append) (simp_all add: is_digit_def)
  then show ?thesis using WordAt show_nat_digits [of n] by (simp add: parse_content_def)
next
  case (WordsFrom n)
  have "takeWhile is_digit (show_nat n @ CHR ''+'' # CHR 0x7D # r) = show_nat n \<and>
      dropWhile is_digit (show_nat n @ CHR ''+'' # CHR 0x7D # r) = CHR ''+'' # CHR 0x7D # r"
    using show_nat_digits by (intro take_drop_while_append) (simp_all add: is_digit_def)
  then show ?thesis using WordsFrom show_nat_digits [of n] by (simp add: parse_content_def)
next
  case (Var v alt)
  have v: "v \<noteq> []" "list_all is_ident v" using assms(1) Var by simp_all
  have nodigit: "takeWhile is_digit (v @ w) = []" for w
    using v ident_chars by (cases v) auto
  show ?thesis
  proof (cases alt)
    case Nil
    have "takeWhile is_ident (v @ CHR 0x7D # r) = v \<and> dropWhile is_ident (v @ CHR 0x7D # r) = CHR 0x7D # r"
      using v by (intro take_drop_while_append) (simp_all add: is_ident_def)
    then show ?thesis using v nodigit Var Nil by (simp add: parse_content_def)
  next
    case (Cons x xs)
    have i: "takeWhile is_ident (v @ CHR 0x3B # x # xs @ CHR 0x7D # r) = v \<and>
        dropWhile is_ident (v @ CHR 0x3B # x # xs @ CHR 0x7D # r) = CHR 0x3B # x # xs @ CHR 0x7D # r"
      using v by (intro take_drop_while_append) (simp_all add: is_ident_def)
    have "takeWhile (\<lambda>c. c \<noteq> CHR 0x7D) (xs @ CHR 0x7D # r) = xs"
    proof -
      have "list_all (\<lambda>c. c \<noteq> CHR 0x7D) xs" using assms(1) Var Cons by (auto simp: list_all_iff)
      from take_drop_while_append [OF this, of "CHR 0x7D" r] show ?thesis by simp
    qed
    then show ?thesis using v i nodigit Var Cons assms(1) by (simp add: parse_content_def Let_def)
  qed
qed (use assms(2) in blast)

lemma filter_digits: "list_all is_digit ds \<Longrightarrow> filter (\<lambda>c. c \<noteq> CHR ''+'' \<and> c \<noteq> CHR ''='') ds = ds"
  using digit_chars by (simp add: filter_id_conv list_all_iff)

lemma to_int_show: "n \<le> 2147483647 \<Longrightarrow> to_int (show_nat n) = Some n"
  using show_nat_digits [of n] by (simp add: to_int_def read_show_nat)

lemma to_int_ident:
  assumes "v \<noteq> []" "list_all is_ident v"
  shows "to_int (filter (\<lambda>c. c \<noteq> CHR ''+'' \<and> c \<noteq> CHR ''='') (v @ w)) = None"
proof -
  obtain c v' where c: "v = c # v'" "is_ident c" using assms by (cases v) auto
  then have "c \<noteq> CHR ''+'' \<and> c \<noteq> CHR ''=''" "\<not> is_digit c" using ident_chars by (auto simp: is_ident_def)
  then show ?thesis using c by (simp add: to_int_def)
qed

lemma replacement_value:
  assumes "piece_ok p" "\<And>s. p \<noteq> Lit s" "groups p = (m_g3 m, m_g4 m, m_g5 m)"
  shows "replacement vars ctx words m = piece_value vars ctx words p"
proof (cases p)
  case (WordAt n)
  have g: "m_g3 m = show_nat n" using assms(3) WordAt by simp
  have l: "last (show_nat n) \<noteq> CHR ''+''"
    using show_nat_digits [of n] digit_chars by (metis last_in_set list_all_iff)
  have "filter (\<lambda>c. c \<noteq> CHR ''+'' \<and> c \<noteq> CHR ''='') (m_g3 m) = show_nat n"
    using filter_digits show_nat_digits g by simp
  then show ?thesis using WordAt assms(1) l to_int_show [of n] by (simp add: replacement_def Let_def g)
next
  case (WordsFrom n)
  have g: "m_g3 m = show_nat n @ ''+''" using assms(3) WordsFrom by simp
  have "filter (\<lambda>c. c \<noteq> CHR ''+'' \<and> c \<noteq> CHR ''='') (m_g3 m) = show_nat n"
    using filter_digits show_nat_digits [of n] g by simp
  then show ?thesis using WordsFrom assms(1) to_int_show [of n] by (simp add: replacement_def Let_def g)
next
  case (Var v alt)
  have g: "m_g3 m = render_content (Var v alt)" "m_g4 m = v" "m_g5 m = alt"
  proof -
    have "(render_content (Var v alt), v, alt) = (m_g3 m, m_g4 m, m_g5 m)" using assms(3) unfolding Var groups.simps .
    then show "m_g3 m = render_content (Var v alt)" "m_g4 m = v" "m_g5 m = alt" by (metis prod.inject)+
  qed
  have "to_int (filter (\<lambda>c. c \<noteq> CHR ''+'' \<and> c \<noteq> CHR ''='') (m_g3 m)) = None"
    using to_int_ident [of v "if alt = [] then [] else CHR 0x3B # alt"] assms(1) Var g(1) by (auto split: if_splits)
  then show ?thesis using Var g by (simp add: replacement_def orAlt_def split: option.splits)
qed (use assms(2) in blast)

lemma content_start:
  assumes "piece_ok p" "\<And>s. p \<noteq> Lit s"
  shows "takeWhile (\<lambda>c. c = CHR 0x7B) (render p @ r) = [CHR 0x7B]"
proof (cases p)
  case (WordAt n)
  then show ?thesis using show_nat_digits [of n] digit_chars by (cases "show_nat n") auto
next
  case (WordsFrom n)
  then show ?thesis using show_nat_digits [of n] digit_chars by (cases "show_nat n") auto
next
  case (Var v alt)
  then show ?thesis using assms(1) ident_chars by (cases v) auto
qed (use assms(2) in blast)

lemma match_at_none:
  assumes "i < length s" "s ! i \<noteq> CHR 0x7B" "i + 1 < length s \<Longrightarrow> s ! (i + 1) \<noteq> CHR 0x7B"
  shows "match_at s i = None"
proof -
  have "i + 1 < length s \<Longrightarrow> drop (i + 1) s = s ! (i + 1) # drop (i + 2) s"
    using Cons_nth_drop_Suc [of "i + 1" s] by simp
  then have "takeWhile (\<lambda>c. c = CHR 0x7B) (drop (i + 1) s) = []" using assms(3) by (cases "i + 1 < length s") auto
  moreover have "group1_end s i = Some (i + 1)" using assms(1,2) by (auto simp: group1_end_def hd_conv_nth)
  ultimately show ?thesis by (simp add: match_at_def Let_def)
qed

lemma first_match_skip:
  "(\<And>i. i \<in> set is \<Longrightarrow> match_at s i = None) \<Longrightarrow> first_match s (is @ js) = first_match s js"
  by (induction "is") auto

text \<open>The placeholder \<open>p\<close> behind \<open>pre\<close> and a text without braces is the next match.\<close>

lemma match_hole:
  assumes ok: "piece_ok p" "\<And>s. p \<noteq> Lit s" and pre: "pre = [] \<or> last pre \<noteq> CHR 0x7B" and lit: "CHR 0x7B \<notin> set l"
    and func: "func = pre @ l @ render p @ rest"
  obtains m where "parseCommand_match func (length pre - 1) = Some m" "m_start m = length (pre @ l) - 1"
    "m_end m = length (pre @ l @ render p)" "groups p = (m_g3 m, m_g4 m, m_g5 m)"
proof -
  obtain g3 g4 g5 where g: "groups p = (g3, g4, g5)" by (cases "groups p")
  have render: "render p = CHR 0x7B # render_content p @ [CHR 0x7D]" "g3 = render_content p"
    using ok(2) g by (cases p; simp)+
  let ?b = "length (pre @ l)"
  define m where "m = \<lparr>m_start = ?b - 1, m_end = length (pre @ l @ render p), m_g3 = g3, m_g4 = g4, m_g5 = g5\<rparr>"
  have nobrace: "func ! i \<noteq> CHR 0x7B" if "length pre - 1 \<le> i" "i < ?b" for i
  proof (cases "i < length pre")
    case True
    then have "i = length pre - 1" "pre \<noteq> []" using that by auto
    then show ?thesis using pre by (simp add: func nth_append last_conv_nth)
  next
    case False
    then have "i - length pre < length l" using that by auto
    moreover from this have "func ! i = l ! (i - length pre)" using False by (simp add: func nth_append)
    ultimately show ?thesis using lit nth_mem by metis
  qed
  have drop: "drop ?b func = render p @ rest" by (simp add: func)
  have content: "parse_content (drop (?b + 1) func) = Some (g3, g4, g5)"
    using parse_render [OF ok, of rest] g render(1) by (simp add: func)
  have len: "length func > ?b" "length func = ?b + length (render p) + length rest" using render(1) by (simp_all add: func)
  have at: "match_at func (?b - 1) = Some m"
  proof (cases "pre @ l = []")
    case True
    then have f: "func = render p @ rest" "?b = 0" by (simp_all add: func)
    then have "group1_end func 0 = Some 0" using render(1) by (simp add: group1_end_def)
    then show ?thesis using f content content_start [OF ok, of rest] render
      by (simp add: match_at_def m_def Let_def)
  next
    case False
    then have b: "?b - 1 < ?b" "length pre - 1 \<le> ?b - 1" "Suc (?b - 1) = ?b" by (cases pre; cases l; simp)+
    have nb: "func ! (?b - 1) \<noteq> CHR 0x7B" using nobrace [OF b(2,1)] .
    have "group1_end func (?b - 1) = Some ?b" using nb len(1) b by (auto simp: group1_end_def hd_conv_nth)
    moreover have "length (takeWhile (\<lambda>c. c = CHR 0x7B) (drop ?b func)) = 1"
      unfolding drop content_start [OF ok] by simp
    ultimately show ?thesis using content render by (simp add: match_at_def m_def Let_def)
  qed
  have "parseCommand_match func (length pre - 1) = first_match func ([length pre - 1..<?b - 1] @ [?b - 1..<length func])"
  proof -
    have "length pre - 1 \<le> ?b - 1" "?b - 1 \<le> length func" using len(1) by auto
    then have "[length pre - 1..<length func] = [length pre - 1..<?b - 1] @ [?b - 1..<length func]"
      using upt_add_eq_append [of "length pre - 1" "?b - 1" "length func - (?b - 1)"] by simp
    then show ?thesis by (simp only: parseCommand_match_def)
  qed
  also have "\<dots> = first_match func [?b - 1..<length func]"
  proof (rule first_match_skip)
    fix i
    assume "i \<in> set [length pre - 1..<?b - 1]"
    then have i: "length pre - 1 \<le> i" "i < ?b" "i + 1 < ?b" by auto
    then have "i < length func" "length pre - 1 \<le> i + 1" using len(1) by simp_all
    then show "match_at func i = None"
      using match_at_none [OF _ nobrace [OF i(1,2)]] nobrace [OF _ i(3)] by simp
  qed
  also have "\<dots> = Some m"
  proof -
    have "[?b - 1..<length func] = (?b - 1) # [Suc (?b - 1)..<length func]" using len(1) by (simp add: upt_conv_Cons)
    then show ?thesis using at by simp
  qed
  finally show thesis by (rule that) (simp_all add: m_def g)
qed

lemma no_match:
  assumes pre: "pre = [] \<or> last pre \<noteq> CHR 0x7B" and lit: "CHR 0x7B \<notin> set l"
  shows "parseCommand_match (pre @ l) (length pre - 1) = None"
proof -
  have nobrace: "(pre @ l) ! i \<noteq> CHR 0x7B" if "length pre - 1 \<le> i" "i < length (pre @ l)" for i
  proof (cases "i < length pre")
    case True
    then have "i = length pre - 1" "pre \<noteq> []" using that by auto
    then show ?thesis using pre by (simp add: nth_append last_conv_nth)
  next
    case False
    then have "i - length pre < length l" using that by auto
    moreover from this have "(pre @ l) ! i = l ! (i - length pre)" using False by (simp add: nth_append)
    ultimately show ?thesis using lit nth_mem by metis
  qed
  have "first_match (pre @ l) ([length pre - 1..<length (pre @ l)] @ []) = first_match (pre @ l) []"
    by (rule first_match_skip) (use nobrace in \<open>auto intro!: match_at_none simp del: length_append\<close>)
  then show ?thesis by (simp add: parseCommand_match_def)
qed

text \<open>The loop behind \<open>pre\<close>, with text \<open>l\<close> that is not yet copied.\<close>

abbreviation expanded ::
  "(string \<Rightarrow> (string \<Rightarrow> string) option) \<Rightarrow> (string \<rightharpoonup> string) \<Rightarrow> string list \<Rightarrow> piece list \<Rightarrow> string" where
  "expanded vars ctx words ps \<equiv> concat (map (piece_value vars ctx words) ps)"

lemma customLoop_expands:
  assumes "list_all piece_ok ps" "pre = [] \<or> last pre \<noteq> CHR 0x7B" "CHR 0x7B \<notin> set l"
  shows "\<exists>extra. (extra = [] \<or> extra = [CHR 0x7B] \<and> pre = []) \<and>
    customLoop vars ctx words (pre @ l @ concat (map render ps)) (length pre) (length pre - 1) result =
      result @ extra @ l @ expanded vars ctx words ps"
  using assms
proof (induction ps arbitrary: pre l result)
  case Nil
  then show ?case using no_match [of pre l] by (subst customLoop.simps) simp
next
  case (Cons p ps)
  show ?case
  proof (cases "\<exists>s. p = Lit s")
    case True
    then obtain s where "p = Lit s" by blast
    then show ?thesis using Cons.IH [of pre "l @ s" result] Cons.prems by simp
  next
    case False
    then have p: "piece_ok p" "p \<noteq> Lit s" for s using Cons.prems by auto
    let ?rest = "concat (map render ps)"
    let ?func = "pre @ l @ render p @ ?rest"
    obtain m where m: "parseCommand_match ?func (length pre - 1) = Some m" "m_start m = length (pre @ l) - 1"
        "m_end m = length (pre @ l @ render p)" "groups p = (m_g3 m, m_g4 m, m_g5 m)"
      using match_hole [OF p Cons.prems(2,3) refl] by blast
    let ?copied = "take (m_start m + 1 - length pre) (drop (length pre) ?func)"
    have render: "render p = CHR 0x7B # render_content p @ [CHR 0x7D]" using False by (cases p) auto
    have copied: "?copied = (if pre @ l = [] then [CHR 0x7B] else l)"
    proof (cases "pre @ l = []")
      case True
      then show ?thesis using m(2) render by simp
    next
      case False
      then have "m_start m + 1 - length pre = length l" using m(2) by (cases pre; cases l; simp)
      then show ?thesis using False by simp
    qed
    let ?pre = "pre @ l @ render p"
    have last: "?pre = [] \<or> last ?pre \<noteq> CHR 0x7B" using render by simp
    obtain extra where e: "extra = [] \<or> extra = [CHR 0x7B] \<and> ?pre = []"
      "customLoop vars ctx words (?pre @ [] @ ?rest) (length ?pre) (length ?pre - 1)
        (result @ ?copied @ replacement vars ctx words m) =
        (result @ ?copied @ replacement vars ctx words m) @ extra @ [] @ expanded vars ctx words ps"
      using Cons.IH [OF _ last, of "[]" "result @ ?copied @ replacement vars ctx words m"] Cons.prems(1) by auto
    have "extra = []" using e(1) render by auto
    moreover have "customLoop vars ctx words ?func (length pre) (length pre - 1) result =
        customLoop vars ctx words ?func (m_end m) (m_end m - 1) (result @ ?copied @ replacement vars ctx words m)"
      by (subst customLoop.simps) (simp only: m(1) option.case)
    ultimately have "customLoop vars ctx words ?func (length pre) (length pre - 1) result =
        result @ (if pre @ l = [] then [CHR 0x7B] else l) @ piece_value vars ctx words p @ expanded vars ctx words ps"
      using e(2) replacement_value [OF p m(4), of vars ctx words] unfolding m(3) copied by simp
    then show ?thesis by (intro exI [of _ "if pre @ l = [] then [CHR 0x7B] else []"]) auto
  qed
qed

lemma unbrace_id: "CHR 0x7B \<notin> set s \<Longrightarrow> unbrace s = s"
  by (induction s rule: unbrace.induct) auto

text \<open>
  C28. A command expands its template as the help text says: text stays, \<open>{n}\<close> becomes the n-th word and is
  dropped when there is none, \<open>{n+}\<close> becomes the words from the n-th on, and a variable its value or its
  alternative, as long as no opening brace is in the text or in what is inserted.\<close>

theorem execCustomCommand_expands:
  assumes "list_all piece_ok ps" "CHR 0x7B \<notin> set (expanded vars ctx words ps)"
  shows "execCustomCommand vars ctx words (concat (map render ps)) = expanded vars ctx words ps"
proof -
  define e where "e = expanded vars ctx words ps"
  obtain extra where "extra = [] \<or> extra = [CHR 0x7B]"
    "customLoop vars ctx words (concat (map render ps)) 0 0 [] = extra @ e"
    using customLoop_expands [OF assms(1), of "[]" "[]" vars ctx words "[]"] unfolding e_def by auto
  moreover have "CHR 0x7B \<notin> set e" unfolding e_def by (rule assms(2))
  moreover from this have "e \<noteq> [] \<Longrightarrow> hd e \<noteq> CHR 0x7B" using hd_in_set by metis
  ultimately show ?thesis using unbrace_id [of e] unfolding e_def [symmetric]
    by (auto simp: execCustomCommand_def Let_def)
qed

theorem execCustomCommand_expands_witness:
  "execCustomCommand (\<lambda>n. if n = ''user'' then Some (orAlt ''bob'') else None) Map.empty [''/hi'', ''a'', ''b'', ''c'']
     (concat (map render [WordAt 1, WordsFrom 2, Lit ''! '', Var ''user'' ''x'', WordAt 9])) = ''ab c! bob''"
proof -
  let ?vars = "\<lambda>n. if n = ''user'' then Some (orAlt ''bob'') else None"
  let ?ps = "[WordAt 1, WordsFrom 2, Lit ''! '', Var ''user'' ''x'', WordAt 9]"
  have v: "expanded ?vars Map.empty [''/hi'', ''a'', ''b'', ''c''] ?ps = ''ab c! bob''" by (simp add: orAlt_def)
  have "list_all piece_ok ?ps" by (simp add: is_ident_def)
  then show ?thesis using execCustomCommand_expands [of ?ps ?vars Map.empty "[''/hi'', ''a'', ''b'', ''c'']"] unfolding v by simp
qed

text \<open>Escaped braces in front of a placeholder are lost, and so is a single brace at the begin.\<close>

lemma braces_are_lost:
  "execCustomCommand vars ctx [''/x'', ''w''] [CHR ''a'', CHR 0x7B, CHR 0x7B, CHR 0x7B, CHR ''1'', CHR 0x7D] = ''aw''"
  "execCustomCommand vars ctx words (CHR 0x7B # ''b'') = ''b''"
proof -
  let ?f = "[CHR ''a'', CHR 0x7B, CHR 0x7B, CHR 0x7B, CHR ''1'', CHR 0x7D]"
  have up: "[0..<6::nat] = [0,1,2,3,4,5]" "[5..<6::nat] = [5]" "[0..<2::nat] = [0,1]" by (simp_all add: upt_rec)
  have "parseCommand_match ?f 0 = Some \<lparr>m_start = 0, m_end = 6, m_g3 = ''1'', m_g4 = [], m_g5 = []\<rparr>"
    by (simp add: parseCommand_match_def up match_at_def group1_end_def Let_def parse_content_def is_digit_def)
  moreover have "parseCommand_match ?f 5 = None"
    by (simp add: parseCommand_match_def up match_at_def group1_end_def Let_def)
  ultimately show "execCustomCommand vars ctx [''/x'', ''w''] ?f = ''aw''"
    by (simp add: execCustomCommand_def Let_def customLoop.simps replacement_def to_int_def is_digit_def read_nat_def)
  have "parseCommand_match (CHR 0x7B # ''b'') 0 = None"
    by (simp add: parseCommand_match_def up match_at_def group1_end_def Let_def parse_content_def is_digit_def is_ident_def)
  then show "execCustomCommand vars ctx words (CHR 0x7B # ''b'') = ''b''"
    by (simp add: execCustomCommand_def Let_def customLoop.simps)
qed

section \<open>The map follows the table\<close>

datatype cc_op = InsertCommand Command int | RemoveCommandAt int

fun cc_step :: "cc_op \<Rightarrow> command_controller \<Rightarrow> vector_error + command_controller" where
  "cc_step (InsertCommand cmd index) c = cc_insert cmd index c"
| "cc_step (RemoveCommandAt index) c = cc_removeAt index c"

fun cc_run :: "cc_op list \<Rightarrow> command_controller \<Rightarrow> vector_error + command_controller" where
  "cc_run [] c = Inr c"
| "cc_run (ops # opss) c = bind_sum (cc_step ops c) (cc_run opss)"

definition cc_inv :: "command_controller \<Rightarrow> bool" where
  "cc_inv c \<longleftrightarrow> sv_compare (cc_items c) = None \<and>
     (\<forall>name. userCommands c name = firstNamed name (sv_items (cc_items c))) \<and>
     maxSpaces c = maxSpacesLoop (sv_items (cc_items c)) 0"

lemma firstNamed_name: "firstNamed name cmds = Some cmd \<Longrightarrow> cmd_name cmd = name \<and> cmd \<in> set cmds"
  by (induction cmds) (auto split: if_splits)

lemma firstNamed_append: "firstNamed name (xs @ ys) = (case firstNamed name xs of None \<Rightarrow> firstNamed name ys | r \<Rightarrow> r)"
  by (induction xs) auto

lemma firstNamed_insert: "cmd_name cmd \<noteq> name \<Longrightarrow> firstNamed name (xs @ cmd # ys) = firstNamed name (xs @ ys)"
  by (simp add: firstNamed_append split: option.split)

lemma addFirstMatchToMap_inv:
  assumes "sv_compare v = None"
    and "\<And>name. name \<noteq> cmd_name item \<Longrightarrow> userCommands c name = firstNamed name (sv_items v)"
  shows "cc_inv (addFirstMatchToMap item (c\<lparr>cc_items := v\<rparr>))"
proof -
  let ?c = "addFirstMatchToMap item (c\<lparr>cc_items := v\<rparr>)"
  have "userCommands ?c name = firstNamed name (sv_items v)" for name
  proof (cases "firstNamed (cmd_name item) (sv_items v)")
    case None
    then show ?thesis using assms(2) [of name] by (cases "name = cmd_name item") (simp_all add: addFirstMatchToMap_def Let_def)
  next
    case (Some cmd)
    then have "cmd_name cmd = cmd_name item" using firstNamed_name by blast
    then show ?thesis using assms(2) [of name] Some by (cases "name = cmd_name item") (simp_all add: addFirstMatchToMap_def Let_def)
  qed
  then show ?thesis using assms(1) by (simp add: cc_inv_def addFirstMatchToMap_def Let_def)
qed

lemma cc_step_inv:
  assumes "cc_inv c" "cc_step ops c = Inr c'"
  shows "cc_inv c'"
proof (cases ops)
  case (InsertCommand cmd index)
  then obtain v k where v: "sv_insert (\<lambda>_. Inr) cmd index None (cc_items c) () = Inr (v, (), k)"
    and c': "c' = addFirstMatchToMap cmd (c\<lparr>cc_items := v\<rparr>)"
    using assms(2) by (auto simp: cc_insert_def bind_sum_def split: sum.splits)
  have cmp: "sv_compare (cc_items c) = None" using assms(1) by (simp add: cc_inv_def)
  define n where "n = (if index = -1 then length (sv_items (cc_items c)) else nat index)"
  have "sv_items v = insert_at n cmd (sv_items (cc_items c))" "sv_compare v = None"
    using v cmp by (auto simp: n_def sv_insert_def bind_sum_def Let_def itemsChanged_def split: if_splits)
  then show ?thesis unfolding c' using assms(1)
    by (intro addFirstMatchToMap_inv) (auto simp: cc_inv_def insert_at_def firstNamed_insert)
next
  case (RemoveCommandAt index)
  then obtain v where v: "sv_removeAt (\<lambda>_. Inr) index None (cc_items c) () = Inr (v, ())"
    and c': "c' = addFirstMatchToMap (sv_items (cc_items c) ! nat index) (c\<lparr>cc_items := v\<rparr>)"
    using assms(2) by (auto simp: cc_removeAt_def bind_sum_def split: sum.splits)
  let ?xs = "sv_items (cc_items c)"
  have n: "nat index < length ?xs" "sv_items v = erase_at (nat index) ?xs" "sv_compare v = sv_compare (cc_items c)"
    using v by (auto simp: sv_removeAt_def bind_sum_def Let_def itemsChanged_def split: if_splits)
  have "firstNamed name ?xs = firstNamed name (sv_items v)" if "name \<noteq> cmd_name (?xs ! nat index)" for name
  proof -
    have "firstNamed name ?xs = firstNamed name (take (nat index) ?xs @ ?xs ! nat index # drop (Suc (nat index)) ?xs)"
      using n(1) by (simp add: id_take_nth_drop [symmetric])
    then show ?thesis using that by (simp add: n(2) erase_at_def firstNamed_insert)
  qed
  then show ?thesis unfolding c' using assms(1) n(3)
    by (intro addFirstMatchToMap_inv) (auto simp: cc_inv_def)
qed

lemma cc_run_inv: "cc_run ops c = Inr c' \<Longrightarrow> cc_inv c \<Longrightarrow> cc_inv c'"
  by (induction ops arbitrary: c) (auto simp: bind_sum_def cc_step_inv split: sum.splits)

lemma cc_init_inv: "cc_inv cc_init"
  by (simp add: cc_inv_def cc_init_def SignalVector_def)

lemma maxSpacesLoop_ge:
  "m \<le> maxSpacesLoop cmds m" "cmd \<in> set cmds \<Longrightarrow> count_list (cmd_name cmd) (CHR '' '') \<le> maxSpacesLoop cmds m"
proof -
  show ge: "m \<le> maxSpacesLoop cmds m" for cmds m
    by (induction cmds m rule: maxSpacesLoop.induct) (auto simp: Let_def split: if_splits)
  show "cmd \<in> set cmds \<Longrightarrow> count_list (cmd_name cmd) (CHR '' '') \<le> maxSpacesLoop cmds m"
  proof (induction cmds m rule: maxSpacesLoop.induct)
    case (2 x xs m)
    then show ?case using ge [of "count_list (cmd_name x) (CHR '' '')" xs] ge [of m xs]
      by (auto simp: Let_def)
  qed simp
qed

text \<open>
  C27. Whatever is inserted into and removed from the table of commands, the map has for every name the first
  command of the table with that name, and the bound on the spaces of names covers every command.\<close>

theorem user_commands_follow_table:
  assumes "cc_run ops cc_init = Inr c"
  shows "userCommands c name = firstNamed name (sv_items (cc_items c)) \<and>
    (\<forall>cmd\<in>set (sv_items (cc_items c)). count_list (cmd_name cmd) (CHR '' '') \<le> maxSpaces c)"
  using cc_run_inv [OF assms cc_init_inv] maxSpacesLoop_ge(2) by (auto simp: cc_inv_def)

theorem user_commands_follow_table_witness:
  "userCommands (addFirstMatchToMap \<lparr>cmd_name = ''/a'', cmd_func = ''x'', cmd_showInMsgContextMenu = False\<rparr>
      (cc_init\<lparr>cc_items := itemsChanged (SignalVector\<lparr>sv_items := [\<lparr>cmd_name = ''/a'', cmd_func = ''x'', cmd_showInMsgContextMenu = False\<rparr>]\<rparr>)\<rparr>))
      ''/a'' = Some \<lparr>cmd_name = ''/a'', cmd_func = ''x'', cmd_showInMsgContextMenu = False\<rparr>"
proof -
  let ?cmd = "\<lparr>cmd_name = ''/a'', cmd_func = ''x'', cmd_showInMsgContextMenu = False\<rparr>"
  let ?c = "addFirstMatchToMap ?cmd (cc_init\<lparr>cc_items := itemsChanged (SignalVector\<lparr>sv_items := [?cmd]\<rparr>)\<rparr>)"
  have "cc_run [InsertCommand ?cmd 0] cc_init = Inr ?c"
    by (simp add: cc_insert_def sv_insert_def cc_init_def SignalVector_def insert_at_def)
  from user_commands_follow_table [OF this, of "''/a''"]
  show ?thesis by (simp add: addFirstMatchToMap_def itemsChanged_def Let_def)
qed

text \<open>Names with more spaces than the bound are not in the map, and every step of the loop adds a space.\<close>

lemma spacesLoop_none:
  assumes "\<And>name cmd. commands name = Some cmd \<Longrightarrow> count_list name (CHR '' '') \<le> m"
  shows "m \<le> count_list name (CHR '' '') \<Longrightarrow> spacesLoop commands ws n name = None"
proof (induction ws arbitrary: n name)
  case Nil
  then show ?case by (cases n) simp_all
next
  case (Cons w ws)
  have "commands (name @ '' '' @ w) = None"
  proof (rule ccontr)
    assume "commands (name @ '' '' @ w) \<noteq> None"
    then have "count_list (name @ '' '' @ w) (CHR '' '') \<le> m" using assms by blast
    then show False using Cons.prems by simp
  qed
  then show ?case using Cons by (cases n) (simp_all add: Let_def)
qed

lemma spacesLoop_bound:
  assumes "\<And>name cmd. commands name = Some cmd \<Longrightarrow> count_list name (CHR '' '') \<le> m"
  shows "i \<le> n \<Longrightarrow> m \<le> count_list name (CHR '' '') + i \<Longrightarrow> spacesLoop commands ws n name = spacesLoop commands ws i name"
proof (induction ws arbitrary: n i name)
  case Nil
  then show ?case by (cases n; cases i) simp_all
next
  case (Cons w ws)
  show ?case
  proof (cases i)
    case 0
    then show ?thesis using spacesLoop_none [OF assms, where n = n and name = name and ws = "w # ws"] Cons.prems by simp
  next
    case (Suc i')
    then obtain n' where n: "n = Suc n'" "i' \<le> n'" using Cons.prems(1) by (cases n) auto
    have "spacesLoop commands ws n' (name @ '' '' @ w) = spacesLoop commands ws i' (name @ '' '' @ w)"
      using Cons.IH [OF n(2), of "name @ '' '' @ w"] Cons.prems(2) Suc by simp
    then show ?thesis using n Suc by (simp add: Let_def split: option.split)
  qed
qed

text \<open>
  Bounding the number of words that are tried as a name loses nothing: with any larger bound the same
  command runs and the same text is sent.\<close>

theorem maxSpaces_loses_nothing:
  assumes "cc_run ops cc_init = Inr c" "maxSpaces c \<le> n"
  shows "execCommand replaceShortCodes custom inWhispers c dryRun text =
    execCommand replaceShortCodes custom inWhispers (c\<lparr>maxSpaces := n\<rparr>) dryRun text"
proof -
  have inv: "cc_inv c" by (rule cc_run_inv [OF assms(1) cc_init_inv])
  have m: "count_list name (CHR '' '') \<le> maxSpaces c" if "userCommands c name = Some cmd" for name cmd
    using that inv firstNamed_name [of name "sv_items (cc_items c)" cmd] maxSpacesLoop_ge(2) [of cmd "sv_items (cc_items c)" 0]
    by (auto simp: cc_inv_def)
  have "spacesLoop (userCommands c) ws (min (maxSpaces c) k) name = spacesLoop (userCommands c) ws (min n k) name" for ws k name
  proof (cases "maxSpaces c \<le> k")
    case True
    then show ?thesis
      using spacesLoop_bound [of "userCommands c" "maxSpaces c" "maxSpaces c" "min n k" name ws] m assms(2) by simp
  next
    case False
    then show ?thesis using assms(2) by simp
  qed
  moreover have "userCommands (c\<lparr>maxSpaces := n\<rparr>) = userCommands c" "registered (c\<lparr>maxSpaces := n\<rparr>) = registered c"
    "maxSpaces (c\<lparr>maxSpaces := n\<rparr>) = n" by simp_all
  ultimately show ?thesis unfolding execCommand_def Let_def by (simp only:)
qed

theorem maxSpaces_loses_nothing_witness:
  "execCommand (\<lambda>s. s) (\<lambda>ws cmd. cmd_func cmd) False cc_init False ''/a b c'' =
   execCommand (\<lambda>s. s) (\<lambda>ws cmd. cmd_func cmd) False (cc_init\<lparr>maxSpaces := 7\<rparr>) False ''/a b c''"
  by (rule maxSpaces_loses_nothing [of "[]"]) (simp_all add: cc_init_def)

end
