(* ===== verification/TwitchSend.thy ===== *)
theory TwitchSend
  imports Emojis
begin

text \<open>
  Sending a message: \<open>TwitchChannel::prepareMessage\<close>, \<open>sendMessage\<close> and \<open>sendReply\<close> of
  \<open>providers/twitch/TwitchChannel.cpp\<close>, and the limit on the rate, the colors and the ways to send of
  \<open>providers/twitch/TwitchIrcServer.cpp\<close>.  The replies of the Twitch API are events.  Times are nanoseconds
  of the steady clock.
\<close>

section \<open>Settings and state\<close>

datatype ChatSendProtocol = ProtocolDefault | ProtocolIRC | ProtocolHelix

record send_settings =
  twitchLowRateLimitDelay :: int
  twitchHighRateLimitDelay :: int
  ignoreMaxMessageRateLimit :: bool
  rainbowMessages :: bool
  rainbowMethod :: bool
  rainbowMessagesPrime :: bool
  rainbowSpeed :: int
  rainbowStartingHue :: int
  rainbowSaturation :: int
  rainbowLight :: int
  allowRainbowChannels :: bool
  rainbowChannels :: qstring
  enableDefaultColor :: bool
  defaultColor :: qstring
  chatSendProtocol :: ChatSendProtocol
  allowDuplicateMessages :: bool

text \<open>What is used of Qt: the name of a color, comparing without case, and white space.\<close>

record send_api =
  fromHsl :: "int \<Rightarrow> int \<Rightarrow> int \<Rightarrow> qstring"
  equalsIgnoreCase :: "qstring \<Rightarrow> qstring \<Rightarrow> bool"
  isSpace16 :: "16 word \<Rightarrow> bool"

record send_channel =
  chan_name :: qstring
  chan_roomId :: qstring
  chan_mod :: bool
  chan_broadcaster :: bool
  chan_vip :: bool
  lastSentMessage :: qstring

text \<open>What leaves the server: requests to send a message or to change the color, lines for the IRC
  connection, and system messages in a channel.\<close>

datatype send_action =
    SendChatMessage qstring qstring qstring
  | SendRaw qstring
  | UpdateUserChatColor qstring
  | SystemMessage qstring qstring
  | ShowLoginMessage qstring
  | UpdateSevenTVActivity qstring

text \<open>A request to change the color, and what its callbacks captured; the channel is a shared object, given by
  its name.\<close>

datatype after_color = AlreadySent | SendLater | ReplyLater qstring

record color_request =
  cr_channel :: qstring
  cr_color :: qstring
  cr_message :: qstring
  cr_after :: after_color

record irc_server =
  lastMessagePleb :: "int list"
  lastMessageMod :: "int list"
  lastErrorTimeSpeed :: int
  lastErrorTimeAmount :: int
  rainbowHue :: "qstring \<rightharpoonup> int"
  nonPrimeColorsIndex :: "qstring \<rightharpoonup> nat"
  colorRequests :: "color_request list"
  actions :: "send_action list"

definition server_init :: irc_server where
  "server_init = \<lparr>lastMessagePleb = [], lastMessageMod = [], lastErrorTimeSpeed = 0, lastErrorTimeAmount = 0,
     rainbowHue = Map.empty, nonPrimeColorsIndex = Map.empty, colorRequests = [], actions = []\<rparr>"

definition act :: "send_action \<Rightarrow> irc_server \<Rightarrow> irc_server" where
  "act a sv = sv\<lparr>actions := actions sv @ [a]\<rparr>"

lemma act_simps [simp]:
  "actions (act a sv) = actions sv @ [a]" "colorRequests (act a sv) = colorRequests sv"
  "lastMessagePleb (act a sv) = lastMessagePleb sv" "lastMessageMod (act a sv) = lastMessageMod sv"
  by (simp_all add: act_def)

section \<open>The limit on the rate\<close>

definition hasHighRateLimit :: "send_channel \<Rightarrow> bool" where
  "hasHighRateLimit ch = (chan_mod ch \<or> chan_broadcaster ch \<or> chan_vip ch)"

definition seconds :: "int \<Rightarrow> int" where
  "seconds n = n * 1000000000"

definition milliseconds :: "int \<Rightarrow> int" where
  "milliseconds n = n * 1000000"

definition lastMessage :: "bool \<Rightarrow> irc_server \<Rightarrow> int list" where
  "lastMessage high sv = (if high then lastMessageMod sv else lastMessagePleb sv)"

definition set_lastMessage :: "bool \<Rightarrow> int list \<Rightarrow> irc_server \<Rightarrow> irc_server" where
  "set_lastMessage high q sv = (if high then sv\<lparr>lastMessageMod := q\<rparr> else sv\<lparr>lastMessagePleb := q\<rparr>)"

definition maxMessageCount :: "bool \<Rightarrow> nat" where
  "maxMessageCount high = (if high then 99 else 19)"

definition minMessageOffset :: "send_settings \<Rightarrow> bool \<Rightarrow> int" where
  "minMessageOffset st high =
     milliseconds (if high then twitchHighRateLimitDelay st else twitchLowRateLimitDelay st)"

fun popOld :: "int \<Rightarrow> int list \<Rightarrow> int list" where
  "popOld now [] = []"
| "popOld now (t # ts) = (if t + seconds 32 < now then popOld now ts else t # ts)"

definition prepareToSend :: "send_settings \<Rightarrow> int \<Rightarrow> send_channel \<Rightarrow> irc_server \<Rightarrow> irc_server \<times> bool" where
  "prepareToSend st now ch sv =
     (let high = hasHighRateLimit ch; q = lastMessage high sv in
      if q \<noteq> [] \<and> last q + minMessageOffset st high > now then
        (if \<not> ignoreMaxMessageRateLimit st \<and> lastErrorTimeSpeed sv + seconds 30 < now then
           (act (SystemMessage (chan_name ch) (qs ''You are sending messages too quickly.'')) sv)
             \<lparr>lastErrorTimeSpeed := now\<rparr>
         else sv, False)
      else
        let q = popOld now q; sv = set_lastMessage high q sv in
        if \<not> ignoreMaxMessageRateLimit st \<and> length q \<ge> maxMessageCount high then
          (if lastErrorTimeAmount sv + seconds 30 < now then
             (act (SystemMessage (chan_name ch) (qs ''You are sending too many messages.'')) sv)
               \<lparr>lastErrorTimeAmount := now\<rparr>
           else sv, False)
        else (set_lastMessage high (q @ [now]) sv, True))"

section \<open>Ways to send\<close>

definition sendRawMessage :: "qstring \<Rightarrow> irc_server \<Rightarrow> irc_server" where
  "sendRawMessage raw sv = act (SendRaw raw) sv"

definition server_sendMessage :: "qstring \<Rightarrow> qstring \<Rightarrow> irc_server \<Rightarrow> irc_server" where
  "server_sendMessage channelName message sv =
     sendRawMessage (qs ''PRIVMSG #'' @ channelName @ qs '' :'' @ message) sv"

definition shouldSendHelixChat :: "send_settings \<Rightarrow> bool" where
  "shouldSendHelixChat st = (chatSendProtocol st = ProtocolHelix)"

definition notPossible :: qstring where
  "notPossible = qs ''Sending messages in this channel isn'' @ 0x27 # qs ''t possible.''"

definition sendHelixMessage :: "send_channel \<Rightarrow> qstring \<Rightarrow> qstring \<Rightarrow> irc_server \<Rightarrow> irc_server" where
  "sendHelixMessage ch message replyParentId sv =
     (let broadcasterID = chan_roomId ch in
      if broadcasterID = [] then act (SystemMessage (chan_name ch) notPossible) sv
      else act (SendChatMessage broadcasterID message replyParentId) sv)"

text \<open>The callbacks of a message sent over the API; a channel that is gone gets no message.\<close>

datatype send_error =
  MissingText | BadRequest | Forbidden | MessageTooLarge | SendMissingScope | SendForwarded | SendUnknown

definition helixSent :: "send_channel option \<Rightarrow> bool \<Rightarrow> qstring option \<Rightarrow> irc_server \<Rightarrow> irc_server" where
  "helixSent chan isSent dropReason sv =
     (case chan of None \<Rightarrow> sv
      | Some ch \<Rightarrow>
          if isSent then sv
          else case dropReason of
              Some text \<Rightarrow> act (SystemMessage (chan_name ch) text) sv
            | None \<Rightarrow> act (SystemMessage (chan_name ch) (qs ''Your message was not sent.'')) sv)"

fun send_error_text :: "send_error \<Rightarrow> qstring \<Rightarrow> qstring" where
  "send_error_text MissingText m = qs ''You can'' @ 0x27 # qs ''t send an empty message.''"
| "send_error_text BadRequest m = qs ''Failed to send message: '' @ m"
| "send_error_text Forbidden m = qs ''You are not allowed to send messages in this channel.''"
| "send_error_text MessageTooLarge m = qs ''Your message was too long.''"
| "send_error_text SendMissingScope m = qs ''Missing required scope. Re-login with your account and try again.''"
| "send_error_text SendForwarded m = m"
| "send_error_text SendUnknown m = qs ''Unknown error: '' @ m"

definition helixFailed :: "send_channel option \<Rightarrow> send_error \<Rightarrow> qstring \<Rightarrow> irc_server \<Rightarrow> irc_server" where
  "helixFailed chan err message sv =
     (case chan of None \<Rightarrow> sv
      | Some ch \<Rightarrow>
          let message = (if message = [] then qs ''(empty message)'' else message)
          in act (SystemMessage (chan_name ch) (send_error_text err message)) sv)"

section \<open>Colors\<close>

definition splitCommaSeparatedString :: "qstring \<Rightarrow> qstring list" where
  "splitCommaSeparatedString s = filter (\<lambda>p. p \<noteq> []) (splitOn (qc CHR '','') s)"

definition rainbow_excluded :: "send_api \<Rightarrow> send_settings \<Rightarrow> send_channel \<Rightarrow> bool" where
  "rainbow_excluded api st ch \<longleftrightarrow> allowRainbowChannels st \<and>
     \<not> list_ex (equalsIgnoreCase api (chan_name ch)) (splitCommaSeparatedString (rainbowChannels st))"

definition rainbow_colors :: "qstring list" where
  "rainbow_colors = map qs [''firebrick'', ''red'', ''orange_red'', ''chocolate'', ''golden_rod'', ''yellow_green'',
     ''spring_green'', ''sea_green'', ''cadet_blue'', ''dodger_blue'', ''blue'', ''blue_violet'', ''hot_pink'']"

text \<open>\<open>operator[]\<close> of the map inserts 0 for a new channel.\<close>

definition next_color :: "send_api \<Rightarrow> send_settings \<Rightarrow> send_channel \<Rightarrow> irc_server \<Rightarrow> irc_server \<times> qstring" where
  "next_color api st ch sv =
     (if rainbowMessagesPrime st then
        let hue = (case rainbowHue sv (chan_name ch) of None \<Rightarrow> rainbowStartingHue st | Some h \<Rightarrow> h);
            hue = hue + rainbowSpeed st;
            hue = (if hue \<ge> 360 then hue - 360 else hue)
        in (sv\<lparr>rainbowHue := (rainbowHue sv)(chan_name ch \<mapsto> hue)\<rparr>,
            fromHsl api hue (rainbowSaturation st) (rainbowLight st))
      else
        let colorID = (case nonPrimeColorsIndex sv (chan_name ch) of None \<Rightarrow> 0 | Some i \<Rightarrow> i);
            colorID = (if colorID \<ge> 12 then 0 else colorID);
            colorID = colorID + 1
        in (sv\<lparr>nonPrimeColorsIndex := (nonPrimeColorsIndex sv)(chan_name ch \<mapsto> colorID)\<rparr>,
            rainbow_colors ! colorID))"

definition requestColor :: "send_channel \<Rightarrow> qstring \<Rightarrow> qstring \<Rightarrow> after_color \<Rightarrow> irc_server \<Rightarrow> irc_server" where
  "requestColor ch color message after sv =
     (act (UpdateUserChatColor color) sv)
       \<lparr>colorRequests := colorRequests sv @
          [\<lparr>cr_channel = chan_name ch, cr_color = color, cr_message = message, cr_after = after\<rparr>]\<rparr>"

section \<open>Requests to send\<close>

text \<open>The branches that the handlers repeat: channels whose name begins with \<open>$\<close> are joined without \<open>#\<close>.\<close>

definition sendChat :: "send_settings \<Rightarrow> send_channel \<Rightarrow> qstring \<Rightarrow> irc_server \<Rightarrow> irc_server" where
  "sendChat st ch message sv =
     (if shouldSendHelixChat st then sendHelixMessage ch message [] sv
      else if chan_name ch \<noteq> [] \<and> hd (chan_name ch) = qc CHR ''$'' then
        sendRawMessage (qs ''PRIVMSG '' @ tl (chan_name ch) @ qs '' :'' @ message) sv
      else server_sendMessage (chan_name ch) message sv)"

definition sendReplyChat :: "send_settings \<Rightarrow> send_channel \<Rightarrow> qstring \<Rightarrow> qstring \<Rightarrow> irc_server \<Rightarrow> irc_server" where
  "sendReplyChat st ch message replyId sv =
     (if shouldSendHelixChat st then sendHelixMessage ch message replyId sv
      else sendRawMessage (qs ''@reply-parent-msg-id='' @ replyId @ qs '' PRIVMSG #'' @ chan_name ch @ qs '' :'' @ message) sv)"

definition onMessageSendRequested ::
  "send_api \<Rightarrow> send_settings \<Rightarrow> int \<Rightarrow> send_channel \<Rightarrow> qstring \<Rightarrow> irc_server \<Rightarrow> irc_server \<times> bool" where
  "onMessageSendRequested api st now ch message sv =
     (let (sv, canSend) = prepareToSend st now ch sv in
      if \<not> canSend then (sv, False)
      else if rainbowMessages st then
        let (sv, color) = next_color api st ch sv in
        if rainbow_excluded api st ch \<and> \<not> enableDefaultColor st then (sendChat st ch message sv, True)
        else
          let color = (if rainbow_excluded api st ch then defaultColor st else color) in
          if rainbowMethod st then (requestColor ch color message AlreadySent (sendChat st ch message sv), True)
          else (requestColor ch color message SendLater sv, True)
      else (sendChat st ch message sv, True))"

definition onReplySendRequested ::
  "send_api \<Rightarrow> send_settings \<Rightarrow> int \<Rightarrow> send_channel \<Rightarrow> qstring \<Rightarrow> qstring \<Rightarrow> irc_server \<Rightarrow> irc_server \<times> bool" where
  "onReplySendRequested api st now ch message replyId sv =
     (let (sv, canSend) = prepareToSend st now ch sv in
      if \<not> canSend then (sv, False)
      else if rainbowMessages st then
        if rainbow_excluded api st ch then (sendReplyChat st ch message replyId sv, True)
        else
          let (sv, color) = next_color api st ch sv
          in (requestColor ch color message (ReplyLater replyId) sv, True)
      else (sendReplyChat st ch message replyId sv, True))"

text \<open>The callbacks of the request for a color, with the channel as it is then.\<close>

datatype color_error = ColorMissingScope | ColorForwarded qstring | ColorUnknown

definition colorChanged :: "send_settings \<Rightarrow> send_channel \<Rightarrow> color_request \<Rightarrow> irc_server \<Rightarrow> irc_server" where
  "colorChanged st ch r sv =
     (case cr_after r of
        AlreadySent \<Rightarrow> sv
      | SendLater \<Rightarrow>
          if shouldSendHelixChat st then sendHelixMessage ch (cr_message r) [] sv
          else server_sendMessage (chan_name ch) (cr_message r) sv
      | ReplyLater replyId \<Rightarrow> sendReplyChat st ch (cr_message r) replyId sv)"

fun color_error_text :: "color_error \<Rightarrow> qstring" where
  "color_error_text ColorMissingScope = qs ''Missing required scope. Re-login with your account and try again.''"
| "color_error_text (ColorForwarded m) = m @ qs ''.''"
| "color_error_text ColorUnknown = qs ''An unknown error has occurred.''"

definition colorFailed ::
  "send_settings \<Rightarrow> color_error \<Rightarrow> send_channel \<Rightarrow> color_request \<Rightarrow> irc_server \<Rightarrow> irc_server" where
  "colorFailed st err ch r sv =
     (let errorMessage = qs ''Failed to change color to '' @ cr_color r @ qs '' - '' @ color_error_text err;
          sv = act (SystemMessage (chan_name ch) errorMessage) sv
      in case cr_after r of
          ReplyLater replyId \<Rightarrow> sendReplyChat st ch (cr_message r) replyId sv
        | _ \<Rightarrow> sendChat st ch (cr_message r) sv)"

section \<open>Sending in a channel\<close>

text \<open>\<open>QString::simplified\<close>: white space at the ends is removed, each white space inside becomes a blank.\<close>

fun squeeze :: "(16 word \<Rightarrow> bool) \<Rightarrow> bool \<Rightarrow> qstring \<Rightarrow> qstring" where
  "squeeze sp pending [] = []"
| "squeeze sp pending (c # s) =
     (if sp c then squeeze sp True s
      else if pending then 0x20 # c # squeeze sp False s else c # squeeze sp False s)"

definition simplified :: "(16 word \<Rightarrow> bool) \<Rightarrow> qstring \<Rightarrow> qstring" where
  "simplified sp s = squeeze sp False (dropWhile sp s)"

text \<open>\<open>indexOf(' ', n)\<close>.\<close>

definition spaceFrom :: "qstring \<Rightarrow> nat \<Rightarrow> nat option" where
  "spaceFrom s n = find (\<lambda>i. s ! i = 0x20) [n..<length s]"

definition MAGIC_MESSAGE_SUFFIX :: qstring where
  "MAGIC_MESSAGE_SUFFIX = [0x20, 0xDB40, 0xDC00]"

definition prepareMessage ::
  "send_api \<Rightarrow> (qstring \<Rightarrow> qstring) \<Rightarrow> send_settings \<Rightarrow> send_channel \<Rightarrow> qstring \<Rightarrow> qstring" where
  "prepareMessage api codes st ch message =
     (let parsedMessage = simplified (isSpace16 api) (codes message) in
      if parsedMessage = [] then []
      else if \<not> hasHighRateLimit ch \<and> allowDuplicateMessages st \<and> parsedMessage = lastSentMessage ch then
        let spaceIndex = spaceFrom parsedMessage 0;
            ignoreFirstSpace = (hd parsedMessage = qc CHR ''/'' \<or> hd parsedMessage = qc CHR ''.'');
            spaceIndex = (if ignoreFirstSpace
              then spaceFrom parsedMessage (case spaceIndex of None \<Rightarrow> 0 | Some i \<Rightarrow> i + 1) else spaceIndex)
        in case spaceIndex of
            None \<Rightarrow> parsedMessage @ MAGIC_MESSAGE_SUFFIX
          | Some i \<Rightarrow> take i parsedMessage @ [0x20, 0x20] @ drop (i + 1) parsedMessage
      else parsedMessage)"

definition channel_sendMessage ::
  "send_api \<Rightarrow> (qstring \<Rightarrow> qstring) \<Rightarrow> send_settings \<Rightarrow> bool \<Rightarrow> int \<Rightarrow> qstring \<Rightarrow> send_channel \<times> irc_server \<Rightarrow>
    send_channel \<times> irc_server" where
  "channel_sendMessage api codes st isLoggedIn now message s =
     (let (ch, sv) = s in
      if \<not> isLoggedIn then (ch, if message \<noteq> [] then act (ShowLoginMessage (chan_name ch)) sv else sv)
      else
        let parsedMessage = prepareMessage api codes st ch message in
        if parsedMessage = [] then (ch, sv)
        else
          let (sv, messageSent) = onMessageSendRequested api st now ch parsedMessage sv;
              sv = act (UpdateSevenTVActivity (chan_name ch)) sv
          in (if messageSent then ch\<lparr>lastSentMessage := parsedMessage\<rparr> else ch, sv))"

definition channel_sendReply ::
  "send_api \<Rightarrow> (qstring \<Rightarrow> qstring) \<Rightarrow> send_settings \<Rightarrow> bool \<Rightarrow> int \<Rightarrow> qstring \<Rightarrow> qstring \<Rightarrow> send_channel \<times> irc_server \<Rightarrow>
    send_channel \<times> irc_server" where
  "channel_sendReply api codes st isLoggedIn now message replyId s =
     (let (ch, sv) = s in
      if \<not> isLoggedIn then (ch, if message \<noteq> [] then act (ShowLoginMessage (chan_name ch)) sv else sv)
      else
        let parsedMessage = prepareMessage api codes st ch message in
        if parsedMessage = [] then (ch, sv)
        else
          let (sv, messageSent) = onReplySendRequested api st now ch parsedMessage replyId sv
          in (if messageSent then ch\<lparr>lastSentMessage := parsedMessage\<rparr> else ch, sv))"

section \<open>Runs\<close>

datatype send_event =
    MessageEvent send_settings int send_channel qstring
  | ReplyEvent send_settings int send_channel qstring qstring
  | ColorChangedEvent send_settings send_channel nat
  | ColorFailedEvent send_settings send_channel nat color_error

text \<open>A message: the name of its channel, its text, and the message it replies to.  The state of a run: the server,
  the accepted messages with their rate limit and time, and the messages that are sent again.\<close>

type_synonym sent_message = "qstring \<times> qstring \<times> qstring option"

type_synonym send_state = "irc_server \<times> ((bool \<times> int) \<times> sent_message) list \<times> sent_message list"

definition message_of :: "color_request \<Rightarrow> sent_message" where
  "message_of r = (cr_channel r, cr_message r, case cr_after r of ReplyLater i \<Rightarrow> Some i | _ \<Rightarrow> None)"

fun send_step :: "send_api \<Rightarrow> send_event \<Rightarrow> send_state \<Rightarrow> send_state" where
  "send_step api (MessageEvent st now ch m) (sv, acc, again) =
     (let (sv, sent) = onMessageSendRequested api st now ch m sv
      in (sv, if sent then acc @ [((hasHighRateLimit ch, now), (chan_name ch, m, None))] else acc, again))"
| "send_step api (ReplyEvent st now ch m replyId) (sv, acc, again) =
     (let (sv, sent) = onReplySendRequested api st now ch m replyId sv
      in (sv, if sent then acc @ [((hasHighRateLimit ch, now), (chan_name ch, m, Some replyId))] else acc, again))"
| "send_step api (ColorChangedEvent st ch i) (sv, acc, again) =
     (if i < length (colorRequests sv) then
        let r = colorRequests sv ! i
        in (colorChanged st (ch\<lparr>chan_name := cr_channel r\<rparr>) r (sv\<lparr>colorRequests := erase_at i (colorRequests sv)\<rparr>), acc, again)
      else (sv, acc, again))"
| "send_step api (ColorFailedEvent st ch i err) (sv, acc, again) =
     (if i < length (colorRequests sv) then
        let r = colorRequests sv ! i
        in (colorFailed st err (ch\<lparr>chan_name := cr_channel r\<rparr>) r (sv\<lparr>colorRequests := erase_at i (colorRequests sv)\<rparr>),
            acc, if cr_after r = AlreadySent then again @ [message_of r] else again)
      else (sv, acc, again))"

definition send_run :: "send_api \<Rightarrow> send_event list \<Rightarrow> send_state" where
  "send_run api es = foldl (\<lambda>s e. send_step api e s) (server_init, [], []) es"

subsection \<open>The rate\<close>

definition timesOf :: "bool \<Rightarrow> ((bool \<times> int) \<times> 'm) list \<Rightarrow> int list" where
  "timesOf high acc = map (\<lambda>a. snd (fst a)) (filter (\<lambda>a. fst (fst a) = high) acc)"

definition in_window :: "int \<Rightarrow> int list \<Rightarrow> int list" where
  "in_window t ts = filter (\<lambda>x. t \<le> x \<and> x \<le> t + seconds 32) ts"

fun chronological :: "int \<Rightarrow> send_event list \<Rightarrow> bool" where
  "chronological T [] = True"
| "chronological T (MessageEvent st now ch m # es) = (T \<le> now \<and> chronological now es)"
| "chronological T (ReplyEvent st now ch m r # es) = (T \<le> now \<and> chronological now es)"
| "chronological T (e # es) = chronological T es"

text \<open>The limit is not switched off, and the delay of settings is at least \<open>d\<close>.\<close>

fun limited :: "int \<Rightarrow> send_event \<Rightarrow> bool" where
  "limited d (MessageEvent st now ch m) = (\<not> ignoreMaxMessageRateLimit st \<and> d \<le> minMessageOffset st (hasHighRateLimit ch))"
| "limited d (ReplyEvent st now ch m r) = (\<not> ignoreMaxMessageRateLimit st \<and> d \<le> minMessageOffset st (hasHighRateLimit ch))"
| "limited d e = True"

definition rate_inv :: "int \<Rightarrow> int \<Rightarrow> irc_server \<Rightarrow> ((bool \<times> int) \<times> 'm) list \<Rightarrow> bool" where
  "rate_inv d T sv acc \<longleftrightarrow> (\<forall>high.
     (\<exists>old. timesOf high acc = old @ lastMessage high sv \<and> (\<forall>t\<in>set old. t + seconds 32 < T)) \<and>
     (\<forall>t\<in>set (timesOf high acc). t \<le> T) \<and>
     (\<forall>t. length (in_window t (timesOf high acc)) \<le> maxMessageCount high) \<and>
     successively (\<lambda>a b. a + d \<le> b) (timesOf high acc))"

lemma popOld_dropWhile: "popOld now q = dropWhile (\<lambda>t. t + seconds 32 < now) q"
  by (induction q) auto

text \<open>One accepted message, for the list of times \<open>h\<close> with its queue \<open>q\<close>.\<close>

lemma window_push:
  assumes h: "h = old @ q" "\<forall>t\<in>set old. t + seconds 32 < now"
    and le: "\<forall>t. length (in_window t h) \<le> n" and short: "length (popOld now q) < n"
  shows "length (in_window t (h @ [now])) \<le> n"
proof (cases "t \<le> now \<and> now \<le> t + seconds 32")
  case False
  then show ?thesis using le by (auto simp: in_window_def)
next
  case True
  define gone where "gone = old @ takeWhile (\<lambda>t. t + seconds 32 < now) q"
  have h': "h = gone @ popOld now q" by (simp add: gone_def h(1) popOld_dropWhile)
  have "x + seconds 32 < now" if "x \<in> set gone" for x
    using that h(2) by (auto simp: gone_def dest: set_takeWhileD)
  then have "\<forall>x\<in>set gone. \<not> t \<le> x" using True by fastforce
  then have "in_window t gone = []" by (simp add: in_window_def filter_empty_conv)
  then have "in_window t (h @ [now]) = in_window t (popOld now q @ [now])" by (simp add: h' in_window_def)
  then have "length (in_window t (h @ [now])) \<le> length (popOld now q @ [now])"
    unfolding in_window_def by (metis length_filter_le)
  then show ?thesis using short by simp
qed

lemma lastMessage_simps [simp]:
  "lastMessage high (act a sv) = lastMessage high sv"
  "lastMessage high (sv\<lparr>lastErrorTimeSpeed := t\<rparr>) = lastMessage high sv"
  "lastMessage high (sv\<lparr>lastErrorTimeAmount := t\<rparr>) = lastMessage high sv"
  "lastMessage high (sv\<lparr>rainbowHue := f\<rparr>) = lastMessage high sv"
  "lastMessage high (sv\<lparr>nonPrimeColorsIndex := g\<rparr>) = lastMessage high sv"
  "lastMessage high (sv\<lparr>colorRequests := rs\<rparr>) = lastMessage high sv"
  "lastMessage high (set_lastMessage h q sv) = (if h = high then q else lastMessage high sv)"
  by (auto simp: lastMessage_def set_lastMessage_def)

lemma lastMessage_send [simp]:
  "lastMessage high (sendHelixMessage ch m r sv) = lastMessage high sv"
  "lastMessage high (server_sendMessage c m sv) = lastMessage high sv"
  "lastMessage high (sendChat st ch m sv) = lastMessage high sv"
  "lastMessage high (sendReplyChat st ch m r sv) = lastMessage high sv"
  "lastMessage high (requestColor ch c m a sv) = lastMessage high sv"
  "lastMessage high (fst (next_color api st ch sv)) = lastMessage high sv"
  by (simp_all add: sendChat_def sendReplyChat_def sendHelixMessage_def server_sendMessage_def sendRawMessage_def
    requestColor_def next_color_def Let_def)

lemma lastMessage_color [simp]:
  "lastMessage high (colorChanged st ch r sv) = lastMessage high sv"
  "lastMessage high (colorFailed st err ch r sv) = lastMessage high sv"
  by (simp_all add: colorChanged_def colorFailed_def Let_def split: after_color.split)

text \<open>Both handlers accept what \<open>prepareToSend\<close> accepts and leave the queues alone.\<close>

lemma requested_queue:
  "snd (onMessageSendRequested api st now ch m sv) = snd (prepareToSend st now ch sv)"
  "lastMessage high (fst (onMessageSendRequested api st now ch m sv)) = lastMessage high (fst (prepareToSend st now ch sv))"
  "snd (onReplySendRequested api st now ch m r sv) = snd (prepareToSend st now ch sv)"
  "lastMessage high (fst (onReplySendRequested api st now ch m r sv)) = lastMessage high (fst (prepareToSend st now ch sv))"
proof -
  obtain sv' ok where p: "prepareToSend st now ch sv = (sv', ok)" by fastforce
  obtain sv'' c where n: "next_color api st ch sv' = (sv'', c)" by fastforce
  have q: "lastMessage high sv'' = lastMessage high sv'" using lastMessage_send(6) [of high api st ch sv'] n by simp
  show "snd (onMessageSendRequested api st now ch m sv) = snd (prepareToSend st now ch sv)"
    "lastMessage high (fst (onMessageSendRequested api st now ch m sv)) = lastMessage high (fst (prepareToSend st now ch sv))"
    "snd (onReplySendRequested api st now ch m r sv) = snd (prepareToSend st now ch sv)"
    "lastMessage high (fst (onReplySendRequested api st now ch m r sv)) = lastMessage high (fst (prepareToSend st now ch sv))"
    by (simp_all add: onMessageSendRequested_def onReplySendRequested_def p n q Let_def)
qed

lemma prepareToSend_queue:
  assumes "prepareToSend st now ch sv = (sv', ok)" "\<not> ignoreMaxMessageRateLimit st"
  defines "q \<equiv> lastMessage (hasHighRateLimit ch) sv"
  shows "high \<noteq> hasHighRateLimit ch \<Longrightarrow> lastMessage high sv' = lastMessage high sv"
    and "ok \<Longrightarrow> lastMessage (hasHighRateLimit ch) sv' = popOld now q @ [now] \<and>
      length (popOld now q) < maxMessageCount (hasHighRateLimit ch) \<and>
      (q = [] \<or> last q + minMessageOffset st (hasHighRateLimit ch) \<le> now)"
    and "\<not> ok \<Longrightarrow> lastMessage (hasHighRateLimit ch) sv' = q \<or> lastMessage (hasHighRateLimit ch) sv' = popOld now q"
  using assms(1,2) unfolding q_def prepareToSend_def Let_def by (auto split: if_splits)

lemma rate_inv_request:
  assumes inv: "rate_inv d T sv acc" and now: "T \<le> now" and d: "d \<le> seconds 32"
    and p: "prepareToSend st now ch sv = (sv', ok)"
    and lim: "\<not> ignoreMaxMessageRateLimit st" "d \<le> minMessageOffset st (hasHighRateLimit ch)"
  shows "rate_inv d now sv' (if ok then acc @ [((hasHighRateLimit ch, now), msg)] else acc)"
proof -
  let ?acc = "if ok then acc @ [((hasHighRateLimit ch, now), msg)] else acc"
  note queue = prepareToSend_queue [OF p lim(1)]
  have "(\<exists>old. timesOf high ?acc = old @ lastMessage high sv' \<and> (\<forall>t\<in>set old. t + seconds 32 < now)) \<and>
     (\<forall>t\<in>set (timesOf high ?acc). t \<le> now) \<and>
     (\<forall>t. length (in_window t (timesOf high ?acc)) \<le> maxMessageCount high) \<and>
     successively (\<lambda>a b. a + d \<le> b) (timesOf high ?acc)" for high
  proof -
    obtain old where h: "timesOf high acc = old @ lastMessage high sv" "\<forall>t\<in>set old. t + seconds 32 < T"
      and le: "\<forall>t\<in>set (timesOf high acc). t \<le> T"
      and win: "\<forall>t. length (in_window t (timesOf high acc)) \<le> maxMessageCount high"
      and gap: "successively (\<lambda>a b. a + d \<le> b) (timesOf high acc)"
      using inv unfolding rate_inv_def by blast
    have old: "\<forall>t\<in>set old. t + seconds 32 < now" using h(2) now by auto
    have le': "\<forall>t\<in>set (timesOf high acc). t \<le> now" using le now by auto
    let ?q = "lastMessage high sv"
    have drop: "\<exists>old. timesOf high acc = old @ popOld now ?q \<and> (\<forall>t\<in>set old. t + seconds 32 < now)"
    proof (intro exI conjI)
      show "timesOf high acc = (old @ takeWhile (\<lambda>t. t + seconds 32 < now) ?q) @ popOld now ?q"
        by (simp add: h(1) popOld_dropWhile)
      show "\<forall>t\<in>set (old @ takeWhile (\<lambda>t. t + seconds 32 < now) ?q). t + seconds 32 < now"
        using old by (auto dest: set_takeWhileD)
    qed
    show ?thesis
    proof (cases "ok \<and> high = hasHighRateLimit ch")
      case True
      then have hi: "high = hasHighRateLimit ch" and ok by simp_all
      note q = queue(2) [OF \<open>ok\<close>, folded hi]
      have t: "timesOf high ?acc = timesOf high acc @ [now]" using True by (simp add: timesOf_def)
      have "timesOf high acc = [] \<or> last (timesOf high acc) + d \<le> now"
      proof (cases "?q = []")
        case True
        then have "timesOf high acc = old" using h(1) by simp
        then show ?thesis using old d by (metis add_left_mono dual_order.strict_implies_order last_in_set order_trans)
      next
        case False
        then show ?thesis using q h(1) lim(2) hi by simp
      qed
      then have "successively (\<lambda>a b. a + d \<le> b) (timesOf high acc @ [now])"
        using gap by (auto simp: successively_append_iff)
      moreover have "\<forall>t. length (in_window t (timesOf high acc @ [now])) \<le> maxMessageCount high"
        using window_push [OF h(1) old win] q by blast
      moreover have "\<exists>old. timesOf high acc @ [now] = old @ lastMessage high sv' \<and> (\<forall>t\<in>set old. t + seconds 32 < now)"
        using drop q by auto
      ultimately show ?thesis using le' by (simp add: t)
    next
      case False
      then have t: "timesOf high ?acc = timesOf high acc" by (auto simp: timesOf_def)
      have "lastMessage high sv' = ?q \<or> lastMessage high sv' = popOld now ?q"
      proof (cases "high = hasHighRateLimit ch")
        case True
        then show ?thesis using False queue(3) by blast
      qed (use queue(1) in blast)
      then have "\<exists>old. timesOf high acc = old @ lastMessage high sv' \<and> (\<forall>t\<in>set old. t + seconds 32 < now)"
      proof
        assume "lastMessage high sv' = ?q"
        then show ?thesis using h(1) old by (intro exI [of _ old]) simp
      qed (use drop in simp)
      then show ?thesis unfolding t using le' win gap by blast
    qed
  qed
  then show ?thesis unfolding rate_inv_def by blast
qed

lemma rate_inv_color: "rate_inv d T sv acc \<Longrightarrow> (\<And>high. lastMessage high sv' = lastMessage high sv) \<Longrightarrow> rate_inv d T sv' acc"
  by (simp add: rate_inv_def)

lemma rate_inv_step:
  assumes "rate_inv d T sv acc" "chronological T (e # es)" "limited d e" "d \<le> seconds 32"
    "send_step api e (sv, acc, k) = (sv', acc', k')"
  shows "\<exists>T'. rate_inv d T' sv' acc' \<and> chronological T' es"
proof (cases e)
  case (MessageEvent st now ch m)
  obtain sv1 ok where p: "prepareToSend st now ch sv = (sv1, ok)" by fastforce
  have "rate_inv d now sv1 (if ok then acc @ [((hasHighRateLimit ch, now), (chan_name ch, m, None))] else acc)"
    using rate_inv_request [OF assms(1) _ assms(4) p] assms(2,3) MessageEvent by simp
  moreover have "acc' = (if ok then acc @ [((hasHighRateLimit ch, now), (chan_name ch, m, None))] else acc)"
    "lastMessage high sv' = lastMessage high sv1" for high
    using assms(5) requested_queue(1) [of api st now ch m sv]
      requested_queue(2) [where api = api and st = st and now = now and ch = ch and m = m and sv = sv] p MessageEvent by (auto simp: case_prod_beta)
  ultimately have "rate_inv d now sv' acc'" by (simp add: rate_inv_def)
  then show ?thesis using assms(2) MessageEvent by (intro exI [of _ now]) simp
next
  case (ReplyEvent st now ch m r)
  obtain sv1 ok where p: "prepareToSend st now ch sv = (sv1, ok)" by fastforce
  have "rate_inv d now sv1 (if ok then acc @ [((hasHighRateLimit ch, now), (chan_name ch, m, Some r))] else acc)"
    using rate_inv_request [OF assms(1) _ assms(4) p] assms(2,3) ReplyEvent by simp
  moreover have "acc' = (if ok then acc @ [((hasHighRateLimit ch, now), (chan_name ch, m, Some r))] else acc)"
    "lastMessage high sv' = lastMessage high sv1" for high
    using assms(5) requested_queue(3) [of api st now ch m r sv]
      requested_queue(4) [where api = api and st = st and now = now and ch = ch and m = m and r = r and sv = sv] p ReplyEvent by (auto simp: case_prod_beta)
  ultimately have "rate_inv d now sv' acc'" by (simp add: rate_inv_def)
  then show ?thesis using assms(2) ReplyEvent by (intro exI [of _ now]) simp
next
  case (ColorChangedEvent st ch i)
  then have "acc' = acc" "lastMessage high sv' = lastMessage high sv" for high
    using assms(5) by (auto simp: Let_def split: if_splits)
  then have "rate_inv d T sv' acc'" using rate_inv_color [OF assms(1)] by simp
  then show ?thesis using assms(2) ColorChangedEvent by (intro exI [of _ T]) simp
next
  case (ColorFailedEvent st ch i err)
  then have "acc' = acc" "lastMessage high sv' = lastMessage high sv" for high
    using assms(5) by (auto simp: Let_def split: if_splits)
  then have "rate_inv d T sv' acc'" using rate_inv_color [OF assms(1)] by simp
  then show ?thesis using assms(2) ColorFailedEvent by (intro exI [of _ T]) simp
qed

lemma rate_inv_run:
  "rate_inv d T sv acc \<Longrightarrow> chronological T es \<Longrightarrow> list_all (limited d) es \<Longrightarrow> d \<le> seconds 32 \<Longrightarrow>
    foldl (\<lambda>s e. send_step api e s) (sv, acc, k) es = (sv', acc', k') \<Longrightarrow> \<exists>T'. rate_inv d T' sv' acc'"
proof (induction es arbitrary: T sv acc k)
  case (Cons e es)
  obtain sv1 acc1 k1 where step: "send_step api e (sv, acc, k) = (sv1, acc1, k1)" by (cases "send_step api e (sv, acc, k)")
  obtain T' where "rate_inv d T' sv1 acc1" "chronological T' es"
    using rate_inv_step [OF Cons.prems(1,2) _ Cons.prems(4) step] Cons.prems(3) by auto
  then show ?case using Cons.IH Cons.prems(3-5) step by simp
qed auto


lemmas server_run_defs = send_run_def server_init_def onMessageSendRequested_def onReplySendRequested_def
  prepareToSend_def hasHighRateLimit_def lastMessage_def set_lastMessage_def minMessageOffset_def sendChat_def
  sendReplyChat_def sendHelixMessage_def server_sendMessage_def sendRawMessage_def shouldSendHelixChat_def act_def

definition sample_settings :: send_settings where
  "sample_settings = \<lparr>twitchLowRateLimitDelay = 1100, twitchHighRateLimitDelay = 100,
     ignoreMaxMessageRateLimit = False, rainbowMessages = False, rainbowMethod = False,
     rainbowMessagesPrime = False, rainbowSpeed = 10, rainbowStartingHue = 0, rainbowSaturation = 153,
     rainbowLight = 128, allowRainbowChannels = False, rainbowChannels = qs ''forsen'', enableDefaultColor = False,
     defaultColor = [], chatSendProtocol = ProtocolDefault, allowDuplicateMessages = True\<rparr>"

definition sample_send_channel :: send_channel where
  "sample_send_channel = \<lparr>chan_name = qs ''forsen'', chan_roomId = qs ''1'', chan_mod = False,
     chan_broadcaster = False, chan_vip = False, lastSentMessage = []\<rparr>"

definition sample_send_api :: send_api where
  "sample_send_api = \<lparr>fromHsl = (\<lambda>h s l. qs ''#aabbcc''), equalsIgnoreCase = (=), isSpace16 = (\<lambda>c. c = 0x20)\<rparr>"


subsection \<open>Every accepted message is sent\<close>

text \<open>What leaves the server for a message: a request with its text, or a line for its channel; and the notice that
  its channel cannot be written to.\<close>

fun is_send :: "send_action \<Rightarrow> bool" where
  "is_send (SendChatMessage room m r) = True"
| "is_send (SendRaw raw) = True"
| "is_send a = False"

fun is_notice :: "send_action \<Rightarrow> bool" where
  "is_notice (SystemMessage c text) = (text = notPossible)"
| "is_notice a = False"

fun carries :: "send_action \<Rightarrow> sent_message \<Rightarrow> bool" where
  "carries (SendChatMessage room m r) (name, message, reply) =
     (m = message \<and> r = (case reply of None \<Rightarrow> [] | Some i \<Rightarrow> i))"
| "carries (SendRaw raw) (name, message, None) =
     (raw = qs ''PRIVMSG #'' @ name @ qs '' :'' @ message \<or>
      name \<noteq> [] \<and> hd name = qc CHR ''$'' \<and> raw = qs ''PRIVMSG '' @ tl name @ qs '' :'' @ message)"
| "carries (SendRaw raw) (name, message, Some i) =
     (raw = qs ''@reply-parent-msg-id='' @ i @ qs '' PRIVMSG #'' @ name @ qs '' :'' @ message)"
| "carries a msg = False"

definition notices :: "send_action \<Rightarrow> sent_message \<Rightarrow> bool" where
  "notices a msg \<longleftrightarrow> a = SystemMessage (fst msg) notPossible"

definition waiting :: "irc_server \<Rightarrow> sent_message list" where
  "waiting sv = map message_of (filter (\<lambda>r. cr_after r \<noteq> AlreadySent) (colorRequests sv))"

text \<open>The messages \<open>M\<close> are those that were sent, as the actions say, those that were refused with a notice, and
  those that wait for a color; none was refused if \<open>roomy\<close>.\<close>

definition settles :: "irc_server \<Rightarrow> bool \<Rightarrow> sent_message multiset \<Rightarrow> bool" where
  "settles sv roomy M \<longleftrightarrow> (\<exists>sent refused. list_all2 carries (filter is_send (actions sv)) sent \<and>
     list_all2 notices (filter is_notice (actions sv)) refused \<and>
     mset sent + mset refused + mset (waiting sv) = M \<and> (roomy \<longrightarrow> refused = []))"

lemma settles_cong: "actions sv' = actions sv \<Longrightarrow> colorRequests sv' = colorRequests sv \<Longrightarrow> settles sv' roomy M = settles sv roomy M"
  by (simp add: settles_def waiting_def)

lemma settles_other: "\<not> is_send a \<Longrightarrow> \<not> is_notice a \<Longrightarrow> settles (act a sv) roomy M = settles sv roomy M"
  by (simp add: settles_def waiting_def)

lemma settles_send:
  assumes "settles sv roomy M" "is_send a" "carries a msg"
  shows "settles (act a sv) roomy (M + {#msg#})"
proof -
  obtain sent refused where "list_all2 carries (filter is_send (actions sv)) sent"
     "list_all2 notices (filter is_notice (actions sv)) refused"
     "mset sent + mset refused + mset (waiting sv) = M" "roomy \<longrightarrow> refused = []"
    using assms(1) by (auto simp: settles_def)
  moreover have "\<not> is_notice a" using assms(2) by (cases a) auto
  moreover have "waiting (act a sv) = waiting sv" by (simp add: waiting_def)
  ultimately show ?thesis unfolding settles_def using assms(2,3)
    by (intro exI [of _ "sent @ [msg]"] exI [of _ refused]) (auto intro!: list_all2_appendI)
qed

lemma settles_refuse:
  assumes "settles sv roomy M" "\<not> roomy"
  shows "settles (act (SystemMessage (fst msg) notPossible) sv) roomy (M + {#msg#})"
proof -
  obtain sent refused where "list_all2 carries (filter is_send (actions sv)) sent"
     "list_all2 notices (filter is_notice (actions sv)) refused" "mset sent + mset refused + mset (waiting sv) = M"
    using assms(1) by (auto simp: settles_def)
  moreover have "waiting (act a sv) = waiting sv" for a by (simp add: waiting_def)
  ultimately show ?thesis unfolding settles_def using assms(2)
    by (intro exI [of _ sent] exI [of _ "refused @ [msg]"]) (auto simp: notices_def intro!: list_all2_appendI)
qed

lemma settles_sendHelix:
  assumes "settles sv roomy M" "roomy \<longrightarrow> chan_roomId ch \<noteq> []"
  shows "settles (sendHelixMessage ch m (case reply of None \<Rightarrow> [] | Some i \<Rightarrow> i) sv) roomy (M + {#(chan_name ch, m, reply)#})"
proof (cases "chan_roomId ch = []")
  case True
  then show ?thesis using settles_refuse [OF assms(1), of "(chan_name ch, m, reply)"] assms(2)
    by (simp add: sendHelixMessage_def)
next
  case False
  then show ?thesis
    using settles_send [OF assms(1), of "SendChatMessage (chan_roomId ch) m (case reply of None \<Rightarrow> [] | Some i \<Rightarrow> i)" "(chan_name ch, m, reply)"]
    by (simp add: sendHelixMessage_def)
qed

lemma settles_sendMessage:
  "settles sv roomy M \<Longrightarrow> settles (server_sendMessage (chan_name ch) m sv) roomy (M + {#(chan_name ch, m, None)#})"
  unfolding server_sendMessage_def sendRawMessage_def by (rule settles_send) simp_all

lemma settles_sendChat:
  assumes "settles sv roomy M" "roomy \<longrightarrow> chan_roomId ch \<noteq> []"
  shows "settles (sendChat st ch m sv) roomy (M + {#(chan_name ch, m, None)#})"
proof -
  have "settles (sendRawMessage (qs ''PRIVMSG '' @ tl (chan_name ch) @ qs '' :'' @ m) sv) roomy (M + {#(chan_name ch, m, None)#})"
    if "chan_name ch \<noteq> []" "hd (chan_name ch) = qc CHR ''$''"
    unfolding sendRawMessage_def by (rule settles_send [OF assms(1)]) (use that in simp_all)
  then show ?thesis using settles_sendHelix [OF assms, of m None] settles_sendMessage [OF assms(1), of ch m]
    by (auto simp: sendChat_def)
qed

lemma settles_sendReplyChat:
  assumes "settles sv roomy M" "roomy \<longrightarrow> chan_roomId ch \<noteq> []"
  shows "settles (sendReplyChat st ch m i sv) roomy (M + {#(chan_name ch, m, Some i)#})"
proof -
  have "settles (sendRawMessage (qs ''@reply-parent-msg-id='' @ i @ qs '' PRIVMSG #'' @ chan_name ch @ qs '' :'' @ m) sv)
      roomy (M + {#(chan_name ch, m, Some i)#})"
    unfolding sendRawMessage_def by (rule settles_send [OF assms(1)]) simp_all
  then show ?thesis using settles_sendHelix [OF assms, of m "Some i"] by (simp add: sendReplyChat_def)
qed

lemma settles_requestColor:
  assumes "settles sv roomy M"
  shows "settles (requestColor ch c m AlreadySent sv) roomy M"
    "settles (requestColor ch c m SendLater sv) roomy (M + {#(chan_name ch, m, None)#})"
    "settles (requestColor ch c m (ReplyLater i) sv) roomy (M + {#(chan_name ch, m, Some i)#})"
proof -
  have a: "filter is_send (actions (requestColor ch c m a sv)) = filter is_send (actions sv)"
    "filter is_notice (actions (requestColor ch c m a sv)) = filter is_notice (actions sv)" for a
    by (simp_all add: requestColor_def)
  have w: "waiting (requestColor ch c m AlreadySent sv) = waiting sv"
    "waiting (requestColor ch c m SendLater sv) = waiting sv @ [(chan_name ch, m, None)]"
    "waiting (requestColor ch c m (ReplyLater i) sv) = waiting sv @ [(chan_name ch, m, Some i)]"
    by (simp_all add: requestColor_def waiting_def message_of_def)
  show "settles (requestColor ch c m AlreadySent sv) roomy M"
    "settles (requestColor ch c m SendLater sv) roomy (M + {#(chan_name ch, m, None)#})"
    "settles (requestColor ch c m (ReplyLater i) sv) roomy (M + {#(chan_name ch, m, Some i)#})"
    using assms unfolding settles_def a w by auto
qed

lemma not_notPossible:
  "qs ''You are sending messages too quickly.'' \<noteq> notPossible"
  "qs ''You are sending too many messages.'' \<noteq> notPossible"
  "qs ''Failed to change color to '' @ s \<noteq> notPossible"
  by (simp_all add: qs_def qc_def notPossible_def)

lemma settles_fields [simp]:
  "settles (sv\<lparr>lastErrorTimeSpeed := t\<rparr>) roomy M = settles sv roomy M"
  "settles (sv\<lparr>lastErrorTimeAmount := t\<rparr>) roomy M = settles sv roomy M"
  "settles (set_lastMessage h q sv) roomy M = settles sv roomy M"
  "settles (act (SystemMessage c (qs ''You are sending messages too quickly.'')) sv) roomy M = settles sv roomy M"
  "settles (act (SystemMessage c (qs ''You are sending too many messages.'')) sv) roomy M = settles sv roomy M"
  by (simp_all add: settles_other not_notPossible) (simp_all add: settles_def waiting_def set_lastMessage_def)

lemma settles_prepareToSend: "settles (fst (prepareToSend st now ch sv)) roomy M = settles sv roomy M"
  by (simp add: prepareToSend_def Let_def)

lemma settles_next_color: "settles (fst (next_color api st ch sv)) roomy M = settles sv roomy M"
  by (rule settles_cong) (simp_all add: next_color_def Let_def)

lemma settles_requested:
  assumes "settles sv roomy M" "roomy \<longrightarrow> chan_roomId ch \<noteq> []"
  shows "settles (fst (onMessageSendRequested api st now ch m sv)) roomy
      (M + (if snd (onMessageSendRequested api st now ch m sv) then {#(chan_name ch, m, None)#} else {#}))"
    "settles (fst (onReplySendRequested api st now ch m i sv)) roomy
      (M + (if snd (onReplySendRequested api st now ch m i sv) then {#(chan_name ch, m, Some i)#} else {#}))"
proof -
  obtain sv' ok where p: "prepareToSend st now ch sv = (sv', ok)" by fastforce
  obtain sv'' c where n: "next_color api st ch sv' = (sv'', c)" by fastforce
  have q: "settles sv' roomy M" "settles sv'' roomy M"
    using settles_prepareToSend [of st now ch sv roomy M] settles_next_color [of api st ch sv' roomy M] p n assms(1) by simp_all
  show "settles (fst (onMessageSendRequested api st now ch m sv)) roomy
      (M + (if snd (onMessageSendRequested api st now ch m sv) then {#(chan_name ch, m, None)#} else {#}))"
    using q settles_sendChat [OF q(1) assms(2)] settles_sendChat [OF q(2) assms(2)]
      settles_requestColor(1) [OF settles_sendChat [OF q(2) assms(2)]] settles_requestColor(2) [OF q(2)]
    by (simp add: onMessageSendRequested_def p n Let_def del: add_mset_add_single)
  show "settles (fst (onReplySendRequested api st now ch m i sv)) roomy
      (M + (if snd (onReplySendRequested api st now ch m i sv) then {#(chan_name ch, m, Some i)#} else {#}))"
    using q settles_sendReplyChat [OF q(1) assms(2)] settles_requestColor(3) [OF q(2)]
    by (simp add: onReplySendRequested_def p n Let_def del: add_mset_add_single)
qed

text \<open>A reply takes its request out of those that wait.\<close>

lemma settles_erase:
  assumes "settles sv roomy M" "i < length (colorRequests sv)"
  defines "req \<equiv> colorRequests sv ! i"
  shows "\<exists>M0. settles (sv\<lparr>colorRequests := erase_at i (colorRequests sv)\<rparr>) roomy M0 \<and>
    M = M0 + (if cr_after req = AlreadySent then {#} else {#message_of req#})"
proof -
  let ?sv = "sv\<lparr>colorRequests := erase_at i (colorRequests sv)\<rparr>"
  have split: "filter P (colorRequests sv) = filter P (take i (colorRequests sv)) @ (if P req then [req] else []) @
      filter P (drop (Suc i) (colorRequests sv))" for P
    using arg_cong [OF id_take_nth_drop [OF assms(2)], of "filter P"] by (simp add: req_def)
  have w: "mset (waiting sv) = mset (waiting ?sv) + (if cr_after req = AlreadySent then {#} else {#message_of req#})"
    by (simp add: waiting_def erase_at_def split)
  obtain sent refused where l: "list_all2 carries (filter is_send (actions sv)) sent"
     "list_all2 notices (filter is_notice (actions sv)) refused" "mset sent + mset refused + mset (waiting sv) = M"
     "roomy \<longrightarrow> refused = []"
    using assms(1) by (auto simp: settles_def)
  then have "settles ?sv roomy (mset sent + mset refused + mset (waiting ?sv))" by (auto simp: settles_def)
  moreover have "M = mset sent + mset refused + mset (waiting ?sv) + (if cr_after req = AlreadySent then {#} else {#message_of req#})"
    unfolding l(3) [symmetric] w by simp
  ultimately show ?thesis by blast
qed

lemma settles_color:
  assumes "settles sv roomy M" "roomy \<longrightarrow> chan_roomId ch \<noteq> []" "chan_name ch = cr_channel req"
  shows "settles (colorChanged st ch req sv) roomy (M + (if cr_after req = AlreadySent then {#} else {#message_of req#}))"
    "settles (colorFailed st err ch req sv) roomy (M + {#message_of req#})"
proof -
  note snd = settles_sendHelix [OF assms(1,2), of _ None] settles_sendMessage [OF assms(1), of ch]
    settles_sendReplyChat [OF assms(1,2)]
  show "settles (colorChanged st ch req sv) roomy (M + (if cr_after req = AlreadySent then {#} else {#message_of req#}))"
    using assms snd by (auto simp: colorChanged_def message_of_def split: after_color.split)
  define note_sv where "note_sv = act (SystemMessage (chan_name ch)
    (qs ''Failed to change color to '' @ cr_color req @ qs '' - '' @ color_error_text err)) sv"
  have n: "settles note_sv roomy M" using assms(1) by (simp add: note_sv_def settles_other not_notPossible)
  have "colorFailed st err ch req sv =
      (case cr_after req of ReplyLater i \<Rightarrow> sendReplyChat st ch (cr_message req) i note_sv
       | _ \<Rightarrow> sendChat st ch (cr_message req) note_sv)"
    by (cases "cr_after req") (simp_all add: colorFailed_def note_sv_def)
  then show "settles (colorFailed st err ch req sv) roomy (M + {#message_of req#})"
    using settles_sendChat [OF n assms(2)] settles_sendReplyChat [OF n assms(2)] assms(3)
    by (auto simp: message_of_def split: after_color.split)
qed

text \<open>The channels of the events have a room.\<close>

fun has_room :: "send_event \<Rightarrow> bool" where
  "has_room (MessageEvent st now ch m) = (chan_roomId ch \<noteq> [])"
| "has_room (ReplyEvent st now ch m i) = (chan_roomId ch \<noteq> [])"
| "has_room (ColorChangedEvent st ch i) = (chan_roomId ch \<noteq> [])"
| "has_room (ColorFailedEvent st ch i err) = (chan_roomId ch \<noteq> [])"

lemma send_step_settles:
  assumes "send_step api e (sv, acc, again) = (sv', acc', again')" "settles sv roomy (mset (map snd acc) + mset again)"
    "roomy \<longrightarrow> has_room e"
  shows "settles sv' roomy (mset (map snd acc') + mset again')"
proof (cases e)
  case (MessageEvent st now ch m)
  then show ?thesis using assms(1,3) settles_requested(1) [OF assms(2), of ch api st now m]
    by (auto simp: case_prod_beta split: if_splits)
next
  case (ReplyEvent st now ch m i)
  then show ?thesis using assms(1,3) settles_requested(2) [OF assms(2), of ch api st now m i]
    by (auto simp: case_prod_beta split: if_splits)
next
  case (ColorChangedEvent st ch i)
  let ?req = "colorRequests sv ! i" and ?sv = "sv\<lparr>colorRequests := erase_at i (colorRequests sv)\<rparr>"
  show ?thesis
  proof (cases "i < length (colorRequests sv)")
    case True
    obtain M0 where m0: "settles ?sv roomy M0"
      "mset (map snd acc) + mset again = M0 + (if cr_after ?req = AlreadySent then {#} else {#message_of ?req#})"
      using settles_erase [OF assms(2) True] by blast
    then show ?thesis
      using settles_color(1) [OF m0(1), of "ch\<lparr>chan_name := cr_channel ?req\<rparr>" ?req st] assms(1,3) True ColorChangedEvent
      by (simp add: Let_def del: add_mset_add_single)
  qed (use assms ColorChangedEvent in simp)
next
  case (ColorFailedEvent st ch i err)
  let ?req = "colorRequests sv ! i" and ?sv = "sv\<lparr>colorRequests := erase_at i (colorRequests sv)\<rparr>"
  show ?thesis
  proof (cases "i < length (colorRequests sv)")
    case True
    obtain M0 where m0: "settles ?sv roomy M0"
      "mset (map snd acc) + mset again = M0 + (if cr_after ?req = AlreadySent then {#} else {#message_of ?req#})"
      using settles_erase [OF assms(2) True] by blast
    then show ?thesis
      using settles_color(2) [OF m0(1), of "ch\<lparr>chan_name := cr_channel ?req\<rparr>" ?req st err] assms(1,3) True ColorFailedEvent
      by (auto simp: Let_def)
  qed (use assms ColorFailedEvent in simp)
qed

lemma send_run_settles:
  "foldl (\<lambda>s e. send_step api e s) (sv, acc, again) es = (sv', acc', again') \<Longrightarrow>
    settles sv roomy (mset (map snd acc) + mset again) \<Longrightarrow> roomy \<longrightarrow> list_all has_room es \<Longrightarrow>
    settles sv' roomy (mset (map snd acc') + mset again')"
proof (induction es arbitrary: sv acc again)
  case (Cons e es)
  obtain sv1 acc1 again1 where step: "send_step api e (sv, acc, again) = (sv1, acc1, again1)"
    by (cases "send_step api e (sv, acc, again)")
  then show ?case using Cons.IH Cons.prems(1,3) send_step_settles [OF step Cons.prems(2)] by simp
qed simp


text \<open>With the method that sends first, a failed change of color sends the message again.\<close>

definition rainbow_settings :: send_settings where
  "rainbow_settings = sample_settings\<lparr>rainbowMessages := True, rainbowMethod := True\<rparr>"

lemma failed_color_sends_twice:
  "\<exists>sv. send_run sample_send_api [MessageEvent rainbow_settings (seconds 1) sample_send_channel (qs ''a''),
      ColorFailedEvent rainbow_settings sample_send_channel 0 ColorUnknown] =
        (sv, [((False, seconds 1), (qs ''forsen'', qs ''a'', None))], [(qs ''forsen'', qs ''a'', None)]) \<and>
    filter is_send (actions sv) = [SendRaw (qs ''PRIVMSG #forsen :a''), SendRaw (qs ''PRIVMSG #forsen :a'')] \<and> waiting sv = []"
  by (simp add: server_run_defs Let_def rainbow_settings_def sample_settings_def sample_send_channel_def
    seconds_def milliseconds_def maxMessageCount_def qs_def qc_def next_color_def rainbow_excluded_def requestColor_def
    colorFailed_def rainbow_colors_def notPossible_def message_of_def erase_at_def waiting_def
    del: act_simps lastMessage_simps lastMessage_send)


text \<open>The colors of accounts without Prime go round, but never through the first of the list.\<close>

lemma next_color_never_first:
  assumes "\<not> rainbowMessagesPrime st" "next_color api st ch sv = (sv', color)"
  shows "color \<in> set (tl rainbow_colors) \<and> color \<noteq> hd rainbow_colors"
proof -
  obtain i where i: "color = rainbow_colors ! Suc i" "i < 12"
    using assms by (cases "nonPrimeColorsIndex sv (chan_name ch)")
      (auto simp: next_color_def Let_def split: if_splits)
  have "color \<in> set (tl rainbow_colors)"
    using i nth_mem [of i "tl rainbow_colors"] by (simp add: rainbow_colors_def)
  moreover have "hd rainbow_colors \<notin> set (tl rainbow_colors)" by (simp add: rainbow_colors_def qs_def qc_def)
  ultimately show ?thesis by metis
qed

text \<open>In a channel whose name begins with \<open>$\<close>, a message that waited for its color goes to another channel than
  one that is sent at once.\<close>

lemma dollar_channel_differs:
  assumes "\<not> shouldSendHelixChat st" "chan_name ch = qc CHR ''$'' # name"
  shows "actions (sendChat st ch m sv) = actions sv @ [SendRaw (qs ''PRIVMSG '' @ name @ qs '' :'' @ m)] \<and>
    actions (colorChanged st ch \<lparr>cr_channel = chan_name ch, cr_color = c, cr_message = m, cr_after = SendLater\<rparr> sv) =
      actions sv @ [SendRaw (qs ''PRIVMSG #$'' @ name @ qs '' :'' @ m)]"
  using assms by (simp add: sendChat_def colorChanged_def server_sendMessage_def sendRawMessage_def qs_def)

section \<open>Messages that repeat the last one\<close>

lemma squeeze_spaces: "sp 0x20 \<Longrightarrow> squeeze sp p (a @ 0x20 # 0x20 # b) = squeeze sp p (a @ 0x20 # b)"
  by (induction a arbitrary: p) auto

lemma simplified_spaces:
  assumes "sp 0x20"
  shows "simplified sp (a @ 0x20 # 0x20 # b) = simplified sp (a @ 0x20 # b)"
proof (cases "\<exists>c\<in>set a. \<not> sp c")
  case True
  then obtain c where "c \<in> set a" "\<not> sp c" by blast
  then show ?thesis using squeeze_spaces [of sp False "dropWhile sp a" b] assms
    by (simp add: simplified_def dropWhile_append1)
next
  case False
  then show ?thesis using assms by (simp add: simplified_def dropWhile_append2)
qed

lemma spaceFrom_Some:
  assumes "spaceFrom s n = Some i"
  shows "n \<le> i" "s = take i s @ 0x20 # drop (i + 1) s" "\<forall>j. n \<le> j \<longrightarrow> j < i \<longrightarrow> s ! j \<noteq> 0x20"
proof -
  obtain k where k: "k < length s - n" "i = n + k" "s ! i = 0x20" "\<forall>j<k. s ! (n + j) \<noteq> 0x20"
    using assms by (auto simp: spaceFrom_def find_Some_iff)
  then show "n \<le> i" "s = take i s @ 0x20 # drop (i + 1) s"
    using id_take_nth_drop [of i s] by simp_all
  show "\<forall>j. n \<le> j \<longrightarrow> j < i \<longrightarrow> s ! j \<noteq> 0x20"
  proof (intro allI impI)
    fix j
    assume "n \<le> j" "j < i"
    then have "j - n < k" "n + (j - n) = j" using k(2) by auto
    then show "s ! j \<noteq> 0x20" using k(4) by metis
  qed
qed

text \<open>Text with one more blank, right where there is one; for a command, not the one behind its name.\<close>

definition one_blank_doubled :: "qstring \<Rightarrow> qstring \<Rightarrow> bool" where
  "one_blank_doubled text r \<longleftrightarrow> (\<exists>i<length text. text ! i = 0x20 \<and> r = take i text @ 0x20 # drop i text \<and>
     (hd text = qc CHR ''/'' \<or> hd text = qc CHR ''.'' \<longrightarrow> 0x20 \<in> set (take i text)))"

lemma one_blank_doubled_shows_the_same:
  assumes "sp 0x20" "one_blank_doubled text r"
  shows "simplified sp r = simplified sp text"
proof -
  obtain i where i: "i < length text" "text ! i = 0x20" "r = take i text @ 0x20 # drop i text"
    using assms(2) by (auto simp: one_blank_doubled_def)
  then have "text = take i text @ 0x20 # drop (Suc i) text" by (metis id_take_nth_drop)
  moreover have "r = take i text @ 0x20 # 0x20 # drop (Suc i) text" using i by (simp add: Cons_nth_drop_Suc [OF i(1), symmetric])
  ultimately show ?thesis using simplified_spaces [of sp "take i text" "drop (Suc i) text"] assms(1) by simp
qed



end
