(* ===== verification/TwitchServer.thy ===== *)
theory TwitchServer
  imports Ratelimit "HOL-Library.List_Lexorder" "HOL-Library.Char_ord"
begin

text \<open>
  The connections and channels of \<open>providers/twitch/TwitchIrcServer.cpp\<close>: \<open>IrcConnection\<close> of
  \<open>providers/irc/IrcConnection2.cpp\<close> with its timers, the map of channels, joining them through the bucket of
  \<open>Ratelimit\<close>, and what \<open>TwitchChannel\<close> keeps to load the history after a reconnect.  The socket is the
  environment: closing it makes it unconnected at once, and losing it is an event.  Times are milliseconds.
\<close>

section \<open>A connection\<close>

datatype socket_state = SocketUnconnected | SocketConnecting | SocketConnected

record irc_connection =
  ic_socket :: socket_state
  pingTimer :: bool
  reconnectTimer :: "int option"
  recentlyReceivedMessage :: bool
  lastPing :: int
  reconnectBackoff :: ExponentialBackoff
  expectConnectionLoss :: bool
  waitingForPong :: bool

datatype irc_signal = ConnectionLost bool | Heartbeat | Ping string | SocketDisconnected

definition IrcConnection :: "int \<Rightarrow> irc_connection" where
  "IrcConnection now = \<lparr>ic_socket = SocketUnconnected, pingTimer = True, reconnectTimer = None,
     recentlyReceivedMessage = True, lastPing = now, reconnectBackoff = ExponentialBackoff 5 1000,
     expectConnectionLoss = False, waitingForPong = False\<rparr>"

text \<open>The slot for \<open>UnconnectedState\<close>, and the signal of the library that the connection is gone.\<close>

definition socket_unconnected :: "irc_connection \<Rightarrow> irc_connection \<times> irc_signal list" where
  "socket_unconnected c =
     (c\<lparr>ic_socket := SocketUnconnected, pingTimer := False\<rparr>,
      (if \<not> expectConnectionLoss c then [ConnectionLost False] else []) @
      (if ic_socket c = SocketConnected then [SocketDisconnected] else []))"

definition ic_open :: "irc_connection \<Rightarrow> irc_connection" where
  "ic_open c =
     (let c = c\<lparr>expectConnectionLoss := False, waitingForPong := False, recentlyReceivedMessage := False\<rparr>
      in if ic_socket c = SocketUnconnected then c\<lparr>ic_socket := SocketConnecting\<rparr> else c)"

definition ic_close :: "irc_connection \<Rightarrow> irc_connection \<times> irc_signal list" where
  "ic_close c =
     (let c = c\<lparr>expectConnectionLoss := True\<rparr>
      in if ic_socket c = SocketUnconnected then (c, []) else socket_unconnected c)"

definition ic_connected :: "irc_connection \<Rightarrow> irc_connection" where
  "ic_connected c = c\<lparr>ic_socket := SocketConnected, pingTimer := True\<rparr>"

definition ic_pong :: "string \<Rightarrow> string \<Rightarrow> irc_connection \<Rightarrow> irc_connection" where
  "ic_pong payload argument c = (if argument = payload then c\<lparr>waitingForPong := False\<rparr> else c)"

definition ic_messageReceived :: "string \<Rightarrow> irc_connection \<Rightarrow> irc_connection" where
  "ic_messageReceived command c =
     (let c = c\<lparr>recentlyReceivedMessage := True\<rparr>
      in if command = ''372'' then c\<lparr>reconnectBackoff := eb_reset (reconnectBackoff c)\<rparr> else c)"

definition pingTimeout :: "string \<Rightarrow> int \<Rightarrow> irc_connection \<Rightarrow> irc_connection \<times> irc_signal list" where
  "pingTimeout payload now c =
     (if ic_socket c = SocketConnected then
        if recentlyReceivedMessage c then
          let c = c\<lparr>recentlyReceivedMessage := False, waitingForPong := False\<rparr>;
              elapsed = now - lastPing c
          in (c\<lparr>lastPing := now\<rparr>, if elapsed < 3 * 5000 then [Heartbeat] else [])
        else if waitingForPong c then
          let (c, signals) = ic_close c in (c, signals @ [ConnectionLost True])
        else (c\<lparr>waitingForPong := True\<rparr>, [Ping payload])
      else (c, []))"

definition smartReconnect :: "irc_connection \<Rightarrow> irc_connection" where
  "smartReconnect c =
     (if reconnectTimer c \<noteq> None then c
      else let (delay, backoff) = eb_next (reconnectBackoff c)
           in c\<lparr>reconnectBackoff := backoff, reconnectTimer := Some delay\<rparr>)"

definition reconnectTimeout :: "irc_connection \<Rightarrow> irc_connection" where
  "reconnectTimeout c =
     (let c = c\<lparr>reconnectTimer := None\<rparr>
      in if ic_socket c = SocketConnected then c else ic_open c)"

text \<open>A silent connection is asked for a sign of life, and closed at the next tick when there was none.\<close>

lemma silent_connection_lost:
  assumes "ic_socket c = SocketConnected" "\<not> recentlyReceivedMessage c" "\<not> waitingForPong c"
  shows "pingTimeout payload t c = (c\<lparr>waitingForPong := True\<rparr>, [Ping payload]) \<and>
    snd (pingTimeout payload t' (c\<lparr>waitingForPong := True\<rparr>)) = [SocketDisconnected, ConnectionLost True]"
  using assms by (simp add: pingTimeout_def ic_close_def socket_unconnected_def)

section \<open>Channels\<close>

datatype status_line = ConnectedMessage | ReconnectedMessage | DisconnectedMessage | SystemLine string

text \<open>Requests for the message history: all, or what came after some time and before now.\<close>

datatype history_request = LoadHistory int | LoadMissing int "int option" int

record history_settings =
  loadTwitchMessageHistoryOnConnect :: bool
  twitchMessageHistoryLimit :: int

record twitch_channel =
  tc_name :: string
  tc_roomId :: string
  tc_disconnected :: bool
  lastConnectedAt :: "int option"
  loadingRecentMessages :: bool
  status_lines :: "status_line list"
  history :: "history_request list"

definition new_TwitchChannel :: "string \<Rightarrow> twitch_channel" where
  "new_TwitchChannel name = \<lparr>tc_name = name, tc_roomId = [], tc_disconnected = False, lastConnectedAt = None,
     loadingRecentMessages = False, status_lines = [], history = []\<rparr>"

definition tc_add :: "status_line \<Rightarrow> twitch_channel \<Rightarrow> twitch_channel" where
  "tc_add l tc = tc\<lparr>status_lines := status_lines tc @ [l]\<rparr>"

definition markConnected :: "int \<Rightarrow> twitch_channel \<Rightarrow> twitch_channel" where
  "markConnected now tc =
     (if lastConnectedAt tc \<noteq> None \<and> \<not> tc_disconnected tc then tc\<lparr>lastConnectedAt := Some now\<rparr> else tc)"

definition markDisconnected :: "twitch_channel \<Rightarrow> twitch_channel" where
  "markDisconnected tc = (if tc_roomId tc = [] then tc else tc\<lparr>tc_disconnected := True\<rparr>)"

definition loadRecentMessages :: "history_settings \<Rightarrow> twitch_channel \<Rightarrow> twitch_channel" where
  "loadRecentMessages st tc =
     (if \<not> loadTwitchMessageHistoryOnConnect st then tc
      else if loadingRecentMessages tc then tc
      else tc\<lparr>loadingRecentMessages := True,
              history := history tc @ [LoadHistory (twitchMessageHistoryLimit st)]\<rparr>)"

definition loadRecentMessagesReconnect :: "history_settings \<Rightarrow> int \<Rightarrow> twitch_channel \<Rightarrow> twitch_channel" where
  "loadRecentMessagesReconnect st now tc =
     (if \<not> loadTwitchMessageHistoryOnConnect st then tc
      else if loadingRecentMessages tc then tc
      else
        let limit = twitchMessageHistoryLimit st;
            limit = (case lastConnectedAt tc of None \<Rightarrow> limit
              | Some t \<Rightarrow> min (cast_int (cpp_div (now - t) 1000 + 1) * 10) limit)
        in tc\<lparr>loadingRecentMessages := True,
              history := history tc @ [LoadMissing limit (lastConnectedAt tc) now]\<rparr>)"

text \<open>The callbacks of both requests; the messages themselves go to \<open>addMessagesAtStart\<close> and
  \<open>fillInMissingMessages\<close> of \<open>Channel\<close>.\<close>

definition recentMessagesDone :: "twitch_channel \<Rightarrow> twitch_channel" where
  "recentMessagesDone tc = tc\<lparr>loadingRecentMessages := False\<rparr>"

definition tc_joined :: "history_settings \<Rightarrow> int \<Rightarrow> twitch_channel \<Rightarrow> twitch_channel" where
  "tc_joined st now tc =
     (if tc_disconnected tc then
        (loadRecentMessagesReconnect st now tc)\<lparr>lastConnectedAt := Some now, tc_disconnected := False\<rparr>
      else tc)"

definition setRoomId :: "history_settings \<Rightarrow> int \<Rightarrow> string \<Rightarrow> twitch_channel \<Rightarrow> twitch_channel" where
  "setRoomId st now rid tc =
     (if tc_roomId tc \<noteq> rid then
        (loadRecentMessages st (tc\<lparr>tc_roomId := rid\<rparr>))\<lparr>tc_disconnected := False, lastConnectedAt := Some now\<rparr>
      else tc)"

text \<open>After a lost connection everything since the last sign of life is loaded, unless another load is under
  way: then the gap is forgotten.\<close>

lemma reconnect_loads_gap:
  assumes "loadTwitchMessageHistoryOnConnect st" "tc_disconnected tc" "lastConnectedAt tc = Some t"
  shows "\<not> loadingRecentMessages tc \<Longrightarrow>
      \<exists>limit. history (tc_joined st now tc) = history tc @ [LoadMissing limit (Some t) now] \<and>
        limit \<le> twitchMessageHistoryLimit st"
    and "loadingRecentMessages tc \<Longrightarrow> history (tc_joined st now tc) = history tc \<and>
      lastConnectedAt (tc_joined st now tc) = Some now \<and> \<not> tc_disconnected (tc_joined st now tc)"
  using assms by (simp_all add: tc_joined_def loadRecentMessagesReconnect_def Let_def)

section \<open>The server\<close>

record twitch_server =
  readConnection :: irc_connection
  writeConnection :: irc_connection
  ts_channels :: "(string \<times> nat) list"
  ts_objects :: "nat \<rightharpoonup> twitch_channel"
  ts_next :: nat
  joinBucket :: "string RatelimitBucket"
  readLines :: "string list"

definition TwitchIrcServer :: "int \<Rightarrow> twitch_server" where
  "TwitchIrcServer now = \<lparr>readConnection = IrcConnection now, writeConnection = IrcConnection now,
     ts_channels = [], ts_objects = Map.empty, ts_next = 0, joinBucket = RatelimitBucket 18 12500, readLines = []\<rparr>"

definition join_line :: "string \<Rightarrow> string" where
  "join_line name = ''JOIN #'' @ name"

definition part_line :: "string \<Rightarrow> string" where
  "part_line name = ''PART #'' @ name"

lemma lines_simps [simp]:
  "join_line n = join_line m \<longleftrightarrow> n = m" "join_line n \<noteq> part_line m" "part_line m \<noteq> join_line n"
  "part_line n = part_line m \<longleftrightarrow> n = m" "CHR ''P'' # CHR ''I'' # s \<noteq> join_line n" "CHR ''P'' # CHR ''I'' # s \<noteq> part_line n"
  by (auto simp: join_line_def part_line_def)

text \<open>A line is sent when the connection is up.\<close>

definition sendRaw :: "string \<Rightarrow> twitch_server \<Rightarrow> twitch_server" where
  "sendRaw l sv =
     (if ic_socket (readConnection sv) = SocketConnected then sv\<lparr>readLines := readLines sv @ [l]\<rparr> else sv)"

definition actuallyJoin :: "string \<Rightarrow> twitch_server \<Rightarrow> twitch_server" where
  "actuallyJoin name sv =
     (if map_of (ts_channels sv) name = None then sv else sendRaw (join_line name) sv)"

text \<open>The bucket calls \<open>actuallyJoin\<close> for what it lets through.\<close>

definition set_bucket :: "string RatelimitBucket \<Rightarrow> twitch_server \<Rightarrow> twitch_server" where
  "set_bucket b sv =
     foldl (\<lambda>sv (t, name). actuallyJoin name sv) (sv\<lparr>joinBucket := b\<rparr>)
       (drop (length (rb_called (joinBucket sv))) (rb_called b))"

definition join_send :: "int \<Rightarrow> string \<Rightarrow> twitch_server \<Rightarrow> twitch_server" where
  "join_send now name sv = set_bucket (rb_send now name (joinBucket sv)) sv"

definition join_timeout :: "int \<Rightarrow> int \<Rightarrow> twitch_server \<Rightarrow> twitch_server" where
  "join_timeout now due sv = set_bucket (rb_timeout now due (joinBucket sv)) sv"

text \<open>The channels that are alive, in the order of the map.\<close>

definition activeChannels :: "twitch_server \<Rightarrow> nat list" where
  "activeChannels sv = filter (\<lambda>i. ts_objects sv i \<noteq> None) (map snd (ts_channels sv))"

definition update_object :: "nat \<Rightarrow> (twitch_channel \<Rightarrow> twitch_channel) \<Rightarrow> twitch_server \<Rightarrow> twitch_server" where
  "update_object i f sv =
     (case ts_objects sv i of None \<Rightarrow> sv | Some tc \<Rightarrow> sv\<lparr>ts_objects := (ts_objects sv)(i \<mapsto> f tc)\<rparr>)"

definition forEachChannel :: "(twitch_channel \<Rightarrow> twitch_channel) \<Rightarrow> twitch_server \<Rightarrow> twitch_server" where
  "forEachChannel f sv = foldl (\<lambda>sv i. update_object i f sv) sv (activeChannels sv)"

definition addGlobalSystemMessage :: "string \<Rightarrow> twitch_server \<Rightarrow> twitch_server" where
  "addGlobalSystemMessage text sv = forEachChannel (tc_add (SystemLine text)) sv"

definition markChannelsConnected :: "int \<Rightarrow> twitch_server \<Rightarrow> twitch_server" where
  "markChannelsConnected now sv = forEachChannel (markConnected now) sv"

definition onDisconnected :: "twitch_server \<Rightarrow> twitch_server" where
  "onDisconnected sv = forEachChannel (\<lambda>tc. markDisconnected (tc_add DisconnectedMessage tc)) sv"

definition connectedStatus :: "twitch_channel \<Rightarrow> twitch_channel" where
  "connectedStatus tc =
     (if status_lines tc \<noteq> [] \<and> last (status_lines tc) = DisconnectedMessage
      then tc\<lparr>status_lines := butlast (status_lines tc) @ [ReconnectedMessage]\<rparr>
      else tc_add ConnectedMessage tc)"

definition channel_name :: "twitch_server \<Rightarrow> nat \<Rightarrow> string" where
  "channel_name sv i = (case ts_objects sv i of None \<Rightarrow> [] | Some tc \<Rightarrow> tc_name tc)"

definition onReadConnected :: "string list \<Rightarrow> int \<Rightarrow> twitch_server \<Rightarrow> twitch_server" where
  "onReadConnected visible now sv =
     (let active = activeChannels sv;
          names = map (channel_name sv) active;
          names = filter (\<lambda>n. n \<in> set visible) names @ filter (\<lambda>n. n \<notin> set visible) names;
          sv = foldl (\<lambda>sv name. join_send now name sv) sv names
      in foldl (\<lambda>sv i. update_object i connectedStatus sv) sv active)"

subsection \<open>Looking up and adding channels\<close>

datatype channel_ref = EmptyChannel | SpecialChannel string | TwitchChannelRef nat

definition cleanChannelName :: "(string \<Rightarrow> string) \<Rightarrow> string \<Rightarrow> string" where
  "cleanChannelName toLower dirty =
     (if dirty \<noteq> [] \<and> hd dirty = CHR ''#'' then toLower (tl dirty) else toLower dirty)"

definition getCustomChannel :: "string \<Rightarrow> channel_ref option" where
  "getCustomChannel name =
     (if name \<in> {''/whispers'', ''/mentions'', ''/live'', ''/automod'',
         ''$$$'', ''$$$:e'', ''$$$$'', ''$$$$:e'', ''$$$$$'', ''$$$$$:e'', ''$$$$$$'', ''$$$$$$:e'',
         ''$$$$$$$'', ''$$$$$$$:e''}
      then Some (SpecialChannel name) else None)"

definition getChannelOrEmpty :: "(string \<Rightarrow> string) \<Rightarrow> string \<Rightarrow> twitch_server \<Rightarrow> channel_ref" where
  "getChannelOrEmpty toLower dirty sv =
     (let name = cleanChannelName toLower dirty in
      case getCustomChannel name of
        Some ch \<Rightarrow> ch
      | None \<Rightarrow>
          (case map_of (ts_channels sv) name of
             None \<Rightarrow> EmptyChannel
           | Some i \<Rightarrow> if ts_objects sv i = None then EmptyChannel else TwitchChannelRef i))"

definition getOrAddChannel :: "(string \<Rightarrow> string) \<Rightarrow> int \<Rightarrow> string \<Rightarrow> twitch_server \<Rightarrow> twitch_server \<times> channel_ref" where
  "getOrAddChannel toLower now dirty sv =
     (let name = cleanChannelName toLower dirty; chan = getChannelOrEmpty toLower name sv in
      if chan \<noteq> EmptyChannel then (sv, chan)
      else
        let i = ts_next sv;
            sv = sv\<lparr>ts_next := i + 1, ts_objects := (ts_objects sv)(i \<mapsto> new_TwitchChannel name),
                    ts_channels := omap_insert name i (ts_channels sv)\<rparr>;
            sv = (if ic_socket (readConnection sv) = SocketConnected then join_send now name sv else sv)
        in (sv, TwitchChannelRef i))"

text \<open>\<open>getChannelOrEmptyByID\<close>.\<close>

definition getChannelOrEmptyByID :: "string \<Rightarrow> twitch_server \<Rightarrow> channel_ref" where
  "getChannelOrEmptyByID channelId sv =
     (case find (\<lambda>i. case ts_objects sv i of None \<Rightarrow> False
          | Some tc \<Rightarrow> tc_roomId tc = channelId \<and> count_list (tc_name tc) (CHR '':'') < 2) (activeChannels sv) of
        None \<Rightarrow> EmptyChannel | Some i \<Rightarrow> TwitchChannelRef i)"

text \<open>A channel is destroyed with its last reference, and tells the server.\<close>

definition channelDestroyed :: "nat \<Rightarrow> twitch_server \<Rightarrow> twitch_server" where
  "channelDestroyed i sv =
     (case ts_objects sv i of
        None \<Rightarrow> sv
      | Some tc \<Rightarrow>
          sendRaw (part_line (tc_name tc))
            (sv\<lparr>ts_objects := (ts_objects sv)(i := None), ts_channels := omap_remove (tc_name tc) (ts_channels sv)\<rparr>))"

subsection \<open>Signals and messages of the connections\<close>

definition readSignal :: "int \<Rightarrow> twitch_server \<Rightarrow> irc_signal \<Rightarrow> twitch_server" where
  "readSignal now sv sig =
     (case sig of
        ConnectionLost timeout \<Rightarrow>
          let sv = (if timeout then addGlobalSystemMessage ''Server connection timed out, reconnecting'' sv else sv)
          in sv\<lparr>readConnection := smartReconnect (readConnection sv)\<rparr>
      | Heartbeat \<Rightarrow> markChannelsConnected now sv
      | Ping payload \<Rightarrow> sendRaw (''PING '' @ payload) sv
      | SocketDisconnected \<Rightarrow> onDisconnected sv)"

definition writeSignal :: "twitch_server \<Rightarrow> irc_signal \<Rightarrow> twitch_server" where
  "writeSignal sv sig =
     (case sig of
        ConnectionLost timeout \<Rightarrow> sv\<lparr>writeConnection := smartReconnect (writeConnection sv)\<rparr>
      | _ \<Rightarrow> sv)"

definition readResult :: "int \<Rightarrow> twitch_server \<Rightarrow> irc_connection \<times> irc_signal list \<Rightarrow> twitch_server" where
  "readResult now sv r = foldl (readSignal now) (sv\<lparr>readConnection := fst r\<rparr>) (snd r)"

definition writeResult :: "twitch_server \<Rightarrow> irc_connection \<times> irc_signal list \<Rightarrow> twitch_server" where
  "writeResult sv r = foldl writeSignal (sv\<lparr>writeConnection := fst r\<rparr>) (snd r)"

definition server_disconnect :: "int \<Rightarrow> twitch_server \<Rightarrow> twitch_server" where
  "server_disconnect now sv =
     (let sv = readResult now sv (ic_close (readConnection sv))
      in writeResult sv (ic_close (writeConnection sv)))"

definition server_connect :: "int \<Rightarrow> twitch_server \<Rightarrow> twitch_server" where
  "server_connect now sv =
     (let sv = server_disconnect now sv;
          sv = sv\<lparr>writeConnection := ic_open (writeConnection sv)\<rparr>
      in sv\<lparr>readConnection := ic_open (readConnection sv)\<rparr>)"

text \<open>The messages that change this state: joins of the user, the id of a room, and requests to reconnect.\<close>

datatype read_message = JoinMessage string string | RoomState string string | ReconnectMessage | OtherMessage string

definition readMessage ::
  "(string \<Rightarrow> string) \<Rightarrow> history_settings \<Rightarrow> string \<Rightarrow> int \<Rightarrow> read_message \<Rightarrow> twitch_server \<Rightarrow> twitch_server" where
  "readMessage toLower st currentUser now msg sv =
     (case msg of
        JoinMessage nick parameter \<Rightarrow>
          (case getChannelOrEmpty toLower (tl parameter) sv of
             TwitchChannelRef i \<Rightarrow>
               if nick = currentUser
               then update_object i (\<lambda>tc. tc_joined st now (tc_add (SystemLine ''joined channel'') tc)) sv else sv
           | _ \<Rightarrow> sv)
      | RoomState name roomId \<Rightarrow>
          (case getChannelOrEmpty toLower name sv of
             TwitchChannelRef i \<Rightarrow> update_object i (setRoomId st now roomId) sv
           | _ \<Rightarrow> sv)
      | ReconnectMessage \<Rightarrow>
          server_connect now (markChannelsConnected now
            (addGlobalSystemMessage ''Twitch Servers requested us to reconnect, reconnecting'' sv))
      | OtherMessage command \<Rightarrow> sv)"

fun command_of :: "read_message \<Rightarrow> string" where
  "command_of (JoinMessage nick parameter) = ''JOIN''"
| "command_of (RoomState name roomId) = ''ROOMSTATE''"
| "command_of ReconnectMessage = ''RECONNECT''"
| "command_of (OtherMessage command) = command"

definition writeReconnectMessage :: "int \<Rightarrow> twitch_server \<Rightarrow> twitch_server" where
  "writeReconnectMessage now sv =
     server_connect now (addGlobalSystemMessage ''Twitch Servers requested us to reconnect, reconnecting'' sv)"

section \<open>Events\<close>

record server_env =
  env_lower :: "string \<Rightarrow> string"
  env_history :: history_settings
  env_user :: string
  env_payload :: string

datatype server_event =
    Connect int
  | ReadUp "string list" int
  | ReadDown int
  | ReadPing int
  | ReadReconnect
  | ReadMessage read_message int
  | ReadPong string
  | WriteUp
  | WriteDown
  | WritePing int
  | WriteReconnect
  | WriteMessage string
  | WriteReconnectMessage int
  | WritePong string
  | AddChannel string int
  | DestroyChannel nat
  | JoinTimeout int int
  | HistoryDone nat

text \<open>An event that cannot happen, such as a timer that does not run, changes nothing.\<close>

fun server_step :: "server_env \<Rightarrow> server_event \<Rightarrow> twitch_server \<Rightarrow> twitch_server" where
  "server_step e (Connect now) sv = server_connect now sv"
| "server_step e (ReadUp visible now) sv =
     (if ic_socket (readConnection sv) = SocketConnecting then
        onReadConnected visible now (sv\<lparr>readConnection := ic_connected (readConnection sv), readLines := []\<rparr>)
      else sv)"
| "server_step e (ReadDown now) sv =
     (if ic_socket (readConnection sv) \<noteq> SocketUnconnected then readResult now sv (socket_unconnected (readConnection sv))
      else sv)"
| "server_step e (ReadPing now) sv =
     (if pingTimer (readConnection sv) then readResult now sv (pingTimeout (env_payload e) now (readConnection sv)) else sv)"
| "server_step e ReadReconnect sv =
     (if reconnectTimer (readConnection sv) \<noteq> None
      then sv\<lparr>readConnection := reconnectTimeout (readConnection sv)\<rparr> else sv)"
| "server_step e (ReadMessage msg now) sv =
     (if ic_socket (readConnection sv) = SocketConnected then
        readMessage (env_lower e) (env_history e) (env_user e) now msg
          (sv\<lparr>readConnection := ic_messageReceived (command_of msg) (readConnection sv)\<rparr>)
      else sv)"
| "server_step e (ReadPong argument) sv =
     sv\<lparr>readConnection := ic_pong (env_payload e) argument (readConnection sv)\<rparr>"
| "server_step e WriteUp sv =
     (if ic_socket (writeConnection sv) = SocketConnecting
      then sv\<lparr>writeConnection := ic_connected (writeConnection sv)\<rparr> else sv)"
| "server_step e WriteDown sv =
     (if ic_socket (writeConnection sv) \<noteq> SocketUnconnected then writeResult sv (socket_unconnected (writeConnection sv))
      else sv)"
| "server_step e (WritePing now) sv =
     (if pingTimer (writeConnection sv) then writeResult sv (pingTimeout (env_payload e) now (writeConnection sv)) else sv)"
| "server_step e WriteReconnect sv =
     (if reconnectTimer (writeConnection sv) \<noteq> None
      then sv\<lparr>writeConnection := reconnectTimeout (writeConnection sv)\<rparr> else sv)"
| "server_step e (WriteMessage command) sv =
     sv\<lparr>writeConnection := ic_messageReceived command (writeConnection sv)\<rparr>"
| "server_step e (WriteReconnectMessage now) sv =
     writeReconnectMessage now (sv\<lparr>writeConnection := ic_messageReceived ''RECONNECT'' (writeConnection sv)\<rparr>)"
| "server_step e (WritePong argument) sv =
     sv\<lparr>writeConnection := ic_pong (env_payload e) argument (writeConnection sv)\<rparr>"
| "server_step e (AddChannel name now) sv = fst (getOrAddChannel (env_lower e) now name sv)"
| "server_step e (DestroyChannel i) sv = channelDestroyed i sv"
| "server_step e (JoinTimeout due now) sv =
     (if due \<in> set (rb_timers (joinBucket sv)) then join_timeout now due sv else sv)"
| "server_step e (HistoryDone i) sv = update_object i recentMessagesDone sv"

definition server_run :: "server_env \<Rightarrow> server_event list \<Rightarrow> int \<Rightarrow> twitch_server" where
  "server_run e es now = foldl (\<lambda>sv ev. server_step e ev sv) (TwitchIrcServer now) es"

section \<open>Frames\<close>

lemma foldl_frame: "(\<And>s x. f (g s x) = f s) \<Longrightarrow> f (foldl g s xs) = f s"
  by (induction xs arbitrary: s) simp_all

definition object_names :: "twitch_server \<Rightarrow> nat \<rightharpoonup> string" where
  "object_names sv i = map_option tc_name (ts_objects sv i)"

text \<open>What the invariants look at, apart from the connections.\<close>

definition join_view :: "twitch_server \<Rightarrow> (string \<times> nat) list \<times> (nat \<rightharpoonup> string) \<times> nat \<times> string RatelimitBucket \<times> string list" where
  "join_view sv = (ts_channels sv, object_names sv, ts_next sv, joinBucket sv, readLines sv)"

lemma update_object_frame:
  "readConnection (update_object i f sv) = readConnection sv" "writeConnection (update_object i f sv) = writeConnection sv"
  "(\<And>tc. tc_name (f tc) = tc_name tc) \<Longrightarrow> join_view (update_object i f sv) = join_view sv"
  by (auto simp: update_object_def join_view_def object_names_def fun_eq_iff split: option.split)

lemma forEachChannel_frame:
  "readConnection (forEachChannel f sv) = readConnection sv" "writeConnection (forEachChannel f sv) = writeConnection sv"
  "(\<And>tc. tc_name (f tc) = tc_name tc) \<Longrightarrow> join_view (forEachChannel f sv) = join_view sv"
  unfolding forEachChannel_def by (rule foldl_frame; simp add: update_object_frame)+

lemma tc_name_simps [simp]:
  "tc_name (tc_add l tc) = tc_name tc" "tc_name (markConnected now tc) = tc_name tc"
  "tc_name (markDisconnected tc) = tc_name tc" "tc_name (connectedStatus tc) = tc_name tc"
  "tc_name (tc_joined st now tc) = tc_name tc" "tc_name (setRoomId st now r tc) = tc_name tc"
  "tc_name (recentMessagesDone tc) = tc_name tc"
  by (simp_all add: tc_add_def markConnected_def markDisconnected_def connectedStatus_def tc_joined_def setRoomId_def
    recentMessagesDone_def loadRecentMessages_def loadRecentMessagesReconnect_def Let_def)

lemma global_frame:
  "readConnection (addGlobalSystemMessage t sv) = readConnection sv" "writeConnection (addGlobalSystemMessage t sv) = writeConnection sv"
  "join_view (addGlobalSystemMessage t sv) = join_view sv"
  "readConnection (markChannelsConnected now sv) = readConnection sv"
  "writeConnection (markChannelsConnected now sv) = writeConnection sv"
  "join_view (markChannelsConnected now sv) = join_view sv"
  "readConnection (onDisconnected sv) = readConnection sv" "writeConnection (onDisconnected sv) = writeConnection sv"
  "join_view (onDisconnected sv) = join_view sv"
  by (simp_all add: addGlobalSystemMessage_def markChannelsConnected_def onDisconnected_def forEachChannel_frame)

lemma sendRaw_frame:
  "readConnection (sendRaw l sv) = readConnection sv" "writeConnection (sendRaw l sv) = writeConnection sv"
  "readConnection (actuallyJoin n sv) = readConnection sv" "writeConnection (actuallyJoin n sv) = writeConnection sv"
  by (simp_all add: sendRaw_def actuallyJoin_def)

lemma set_bucket_frame:
  "readConnection (set_bucket b sv) = readConnection sv" "writeConnection (set_bucket b sv) = writeConnection sv"
proof -
  have "readConnection (set_bucket b sv) = readConnection (sv\<lparr>joinBucket := b\<rparr>)"
    "writeConnection (set_bucket b sv) = writeConnection (sv\<lparr>joinBucket := b\<rparr>)"
    unfolding set_bucket_def by (rule foldl_frame, simp add: case_prod_beta sendRaw_frame)+
  then show "readConnection (set_bucket b sv) = readConnection sv" "writeConnection (set_bucket b sv) = writeConnection sv"
    by simp_all
qed

lemma join_send_frame:
  "readConnection (join_send now n sv) = readConnection sv" "writeConnection (join_send now n sv) = writeConnection sv"
  by (simp_all add: join_send_def set_bucket_frame)

lemma onReadConnected_frame:
  "readConnection (onReadConnected visible now sv) = readConnection sv"
  "writeConnection (onReadConnected visible now sv) = writeConnection sv"
proof -
  have "readConnection (foldl (\<lambda>sv name. join_send now name sv) s ns) = readConnection s"
    "writeConnection (foldl (\<lambda>sv name. join_send now name sv) s ns) = writeConnection s" for ns s
    by (rule foldl_frame, simp add: join_send_frame)+
  moreover have "readConnection (foldl (\<lambda>sv i. update_object i connectedStatus sv) s is) = readConnection s"
    "writeConnection (foldl (\<lambda>sv i. update_object i connectedStatus sv) s is) = writeConnection s" for "is" s
    by (rule foldl_frame, simp add: update_object_frame)+
  ultimately show "readConnection (onReadConnected visible now sv) = readConnection sv"
    "writeConnection (onReadConnected visible now sv) = writeConnection sv"
    by (simp_all add: onReadConnected_def Let_def)
qed

section \<open>Connections come back\<close>

definition conn_inv :: "irc_connection \<Rightarrow> bool" where
  "conn_inv c \<longleftrightarrow> (expectConnectionLoss c \<longrightarrow> ic_socket c = SocketUnconnected)"

definition conn_ok :: "irc_connection \<Rightarrow> bool" where
  "conn_ok c \<longleftrightarrow> ic_socket c \<noteq> SocketUnconnected \<or> reconnectTimer c \<noteq> None"

definition lost :: "irc_signal list \<Rightarrow> bool" where
  "lost sigs \<longleftrightarrow> (\<exists>t. ConnectionLost t \<in> set sigs)"

lemma smartReconnect_simps [simp]:
  "smartReconnect (smartReconnect c) = smartReconnect c" "ic_socket (smartReconnect c) = ic_socket c"
  "expectConnectionLoss (smartReconnect c) = expectConnectionLoss c" "reconnectTimer (smartReconnect c) \<noteq> None"
  by (auto simp: smartReconnect_def case_prod_beta)

lemma readSignals_connection:
  "readConnection (foldl (readSignal now) sv sigs) =
     (if lost sigs then smartReconnect (readConnection sv) else readConnection sv) \<and>
   writeConnection (foldl (readSignal now) sv sigs) = writeConnection sv"
proof (induction sigs arbitrary: sv)
  case (Cons sig sigs)
  have "readConnection (readSignal now sv sig) =
      (if \<exists>t. sig = ConnectionLost t then smartReconnect (readConnection sv) else readConnection sv)"
    "writeConnection (readSignal now sv sig) = writeConnection sv"
    by (cases sig; simp add: readSignal_def global_frame sendRaw_frame Let_def)+
  then show ?case using Cons by (auto simp: lost_def)
qed (simp add: lost_def)

lemma readResult_connections:
  "readConnection (readResult now sv r) = (if lost (snd r) then smartReconnect (fst r) else fst r)"
  "writeConnection (readResult now sv r) = writeConnection sv"
  using readSignals_connection by (simp_all add: readResult_def)

lemma writeSignals_connection:
  "writeConnection (foldl writeSignal sv sigs) =
     (if lost sigs then smartReconnect (writeConnection sv) else writeConnection sv) \<and>
   readConnection (foldl writeSignal sv sigs) = readConnection sv \<and> join_view (foldl writeSignal sv sigs) = join_view sv"
proof (induction sigs arbitrary: sv)
  case (Cons sig sigs)
  have "writeConnection (writeSignal sv sig) =
      (if \<exists>t. sig = ConnectionLost t then smartReconnect (writeConnection sv) else writeConnection sv)"
    "readConnection (writeSignal sv sig) = readConnection sv" "join_view (writeSignal sv sig) = join_view sv"
    by (cases sig; simp add: writeSignal_def join_view_def object_names_def fun_eq_iff)+
  then show ?case using Cons by (auto simp: lost_def)
qed (simp add: lost_def)

lemma join_view_connections [simp]:
  "join_view (sv\<lparr>writeConnection := c\<rparr>) = join_view sv" "join_view (sv\<lparr>readConnection := c\<rparr>) = join_view sv"
  by (simp_all add: join_view_def object_names_def fun_eq_iff)

lemma writeResult_connections:
  "writeConnection (writeResult sv r) = (if lost (snd r) then smartReconnect (fst r) else fst r)"
  "readConnection (writeResult sv r) = readConnection sv" "join_view (writeResult sv r) = join_view sv"
  using writeSignals_connection [of "sv\<lparr>writeConnection := fst r\<rparr>" "snd r"] by (simp_all add: writeResult_def)

text \<open>What a connection does by itself keeps it going.\<close>

lemma conn_steps:
  assumes "conn_inv c"
  shows "conn_inv (fst (socket_unconnected c))" "ic_socket c \<noteq> SocketUnconnected \<Longrightarrow> lost (snd (socket_unconnected c))"
    "conn_inv (fst (pingTimeout payload now c))" "conn_ok c \<Longrightarrow> conn_ok (fst (pingTimeout payload now c)) \<or> lost (snd (pingTimeout payload now c))"
    "conn_inv (reconnectTimeout c)" "conn_ok (reconnectTimeout c)"
    "conn_inv (ic_open (fst (ic_close c)))" "conn_ok (ic_open (fst (ic_close c)))"
  using assms
  by (auto simp: conn_inv_def conn_ok_def lost_def socket_unconnected_def pingTimeout_def ic_close_def ic_open_def
    reconnectTimeout_def Let_def)

lemma ic_messageReceived_socket [simp]:
  "ic_socket (ic_messageReceived cmd c) = ic_socket c" "conn_inv (ic_messageReceived cmd c) = conn_inv c"
  "conn_ok (ic_messageReceived cmd c) = conn_ok c" "ic_socket (ic_pong p a c) = ic_socket c"
  "conn_inv (ic_pong p a c) = conn_inv c" "conn_ok (ic_pong p a c) = conn_ok c"
  by (simp_all add: ic_messageReceived_def ic_pong_def conn_inv_def conn_ok_def Let_def)

lemma conn_smart [simp]: "conn_inv (smartReconnect c) = conn_inv c" "conn_ok (smartReconnect c)"
  by (simp_all add: conn_inv_def conn_ok_def)

lemma ic_close_not_lost: "conn_inv c \<Longrightarrow> \<not> lost (snd (ic_close c))"
  by (auto simp: ic_close_def socket_unconnected_def lost_def Let_def)

lemma server_connect_connections:
  assumes "conn_inv (readConnection sv)" "conn_inv (writeConnection sv)"
  shows "readConnection (server_connect now sv) = ic_open (fst (ic_close (readConnection sv)))"
    "writeConnection (server_connect now sv) = ic_open (fst (ic_close (writeConnection sv)))"
  using assms ic_close_not_lost
  by (simp_all add: server_connect_def server_disconnect_def readResult_connections writeResult_connections Let_def)

definition conns_inv :: "twitch_server \<Rightarrow> bool" where
  "conns_inv sv \<longleftrightarrow> conn_inv (readConnection sv) \<and> conn_inv (writeConnection sv)"

definition conns_ok :: "twitch_server \<Rightarrow> bool" where
  "conns_ok sv \<longleftrightarrow> conn_ok (readConnection sv) \<and> conn_ok (writeConnection sv)"

lemma connect_conns:
  assumes "conns_inv sv"
  shows "conns_inv (server_connect now sv) \<and> conns_ok (server_connect now sv)"
  using assms conn_steps(7,8) by (simp add: conns_inv_def conns_ok_def server_connect_connections)

lemma conns_frame:
  assumes "readConnection sv' = readConnection sv" "writeConnection sv' = writeConnection sv"
  shows "conns_inv sv' = conns_inv sv" "conns_ok sv' = conns_ok sv"
  using assms by (simp_all add: conns_inv_def conns_ok_def)

lemma readMessage_conns:
  assumes "conns_inv sv"
  shows "conns_inv (readMessage l st u now msg sv) \<and> (conns_ok sv \<longrightarrow> conns_ok (readMessage l st u now msg sv))"
proof (cases msg)
  case ReconnectMessage
  let ?sv = "markChannelsConnected now
    (addGlobalSystemMessage ''Twitch Servers requested us to reconnect, reconnecting'' sv)"
  have "conns_inv ?sv" using assms by (simp add: conns_inv_def global_frame)
  then show ?thesis using connect_conns ReconnectMessage by (simp add: readMessage_def)
next
  case (JoinMessage nick parameter)
  have "readConnection (readMessage l st u now msg sv) = readConnection sv"
    "writeConnection (readMessage l st u now msg sv) = writeConnection sv"
    using JoinMessage by (simp_all add: readMessage_def update_object_frame split: channel_ref.split)
  then show ?thesis using assms conns_frame by blast
next
  case (RoomState name roomId)
  have "readConnection (readMessage l st u now msg sv) = readConnection sv"
    "writeConnection (readMessage l st u now msg sv) = writeConnection sv"
    using RoomState by (simp_all add: readMessage_def update_object_frame split: channel_ref.split)
  then show ?thesis using assms conns_frame by blast
next
  case (OtherMessage command)
  then show ?thesis using assms by (simp add: readMessage_def)
qed

lemma channel_ops_connections:
  "readConnection (fst (getOrAddChannel l now name sv)) = readConnection sv"
  "writeConnection (fst (getOrAddChannel l now name sv)) = writeConnection sv"
  "readConnection (channelDestroyed i sv) = readConnection sv" "writeConnection (channelDestroyed i sv) = writeConnection sv"
  "readConnection (join_timeout now due sv) = readConnection sv" "writeConnection (join_timeout now due sv) = writeConnection sv"
  by (simp_all add: getOrAddChannel_def channelDestroyed_def join_timeout_def join_send_frame set_bucket_frame
    sendRaw_frame Let_def split: option.split)

lemma server_step_conns:
  assumes "conns_inv sv"
  shows "conns_inv (server_step e ev sv) \<and> (conns_ok sv \<longrightarrow> conns_ok (server_step e ev sv))"
proof -
  have r: "conn_inv (readConnection sv)" and w: "conn_inv (writeConnection sv)" using assms by (simp_all add: conns_inv_def)
  show ?thesis
  proof (cases ev)
    case (Connect now)
    then show ?thesis using connect_conns [OF assms] by simp
  next
    case (ReadUp visible now)
    then show ?thesis using assms
      by (auto simp: conns_inv_def conns_ok_def onReadConnected_frame ic_connected_def conn_inv_def conn_ok_def)
  next
    case (ReadDown now)
    then show ?thesis using assms conn_steps(1,2) [OF r]
      by (auto simp: conns_inv_def conns_ok_def readResult_connections)
  next
    case (ReadPing now)
    then show ?thesis using assms conn_steps(3,4) [OF r]
      by (auto simp: conns_inv_def conns_ok_def readResult_connections)
  next
    case ReadReconnect
    then show ?thesis using assms conn_steps(5,6) [OF r] by (auto simp: conns_inv_def conns_ok_def)
  next
    case (ReadMessage msg now)
    let ?sv = "sv\<lparr>readConnection := ic_messageReceived (command_of msg) (readConnection sv)\<rparr>"
    have "conns_inv ?sv" "conns_ok ?sv = conns_ok sv" using assms by (simp_all add: conns_inv_def conns_ok_def)
    then show ?thesis using readMessage_conns [of ?sv] assms ReadMessage by simp
  next
    case (WriteDown)
    then show ?thesis using assms conn_steps(1,2) [OF w]
      by (auto simp: conns_inv_def conns_ok_def writeResult_connections)
  next
    case WriteUp
    then show ?thesis using assms by (auto simp: conns_inv_def conns_ok_def ic_connected_def conn_inv_def conn_ok_def)
  next
    case (WritePing now)
    then show ?thesis using assms conn_steps(3,4) [OF w]
      by (auto simp: conns_inv_def conns_ok_def writeResult_connections)
  next
    case WriteReconnect
    then show ?thesis using assms conn_steps(5,6) [OF w] by (auto simp: conns_inv_def conns_ok_def)
  next
    case (WriteReconnectMessage now)
    let ?sv = "addGlobalSystemMessage ''Twitch Servers requested us to reconnect, reconnecting''
      (sv\<lparr>writeConnection := ic_messageReceived ''RECONNECT'' (writeConnection sv)\<rparr>)"
    have "conns_inv ?sv" using assms by (simp add: conns_inv_def global_frame)
    then show ?thesis using connect_conns WriteReconnectMessage by (simp add: writeReconnectMessage_def)
  next
    case (AddChannel name now)
    then show ?thesis using assms conns_frame [OF channel_ops_connections(1,2)] by simp
  next
    case (DestroyChannel i)
    then show ?thesis using assms conns_frame [OF channel_ops_connections(3,4)] by simp
  next
    case (JoinTimeout due now)
    then show ?thesis using assms conns_frame [OF channel_ops_connections(5,6)] by simp
  next
    case (HistoryDone i)
    then show ?thesis using assms conns_frame [OF update_object_frame(1,2)] by simp
  qed (use assms in \<open>simp_all add: conns_inv_def conns_ok_def\<close>)
qed

lemma server_run_conns:
  "conns_inv sv \<Longrightarrow> conns_inv (foldl (\<lambda>sv ev. server_step e ev sv) sv es) \<and>
    (conns_ok sv \<longrightarrow> conns_ok (foldl (\<lambda>sv ev. server_step e ev sv) sv es))"
proof (induction es arbitrary: sv)
  case (Cons ev es)
  then show ?case using server_step_conns [OF Cons.prems] by (metis foldl_Cons)
qed simp

lemma init_conns: "conns_inv (TwitchIrcServer now)"
  by (simp add: conns_inv_def TwitchIrcServer_def IrcConnection_def conn_inv_def)

text \<open>
  C21. After the first connect, whatever is lost, times out or is asked to reconnect, both connections are always up,
  coming up, or waiting for the timer that opens them again.\<close>

theorem connections_come_back:
  "conns_ok (server_run e (Connect now # es) now0)"
proof -
  have "server_run e (Connect now # es) now0 =
      foldl (\<lambda>sv ev. server_step e ev sv) (server_connect now (TwitchIrcServer now0)) es"
    by (simp add: server_run_def)
  then show ?thesis using connect_conns [OF init_conns] server_run_conns by metis
qed

section \<open>Channels are joined\<close>

text \<open>What the lines of a connection leave joined.\<close>

fun after_line :: "string \<Rightarrow> bool \<Rightarrow> string \<Rightarrow> bool" where
  "after_line n b l = (if l = join_line n then True else if l = part_line n then False else b)"

definition joined_in :: "string list \<Rightarrow> string \<Rightarrow> bool" where
  "joined_in ls n = foldl (after_line n) False ls"

definition waiting_or_joined :: "twitch_server \<Rightarrow> string \<Rightarrow> bool" where
  "waiting_or_joined sv n \<longleftrightarrow> n \<in> set (rb_queue (joinBucket sv)) \<or> joined_in (readLines sv) n"

text \<open>The map and the objects agree; tokens are in the bucket or in timers, and nothing waits while there is one.\<close>

definition bucket_ok :: "'i RatelimitBucket \<Rightarrow> bool" where
  "bucket_ok b \<longleftrightarrow> rb_budget b + int (length (rb_timers b)) = 18 \<and> 0 \<le> rb_budget b \<and>
     (rb_queue b \<noteq> [] \<longrightarrow> rb_budget b = 0)"

definition names_ok :: "twitch_server \<Rightarrow> bool" where
  "names_ok sv \<longleftrightarrow> ordered (ts_channels sv) \<and>
     (\<forall>n i. (n, i) \<in> set (ts_channels sv) \<longleftrightarrow> object_names sv i = Some n) \<and> (\<forall>i\<ge>ts_next sv. object_names sv i = None)"

definition channel_names :: "twitch_server \<Rightarrow> string set" where
  "channel_names sv = fst ` set (ts_channels sv)"

definition all_joined :: "twitch_server \<Rightarrow> bool" where
  "all_joined sv \<longleftrightarrow> (\<forall>n\<in>channel_names sv. waiting_or_joined sv n)"

definition join_inv :: "twitch_server \<Rightarrow> bool" where
  "join_inv sv \<longleftrightarrow> names_ok sv \<and> bucket_ok (joinBucket sv) \<and>
     (ic_socket (readConnection sv) = SocketConnected \<longrightarrow> all_joined sv)"

lemma joined_in_append:
  "joined_in (ls @ [l]) n = after_line n (joined_in ls n) l"
  "joined_in (ls @ map join_line ns) n = (n \<in> set ns \<or> joined_in ls n)"
proof -
  show "joined_in (ls @ [l]) n = after_line n (joined_in ls n) l" by (simp add: joined_in_def)
  have "foldl (after_line n) b (map join_line ns) = (n \<in> set ns \<or> b)" for b
    by (induction ns arbitrary: b) auto
  then show "joined_in (ls @ map join_line ns) n = (n \<in> set ns \<or> joined_in ls n)"
    by (simp add: joined_in_def)
qed

lemma join_view_inv:
  assumes "join_view sv' = join_view sv"
  shows "names_ok sv' = names_ok sv" "joinBucket sv' = joinBucket sv" "all_joined sv' = all_joined sv"
    "channel_names sv' = channel_names sv" "readLines sv' = readLines sv"
  using assms by (simp_all add: join_view_def names_ok_def all_joined_def channel_names_def waiting_or_joined_def)

lemma join_inv_frame:
  assumes "join_view sv' = join_view sv" "ic_socket (readConnection sv') = SocketConnected \<longrightarrow> ic_socket (readConnection sv) = SocketConnected"
    "join_inv sv"
  shows "join_inv sv'"
  using assms join_view_inv [OF assms(1)] by (simp add: join_inv_def)

subsection \<open>The bucket lets items through\<close>

text \<open>What is called leaves the queue.\<close>

definition moves :: "'i RatelimitBucket \<Rightarrow> 'i set \<Rightarrow> 'i RatelimitBucket \<Rightarrow> (int \<times> 'i) list \<Rightarrow> bool" where
  "moves b items b' new \<longleftrightarrow> rb_called b' = rb_called b @ new \<and>
     set (rb_queue b) \<union> items = set (rb_queue b') \<union> snd ` set new"

lemma handleOne_moves: "\<exists>new. moves b {} (handleOne now b) new"
  by (auto simp: moves_def handleOne_def split: list.split)

lemma rb_send_moves: "\<exists>new. moves b {item} (rb_send now item b) new"
proof -
  obtain new where "moves (b\<lparr>rb_queue := rb_queue b @ [item]\<rparr>) {} (handleOne now (b\<lparr>rb_queue := rb_queue b @ [item]\<rparr>)) new"
    using handleOne_moves by blast
  then have "moves b {item} (handleOne now (b\<lparr>rb_queue := rb_queue b @ [item]\<rparr>)) new" by (simp add: moves_def)
  moreover have "moves b {item} (b\<lparr>rb_queue := rb_queue b @ [item]\<rparr>) []" by (simp add: moves_def)
  ultimately show ?thesis unfolding rb_send_def Let_def by (cases "0 < rb_budget b") auto
qed

lemma rb_timeout_moves: "\<exists>new. moves b {} (rb_timeout now due b) new"
  using handleOne_moves [of "b\<lparr>rb_timers := remove1 due (rb_timers b), rb_budget := rb_budget b + 1\<rparr>" now]
  by (simp add: moves_def rb_timeout_def)

lemma handleOne_ok:
  assumes "rb_budget b + int (length (rb_timers b)) = 18" "0 < rb_budget b" "length (rb_queue b) \<le> 1 \<or> rb_budget b = 1"
  shows "bucket_ok (handleOne now b)"
  using assms by (cases "rb_queue b") (auto simp: bucket_ok_def handleOne_def)

lemma rb_send_ok:
  assumes "bucket_ok b"
  shows "bucket_ok (rb_send now item b)"
proof (cases "0 < rb_budget b")
  case True
  then have "rb_queue b = []" using assms by (auto simp: bucket_ok_def)
  then have "bucket_ok (handleOne now (b\<lparr>rb_queue := rb_queue b @ [item]\<rparr>))"
    using True assms by (intro handleOne_ok) (simp_all add: bucket_ok_def)
  then show ?thesis using True by (simp add: rb_send_def Let_def)
next
  case False
  then show ?thesis using assms by (auto simp: rb_send_def bucket_ok_def)
qed

lemma rb_timeout_ok:
  assumes "bucket_ok b" "due \<in> set (rb_timers b)"
  shows "bucket_ok (rb_timeout now due b)"
proof -
  have "length (rb_timers b) = Suc (length (remove1 due (rb_timers b)))"
    using assms(2) by (simp add: length_remove1) (metis One_nat_def Suc_pred length_pos_if_in_set)
  then show ?thesis using assms(1) unfolding rb_timeout_def
    by (intro handleOne_ok) (auto simp: bucket_ok_def)
qed

lemma joins_lines:
  assumes "ic_socket (readConnection sv) = SocketConnected"
  shows "foldl (\<lambda>sv (t, name). actuallyJoin name sv) sv new =
    sv\<lparr>readLines := readLines sv @ map join_line (filter (\<lambda>n. map_of (ts_channels sv) n \<noteq> None) (map snd new))\<rparr>"
  using assms
proof (induction new arbitrary: sv)
  case (Cons a new)
  obtain t n where a: "a = (t, n)" by fastforce
  show ?case
  proof (cases "map_of (ts_channels sv) n")
    case None
    then show ?thesis using Cons a by (simp add: actuallyJoin_def)
  next
    case (Some i)
    then show ?thesis using Cons.IH [of "sv\<lparr>readLines := readLines sv @ [join_line n]\<rparr>"] Cons.prems a
      by (simp add: actuallyJoin_def sendRaw_def)
  qed
qed simp

lemma set_bucket_field:
  assumes "\<And>s n. f (actuallyJoin n s) = f s"
  shows "f (set_bucket b sv) = f (sv\<lparr>joinBucket := b\<rparr>)"
  unfolding set_bucket_def by (rule foldl_frame) (simp add: assms case_prod_beta)

lemma set_bucket_effect:
  assumes "moves (joinBucket sv) items b new"
  shows "ts_channels (set_bucket b sv) = ts_channels sv" "object_names (set_bucket b sv) = object_names sv"
    "ts_next (set_bucket b sv) = ts_next sv" "joinBucket (set_bucket b sv) = b"
    "ic_socket (readConnection sv) = SocketConnected \<Longrightarrow> n \<in> channel_names sv \<Longrightarrow>
      waiting_or_joined sv n \<or> n \<in> items \<Longrightarrow> waiting_or_joined (set_bucket b sv) n"
proof -
  show "ts_channels (set_bucket b sv) = ts_channels sv"
    by (subst set_bucket_field) (simp_all add: actuallyJoin_def sendRaw_def)
  show "ts_next (set_bucket b sv) = ts_next sv"
    by (subst set_bucket_field) (simp_all add: actuallyJoin_def sendRaw_def)
  show "joinBucket (set_bucket b sv) = b"
    by (subst set_bucket_field) (simp_all add: actuallyJoin_def sendRaw_def)
  have "object_names (set_bucket b sv) = object_names (sv\<lparr>joinBucket := b\<rparr>)"
    by (rule set_bucket_field) (simp add: actuallyJoin_def sendRaw_def object_names_def fun_eq_iff)
  then show "object_names (set_bucket b sv) = object_names sv" by (simp add: object_names_def fun_eq_iff)
  assume conn: "ic_socket (readConnection sv) = SocketConnected" and n: "n \<in> channel_names sv"
    and w: "waiting_or_joined sv n \<or> n \<in> items"
  have known: "map_of (ts_channels sv) n \<noteq> None" using n by (auto simp: channel_names_def map_of_eq_None_iff)
  have new: "drop (length (rb_called (joinBucket sv))) (rb_called b) = new" using assms by (simp add: moves_def)
  have lines: "readLines (set_bucket b sv) =
      readLines sv @ map join_line (filter (\<lambda>n. map_of (ts_channels sv) n \<noteq> None) (map snd new))"
    and bucket: "joinBucket (set_bucket b sv) = b"
    using joins_lines [of "sv\<lparr>joinBucket := b\<rparr>" new] conn by (simp_all add: set_bucket_def new)
  have "n \<in> set (rb_queue b) \<or> n \<in> snd ` set new \<or> joined_in (readLines sv) n"
    using w assms by (auto simp: waiting_or_joined_def moves_def)
  then show "waiting_or_joined (set_bucket b sv) n"
    using known by (auto simp: waiting_or_joined_def bucket lines joined_in_append)
qed

lemma set_bucket_inv:
  assumes "moves (joinBucket sv) items b new" "bucket_ok b" "join_inv sv"
  shows "join_inv (set_bucket b sv)"
  using assms set_bucket_effect [OF assms(1)]
  by (simp add: join_inv_def names_ok_def all_joined_def channel_names_def set_bucket_frame)

lemma join_send_steps:
  assumes "names_ok sv" "bucket_ok (joinBucket sv)"
  shows "names_ok (join_send now name sv)" "bucket_ok (joinBucket (join_send now name sv))"
    "channel_names (join_send now name sv) = channel_names sv"
    "ic_socket (readConnection sv) = SocketConnected \<Longrightarrow> n \<in> channel_names sv \<Longrightarrow>
      waiting_or_joined sv n \<or> n = name \<Longrightarrow> waiting_or_joined (join_send now name sv) n"
proof -
  obtain new where m: "moves (joinBucket sv) {name} (rb_send now name (joinBucket sv)) new"
    using rb_send_moves [of "joinBucket sv" name now] by fastforce
  note e = set_bucket_effect [OF m]
  show "names_ok (join_send now name sv)" "bucket_ok (joinBucket (join_send now name sv))"
    "channel_names (join_send now name sv) = channel_names sv"
    using assms e(1-4) rb_send_ok by (simp_all add: names_ok_def channel_names_def join_send_def)
  show "ic_socket (readConnection sv) = SocketConnected \<Longrightarrow> n \<in> channel_names sv \<Longrightarrow>
      waiting_or_joined sv n \<or> n = name \<Longrightarrow> waiting_or_joined (join_send now name sv) n"
    using e(5) [of n] by (auto simp: join_send_def)
qed

lemma join_sends_steps:
  assumes "names_ok sv" "bucket_ok (joinBucket sv)" "ic_socket (readConnection sv) = SocketConnected"
  shows "names_ok (foldl (\<lambda>sv name. join_send now name sv) sv names) \<and>
    bucket_ok (joinBucket (foldl (\<lambda>sv name. join_send now name sv) sv names)) \<and>
    channel_names (foldl (\<lambda>sv name. join_send now name sv) sv names) = channel_names sv \<and>
    (\<forall>n\<in>channel_names sv. waiting_or_joined sv n \<or> n \<in> set names \<longrightarrow>
      waiting_or_joined (foldl (\<lambda>sv name. join_send now name sv) sv names) n)"
  using assms
proof (induction names arbitrary: sv)
  case (Cons name names)
  note steps = join_send_steps [OF Cons.prems(1,2), where now = now and name = name]
  show ?case
    using Cons.IH [OF steps(1,2)] steps(3) steps(4) [OF Cons.prems(3)] Cons.prems(3)
    by (auto simp: join_send_frame)
qed simp

lemma names_ok_active:
  assumes "names_ok sv" "n \<in> channel_names sv"
  shows "n \<in> set (map (channel_name sv) (activeChannels sv))"
proof -
  obtain i where i: "(n, i) \<in> set (ts_channels sv)" using assms(2) by (auto simp: channel_names_def)
  then have "object_names sv i = Some n" using assms(1) by (simp add: names_ok_def)
  then obtain tc where "ts_objects sv i = Some tc" "tc_name tc = n" by (auto simp: object_names_def)
  then have "channel_name sv i = n" "i \<in> set (activeChannels sv)"
    using i by (auto simp: channel_name_def activeChannels_def intro!: image_eqI [of _ snd "(n, i)"])
  then show ?thesis by auto
qed

lemma onReadConnected_inv:
  assumes "names_ok sv" "bucket_ok (joinBucket sv)" "ic_socket (readConnection sv) = SocketConnected"
  shows "join_inv (onReadConnected visible now sv)"
proof -
  define names where "names = (let names = map (channel_name sv) (activeChannels sv)
    in filter (\<lambda>n. n \<in> set visible) names @ filter (\<lambda>n. n \<notin> set visible) names)"
  define sv' where "sv' = foldl (\<lambda>sv name. join_send now name sv) sv names"
  have all: "\<forall>n\<in>channel_names sv. n \<in> set names"
    using names_ok_active [OF assms(1)] by (auto simp: names_def Let_def)
  have "join_inv sv'"
    using join_sends_steps [OF assms, where now = now and names = names] all by (simp add: sv'_def join_inv_def all_joined_def)
  moreover have "join_view (foldl (\<lambda>sv i. update_object i connectedStatus sv) s is) = join_view s"
    "readConnection (foldl (\<lambda>sv i. update_object i connectedStatus sv) s is) = readConnection s" for s "is"
    by (rule foldl_frame, simp add: update_object_frame)+
  moreover have "onReadConnected visible now sv =
      foldl (\<lambda>sv i. update_object i connectedStatus sv) sv' (activeChannels sv)"
    unfolding onReadConnected_def sv'_def names_def Let_def ..
  ultimately show ?thesis by (metis join_inv_frame)
qed

lemma distinct_names: "ordered xs \<Longrightarrow> (n, i) \<in> set xs \<longleftrightarrow> map_of xs n = Some i"
  by (simp add: strict_sorted_iff map_of_eq_Some_iff)

lemma getOrAddChannel_inv:
  assumes inv: "join_inv sv" and proper: "cleanChannelName toLower (cleanChannelName toLower dirty) = cleanChannelName toLower dirty"
  shows "join_inv (fst (getOrAddChannel toLower now dirty sv))"
proof (cases "getChannelOrEmpty toLower (cleanChannelName toLower dirty) sv = EmptyChannel")
  case True
  define name where "name = cleanChannelName toLower dirty"
  define sv' where "sv' = sv\<lparr>ts_next := ts_next sv + 1, ts_objects := (ts_objects sv)(ts_next sv \<mapsto> new_TwitchChannel name),
      ts_channels := omap_insert name (ts_next sv) (ts_channels sv)\<rparr>"
  have n: "names_ok sv" using inv by (simp add: join_inv_def)
  then have ord: "ordered (ts_channels sv)"
    and iff: "\<And>n i. map_of (ts_channels sv) n = Some i \<longleftrightarrow> object_names sv i = Some n"
    and fresh: "\<forall>i\<ge>ts_next sv. object_names sv i = None"
    using distinct_names [of "ts_channels sv", symmetric] by (simp_all add: names_ok_def)
  have none: "map_of (ts_channels sv) name = None"
  proof (rule ccontr)
    assume "map_of (ts_channels sv) name \<noteq> None"
    then obtain i where i: "map_of (ts_channels sv) name = Some i" by blast
    then have "ts_objects sv i \<noteq> None" using iff by (auto simp: object_names_def)
    moreover have "getCustomChannel name = None \<or> getCustomChannel name = Some (SpecialChannel name)"
      by (simp add: getCustomChannel_def)
    moreover have "cleanChannelName toLower name = name" using proper by (simp add: name_def)
    ultimately have "getChannelOrEmpty toLower name sv \<noteq> EmptyChannel"
      using i by (auto simp: getChannelOrEmpty_def Let_def)
    then show False using True by (simp add: name_def)
  qed
  have objs: "object_names sv' = (object_names sv)(ts_next sv \<mapsto> name)"
    by (auto simp: sv'_def object_names_def new_TwitchChannel_def)
  have chans: "ordered (ts_channels sv')" "map_of (ts_channels sv') = (map_of (ts_channels sv))(name \<mapsto> ts_next sv)"
    using ordered_insert [OF ord] by (simp_all add: sv'_def)
  have "map_of (ts_channels sv') m = Some i \<longleftrightarrow> object_names sv' i = Some m" for m i
    using iff [of m i] iff [of name i] fresh none unfolding chans(2) objs by (auto simp: fun_upd_apply)
  moreover have "\<forall>i\<ge>ts_next sv'. object_names sv' i = None" using fresh unfolding objs by (simp add: sv'_def)
  ultimately have names: "names_ok sv'" using chans(1) distinct_names [OF chans(1)] by (simp add: names_ok_def)
  have chnames: "channel_names sv' = insert name (channel_names sv)"
    using keys_omap_insert by (simp add: channel_names_def sv'_def)
  have same: "joinBucket sv' = joinBucket sv" "readLines sv' = readLines sv" "readConnection sv' = readConnection sv"
    by (simp_all add: sv'_def)
  have add: "fst (getOrAddChannel toLower now dirty sv) =
      (if ic_socket (readConnection sv') = SocketConnected then join_send now name sv' else sv')"
    using True unfolding getOrAddChannel_def Let_def name_def sv'_def by simp
  have bucket: "bucket_ok (joinBucket sv')" using inv same by (simp add: join_inv_def)
  show ?thesis
  proof (cases "ic_socket (readConnection sv') = SocketConnected")
    case conn: True
    note steps = join_send_steps [OF names bucket, where now = now and name = name]
    have "\<forall>m\<in>channel_names sv'. waiting_or_joined sv' m \<or> m = name"
      using inv conn chnames same by (auto simp: join_inv_def all_joined_def waiting_or_joined_def)
    then have "all_joined (join_send now name sv')" using steps(3) steps(4) [OF conn] by (simp add: all_joined_def)
    then have "join_inv (join_send now name sv')" using steps(1,2) by (simp add: join_inv_def)
    then show ?thesis using conn add by simp
  next
    case False
    then have "join_inv sv'" using names bucket by (simp add: join_inv_def)
    then show ?thesis using False add by simp
  qed
qed (use inv in \<open>simp add: getOrAddChannel_def Let_def\<close>)

lemma channelDestroyed_inv:
  assumes "join_inv sv"
  shows "join_inv (channelDestroyed i sv)"
proof (cases "ts_objects sv i")
  case (Some tc)
  define sv' where "sv' = sv\<lparr>ts_objects := (ts_objects sv)(i := None), ts_channels := omap_remove (tc_name tc) (ts_channels sv)\<rparr>"
  have n: "names_ok sv" using assms by (simp add: join_inv_def)
  then have ord: "ordered (ts_channels sv)"
    and iff: "\<And>n i. (n, i) \<in> set (ts_channels sv) \<longleftrightarrow> object_names sv i = Some n"
    and fresh: "\<forall>i\<ge>ts_next sv. object_names sv i = None" by (simp_all add: names_ok_def)
  have objs: "object_names sv' = (object_names sv)(i := None)" by (auto simp: sv'_def object_names_def)
  have i: "object_names sv i = Some (tc_name tc)" using Some by (simp add: object_names_def)
  have unique: "j = i" if "object_names sv j = Some (tc_name tc)" for j
    using that i iff distinct_names [OF ord] by (metis option.inject)
  have "(m, j) \<in> set (ts_channels sv') \<longleftrightarrow> object_names sv' j = Some m" for m j
  proof (cases "j = i")
    case True
    then show ?thesis using iff [of m i] i fun_cong [OF objs, of i] by (auto simp: sv'_def omap_remove_def)
  next
    case False
    then have "object_names sv j \<noteq> Some (tc_name tc)" using unique by blast
    then show ?thesis using iff [of m j] False fun_cong [OF objs, of j] by (auto simp: sv'_def omap_remove_def)
  qed
  then have names: "names_ok sv'"
    using fresh ordered_remove [OF ord] unfolding names_ok_def objs by (simp add: sv'_def)
  have chnames: "channel_names sv' = channel_names sv - {tc_name tc}"
    by (auto simp: channel_names_def sv'_def omap_remove_def)
  have "channelDestroyed i sv = sendRaw (part_line (tc_name tc)) sv'" using Some by (simp add: channelDestroyed_def sv'_def)
  moreover have "join_inv (sendRaw (part_line (tc_name tc)) sv')"
  proof (cases "ic_socket (readConnection sv') = SocketConnected")
    case True
    then have "all_joined sv" using assms by (simp add: join_inv_def sv'_def)
    define sv'' where "sv'' = sv'\<lparr>readLines := readLines sv' @ [part_line (tc_name tc)]\<rparr>"
    have same: "joinBucket sv'' = joinBucket sv" "readLines sv'' = readLines sv @ [part_line (tc_name tc)]"
      "channel_names sv'' = channel_names sv'" "names_ok sv''"
      using names by (simp_all add: sv''_def channel_names_def names_ok_def object_names_def) (simp_all add: sv'_def)
    have "waiting_or_joined sv'' m" if "m \<in> channel_names sv'" for m
    proof -
      have "m \<noteq> tc_name tc" "waiting_or_joined sv m" using that chnames \<open>all_joined sv\<close> by (auto simp: all_joined_def)
      then show ?thesis by (simp add: waiting_or_joined_def same joined_in_append)
    qed
    then have "join_inv sv''" using same assms by (simp add: join_inv_def all_joined_def)
    then show ?thesis using True by (simp add: sendRaw_def sv''_def)
  next
    case False
    then show ?thesis using names assms by (simp add: join_inv_def sendRaw_def sv'_def)
  qed
  ultimately show ?thesis by simp
qed (use assms in \<open>simp add: channelDestroyed_def\<close>)

lemma sendPing_inv: "join_inv sv \<Longrightarrow> join_inv (sendRaw (''PING '' @ p) sv)"
  by (simp add: join_inv_def sendRaw_def names_ok_def object_names_def all_joined_def channel_names_def
    waiting_or_joined_def joined_in_append)

lemma readSignal_inv: "join_inv sv \<Longrightarrow> join_inv (readSignal now sv sig)"
proof (cases sig)
  case (ConnectionLost t)
  assume "join_inv sv"
  then have i: "join_inv (if t then addGlobalSystemMessage ''Server connection timed out, reconnecting'' sv else sv)"
    using join_inv_frame [OF global_frame(3) _ \<open>join_inv sv\<close>] by (simp add: global_frame)
  show ?thesis using ConnectionLost by (intro join_inv_frame [OF _ _ i]) (simp_all add: readSignal_def Let_def)
next
  case Heartbeat
  assume "join_inv sv"
  then show ?thesis using Heartbeat by (intro join_inv_frame [OF _ _ \<open>join_inv sv\<close>]) (simp_all add: readSignal_def global_frame)
next
  case SocketDisconnected
  assume "join_inv sv"
  then show ?thesis using SocketDisconnected
    by (intro join_inv_frame [OF _ _ \<open>join_inv sv\<close>]) (simp_all add: readSignal_def global_frame)
next
  case (Ping p)
  assume "join_inv sv"
  then show ?thesis using Ping sendPing_inv [of sv p] by (simp add: readSignal_def)
qed

lemma readResult_inv:
  assumes "join_inv sv" "ic_socket (fst r) = SocketConnected \<longrightarrow> ic_socket (readConnection sv) = SocketConnected"
  shows "join_inv (readResult now sv r)"
proof -
  have "join_inv sv \<Longrightarrow> join_inv (foldl (readSignal now) sv sigs)" for sv sigs
    by (induction sigs arbitrary: sv) (simp_all add: readSignal_inv)
  moreover have "join_inv (sv\<lparr>readConnection := fst r\<rparr>)"
    using join_inv_frame [OF _ _ assms(1), of "sv\<lparr>readConnection := fst r\<rparr>"] assms(2) by simp
  ultimately show ?thesis by (simp add: readResult_def)
qed

lemma connection_sockets:
  "ic_socket (fst (ic_close c)) = SocketUnconnected" "ic_socket (fst (socket_unconnected c)) = SocketUnconnected"
  "ic_socket (ic_open c) = SocketConnected \<longleftrightarrow> ic_socket c = SocketConnected"
  "ic_socket (reconnectTimeout c) = SocketConnected \<longrightarrow> ic_socket c = SocketConnected"
  "ic_socket (fst (pingTimeout p t c)) = SocketConnected \<longrightarrow> ic_socket c = SocketConnected"
  by (auto simp: ic_close_def socket_unconnected_def ic_open_def reconnectTimeout_def pingTimeout_def Let_def split: if_splits)

lemma server_connect_inv:
  assumes "join_inv sv"
  shows "join_inv (server_connect now sv)"
proof -
  define sv1 where "sv1 = readResult now sv (ic_close (readConnection sv))"
  have i1: "join_inv sv1" unfolding sv1_def by (rule readResult_inv [OF assms]) (simp add: connection_sockets(1-3))
  define sv2 where "sv2 = writeResult sv1 (ic_close (writeConnection sv1))"
  have i2: "join_inv sv2" unfolding sv2_def by (rule join_inv_frame [OF _ _ i1]) (simp_all add: writeResult_connections)
  have "server_connect now sv = (sv2\<lparr>writeConnection := ic_open (writeConnection sv2)\<rparr>)
      \<lparr>readConnection := ic_open (readConnection sv2)\<rparr>"
    by (simp add: server_connect_def server_disconnect_def sv1_def [symmetric] sv2_def [symmetric] Let_def)
  then show ?thesis by (intro join_inv_frame [OF _ _ i2]) (simp_all add: connection_sockets(1-3))
qed

lemma readMessage_inv:
  assumes "join_inv sv"
  shows "join_inv (readMessage l st u now msg sv)"
proof (cases msg)
  case ReconnectMessage
  let ?sv = "markChannelsConnected now
    (addGlobalSystemMessage ''Twitch Servers requested us to reconnect, reconnecting'' sv)"
  have "join_inv ?sv" by (rule join_inv_frame [OF _ _ assms]) (simp_all add: global_frame)
  then show ?thesis using server_connect_inv ReconnectMessage by (simp add: readMessage_def)
next
  case (JoinMessage nick parameter)
  then show ?thesis
    by (intro join_inv_frame [OF _ _ assms]) (simp_all add: readMessage_def update_object_frame split: channel_ref.split)
next
  case (RoomState name roomId)
  then show ?thesis
    by (intro join_inv_frame [OF _ _ assms]) (simp_all add: readMessage_def update_object_frame split: channel_ref.split)
next
  case (OtherMessage command)
  then show ?thesis using assms by (simp add: readMessage_def)
qed

text \<open>Names are proper: what is left of a name is found again under itself.\<close>

fun proper_event :: "server_env \<Rightarrow> server_event \<Rightarrow> bool" where
  "proper_event e (AddChannel name now) =
     (cleanChannelName (env_lower e) (cleanChannelName (env_lower e) name) = cleanChannelName (env_lower e) name)"
| "proper_event e ev = True"

lemma server_step_join_inv:
  assumes inv: "join_inv sv" and proper: "proper_event e ev"
  shows "join_inv (server_step e ev sv)"
proof (cases ev)
  case (Connect now)
  then show ?thesis using server_connect_inv [OF inv] by simp
next
  case (ReadUp visible now)
  let ?sv = "sv\<lparr>readConnection := ic_connected (readConnection sv), readLines := []\<rparr>"
  have "names_ok ?sv" "bucket_ok (joinBucket ?sv)" "ic_socket (readConnection ?sv) = SocketConnected"
    using inv by (simp_all add: join_inv_def names_ok_def object_names_def ic_connected_def)
  then have "join_inv (onReadConnected visible now ?sv)" by (rule onReadConnected_inv)
  then show ?thesis using inv ReadUp by simp
next
  case (ReadDown now)
  then show ?thesis using inv readResult_inv [OF inv] by (simp add: connection_sockets(1-3))
next
  case (ReadPing now)
  then show ?thesis using inv readResult_inv [OF inv] connection_sockets(5) by simp
next
  case ReadReconnect
  have "join_inv (sv\<lparr>readConnection := reconnectTimeout (readConnection sv)\<rparr>)"
    using join_inv_frame [OF _ _ inv, of "sv\<lparr>readConnection := reconnectTimeout (readConnection sv)\<rparr>"]
      connection_sockets(4) [of "readConnection sv"] by simp
  then show ?thesis using inv ReadReconnect by simp
next
  case (ReadMessage msg now)
  have "join_inv (sv\<lparr>readConnection := ic_messageReceived (command_of msg) (readConnection sv)\<rparr>)"
    by (rule join_inv_frame [OF _ _ inv]) simp_all
  then show ?thesis using inv readMessage_inv ReadMessage by simp
next
  case (WriteReconnectMessage now)
  let ?sv = "addGlobalSystemMessage ''Twitch Servers requested us to reconnect, reconnecting''
    (sv\<lparr>writeConnection := ic_messageReceived ''RECONNECT'' (writeConnection sv)\<rparr>)"
  have "join_inv ?sv" by (rule join_inv_frame [OF _ _ inv]) (simp_all add: global_frame)
  then show ?thesis using server_connect_inv WriteReconnectMessage by (simp add: writeReconnectMessage_def)
next
  case (AddChannel name now)
  then show ?thesis using getOrAddChannel_inv [OF inv] proper by simp
next
  case (DestroyChannel i)
  then show ?thesis using channelDestroyed_inv [OF inv] by simp
next
  case (JoinTimeout due now)
  show ?thesis
  proof (cases "due \<in> set (rb_timers (joinBucket sv))")
    case True
    obtain new where "moves (joinBucket sv) {} (rb_timeout now due (joinBucket sv)) new"
      using rb_timeout_moves [of "joinBucket sv" now due] by fastforce
    then have "join_inv (join_timeout now due sv)" unfolding join_timeout_def
      using set_bucket_inv rb_timeout_ok inv True by (metis join_inv_def)
    then show ?thesis using JoinTimeout True by simp
  qed (use inv JoinTimeout in simp)
next
  case (HistoryDone i)
  then show ?thesis using inv by (auto intro!: join_inv_frame [OF _ _ inv] simp: update_object_frame)
qed (use inv in \<open>auto intro!: join_inv_frame [OF _ _ inv] simp: writeResult_connections\<close>)

lemma server_run_join_inv:
  "join_inv sv \<Longrightarrow> list_all (proper_event e) es \<Longrightarrow> join_inv (foldl (\<lambda>sv ev. server_step e ev sv) sv es)"
  by (induction es arbitrary: sv) (simp_all add: server_step_join_inv)

lemma init_join_inv: "join_inv (TwitchIrcServer now)"
  by (simp add: join_inv_def names_ok_def object_names_def bucket_ok_def TwitchIrcServer_def IrcConnection_def
    RatelimitBucket_def)

text \<open>
  C20. While the read connection is up, every channel is joined on it, or waits in the bucket, whose timers then run;
  after any connects, losses, timeouts and whatever channels are added and destroyed.\<close>

theorem channels_are_joined:
  assumes "list_all (proper_event e) es"
    and "ic_socket (readConnection (server_run e es now)) = SocketConnected"
    and "(n, i) \<in> set (ts_channels (server_run e es now))"
  shows "joined_in (readLines (server_run e es now)) n \<or>
    n \<in> set (rb_queue (joinBucket (server_run e es now))) \<and> rb_timers (joinBucket (server_run e es now)) \<noteq> []"
proof -
  let ?sv = "server_run e es now"
  have inv: "join_inv ?sv" unfolding server_run_def by (rule server_run_join_inv [OF init_join_inv assms(1)])
  then have "waiting_or_joined ?sv n"
    using assms(2,3) by (force simp: join_inv_def all_joined_def channel_names_def)
  moreover have "rb_queue (joinBucket ?sv) \<noteq> [] \<Longrightarrow> rb_timers (joinBucket ?sv) \<noteq> []"
    using inv by (auto simp: join_inv_def bucket_ok_def)
  ultimately show ?thesis unfolding waiting_or_joined_def by (metis empty_iff empty_set)
qed

lemmas server_eval = server_run_def TwitchIrcServer_def IrcConnection_def RatelimitBucket_def server_connect_def
  server_disconnect_def readResult_def writeResult_def ic_close_def ic_open_def ic_connected_def getOrAddChannel_def
  getChannelOrEmpty_def cleanChannelName_def getCustomChannel_def new_TwitchChannel_def onReadConnected_def
  activeChannels_def channel_name_def join_send_def set_bucket_def rb_send_def handleOne_def actuallyJoin_def
  sendRaw_def update_object_def connectedStatus_def tc_add_def Let_def

definition sample_env :: server_env where
  "sample_env = \<lparr>env_lower = (\<lambda>s. s),
     env_history = \<lparr>loadTwitchMessageHistoryOnConnect = True, twitchMessageHistoryLimit = 800\<rparr>,
     env_user = ''me'', env_payload = ''chatterino/1''\<rparr>"

theorem channels_are_joined_witness:
  "readLines (server_run sample_env [Connect 0, AddChannel ''#a'' 1, ReadUp [] 2, AddChannel ''b'' 3] 0) =
     [''JOIN #a'', ''JOIN #b''] \<and>
   (joined_in [''JOIN #a'', ''JOIN #b''] ''b'' \<or>
    ''b'' \<in> set (rb_queue (joinBucket (server_run sample_env [Connect 0, AddChannel ''#a'' 1, ReadUp [] 2, AddChannel ''b'' 3] 0))) \<and>
    rb_timers (joinBucket (server_run sample_env [Connect 0, AddChannel ''#a'' 1, ReadUp [] 2, AddChannel ''b'' 3] 0)) \<noteq> [])"
proof -
  let ?es = "[Connect 0, AddChannel ''#a'' 1, ReadUp [] 2, AddChannel ''b'' 3]"
  have lines: "readLines (server_run sample_env ?es 0) = [''JOIN #a'', ''JOIN #b'']"
    and up: "ic_socket (readConnection (server_run sample_env ?es 0)) = SocketConnected"
    and b: "(''b'', 1) \<in> set (ts_channels (server_run sample_env ?es 0))"
    by (simp_all add: server_eval sample_env_def join_line_def)
  have "list_all (proper_event sample_env) ?es" by (simp add: sample_env_def cleanChannelName_def)
  from channels_are_joined [OF this up b] show ?thesis unfolding lines by simp
qed

text \<open>A name with two signs is cleaned once for the map and twice for the lookup: its channel is never found, and
  made again each time.\<close>

lemma double_sign_never_found:
  "ts_channels (server_run sample_env [AddChannel ''##a'' 0, AddChannel ''##a'' 1] 0) = [(''#a'', 1)] \<and>
   ts_next (server_run sample_env [AddChannel ''##a'' 0, AddChannel ''##a'' 1] 0) = 2 \<and>
   getChannelOrEmpty (env_lower sample_env) ''#a'' (server_run sample_env [AddChannel ''##a'' 0] 0) = EmptyChannel"
  by (simp add: server_eval sample_env_def)

end
