(* ===== verification/MessageLayout.thy ===== *)
theory MessageLayout
  imports Messages TwitchTags StringHelpers "HOL-Library.Multiset"
begin

text \<open>
  Laying a message out: \<open>messages/layouts/MessageLayoutContainer.cpp\<close>, the elements of
  \<open>messages/layouts/MessageLayoutElement.cpp\<close>, and how \<open>TextElement\<close> of \<open>messages/MessageElement.cpp\<close> wraps its
  words.  Painting is left out.  Positions are \<open>int\<close>; the products with the floating-point scale, the metrics of
  the font and the direction of a text are parameters.
\<close>

section \<open>Elements\<close>

text \<open>The single bits of the flags of an element; a set of flags is the union of its bits.\<close>

datatype MessageElementFlag =
    EF_Misc | EF_Text | EF_Username | EF_Timestamp | EF_TwitchEmoteImage | EF_TwitchEmoteText
  | EF_BttvEmoteImage | EF_BttvEmoteText | EF_ChannelPointReward | EF_FfzEmoteImage | EF_FfzEmoteText
  | EF_SevenTVEmoteImage | EF_SevenTVEmoteText | EF_BadgeSharedChannel | EF_BadgeGlobalAuthority
  | EF_BadgePredictions | EF_BadgeChannelAuthority | EF_BadgeSubscription | EF_BadgeVanity
  | EF_BadgeChatterino | EF_BadgeSevenTV | EF_BadgeFfz | EF_ChannelName | EF_ModeratorTools
  | EF_Collapsed | EF_Mention | EF_RepliedMessage | EF_Other nat

type_synonym element_flags = "MessageElementFlag list"

definition ef_has :: "element_flags \<Rightarrow> element_flags \<Rightarrow> bool" where
  "ef_has fs gs = list_ex (\<lambda>f. f \<in> set gs) fs"

definition EmoteImages :: element_flags where
  "EmoteImages = [EF_TwitchEmoteImage, EF_BttvEmoteImage, EF_FfzEmoteImage, EF_SevenTVEmoteImage]"

definition BadgesFlags :: element_flags where
  "BadgesFlags = [EF_BadgeGlobalAuthority, EF_BadgePredictions, EF_BadgeChannelAuthority, EF_BadgeSubscription,
     EF_BadgeVanity, EF_BadgeChatterino, EF_BadgeSevenTV, EF_BadgeFfz, EF_BadgeSharedChannel]"

text \<open>The classes of elements: texts, images (of an emote, with its copy string), layered emotes, text icons and
  the curve of replies.\<close>

datatype element_kind = TextKind | ImageKind "qstring option" | LayeredKind "qstring option" | IconKind | ReplyCurveKind

record layout_element =
  el_kind :: element_kind
  el_flags :: element_flags
  el_text :: qstring
  el_x :: int
  el_y :: int
  el_width :: int
  el_height :: int
  trailingSpace :: bool
  el_line :: nat
  wordId :: int
  reversedNeutral :: bool

definition el_right :: "layout_element \<Rightarrow> int" where
  "el_right e = el_x e + el_width e - 1"

definition getSelectionIndexCount :: "layout_element \<Rightarrow> nat" where
  "getSelectionIndexCount e =
     (case el_kind e of
        TextKind \<Rightarrow> length (el_text e) + (if trailingSpace e then 1 else 0)
      | ReplyCurveKind \<Rightarrow> 1
      | _ \<Rightarrow> if trailingSpace e then 2 else 1)"

definition bslash :: qstring where
  "bslash = [0x5C]"

definition emoteNameReplacements :: "(qstring \<times> qstring) list" where
  "emoteNameReplacements =
    [(qs ''[oO](_|'' @ bslash @ qs ''.)[oO]'', qs ''O_o''),
     (bslash @ qs ''&gt'' @ bslash @ qs '';'' @ bslash @ qs ''('', qs ''>(''),
     (bslash @ qs ''&lt'' @ bslash @ qs '';3'', qs ''<3''),
     (bslash @ qs '':-?(o|O)'', qs '':O''), (bslash @ qs '':-?(p|P)'', qs '':P''),
     (bslash @ qs '':-?['' @ bslash @ bslash @ qs ''/]'', qs '':/''),
     (bslash @ qs '':-?[z|Z|'' @ bslash @ qs ''|]'', qs '':Z''),
     (bslash @ qs '':-?'' @ bslash @ qs ''('', qs '':(''), (bslash @ qs '':-?'' @ bslash @ qs '')'', qs '':)''),
     (bslash @ qs '':-?D'', qs '':D''), (bslash @ qs '';-?(p|P)'', qs '';P''),
     (bslash @ qs '';-?'' @ bslash @ qs '')'', qs '';)''), (qs ''R-?'' @ bslash @ qs '')'', qs ''R)''),
     (qs ''B-?'' @ bslash @ qs '')'', qs ''B)'')]"

definition cleanUpEmoteCode :: "qstring \<Rightarrow> qstring" where
  "cleanUpEmoteCode code = (case map_of emoteNameReplacements code of None \<Rightarrow> code | Some c \<Rightarrow> c)"

text \<open>The images of emotes clean the whole text that was copied so far.\<close>

definition addCopyTextToString :: "layout_element \<Rightarrow> qstring \<Rightarrow> nat \<Rightarrow> nat \<Rightarrow> qstring" where
  "addCopyTextToString e str a b =
     (case el_kind e of
        TextKind \<Rightarrow>
          str @ take (b - a) (drop a (el_text e)) @ (if trailingSpace e \<and> length (el_text e) < b then [0x20] else [])
      | ImageKind (Some copy) \<Rightarrow> cleanUpEmoteCode (str @ copy) @ (if trailingSpace e \<and> 2 \<le> b then [0x20] else [])
      | LayeredKind (Some copy) \<Rightarrow> str @ copy @ (if trailingSpace e \<and> 2 \<le> b then [0x20] else [])
      | _ \<Rightarrow> str)"

section \<open>The container\<close>

datatype TextDirection = Neutral | RTL | LTR

record layout_line =
  startIndex :: nat
  endIndex :: nat
  startCharIndex :: nat
  endCharIndex :: nat
  rect_top :: int
  rect_height :: int

text \<open>The products with the scale, rounded to \<open>int\<close>; the direction and letters of texts; and the font.\<close>

record layout_api =
  scaled :: "int \<Rightarrow> int"
  minusScaled :: "int \<Rightarrow> int \<Rightarrow> int"
  isRightToLeft :: "qstring \<Rightarrow> bool"
  hasLetter :: "qstring \<Rightarrow> bool"
  horizontalAdvance :: "qstring \<Rightarrow> int"
  fontHeight :: int

record layout_settings =
  collpseMessagesMinLines :: int
  removeSpacesBetweenEmotes :: bool

record layout_container =
  mc_width :: int
  mc_flags :: flag_set
  mc_line :: nat
  mc_height :: int
  currentX :: int
  currentY :: int
  charIndex :: nat
  lineStart :: nat
  lineHeight :: int
  spaceWidth :: int
  textLineHeight :: int
  dotdotdotWidth :: int
  currentWordId :: int
  canAddMessages :: bool
  mc_isCollapsed :: bool
  lineContainsRTL :: bool
  anyReorderingDone :: bool
  textDirection :: TextDirection
  mc_elements :: "layout_element list"
  mc_lines :: "layout_line list"

definition beginLayout :: "layout_api \<Rightarrow> int \<Rightarrow> flag_set \<Rightarrow> layout_container \<Rightarrow> layout_container" where
  "beginLayout api width mflags c =
     c\<lparr>mc_elements := [], mc_lines := [], mc_line := 0, currentX := 0, currentY := 0, lineStart := 0,
       lineHeight := 0, charIndex := 0, mc_width := width, mc_height := 0, mc_flags := mflags,
       textLineHeight := fontHeight api, spaceWidth := horizontalAdvance api (qs '' ''),
       dotdotdotWidth := horizontalAdvance api (qs ''...''), currentWordId := 0, canAddMessages := True,
       mc_isCollapsed := False, lineContainsRTL := False, anyReorderingDone := False\<rparr>"

definition canCollapse :: "layout_settings \<Rightarrow> layout_container \<Rightarrow> bool" where
  "canCollapse st c = (collpseMessagesMinLines st > 0 \<and> has (mc_flags c) Collapsed)"

definition atStartOfLine :: "layout_container \<Rightarrow> bool" where
  "atStartOfLine c = (lineStart c = length (mc_elements c))"

definition remainingWidth :: "layout_api \<Rightarrow> layout_settings \<Rightarrow> layout_container \<Rightarrow> int" where
  "remainingWidth api st c =
     (mc_width c - scaled api 8 - scaled api 8 -
       (if int (mc_line c + 1) = collpseMessagesMinLines st then dotdotdotWidth c else 0)) - currentX c"

definition fitsInLine :: "layout_api \<Rightarrow> layout_settings \<Rightarrow> int \<Rightarrow> layout_container \<Rightarrow> bool" where
  "fitsInLine api st width c = (width \<le> remainingWidth api st c)"

definition nextWordId :: "layout_container \<Rightarrow> layout_container \<times> int" where
  "nextWordId c = (c\<lparr>currentWordId := currentWordId c + 1\<rparr>, currentWordId c)"

text \<open>\<open>addElement\<close> with \<open>prevIndex\<close> -2 adds an element; else one that is there is placed again, next to the
  element at \<open>prevIndex\<close>, or first (-1).\<close>

datatype add_mode = Adding | Placing "nat option"

definition shouldRemoveSpaceBetweenEmotes :: "add_mode \<Rightarrow> layout_container \<Rightarrow> bool" where
  "shouldRemoveSpaceBetweenEmotes mode c =
     (if mode = Placing None \<or> mc_elements c = [] then False
      else
        let lastElement = (case mode of Placing (Some i) \<Rightarrow> mc_elements c ! i | _ \<Rightarrow> last (mc_elements c)) in
        if \<not> trailingSpace lastElement then False
        else if el_line lastElement \<noteq> mc_line c then False
        else ef_has (el_flags lastElement) EmoteImages)"

definition isCompactEmote :: "layout_element \<Rightarrow> layout_container \<Rightarrow> bool" where
  "isCompactEmote e c = (\<not> has (mc_flags c) DisableCompactEmotes \<and> ef_has (el_flags e) EmoteImages)"

text \<open>The steps of placing an element: what it says of the direction of the line, the height of the line, the space
after an emote that is taken back, and the position.\<close>

definition noteDirection :: "layout_api \<Rightarrow> add_mode \<Rightarrow> layout_element \<Rightarrow> layout_container \<Rightarrow> layout_container" where
  "noteDirection api mode e c =
     (let isRTLElement = isRightToLeft api (el_text e);
          c = c\<lparr>lineContainsRTL := lineContainsRTL c \<or> isRTLElement\<rparr>
      in if mode = Adding \<and> textDirection c = Neutral \<and> ef_has (el_flags e) [EF_Text] \<and>
            \<not> ef_has (el_flags e) [EF_RepliedMessage]
         then if isRTLElement then c\<lparr>textDirection := RTL\<rparr>
              else if hasLetter api (el_text e) then c\<lparr>textDirection := LTR\<rparr> else c
         else c)"

definition raiseLine :: "layout_api \<Rightarrow> layout_element \<Rightarrow> layout_container \<Rightarrow> layout_container" where
  "raiseLine api e c =
     (let c = c\<lparr>currentY := (if mc_elements c = [] then scaled api 4 else currentY c)\<rparr>
      in c\<lparr>lineHeight := max (lineHeight c)
             (if isCompactEmote e c then minusScaled api (el_height e) 4 else el_height e)\<rparr>)"

definition joinEmotes ::
  "layout_settings \<Rightarrow> add_mode \<Rightarrow> bool \<Rightarrow> layout_element \<Rightarrow> layout_container \<Rightarrow> layout_container" where
  "joinEmotes st mode isRTLAdjusting e c =
     (if removeSpacesBetweenEmotes st \<and> ef_has (el_flags e) EmoteImages \<and> shouldRemoveSpaceBetweenEmotes mode c
      then c\<lparr>currentX := (if isRTLAdjusting then currentX c + spaceWidth c else currentX c - spaceWidth c)\<rparr>
      else c)"

definition placeElement ::
  "layout_api \<Rightarrow> layout_settings \<Rightarrow> add_mode \<Rightarrow> layout_element \<Rightarrow> layout_container \<Rightarrow> layout_container \<times> layout_element" where
  "placeElement api st mode e c =
     (let isRTLAdjusting = (textDirection c = RTL \<and> mode \<noteq> Adding);
          c = joinEmotes st mode isRTLAdjusting e (raiseLine api e (noteDirection api mode e c));
          yOffset = (if ef_has (el_flags e) [EF_ChannelPointReward] \<and> \<not> ef_has (el_flags e) [EF_TwitchEmoteImage]
            then minusScaled api 0 4 else 0);
          xOffset = (if isRTLAdjusting then - el_width e else 0);
          e = e\<lparr>el_x := currentX c + xOffset, el_y := currentY c - el_height e + yOffset, el_line := mc_line c\<rparr>;
          advance = el_width e + (if trailingSpace e then spaceWidth c else 0)
      in (c\<lparr>currentX := (if isRTLAdjusting then currentX c - advance else currentX c + advance)\<rparr>, e))"

definition addElement_at ::
  "layout_api \<Rightarrow> layout_settings \<Rightarrow> bool \<Rightarrow> layout_element \<Rightarrow> layout_container \<Rightarrow> layout_container" where
  "addElement_at api st forceAdd e c =
     (if \<not> canAddMessages c \<and> \<not> forceAdd then c
      else let (c, e) = placeElement api st Adding e c in c\<lparr>mc_elements := mc_elements c @ [e]\<rparr>)"

definition repositionElement ::
  "layout_api \<Rightarrow> layout_settings \<Rightarrow> nat option \<Rightarrow> nat \<Rightarrow> layout_container \<Rightarrow> layout_container" where
  "repositionElement api st prev i c =
     (if \<not> canAddMessages c then c
      else let (c, e) = placeElement api st (Placing prev) (mc_elements c ! i) c
           in c\<lparr>mc_elements := (mc_elements c)[i := e]\<rparr>)"

text \<open>The loop of \<open>reorderRTL\<close>: \<open>swapped\<close> holds the sequence in the opposite direction, newest first.\<close>

fun reorderLoop ::
  "layout_api \<Rightarrow> TextDirection \<Rightarrow> nat list \<Rightarrow> layout_element list \<Rightarrow> bool \<Rightarrow> nat list \<Rightarrow> nat list \<Rightarrow>
    layout_element list \<times> nat list" where
  "reorderLoop api dir [] es isReversing swapped correct = (es, correct @ swapped)"
| "reorderLoop api dir (i # is) es isReversing swapped correct =
     (let e = es ! i;
          neutral = (\<not> hasLetter api (el_text e));
          neutralOrUsername = (neutral \<or> ef_has (el_flags e) [EF_Mention]);
          es = (if neutral \<and> (dir = RTL \<and> \<not> isReversing \<or> dir = LTR \<and> isReversing)
                then es[i := e\<lparr>reversedNeutral := True\<rparr>] else es)
      in if (isRightToLeft api (el_text e) \<noteq> (dir = RTL) \<and> \<not> neutralOrUsername) \<or> (neutralOrUsername \<and> isReversing)
         then reorderLoop api dir is es True (i # swapped) correct
         else reorderLoop api dir is es False [] (correct @ swapped @ [i]))"

fun placeLoop :: "layout_api \<Rightarrow> layout_settings \<Rightarrow> nat option \<Rightarrow> nat list \<Rightarrow> layout_container \<Rightarrow> layout_container" where
  "placeLoop api st prev [] c = c"
| "placeLoop api st prev (i # is) c = placeLoop api st (Some i) is (repositionElement api st prev i c)"

definition reorderRTL :: "layout_api \<Rightarrow> layout_settings \<Rightarrow> nat \<Rightarrow> layout_container \<Rightarrow> layout_container" where
  "reorderRTL api st firstTextIndex c =
     (if mc_elements c = [] then c
      else
        let start = lineStart c; last = length (mc_elements c) - 1 in
        if firstTextIndex \<ge> last \<or> start \<ge> length (mc_elements c) then c
        else
          let start = max start firstTextIndex;
              (es, correctSequence) = reorderLoop api (textDirection c) [start..<last + 1] (mc_elements c) False [] [];
              c = c\<lparr>mc_elements := es\<rparr>;
              c = c\<lparr>currentX := (if textDirection c = RTL then el_right (es ! last) else el_x (es ! start))\<rparr>
          in placeLoop api st None correctSequence c)"

text \<open>\<open>breakLine\<close>: the elements since the last break become a line.\<close>

fun firstUsername :: "layout_element list \<Rightarrow> nat \<Rightarrow> nat option" where
  "firstUsername [] i = None"
| "firstUsername (e # es) i = (if ef_has (el_flags e) [EF_Username] then Some i else firstUsername es (Suc i))"

definition reorderAfterUsername :: "layout_api \<Rightarrow> layout_settings \<Rightarrow> layout_container \<Rightarrow> layout_container" where
  "reorderAfterUsername api st c =
     (if lineContainsRTL c \<or> textDirection c = RTL then
        (case firstUsername (mc_elements c) 0 of
           None \<Rightarrow> c
         | Some i \<Rightarrow> reorderRTL api st (i + 1) c)\<lparr>lineContainsRTL := False, anyReorderingDone := True\<rparr>
      else c)"

definition finishLine :: "nat \<Rightarrow> nat \<Rightarrow> layout_line list \<Rightarrow> layout_line list" where
  "finishLine i ci ls = (if ls = [] then [] else butlast ls @ [(last ls)\<lparr>endIndex := i, endCharIndex := ci\<rparr>])"

definition centerOffset :: "layout_api \<Rightarrow> layout_container \<Rightarrow> int" where
  "centerOffset api c =
     (if has (mc_flags c) Centered \<and> mc_elements c \<noteq> [] then
        cpp_div (mc_width c - (scaled api 8 + scaled api 8) - el_right (last (mc_elements c))) 2
      else 0)"

definition moveElement :: "layout_api \<Rightarrow> int \<Rightarrow> layout_container \<Rightarrow> layout_element \<Rightarrow> layout_element" where
  "moveElement api xOffset c e =
     e\<lparr>el_x := el_x e + xOffset + scaled api 8,
       el_y := el_y e + lineHeight c + (if isCompactEmote e c then scaled api 2 else 0)\<rparr>"

definition breakLine :: "layout_api \<Rightarrow> layout_settings \<Rightarrow> layout_container \<Rightarrow> layout_container" where
  "breakLine api st c =
     (let c = reorderAfterUsername api st c;
          xOffset = centerOffset api c;
          es = take (lineStart c) (mc_elements c) @ map (moveElement api xOffset c) (drop (lineStart c) (mc_elements c));
          c = c\<lparr>mc_elements := es,
                mc_lines := finishLine (lineStart c) (charIndex c) (mc_lines c) @
                  [\<lparr>startIndex = lineStart c, endIndex = 0, startCharIndex = charIndex c, endCharIndex = 0,
                    rect_top = currentY c, rect_height = lineHeight c\<rparr>],
                charIndex := charIndex c + sum_list (map getSelectionIndexCount (drop (lineStart c) es)),
                lineStart := length es\<rparr>
      in if canCollapse st c \<and> int (mc_line c + 1) \<ge> collpseMessagesMinLines st then c\<lparr>canAddMessages := False\<rparr>
         else
           let c = c\<lparr>currentX := 0, currentY := currentY c + lineHeight c\<rparr>
           in c\<lparr>mc_height := currentY c + scaled api 4, lineHeight := 0, mc_line := mc_line c + 1\<rparr>)"

definition addElement :: "layout_api \<Rightarrow> layout_settings \<Rightarrow> layout_element \<Rightarrow> layout_container \<Rightarrow> layout_container" where
  "addElement api st e c =
     (let c = (if \<not> fitsInLine api st (el_width e) c then breakLine api st c else c)
      in addElement_at api st False e c)"

definition addElementNoLineBreak ::
  "layout_api \<Rightarrow> layout_settings \<Rightarrow> layout_element \<Rightarrow> layout_container \<Rightarrow> layout_container" where
  "addElementNoLineBreak api st e c = addElement_at api st False e c"

definition dotdotdot :: "layout_container \<Rightarrow> layout_element" where
  "dotdotdot c = \<lparr>el_kind = TextKind, el_flags = [EF_Collapsed], el_text = qs ''...'', el_x = 0, el_y = 0,
     el_width = dotdotdotWidth c, el_height = textLineHeight c, trailingSpace = True, el_line = 0, wordId = -1,
     reversedNeutral = False\<rparr>"

definition collapseEnd :: "layout_api \<Rightarrow> layout_settings \<Rightarrow> layout_container \<Rightarrow> layout_container" where
  "collapseEnd api st c =
     (if \<not> canAddMessages c then
        let c = (if textDirection c = RTL then
              let n = startIndex (last (mc_lines c)) in
              c\<lparr>mc_elements := take n (mc_elements c) @
                  map (\<lambda>e. e\<lparr>el_x := el_x e + dotdotdotWidth c\<rparr>) (drop n (mc_elements c))\<rparr>
            else c)
        in (addElement_at api st True (dotdotdot c) c)\<lparr>mc_isCollapsed := True\<rparr>
      else c)"

text \<open>The rectangles of the first and of the last line reach as far as the mouse can be.\<close>

definition setTop :: "int \<Rightarrow> layout_line \<Rightarrow> layout_line" where
  "setTop y l = l\<lparr>rect_top := y, rect_height := rect_top l + rect_height l - y\<rparr>"

definition setBottom :: "int \<Rightarrow> layout_line \<Rightarrow> layout_line" where
  "setBottom y l = l\<lparr>rect_height := y - rect_top l + 1\<rparr>"

definition outerLines :: "layout_line list \<Rightarrow> layout_line list" where
  "outerLines ls =
     (if ls = [] then []
      else let ls = setTop (-100000) (hd ls) # tl ls in butlast ls @ [setBottom 100000 (last ls)])"

text \<open>The comparison that the elements are sorted by at the end; \<open>std::ranges::sort\<close> is the argument \<open>sortElements\<close>.\<close>

definition elementBefore :: "layout_element \<Rightarrow> layout_element \<Rightarrow> bool" where
  "elementBefore a b = (if el_line a = el_line b then el_x a < el_x b else el_line a < el_line b)"

type_synonym element_sort =
  "(layout_element \<Rightarrow> layout_element \<Rightarrow> bool) \<Rightarrow> layout_element list \<Rightarrow> layout_element list"

definition endLayout ::
  "layout_api \<Rightarrow> layout_settings \<Rightarrow> element_sort \<Rightarrow> layout_container \<Rightarrow> layout_container" where
  "endLayout api st sortElements c =
     (let c = collapseEnd api st c;
          c = (if \<not> atStartOfLine c then breakLine api st c else c);
          c = c\<lparr>mc_height := mc_height c + lineHeight c\<rparr>;
          c = c\<lparr>mc_lines := finishLine (length (mc_elements c)) (charIndex c) (outerLines (mc_lines c))\<rparr>;
          c = (if mc_elements c \<noteq> [] then
                 c\<lparr>mc_elements := butlast (mc_elements c) @ [(last (mc_elements c))\<lparr>trailingSpace := False\<rparr>]\<rparr> else c)
      in if anyReorderingDone c then c\<lparr>mc_elements := sortElements elementBefore (mc_elements c)\<rparr> else c)"

section \<open>Texts\<close>

definition textElement :: "layout_api \<Rightarrow> element_flags \<Rightarrow> int \<Rightarrow> qstring \<Rightarrow> int \<Rightarrow> bool \<Rightarrow> layout_element" where
  "textElement api fs wid text width space =
     \<lparr>el_kind = TextKind, el_flags = fs, el_text = text, el_x = 0, el_y = 0, el_width = width,
      el_height = fontHeight api, trailingSpace = space, el_line = 0, wordId = wid, reversedNeutral = False\<rparr>"

text \<open>Wrapping a word that does not fit in a line, from position \<open>i\<close> on; a pair of surrogates stays together.\<close>

function wrapLoop ::
  "layout_api \<Rightarrow> layout_settings \<Rightarrow> element_flags \<Rightarrow> int \<Rightarrow> qstring \<Rightarrow> bool \<Rightarrow> nat \<Rightarrow> nat \<Rightarrow> int \<Rightarrow> layout_container \<Rightarrow>
    layout_container" where
  "wrapLoop api st fs wid word space wordStart i width c =
     (if i < length word then
        let isSurrogate = (i + 1 < length word \<and> isHighSurrogate (word ! i));
            charWidth = (if isSurrogate then horizontalAdvance api (mid word i 2) else horizontalAdvance api [word ! i]);
            next = (if isSurrogate then i + 2 else i + 1)
        in if \<not> fitsInLine api st (width + charWidth) c then
             let c = addElementNoLineBreak api st (textElement api fs wid (mid word wordStart (i - wordStart)) width False) c;
                 c = breakLine api st c
             in wrapLoop api st fs wid word space i next charWidth c
           else wrapLoop api st fs wid word space wordStart next (width + charWidth) c
      else addElementNoLineBreak api st (textElement api fs wid (drop wordStart word) width space) c)"
  by pat_completeness auto
termination
  by (relation "measure (\<lambda>(api, st, fs, wid, word, space, ws, i, w, c). length word - i)") (auto split: if_splits)

declare wrapLoop.simps [simp del]

definition addWord ::
  "layout_api \<Rightarrow> layout_settings \<Rightarrow> element_flags \<Rightarrow> bool \<Rightarrow> qstring \<Rightarrow> layout_container \<Rightarrow> layout_container" where
  "addWord api st fs space word c =
     (let (c, wid) = nextWordId c; width = horizontalAdvance api word in
      if fitsInLine api st width c then addElementNoLineBreak api st (textElement api fs wid word width space) c
      else if \<not> atStartOfLine c then
        let c = breakLine api st c in
        if fitsInLine api st width c then addElementNoLineBreak api st (textElement api fs wid word width space) c
        else wrapLoop api st fs wid word space 0 0 0 c
      else wrapLoop api st fs wid word space 0 0 0 c)"

text \<open>\<open>TextElement\<close> splits its text at blanks when it is made.\<close>

definition TextElement_addToContainer ::
  "layout_api \<Rightarrow> layout_settings \<Rightarrow> element_flags \<Rightarrow> element_flags \<Rightarrow> bool \<Rightarrow> qstring list \<Rightarrow> layout_container \<Rightarrow> layout_container" where
  "TextElement_addToContainer api st shown fs space words c =
     (if ef_has shown fs then foldl (\<lambda>c word. addWord api st fs space word c) c words else c)"

section \<open>Selections\<close>

datatype CopyMode = Everything | EverythingButReplies | OnlyTextAndEmotes

definition skipped :: "CopyMode \<Rightarrow> layout_element \<Rightarrow> bool" where
  "skipped copymode e =
     (copymode \<noteq> Everything \<and> ef_has (el_flags e) [EF_RepliedMessage] \<or>
      copymode = OnlyTextAndEmotes \<and> ef_has (el_flags e) ([EF_Timestamp, EF_Username, EF_ChannelName] @ BadgesFlags))"

fun selectionLoop :: "nat \<Rightarrow> nat \<Rightarrow> CopyMode \<Rightarrow> layout_element list \<Rightarrow> nat \<Rightarrow> bool \<Rightarrow> qstring \<Rightarrow> qstring" where
  "selectionLoop a b mode [] index isFirst str = str"
| "selectionLoop a b mode (e # es) index isFirst str =
     (if skipped mode e then selectionLoop a b mode es index isFirst str
      else
        let indexCount = getSelectionIndexCount e in
        if isFirst then
          if index + indexCount > a then
            let str = addCopyTextToString e str (a - index) (b - index) in
            if index + indexCount \<ge> b then str
            else selectionLoop a b mode es (index + indexCount) False str
          else selectionLoop a b mode es (index + indexCount) True str
        else if index + indexCount \<ge> b then addCopyTextToString e str 0 (b - index)
        else selectionLoop a b mode es (index + indexCount) False (addCopyTextToString e str 0 (2 ^ 32 - 1)))"

text \<open>The positions of characters are \<open>uint32_t\<close> in the code; they are \<open>nat\<close> here, since a message is far shorter.\<close>

definition addSelectionText :: "layout_container \<Rightarrow> qstring \<Rightarrow> nat \<Rightarrow> nat \<Rightarrow> CopyMode \<Rightarrow> qstring" where
  "addSelectionText c str a b copymode = selectionLoop a b copymode (mc_elements c) 0 True str"

fun skipCounts :: "(layout_element \<Rightarrow> bool) \<Rightarrow> layout_element list \<Rightarrow> nat" where
  "skipCounts P [] = 0"
| "skipCounts P (e # es) = (if P e then getSelectionIndexCount e + skipCounts P es else 0)"

definition getFirstMessageCharacterIndex :: "layout_container \<Rightarrow> nat" where
  "getFirstMessageCharacterIndex c =
     skipCounts (\<lambda>e. ef_has (el_flags e)
       ([EF_RepliedMessage, EF_Timestamp, EF_ModeratorTools, EF_Username] @ BadgesFlags)) (mc_elements c)"

definition getWordBounds :: "layout_element \<Rightarrow> layout_container \<Rightarrow> nat \<times> nat" where
  "getWordBounds hovered c =
     (if mc_elements c = [] then (0, 0)
      else
        let before = takeWhile (\<lambda>e. wordId e \<noteq> wordId hovered) (mc_elements c);
            within = takeWhile (\<lambda>e. wordId e = wordId hovered) (dropWhile (\<lambda>e. wordId e \<noteq> wordId hovered) (mc_elements c));
            wordStart = sum_list (map getSelectionIndexCount before);
            wordEnd = wordStart + sum_list (map getSelectionIndexCount within)
        in (wordStart, if trailingSpace (last (before @ within)) then wordEnd - 1 else wordEnd))"

definition getLastCharacterIndex :: "layout_container \<Rightarrow> nat" where
  "getLastCharacterIndex c = (if mc_lines c = [] then 0 else endCharIndex (last (mc_lines c)))"

section \<open>Selections are slices\<close>

definition copyText :: "layout_element \<Rightarrow> qstring" where
  "copyText e = el_text e @ (if trailingSpace e then [0x20] else [])"

definition contents :: "layout_element list \<Rightarrow> qstring" where
  "contents es = concat (map copyText es)"

definition all_texts :: "layout_element list \<Rightarrow> bool" where
  "all_texts es \<longleftrightarrow> list_all (\<lambda>e. el_kind e = TextKind) es"

lemma length_copyText: "el_kind e = TextKind \<Longrightarrow> length (copyText e) = getSelectionIndexCount e"
  by (simp add: copyText_def getSelectionIndexCount_def)

lemma addCopyText_slice:
  assumes "el_kind e = TextKind" "a \<le> length (el_text e)" "a \<le> b"
  shows "addCopyTextToString e str a b = str @ take (b - a) (drop a (copyText e))"
  using assms by (auto simp: addCopyTextToString_def copyText_def)

lemma take_contents:
  "el_kind e = TextKind \<Longrightarrow> n \<le> getSelectionIndexCount e \<Longrightarrow> take n (contents (e # es)) = take n (copyText e)"
  "el_kind e = TextKind \<Longrightarrow> getSelectionIndexCount e \<le> n \<Longrightarrow>
    take n (contents (e # es)) = copyText e @ take (n - getSelectionIndexCount e) (contents es)"
  by (simp_all add: contents_def flip: length_copyText)

lemma selectionLoop_rest:
  assumes "all_texts es" "\<forall>e\<in>set es. getSelectionIndexCount e < 2 ^ 32" "index \<le> b"
  shows "selectionLoop a b Everything es index False str = str @ take (b - index) (contents es)"
  using assms
proof (induction es arbitrary: index str)
  case (Cons e es)
  have e: "el_kind e = TextKind" "getSelectionIndexCount e < 2 ^ 32" "all_texts es" using Cons.prems by (simp_all add: all_texts_def)
  show ?case
  proof (cases "index + getSelectionIndexCount e \<ge> b")
    case True
    have "addCopyTextToString e str 0 (b - index) = str @ take (b - index) (copyText e)"
      using addCopyText_slice [of e 0 "b - index"] e by simp
    then show ?thesis using True take_contents(1) [OF e(1), of "b - index" es] by (simp add: skipped_def Let_def)
  next
    case False
    have "addCopyTextToString e str 0 (2 ^ 32 - 1) = str @ copyText e"
      using addCopyText_slice [of e 0 "2 ^ 32 - 1"] e length_copyText [OF e(1)] by simp
    then show ?thesis using False Cons.IH [OF e(3)] Cons.prems take_contents(2) [OF e(1), of "b - index" es]
      by (simp add: skipped_def Let_def)
  qed
qed (simp add: contents_def)

lemma selectionLoop_slice:
  assumes "all_texts es" "\<forall>e\<in>set es. getSelectionIndexCount e < 2 ^ 32" "index \<le> a" "a \<le> b"
  shows "selectionLoop a b Everything es index True str = str @ take (b - a) (drop (a - index) (contents es))"
  using assms
proof (induction es arbitrary: index)
  case (Cons e es)
  have e: "el_kind e = TextKind" "all_texts es" using Cons.prems by (simp_all add: all_texts_def)
  let ?n = "getSelectionIndexCount e"
  have c: "contents (e # es) = copyText e @ contents es" "length (copyText e) = ?n"
    using length_copyText [OF e(1)] by (simp_all add: contents_def)
  show ?case
  proof (cases "index + ?n > a")
    case True
    then have "a - index \<le> length (el_text e)"
      using e(1) by (auto simp: getSelectionIndexCount_def split: if_splits)
    then have copy: "addCopyTextToString e str (a - index) (b - index) = str @ take (b - a) (drop (a - index) (copyText e))"
      using addCopyText_slice [of e "a - index" "b - index"] e(1) Cons.prems(3,4) by simp
    show ?thesis
    proof (cases "index + ?n \<ge> b")
      case le: True
      then have "b - a \<le> length (drop (a - index) (copyText e))" using c(2) Cons.prems(3) by simp
      then show ?thesis using True le copy c by (simp add: skipped_def Let_def)
    next
      case False
      then have "take (b - a) (drop (a - index) (copyText e)) = drop (a - index) (copyText e)"
        "b - a - (?n - (a - index)) = b - (index + ?n)"
        using c(2) Cons.prems(3,4) True by simp_all
      then show ?thesis
        using True False copy c selectionLoop_rest [OF e(2), of "index + ?n" b a "str @ drop (a - index) (copyText e)"] Cons.prems(2)
        by (simp add: skipped_def Let_def add.commute)
    qed
  next
    case False
    then have "selectionLoop a b Everything (e # es) index True str = str @ take (b - a) (drop (a - (index + ?n)) (contents es))"
      using Cons.IH [OF e(2), of "index + ?n"] Cons.prems(2,4) by (simp add: skipped_def Let_def)
    then show ?thesis using False c by simp
  qed
qed (simp add: contents_def)

text \<open>
  C35. Copying a selection of a message of texts copies exactly the part of its text between the two positions,
  however the text was split into elements and lines.\<close>

theorem addSelectionText_slice:
  assumes "all_texts (mc_elements c)" "\<forall>e\<in>set (mc_elements c). getSelectionIndexCount e < 2 ^ 32" "a \<le> b"
  shows "addSelectionText c str a b Everything = str @ take (b - a) (drop a (contents (mc_elements c)))"
  using selectionLoop_slice [OF assms(1,2) _ assms(3), of 0] by (simp add: addSelectionText_def)

section \<open>What stays of the elements\<close>

text \<open>Placing an element changes its position, its line and its mark only.\<close>

definition core :: "layout_element \<Rightarrow> element_kind \<times> element_flags \<times> qstring \<times> bool \<times> int" where
  "core e = (el_kind e, el_flags e, el_text e, trailingSpace e, wordId e)"

lemma map_core:
  assumes "map core es = map core es'" "\<And>e e'. core e = core e' \<Longrightarrow> f e = f e'"
  shows "map f es = map f es'"
proof (rule nth_equalityI)
  show "length (map f es) = length (map f es')" using assms(1) by (metis length_map)
  show "map f es ! i = map f es' ! i" if "i < length (map f es)" for i
  proof -
    have "core (es ! i) = core (es' ! i)" using assms(1) that by (metis length_map nth_map)
    then show ?thesis using assms that by (metis length_map nth_map)
  qed
qed

lemma core_eqD:
  "core e = core e' \<Longrightarrow> copyText e = copyText e'"
  "core e = core e' \<Longrightarrow> getSelectionIndexCount e = getSelectionIndexCount e'"
  "core e = core e' \<Longrightarrow> el_kind e = el_kind e'"
  by (auto simp: core_def copyText_def getSelectionIndexCount_def split: element_kind.splits)

lemma core_copy:
  assumes "map core es = map core es'"
  shows "contents es = contents es'" "map getSelectionIndexCount es = map getSelectionIndexCount es'" "all_texts es = all_texts es'"
    "length es = length es'"
proof -
  show "length es = length es'" using assms by (metis length_map)
  show "map getSelectionIndexCount es = map getSelectionIndexCount es'" by (rule map_core [OF assms core_eqD(2)])
  show "contents es = contents es'" using map_core [OF assms, of copyText, OF core_eqD(1)] by (simp add: contents_def)
  have k: "map el_kind es = map el_kind es'" by (rule map_core [OF assms core_eqD(3)])
  have "all_texts xs \<longleftrightarrow> list_all (\<lambda>k. k = TextKind) (map el_kind xs)" for xs
    by (simp add: all_texts_def list.pred_map comp_def)
  then show "all_texts es = all_texts es'" using k by simp
qed

text \<open>\<open>kept\<close>: the fields that placing elements does not touch.\<close>

definition kept :: "layout_container \<Rightarrow> flag_set \<times> nat \<times> nat \<times> bool \<times> layout_line list" where
  "kept c = (mc_flags c, charIndex c, lineStart c, canAddMessages c, mc_lines c)"

lemma kept_steps:
  "kept (noteDirection api mode e c) = kept c" "mc_elements (noteDirection api mode e c) = mc_elements c"
  "kept (raiseLine api e c) = kept c" "mc_elements (raiseLine api e c) = mc_elements c"
  "kept (joinEmotes st mode b e c) = kept c" "mc_elements (joinEmotes st mode b e c) = mc_elements c"
  by (simp_all add: noteDirection_def raiseLine_def joinEmotes_def kept_def Let_def)

lemma kept_currentX: "kept (c\<lparr>currentX := x\<rparr>) = kept c" "kept (c\<lparr>mc_elements := es\<rparr>) = kept c"
  by (simp_all add: kept_def)

lemma core_placeElement:
  "core (snd (placeElement api st mode e c)) = core e"
  "kept (fst (placeElement api st mode e c)) = kept c"
  "mc_elements (fst (placeElement api st mode e c)) = mc_elements c"
  by (simp_all add: placeElement_def Let_def kept_currentX kept_steps) (simp add: core_def)

lemma map_core_update: "core e = core (es ! i) \<Longrightarrow> map core (es[i := e]) = map core es"
  by (cases "i < length es") (simp_all add: map_update list_update_same_conv list_update_beyond)

lemma core_repositionElement:
  "map core (mc_elements (repositionElement api st prev i c)) = map core (mc_elements c)"
  "kept (repositionElement api st prev i c) = kept c"
  by (simp_all add: repositionElement_def case_prod_beta' Let_def core_placeElement kept_currentX map_core_update)

lemma core_placeLoop:
  "map core (mc_elements (placeLoop api st prev is c)) = map core (mc_elements c)"
  "kept (placeLoop api st prev is c) = kept c"
  by (induction "is" arbitrary: prev c) (simp_all add: core_repositionElement)

lemma core_fields:
  "core (e\<lparr>reversedNeutral := b\<rparr>) = core e" "core (e\<lparr>el_x := x\<rparr>) = core e" "core (e\<lparr>el_y := y\<rparr>) = core e"
  by (simp_all add: core_def)

lemma core_reorderLoop: "map core (fst (reorderLoop api dir is es r sw co)) = map core es"
  by (induction api dir "is" es r sw co rule: reorderLoop.induct) (simp_all add: Let_def map_core_update core_fields)

lemma core_reorderRTL:
  "map core (mc_elements (reorderRTL api st n c)) = map core (mc_elements c)"
  "kept (reorderRTL api st n c) = kept c"
  by (simp_all add: reorderRTL_def Let_def case_prod_beta' core_placeLoop core_reorderLoop kept_currentX)

lemma kept_eqD:
  assumes "kept c = kept c'"
  shows "mc_flags c = mc_flags c'" "charIndex c = charIndex c'" "lineStart c = lineStart c'"
    "canAddMessages c = canAddMessages c'" "mc_lines c = mc_lines c'"
  using assms by (simp_all add: kept_def)

lemma core_reorderAfterUsername:
  "map core (mc_elements (reorderAfterUsername api st c)) = map core (mc_elements c)"
  "kept (reorderAfterUsername api st c) = kept c"
  by (auto simp: reorderAfterUsername_def core_reorderRTL kept_def kept_eqD [OF core_reorderRTL(2)] split: option.splits)

lemma core_moveElement: "core (moveElement api x c e) = core e"
  by (simp add: moveElement_def core_def)

lemma min_rest: "min a b + (a - b) = (a :: nat)"
  by (simp add: min_def)

text \<open>What a break of the line keeps and does.\<close>

lemma breakLine_keeps:
  "map core (mc_elements (breakLine api st c)) = map core (mc_elements c)"
  "mc_flags (breakLine api st c) = mc_flags c"
  "canAddMessages (breakLine api st c) \<longleftrightarrow>
    canAddMessages c \<and> \<not> (canCollapse st c \<and> int (mc_line (reorderAfterUsername api st c) + 1) \<ge> collpseMessagesMinLines st)"
  "lineStart (breakLine api st c) = length (mc_elements c)"
  "mc_lines (breakLine api st c) = finishLine (lineStart c) (charIndex c) (mc_lines c) @
     [\<lparr>startIndex = lineStart c, endIndex = 0, startCharIndex = charIndex c, endCharIndex = 0,
       rect_top = currentY (reorderAfterUsername api st c), rect_height = lineHeight (reorderAfterUsername api st c)\<rparr>]"
proof -
  let ?r = "reorderAfterUsername api st c"
  note k = kept_eqD [OF core_reorderAfterUsername(2) [of api st c]]
  have moved: "map core (map (moveElement api x ?r) es) = map core es" for x es by (simp add: comp_def core_moveElement)
  have "map core (take n es @ map (moveElement api x ?r) (drop n es)) = map core es" for n x es
    by (simp only: map_append moved) (simp only: map_append [symmetric] append_take_drop_id)
  then show "map core (mc_elements (breakLine api st c)) = map core (mc_elements c)"
    by (simp add: breakLine_def Let_def core_reorderAfterUsername)
  show "mc_flags (breakLine api st c) = mc_flags c"
    "canAddMessages (breakLine api st c) \<longleftrightarrow>
      canAddMessages c \<and> \<not> (canCollapse st c \<and> int (mc_line ?r + 1) \<ge> collpseMessagesMinLines st)"
    "mc_lines (breakLine api st c) = finishLine (lineStart c) (charIndex c) (mc_lines c) @
       [\<lparr>startIndex = lineStart c, endIndex = 0, startCharIndex = charIndex c, endCharIndex = 0,
         rect_top = currentY ?r, rect_height = lineHeight ?r\<rparr>]"
    by (auto simp: breakLine_def Let_def k canCollapse_def)
  have "length (mc_elements ?r) = length (mc_elements c)" using core_reorderAfterUsername(1) by (metis length_map)
  then show "lineStart (breakLine api st c) = length (mc_elements c)"
    by (simp add: breakLine_def Let_def min_rest)
qed

section \<open>The text that is laid out\<close>

text \<open>\<open>lays api st s c c'\<close>: from \<open>c\<close> to \<open>c'\<close>, elements with the text \<open>s\<close> were added to a message that is not
collapsed.\<close>

definition roomy :: "layout_settings \<Rightarrow> layout_container \<Rightarrow> bool" where
  "roomy st c \<longleftrightarrow> canAddMessages c \<and> \<not> canCollapse st c \<and> all_texts (mc_elements c)"

definition lays :: "layout_settings \<Rightarrow> qstring \<Rightarrow> layout_container \<Rightarrow> layout_container \<Rightarrow> bool" where
  "lays st s c c' \<longleftrightarrow> (roomy st c \<longrightarrow> roomy st c' \<and> contents (mc_elements c') = contents (mc_elements c) @ s)"

lemma lays_trans: "lays st s c c' \<Longrightarrow> lays st t c' c'' \<Longrightarrow> lays st (s @ t) c c''"
  by (simp add: lays_def)

lemma lays_breakLine: "lays st [] c (breakLine api st c)"
  using core_copy [OF breakLine_keeps(1) [of api st c]] by (auto simp: lays_def roomy_def canCollapse_def breakLine_keeps(2,3))

lemma lays_addElementNoLineBreak:
  assumes "el_kind e = TextKind"
  shows "lays st (copyText e) c (addElementNoLineBreak api st e c)"
proof -
  note k = core_placeElement [of api st Adding e c]
  have "el_kind (snd (placeElement api st Adding e c)) = TextKind" "copyText (snd (placeElement api st Adding e c)) = copyText e"
    using k(1) core_eqD assms by metis+
  then show ?thesis using kept_eqD [OF k(2)] k(3)
    by (simp add: lays_def roomy_def canCollapse_def addElementNoLineBreak_def addElement_at_def Let_def case_prod_beta'
        all_texts_def contents_def)
qed

lemma lays_textElement:
  "lays st (text @ (if space then [0x20] else [])) c (addElementNoLineBreak api st (textElement api fs wid text width space) c)"
  using lays_addElementNoLineBreak [of "textElement api fs wid text width space"] by (simp add: textElement_def copyText_def)

lemma lays_wrapLoop:
  assumes "wordStart \<le> i"
  shows "lays st (drop wordStart word @ (if space then [0x20] else [])) c
    (wrapLoop api st fs wid word space wordStart i width c)"
  using assms
proof (induction api st fs wid word space wordStart i width c rule: wrapLoop.induct)
  case (1 api st fs wid word space wordStart i width c)
  let ?sp = "if space then [0x20 :: 16 word] else []"
  let ?surrogate = "i + 1 < length word \<and> isHighSurrogate (word ! i)"
  let ?w = "if ?surrogate then horizontalAdvance api (mid word i 2) else horizontalAdvance api [word ! i]"
  let ?next = "if ?surrogate then i + 2 else i + 1"
  consider "i \<ge> length word" | "i < length word" "fitsInLine api st (width + ?w) c"
    | "i < length word" "\<not> fitsInLine api st (width + ?w) c" by linarith
  then show ?case
  proof cases
    case 1
    then show ?thesis using lays_textElement by (simp add: wrapLoop.simps)
  next
    case 2
    then show ?thesis using "1.IH"(2) [OF 2(1) refl refl refl] "1.prems" by (subst wrapLoop.simps) (simp add: Let_def)
  next
    case 3
    let ?a = "addElementNoLineBreak api st (textElement api fs wid (mid word wordStart (i - wordStart)) width False) c"
    have "drop wordStart word = mid word wordStart (i - wordStart) @ drop i word"
      using "1.prems" by (simp add: mid_def) (metis append_take_drop_id drop_drop le_add_diff_inverse2)
    moreover have "lays st (drop i word @ ?sp) (breakLine api st ?a)
        (wrapLoop api st fs wid word space i ?next ?w (breakLine api st ?a))"
      using "1.IH"(1) [OF 3(1) refl refl refl 3(2) refl refl] by simp
    ultimately have "lays st (drop wordStart word @ ?sp) c (wrapLoop api st fs wid word space i ?next ?w (breakLine api st ?a))"
      using lays_trans [OF lays_trans [OF lays_textElement [of st "mid word wordStart (i - wordStart)" False] lays_breakLine]] by simp
    then show ?thesis using 3 by (subst wrapLoop.simps) (simp add: Let_def)
  qed
qed

lemma lays_addWord: "lays st (word @ (if space then [0x20] else [])) c (addWord api st fs space word c)"
proof -
  let ?c = "c\<lparr>currentWordId := currentWordId c + 1\<rparr>" and ?s = "word @ (if space then [0x20] else [])"
  have n: "lays st [] c ?c" by (simp add: lays_def roomy_def canCollapse_def)
  have w: "lays st ?s c' (wrapLoop api st fs wid word space 0 0 0 c')" for wid c'
    using lays_wrapLoop [of 0 0 st word space] by simp
  note t = lays_trans [OF n lays_textElement] lays_trans [OF n lays_trans [OF lays_breakLine lays_textElement]]
    lays_trans [OF n w] lays_trans [OF n lays_trans [OF lays_breakLine w]]
  show ?thesis using t by (simp add: addWord_def nextWordId_def Let_def)
qed

text \<open>The blank that an element of a text has behind it, or not.\<close>

abbreviation blank :: "bool \<Rightarrow> qstring" where
  "blank space \<equiv> (if space then [0x20] else [])"

lemma lays_TextElement:
  assumes "ef_has shown fs"
  shows "lays st (concat (map (\<lambda>w. w @ blank space) words)) c (TextElement_addToContainer api st shown fs space words c)"
proof -
  have "lays st (concat (map (\<lambda>w. w @ blank space) words)) c (foldl (\<lambda>c word. addWord api st fs space word c) c words)"
  proof (induction words arbitrary: c)
    case (Cons w ws)
    show ?case using lays_trans [OF lays_addWord [of st w space c api fs] Cons.IH] by simp
  qed (simp add: lays_def)
  then show ?thesis using assms by (simp add: TextElement_addToContainer_def)
qed

lemma contents_endLayout:
  assumes "roomy st c" "mc_elements c \<noteq> []" "contents (mc_elements c) = s @ blank space"
    "trailingSpace (last (mc_elements c)) = space" "\<not> anyReorderingDone (endLayout api st sortElements c)"
  shows "contents (mc_elements (endLayout api st sortElements c)) = s" "all_texts (mc_elements (endLayout api st sortElements c))"
proof -
  let ?c = "if \<not> atStartOfLine c then breakLine api st c else c"
  have l: "lays st [] c ?c" using lays_breakLine by (simp add: lays_def)
  have m: "map core (mc_elements ?c) = map core (mc_elements c)" using breakLine_keeps(1) by simp
  have r: "roomy st ?c" "contents (mc_elements ?c) = s @ blank space" using l assms(1,3) by (simp_all add: lays_def)
  have ne: "mc_elements ?c \<noteq> []" using m assms(2) by (metis list.map_disc_iff)
  have "core (last (mc_elements ?c)) = core (last (mc_elements c))" using m ne assms(2) by (metis last_map)
  then have sp: "trailingSpace (last (mc_elements ?c)) = space" using assms(4) by (simp add: core_def)
  let ?es = "butlast (mc_elements ?c) @ [(last (mc_elements ?c))\<lparr>trailingSpace := False\<rparr>]"
  have e: "mc_elements (endLayout api st sortElements c) = ?es"
    using assms(1,5) ne by (auto simp: endLayout_def collapseEnd_def Let_def roomy_def split: if_splits)
  have "contents (mc_elements ?c) = contents (butlast (mc_elements ?c) @ [last (mc_elements ?c)])" using ne by simp
  also have "\<dots> = contents ?es @ blank space" using sp by (simp add: contents_def copyText_def)
  finally show "contents (mc_elements (endLayout api st sortElements c)) = s" using r(2) e by simp
  have "all_texts (butlast (mc_elements ?c) @ [last (mc_elements ?c)])" using r(1) ne by (simp add: roomy_def)
  then show "all_texts (mc_elements (endLayout api st sortElements c))" unfolding e by (simp add: all_texts_def)
qed

text \<open>The last element that was added for a word has its space, or none.\<close>

definition spaced :: "bool \<Rightarrow> layout_container \<Rightarrow> bool" where
  "spaced space c \<longleftrightarrow> mc_elements c \<noteq> [] \<and> trailingSpace (last (mc_elements c)) = space"

lemma spaced_textElement:
  "roomy st c \<Longrightarrow> spaced space (addElementNoLineBreak api st (textElement api fs wid text width space) c)"
  using core_placeElement(1) [of api st Adding "textElement api fs wid text width space" c]
  by (simp add: spaced_def roomy_def addElementNoLineBreak_def addElement_at_def Let_def case_prod_beta' core_def textElement_def)

lemma roomy_lays: "roomy st c \<Longrightarrow> lays st s c c' \<Longrightarrow> roomy st c'"
  by (simp add: lays_def)

text \<open>An invariant of the steps of \<open>wrapLoop\<close> holds when its last piece is added.\<close>

lemma wrapLoop_invariant:
  assumes "\<And>c t w. I c \<Longrightarrow> I (breakLine api st (addElementNoLineBreak api st (textElement api fs wid t w False) c))" "I c"
  shows "\<exists>c' t w. I c' \<and>
    wrapLoop api st fs wid word space wordStart i width c = addElementNoLineBreak api st (textElement api fs wid t w space) c'"
  using assms
proof (induction api st fs wid word space wordStart i width c rule: wrapLoop.induct)
  case (1 api st fs wid word space wordStart i width c)
  let ?w = "if i + 1 < length word \<and> isHighSurrogate (word ! i) then horizontalAdvance api (mid word i 2)
    else horizontalAdvance api [word ! i]"
  consider "i \<ge> length word" | "i < length word" "fitsInLine api st (width + ?w) c"
    | "i < length word" "\<not> fitsInLine api st (width + ?w) c" by linarith
  then show ?case
  proof cases
    case 1
    then show ?thesis using "1.prems"(2) by (subst wrapLoop.simps) auto
  next
    case 2
    then show ?thesis using "1.IH"(2) [OF 2(1) refl refl refl] "1.prems" by (subst wrapLoop.simps) (simp add: Let_def)
  next
    case 3
    have "I (breakLine api st (addElementNoLineBreak api st (textElement api fs wid (mid word wordStart (i - wordStart)) width False) c))"
      using "1.prems" .
    then show ?thesis using "1.IH"(1) [OF 3(1) refl refl refl 3(2) refl refl "1.prems"(1)] 3
      by (subst wrapLoop.simps) (simp add: Let_def)
  qed
qed

lemma spaced_wrapLoop:
  assumes "roomy st c"
  shows "spaced space (wrapLoop api st fs wid word space wordStart i width c)"
proof -
  have "roomy st (breakLine api st (addElementNoLineBreak api st (textElement api fs wid t w False) c))" if "roomy st c" for c t w
    using that roomy_lays lays_textElement lays_breakLine by metis
  from wrapLoop_invariant [where I = "roomy st", OF this assms] show ?thesis using spaced_textElement by metis
qed

lemma spaced_addWord:
  assumes "roomy st c"
  shows "spaced space (addWord api st fs space word c)"
proof -
  have r: "roomy st (c\<lparr>currentWordId := n\<rparr>)" for n using assms by (simp add: roomy_def canCollapse_def)
  then have "roomy st (breakLine api st (c\<lparr>currentWordId := n\<rparr>))" for n using roomy_lays lays_breakLine by metis
  then show ?thesis using r by (simp add: addWord_def nextWordId_def Let_def spaced_textElement spaced_wrapLoop)
qed

lemma spaced_TextElement:
  assumes "roomy st c" "ef_has shown fs" "words \<noteq> []"
  shows "spaced space (TextElement_addToContainer api st shown fs space words c)"
proof -
  have "roomy st (foldl (\<lambda>c word. addWord api st fs space word c) c (butlast words))"
    using lays_TextElement [OF assms(2), of st space "butlast words" c api] assms(1,2) by (simp add: lays_def TextElement_addToContainer_def)
  then have "spaced space (foldl (\<lambda>c word. addWord api st fs space word c) c (butlast words @ [last words]))"
    by (simp add: spaced_addWord)
  then show ?thesis using assms(2,3) by (simp add: TextElement_addToContainer_def)
qed

lemma concat_splitOn: "concat (map (\<lambda>w. w @ [sep]) (splitOn sep xs)) = xs @ [sep]"
proof (induction xs)
  case (Cons x xs)
  obtain h t where "splitOn sep xs = h # t" by (metis list.exhaust splitOn_ne)
  then show ?case using Cons by simp
qed simp

lemma concat_splitOn_removes: "concat (splitOn sep xs) = filter (\<lambda>ch. ch \<noteq> sep) xs"
proof (induction xs)
  case (Cons x xs)
  obtain h t where "splitOn sep xs = h # t" by (metis list.exhaust splitOn_ne)
  then show ?case using Cons by simp
qed simp

text \<open>
  C34. Copying the whole of a message that is one text, and that is neither collapsed nor reordered, gives the text
  back: splitting it at blanks, wrapping its words at any width and breaking its lines loses nothing and adds nothing.
  When the text was made without a trailing space, its words have no blank behind them, and exactly the blanks are lost.\<close>

theorem text_layout_copies:
  assumes "ef_has shown fs" "\<not> has mflags Collapsed" "length text < 2 ^ 32"
    "c = endLayout api st sortElements
       (TextElement_addToContainer api st shown fs space (splitOn 0x20 text) (beginLayout api width mflags c0))"
    "\<not> anyReorderingDone c"
  shows "addSelectionText c [] 0 (length text) Everything = (if space then text else filter (\<lambda>ch. ch \<noteq> 0x20) text)"
proof -
  let ?b = "beginLayout api width mflags c0" and ?words = "splitOn 0x20 text"
  let ?c = "TextElement_addToContainer api st shown fs space ?words ?b"
  define copied where "copied = (if space then text else filter (\<lambda>ch. ch \<noteq> 0x20) text)"
  have "roomy st ?b" "contents (mc_elements ?b) = []"
    using assms(2) by (simp_all add: roomy_def beginLayout_def canCollapse_def all_texts_def contents_def)
  moreover have "concat (map (\<lambda>w. w @ blank space) ?words) = copied @ blank space"
    by (cases space) (simp_all add: copied_def concat_splitOn concat_splitOn_removes)
  then have "lays st (copied @ blank space) ?b ?c" using lays_TextElement [OF assms(1), of st space ?words] by metis
  ultimately have r: "roomy st ?c" "contents (mc_elements ?c) = copied @ blank space" and s: "spaced space ?c"
    using spaced_TextElement [OF _ assms(1)] by (simp_all add: lays_def)
  have e: "contents (mc_elements c) = copied" "all_texts (mc_elements c)"
    using contents_endLayout [OF r(1) _ r(2)] s assms(4,5) by (simp_all add: spaced_def)
  have short: "length copied \<le> length text" by (simp add: copied_def)
  have "getSelectionIndexCount e < 2 ^ 32" if m: "e \<in> set (mc_elements c)" for e
  proof -
    obtain xs ys where "mc_elements c = xs @ e # ys" using split_list [OF m] by blast
    then have "length (copyText e) \<le> length copied" "el_kind e = TextKind" using e by (auto simp: contents_def all_texts_def)
    then show ?thesis using length_copyText assms(3) short by force
  qed
  then have "addSelectionText c [] 0 (length text) Everything = copied"
    using selectionLoop_slice [OF e(2), of 0 0 "length text" "[]"] e short by (simp add: addSelectionText_def)
  then show ?thesis unfolding copied_def .
qed

section \<open>Lines\<close>

text \<open>The containers that the elements of a message make, between \<open>beginLayout\<close> and \<open>endLayout\<close>.\<close>

inductive laid_out :: "layout_api \<Rightarrow> layout_settings \<Rightarrow> layout_container \<Rightarrow> bool" for api st where
  laid_begin: "laid_out api st (beginLayout api width mflags c)"
| laid_add: "laid_out api st c \<Longrightarrow> laid_out api st (addElement api st e c)"
| laid_addNoLineBreak: "laid_out api st c \<Longrightarrow> laid_out api st (addElementNoLineBreak api st e c)"
| laid_break: "laid_out api st c \<Longrightarrow> laid_out api st (breakLine api st c)"
| laid_wordId: "laid_out api st c \<Longrightarrow> laid_out api st (fst (nextWordId c))"

definition charCount :: "layout_element list \<Rightarrow> nat" where
  "charCount es = sum_list (map getSelectionIndexCount es)"

definition spans :: "layout_line list \<Rightarrow> nat list" where
  "spans ls = concat (map (\<lambda>l. [startIndex l..<endIndex l]) ls)"

definition charSpans :: "layout_line list \<Rightarrow> nat list" where
  "charSpans ls = concat (map (\<lambda>l. [startCharIndex l..<endCharIndex l]) ls)"

text \<open>The lines so far are the elements up to the last break, without a gap and without an overlap.\<close>

definition lines_cover :: "layout_container \<Rightarrow> bool" where
  "lines_cover c \<longleftrightarrow>
     lineStart c \<le> length (mc_elements c) \<and> charIndex c = charCount (take (lineStart c) (mc_elements c)) \<and>
     spans (finishLine (lineStart c) (charIndex c) (mc_lines c)) = [0..<lineStart c] \<and>
     charSpans (finishLine (lineStart c) (charIndex c) (mc_lines c)) = [0..<charIndex c]"

lemma lines_cover_append:
  assumes "lines_cover c" "kept c' = kept c" "mc_elements c' = mc_elements c @ es"
  shows "lines_cover c'"
  using assms(1,3) kept_eqD [OF assms(2)] by (auto simp: lines_cover_def)

lemma charIndex_breakLine:
  assumes "charIndex c = charCount (take (lineStart c) (mc_elements c))" "lineStart c \<le> length (mc_elements c)"
  shows "charIndex (breakLine api st c) = charCount (mc_elements c)"
proof -
  let ?r = "reorderAfterUsername api st c"
  note k = kept_eqD [OF core_reorderAfterUsername(2) [of api st c]]
  have len: "length (mc_elements ?r) = length (mc_elements c)" using core_reorderAfterUsername(1) by (metis length_map)
  have g: "getSelectionIndexCount (moveElement api x ?r e) = getSelectionIndexCount e" for x e
    by (rule core_eqD(2)) (rule core_moveElement)
  have "map getSelectionIndexCount (drop n (mc_elements ?r)) = map getSelectionIndexCount (drop n (mc_elements c))" for n
    using core_copy(2) [OF core_reorderAfterUsername(1) [of api st c]] by (simp flip: drop_map)
  then have "charIndex (breakLine api st c) = charIndex c + charCount (drop (lineStart c) (mc_elements c))"
    using assms(2) by (simp add: breakLine_def Let_def k len charCount_def comp_def g)
  also have "\<dots> = charCount (take (lineStart c) (mc_elements c) @ drop (lineStart c) (mc_elements c))"
    unfolding assms(1) charCount_def map_append sum_list_append ..
  finally show ?thesis by simp
qed

lemma spans_snoc:
  "spans (ls @ [l]) = spans ls @ [startIndex l..<endIndex l]"
  "charSpans (ls @ [l]) = charSpans ls @ [startCharIndex l..<endCharIndex l]"
  by (simp_all add: spans_def charSpans_def)

lemma finishLine_snoc: "finishLine i ci (ls @ [l]) = ls @ [l\<lparr>endIndex := i, endCharIndex := ci\<rparr>]"
  by (simp add: finishLine_def)

lemma charCount_mono: "charCount (take n es) \<le> charCount es"
  by (metis append_take_drop_id charCount_def le_add1 map_append sum_list_append)

lemma upt_join: "i \<le> j \<Longrightarrow> j \<le> k \<Longrightarrow> [i..<j] @ [j..<k] = [i..<k]"
  by (metis le_Suc_ex upt_add_eq_append)

lemma lines_cover_breakLine:
  assumes "lines_cover c"
  shows "lines_cover (breakLine api st c)"
proof -
  let ?b = "breakLine api st c"
  have ci: "charIndex ?b = charCount (mc_elements c)" using assms charIndex_breakLine by (simp add: lines_cover_def)
  have es: "length (mc_elements ?b) = length (mc_elements c)" "charCount (mc_elements ?b) = charCount (mc_elements c)"
    using core_copy(2,4) [OF breakLine_keeps(1) [of api st c]] by (simp_all add: charCount_def)
  show ?thesis using assms charCount_mono [of "lineStart c" "mc_elements c"]
    by (auto simp: lines_cover_def breakLine_keeps(4,5) ci es finishLine_snoc spans_snoc upt_join)
qed

lemma addElement_at_appends:
  "kept (addElement_at api st b e c) = kept c"
  "\<exists>es. mc_elements (addElement_at api st b e c) = mc_elements c @ es"
  using core_placeElement(2,3) [of api st Adding e c]
  by (auto simp: addElement_at_def Let_def case_prod_beta' kept_currentX)

lemma lines_cover_addElement_at: "lines_cover c \<Longrightarrow> lines_cover (addElement_at api st b e c)"
  using lines_cover_append addElement_at_appends by metis

lemma laid_out_lines_cover: "laid_out api st c \<Longrightarrow> lines_cover c"
proof (induction rule: laid_out.induct)
  case (laid_begin width mflags c)
  then show ?case by (simp add: lines_cover_def beginLayout_def finishLine_def spans_def charSpans_def charCount_def)
next
  case (laid_wordId c)
  then show ?case by (auto simp: lines_cover_def nextWordId_def)
qed (simp_all add: addElement_def addElementNoLineBreak_def lines_cover_addElement_at lines_cover_breakLine)

lemma laid_out_wrapLoop:
  assumes "laid_out api st c"
  shows "laid_out api st (wrapLoop api st fs wid word space wordStart i width c)"
  using wrapLoop_invariant [where I = "laid_out api st", OF laid_break [OF laid_addNoLineBreak] assms]
  by (metis laid_addNoLineBreak)

lemma laid_out_addWord: "laid_out api st c \<Longrightarrow> laid_out api st (addWord api st fs space word c)"
  using laid_wordId [of api st c]
  by (auto simp: addWord_def Let_def case_prod_beta' intro!: laid_out_wrapLoop intro: laid_out.intros)

lemma laid_out_TextElement:
  assumes "laid_out api st c"
  shows "laid_out api st (TextElement_addToContainer api st shown fs space words c)"
proof -
  have "laid_out api st (foldl (\<lambda>c word. addWord api st fs space word c) c words)"
    using assms by (induction words arbitrary: c) (simp_all add: laid_out_addWord)
  then show ?thesis using assms by (simp add: TextElement_addToContainer_def)
qed

lemma lines_cover_core:
  assumes "lines_cover c" "kept c' = kept c" "map core (mc_elements c') = map core (mc_elements c)"
  shows "lines_cover c'"
proof -
  have "charCount (take n (mc_elements c')) = charCount (take n (mc_elements c))" for n
    using core_copy(2) [OF assms(3)] by (simp add: charCount_def flip: take_map)
  then show ?thesis using assms(1) kept_eqD [OF assms(2)] core_copy(4) [OF assms(3)] by (auto simp: lines_cover_def)
qed

lemma lines_cover_collapseEnd:
  assumes "lines_cover c"
  shows "lines_cover (collapseEnd api st c)"
proof -
  have "map core (take n es @ map (\<lambda>e. e\<lparr>el_x := el_x e + w\<rparr>) (drop n es)) = map core es" for n w es
    by (simp add: comp_def core_fields) (simp only: map_append [symmetric] append_take_drop_id)
  then have x: "lines_cover (c\<lparr>mc_elements := take n (mc_elements c) @
      map (\<lambda>e. e\<lparr>el_x := el_x e + dotdotdotWidth c\<rparr>) (drop n (mc_elements c))\<rparr>)" for n
    by (intro lines_cover_core [OF assms]) (simp_all add: kept_currentX)
  have "lines_cover (c\<lparr>mc_isCollapsed := True\<rparr>) \<longleftrightarrow> lines_cover c" for c by (simp add: lines_cover_def)
  then show ?thesis using assms x by (simp add: collapseEnd_def Let_def lines_cover_addElement_at)
qed

text \<open>Reordering a line places each of its elements once.\<close>

lemma reorderLoop_permutes: "mset (snd (reorderLoop api dir is es r swapped correct)) = mset is + mset swapped + mset correct"
  by (induction api dir "is" es r swapped correct rule: reorderLoop.induct) (simp_all add: Let_def)

text \<open>The numbers of the lines that the elements were given.\<close>

definition lineNumbers :: "layout_container \<Rightarrow> nat list" where
  "lineNumbers c = map el_line (mc_elements c)"

lemma mc_line_steps:
  "mc_line (noteDirection api mode e c) = mc_line c" "mc_line (raiseLine api e c) = mc_line c"
  "mc_line (joinEmotes st mode b e c) = mc_line c"
  by (simp_all add: noteDirection_def raiseLine_def joinEmotes_def Let_def)

lemma line_placeElement:
  "mc_line (fst (placeElement api st mode e c)) = mc_line c" "el_line (snd (placeElement api st mode e c)) = mc_line c"
  by (simp_all add: placeElement_def Let_def mc_line_steps)

lemma lines_repositionElement:
  assumes "i < length (mc_elements c)" "lineNumbers c ! i = mc_line c"
  shows "lineNumbers (repositionElement api st prev i c) = lineNumbers c"
    "mc_line (repositionElement api st prev i c) = mc_line c"
proof -
  have "(map el_line (mc_elements c))[i := mc_line c] = map el_line (mc_elements c)"
    using assms by (metis lineNumbers_def list_update_id)
  then show "lineNumbers (repositionElement api st prev i c) = lineNumbers c"
    by (simp add: lineNumbers_def repositionElement_def case_prod_beta' Let_def core_placeElement line_placeElement map_update)
  show "mc_line (repositionElement api st prev i c) = mc_line c"
    by (simp add: repositionElement_def case_prod_beta' Let_def line_placeElement)
qed

lemma lines_placeLoop:
  assumes "\<forall>i\<in>set is. i < length (mc_elements c) \<and> lineNumbers c ! i = mc_line c"
  shows "lineNumbers (placeLoop api st prev is c) = lineNumbers c \<and> mc_line (placeLoop api st prev is c) = mc_line c"
  using assms
proof (induction "is" arbitrary: prev c)
  case (Cons i "is")
  let ?c = "repositionElement api st prev i c"
  have r: "lineNumbers ?c = lineNumbers c" "mc_line ?c = mc_line c"
    using lines_repositionElement [of i c] Cons.prems by simp_all
  moreover have "length (mc_elements ?c) = length (mc_elements c)" using core_repositionElement(1) by (metis length_map)
  ultimately show ?case using Cons.IH [of ?c] Cons.prems by simp
qed simp

lemma lines_reorderLoop: "map el_line (fst (reorderLoop api dir is es r sw co)) = map el_line es"
proof (induction api dir "is" es r sw co rule: reorderLoop.induct)
  case (2 api dir i "is" es r sw co)
  have "map el_line (es[i := (es ! i)\<lparr>reversedNeutral := True\<rparr>]) = map el_line es"
    by (cases "i < length es") (simp_all add: map_update list_update_same_conv list_update_beyond)
  then show ?case using 2 by (simp add: Let_def)
qed simp

text \<open>Reordering leaves every element in its line.\<close>

definition open_line :: "layout_container \<Rightarrow> bool" where
  "open_line c \<longleftrightarrow> (\<forall>i. lineStart c \<le> i \<longrightarrow> i < length (mc_elements c) \<longrightarrow> lineNumbers c ! i = mc_line c)"

lemma lines_reorderRTL:
  assumes "open_line c"
  shows "lineNumbers (reorderRTL api st n c) = lineNumbers c \<and> mc_line (reorderRTL api st n c) = mc_line c"
proof (cases "mc_elements c = [] \<or> n \<ge> length (mc_elements c) - 1 \<or> lineStart c \<ge> length (mc_elements c)")
  case True
  then show ?thesis by (auto simp: reorderRTL_def Let_def)
next
  case False
  define first where "first = max (lineStart c) n"
  define r where "r = reorderLoop api (textDirection c) [first..<Suc (length (mc_elements c) - 1)] (mc_elements c) False [] []"
  define x where "x = (if textDirection c = RTL then el_right (fst r ! (length (mc_elements c) - 1)) else el_x (fst r ! first))"
  let ?c = "c\<lparr>mc_elements := fst r, currentX := x\<rparr>"
  have e: "reorderRTL api st n c = placeLoop api st None (snd r) ?c"
    using False by (simp add: reorderRTL_def Let_def case_prod_beta' r_def first_def x_def)
  have "map el_line (fst r) = map el_line (mc_elements c)" unfolding r_def by (rule lines_reorderLoop)
  then have l: "lineNumbers ?c = lineNumbers c" "length (fst r) = length (mc_elements c)"
    by (simp_all add: lineNumbers_def) (metis length_map)
  have "mset (snd r) = mset [first..<Suc (length (mc_elements c) - 1)]"
    unfolding r_def by (subst reorderLoop_permutes) simp
  then have "set (snd r) = {first..<length (mc_elements c)}"
    using False mset_eq_setD by fastforce
  then have "\<forall>i\<in>set (snd r). i < length (mc_elements ?c) \<and> lineNumbers ?c ! i = mc_line ?c"
    using assms l by (simp add: open_line_def first_def)
  from lines_placeLoop [OF this, of api st None] show ?thesis using e l by simp
qed

lemma lines_reorderAfterUsername:
  assumes "open_line c"
  shows "lineNumbers (reorderAfterUsername api st c) = lineNumbers c" "mc_line (reorderAfterUsername api st c) = mc_line c"
  using lines_reorderRTL [OF assms] by (auto simp: reorderAfterUsername_def lineNumbers_def split: option.splits)

lemma line_breakLine:
  assumes "open_line c"
  shows "lineNumbers (breakLine api st c) = lineNumbers c"
    "mc_line (breakLine api st c) =
      (if canCollapse st c \<and> int (mc_line c + 1) \<ge> collpseMessagesMinLines st then mc_line c else mc_line c + 1)"
proof -
  let ?r = "reorderAfterUsername api st c"
  note r = lines_reorderAfterUsername [OF assms, of api st]
  have "map el_line (take n es @ map (moveElement api x ?r) (drop n es)) = map el_line es" for n x es
    by (simp add: moveElement_def comp_def) (simp only: map_append [symmetric] append_take_drop_id)
  then show "lineNumbers (breakLine api st c) = lineNumbers c"
    using r(1) by (simp add: lineNumbers_def breakLine_def Let_def)
  have "canCollapse st ?r = canCollapse st c" using kept_eqD(1) [OF core_reorderAfterUsername(2)] by (metis canCollapse_def)
  then show "mc_line (breakLine api st c) =
      (if canCollapse st c \<and> int (mc_line c + 1) \<ge> collpseMessagesMinLines st then mc_line c else mc_line c + 1)"
    using r(2) by (auto simp: breakLine_def Let_def canCollapse_def)
qed

text \<open>Every line holds the elements that were given its number.  When the message collapses, the number stays at the one
  of the last full line.\<close>

definition numbered_lines :: "layout_container \<Rightarrow> layout_line list \<Rightarrow> bool" where
  "numbered_lines c ls \<longleftrightarrow> (\<forall>k<length ls. \<forall>i<length (mc_elements c).
     startIndex (ls ! k) \<le> i \<longrightarrow> i < endIndex (ls ! k) \<longrightarrow> lineNumbers c ! i = min k (mc_line c))"

definition numbered :: "layout_settings \<Rightarrow> layout_container \<Rightarrow> bool" where
  "numbered st c \<longleftrightarrow>
     sorted (lineNumbers c) \<and> (\<forall>n\<in>set (lineNumbers c). n \<le> mc_line c) \<and> open_line c \<and>
     numbered_lines c (finishLine (lineStart c) (charIndex c) (mc_lines c)) \<and>
     (if canAddMessages c then mc_line c = length (mc_lines c)
      else mc_line c < length (mc_lines c) \<and> canCollapse st c \<and> int (mc_line c + 1) \<ge> collpseMessagesMinLines st)"

lemma finishLine_nth:
  "k < length ls \<Longrightarrow> finishLine i ci ls ! k = (if Suc k = length ls then (ls ! k)\<lparr>endIndex := i, endCharIndex := ci\<rparr> else ls ! k)"
proof (cases "Suc k = length ls")
  case True
  then obtain ls' l where "ls = ls' @ [l]" "length ls' = k" by (cases ls rule: rev_cases) auto
  then show ?thesis by (simp add: finishLine_def nth_append)
qed (auto simp: finishLine_def nth_append nth_butlast)

lemma length_finishLine [simp]: "length (finishLine i ci ls) = length ls"
  by (simp add: finishLine_def)

lemma in_line_before:
  assumes "lines_cover c" "k < length (mc_lines c)"
    "startIndex (finishLine (lineStart c) (charIndex c) (mc_lines c) ! k) \<le> i"
    "i < endIndex (finishLine (lineStart c) (charIndex c) (mc_lines c) ! k)"
  shows "i < lineStart c"
proof -
  let ?ls = "finishLine (lineStart c) (charIndex c) (mc_lines c)"
  have "?ls ! k \<in> set ?ls" using assms(2) by simp
  then have "i \<in> set (spans ?ls)" using assms(3,4) by (force simp: spans_def)
  moreover have "spans ?ls = [0..<lineStart c]" using assms(1) unfolding lines_cover_def by blast
  ultimately show ?thesis by simp
qed

lemma numbered_append:
  assumes "numbered st c" "lines_cover c" "kept c' = kept c" "mc_line c' = mc_line c"
    "lineNumbers c' = lineNumbers c @ replicate n (mc_line c)"
  shows "sorted (lineNumbers c') \<and> (\<forall>n\<in>set (lineNumbers c'). n \<le> mc_line c') \<and> open_line c' \<and>
     numbered_lines c' (finishLine (lineStart c') (charIndex c') (mc_lines c'))"
proof (intro conjI)
  note k = kept_eqD [OF assms(3)]
  note n = assms(1) [unfolded numbered_def]
  have len: "length (mc_elements c') = length (mc_elements c) + n" "length (lineNumbers c) = length (mc_elements c)"
    using assms(5) by (metis length_append length_map length_replicate lineNumbers_def, simp add: lineNumbers_def)
  show "sorted (lineNumbers c')" "\<forall>n\<in>set (lineNumbers c'). n \<le> mc_line c'"
    using n assms(4,5) by (auto simp: sorted_append)
  show "open_line c'" using n len assms(4,5) by (auto simp: open_line_def k nth_append)
  show "numbered_lines c' (finishLine (lineStart c') (charIndex c') (mc_lines c'))"
    unfolding numbered_lines_def length_finishLine k
  proof (intro allI impI)
    fix j i
    assume j: "j < length (mc_lines c)" and i: "startIndex (finishLine (lineStart c) (charIndex c) (mc_lines c) ! j) \<le> i"
      "i < endIndex (finishLine (lineStart c) (charIndex c) (mc_lines c) ! j)"
    have "i < length (mc_elements c)" using in_line_before [OF assms(2) j i] assms(2) by (simp add: lines_cover_def)
    then show "lineNumbers c' ! i = min j (mc_line c')"
      using n j i len assms(4,5) by (simp add: numbered_lines_def nth_append)
  qed
qed

lemma numbered_same:
  assumes "numbered st c" "lines_cover c" "kept c' = kept c" "mc_line c' = mc_line c"
    "lineNumbers c' = lineNumbers c @ replicate n (mc_line c)"
  shows "numbered st c'"
  using numbered_append [OF assms] assms(1,4) kept_eqD [OF assms(3)]
  by (auto simp: numbered_def canCollapse_def split: if_splits)

lemma lineNumbers_addElement_at:
  "\<exists>n. lineNumbers (addElement_at api st b e c) = lineNumbers c @ replicate n (mc_line c)"
  "mc_line (addElement_at api st b e c) = mc_line c"
proof -
  have "lineNumbers (addElement_at api st b e c) =
      lineNumbers c @ replicate (if \<not> canAddMessages c \<and> \<not> b then 0 else 1) (mc_line c)"
    by (simp add: lineNumbers_def addElement_at_def Let_def case_prod_beta' line_placeElement core_placeElement)
  then show "\<exists>n. lineNumbers (addElement_at api st b e c) = lineNumbers c @ replicate n (mc_line c)" ..
  show "mc_line (addElement_at api st b e c) = mc_line c"
    by (simp add: addElement_at_def Let_def case_prod_beta' line_placeElement)
qed

lemma numbered_addElement_at: "numbered st c \<Longrightarrow> lines_cover c \<Longrightarrow> numbered st (addElement_at api st b e c)"
  using numbered_same addElement_at_appends(1) lineNumbers_addElement_at by metis

text \<open>A break of the line: the elements since the last one become the next line.\<close>

lemma numbered_lines_breakLine:
  assumes n: "sorted (lineNumbers c) \<and> (\<forall>n\<in>set (lineNumbers c). n \<le> mc_line c) \<and> open_line c \<and>
     numbered_lines c (finishLine (lineStart c) (charIndex c) (mc_lines c))"
    and lc: "lines_cover c" and m: "mc_line c \<le> length (mc_lines c)" "mc_line (breakLine api st c) = mc_line c \<or>
      mc_line c = length (mc_lines c)"
  shows "sorted (lineNumbers (breakLine api st c)) \<and> (\<forall>n\<in>set (lineNumbers (breakLine api st c)). n \<le> mc_line (breakLine api st c)) \<and>
    open_line (breakLine api st c) \<and>
    numbered_lines (breakLine api st c) (finishLine (lineStart (breakLine api st c)) (charIndex (breakLine api st c)) (mc_lines (breakLine api st c)))"
proof (intro conjI)
  let ?b = "breakLine api st c" and ?ls = "finishLine (lineStart c) (charIndex c) (mc_lines c)"
  have ol: "open_line c" using n by simp
  note b = line_breakLine [OF ol, of api st]
  have len: "length (mc_elements ?b) = length (mc_elements c)" using core_copy(4) [OF breakLine_keeps(1)] .
  have le: "mc_line c \<le> mc_line ?b" using b(2) by simp
  show "sorted (lineNumbers ?b)" "\<forall>n\<in>set (lineNumbers ?b). n \<le> mc_line ?b" using n b(1) le by auto
  show "open_line ?b" by (simp add: open_line_def breakLine_keeps(4) len)
  show "numbered_lines ?b (finishLine (lineStart ?b) (charIndex ?b) (mc_lines ?b))"
    unfolding numbered_lines_def length_finishLine len b(1)
  proof (intro allI impI)
    fix k i
    assume k: "k < length (mc_lines ?b)" and i: "i < length (mc_elements c)"
      and r: "startIndex (finishLine (lineStart ?b) (charIndex ?b) (mc_lines ?b) ! k) \<le> i"
      "i < endIndex (finishLine (lineStart ?b) (charIndex ?b) (mc_lines ?b) ! k)"
    have k': "k \<le> length (mc_lines c)" using k by (simp add: breakLine_keeps(5))
    show "lineNumbers c ! i = min k (mc_line ?b)"
    proof (cases "k = length (mc_lines c)")
      case True
      then have "lineStart c \<le> i" using r by (simp add: breakLine_keeps(5) finishLine_snoc nth_append)
      then have "lineNumbers c ! i = mc_line c" using ol i by (simp add: open_line_def)
      then show ?thesis using True m le by auto
    next
      case False
      then have lt: "k < length (mc_lines c)" using k' by simp
      then have "startIndex (?ls ! k) \<le> i" "i < endIndex (?ls ! k)"
        using r by (simp_all add: breakLine_keeps(5) finishLine_snoc nth_append)
      then have "lineNumbers c ! i = min k (mc_line c)" using n lt i by (simp add: numbered_lines_def)
      then show ?thesis using m lt le by auto
    qed
  qed
qed

lemma numbered_breakLine:
  assumes "numbered st c" "lines_cover c"
  shows "numbered st (breakLine api st c)"
proof -
  let ?b = "breakLine api st c"
  have ol: "open_line c" using assms(1) by (simp add: numbered_def)
  note b = line_breakLine [OF ol, of api st]
  have r: "mc_line (reorderAfterUsername api st c) = mc_line c" using lines_reorderAfterUsername [OF ol] by simp
  have c: "canCollapse st ?b = canCollapse st c" using breakLine_keeps(2) [of api st c] by (simp add: canCollapse_def)
  have l: "length (mc_lines ?b) = Suc (length (mc_lines c))" by (simp add: breakLine_keeps(5))
  have "mc_line c \<le> length (mc_lines c)" "mc_line ?b = mc_line c \<or> mc_line c = length (mc_lines c)"
    using assms(1) b(2) by (auto simp: numbered_def split: if_splits)
  from numbered_lines_breakLine [OF _ assms(2) this] show ?thesis
    using assms(1) b(2) l c breakLine_keeps(3) [of api st c] r by (auto simp: numbered_def split: if_splits)
qed

lemma laid_out_numbered: "laid_out api st c \<Longrightarrow> numbered st c"
proof (induction rule: laid_out.induct)
  case (laid_begin width mflags c)
  then show ?case
    by (simp add: numbered_def lineNumbers_def open_line_def numbered_lines_def beginLayout_def)
next
  case (laid_wordId c)
  then show ?case
    by (auto simp: numbered_def lineNumbers_def open_line_def numbered_lines_def nextWordId_def canCollapse_def)
next
  case (laid_add c e)
  then show ?case using laid_out_lines_cover
    by (auto simp: addElement_def Let_def intro!: numbered_addElement_at numbered_breakLine lines_cover_breakLine)
next
  case (laid_addNoLineBreak c e)
  then show ?case using laid_out_lines_cover by (simp add: addElementNoLineBreak_def numbered_addElement_at)
next
  case (laid_break c)
  then show ?case using laid_out_lines_cover by (simp add: numbered_breakLine)
qed

lemma map_last: "xs \<noteq> [] \<Longrightarrow> f (g (last xs)) = f (last xs) \<Longrightarrow> map f (butlast xs @ [g (last xs)]) = map f xs"
  by (cases xs rule: rev_cases) simp_all

lemma map_outerLines:
  assumes "\<And>l y. f (setTop y l) = f l" "\<And>l y. f (setBottom y l) = f l"
  shows "map f (outerLines ls) = map f ls"
proof (cases ls)
  case (Cons l ls')
  then show ?thesis using map_last [of "setTop (-100000) l # ls'" f "setBottom 100000"] assms
    by (simp add: outerLines_def Let_def)
qed (simp add: outerLines_def)

lemma length_outerLines [simp]: "length (outerLines ls) = length ls"
  using map_outerLines [of "\<lambda>_. ()" ls] by (metis length_map)

lemma outerLines_nth:
  assumes "k < length ls"
  shows "startIndex (outerLines ls ! k) = startIndex (ls ! k)" "endIndex (outerLines ls ! k) = endIndex (ls ! k)"
proof -
  have "map startIndex (outerLines ls) = map startIndex ls" "map endIndex (outerLines ls) = map endIndex ls"
    by (rule map_outerLines; simp add: setTop_def setBottom_def)+
  then show "startIndex (outerLines ls ! k) = startIndex (ls ! k)" "endIndex (outerLines ls ! k) = endIndex (ls ! k)"
    using assms by (metis length_map nth_map)+
qed

lemma finish_outerLines:
  "k < length ls \<Longrightarrow> startIndex (finishLine i ci (outerLines ls) ! k) = startIndex (finishLine i ci ls ! k)"
  "k < length ls \<Longrightarrow> endIndex (finishLine i ci (outerLines ls) ! k) = endIndex (finishLine i ci ls ! k)"
  by (simp_all add: finishLine_nth outerLines_nth)

lemma spans_outerLines: "spans (finishLine i ci (outerLines ls)) = spans (finishLine i ci ls)"
proof -
  have "map (\<lambda>l. [startIndex l..<endIndex l]) (finishLine i ci (outerLines ls)) =
      map (\<lambda>l. [startIndex l..<endIndex l]) (finishLine i ci ls)"
    by (rule nth_equalityI) (simp_all add: finish_outerLines)
  then show ?thesis by (simp add: spans_def)
qed

lemma elementBefore_strict_weak: "strict_weak elementBefore"
  by (auto simp: strict_weak_def elementBefore_def split: if_splits)

text \<open>Sorting at the end moves no element to another line, since the elements are in the order of their lines before.\<close>

lemma sort_keeps_lines:
  assumes "std_sort_law f" "sorted (map el_line es)"
  shows "map el_line (f elementBefore es) = map el_line es"
proof -
  note l = std_sortD [OF assms(1) elementBefore_strict_weak, of es]
  have "sorted (map el_line (f elementBefore es))" unfolding sorted_map
    by (rule sorted_wrt_mono_rel [OF _ l(2)]) (auto simp: elementBefore_def split: if_splits)
  moreover have "mset (map el_line (f elementBefore es)) = mset (map el_line es)" using l(1) by (metis mset_map)
  ultimately show ?thesis using assms(2) by (metis properties_for_sort)
qed

lemma lineNumbers_collapseEnd:
  assumes "laid_out api st c"
  defines "c1 \<equiv> collapseEnd api st c"
  shows "sorted (lineNumbers c1) \<and> (\<forall>n\<in>set (lineNumbers c1). n \<le> mc_line c1) \<and> open_line c1 \<and>
     numbered_lines c1 (finishLine (lineStart c1) (charIndex c1) (mc_lines c1))"
    "if canAddMessages c then c1 = c \<and> mc_line c = length (mc_lines c)
     else mc_isCollapsed c1 \<and> mc_line c1 < length (mc_lines c1) \<and> canCollapse st c1 \<and>
       int (mc_line c1 + 1) \<ge> collpseMessagesMinLines st"
proof -
  note n = laid_out_numbered [OF assms(1)] and lc = laid_out_lines_cover [OF assms(1)]
  define c0 where "c0 = (if textDirection c = RTL then
      c\<lparr>mc_elements := take (startIndex (last (mc_lines c))) (mc_elements c) @
        map (\<lambda>e. e\<lparr>el_x := el_x e + dotdotdotWidth c\<rparr>) (drop (startIndex (last (mc_lines c))) (mc_elements c))\<rparr> else c)"
  have "map el_line (take k es @ map (\<lambda>e. e\<lparr>el_x := el_x e + w\<rparr>) (drop k es)) = map el_line es" for k w and es :: "layout_element list"
    by (simp add: comp_def) (simp only: map_append [symmetric] append_take_drop_id)
  then have c0: "kept c0 = kept c" "mc_line c0 = mc_line c" "lineNumbers c0 = lineNumbers c"
    by (simp_all add: c0_def kept_currentX lineNumbers_def)
  obtain k where k: "lineNumbers (addElement_at api st True (dotdotdot c0) c0) = lineNumbers c @ replicate k (mc_line c)"
    using lineNumbers_addElement_at(1) c0 by metis
  show "if canAddMessages c then c1 = c \<and> mc_line c = length (mc_lines c)
     else mc_isCollapsed c1 \<and> mc_line c1 < length (mc_lines c1) \<and> canCollapse st c1 \<and>
       int (mc_line c1 + 1) \<ge> collpseMessagesMinLines st"
  proof (cases "canAddMessages c")
    case False
    have c1: "c1 = (addElement_at api st True (dotdotdot c0) c0)\<lparr>mc_isCollapsed := True\<rparr>"
      using False by (simp add: c1_def collapseEnd_def c0_def Let_def)
    note kd = kept_eqD [OF trans [OF addElement_at_appends(1) [of api st True "dotdotdot c0" c0] c0(1)]]
    show ?thesis using False n c0 kd unfolding c1
      by (simp add: numbered_def lineNumbers_addElement_at canCollapse_def)
  qed (use n in \<open>simp add: c1_def collapseEnd_def numbered_def\<close>)
  show "sorted (lineNumbers c1) \<and> (\<forall>n\<in>set (lineNumbers c1). n \<le> mc_line c1) \<and> open_line c1 \<and>
     numbered_lines c1 (finishLine (lineStart c1) (charIndex c1) (mc_lines c1))"
  proof (cases "canAddMessages c")
    case False
    have c1: "c1 = (addElement_at api st True (dotdotdot c0) c0)\<lparr>mc_isCollapsed := True\<rparr>"
      using False by (simp add: c1_def collapseEnd_def c0_def Let_def)
    have "kept c1 = kept c" unfolding c1 using addElement_at_appends(1) [of api st True "dotdotdot c0" c0] c0(1) by (simp add: kept_def)
    moreover have "mc_line c1 = mc_line c" "lineNumbers c1 = lineNumbers c @ replicate k (mc_line c)"
      unfolding c1 using k c0(2) by (simp_all add: lineNumbers_addElement_at) (simp add: lineNumbers_def)
    ultimately show ?thesis by (rule numbered_append [OF n lc])
  next
    case True
    then have "c1 = c" by (simp add: c1_def collapseEnd_def)
    then show ?thesis using n unfolding numbered_def by blast
  qed
qed

lemma line_last:
  "map el_line (if es \<noteq> [] then butlast es @ [(last es)\<lparr>trailingSpace := b\<rparr>] else es) = map el_line es"
  by (cases es rule: rev_cases) simp_all

lemma collapsed_steps:
  "mc_isCollapsed (noteDirection api mode e c) = mc_isCollapsed c" "mc_isCollapsed (raiseLine api e c) = mc_isCollapsed c"
  "mc_isCollapsed (joinEmotes st mode b e c) = mc_isCollapsed c"
  by (simp_all add: noteDirection_def raiseLine_def joinEmotes_def Let_def)

lemma collapsed_placeLoop: "mc_isCollapsed (placeLoop api st prev is c) = mc_isCollapsed c"
proof -
  have "mc_isCollapsed (fst (placeElement api st mode e c)) = mc_isCollapsed c" for mode e c
    by (simp add: placeElement_def Let_def collapsed_steps)
  then have "mc_isCollapsed (repositionElement api st prev i c) = mc_isCollapsed c" for prev i c
    by (simp add: repositionElement_def case_prod_beta' Let_def)
  then show ?thesis by (induction "is" arbitrary: prev c) simp_all
qed

lemma collapsed_breakLine: "mc_isCollapsed (breakLine api st c) = mc_isCollapsed c"
proof -
  have "mc_isCollapsed (reorderRTL api st n c) = mc_isCollapsed c" for n
    by (simp add: reorderRTL_def Let_def case_prod_beta' collapsed_placeLoop)
  then have "mc_isCollapsed (reorderAfterUsername api st c) = mc_isCollapsed c"
    by (simp add: reorderAfterUsername_def split: option.split)
  then show ?thesis by (simp add: breakLine_def Let_def)
qed

text \<open>
  C36. When a message is laid out, its lines are its elements, each in one line and in order, whatever was added, collapsed
  or reordered: the range of each line holds the elements that were placed in it, and in a reordered message these go from
  left to right.  In a collapsed message the dots behind the end, which have a range of their own, have the number of
  the last full line.\<close>

theorem layout_lines_partition:
  assumes "laid_out api st c" "std_sort_law sortElements" "c' = endLayout api st sortElements c"
  shows "spans (mc_lines c') = [0..<length (mc_elements c')] \<and>
    (\<forall>k<length (mc_lines c'). \<forall>i. startIndex (mc_lines c' ! k) \<le> i \<longrightarrow> i < endIndex (mc_lines c' ! k) \<longrightarrow>
       el_line (mc_elements c' ! i) = (if mc_isCollapsed c' then min k (mc_line c') else k)) \<and>
    (anyReorderingDone c' \<longrightarrow> (\<forall>i j. i < j \<longrightarrow> j < length (mc_elements c') \<longrightarrow>
       el_line (mc_elements c' ! i) = el_line (mc_elements c' ! j) \<longrightarrow> el_x (mc_elements c' ! i) \<le> el_x (mc_elements c' ! j)))"
proof -
  define c1 where "c1 = collapseEnd api st c"
  define c2 where "c2 = (if \<not> atStartOfLine c1 then breakLine api st c1 else c1)"
  note n1 = lineNumbers_collapseEnd [OF assms(1), folded c1_def]
  have lc1: "lines_cover c1" using assms(1) laid_out_lines_cover lines_cover_collapseEnd by (simp add: c1_def)
  have ol: "open_line c1" using n1(1) by simp
  have m: "mc_line c1 \<le> length (mc_lines c1)" "mc_line (breakLine api st c1) = mc_line c1 \<or> mc_line c1 = length (mc_lines c1)"
    using n1(2) line_breakLine(2) [OF ol, of api st] by (auto split: if_splits)
  have c2: "sorted (lineNumbers c2)" "numbered_lines c2 (finishLine (lineStart c2) (charIndex c2) (mc_lines c2))" "lines_cover c2"
    using numbered_lines_breakLine [OF n1(1) lc1 m] n1(1) lc1 lines_cover_breakLine [OF lc1] by (auto simp: c2_def)
  have len: "lineStart c2 = length (mc_elements c2)"
    using breakLine_keeps(4) [of api st c1] core_copy(4) [OF breakLine_keeps(1) [of api st c1]] by (auto simp: c2_def atStartOfLine_def)
  have full: "k \<le> mc_line c2" if "canAddMessages c" "k < length (mc_lines c2)" for k
    using that n1(2) line_breakLine(2) [OF ol, of api st] by (auto simp: c2_def breakLine_keeps(5) split: if_splits)
  define es where "es = (if mc_elements c2 \<noteq> [] then
      butlast (mc_elements c2) @ [(last (mc_elements c2))\<lparr>trailingSpace := False\<rparr>] else mc_elements c2)"
  have es: "map el_line es = lineNumbers c2" unfolding es_def lineNumbers_def by (rule line_last)
  have c': "mc_elements c' = (if anyReorderingDone c' then sortElements elementBefore es else es)"
    "mc_lines c' = finishLine (lineStart c2) (charIndex c2) (outerLines (mc_lines c2))" "mc_line c' = mc_line c2"
    unfolding assms(3) by (simp_all add: endLayout_def Let_def c1_def [symmetric] c2_def [symmetric] es_def len split: if_split)
  have "mc_isCollapsed c' = mc_isCollapsed c1"
    unfolding assms(3) by (simp add: endLayout_def Let_def c1_def [symmetric] collapsed_breakLine split: if_split)
  then have col: "mc_isCollapsed c' \<or> canAddMessages c" using n1(2) by (auto split: if_splits)
  have nums: "map el_line (mc_elements c') = lineNumbers c2"
    using c'(1) es sort_keeps_lines [OF assms(2), of es] c2(1) by simp
  have l: "length (mc_elements c') = length (mc_elements c2)" using nums by (metis length_map lineNumbers_def)
  show ?thesis
  proof (intro conjI allI impI)
    show "spans (mc_lines c') = [0..<length (mc_elements c')]"
      using c2(3) unfolding c'(2) spans_outerLines lines_cover_def l len [symmetric] by blast
  next
    fix k i
    assume k: "k < length (mc_lines c')" and i: "startIndex (mc_lines c' ! k) \<le> i" "i < endIndex (mc_lines c' ! k)"
    have k2: "k < length (mc_lines c2)" using k by (simp add: c'(2))
    have i2: "startIndex (finishLine (lineStart c2) (charIndex c2) (mc_lines c2) ! k) \<le> i"
      "i < endIndex (finishLine (lineStart c2) (charIndex c2) (mc_lines c2) ! k)"
      using i by (simp_all add: c'(2) finish_outerLines [OF k2])
    have lt: "i < length (mc_elements c2)" using in_line_before [OF c2(3) k2 i2] len by simp
    have "el_line (mc_elements c' ! i) = lineNumbers c2 ! i" using nums lt l by (metis nth_map)
    also have "\<dots> = min k (mc_line c2)" using c2(2) k2 i2 lt by (simp add: numbered_lines_def)
    finally show "el_line (mc_elements c' ! i) = (if mc_isCollapsed c' then min k (mc_line c') else k)"
      using col full [OF _ k2] c'(3) by auto
  next
    fix i j
    assume r: "anyReorderingDone c'" and ij: "i < j" "j < length (mc_elements c')"
      and eq: "el_line (mc_elements c' ! i) = el_line (mc_elements c' ! j)"
    have "\<not> elementBefore (mc_elements c' ! j) (mc_elements c' ! i)"
      using std_sortD(2) [OF assms(2) elementBefore_strict_weak, of es] r c'(1) ij by (simp add: sorted_wrt_iff_nth_less)
    then show "el_x (mc_elements c' ! i) \<le> el_x (mc_elements c' ! j)" using eq by (simp add: elementBefore_def)
  qed
qed

definition sample_api :: layout_api where
  "sample_api = \<lparr>scaled = (\<lambda>x. x), minusScaled = (\<lambda>a b. a - b), isRightToLeft = (\<lambda>t. t = [0x5D0]), hasLetter = (\<lambda>t. t \<noteq> []),
     horizontalAdvance = (\<lambda>t. 10 * int (length t)), fontHeight = 12\<rparr>"

definition sample_container :: layout_container where
  "sample_container = \<lparr>mc_width = 0, mc_flags = 0, mc_line = 0, mc_height = 0, currentX = 0, currentY = 0, charIndex = 0,
     lineStart = 0, lineHeight = 0, spaceWidth = 0, textLineHeight = 0, dotdotdotWidth = 0, currentWordId = 0,
     canAddMessages = True, mc_isCollapsed = False, lineContainsRTL = False, anyReorderingDone = False,
     textDirection = Neutral, mc_elements = [], mc_lines = []\<rparr>"

definition sample_layout_settings :: layout_settings where
  "sample_layout_settings = \<lparr>collpseMessagesMinLines = 0, removeSpacesBetweenEmotes = False\<rparr>"

definition sample_layout :: layout_container where
  "sample_layout = endLayout sample_api sample_layout_settings sort_by
     (TextElement_addToContainer sample_api sample_layout_settings [EF_Text] [EF_Text] True (splitOn 0x20 (qs ''a word''))
       (beginLayout sample_api 40 0 sample_container))"

lemma sample_layout_elements:
  "map (\<lambda>e. (el_text e, trailingSpace e, el_line e)) (mc_elements sample_layout) =
    [(qs ''a'', True, 0), (qs ''wo'', False, 1), (qs ''rd'', False, 2)]"
  "anyReorderingDone sample_layout = False"
  by code_simp+


text \<open>A selection of this message, from one line into the next.\<close>

lemma addSelectionText_slice_witness: "addSelectionText sample_layout [] 1 5 Everything = qs '' wor''"
proof -
  have "all_texts (mc_elements sample_layout)" "list_all (\<lambda>e. getSelectionIndexCount e \<le> 2) (mc_elements sample_layout)"
    "take 4 (drop 1 (contents (mc_elements sample_layout))) = qs '' wor''"
    by code_simp+
  then show ?thesis using addSelectionText_slice [of sample_layout 1 5 "[]"] by (force simp: list_all_iff)
qed

lemma text_layout_copies_witness: "addSelectionText sample_layout [] 0 6 Everything = qs ''a word''"
proof -
  have "ef_has [EF_Text] [EF_Text]" "\<not> has 0 Collapsed" "length (qs ''a word'') = 6" "\<not> anyReorderingDone sample_layout"
    by code_simp+
  then show ?thesis
    using text_layout_copies [OF _ _ _ sample_layout_def] by simp
qed

lemma layout_lines_partition_witness: "spans (mc_lines sample_layout) = [0..<length (mc_elements sample_layout)]"
  using layout_lines_partition [OF laid_out_TextElement [OF laid_begin] sort_by_law sample_layout_def] by blast

text \<open>A message from right to left of a user name and three words, that collapses after its first line.\<close>

definition sample_rtl_api :: layout_api where
  "sample_rtl_api = sample_api\<lparr>isRightToLeft := (\<lambda>t. t \<noteq> [] \<and> hd t \<ge> 0x5D0)\<rparr>"

definition sample_rtl_settings :: layout_settings where
  "sample_rtl_settings = \<lparr>collpseMessagesMinLines = 1, removeSpacesBetweenEmotes = False\<rparr>"

definition sample_rtl :: layout_container where
  "sample_rtl = endLayout sample_rtl_api sample_rtl_settings sort_by
     (TextElement_addToContainer sample_rtl_api sample_rtl_settings [EF_Text] [EF_Text] True [[0x5D0], [0x5D1], [0x5D2]]
       (TextElement_addToContainer sample_rtl_api sample_rtl_settings [EF_Username] [EF_Username] True [qs ''u'']
       (beginLayout sample_rtl_api 110 (flag_value Collapsed) sample_container)))"


text \<open>The dots at its end are the leftmost element of their line, so the elements are sorted before the first word: the
  range of the last line, which was made for the dots, holds the first word instead.\<close>

lemma collapsed_rtl_dots_first:
  "mc_isCollapsed sample_rtl \<and>
    map el_text (mc_elements sample_rtl) = [qs ''...'', qs ''u'', [0x5D1], [0x5D0]] \<and>
    map (\<lambda>l. (startIndex l, endIndex l)) (mc_lines sample_rtl) = [(0, 3), (3, 4)]"
  by code_simp

text \<open>The blank behind the last element counts as a character of the container still, though it was taken away.\<close>

lemma last_blank_is_counted:
  "charIndex sample_layout = 7" "charCount (mc_elements sample_layout) = 6" "getLastCharacterIndex sample_layout = 7"
  by code_simp+

text \<open>The example of the header: in a message from right to left, 1R 2R 3N 4R 5L 6L 7N 8R are placed, from the right, as
  1 2 3 4 7 6 5 8.\<close>

lemma reorder_documented_example:
  "snd (reorderLoop (sample_api\<lparr>isRightToLeft := (\<lambda>t. t = qs ''R''), hasLetter := (\<lambda>t. t \<noteq> qs ''N'')\<rparr>) RTL [0..<8]
      (map (\<lambda>ch. textElement sample_api [EF_Text] 0 (qs [ch]) 10 True) ''RRNRLLNR'') False [] []) = [0, 1, 2, 3, 6, 5, 4, 7]"
  by code_simp

end
