(* ===== verification/MessageView.thy ===== *)
theory MessageView
  imports MessageLayout Selection "HOL-Library.Sublist"
begin

text \<open>
  \<open>messages/layouts/MessageLayout.cpp\<close>: when a message is laid out again, what of it is hidden, and the buffer it is
  painted from; of \<open>MessageLayoutContainer.cpp\<close> and \<open>MessageLayoutElement.cpp\<close>, the characters under the mouse and
  the rectangles of a selection.  Drawing itself is left out: the painted rectangles are a list.
\<close>

section \<open>The character under the mouse\<close>

text \<open>A character is hit up to half of its width; the products by 0.5 are doubled.\<close>

fun mouseLoop :: "layout_api \<Rightarrow> int \<Rightarrow> int \<Rightarrow> qstring \<Rightarrow> nat \<Rightarrow> nat option" where
  "mouseLoop api px x [] i = None"
| "mouseLoop api px x (ch # rest) i =
     (let width = horizontalAdvance api [ch] in
      if 2 * x + width > 2 * px then Some (if rest \<noteq> [] \<and> isLowSurrogate ch then i + 1 else i)
      else mouseLoop api px (x + width) rest (i + 1))"

definition getMouseOverIndex :: "layout_api \<Rightarrow> int \<Rightarrow> layout_element \<Rightarrow> nat" where
  "getMouseOverIndex api px e =
     (case el_kind e of
        TextKind \<Rightarrow>
          if px < el_x e then 0
          else (case mouseLoop api px (el_x e) (el_text e) 0 of
                  Some i \<Rightarrow> i
                | None \<Rightarrow> getSelectionIndexCount e - (if trailingSpace e then 1 else 0))
      | _ \<Rightarrow> 0)"

definition getXFromIndex :: "layout_api \<Rightarrow> layout_element \<Rightarrow> nat \<Rightarrow> int" where
  "getXFromIndex api e index =
     (if index = 0 then el_x e
      else case el_kind e of
        TextKind \<Rightarrow>
          if index < length (el_text e)
          then sum_list (map (\<lambda>ch. horizontalAdvance api [ch]) (take index (el_text e))) + el_x e
          else el_right e
      | _ \<Rightarrow> el_right e)"

definition line_contains :: "int \<Rightarrow> int \<Rightarrow> layout_line \<Rightarrow> bool" where
  "line_contains px py l = (-100000 \<le> px \<and> px < 100000 \<and> rect_top l \<le> py \<and> py < rect_top l + rect_height l)"

definition el_contains :: "int \<Rightarrow> int \<Rightarrow> layout_element \<Rightarrow> bool" where
  "el_contains px py e = (el_x e \<le> px \<and> px < el_x e + el_width e \<and> el_y e \<le> py \<and> py < el_y e + el_height e)"

definition getElementAt :: "int \<Rightarrow> int \<Rightarrow> layout_container \<Rightarrow> layout_element option" where
  "getElementAt px py c = List.find (el_contains px py) (mc_elements c)"

fun wordAt :: "layout_api \<Rightarrow> int \<Rightarrow> int \<Rightarrow> layout_element list \<Rightarrow> nat" where
  "wordAt api space px [] = 0"
| "wordAt api space px (e # es) =
     (if px \<le> el_right e + (if trailingSpace e then space else 0) then getMouseOverIndex api px e
      else getSelectionIndexCount e + wordAt api space px es)"

definition getSelectionIndex :: "layout_api \<Rightarrow> int \<Rightarrow> int \<Rightarrow> layout_container \<Rightarrow> nat" where
  "getSelectionIndex api px py c =
     (if mc_elements c = [] then 0
      else
        let rest = dropWhile (\<lambda>l. \<not> line_contains px py l) (mc_lines c);
            start = (case rest of [] \<Rightarrow> startIndex (last (mc_lines c)) | l # ls \<Rightarrow> startIndex l);
            lineEnd = (case rest of l # l' # ls \<Rightarrow> startIndex l' | _ \<Rightarrow> length (mc_elements c))
        in sum_list (map getSelectionIndexCount (take start (take lineEnd (mc_elements c)))) +
           wordAt api (spaceWidth c) px (drop start (take lineEnd (mc_elements c))))"

text \<open>\<open>getWordBounds\<close> of a message: the words of texts may be in several lines.\<close>

definition ml_getWordBounds :: "layout_api \<Rightarrow> int \<Rightarrow> int \<Rightarrow> layout_element \<Rightarrow> layout_container \<Rightarrow> int \<times> int" where
  "ml_getWordBounds api px py hovered c =
     (if wordId hovered \<noteq> -1 then (let (a, b) = getWordBounds hovered c in (int a, int b))
      else
        let wordStart = int (getSelectionIndex api px py c) - int (getMouseOverIndex api px hovered);
            selectionLength = int (getSelectionIndexCount hovered)
        in (wordStart, wordStart + (if trailingSpace hovered then selectionLength - 1 else selectionLength)))"

section \<open>The rectangles of a selection\<close>

text \<open>A rectangle: left, top, right, bottom.\<close>

type_synonym painted = "int \<times> int \<times> int \<times> int"

definition paintSelectionRect :: "layout_container \<Rightarrow> int \<Rightarrow> layout_line \<Rightarrow> int \<Rightarrow> int \<Rightarrow> painted" where
  "paintSelectionRect c yOffset line left right =
     (left, max 0 (rect_top line) + yOffset, right, min (mc_height c) (rect_top line + rect_height line - 1) + yOffset)"

definition lineLeft :: "layout_container \<Rightarrow> layout_line \<Rightarrow> int" where
  "lineLeft c line = el_x (mc_elements c ! startIndex line)"

definition lineRight :: "layout_container \<Rightarrow> layout_line \<Rightarrow> int" where
  "lineRight c line = el_right (mc_elements c ! (endIndex line - 1))"

definition paintLine :: "layout_container \<Rightarrow> int \<Rightarrow> layout_line \<Rightarrow> painted" where
  "paintLine c yOffset line = paintSelectionRect c yOffset line (lineLeft c line) (lineRight c line)"

definition line_elements :: "layout_container \<Rightarrow> layout_line \<Rightarrow> layout_element list" where
  "line_elements c line = take (endIndex line - startIndex line) (drop (startIndex line) (mc_elements c))"

text \<open>The position of a character in the elements of a line that start at \<open>index\<close>, if it is in one of them.\<close>

fun xOfChar :: "layout_api \<Rightarrow> nat \<Rightarrow> layout_element list \<Rightarrow> nat \<Rightarrow> int option" where
  "xOfChar api n [] index = None"
| "xOfChar api n (e # es) index =
     (if index + getSelectionIndexCount e > n then Some (getXFromIndex api e (n - index))
      else xOfChar api n es (index + getSelectionIndexCount e))"

definition rightOfChar :: "layout_api \<Rightarrow> layout_container \<Rightarrow> nat \<Rightarrow> layout_line \<Rightarrow> int" where
  "rightOfChar api c n line =
     (case xOfChar api n (line_elements c line) (startCharIndex line) of Some x \<Rightarrow> x | None \<Rightarrow> lineRight c line)"

text \<open>\<open>paintSelectionStart\<close>: \<open>lower\<close> and \<open>upper\<close> are the characters of the selection, \<open>ends\<close> whether it ends in this
  message; the line after the start is given when the selection goes on.\<close>

fun paintSelectionStart ::
  "layout_api \<Rightarrow> layout_container \<Rightarrow> int \<Rightarrow> nat \<Rightarrow> nat \<Rightarrow> bool \<Rightarrow> layout_line list \<Rightarrow> nat \<Rightarrow> painted list \<times> nat option" where
  "paintSelectionStart api c yOffset lower upper ends [] lineIndex = ([], None)"
| "paintSelectionStart api c yOffset lower upper ends (line # ls) lineIndex =
     (if lower \<ge> endCharIndex line then paintSelectionStart api c yOffset lower upper ends ls (lineIndex + 1)
      else if lower = endCharIndex line - 1 then
        let rect = paintSelectionRect c yOffset line (lineRight c line) (lineRight c line)
        in if \<not> ends then (rect # map (paintLine c yOffset) ls, None) else ([rect], Some (lineIndex + 1))
      else
        (case xOfChar api lower (line_elements c line) (startCharIndex line) of
           None \<Rightarrow> paintSelectionStart api c yOffset lower upper ends ls (lineIndex + 1)
         | Some x \<Rightarrow>
             if ends \<and> upper < endCharIndex line
             then ([paintSelectionRect c yOffset line x (rightOfChar api c upper line)], None)
             else
               let rect = paintSelectionRect c yOffset line x (lineRight c line)
               in if \<not> ends then (rect # map (paintLine c yOffset) ls, None) else ([rect], Some (lineIndex + 1))))"

fun paintSelectionEnd :: "layout_api \<Rightarrow> layout_container \<Rightarrow> int \<Rightarrow> nat \<Rightarrow> layout_line list \<Rightarrow> painted list" where
  "paintSelectionEnd api c yOffset upper [] = []"
| "paintSelectionEnd api c yOffset upper (line # ls) =
     (if endCharIndex line < upper then paintLine c yOffset line # paintSelectionEnd api c yOffset upper ls
      else [paintSelectionRect c yOffset line (lineLeft c line) (rightOfChar api c upper line)])"

definition paintSelection :: "layout_api \<Rightarrow> layout_container \<Rightarrow> 64 word \<Rightarrow> Selection \<Rightarrow> int \<Rightarrow> painted list" where
  "paintSelection api c message sel yOffset =
     (let lower = selectionMin sel; upper = selectionMax sel;
          lowerChar = unat (SelectionItem.charIndex lower); upperChar = unat (SelectionItem.charIndex upper) in
      if messageIndex lower > message \<or> messageIndex upper < message then []
      else if messageIndex lower < message \<and> messageIndex upper > message then map (paintLine c yOffset) (mc_lines c)
      else if messageIndex lower = message then
        (case paintSelectionStart api c yOffset lowerChar upperChar (messageIndex upper = message) (mc_lines c) 0 of
           (rects, None) \<Rightarrow> rects
         | (rects, Some k) \<Rightarrow> rects @ paintSelectionEnd api c yOffset upperChar (drop k (mc_lines c)))
      else paintSelectionEnd api c yOffset upperChar (mc_lines c))"

section \<open>Laying out again\<close>

datatype MessageLayoutFlag =
  RequiresBufferUpdate | RequiresLayout | AlternateBackground | CollapsedLayout | Expanded | IgnoreHighlights

text \<open>What a layout depends on; scales are of a type \<open>'s\<close>, compared only.  An element is its flags and its virtual
  method \<open>addToContainer\<close>.\<close>

record 's layout_ctx =
  lc_flags :: element_flags
  lc_width :: int
  lc_scale :: 's
  lc_imageScale :: 's

type_synonym 's message_element = "element_flags \<times> ('s layout_ctx \<Rightarrow> layout_container \<Rightarrow> layout_container)"

record 's layout_env =
  le_api :: "'s \<Rightarrow> layout_api"
  le_settings :: layout_settings
  le_sort :: element_sort
  generation :: int
  hideModerated :: bool
  hideModerationActions :: bool
  neverShowBlockedTerms :: bool
  le_hideSimilar :: bool
  streamerModeHideModActions :: bool
  streamerModeEnabled :: bool

text \<open>The buffer is the height of the container it was made for, if there is one.\<close>

record 's message_layout =
  ml_mflags :: flag_set
  ml_elements :: "'s message_element list"
  ml_flags :: "MessageLayoutFlag set"
  container :: layout_container
  ml_height :: int
  currentLayoutWidth :: int
  layoutState :: int
  ml_scale :: 's
  ml_imageScale :: 's
  currentWordFlags :: element_flags
  buffer :: "int option"
  bufferValid :: bool

definition invalidateBuffer :: "'s message_layout \<Rightarrow> 's message_layout" where
  "invalidateBuffer ml = ml\<lparr>bufferValid := False\<rparr>"

definition deleteBuffer :: "'s message_layout \<Rightarrow> 's message_layout" where
  "deleteBuffer ml = ml\<lparr>buffer := None\<rparr>"

definition hidesMessage :: "'s layout_env \<Rightarrow> flag_set \<Rightarrow> bool" where
  "hidesMessage env mflags =
     (hideModerated env \<and> has mflags Disabled \<or>
      neverShowBlockedTerms env \<and> has mflags AutoModBlockedTerm \<or>
      (has mflags Timeout \<or> has mflags Untimeout) \<and>
        (hideModerationActions env \<or> streamerModeHideModActions env \<and> streamerModeEnabled env) \<or>
      le_hideSimilar env \<and> has mflags Similar)"

text \<open>Flags of elements are sets: two lists are the same flags when they have the same bits.\<close>

definition same_flags :: "element_flags \<Rightarrow> element_flags \<Rightarrow> bool" where
  "same_flags fs gs = (set fs = set gs)"

definition actuallyLayout :: "'s layout_env \<Rightarrow> 's layout_ctx \<Rightarrow> 's message_layout \<Rightarrow> 's message_layout" where
  "actuallyLayout env ctx ml =
     (let mflags = ml_mflags ml;
          layoutFlags = (if Expanded \<in> ml_flags ml \<or> (ef_has (lc_flags ctx) [EF_ModeratorTools] \<and> \<not> has mflags Disabled)
            then flags_unset mflags (flag_value Collapsed) else mflags);
          hideReplies = (\<not> ef_has (lc_flags ctx) [EF_RepliedMessage]);
          api = le_api env (ml_scale ml);
          c = beginLayout api (lc_width ctx) layoutFlags (container ml);
          c = foldl (\<lambda>c (eflags, addToContainer).
                if hidesMessage env mflags \<or> hideReplies \<and> ef_has eflags [EF_RepliedMessage] then c
                else addToContainer ctx c) c (ml_elements ml);
          ml = (if ml_height ml \<noteq> mc_height c then deleteBuffer ml else ml);
          c = endLayout api (le_settings env) (le_sort env) c
      in ml\<lparr>container := c, ml_height := mc_height c,
            ml_flags := (if mc_isCollapsed c then insert CollapsedLayout (ml_flags ml) else ml_flags ml - {CollapsedLayout})\<rparr>)"

definition ml_layout :: "'s layout_env \<Rightarrow> 's layout_ctx \<Rightarrow> bool \<Rightarrow> 's message_layout \<Rightarrow> bool \<times> 's message_layout" where
  "ml_layout env ctx shouldInvalidateBuffer ml =
     (let widthChanged = (lc_width ctx \<noteq> currentLayoutWidth ml);
          generationChanged = (layoutState ml \<noteq> generation env);
          layoutRequired = (widthChanged \<or> generationChanged \<or> \<not> same_flags (currentWordFlags ml) (lc_flags ctx) \<or>
            RequiresLayout \<in> ml_flags ml \<or> ml_scale ml \<noteq> lc_scale ctx \<or> ml_imageScale ml \<noteq> lc_imageScale ctx);
          ml = ml\<lparr>currentLayoutWidth := lc_width ctx, layoutState := generation env, currentWordFlags := lc_flags ctx,
                 ml_scale := lc_scale ctx, ml_imageScale := lc_imageScale ctx,
                 ml_flags := (if generationChanged then insert RequiresBufferUpdate (ml_flags ml) else ml_flags ml) - {RequiresLayout}\<rparr>
      in if \<not> layoutRequired then if shouldInvalidateBuffer then (True, invalidateBuffer ml) else (False, ml)
         else
           let oldHeight = mc_height (container ml);
               ml = actuallyLayout env ctx ml;
               ml = (if widthChanged \<or> mc_height (container ml) \<noteq> oldHeight then deleteBuffer ml else ml)
           in (True, invalidateBuffer ml))"

text \<open>\<open>paint\<close> makes the buffer when there is none (\<open>ensureBuffer\<close>) and draws it when it is not valid.\<close>

definition ensureBuffer :: "'s message_layout \<Rightarrow> 's message_layout" where
  "ensureBuffer ml =
     (if buffer ml \<noteq> None then ml else ml\<lparr>buffer := Some (mc_height (container ml)), bufferValid := False\<rparr>)"

definition paint :: "'s message_layout \<Rightarrow> bool \<times> 's message_layout" where
  "paint ml = (let ml = ensureBuffer ml in (\<not> bufferValid ml, ml\<lparr>bufferValid := True\<rparr>))"

definition isReplyable :: "string \<Rightarrow> flag_set \<Rightarrow> bool" where
  "isReplyable login mflags =
     (if login = [] then False
      else if hasAny mflags (flags_of [System, Subscription, Timeout, Whisper]) then False
      else True)"

text \<open>The color that \<open>updateBuffer\<close> blends over the background, or takes instead of it.\<close>

datatype background =
    Plain | ElevatedMessageHighlight | FirstMessageHighlight | HighlightColor | SubscriptionHighlight
  | RedeemedHighlightColor | AutomodHighlight | Solid string | WebchatColor

record background_settings =
  enableElevatedMessageHighlight :: bool
  enableFirstMessageHighlight :: bool
  enableSubHighlight :: bool
  enableRedeemedHighlight :: bool
  enableAutomodHighlight :: bool
  normalNonceDetection :: bool

definition backgroundOf :: "background_settings \<Rightarrow> bool \<Rightarrow> MessageLayoutFlag set \<Rightarrow> flag_set \<Rightarrow> background" where
  "backgroundOf bs hasHighlightColor lflags mflags =
     (if has mflags ElevatedMessage \<and> enableElevatedMessageHighlight bs then ElevatedMessageHighlight
      else if has mflags FirstMessage \<and> enableFirstMessageHighlight bs then FirstMessageHighlight
      else if (has mflags Highlighted \<or> has mflags HighlightedWhisper) \<and> IgnoreHighlights \<notin> lflags
        then if hasHighlightColor then HighlightColor else Plain
      else if has mflags Subscription \<and> enableSubHighlight bs then SubscriptionHighlight
      else if (has mflags RedeemedHighlight \<or> has mflags RedeemedChannelPointReward) \<and> enableRedeemedHighlight bs
        then RedeemedHighlightColor
      else if has mflags AutoMod \<or> has mflags LowTrustUsers
        then if enableAutomodHighlight bs \<and> (has mflags AutoModOffendingMessage \<or> has mflags AutoModOffendingMessageHeader)
             then AutomodHighlight else Solid ''#404040''
      else if has mflags Debug then Solid ''#4A273D''
      else if has mflags WebchatDetected \<and> normalNonceDetection bs then WebchatColor
      else Plain)"

section \<open>Properties\<close>

lemma mouseLoop_past:
  assumes "\<forall>c\<in>set pre. horizontalAdvance api [c] \<ge> 0" "horizontalAdvance api [ch] > 0" "rest \<noteq> [] \<longrightarrow> \<not> isLowSurrogate ch"
    "px = x + sum_list (map (\<lambda>ch. horizontalAdvance api [ch]) pre)"
  shows "mouseLoop api px x (pre @ ch # rest) i = Some (i + length pre)"
  using assms
proof (induction pre arbitrary: x i)
  case (Cons a pre)
  have "sum_list (map (\<lambda>ch. horizontalAdvance api [ch]) pre) \<ge> 0"
    using Cons.prems(1) by (intro sum_list_nonneg) auto
  moreover have "horizontalAdvance api [a] \<ge> 0" using Cons.prems(1) by simp
  ultimately have "\<not> 2 * x + horizontalAdvance api [a] > 2 * px" using Cons.prems(4) by simp
  then show ?case using Cons.IH [of "x + horizontalAdvance api [a]" "i + 1"] Cons.prems by (simp add: Let_def)
qed (auto simp: Let_def)

text \<open>
  C38. The mouse over the place where a character of a text starts is over this character, so a selection starts where it
  is painted.  The character takes up room and is not the second half of a surrogate pair; those before it may
  have no width, as combining marks have.\<close>

theorem getMouseOverIndex_getXFromIndex:
  assumes "el_kind e = TextKind" "\<forall>ch\<in>set (take i (el_text e)). horizontalAdvance api [ch] \<ge> 0"
    "i < length (el_text e)" "horizontalAdvance api [el_text e ! i] > 0" "\<not> isLowSurrogate (el_text e ! i)"
  shows "getMouseOverIndex api (getXFromIndex api e i) e = i"
proof -
  let ?w = "\<lambda>ch. horizontalAdvance api [ch]"
  let ?pre = "take i (el_text e)"
  have x: "getXFromIndex api e i = el_x e + sum_list (map ?w ?pre)" using assms(1,3) by (simp add: getXFromIndex_def)
  have t: "el_text e = ?pre @ el_text e ! i # drop (Suc i) (el_text e)" using id_take_nth_drop [OF assms(3)] .
  from mouseLoop_past [OF assms(2,4) _ refl, of "drop (Suc i) (el_text e)" "el_x e" 0] assms(3,5) t
  have "mouseLoop api (el_x e + sum_list (map ?w ?pre)) (el_x e) (el_text e) 0 = Some i" by simp
  moreover have "sum_list (map ?w ?pre) \<ge> 0" using assms(2) by (intro sum_list_nonneg) auto
  ultimately show ?thesis using assms(1) x by (simp add: getMouseOverIndex_def)
qed

text \<open>The top and the bottom of the rectangle of a line.\<close>

definition band :: "layout_container \<Rightarrow> int \<Rightarrow> layout_line \<Rightarrow> int \<times> int" where
  "band c yOffset line = (max 0 (rect_top line) + yOffset, min (mc_height c) (rect_top line + rect_height line - 1) + yOffset)"

definition band_of :: "painted \<Rightarrow> int \<times> int" where
  "band_of rect = (case rect of (l, t, r, b) \<Rightarrow> (t, b))"

lemma band_of_paint [simp]:
  "band_of (paintSelectionRect c yOffset line l r) = band c yOffset line"
  "band_of (paintLine c yOffset line) = band c yOffset line"
  by (simp_all add: band_of_def paintSelectionRect_def paintLine_def band_def)

lemma paintSelectionEnd_prefix:
  "prefix (map band_of (paintSelectionEnd api c yOffset upper ls)) (map (band c yOffset) ls)"
  by (induction ls) (simp_all add: comp_def)

lemma paintSelectionStart_lines:
  "(case paintSelectionStart api c yOffset lower upper ends ls k of
      (rects, None) \<Rightarrow> sublist (map band_of rects) (map (band c yOffset) ls)
    | (rects, Some n) \<Rightarrow> \<exists>pre line post. ls = pre @ line # post \<and> n = k + length pre + 1 \<and>
        map band_of rects = [band c yOffset line])"
proof (induction ls arbitrary: k)
  case (Cons line ls)
  let ?goal = "\<lambda>r. case r of (rects, None) \<Rightarrow> sublist (map band_of rects) (map (band c yOffset) (line # ls))
    | (rects, Some n) \<Rightarrow> \<exists>pre l post. line # ls = pre @ l # post \<and> n = k + length pre + 1 \<and> map band_of rects = [band c yOffset l]"
  define G where "G = ?goal"
  have later: "?goal (paintSelectionStart api c yOffset lower upper ends ls (k + 1))"
  proof (cases "paintSelectionStart api c yOffset lower upper ends ls (k + 1)")
    case (Pair rects n)
    show ?thesis
    proof (cases n)
      case None
      then show ?thesis using Cons.IH [of "k + 1"] Pair by (simp add: sublist_Cons_right)
    next
      case (Some m)
      then obtain pre l post where "ls = pre @ l # post" "m = k + 1 + length pre + 1" "map band_of rects = [band c yOffset l]"
        using Cons.IH [of "k + 1"] Pair by auto
      then have "line # ls = (line # pre) @ l # post \<and> m = k + length (line # pre) + 1 \<and> map band_of rects = [band c yOffset l]"
        by simp
      then show ?thesis unfolding Pair Some by (simp only: prod.case option.case) blast
    qed
  qed
  have all: "?goal (paintSelectionRect c yOffset line a b # map (paintLine c yOffset) ls, None)" for a b
    by (simp add: comp_def)
  have one: "?goal ([paintSelectionRect c yOffset line a b], None)" for a b
    by (simp add: sublist_Cons_right)
  have first: "?goal ([paintSelectionRect c yOffset line a b], Some (k + 1))" for a b
    by (simp add: exI [of _ "[] :: layout_line list"])
  have "G (paintSelectionStart api c yOffset lower upper ends (line # ls) k)"
    using later all one first unfolding G_def [symmetric] by (cases ends) (simp_all add: Let_def split: option.split)
  then show ?case unfolding G_def .
qed simp

text \<open>
  A selection is painted over a run of lines of the message: each of them once, in order, and none between them is
  left out.\<close>

theorem paintSelection_run_of_lines:
  "sublist (map band_of (paintSelection api c message sel yOffset)) (map (band c yOffset) (mc_lines c))"
proof -
  let ?upper = "unat (SelectionItem.charIndex (selectionMax sel))"
  have fin: "sublist (map band_of (paintSelectionEnd api c yOffset ?upper ls)) (map (band c yOffset) ls)" for ls
    using paintSelectionEnd_prefix prefix_imp_sublist by metis
  have start: "sublist (map band_of (case paintSelectionStart api c yOffset lower ?upper ends (mc_lines c) 0 of
           (rects, None) \<Rightarrow> rects
         | (rects, Some k) \<Rightarrow> rects @ paintSelectionEnd api c yOffset ?upper (drop k (mc_lines c)))) (map (band c yOffset) (mc_lines c))"
    for lower ends
  proof (cases "paintSelectionStart api c yOffset lower ?upper ends (mc_lines c) 0")
    case (Pair rects n)
    show ?thesis
    proof (cases n)
      case None
      then show ?thesis using paintSelectionStart_lines
          [where api = api and c = c and yOffset = yOffset and lower = lower and upper = ?upper and ends = ends and ls = "mc_lines c" and k = 0] Pair by simp
    next
      case (Some k)
      then obtain pre l post where l: "mc_lines c = pre @ l # post" "k = length pre + 1" "map band_of rects = [band c yOffset l]"
        using paintSelectionStart_lines
          [where api = api and c = c and yOffset = yOffset and lower = lower and upper = ?upper and ends = ends and ls = "mc_lines c" and k = 0] Pair by auto
      then have "drop k (mc_lines c) = post" by simp
      moreover obtain rest where "map (band c yOffset) post = map band_of (paintSelectionEnd api c yOffset ?upper post) @ rest"
        using paintSelectionEnd_prefix prefixE by metis
      ultimately have "map (band c yOffset) (mc_lines c) = map (band c yOffset) pre @
          map band_of (rects @ paintSelectionEnd api c yOffset ?upper (drop k (mc_lines c))) @ rest" using l by simp
      then show ?thesis unfolding Pair Some sublist_def by auto
    qed
  qed
  show ?thesis unfolding paintSelection_def Let_def
    using start fin by (auto simp: comp_def)
qed

text \<open>
  A message that was just laid out is not laid out again: with the same context and the same generation of the
  settings, the second call changes nothing and asks for no redraw.\<close>

theorem layout_again:
  "ml_layout env ctx False (snd (ml_layout env ctx b ml)) = (False, snd (ml_layout env ctx b ml))"
proof -
  define settled where "settled = (\<lambda>m :: 'a message_layout. currentLayoutWidth m = lc_width ctx \<and> layoutState m = generation env \<and>
    currentWordFlags m = lc_flags ctx \<and> ml_scale m = lc_scale ctx \<and> ml_imageScale m = lc_imageScale ctx \<and> RequiresLayout \<notin> ml_flags m)"
  have keep: "settled m \<Longrightarrow> settled (actuallyLayout env ctx m)" "settled m \<Longrightarrow> settled (invalidateBuffer m)"
    "settled m \<Longrightarrow> settled (deleteBuffer m)" for m
    by (simp_all add: settled_def actuallyLayout_def Let_def invalidateBuffer_def deleteBuffer_def)
  have "settled (snd (ml_layout env ctx b ml))"
    unfolding ml_layout_def Let_def using keep by (auto simp: settled_def)
  then show ?thesis
    by (simp add: settled_def ml_layout_def Let_def same_flags_def)
qed

text \<open>
  A message that is hidden as moderated, similar or as a moderation action is laid out without any element, whatever
  its elements are.\<close>

theorem hidden_message_is_empty:
  assumes "hidesMessage env (ml_mflags ml)" "std_sort_law (le_sort env)"
  shows "mc_elements (container (actuallyLayout env ctx ml)) = []"
proof -
  have skip: "foldl (\<lambda>c (eflags, add). if hidesMessage env (ml_mflags ml) \<or> P \<and> Q eflags then c else add ctx c) c es = c"
    for P Q c and es :: "'a message_element list"
    using assms(1) by (induction es) auto
  have "mc_elements (endLayout api st (le_sort env) (beginLayout api w fs c)) = []" for api st w fs c
    using std_sortD(3) [OF assms(2) elementBefore_strict_weak, of "[]"] by (simp add: endLayout_def collapseEnd_def Let_def beginLayout_def atStartOfLine_def)
  then show ?thesis by (simp add: actuallyLayout_def Let_def skip)
qed

text \<open>The life of a message in a view: it is laid out, painted, and its buffer is invalidated or thrown away.\<close>

inductive view_reach :: "'s message_layout \<Rightarrow> bool" where
  view_new: "buffer ml = None \<Longrightarrow> view_reach ml"
| view_layout: "view_reach ml \<Longrightarrow> view_reach (snd (ml_layout env ctx b ml))"
| view_paint: "view_reach ml \<Longrightarrow> view_reach (snd (paint ml))"
| view_invalidate: "view_reach ml \<Longrightarrow> view_reach (invalidateBuffer ml)"
| view_delete: "view_reach ml \<Longrightarrow> view_reach (deleteBuffer ml)"
| view_flags: "view_reach ml \<Longrightarrow> view_reach (ml\<lparr>ml_flags := fs\<rparr>)"

definition buffer_fits :: "'s message_layout \<Rightarrow> bool" where
  "buffer_fits ml \<longleftrightarrow> buffer ml = None \<or> buffer ml = Some (mc_height (container ml))"

lemma buffer_actuallyLayout: "buffer (actuallyLayout env ctx ml) = None \<or> buffer (actuallyLayout env ctx ml) = buffer ml"
  by (auto simp: actuallyLayout_def Let_def deleteBuffer_def)

lemma buffer_fits_layout:
  assumes "buffer_fits ml"
  shows "buffer_fits (snd (ml_layout env ctx b ml))"
proof -
  have un: "snd (if p then if q then (True, x) else (False, y) else (True, z)) =
      (if p then if q then x else y else z)" for p q and x y z :: "'a message_layout"
    by simp
  have inval: "buffer_fits (invalidateBuffer m) = buffer_fits m" for m :: "'a message_layout"
    by (simp add: buffer_fits_def invalidateBuffer_def)
  have del: "buffer_fits (deleteBuffer m)" for m :: "'a message_layout"
    by (simp add: buffer_fits_def deleteBuffer_def)
  have same: "buffer_fits (actuallyLayout env ctx m)"
    if "mc_height (container (actuallyLayout env ctx m)) = mc_height (container m)" "buffer_fits m" for m
    using that buffer_actuallyLayout [of env ctx m] by (auto simp: buffer_fits_def)
  define ml' where "ml' = ml\<lparr>currentLayoutWidth := lc_width ctx, layoutState := generation env, currentWordFlags := lc_flags ctx,
     ml_scale := lc_scale ctx, ml_imageScale := lc_imageScale ctx,
     ml_flags := (if layoutState ml \<noteq> generation env then insert RequiresBufferUpdate (ml_flags ml) else ml_flags ml) - {RequiresLayout}\<rparr>"
  have "buffer_fits ml'" using assms by (simp add: ml'_def buffer_fits_def)
  then show ?thesis
    unfolding ml_layout_def Let_def ml'_def [symmetric] un using same [of ml'] by (simp add: inval del)
qed

text \<open>
  C37. The buffer that a message is painted from always has the height of its layout: when a layout changes the height, the
  old buffer is gone.\<close>

theorem buffer_fits_layouts:
  assumes "view_reach ml"
  shows "buffer_fits ml"
  using assms
proof (induction rule: view_reach.induct)
  case (view_layout ml env ctx b)
  show ?case using view_layout.IH by (rule buffer_fits_layout)
qed (auto simp: buffer_fits_def paint_def ensureBuffer_def invalidateBuffer_def deleteBuffer_def Let_def)

text \<open>A message in a view that is laid out and painted.\<close>

definition sample_layout_env :: "unit layout_env" where
  "sample_layout_env = \<lparr>le_api = (\<lambda>_. sample_api), le_settings = sample_layout_settings, le_sort = sort_by, generation = 1,
     hideModerated = True, hideModerationActions = False, neverShowBlockedTerms = False, le_hideSimilar = False,
     streamerModeHideModActions = False, streamerModeEnabled = False\<rparr>"

definition sample_ctx :: "unit layout_ctx" where
  "sample_ctx = \<lparr>lc_flags = [EF_Text], lc_width = 40, lc_scale = (), lc_imageScale = ()\<rparr>"

definition sample_message_layout :: "flag_set \<Rightarrow> unit message_layout" where
  "sample_message_layout mflags = \<lparr>ml_mflags = mflags,
     ml_elements = [([EF_Text], \<lambda>ctx. TextElement_addToContainer sample_api sample_layout_settings (lc_flags ctx) [EF_Text] True
       (splitOn 0x20 (qs ''a word'')))],
     ml_flags = {}, container = sample_container, ml_height = 0, currentLayoutWidth = -1, layoutState = -1, ml_scale = (),
     ml_imageScale = (), currentWordFlags = [], buffer = None, bufferValid = False\<rparr>"

lemma buffer_fits_layouts_witness:
  "buffer_fits (snd (paint (snd (ml_layout sample_layout_env sample_ctx True (sample_message_layout 0)))))"
  by (intro buffer_fits_layouts view_reach.intros) (simp add: sample_message_layout_def)

lemma hidden_message_is_empty_witness:
  "mc_elements (container (actuallyLayout sample_layout_env sample_ctx (sample_message_layout (flag_value Disabled)))) = []"
proof (rule hidden_message_is_empty)
  show "hidesMessage sample_layout_env (ml_mflags (sample_message_layout (flag_value Disabled)))" by code_simp
qed (simp add: sample_layout_env_def sort_by_law)

lemma sample_message_layout_shown:
  "map el_text (mc_elements (container (actuallyLayout sample_layout_env sample_ctx (sample_message_layout 0)))) =
    [qs ''a'', qs ''wo'', qs ''rd'']"
  by code_simp

lemma getMouseOverIndex_getXFromIndex_witness:
  "getMouseOverIndex sample_api (getXFromIndex sample_api (mc_elements sample_layout ! 1) 1) (mc_elements sample_layout ! 1) = 1"
proof (rule getMouseOverIndex_getXFromIndex)
  show "el_kind (mc_elements sample_layout ! 1) = TextKind" "1 < length (el_text (mc_elements sample_layout ! 1))"
    "\<not> isLowSurrogate (el_text (mc_elements sample_layout ! 1) ! 1)"
    by code_simp+
qed (simp_all add: sample_api_def)

end
