(* ===== verification/Spec2Isabelle.thy ===== *)
theory Spec2Isabelle
  imports LimitedQueue FilterProps ChannelProps Selection Ratelimit PubSub CategoryModels WindowLayout
    Highlights Ignores Completion Emojis Search LiveController EventSub Commands TwitchSend TwitchServer
    MessageView
begin

text \<open>
  Forserino: a Twitch chat client.

  The program shows chat channels.  A message arrives as an IRC line or a live update, is built
  into a shared \<open>Message\<close> object (tags are decoded, emotes and links found, ignored phrases replaced,
  highlights checked), is added to the channel it belongs to, which keeps the newest messages in a
  bounded buffer and tells its listeners by signals, and is shown in the splits whose filters accept
  it.  Splits are arranged in the tabs of windows, whose layout is saved and loaded; settings are edited
  in tables over vectors that signal their changes.  This development models the parts of that which
  are the program's own logic.  Sources are under \<open>src/src/\<close>.

  Shared theories:

  \<^item> \<open>Prelude\<close>: the error monad (a sum with the error on the left), C++ \<open>int\<close> arithmetic, list lemmas,
    splitting, sorted association lists for \<open>QMap\<close> and \<open>std::map\<close>, and what \<open>std::sort\<close> promises
    (\<open>std_sort_law\<close>: nothing but for a strict weak order).  \<open>SampleText\<close>: decimal texts and a
    concrete letter case, for parameters and witnesses.
  \<^item> \<open>StringHelpers\<close> (\<open>util/Helpers.cpp\<close>, \<open>util/FormatTime.cpp\<close>): durations in 64-bit words, slices by code
    point, batches, mentions.  \<open>LinkParser\<close> (\<open>common/LinkParser.cpp\<close>): finding links, with positions as the
    code keeps them.  \<open>TwitchTags\<close> (\<open>util/IrcHelpers.hpp\<close>, \<open>providers/twitch/TwitchIrc.cpp\<close>,
    \<open>providers/twitch/TwitchBadge.cpp\<close>): tags, badges and emote positions on UTF-16 code units.

  Messages and channels:

  \<^item> \<open>LimitedQueue\<close> (\<open>messages/LimitedQueue.hpp\<close>): the bounded buffer, one definition per method.
    The locale \<open>bounded_buffer\<close> states what a bounded buffer promises, and is interpreted on the
    model's \<open>pushBack\<close>.
  \<^item> \<open>Messages\<close> (\<open>common/FlagsEnum.hpp\<close>, \<open>messages/MessageFlag.hpp\<close>, \<open>messages/Message.hpp\<close>): flag sets
    on 64-bit words, and messages.
  \<^item> \<open>ChannelHelpers\<close> (\<open>util/ChannelHelpers.hpp\<close> and the message builders it calls): merging timeouts
    and clears.  Messages are shared objects whose flags change in place: a pointer is an index
    into the record \<open>heap\<close>, which the states of the buffers extend.  The locale \<open>message_sink\<close> is what
    the templates need of a buffer; the effect of merging is proved once inside it.
  \<^item> \<open>Similarity\<close> (\<open>messages/MessageSimilarity.cpp\<close>): the longest-common-substring table and the
    similarity flags.
  \<^item> \<open>VectorMessageSink\<close> (\<open>util/VectorMessageSink.cpp\<close>) and \<open>Channel\<close> (\<open>common/Channel.cpp\<close>): the two
    buffers, each an interpretation of \<open>message_sink\<close>.  \<open>ChannelProps\<close>: the properties of channels.
  \<^item> \<open>Search\<close> (\<open>messages/search/\<close>, \<open>widgets/helper/SearchPopup.cpp\<close>): search predicates and filtering a
    snapshot into a new channel, on top of \<open>Channel\<close> and \<open>LinkParser\<close>.
  \<^item> \<open>Selection\<close> (\<open>messages/Selection.hpp\<close>): selected ranges, with the order of positions as an
    instance of \<open>linorder\<close>.
  \<^item> \<open>MessageLayout\<close> (\<open>messages/layouts/MessageLayoutContainer.cpp\<close>, \<open>MessageLayoutElement.cpp\<close>, and
    \<open>TextElement\<close> of \<open>messages/MessageElement.cpp\<close>): placing the elements of a message in lines, reordering
    text from right to left, wrapping words, and copying selections.  \<open>MessageView\<close>
    (\<open>messages/layouts/MessageLayout.cpp\<close>): when a message is laid out again, what of it is hidden, its buffer,
    the character under the mouse, and the rectangles a selection is painted as.  The elements other
    than texts are given by their virtual method \<open>addToContainer\<close>.

  What is done to a message while it is built, and to the text a user types:

  \<^item> \<open>FilterTypes\<close>, \<open>FilterTokens\<close>, \<open>FilterExpr\<close>, \<open>FilterParser\<close>, \<open>FilterLang\<close> (\<open>controllers/filters/\<close>):
    the language of message filters, from the lexer to filter sets.  The five classes of
    expressions are one datatype, their virtual methods recursive functions; the parse methods are
    mutually recursive functions over the state of the parser.  \<open>FilterSample\<close>, \<open>FilterProps\<close>: a concrete
    instance of the Qt functions, and the properties of filters.
  \<^item> \<open>Ignores\<close> (\<open>controllers/ignores/\<close>): replacing ignored phrases, with the positions of emotes that move
    along.  \<open>Highlights\<close> (\<open>controllers/highlights/\<close>): the checks built from the settings and their
    combination.
  \<^item> \<open>Commands\<close> (\<open>controllers/commands/CommandController.cpp\<close>): the map of user commands that follows
    their table, which command a text runs, and the expansion of templates, whose regular expression is
    written out as a matcher.
  \<^item> \<open>Emojis\<close> (\<open>providers/emoji/Emojis.cpp\<close>): finding emojis, replacing short codes.  \<open>Completion\<close>
    (\<open>controllers/completion/\<close>): strategies, sources and the tab completion model.
  \<^item> \<open>TwitchSend\<close> (\<open>providers/twitch/TwitchIrcServer.cpp\<close>, \<open>TwitchChannel.cpp\<close>): a message that repeats the
    last one is changed, at most 19 (or 99) messages go out in 32 seconds, the color of the user is
    changed with each message if so set, and it is sent over IRC or the API.  The replies of the API
    are events; times are in nanoseconds.

  Settings tables, windows and network state machines:

  \<^item> \<open>SignalVector\<close>, \<open>SignalVectorModel\<close>, \<open>TableModels\<close> (\<open>common/SignalVector.hpp\<close>,
    \<open>common/SignalVectorModel.hpp\<close> and six models): vectors with their signals, the generic table model with
    its virtual hooks as a record of functions, and how rows are read and written.  \<open>CategoryModels\<close>: the
    models of hotkeys and accounts, whose tables have header rows.
  \<^item> \<open>SplitTree\<close>, \<open>SplitTreeDrag\<close>, \<open>SplitContainer\<close> (\<open>widgets/splits/SplitContainer.cpp\<close>): the tree of
    splits as a datatype whose nodes have the ids that stand for their addresses, dragging, and the operations
    of a tab with their invariant.  \<open>WindowLayout\<close> (\<open>common/WindowDescriptors.cpp\<close>,
    \<open>singletons/WindowManager.cpp\<close>): saving, loading and activating, and the step relation of a tab that
    starts empty or is restored from a layout.
  \<^item> \<open>Ratelimit\<close> (\<open>util/RatelimitBucket.cpp\<close>, \<open>util/ExponentialBackoff.hpp\<close>), \<open>PubSub\<close>
    (\<open>providers/liveupdates/\<close>), \<open>LiveController\<close> (\<open>controllers/twitch/LiveController.cpp\<close>) and \<open>EventSub\<close>
    (\<open>providers/twitch/eventsub/Controller.cpp\<close>): state machines, as inductive step and run relations with
    invariants by rule induction.  The timers of \<open>Ratelimit\<close> are coarse timers of Qt, which may fire 5% too
    early or any time late.  In \<open>EventSub\<close> each operation is one step, as is a timer with its
    handler; the invariant holds in calm runs, and the races outside them are shown by concrete runs.
    Retries are bounded by ten, as in the code.
  \<^item> \<open>TwitchServer\<close> (\<open>providers/irc/IrcConnection2.cpp\<close>, \<open>providers/twitch/TwitchIrcServer.cpp\<close>,
    \<open>TwitchChannel.cpp\<close>): the read and the write connection with their pings and reconnects, the map of
    channels, joining them through the bucket of \<open>Ratelimit\<close>, and the history that is loaded after a
    reconnect.  The socket is the environment, and closing it is immediate.  The names of channels are
    taken to be clean already, since they are cleaned twice and two leading # are lost.

  What the lemmas show.  Filters: the parser is total (each parse function has fuel, and ten units
  per token left plus ten are enough, which is what the constructor passes), evaluation respects
  the synthesized type, and the only faults are integer operations.  Channels: what adding,
  merging, disabling, filling in and searching do to the buffer, the flags and the signals.  Text
  functions: the loops, with their offsets and fixed-width counters, agree with definitions on plain
  lists, or invert each other.  Tables and splits: what is shown stays in step with what is stored,
  and no call fails in a reachable state; laying out, copying and pointing at a message agree on its characters
  and lines; the loader of layouts is total (its fuel is the depth of the
  JSON value plus one).  State machines: nothing is lost, limits are kept, and what is pending is
  waited for.  Some properties state where the code departs from its documentation or from what
  it means to do.

  Code outside the repository is a parameter, with its documented laws as hypotheses:
  \<open>boost::circular_buffer\<close> is the record \<open>circular_buffer\<close> with \<open>circular_buffer_laws\<close>; the Qt functions
  that are used are the records \<open>qt_api\<close>, \<open>qchar_api\<close>, \<open>cell_api\<close> (table cells), \<open>json_api\<close>, and the fields of
  \<open>ignore_api\<close>, \<open>highlight_api\<close>, \<open>completion_api\<close> and \<open>search_api\<close> (regular expressions and comparison of
  texts, \<open>std::sort\<close>, \<open>std::partition\<close>); \<open>layout_api\<close> is the font, the direction of texts and the products
  with the floating-point scale; \<open>send_api\<close> and \<open>server_env\<close> are what sending and joining ask of the rest of the
  program; \<open>channel_api\<close> is the Twitch server that owns the channels; the
  iteration order of hash containers is the argument \<open>order\<close>; the websocket library and the Twitch API are
  the environment of the step relations; the floating-point quotient of the similarity is the argument
  \<open>fdiv\<close>.

  Not modelled: drawing, widgets, settings storage, network requests and the JSON of
  remote services, the handlers that turn IRC messages into builder calls, what built-in commands
  do, and plugins.  Strings are lists of one-byte code units where only ASCII matters and of UTF-16 units where
  surrogates do; the positions of characters in a message, \<open>uint32_t\<close> in the code, are \<open>nat\<close> in the layout;
  mutexes serialise operations and are left out; the elements of a built message are
  modelled by the layout only, elsewhere its text is kept.
\<close>

end
